(* ===== verification/Prelude.thy ===== *)
theory Prelude
  imports Main "HOL-Library.Word"
begin

text \<open>
  Shared ground of the development: the machine types of the 32-bit i386 target, the
  wrap-around of its unsigned and signed integers written out on \<open>nat\<close> and \<open>int\<close>, the
  error numbers of \<open>common/include/errnovalues.h\<close> that the modelled code returns, the address
  arithmetic of \<open>kernel/include/misc.hpp\<close>, and generic lemmas on lists and maps.
\<close>

unbundle bit_operations_syntax

named_theorems wrap_simps \<open>removing the 32-bit wrap-around from values in range\<close>

type_synonym byte = "8 word"
type_synonym dword = "32 word"

section \<open>Machine integers\<close>

text \<open>
  \<open>u32\<close> is the value of an \<^verbatim>\<open>unsigned\<close>/\<^verbatim>\<open>size_t\<close>/\<^verbatim>\<open>uintptr_t\<close> expression whose exact value is
  the argument; \<open>i32\<close> is the same for \<^verbatim>\<open>int\<close> (two's complement, as the compiled code computes).
\<close>

definition u32 :: "nat \<Rightarrow> nat" where
  "u32 n = n mod 2 ^ 32"

definition i32 :: "int \<Rightarrow> int" where
  "i32 x = (x + 2 ^ 31) mod 2 ^ 32 - 2 ^ 31"

definition in_i32 :: "int \<Rightarrow> bool" where
  "in_i32 x \<longleftrightarrow> - (2 ^ 31) \<le> x \<and> x < 2 ^ 31"

text \<open>\<open>sub32\<close> is unsigned subtraction, which wraps below zero.\<close>

definition sub32 :: "nat \<Rightarrow> nat \<Rightarrow> nat" where
  "sub32 a b = (a + (2 ^ 32 - b mod 2 ^ 32)) mod 2 ^ 32"

abbreviation U32_MAX :: nat where
  "U32_MAX \<equiv> 4294967295"

lemma u32_small [wrap_simps]: "n < 2 ^ 32 \<Longrightarrow> u32 n = n"
  by (simp add: u32_def)

lemma u32_less [simp]: "u32 n < 2 ^ 32"
  by (simp add: u32_def)

lemma u32_le [simp]: "u32 n \<le> n"
  by (simp add: u32_def)

lemma i32_small [wrap_simps]: "in_i32 x \<Longrightarrow> i32 x = x"
  by (simp add: in_i32_def i32_def)

lemma in_i32_i32 [simp]: "in_i32 (i32 x)"
proof -
  have "0 \<le> (x + 2 ^ 31) mod 2 ^ 32" "(x + 2 ^ 31) mod 2 ^ 32 < 2 ^ 32"
    by simp_all
  then show ?thesis by (simp add: in_i32_def i32_def)
qed

lemma sub32_small [wrap_simps]: "b \<le> a \<Longrightarrow> a < 2 ^ 32 \<Longrightarrow> sub32 a b = a - b"
proof -
  assume a: "b \<le> a" "a < 2 ^ 32"
  then have "a + (2 ^ 32 - b mod 2 ^ 32) = (a - b) + 2 ^ 32"
    by simp
  then have "sub32 a b = (a - b) mod 2 ^ 32"
    unfolding sub32_def by (metis mod_add_self2)
  then show ?thesis using a by simp
qed

section \<open>Error numbers\<close>

text \<open>Kernel and library return a failure as a negated error number.\<close>

(* src/common/include/errnovalues.h:3-3 ESUCCESS *)
abbreviation (input) ESUCCESS :: int where
  "ESUCCESS \<equiv> 0"

(* src/common/include/errnovalues.h:5-5 ENOENT *)
abbreviation (input) ENOENT :: int where
  "ENOENT \<equiv> 2"

(* src/common/include/errnovalues.h:6-6 ESRCH *)
abbreviation (input) ESRCH :: int where
  "ESRCH \<equiv> 3"

(* src/common/include/errnovalues.h:8-8 EIO *)
abbreviation (input) EIO :: int where
  "EIO \<equiv> 5"

(* src/common/include/errnovalues.h:12-12 EBADF *)
abbreviation (input) EBADF :: int where
  "EBADF \<equiv> 9"

(* src/common/include/errnovalues.h:15-15 ENOMEM *)
abbreviation (input) ENOMEM :: int where
  "ENOMEM \<equiv> 12"

(* src/common/include/errnovalues.h:19-19 EBUSY *)
abbreviation (input) EBUSY :: int where
  "EBUSY \<equiv> 16"

(* src/common/include/errnovalues.h:20-20 EEXIST *)
abbreviation (input) EEXIST :: int where
  "EEXIST \<equiv> 17"

(* src/common/include/errnovalues.h:23-23 ENOTDIR *)
abbreviation (input) ENOTDIR :: int where
  "ENOTDIR \<equiv> 20"

(* src/common/include/errnovalues.h:24-24 EISDIR *)
abbreviation (input) EISDIR :: int where
  "EISDIR \<equiv> 21"

(* src/common/include/errnovalues.h:25-25 EINVAL *)
abbreviation (input) EINVAL :: int where
  "EINVAL \<equiv> 22"

(* src/common/include/errnovalues.h:41-41 ENOSYS *)
abbreviation (input) ENOSYS :: int where
  "ENOSYS \<equiv> 38"

(* src/common/include/errnovalues.h:62-62 ETIMEOUT *)
abbreviation (input) ETIMEOUT :: int where
  "ETIMEOUT \<equiv> 256"

section \<open>Address arithmetic\<close>

text \<open>The macro \<open>align\<close> on unsigned 32-bit operands: every operation wraps.\<close>

(* src/kernel/include/misc.hpp:10-10 macro align *)
definition align :: "nat \<Rightarrow> nat \<Rightarrow> nat" where
  "align val alignment = u32 (alignment * (u32 (val + sub32 alignment 1) div alignment))"

lemma align_exact:
  assumes "0 < k" and "v + (k - 1) < 2 ^ 32"
  shows "align v k = k * ((v + (k - 1)) div k)"
proof -
  have k: "k < 2 ^ 32 + 1" using assms by simp
  then have s: "sub32 k 1 = k - 1"
  proof (cases "k = 2 ^ 32")
    case True
    then show ?thesis by (simp add: sub32_def)
  next
    case False
    with k assms(1) show ?thesis by (intro sub32_small) auto
  qed
  have "k * ((v + (k - 1)) div k) \<le> v + (k - 1)" by simp
  with assms(2) have "k * ((v + (k - 1)) div k) < 2 ^ 32" by linarith
  then show ?thesis using assms(2) unfolding align_def s by (simp add: u32_small)
qed

lemma align_ge:
  assumes "0 < k" and "v + (k - 1) < 2 ^ 32"
  shows "v \<le> align v k" and "k dvd align v k" and "align v k < v + k"
proof -
  let ?q = "(v + (k - 1)) div k"
  have m: "k * ?q + (v + (k - 1)) mod k = v + (k - 1)" by simp
  have r: "(v + (k - 1)) mod k < k" using assms(1) by simp
  from m r assms(1) show "v \<le> align v k" and "align v k < v + k"
    unfolding align_exact [OF assms] by linarith+
  show "k dvd align v k" unfolding align_exact [OF assms] by simp
qed

section \<open>Lists\<close>

lemma nth_list_update_if:
  "i < length xs \<Longrightarrow> xs[i := v] ! j = (if i = j then v else xs ! j)"
  by simp

lemma remove1_notin_id [simp]: "x \<notin> set xs \<Longrightarrow> remove1 x xs = xs"
  by (induction xs) auto

lemma set_remove1_distinct: "distinct xs \<Longrightarrow> set (remove1 x xs) = set xs - {x}"
  by simp

end
