(* ===== verification/Bitmap.thy ===== *)
theory Bitmap
  imports Prelude
begin

text \<open>
  \<open>kernel/bitmap.cpp\<close>: the bit vector behind the page frame allocator. The object is a record
  with the class's fields; the 32-bit words of the buffer are a list. \<open>bm_set\<close> abstracts a
  bitmap to the set of its one bits; \<open>bitmap_ok\<close> is the class invariant (word count, buffer
  length, and the cached number of ones). The searches are compared with the first and last
  positions of the abstract set.
\<close>

section \<open>The class\<close>

(* src/kernel/include/bitmap.hpp:5-11 Bitmap *)
record Bitmap =
  bitCount :: nat
  dwordCount :: nat
  bits :: "dword list"
  deleteBits :: bool
  ones :: nat

(* src/kernel/include/bitmap.hpp:13-13 Bitmap::InvalidOffset *)
definition InvalidOffset :: nat where
  "InvalidOffset = U32_MAX"

text \<open>Both constructors fill the buffer with \<open>Memory::Set32\<close>; they differ in who owns it.\<close>

(* src/kernel/bitmap.cpp:5-13 Bitmap::Bitmap(size_t,bool) *)
definition Bitmap_new :: "nat \<Rightarrow> bool \<Rightarrow> Bitmap" where
  "Bitmap_new n setv =
     (let dc = u32 (n + 31) div 32 in
      \<lparr>bitCount = n, dwordCount = dc, bits = replicate dc (if setv then NOT 0 else 0),
       deleteBits = True, ones = (if setv then n else 0)\<rparr>)"

(* src/kernel/bitmap.cpp:15-23 Bitmap::Bitmap(size_t,void*,bool) *)
definition Bitmap_new_buffer :: "nat \<Rightarrow> dword list \<Rightarrow> bool \<Rightarrow> Bitmap" where
  "Bitmap_new_buffer n buffer setv =
     (let dc = u32 (n + 31) div 32 in
      \<lparr>bitCount = n, dwordCount = dc,
       bits = replicate dc (if setv then NOT 0 else 0) @ drop dc buffer,
       deleteBits = False, ones = (if setv then n else 0)\<rparr>)"

(* src/kernel/bitmap.cpp:25-28 Bitmap::GetBitCount *)
definition GetBitCount :: "Bitmap \<Rightarrow> nat" where
  "GetBitCount b = bitCount b"

(* src/kernel/bitmap.cpp:30-33 Bitmap::GetCountOf *)
definition GetCountOf :: "Bitmap \<Rightarrow> bool \<Rightarrow> nat" where
  "GetCountOf b val = (if val then ones b else sub32 (bitCount b) (ones b))"

(* src/kernel/bitmap.cpp:35-53 Bitmap::SetBit *)
definition SetBit :: "Bitmap \<Rightarrow> nat \<Rightarrow> bool \<Rightarrow> Bitmap" where
  "SetBit b pos val =
     (if pos \<ge> bitCount b then b
      else
        let dwordOffs = pos div 32; bitOffs = pos mod 32;
            w = bits b ! dwordOffs; mask = push_bit bitOffs (1 :: dword);
            cs = (w AND mask \<noteq> 0)
        in if val
           then b\<lparr>ones := (if \<not> cs then u32 (ones b + 1) else ones b),
                  bits := (bits b)[dwordOffs := w OR mask]\<rparr>
           else b\<lparr>ones := (if cs then sub32 (ones b) 1 else ones b),
                  bits := (bits b)[dwordOffs := w AND NOT mask]\<rparr>)"

(* src/kernel/bitmap.cpp:55-62 Bitmap::GetBit *)
definition GetBit :: "Bitmap \<Rightarrow> nat \<Rightarrow> bool" where
  "GetBit b pos =
     (if pos \<ge> bitCount b then False
      else bits b ! (pos div 32) AND push_bit (pos mod 32) 1 \<noteq> 0)"

text \<open>
  The inner loop of \<open>FindFirst\<close> compares the masked word with the \<^verbatim>\<open>bool\<close> itself, so for
  \<open>val = true\<close> it compares \<open>v & (1u << i)\<close> with \<open>1\<close>.
\<close>

(* src/kernel/bitmap.cpp:74-81 Bitmap::FindFirst(bool), inner loop *)
definition FindFirst_dword :: "dword \<Rightarrow> bool \<Rightarrow> nat option" where
  "FindFirst_dword v val = find (\<lambda>i. v AND push_bit i 1 = of_bool val) [0..<32]"

(* src/kernel/bitmap.cpp:66-84 Bitmap::FindFirst(bool), loop over the words *)
function FindFirst_from :: "Bitmap \<Rightarrow> bool \<Rightarrow> nat \<Rightarrow> nat" where
  "FindFirst_from b val dwordOffs =
     (if dwordOffs < dwordCount b then
        let nVal = (if val then 0 else NOT 0); v = bits b ! dwordOffs in
        if v = nVal then FindFirst_from b val (Suc dwordOffs)
        else case FindFirst_dword v val of
               None \<Rightarrow> FindFirst_from b val (Suc dwordOffs)
             | Some i \<Rightarrow> (let pos = u32 (u32 (dwordOffs * 32) + i)
                         in if pos \<ge> bitCount b then InvalidOffset else pos)
      else InvalidOffset)"
  by pat_completeness auto
termination
  by (relation "measure (\<lambda>(b, val, d). dwordCount b - d)") auto

declare FindFirst_from.simps [simp del]

(* src/kernel/bitmap.cpp:64-85 Bitmap::FindFirst(bool) *)
definition FindFirst :: "Bitmap \<Rightarrow> bool \<Rightarrow> nat" where
  "FindFirst b val = FindFirst_from b val 0"

(* src/kernel/bitmap.cpp:105-117 Bitmap::FindFirst(bool,size_t), loop over the bits *)
function FindFirst_run_from :: "Bitmap \<Rightarrow> bool \<Rightarrow> nat \<Rightarrow> nat \<Rightarrow> nat \<Rightarrow> nat" where
  "FindFirst_run_from b val count pos okBits =
     (if pos < bitCount b then
        if GetBit b pos \<noteq> val then FindFirst_run_from b val count (Suc pos) 0
        else if Suc okBits \<ge> count then pos - okBits
        else FindFirst_run_from b val count (Suc pos) (Suc okBits)
      else InvalidOffset)"
  by pat_completeness auto
termination
  by (relation "measure (\<lambda>(b, val, count, pos, okBits). bitCount b - pos)") auto

declare FindFirst_run_from.simps [simp del]

(* src/kernel/bitmap.cpp:87-118 Bitmap::FindFirst(bool,size_t) *)
definition FindFirst_run :: "Bitmap \<Rightarrow> bool \<Rightarrow> nat \<Rightarrow> nat" where
  "FindFirst_run b val count =
     (if count = 0 then InvalidOffset
      else
        let nVal = (if val then 0 else NOT 0);
            pos = (case find (\<lambda>d. bits b ! d \<noteq> nVal) [0..<dwordCount b] of
                     None \<Rightarrow> 0 | Some d \<Rightarrow> u32 (d * 32))
        in FindFirst_run_from b val count pos 0)"

(* src/kernel/bitmap.cpp:122-129 Bitmap::FindLast(bool), loop *)
primrec FindLast_from :: "Bitmap \<Rightarrow> bool \<Rightarrow> nat \<Rightarrow> nat" where
  "FindLast_from b val 0 = InvalidOffset"
| "FindLast_from b val (Suc pos) = (if GetBit b pos = val then pos else FindLast_from b val pos)"

(* src/kernel/bitmap.cpp:120-130 Bitmap::FindLast(bool) *)
definition FindLast :: "Bitmap \<Rightarrow> bool \<Rightarrow> nat" where
  "FindLast b val = FindLast_from b val (bitCount b)"

(* src/kernel/bitmap.cpp:134-144 Bitmap::FindLast(bool,size_t), loop *)
primrec FindLast_run_from :: "Bitmap \<Rightarrow> bool \<Rightarrow> nat \<Rightarrow> nat \<Rightarrow> nat \<Rightarrow> nat" where
  "FindLast_run_from b val count okBits 0 = InvalidOffset"
| "FindLast_run_from b val count okBits (Suc pos) =
     (let okBits' = (if GetBit b pos = val then Suc okBits else okBits)
      in if okBits' \<ge> count then pos else FindLast_run_from b val count okBits' pos)"

(* src/kernel/bitmap.cpp:132-145 Bitmap::FindLast(bool,size_t) *)
definition FindLast_run :: "Bitmap \<Rightarrow> bool \<Rightarrow> nat \<Rightarrow> nat" where
  "FindLast_run b val count = FindLast_run_from b val count 0 (bitCount b)"

section \<open>Abstraction and invariant\<close>

definition bm_set :: "Bitmap \<Rightarrow> nat set" where
  "bm_set b = {i. i < bitCount b \<and> bit (bits b ! (i div 32)) (i mod 32)}"

definition bitmap_ok :: "Bitmap \<Rightarrow> bool" where
  "bitmap_ok b \<longleftrightarrow>
     bitCount b + 31 < 2 ^ 32 \<and> dwordCount b = (bitCount b + 31) div 32 \<and>
     dwordCount b \<le> length (bits b) \<and> ones b = card (bm_set b)"

lemma mask_test: "(w :: dword) AND push_bit n 1 \<noteq> 0 \<longleftrightarrow> bit w n"
  by (simp add: bit_iff_and_push_bit_not_eq_0)

lemma mask_bit: "bit (push_bit n 1 :: dword) i \<longleftrightarrow> i = n \<and> n < 32"
  by (auto simp: bit_simps)

lemma GetBit_iff: "GetBit b i \<longleftrightarrow> i \<in> bm_set b"
  unfolding GetBit_def bm_set_def mask_test by auto

lemma bm_set_finite [simp]: "finite (bm_set b)"
  by (simp add: bm_set_def)

lemma bm_set_less: "i \<in> bm_set b \<Longrightarrow> i < bitCount b"
  by (simp add: bm_set_def)

lemma bit_index_word: "bitmap_ok b \<Longrightarrow> i < bitCount b \<Longrightarrow> i div 32 < length (bits b)"
  by (auto simp: bitmap_ok_def)

lemma ones_le: "bitmap_ok b \<Longrightarrow> ones b \<le> bitCount b"
proof -
  assume "bitmap_ok b"
  moreover have "card (bm_set b) \<le> card {..<bitCount b}"
    by (rule card_mono) (auto simp: bm_set_def)
  ultimately show ?thesis by (simp add: bitmap_ok_def)
qed

lemma word_bit_index_eq: "i div 32 = j div 32 \<and> i mod 32 = j mod 32 \<longleftrightarrow> i = (j :: nat)"
  by (metis div_mult_mod_eq)

lemma SetBit_fields [simp]:
  "bitCount (SetBit b i v) = bitCount b" "dwordCount (SetBit b i v) = dwordCount b"
  "length (bits (SetBit b i v)) = length (bits b)"
  by (simp_all add: SetBit_def Let_def)

lemma bm_set_SetBit:
  assumes "bitmap_ok b"
  shows "bm_set (SetBit b i v) =
     (if i < bitCount b then if v then insert i (bm_set b) else bm_set b - {i} else bm_set b)"
proof (cases "i < bitCount b")
  case True
  have "bit (bits (SetBit b i v) ! (j div 32)) (j mod 32) \<longleftrightarrow>
        (if j = i then v else bit (bits b ! (j div 32)) (j mod 32))" if "j < bitCount b" for j
  proof (cases "j div 32 = i div 32")
    case same: True
    then have "bits (SetBit b i v) ! (j div 32) =
      (if v then bits b ! (i div 32) OR push_bit (i mod 32) 1
       else bits b ! (i div 32) AND NOT (push_bit (i mod 32) 1))"
      using True bit_index_word [OF assms True] by (simp add: SetBit_def Let_def)
    moreover have "j mod 32 < 32" "i mod 32 < 32" by simp_all
    moreover have "j = i \<longleftrightarrow> j mod 32 = i mod 32" using same word_bit_index_eq [of j i] by auto
    ultimately show ?thesis
      using same by (auto simp: bit_or_iff bit_and_iff bit_not_iff mask_bit simp del: push_bit_of_1)
  next
    case False
    then have "bits (SetBit b i v) ! (j div 32) = bits b ! (j div 32)"
      by (simp add: SetBit_def Let_def)
    moreover have "j \<noteq> i" using False by auto
    ultimately show ?thesis by simp
  qed
  then show ?thesis using True by (auto simp: bm_set_def split: if_splits)
next
  case False
  then show ?thesis by (simp add: SetBit_def)
qed

lemma ones_SetBit:
  assumes "bitmap_ok b"
  shows "ones (SetBit b i v) = card (bm_set (SetBit b i v))"
proof (cases "i < bitCount b")
  case True
  have o: "ones b = card (bm_set b)" "ones b < 2 ^ 32"
    using assms ones_le [OF assms] by (simp_all add: bitmap_ok_def)
  have cs: "bits b ! (i div 32) AND push_bit (i mod 32) 1 \<noteq> 0 \<longleftrightarrow> i \<in> bm_set b"
    using True by (simp add: mask_test bm_set_def del: push_bit_of_1)
  show ?thesis
  proof (cases v)
    case v: True
    have "i \<notin> bm_set b \<Longrightarrow> card (bm_set b) < bitCount b"
      using psubset_card_mono [of "{..<bitCount b}" "bm_set b"] True bm_set_less by fastforce
    then have "i \<notin> bm_set b \<Longrightarrow> u32 (ones b + 1) = Suc (card (bm_set b))"
      using assms o by (simp add: bitmap_ok_def u32_small)
    then show ?thesis
      using True v o cs unfolding bm_set_SetBit [OF assms]
      by (auto simp: SetBit_def Let_def card_insert_if simp del: push_bit_of_1)
  next
    case v: False
    have "i \<in> bm_set b \<Longrightarrow> card (bm_set b) > 0" by (auto simp: card_gt_0_iff)
    then have "i \<in> bm_set b \<Longrightarrow> sub32 (ones b) 1 = card (bm_set b) - 1"
      using o sub32_small [of 1 "ones b"] by simp
    then show ?thesis
      using True v o cs unfolding bm_set_SetBit [OF assms]
      by (simp add: SetBit_def Let_def del: push_bit_of_1)
  qed
next
  case False
  then show ?thesis using assms by (simp add: SetBit_def bitmap_ok_def)
qed

lemma bitmap_ok_SetBit [simp]: "bitmap_ok b \<Longrightarrow> bitmap_ok (SetBit b i v)"
  using ones_SetBit [of b i v] by (simp add: bitmap_ok_def)

section \<open>Searching\<close>

lemma FindFirst_dword_False:
  "FindFirst_dword v False =
     (if \<forall>i < 32. bit v i then None else Some (LEAST i. \<not> bit v i))"
proof -
  have e: "(\<lambda>i. v AND push_bit i 1 = of_bool False) = (\<lambda>i. \<not> bit v i)"
    using mask_test [of v] by auto
  show ?thesis
  proof (cases "find (\<lambda>i. \<not> bit v i) [0..<32]")
    case None
    then show ?thesis unfolding FindFirst_dword_def e by (auto simp: find_None_iff)
  next
    case (Some i)
    then obtain k where k: "k < 32" "i = k" "\<not> bit v k" "\<forall>j<k. bit v j"
      by (auto simp: find_Some_iff)
    then have "(LEAST i. \<not> bit v i) = k"
      by (intro Least_equality) (auto simp: not_less [symmetric])
    then show ?thesis using k Some unfolding FindFirst_dword_def e by auto
  qed
qed

text \<open>
  The word loop for \<open>val = false\<close>: if all words before \<open>d\<close> are full, the result is the least
  clear bit, or \<open>InvalidOffset\<close> when every bit of the bitmap is set.
\<close>

definition first_clear :: "Bitmap \<Rightarrow> nat \<Rightarrow> bool" where
  "first_clear b r \<longleftrightarrow>
     (if \<exists>i < bitCount b. i \<notin> bm_set b
      then r < bitCount b \<and> r \<notin> bm_set b \<and> (\<forall>i < r. i \<in> bm_set b)
      else r = InvalidOffset)"

lemma first_clear_eqI:
  assumes "bitCount b \<le> i \<Longrightarrow> r = InvalidOffset" and "i < bitCount b \<Longrightarrow> r = i \<and> i \<notin> bm_set b"
    and "\<And>j. j < i \<Longrightarrow> j < bitCount b \<Longrightarrow> j \<in> bm_set b"
  shows "first_clear b r"
proof (cases "i < bitCount b")
  case True
  with assms show ?thesis unfolding first_clear_def by auto
next
  case False
  with assms have "\<forall>j < bitCount b. j \<in> bm_set b" by simp
  with False assms show ?thesis unfolding first_clear_def by auto
qed

lemma full_word_bits:
  assumes "\<forall>k < 32. bit (bits b ! d) k" and "\<And>j. j < 32 * d \<Longrightarrow> j < bitCount b \<Longrightarrow> j \<in> bm_set b"
    and "j < 32 * Suc d" and "j < bitCount b"
  shows "j \<in> bm_set b"
proof (cases "j < 32 * d")
  case False
  with assms(3) have "j div 32 = d" by auto
  with assms(1,4) show ?thesis by (simp add: bm_set_def)
qed (use assms in auto)

lemma FindFirst_from_False:
  assumes ok: "bitmap_ok b"
    and below: "\<And>j. j < 32 * d \<Longrightarrow> j < bitCount b \<Longrightarrow> j \<in> bm_set b"
  shows "first_clear b (FindFirst_from b False d)"
  using below
proof (induction "dwordCount b - d" arbitrary: d)
  case 0
  then have "\<not> d < dwordCount b" and "bitCount b \<le> 32 * d" using ok by (auto simp: bitmap_ok_def)
  then show ?case
    using 0 by (intro first_clear_eqI [of b "32 * d"]) (auto simp: FindFirst_from.simps [of b _ d])
next
  case (Suc n)
  let ?v = "bits b ! d"
  have d: "d < dwordCount b" using Suc.hyps(2) by simp
  show ?case
  proof (cases "\<forall>k < 32. bit ?v k")
    case True
    have "FindFirst_from b False d = FindFirst_from b False (Suc d)"
      using d True by (subst FindFirst_from.simps) (simp add: Let_def FindFirst_dword_False)
    moreover have "first_clear b (FindFirst_from b False (Suc d))"
      by (rule Suc.hyps) (use Suc.hyps(2) full_word_bits [OF True Suc.prems] in auto)
    ultimately show ?thesis by simp
  next
    case False
    define k where "k = (LEAST i. \<not> bit ?v i)"
    from False obtain k0 where k0: "k0 < 32" "\<not> bit ?v k0" by blast
    have k: "\<not> bit ?v k" "k < 32" "\<And>j. j < k \<Longrightarrow> bit ?v j"
      unfolding k_def using k0 LeastI [of "\<lambda>i. \<not> bit ?v i" k0] Least_le [of "\<lambda>i. \<not> bit ?v i" k0]
        not_less_Least [of _ "\<lambda>i. \<not> bit ?v i"] by (blast, linarith, blast)
    have v: "?v \<noteq> NOT 0" using k0 by (auto simp: bit_simps)
    have dw: "FindFirst_dword ?v False = Some k"
      unfolding FindFirst_dword_False k_def using False by auto
    have "32 * d + k < 2 ^ 32" using d k(2) ok by (auto simp: bitmap_ok_def)
    then have r: "FindFirst_from b False d = (if 32 * d + k \<ge> bitCount b then InvalidOffset else 32 * d + k)"
      using d v
      by (subst FindFirst_from.simps) (simp add: Let_def dw u32_small mult.commute)
    show ?thesis
    proof (rule first_clear_eqI [of b "32 * d + k"])
      fix j assume j: "j < 32 * d + k" "j < bitCount b"
      show "j \<in> bm_set b"
      proof (cases "j < 32 * d")
        case False
        with j(1) k(2) have jd: "j div 32 = d" by simp
        have "j = 32 * (j div 32) + j mod 32" by simp
        with jd j(1) have "j mod 32 < k" by linarith
        with jd j(2) k(3) show ?thesis by (simp add: bm_set_def)
      qed (use Suc.prems j in auto)
    qed (use r k in \<open>auto simp: bm_set_def\<close>)
  qed
qed

lemma FindFirst_False: "bitmap_ok b \<Longrightarrow> first_clear b (FindFirst b False)"
  unfolding FindFirst_def by (rule FindFirst_from_False) auto

text \<open>For \<open>val = true\<close> the comparison with \<open>1\<close> only ever succeeds at the low bit of a word.\<close>

definition first_set_aligned :: "Bitmap \<Rightarrow> nat \<Rightarrow> bool" where
  "first_set_aligned b r \<longleftrightarrow>
     (if \<exists>i \<in> bm_set b. 32 dvd i
      then r \<in> bm_set b \<and> 32 dvd r \<and> (\<forall>i < r. i \<in> bm_set b \<longrightarrow> \<not> 32 dvd i)
      else r = InvalidOffset)"

lemma FindFirst_dword_True: "FindFirst_dword v True = (if bit v 0 then Some 0 else None)"
proof -
  have "v AND push_bit i 1 = 1 \<longleftrightarrow> i = 0 \<and> bit v 0" for i
  proof (cases "i = 0")
    case False
    have "\<not> bit (v AND push_bit i 1) 0" using False by (simp add: bit_simps)
    moreover have "bit (1 :: dword) 0" by simp
    ultimately show ?thesis using False by metis
  next
    case True
    then show ?thesis by (simp add: and_one_eq bit_0 odd_iff_mod_2_eq_one)
  qed
  then have "FindFirst_dword v True = find (\<lambda>i. i = 0 \<and> bit v 0) [0..<32]"
    unfolding FindFirst_dword_def by simp
  then show ?thesis by (auto simp: upt_rec [of 0 32] find_None_iff)
qed

lemma FindFirst_from_True:
  assumes ok: "bitmap_ok b"
    and below: "\<And>j. j < 32 * d \<Longrightarrow> j \<in> bm_set b \<Longrightarrow> \<not> 32 dvd j"
  shows "first_set_aligned b (FindFirst_from b True d)"
  using below
proof (induction "dwordCount b - d" arbitrary: d)
  case 0
  then have d: "\<not> d < dwordCount b" "bitCount b \<le> 32 * d" using ok by (auto simp: bitmap_ok_def)
  then have "\<not> (\<exists>i \<in> bm_set b. 32 dvd i)" using 0(2) bm_set_less less_le_trans by blast
  then show ?case using d(1) by (simp add: FindFirst_from.simps [of b _ d] first_set_aligned_def)
next
  case (Suc n)
  have d: "d < dwordCount b" using Suc.hyps(2) by simp
  then have db: "32 * d < bitCount b" and du: "32 * d < 2 ^ 32" using ok by (auto simp: bitmap_ok_def)
  show ?case
  proof (cases "bit (bits b ! d) 0")
    case True
    then have mem: "32 * d \<in> bm_set b" using db by (simp add: bm_set_def)
    have "bits b ! d \<noteq> 0" using True by auto
    then have "FindFirst_from b True d = 32 * d"
      using d du db True
      by (subst FindFirst_from.simps) (simp add: Let_def FindFirst_dword_True u32_small mult.commute)
    then show ?thesis using mem Suc.prems by (auto simp: first_set_aligned_def)
  next
    case False
    have "FindFirst_from b True d = FindFirst_from b True (Suc d)"
      using d False by (subst FindFirst_from.simps) (simp add: Let_def FindFirst_dword_True)
    moreover have "\<not> 32 dvd j" if j: "j < 32 * Suc d" "j \<in> bm_set b" for j
    proof
      assume "32 dvd j"
      then obtain q where q: "j = 32 * q" ..
      with j(1) have "q \<le> d" by simp
      with q Suc.prems [of j] j(2) have "q = d" by (cases "q < d") auto
      with j(2) q False show False by (simp add: bm_set_def)
    qed
    moreover have "n = dwordCount b - Suc d" using Suc.hyps(2) by simp
    ultimately show ?thesis using Suc.hyps(1) [of "Suc d"] by simp
  qed
qed

lemma FindFirst_True: "bitmap_ok b \<Longrightarrow> first_set_aligned b (FindFirst b True)"
  unfolding FindFirst_def by (rule FindFirst_from_True) auto

section \<open>Searching for runs\<close>

definition run_at :: "Bitmap \<Rightarrow> bool \<Rightarrow> nat \<Rightarrow> nat \<Rightarrow> bool" where
  "run_at b val count s \<longleftrightarrow>
     s + count \<le> bitCount b \<and> (\<forall>i. s \<le> i \<and> i < s + count \<longrightarrow> GetBit b i = val)"

definition first_run :: "Bitmap \<Rightarrow> bool \<Rightarrow> nat \<Rightarrow> nat \<Rightarrow> bool" where
  "first_run b val count r \<longleftrightarrow>
     (if \<exists>s. run_at b val count s
      then run_at b val count r \<and> (\<forall>s < r. \<not> run_at b val count s)
      else r = InvalidOffset)"

lemma FindFirst_run_from_spec:
  assumes "okBits < count" and "okBits \<le> pos"
    and "\<And>i. pos - okBits \<le> i \<Longrightarrow> i < pos \<Longrightarrow> GetBit b i = val"
    and "\<And>s. s < pos - okBits \<Longrightarrow> \<not> run_at b val count s"
  shows "first_run b val count (FindFirst_run_from b val count pos okBits)"
  using assms
proof (induction b val count pos okBits rule: FindFirst_run_from.induct)
  case (1 b val count pos okBits)
  note unf = FindFirst_run_from.simps [of b val count pos okBits]
  show ?case
  proof (cases "pos < bitCount b")
    case False
    have "\<not> run_at b val count s" for s
      using "1.prems"(1,2) "1.prems"(4) [of s] False by (cases "s < pos - okBits") (auto simp: run_at_def)
    then show ?thesis using False by (simp add: unf first_run_def)
  next
    case True
    consider (miss) "GetBit b pos \<noteq> val" | (hit) "GetBit b pos = val" "Suc okBits \<ge> count"
      | (more) "GetBit b pos = val" "\<not> Suc okBits \<ge> count" by blast
    then show ?thesis
    proof cases
      case miss
      have "\<not> run_at b val count s" if "s < Suc pos - 0" for s
      proof (cases "s < pos - okBits")
        case False
        with that "1.prems"(1,2) have "s \<le> pos" "pos < s + count" by auto
        with miss show ?thesis by (auto simp: run_at_def)
      qed (use "1.prems"(4) in auto)
      then show ?thesis using "1.IH"(1) [OF True miss] "1.prems"(1) True miss by (simp add: unf)
    next
      case hit
      then have c: "count = Suc okBits" using "1.prems"(1) by simp
      have "GetBit b i = val" if "pos - okBits \<le> i" "i < pos - okBits + count" for i
        using that "1.prems"(2) "1.prems"(3) [of i] hit c by (cases "i = pos") auto
      then have "run_at b val count (pos - okBits)"
        using True c "1.prems"(2) by (simp add: run_at_def)
      then show ?thesis using hit True "1.prems"(4) by (auto simp: unf first_run_def)
    next
      case more
      have "GetBit b i = val" if "Suc pos - Suc okBits \<le> i" "i < Suc pos" for i
        using that "1.prems"(3) [of i] more by (cases "i = pos") auto
      then show ?thesis
        using "1.IH"(2) [OF True _ more(2)] more True "1.prems" by (simp add: unf)
    qed
  qed
qed

lemma skipped_word_no_run:
  assumes "bitmap_ok b" and "0 < count" and "d < dwordCount b" and "s < 32 * d"
    and skip: "\<And>j. j < d \<Longrightarrow> bits b ! j = (if val then 0 else NOT 0)"
  shows "\<not> run_at b val count s"
proof
  assume r: "run_at b val count s"
  have "bits b ! (s div 32) = (if val then 0 else NOT 0)"
    using skip [of "s div 32"] assms(4) by (simp add: less_mult_imp_div_less mult.commute)
  moreover have "s < bitCount b" using r assms(2) by (simp add: run_at_def)
  moreover have "bit (- 1 :: dword) (s mod 32)" by simp
  ultimately have "GetBit b s \<noteq> val" by (auto simp: GetBit_iff bm_set_def split: if_splits)
  then show False using r assms(2) by (auto simp: run_at_def)
qed

lemma FindFirst_run_spec:
  assumes ok: "bitmap_ok b" and c: "0 < count"
  shows "first_run b val count (FindFirst_run b val count)"
proof (cases "find (\<lambda>d. bits b ! d \<noteq> (if val then 0 else NOT 0)) [0..<dwordCount b]")
  case None
  show ?thesis
    using c by (simp only: FindFirst_run_def None Let_def option.case)
      (auto intro!: FindFirst_run_from_spec)
next
  case (Some d)
  then have d: "d < dwordCount b" and skip: "\<And>j. j < d \<Longrightarrow> bits b ! j = (if val then 0 else NOT 0)"
    by (auto simp: find_Some_iff)
  have "d * 32 < 2 ^ 32" using d ok by (auto simp: bitmap_ok_def)
  then have "u32 (d * 32) = 32 * d" by (simp add: u32_small)
  then have "FindFirst_run b val count = FindFirst_run_from b val count (32 * d) 0"
    using c by (simp only: FindFirst_run_def Some Let_def option.case) simp
  then show ?thesis
    using skipped_word_no_run [OF ok c d _ skip] c by (auto intro!: FindFirst_run_from_spec)
qed

section \<open>Searching from the end\<close>

definition last_pos :: "Bitmap \<Rightarrow> bool \<Rightarrow> nat \<Rightarrow> bool" where
  "last_pos b val r \<longleftrightarrow>
     (if \<exists>i < bitCount b. GetBit b i = val
      then r < bitCount b \<and> GetBit b r = val \<and> (\<forall>i. r < i \<and> i < bitCount b \<longrightarrow> GetBit b i \<noteq> val)
      else r = InvalidOffset)"

lemma FindLast_from_spec:
  "if \<exists>i < n. GetBit b i = val
   then FindLast_from b val n < n \<and> GetBit b (FindLast_from b val n) = val \<and>
        (\<forall>i. FindLast_from b val n < i \<and> i < n \<longrightarrow> GetBit b i \<noteq> val)
   else FindLast_from b val n = InvalidOffset"
  by (induction n) (auto simp: less_Suc_eq split: if_splits)

lemma FindLast_spec: "last_pos b val (FindLast b val)"
  using FindLast_from_spec [of "bitCount b" b val] by (simp add: last_pos_def FindLast_def)

text \<open>
  The counted variant never resets its counter: it returns the last position from which on there
  are \<open>count\<close> bits of the value, adjacent or not.
\<close>

definition count_from :: "Bitmap \<Rightarrow> bool \<Rightarrow> nat \<Rightarrow> nat" where
  "count_from b val p = card {i. p \<le> i \<and> i < bitCount b \<and> GetBit b i = val}"

definition last_counted :: "Bitmap \<Rightarrow> bool \<Rightarrow> nat \<Rightarrow> nat \<Rightarrow> bool" where
  "last_counted b val count r \<longleftrightarrow>
     (if \<exists>p < bitCount b. count_from b val p \<ge> count
      then r < bitCount b \<and> count_from b val r \<ge> count \<and>
           (\<forall>p. r < p \<and> p < bitCount b \<longrightarrow> count_from b val p < count)
      else r = InvalidOffset)"

lemma count_from_step:
  assumes "p < bitCount b"
  shows "count_from b val p = (if GetBit b p = val then Suc (count_from b val (Suc p)) else count_from b val (Suc p))"
proof -
  have "{i. p \<le> i \<and> i < bitCount b \<and> GetBit b i = val} =
    (if GetBit b p = val then {p} else {}) \<union> {i. Suc p \<le> i \<and> i < bitCount b \<and> GetBit b i = val}"
    (is "?A = ?B \<union> ?C")
  proof (rule set_eqI)
    fix i
    show "i \<in> ?A \<longleftrightarrow> i \<in> ?B \<union> ?C" using assms by (cases "i = p") auto
  qed
  then show ?thesis by (simp add: count_from_def)
qed

lemma FindLast_run_from_spec:
  assumes "n \<le> bitCount b" and "okBits = count_from b val n"
    and "\<forall>p. n \<le> p \<and> p < bitCount b \<longrightarrow> count_from b val p < count"
  shows "last_counted b val count (FindLast_run_from b val count okBits n)"
  using assms
proof (induction n arbitrary: okBits)
  case 0
  then show ?case by (auto simp: last_counted_def)
next
  case (Suc n)
  let ?ok = "if GetBit b n = val then Suc okBits else okBits"
  have ok: "?ok = count_from b val n" using Suc.prems count_from_step [of n b val] by simp
  show ?case
  proof (cases "?ok \<ge> count")
    case True
    then have "FindLast_run_from b val count okBits (Suc n) = n" by (simp add: Let_def)
    then show ?thesis using True ok Suc.prems unfolding last_counted_def by (auto simp: Suc_le_eq)
  next
    case False
    then have "FindLast_run_from b val count okBits (Suc n) = FindLast_run_from b val count ?ok n"
      by (simp add: Let_def)
    moreover have "last_counted b val count (FindLast_run_from b val count ?ok n)"
    proof (rule Suc.IH [OF _ ok])
      show "\<forall>p. n \<le> p \<and> p < bitCount b \<longrightarrow> count_from b val p < count"
      proof (intro allI impI)
        fix p assume p: "n \<le> p \<and> p < bitCount b"
        show "count_from b val p < count"
        proof (cases "p = n")
          case True
          then show ?thesis using False unfolding ok by simp
        next
          case False
          then show ?thesis using Suc.prems(3) p by simp
        qed
      qed
    qed (use Suc.prems in simp)
    ultimately show ?thesis by simp
  qed
qed

lemma FindLast_run_spec: "last_counted b val count (FindLast_run b val count)"
  unfolding FindLast_run_def by (rule FindLast_run_from_spec) (auto simp: count_from_def)

section \<open>Construction\<close>

lemma bm_set_new:
  assumes "n + 31 < 2 ^ 32"
  shows "bm_set (Bitmap_new n s) = (if s then {..<n} else {})"
    and "bm_set (Bitmap_new_buffer n buf s) = (if s then {..<n} else {})"
proof -
  have "i div 32 < (n + 31) div 32" if "i < n" for i using that by auto
  then show "bm_set (Bitmap_new n s) = (if s then {..<n} else {})"
    and "bm_set (Bitmap_new_buffer n buf s) = (if s then {..<n} else {})"
    using assms
    by (auto simp: bm_set_def Bitmap_new_def Bitmap_new_buffer_def Let_def u32_small nth_append bit_not_iff)
qed

lemma bitmap_ok_new:
  assumes "n + 31 < 2 ^ 32"
  shows "bitmap_ok (Bitmap_new n s)" and "bitmap_ok (Bitmap_new_buffer n buf s)"
  using assms bm_set_new [OF assms]
  by (simp_all add: bitmap_ok_def Bitmap_new_def Bitmap_new_buffer_def Let_def u32_small)

lemma bitmap_new_fields [simp]:
  "bitCount (Bitmap_new n s) = n" "bitCount (Bitmap_new_buffer n buf s) = n"
  by (simp_all add: Bitmap_new_def Bitmap_new_buffer_def Let_def)

section \<open>The interface its clients use\<close>

text \<open>
  What the frame allocator relies on: a store of numbered cells, marked used or free, with a
  search that returns the lowest free cell or a reserved value.
\<close>

locale cell_store =
  fixes inv :: "'s \<Rightarrow> bool" and cells :: "'s \<Rightarrow> nat" and used :: "'s \<Rightarrow> nat set"
    and mark :: "'s \<Rightarrow> nat \<Rightarrow> bool \<Rightarrow> 's" and is_used :: "'s \<Rightarrow> nat \<Rightarrow> bool"
    and lowest_free :: "'s \<Rightarrow> nat" and none :: nat
  assumes used_bound: "inv s \<Longrightarrow> used s \<subseteq> {..<cells s}"
    and none_bound: "inv s \<Longrightarrow> cells s \<le> none"
    and inv_mark: "inv s \<Longrightarrow> inv (mark s i v)"
    and cells_mark: "inv s \<Longrightarrow> cells (mark s i v) = cells s"
    and used_mark: "inv s \<Longrightarrow> i < cells s \<Longrightarrow>
          used (mark s i v) = (if v then insert i (used s) else used s - {i})"
    and is_used_iff: "inv s \<Longrightarrow> is_used s i \<longleftrightarrow> i \<in> used s"
    and lowest_free_none: "inv s \<Longrightarrow> used s = {..<cells s} \<Longrightarrow> lowest_free s = none"
    and lowest_free_some: "inv s \<Longrightarrow> used s \<noteq> {..<cells s} \<Longrightarrow>
          lowest_free s < cells s \<and> lowest_free s \<notin> used s"
begin

lemma none_iff_full: "inv s \<Longrightarrow> lowest_free s = none \<longleftrightarrow> used s = {..<cells s}"
  using lowest_free_none lowest_free_some none_bound by (metis not_le)

lemma take_cell:
  assumes "inv s" and "lowest_free s \<noteq> none"
  shows "lowest_free s \<notin> used s" and "lowest_free s < cells s"
    and "used (mark s (lowest_free s) True) = insert (lowest_free s) (used s)"
  using assms lowest_free_some none_iff_full used_mark by auto

lemma release_cell:
  assumes "inv s" and "is_used s i"
  shows "used (mark s i False) = used s - {i}"
proof -
  from assms have "i < cells s" using is_used_iff used_bound by blast
  with assms show ?thesis by (simp add: used_mark)
qed

lemma take_release:
  assumes "inv s" and "lowest_free s \<noteq> none"
  shows "used (mark (mark s (lowest_free s) True) (lowest_free s) False) = used s"
  using assms take_cell [OF assms] by (simp add: used_mark inv_mark cells_mark)

end

lemma bm_set_full: "bm_set b = {..<bitCount b} \<longleftrightarrow> \<not> (\<exists>i < bitCount b. i \<notin> bm_set b)"
  using bm_set_less by auto

interpretation frames: cell_store bitmap_ok bitCount bm_set SetBit GetBit "\<lambda>b. FindFirst b False" InvalidOffset
proof unfold_locales
  fix b :: Bitmap and i v
  assume ok: "bitmap_ok b"
  show "bm_set b \<subseteq> {..<bitCount b}" using bm_set_less by auto
  show "bitCount b \<le> InvalidOffset" using ok by (simp add: bitmap_ok_def InvalidOffset_def)
  show "bitmap_ok (SetBit b i v)" using ok by simp
  show "bitCount (SetBit b i v) = bitCount b" by simp
  show "GetBit b i \<longleftrightarrow> i \<in> bm_set b" by (rule GetBit_iff)
  show "i < bitCount b \<Longrightarrow> bm_set (SetBit b i v) = (if v then insert i (bm_set b) else bm_set b - {i})"
    using bm_set_SetBit [OF ok] by simp
  show "bm_set b = {..<bitCount b} \<Longrightarrow> FindFirst b False = InvalidOffset"
    using FindFirst_False [OF ok] unfolding bm_set_full first_clear_def by (auto split: if_splits)
  show "bm_set b \<noteq> {..<bitCount b} \<Longrightarrow> FindFirst b False < bitCount b \<and> FindFirst b False \<notin> bm_set b"
    using FindFirst_False [OF ok] unfolding bm_set_full first_clear_def by (auto split: if_splits)
qed

section \<open>Properties\<close>

text \<open>C14. \<open>SetBit\<close> refines insertion into and removal from a set: on a well-formed bitmap it keeps
  the invariant (word count, buffer, and the cached counter \<open>ones\<close> equal to the number of one
  bits), changes exactly the named bit, ignores a position past the end, and \<open>GetBit\<close> and
  \<open>GetCountOf\<close> read the result back.\<close>

theorem bitmap_SetBit_refines:
  assumes "bitmap_ok b"
  shows "bitmap_ok (SetBit b i v) \<and>
    bm_set (SetBit b i v) =
      (if i < bitCount b then if v then insert i (bm_set b) else bm_set b - {i} else bm_set b) \<and>
    (\<forall>j. GetBit (SetBit b i v) j = (if i = j \<and> i < bitCount b then v else GetBit b j)) \<and>
    GetCountOf (SetBit b i v) True = card (bm_set (SetBit b i v)) \<and>
    GetCountOf (SetBit b i v) False = bitCount b - card (bm_set (SetBit b i v))"
proof (intro conjI allI)
  let ?c = "SetBit b i v"
  show ok: "bitmap_ok ?c" using assms by simp
  show set: "bm_set ?c = (if i < bitCount b then if v then insert i (bm_set b) else bm_set b - {i} else bm_set b)"
    by (rule bm_set_SetBit [OF assms])
  show "GetBit ?c j = (if i = j \<and> i < bitCount b then v else GetBit b j)" for j
    using set by (auto simp: GetBit_iff)
  show "GetCountOf ?c True = card (bm_set ?c)" using ok by (simp add: GetCountOf_def bitmap_ok_def)
  have "bitCount ?c < 2 ^ 32" using assms by (simp add: bitmap_ok_def)
  then show "GetCountOf ?c False = bitCount b - card (bm_set ?c)"
    using ok ones_le [OF ok] by (simp add: GetCountOf_def sub32_small bitmap_ok_def)
qed

theorem bitmap_SetBit_refines_witness:
  "bm_set (SetBit (Bitmap_new 40 False) 35 True) = {35} \<and>
   GetBit (SetBit (Bitmap_new 40 False) 35 True) 35 \<and>
   GetCountOf (SetBit (Bitmap_new 40 False) 35 True) False = 39"
proof -
  have ok: "bitmap_ok (Bitmap_new 40 False)" by (rule bitmap_ok_new) simp
  show ?thesis using bitmap_SetBit_refines [OF ok, of 35 True] bm_set_new(1) [of 40 False] by simp
qed

text \<open>
  \<open>FindFirst(false)\<close> returns the lowest clear bit, and \<open>InvalidOffset\<close> exactly when every bit
  is set; bits past \<open>bitCount\<close> in the last word are never returned.\<close>

lemma bitmap_FindFirst_clear:
  assumes "bitmap_ok b"
  shows "if \<exists>i < bitCount b. \<not> GetBit b i
    then FindFirst b False < bitCount b \<and> \<not> GetBit b (FindFirst b False) \<and>
         (\<forall>i < FindFirst b False. GetBit b i)
    else FindFirst b False = InvalidOffset"
  using FindFirst_False [OF assms] unfolding first_clear_def GetBit_iff .

text \<open>C29. \<open>FindFirst(val, count)\<close> returns the lowest start of \<open>count\<close> adjacent bits of the value, and
  \<open>InvalidOffset\<close> exactly when there is none: the shortcut that skips whole words loses no run.\<close>

theorem bitmap_FindFirst_run:
  assumes "bitmap_ok b" and "0 < count"
  shows "if \<exists>s. run_at b val count s
    then run_at b val count (FindFirst_run b val count) \<and>
         (\<forall>s < FindFirst_run b val count. \<not> run_at b val count s)
    else FindFirst_run b val count = InvalidOffset"
  using FindFirst_run_spec [OF assms] unfolding first_run_def .

theorem bitmap_FindFirst_run_witness:
  "FindFirst_run (Bitmap_new 40 False) False 2 = 0"
proof -
  have ok: "bitmap_ok (Bitmap_new 40 False)" by (rule bitmap_ok_new) simp
  have z: "run_at (Bitmap_new 40 False) False 2 0"
    using bm_set_new(1) [of 40 False] by (simp add: run_at_def GetBit_iff)
  then show ?thesis
    using bitmap_FindFirst_run [OF ok, of 2 False] by (metis neq0_conv zero_less_numeral)
qed

text \<open>
  \<open>FindFirst(true)\<close> only sees the low bit of each word: it returns the lowest set bit whose
  number is a multiple of 32 and \<open>InvalidOffset\<close> when there is none, although other bits may be set
  (the header promises the first bit of the value).\<close>

lemma bitmap_FindFirst_set:
  assumes "bitmap_ok b"
  shows "if \<exists>i. GetBit b i \<and> 32 dvd i
    then GetBit b (FindFirst b True) \<and> 32 dvd FindFirst b True \<and>
         (\<forall>i < FindFirst b True. GetBit b i \<longrightarrow> \<not> 32 dvd i)
    else FindFirst b True = InvalidOffset"
  using FindFirst_True [OF assms] unfolding first_set_aligned_def GetBit_iff Bex_def .

end
