(* ===== verification/RingQueue.thy ===== *)
theory RingQueue
  imports Prelude
begin

text \<open>
  \<open>kernel/include/queue.hpp\<close>: the fixed-capacity ring buffer that mutexes and semaphores keep
  their waiters in and threads their signals. \<open>q_list\<close> lifts the ring to the list of queued
  elements, oldest first; the locale \<open>fifo\<close> is the contract its clients use.
\<close>

section \<open>The class\<close>

(* src/kernel/include/queue.hpp:8-12 Queue *)
record 'a Queue =
  Data :: "'a list"
  Capacity :: nat
  Head :: nat
  Tail :: nat
  Full :: bool

(* src/kernel/include/queue.hpp:14-17 Queue::getIndex *)
definition getIndex :: "'a Queue \<Rightarrow> nat \<Rightarrow> nat" where
  "getIndex q elem = u32 (Tail q + elem) mod Capacity q"

text \<open>\<open>new T[capacity]\<close> leaves default-constructed elements \<open>d\<close> in the buffer.\<close>

(* src/kernel/include/queue.hpp:19-26 Queue::Queue *)
definition Queue_new :: "'a \<Rightarrow> nat \<Rightarrow> 'a Queue" where
  "Queue_new d capacity =
     \<lparr>Data = replicate capacity d, Capacity = capacity, Head = 0, Tail = 0, Full = False\<rparr>"

(* src/kernel/include/queue.hpp:28-31 Queue::IsEmpty *)
definition IsEmpty :: "'a Queue \<Rightarrow> bool" where
  "IsEmpty q \<longleftrightarrow> Head q = Tail q \<and> \<not> Full q"

(* src/kernel/include/queue.hpp:33-36 Queue::IsFull *)
definition IsFull :: "'a Queue \<Rightarrow> bool" where
  "IsFull q \<longleftrightarrow> Full q"

(* src/kernel/include/queue.hpp:38-45 Queue::Write *)
definition Write :: "'a Queue \<Rightarrow> 'a \<Rightarrow> bool \<times> 'a Queue" where
  "Write q x =
     (if Full q then (False, q)
      else let h = u32 (Head q + 1) mod Capacity q
           in (True, q\<lparr>Data := (Data q)[Head q := x], Head := h, Full := (h = Tail q)\<rparr>))"

text \<open>The element returned on failure is \<open>T()\<close>, the parameter \<open>d\<close>; the flag is \<open>*ok\<close>.\<close>

(* src/kernel/include/queue.hpp:47-59 Queue::Read *)
definition Read :: "'a \<Rightarrow> 'a Queue \<Rightarrow> bool \<times> 'a \<times> 'a Queue" where
  "Read d q =
     (if IsEmpty q then (False, d, q)
      else (True, Data q ! Tail q,
            q\<lparr>Tail := u32 (Tail q + 1) mod Capacity q, Full := False\<rparr>))"

(* src/kernel/include/queue.hpp:61-70 Queue::Peek *)
definition Peek :: "'a \<Rightarrow> 'a Queue \<Rightarrow> bool \<times> 'a" where
  "Peek d q = (if IsEmpty q then (False, d) else (True, Data q ! Tail q))"

(* src/kernel/include/queue.hpp:116-121 Queue::Count *)
definition Count :: "'a Queue \<Rightarrow> nat" where
  "Count q =
     (if IsEmpty q then 0
      else if Head q > Tail q then Head q - Tail q
      else u32 (sub32 (Capacity q) (Tail q) + Head q))"

(* src/kernel/include/queue.hpp:72-81 Queue::Peek(int) *)
definition Peek_at :: "'a \<Rightarrow> 'a Queue \<Rightarrow> nat \<Rightarrow> bool \<times> 'a" where
  "Peek_at d q elem =
     (if elem \<ge> Count q then (False, d) else (True, Data q ! getIndex q elem))"

text \<open>
  The two replacing loops walk \<open>i = Tail; i != Head; i = (i + 1) % Capacity\<close>. The first argument
  bounds the number of turns; \<open>None\<close> is a loop that is still running. \<open>replace_loop_enough\<close>
  below shows that \<open>Capacity\<close> turns are enough on a well-formed queue.
\<close>

(* src/kernel/include/queue.hpp:88-95 Queue::ReplaceFirst, loop *)
fun ReplaceFirst_loop :: "nat \<Rightarrow> nat \<Rightarrow> 'a \<Rightarrow> 'a \<Rightarrow> 'a Queue \<Rightarrow> (nat \<times> 'a Queue) option" where
  "ReplaceFirst_loop n i v r q =
     (if i = Head q then Some (0, q)
      else if Data q ! i = v then Some (1, q\<lparr>Data := (Data q)[i := r]\<rparr>)
      else case n of 0 \<Rightarrow> None
           | Suc m \<Rightarrow> ReplaceFirst_loop m (u32 (i + 1) mod Capacity q) v r q)"

(* src/kernel/include/queue.hpp:83-97 Queue::ReplaceFirst *)
definition ReplaceFirst :: "'a \<Rightarrow> 'a \<Rightarrow> 'a Queue \<Rightarrow> (nat \<times> 'a Queue) option" where
  "ReplaceFirst v r q =
     (if IsEmpty q then Some (0, q) else ReplaceFirst_loop (Capacity q) (Tail q) v r q)"

(* src/kernel/include/queue.hpp:104-113 Queue::ReplaceAll, loop *)
fun ReplaceAll_loop :: "nat \<Rightarrow> nat \<Rightarrow> 'a \<Rightarrow> 'a \<Rightarrow> nat \<Rightarrow> 'a Queue \<Rightarrow> (nat \<times> 'a Queue) option" where
  "ReplaceAll_loop n i v r replaced q =
     (if i = Head q then Some (replaced, q)
      else case n of 0 \<Rightarrow> None
           | Suc m \<Rightarrow>
               if Data q ! i = v
               then ReplaceAll_loop m (u32 (i + 1) mod Capacity q) v r (Suc replaced)
                      (q\<lparr>Data := (Data q)[i := r]\<rparr>)
               else ReplaceAll_loop m (u32 (i + 1) mod Capacity q) v r replaced q)"

(* src/kernel/include/queue.hpp:99-114 Queue::ReplaceAll *)
definition ReplaceAll :: "'a \<Rightarrow> 'a \<Rightarrow> 'a Queue \<Rightarrow> (nat \<times> 'a Queue) option" where
  "ReplaceAll v r q =
     (if IsEmpty q then Some (0, q) else ReplaceAll_loop (Capacity q) (Tail q) v r 0 q)"

(* src/kernel/include/queue.hpp:134-135 Queue::Remove, shifting loop *)
primrec shift_down :: "'a Queue \<Rightarrow> nat \<Rightarrow> 'a list \<Rightarrow> 'a list" where
  "shift_down q 0 dat = dat"
| "shift_down q (Suc i) dat =
     shift_down q i (dat[getIndex q (Suc i) := dat ! getIndex q i])"

(* src/kernel/include/queue.hpp:123-140 Queue::Remove *)
definition Remove :: "'a Queue \<Rightarrow> nat \<Rightarrow> nat \<times> 'a Queue" where
  "Remove q elem =
     (let count = Count q in
      if elem \<ge> count then (0, q)
      else if elem = 0 then (1, q\<lparr>Tail := u32 (Tail q + 1) mod Capacity q, Full := False\<rparr>)
      else if elem = count - 1
        then (1, q\<lparr>Head := (if Head q \<noteq> 0 then Head q - 1 else sub32 (Capacity q) 1), Full := False\<rparr>)
      else (1, q\<lparr>Data := shift_down q elem (Data q),
                Tail := u32 (Tail q + 1) mod Capacity q, Full := False\<rparr>))"

(* src/kernel/include/queue.hpp:142-152 Queue::RemoveFirst *)
definition RemoveFirst :: "'a Queue \<Rightarrow> 'a \<Rightarrow> nat \<times> 'a Queue" where
  "RemoveFirst q v =
     (if IsEmpty q then (0, q)
      else case find (\<lambda>i. Data q ! getIndex q i = v) [0..<Count q] of
             None \<Rightarrow> (0, q)
           | Some i \<Rightarrow> Remove q i)"

(* src/kernel/include/queue.hpp:156-161 Queue::Clear, loop *)
fun Clear_loop :: "'a \<Rightarrow> nat \<Rightarrow> 'a Queue \<Rightarrow> 'a Queue option" where
  "Clear_loop d n q =
     (case Read d q of
        (ok, _, q') \<Rightarrow>
          if \<not> ok then Some q'
          else case n of 0 \<Rightarrow> None | Suc m \<Rightarrow> Clear_loop d m q')"

(* src/kernel/include/queue.hpp:154-162 Queue::Clear *)
definition Clear :: "'a \<Rightarrow> 'a Queue \<Rightarrow> 'a Queue option" where
  "Clear d q = Clear_loop d (Capacity q) q"

declare ReplaceFirst_loop.simps [simp del] ReplaceAll_loop.simps [simp del] Clear_loop.simps [simp del]

section \<open>Invariant and abstraction\<close>

definition queue_ok :: "'a Queue \<Rightarrow> bool" where
  "queue_ok q \<longleftrightarrow>
     0 < Capacity q \<and> 2 * Capacity q \<le> 2 ^ 32 \<and> length (Data q) = Capacity q \<and>
     Head q < Capacity q \<and> Tail q < Capacity q \<and> (Full q \<longrightarrow> Head q = Tail q)"

definition q_list :: "'a Queue \<Rightarrow> 'a list" where
  "q_list q = map (\<lambda>i. Data q ! ((Tail q + i) mod Capacity q)) [0..<Count q]"

lemma queue_okD:
  assumes "queue_ok q"
  shows "0 < Capacity q" "length (Data q) = Capacity q" "Head q < Capacity q" "Tail q < Capacity q"
    "Capacity q + Capacity q \<le> 2 ^ 32" "Full q \<Longrightarrow> Head q = Tail q"
  using assms by (auto simp: queue_ok_def)

lemma succ_index: "queue_ok q \<Longrightarrow> i < Capacity q \<Longrightarrow> u32 (i + 1) mod Capacity q = Suc i mod Capacity q"
  by (simp add: queue_ok_def u32_small)

lemma getIndex_eq: "queue_ok q \<Longrightarrow> i \<le> Capacity q \<Longrightarrow> getIndex q i = (Tail q + i) mod Capacity q"
  by (simp add: queue_ok_def u32_small getIndex_def)

lemma Count_eq:
  assumes "queue_ok q"
  shows "Count q = (if IsEmpty q then 0 else if Head q > Tail q then Head q - Tail q
                    else Capacity q - Tail q + Head q)"
proof -
  have "sub32 (Capacity q) (Tail q) = Capacity q - Tail q"
    using queue_okD [OF assms] by (intro sub32_small) auto
  then show ?thesis using queue_okD [OF assms] by (simp add: Count_def u32_small)
qed

lemma Count_le: "queue_ok q \<Longrightarrow> Count q \<le> Capacity q"
  using queue_okD [of q] by (auto simp: Count_eq IsEmpty_def)

lemma Count_full: "queue_ok q \<Longrightarrow> Full q \<longleftrightarrow> Count q = Capacity q"
  using queue_okD [of q] by (auto simp: Count_eq IsEmpty_def)

lemma Count_empty: "queue_ok q \<Longrightarrow> IsEmpty q \<longleftrightarrow> Count q = 0"
  using queue_okD [of q] by (auto simp: Count_eq)

lemma Head_index: "queue_ok q \<Longrightarrow> (Tail q + Count q) mod Capacity q = Head q"
  using queue_okD [of q] by (auto simp: Count_eq IsEmpty_def mod_if)

lemma length_q_list [simp]: "length (q_list q) = Count q"
  by (simp add: q_list_def)

lemma nth_q_list: "i < Count q \<Longrightarrow> q_list q ! i = Data q ! ((Tail q + i) mod Capacity q)"
  by (simp add: q_list_def)

lemma ring_index_inj:
  assumes "i < c" "j < c" "(t + i) mod c = (t + j) mod (c :: nat)"
  shows "i = j"
proof -
  have "int ((t + i) mod c) = int ((t + j) mod c)" by (rule arg_cong [OF assms(3)])
  then have "int c dvd int (t + i) - int (t + j)"
    by (simp only: of_nat_mod mod_eq_dvd_iff)
  then have "int c dvd int i - int j" by simp
  moreover have "\<bar>int i - int j\<bar> < int c" using assms(1,2) by auto
  ultimately have "int i - int j = 0" by (metis abs_of_nat dvd_imp_le_int not_le)
  then show ?thesis by simp
qed

section \<open>Operations on the abstract list\<close>

lemma queue_ok_new: "0 < n \<Longrightarrow> 2 * n \<le> 2 ^ 32 \<Longrightarrow> queue_ok (Queue_new d n)"
  by (simp add: queue_ok_def Queue_new_def)

lemma q_list_new [simp]: "q_list (Queue_new d n) = []"
  by (simp add: q_list_def Count_def IsEmpty_def Queue_new_def)

lemma Capacity_new [simp]: "Capacity (Queue_new d n) = n"
  by (simp add: Queue_new_def)

lemma q_list_empty: "queue_ok q \<Longrightarrow> IsEmpty q \<longleftrightarrow> q_list q = []"
  by (metis Count_empty length_0_conv length_q_list)

lemma Write_full: "queue_ok q \<Longrightarrow> length (q_list q) = Capacity q \<Longrightarrow> Write q x = (False, q)"
  using Count_full [of q] by (simp add: Write_def)

lemma mod_Suc_ne_zero: "(a :: nat) < c \<Longrightarrow> Suc a mod c = (if Suc a = c then 0 else Suc a)"
  by (simp add: mod_Suc)

lemma Write_step:
  fixes q :: "'a Queue" and x :: 'a
  assumes ok: "queue_ok q" and nf: "length (q_list q) < Capacity q"
  defines "q' \<equiv> snd (Write q x)"
  shows "fst (Write q x)" "queue_ok q'" "Capacity q' = Capacity q" "q_list q' = q_list q @ [x]"
proof -
  note D = queue_okD [OF ok]
  have f: "\<not> Full q" using nf Count_full [OF ok] by simp
  have q': "q' = q\<lparr>Data := (Data q)[Head q := x], Head := Suc (Head q) mod Capacity q,
                    Full := (Suc (Head q) mod Capacity q = Tail q)\<rparr>"
    using f succ_index [OF ok D(3)] by (simp add: q'_def Write_def Let_def)
  show "fst (Write q x)" using f by (simp add: Write_def Let_def)
  show ok': "queue_ok q'" using ok D by (simp add: q' queue_ok_def)
  show cap: "Capacity q' = Capacity q" by (simp add: q')
  have c: "Count q' = Suc (Count q)"
    unfolding Count_eq [OF ok] Count_eq [OF ok'] using D f by (auto simp: IsEmpty_def q' mod_Suc_ne_zero)
  have sel: "Data q' = (Data q)[Head q := x]" "Tail q' = Tail q" by (simp_all add: q')
  show "q_list q' = q_list q @ [x]"
  proof (rule nth_equalityI)
    fix i assume "i < length (q_list q')"
    then have i: "i < Suc (Count q)" by (simp add: c)
    show "q_list q' ! i = (q_list q @ [x]) ! i"
    proof (cases "i = Count q")
      case True
      then show ?thesis
        using Head_index [OF ok] D by (simp add: nth_append nth_q_list c sel cap)
    next
      case False
      then have i': "i < Count q" using i by simp
      then have "(Tail q + i) mod Capacity q \<noteq> Head q"
        using ring_index_inj [of i "Capacity q" "Count q" "Tail q"] nf Head_index [OF ok] by force
      then show ?thesis using i' by (simp add: nth_append nth_q_list c sel cap)
    qed
  qed (simp add: c)
qed

lemma advance_tail:
  assumes ok: "queue_ok q" and ne: "q_list q \<noteq> []"
  defines "q' \<equiv> q\<lparr>Tail := u32 (Tail q + 1) mod Capacity q, Full := False\<rparr>"
  shows "queue_ok q'" "q_list q' = tl (q_list q)"
proof -
  note D = queue_okD [OF ok]
  have q': "q' = q\<lparr>Tail := Suc (Tail q) mod Capacity q, Full := False\<rparr>"
    using succ_index [OF ok D(4)] by (simp add: q'_def)
  show ok': "queue_ok q'" using ok D by (simp add: q' queue_ok_def)
  have ne': "\<not> IsEmpty q" using ne q_list_empty [OF ok] by simp
  have c: "Suc (Count q') = Count q"
    unfolding Count_eq [OF ok] Count_eq [OF ok'] using D ne' by (auto simp: IsEmpty_def q' mod_Suc_ne_zero)
  have sel: "Data q' = Data q" "Tail q' = Suc (Tail q) mod Capacity q" "Capacity q' = Capacity q"
    by (simp_all add: q')
  show "q_list q' = tl (q_list q)"
  proof (rule nth_equalityI)
    fix i assume "i < length (q_list q')"
    then have "i < Count q'" by simp
    then show "q_list q' ! i = tl (q_list q) ! i"
      using c by (simp add: nth_tl nth_q_list sel mod_simps)
  qed (use c in simp)
qed

lemma Data_Tail: "queue_ok q \<Longrightarrow> q_list q \<noteq> [] \<Longrightarrow> Data q ! Tail q = hd (q_list q)"
  using queue_okD [of q] nth_q_list [of 0 q] by (simp add: hd_conv_nth Count_empty q_list_empty [symmetric])

lemma Read_empty: "queue_ok q \<Longrightarrow> q_list q = [] \<Longrightarrow> Read d q = (False, d, q)"
  using q_list_empty [of q] by (simp add: Read_def)

lemma Read_step:
  assumes "queue_ok q" and "q_list q = x # xs"
  shows "\<exists>q'. Read d q = (True, x, q') \<and> queue_ok q' \<and> Capacity q' = Capacity q \<and> q_list q' = xs"
  using assms advance_tail [of q] Data_Tail [of q] q_list_empty [of q] by (simp add: Read_def)

lemma Peek_spec:
  "queue_ok q \<Longrightarrow> Peek d q = (case q_list q of [] \<Rightarrow> (False, d) | x # _ \<Rightarrow> (True, x))"
  using q_list_empty [of q] Data_Tail [of q] by (auto simp: Peek_def split: list.split)

lemma Peek_at_spec:
  "queue_ok q \<Longrightarrow> Peek_at d q i = (if i < length (q_list q) then (True, q_list q ! i) else (False, d))"
  using Count_le [of q] by (simp add: Peek_at_def getIndex_eq nth_q_list)

section \<open>Removal\<close>

lemma drop_last:
  assumes ok: "queue_ok q" and ne: "q_list q \<noteq> []"
  defines "q' \<equiv> q\<lparr>Head := (if Head q \<noteq> 0 then Head q - 1 else sub32 (Capacity q) 1), Full := False\<rparr>"
  shows "queue_ok q'" "q_list q' = butlast (q_list q)"
proof -
  note D = queue_okD [OF ok]
  have "sub32 (Capacity q) 1 = Capacity q - 1" using D by (intro sub32_small) auto
  then have q': "q' = q\<lparr>Head := (if Head q \<noteq> 0 then Head q - 1 else Capacity q - 1), Full := False\<rparr>"
    by (simp add: q'_def)
  show ok': "queue_ok q'" using ok D by (auto simp: q' queue_ok_def)
  have ne': "\<not> IsEmpty q" using ne q_list_empty [OF ok] by simp
  have c: "Count q' = Count q - 1"
    unfolding Count_eq [OF ok] Count_eq [OF ok'] using D ne' by (auto simp: IsEmpty_def q' split: if_splits)
  have sel: "Data q' = Data q" "Tail q' = Tail q" "Capacity q' = Capacity q" by (simp_all add: q')
  show "q_list q' = butlast (q_list q)"
    by (rule nth_equalityI) (simp_all add: c nth_butlast nth_q_list sel)
qed

lemma length_shift_down [simp]: "length (shift_down q n dat) = length dat"
  by (induction n arbitrary: dat) simp_all

lemma nth_shift_down:
  assumes ok: "queue_ok q" and "n < Capacity q" "length dat = Capacity q" "j < Capacity q"
  shows "shift_down q n dat ! ((Tail q + j) mod Capacity q) =
     (if 0 < j \<and> j \<le> n then dat ! ((Tail q + (j - 1)) mod Capacity q)
      else dat ! ((Tail q + j) mod Capacity q))"
  using assms(2-)
proof (induction n arbitrary: dat)
  case 0
  then show ?case by simp
next
  case (Suc n)
  let ?c = "Capacity q" let ?ix = "\<lambda>i. (Tail q + i) mod ?c"
  define dat' where "dat' = dat[?ix (Suc n) := dat ! ?ix n]"
  have step: "shift_down q (Suc n) dat = shift_down q n dat'"
    using Suc.prems by (simp add: getIndex_eq [OF ok] dat'_def del: mod_Suc_eq)
  have upd: "dat' ! ?ix k = (if k = Suc n then dat ! ?ix n else dat ! ?ix k)" if "k < ?c" for k
    using that Suc.prems ring_index_inj [of k ?c "Suc n" "Tail q"] queue_okD(1) [OF ok]
    unfolding dat'_def by (cases "k = Suc n") (simp_all, metis nth_list_update_neq)
  have IH: "shift_down q n dat' ! ?ix j = (if 0 < j \<and> j \<le> n then dat' ! ?ix (j - 1) else dat' ! ?ix j)"
    using Suc.prems by (intro Suc.IH) (auto simp: dat'_def)
  show ?case
  proof (cases "j = Suc n")
    case True
    then show ?thesis unfolding step IH using upd [of j] Suc.prems by simp
  next
    case False
    have "j - 1 < ?c" "j - 1 = Suc n \<Longrightarrow> \<not> j \<le> n" using Suc.prems by auto
    then show ?thesis unfolding step IH using False upd [of j] upd [of "j - 1"] Suc.prems by auto
  qed
qed

lemma Remove_spec:
  assumes ok: "queue_ok q" and i: "i < length (q_list q)"
  shows "\<exists>q'. Remove q i = (1, q') \<and> queue_ok q' \<and> Capacity q' = Capacity q \<and>
     q_list q' = take i (q_list q) @ drop (Suc i) (q_list q)"
proof -
  have ne: "q_list q \<noteq> []" using i by (metis list.size(3) not_less_zero)
  have c: "i < Count q" using i by simp
  consider (first) "i = 0" | (last) "i \<noteq> 0" "i = Count q - 1" | (mid) "i \<noteq> 0" "i \<noteq> Count q - 1" by blast
  then show ?thesis
  proof cases
    case first
    then show ?thesis using c advance_tail [OF ok ne] by (simp add: Remove_def Let_def drop_Suc)
  next
    case last
    then show ?thesis
      using c drop_last [OF ok ne] by (simp add: Remove_def Let_def butlast_conv_take)
  next
    case mid
    define q1 where "q1 = q\<lparr>Data := shift_down q i (Data q)\<rparr>"
    have ok1: "queue_ok q1" using ok by (simp add: q1_def queue_ok_def)
    have cnt: "Count q1 = Count q" by (simp add: q1_def Count_def IsEmpty_def)
    have sel: "Data q1 = shift_down q i (Data q)" "Tail q1 = Tail q" "Capacity q1 = Capacity q"
      by (simp_all add: q1_def)
    have ne1: "q_list q1 \<noteq> []" using c cnt by (metis length_q_list list.size(3) not_less_zero)
    have l1: "q_list q1 ! j = (if 0 < j \<and> j \<le> i then q_list q ! (j - 1) else q_list q ! j)"
      if "j < Count q" for j
      using that c Count_le [OF ok] queue_okD(2) [OF ok] nth_shift_down [OF ok, of i "Data q" j]
      by (cases "j = 0") (simp_all add: nth_q_list cnt sel)
    have "tl (q_list q1) = take i (q_list q) @ drop (Suc i) (q_list q)"
      using c by (intro nth_equalityI) (auto simp: nth_tl l1 nth_append cnt)
    moreover have "Remove q i = (1, q1\<lparr>Tail := u32 (Tail q1 + 1) mod Capacity q1, Full := False\<rparr>)"
      using c mid by (simp add: Remove_def Let_def q1_def)
    ultimately show ?thesis using advance_tail [OF ok1 ne1] by (simp add: q1_def)
  qed
qed

lemma remove1_at:
  "i < length l \<Longrightarrow> l ! i = v \<Longrightarrow> (\<And>j. j < i \<Longrightarrow> l ! j \<noteq> v) \<Longrightarrow> remove1 v l = take i l @ drop (Suc i) l"
proof (induction l arbitrary: i)
  case (Cons a l)
  show ?case
  proof (cases i)
    case 0
    then show ?thesis using Cons.prems by simp
  next
    case (Suc k)
    have "a \<noteq> v" using Cons.prems(3) [of 0] Suc by simp
    moreover have "l ! j \<noteq> v" if "j < k" for j using Cons.prems(3) [of "Suc j"] that Suc by simp
    ultimately show ?thesis using Cons Suc by simp
  qed
qed simp

lemma RemoveFirst_spec:
  assumes ok: "queue_ok q"
  shows "\<exists>q'. RemoveFirst q v = (if v \<in> set (q_list q) then 1 else 0, q') \<and> queue_ok q' \<and>
     Capacity q' = Capacity q \<and> q_list q' = remove1 v (q_list q)"
proof -
  have ix: "Data q ! getIndex q i = q_list q ! i" if "i < Count q" for i
    using that Count_le [OF ok] by (simp add: getIndex_eq [OF ok] nth_q_list)
  show ?thesis
  proof (cases "find (\<lambda>i. Data q ! getIndex q i = v) [0..<Count q]")
    case None
    then have "v \<notin> set (q_list q)" using ix by (auto simp: find_None_iff in_set_conv_nth)
    then show ?thesis using None ok by (simp add: RemoveFirst_def)
  next
    case (Some i)
    then have i: "i < Count q" "q_list q ! i = v" "\<And>j. j < i \<Longrightarrow> q_list q ! j \<noteq> v"
      using ix by (auto simp: find_Some_iff)
    then have "\<not> IsEmpty q" "v \<in> set (q_list q)"
      using Count_empty [OF ok] by (auto simp: in_set_conv_nth)
    then show ?thesis
      using Some Remove_spec [OF ok, of i] remove1_at [of i "q_list q" v] i by (simp add: RemoveFirst_def)
  qed
qed

section \<open>Replacement and clearing\<close>

lemma replace_loop_full: "Full q \<Longrightarrow> queue_ok q \<Longrightarrow> ReplaceAll v r q = Some (0, q)"
  using queue_okD(6) [of q] by (simp add: ReplaceAll_def ReplaceAll_loop.simps)

lemma q_list_update:
  fixes q :: "'a Queue" and r :: 'a
  assumes ok: "queue_ok q" and k: "k < Count q"
  defines "q' \<equiv> q\<lparr>Data := (Data q)[(Tail q + k) mod Capacity q := r]\<rparr>"
  shows "queue_ok q'" "Count q' = Count q" "q_list q' = (q_list q)[k := r]"
proof -
  show "queue_ok q'" using ok by (simp add: q'_def queue_ok_def)
  show c: "Count q' = Count q" by (simp add: q'_def Count_def IsEmpty_def)
  show "q_list q' = (q_list q)[k := r]"
  proof (rule nth_equalityI)
    fix i assume "i < length (q_list q')"
    then have i: "i < Count q" by (simp add: c)
    have "(Tail q + i) mod Capacity q = (Tail q + k) mod Capacity q \<longleftrightarrow> i = k"
      using ring_index_inj [of i "Capacity q" k "Tail q"] i k Count_le [OF ok] by auto
    moreover have "(Tail q + k) mod Capacity q < length (Data q)" using queue_okD [OF ok] by simp
    ultimately show "q_list q' ! i = (q_list q)[k := r] ! i"
      using i k c by (simp add: nth_q_list nth_list_update) (auto simp: q'_def nth_list_update)
  qed (simp add: c)
qed

lemma replace_loop_enough:
  assumes "queue_ok q" "Count q < Capacity q" "k \<le> Count q" "Count q - k \<le> n"
  shows "\<exists>q'. ReplaceAll_loop n ((Tail q + k) mod Capacity q) v r m q =
       Some (m + count_list (drop k (q_list q)) v, q') \<and> queue_ok q' \<and> Capacity q' = Capacity q \<and>
       q_list q' = take k (q_list q) @ map (\<lambda>x. if x = v then r else x) (drop k (q_list q))"
  using assms
proof (induction n arbitrary: k m q)
  case 0
  then show ?case using Head_index [of q] by (simp add: ReplaceAll_loop.simps)
next
  case (Suc n)
  let ?i = "(Tail q + k) mod Capacity q"
  show ?case
  proof (cases "k = Count q")
    case True
    then show ?thesis using Head_index [of q] Suc.prems by (simp add: ReplaceAll_loop.simps)
  next
    case False
    then have k: "k < Count q" using Suc.prems by simp
    have h: "?i \<noteq> Head q"
      using ring_index_inj [of k "Capacity q" "Count q" "Tail q"] Suc.prems k Head_index [of q] by force
    have nx: "u32 (?i + 1) mod Capacity q = (Tail q + Suc k) mod Capacity q"
      using succ_index [OF Suc.prems(1), of ?i] queue_okD(1) [OF Suc.prems(1)] by (simp add: mod_Suc_eq)
    have d: "Data q ! ?i = q_list q ! k" using k by (simp add: nth_q_list)
    define q1 where "q1 = q\<lparr>Data := (Data q)[?i := r]\<rparr>"
    note U = q_list_update [OF Suc.prems(1) k, of r, folded q1_def]
    have sel: "Tail q1 = Tail q" "Capacity q1 = Capacity q" by (simp_all add: q1_def)
    have dr: "drop k (q_list q) = q_list q ! k # drop (Suc k) (q_list q)"
      using k by (simp add: Cons_nth_drop_Suc)
    have tk: "take (Suc k) (q_list q) = take k (q_list q) @ [q_list q ! k]"
      using k by (simp add: take_Suc_conv_app_nth)
    show ?thesis
    proof (cases "q_list q ! k = v")
      case True
      have "ReplaceAll_loop (Suc n) ?i v r m q =
            ReplaceAll_loop n ((Tail q1 + Suc k) mod Capacity q1) v r (Suc m) q1"
        using h True d nx by (subst ReplaceAll_loop.simps) (simp add: q1_def)
      moreover have "take (Suc k) (q_list q1) = take k (q_list q) @ [r]"
        using k U(3) by (simp add: take_Suc_conv_app_nth)
      moreover have "drop (Suc k) (q_list q1) = drop (Suc k) (q_list q)" using U(3) by simp
      ultimately show ?thesis
        using Suc.IH [OF U(1), of "Suc k" "Suc m"] Suc.prems k U(2) dr True sel by auto
    next
      case False
      have "ReplaceAll_loop (Suc n) ?i v r m q = ReplaceAll_loop n ((Tail q + Suc k) mod Capacity q) v r m q"
        using h False d nx by (subst ReplaceAll_loop.simps) simp
      then show ?thesis
        using Suc.IH [OF Suc.prems(1,2), of "Suc k" m] Suc.prems k dr tk False by auto
    qed
  qed
qed

lemma ReplaceAll_spec:
  assumes ok: "queue_ok q"
  shows "\<exists>q' n. ReplaceAll v r q = Some (n, q') \<and> queue_ok q' \<and> Capacity q' = Capacity q \<and>
     q_list q' = (if length (q_list q) = Capacity q then q_list q
                  else map (\<lambda>x. if x = v then r else x) (q_list q))"
proof (cases "Full q")
  case True
  then show ?thesis using replace_loop_full [of q v r] ok Count_full [OF ok] by simp
next
  case False
  then have "Count q < Capacity q" using Count_full [OF ok] Count_le [OF ok] by simp
  then show ?thesis
    using replace_loop_enough [OF ok, of 0 "Capacity q" v r 0] Count_le [OF ok] queue_okD(4) [OF ok]
      q_list_empty [OF ok] ok
    by (cases "IsEmpty q") (auto simp: ReplaceAll_def)
qed

lemma Clear_loop_spec:
  assumes "queue_ok q" and "Count q \<le> n"
  shows "\<exists>q'. Clear_loop d n q = Some q' \<and> queue_ok q' \<and> Capacity q' = Capacity q \<and> q_list q' = []"
  using assms
proof (induction n arbitrary: q)
  case 0
  then have "q_list q = []" by (metis le_zero_eq length_0_conv length_q_list)
  then show ?case using 0 by (simp add: Clear_loop.simps Read_empty)
next
  case (Suc n)
  show ?case
  proof (cases "q_list q")
    case Nil
    then show ?thesis using Suc.prems by (simp add: Clear_loop.simps Read_empty)
  next
    case (Cons x xs)
    from Read_step [OF Suc.prems(1) this, of d] obtain q' where
      q': "Read d q = (True, x, q')" "queue_ok q'" "Capacity q' = Capacity q" "q_list q' = xs" by blast
    have "Count q' \<le> n" using Suc.prems(2) Cons q'(4) by (metis Suc_le_mono length_Cons length_q_list)
    then show ?thesis using Suc.IH [OF q'(2)] q' by (subst Clear_loop.simps) simp
  qed
qed

lemma Clear_spec:
  assumes "queue_ok q"
  shows "\<exists>q'. Clear d q = Some q' \<and> queue_ok q' \<and> Capacity q' = Capacity q \<and> q_list q' = []"
  unfolding Clear_def using assms Count_le by (intro Clear_loop_spec) auto

section \<open>The contract of a bounded queue\<close>

text \<open>
  What the clients of a bounded queue rely on: message queues promise this much, and ring buffers also promise
  the removal that mutexes, semaphores and threads need.
\<close>

definition put_all :: "('q \<Rightarrow> 'a \<Rightarrow> bool \<times> 'q) \<Rightarrow> 'a list \<Rightarrow> 'q \<Rightarrow> 'q" where
  "put_all put xs q = fold (\<lambda>x q. snd (put q x)) xs q"

primrec get_n :: "('q \<Rightarrow> bool \<times> 'a \<times> 'q) \<Rightarrow> nat \<Rightarrow> 'q \<Rightarrow> 'a list \<times> 'q" where
  "get_n get 0 q = ([], q)"
| "get_n get (Suc n) q = (case get q of (_, x, q') \<Rightarrow> case get_n get n q' of (xs, q'') \<Rightarrow> (x # xs, q''))"

locale mailbox =
  fixes ok :: "'q \<Rightarrow> bool" and cap :: "'q \<Rightarrow> nat" and elems :: "'q \<Rightarrow> 'a list"
    and put :: "'q \<Rightarrow> 'a \<Rightarrow> bool \<times> 'q" and get :: "'q \<Rightarrow> bool \<times> 'a \<times> 'q" and dflt :: 'a
  assumes bounded: "ok q \<Longrightarrow> length (elems q) \<le> cap q"
    and put_full: "ok q \<Longrightarrow> length (elems q) = cap q \<Longrightarrow> put q x = (False, q)"
    and put_room: "ok q \<Longrightarrow> length (elems q) < cap q \<Longrightarrow>
          \<exists>q'. put q x = (True, q') \<and> ok q' \<and> cap q' = cap q \<and> elems q' = elems q @ [x]"
    and get_empty: "ok q \<Longrightarrow> elems q = [] \<Longrightarrow> get q = (False, dflt, q)"
    and get_first: "ok q \<Longrightarrow> elems q = x # xs \<Longrightarrow>
          \<exists>q'. get q = (True, x, q') \<and> ok q' \<and> cap q' = cap q \<and> elems q' = xs"
begin

lemma put_fst: "ok q \<Longrightarrow> fst (put q x) \<longleftrightarrow> length (elems q) < cap q"
  using bounded [of q] put_full [of q x] put_room [of q x] by (auto simp: order_le_less)

lemma put_snd:
  assumes "ok q"
  shows "ok (snd (put q x))" "cap (snd (put q x)) = cap q"
    "elems (snd (put q x)) = (if length (elems q) < cap q then elems q @ [x] else elems q)"
  using assms bounded [of q] put_full [of q x] put_room [of q x] by (auto simp: order_le_less)

lemma get_snd:
  assumes "ok q"
  shows "ok (snd (snd (get q)))" "cap (snd (snd (get q))) = cap q" "elems (snd (snd (get q))) = tl (elems q)"
    "fst (get q) \<longleftrightarrow> elems q \<noteq> []"
  using assms get_empty [of q] get_first [of q] by (cases "elems q"; force)+

lemma put_get_fifo:
  assumes "ok q" and "length (elems q) < cap q"
  shows "fst (snd (get (snd (put q x)))) = hd (elems q @ [x])"
proof -
  obtain y ys where e: "elems q @ [x] = y # ys" by (cases "elems q @ [x]") auto
  have "elems (snd (put q x)) = y # ys" using put_snd(3) [OF assms(1)] assms(2) e by simp
  from get_first [OF put_snd(1) [OF assms(1)] this] e show ?thesis by auto
qed

lemma put_all_elems:
  "ok q \<Longrightarrow> length (elems q) + length xs \<le> cap q \<Longrightarrow>
   ok (put_all put xs q) \<and> cap (put_all put xs q) = cap q \<and> elems (put_all put xs q) = elems q @ xs"
proof (induction xs arbitrary: q)
  case (Cons x xs)
  have r: "ok (snd (put q x))" "cap (snd (put q x)) = cap q" "elems (snd (put q x)) = elems q @ [x]"
    using put_snd [OF Cons.prems(1), of x] Cons.prems(2) by auto
  have "length (elems (snd (put q x))) + length xs \<le> cap (snd (put q x))" using Cons.prems(2) r by simp
  from Cons.IH [OF r(1) this] r show ?case by (simp add: put_all_def)
qed (simp add: put_all_def)

lemma get_n_elems:
  "ok q \<Longrightarrow> n \<le> length (elems q) \<Longrightarrow>
   fst (get_n get n q) = take n (elems q) \<and> ok (snd (get_n get n q)) \<and> elems (snd (get_n get n q)) = drop n (elems q)"
proof (induction n arbitrary: q)
  case (Suc n)
  then obtain x xs where e: "elems q = x # xs" by (cases "elems q") auto
  obtain q' where q': "get q = (True, x, q')" "ok q'" "elems q' = xs" using get_first [OF Suc.prems(1) e] by blast
  have "n \<le> length (elems q')" using Suc.prems(2) e q' by simp
  from Suc.IH [OF q'(2) this] q' e show ?case by (auto split: prod.split)
qed simp

lemma put_all_get_n:
  "ok q \<Longrightarrow> elems q = [] \<Longrightarrow> length xs \<le> cap q \<Longrightarrow> fst (get_n get (length xs) (put_all put xs q)) = xs"
  using put_all_elems [of q xs] get_n_elems [of "put_all put xs q" "length xs"] by simp

end

locale fifo = mailbox ok cap elems put get dflt
  for ok :: "'q \<Rightarrow> bool" and cap elems put get and dflt :: 'a +
  fixes del :: "'q \<Rightarrow> 'a \<Rightarrow> nat \<times> 'q"
  assumes del_first: "ok q \<Longrightarrow>
          \<exists>q'. del q x = (if x \<in> set (elems q) then 1 else 0, q') \<and> ok q' \<and> cap q' = cap q \<and>
            elems q' = remove1 x (elems q)"
begin

lemma del_snd:
  assumes "ok q"
  shows "ok (snd (del q x))" "cap (snd (del q x)) = cap q" "elems (snd (del q x)) = remove1 x (elems q)"
  using del_first [OF assms, of x] by auto

end

interpretation ring: fifo queue_ok Capacity q_list Write "Read d" d RemoveFirst for d :: 'a
proof unfold_locales
  fix q :: "'a Queue" and x :: 'a and xs
  assume ok: "queue_ok q"
  show "length (q_list q) \<le> Capacity q" using Count_le [OF ok] by simp
  show "length (q_list q) = Capacity q \<Longrightarrow> Write q x = (False, q)" by (rule Write_full [OF ok])
  show "\<exists>q'. Write q x = (True, q') \<and> queue_ok q' \<and> Capacity q' = Capacity q \<and> q_list q' = q_list q @ [x]"
    if "length (q_list q) < Capacity q"
    using Write_step [OF ok that, of x] by (intro exI [of _ "snd (Write q x)"]) (simp add: prod_eq_iff)
  show "q_list q = [] \<Longrightarrow> Read d q = (False, d, q)" by (rule Read_empty [OF ok])
  show "\<exists>q'. Read d q = (True, x, q') \<and> queue_ok q' \<and> Capacity q' = Capacity q \<and> q_list q' = xs"
    if "q_list q = x # xs" by (rule Read_step [OF ok that])
  show "\<exists>q'. RemoveFirst q x = (if x \<in> set (q_list q) then 1 else 0, q') \<and> queue_ok q' \<and>
     Capacity q' = Capacity q \<and> q_list q' = remove1 x (q_list q)"
    by (rule RemoveFirst_spec [OF ok])
qed

section \<open>Properties\<close>

text \<open>C15. The ring buffer is a bounded first-in first-out queue: on a well-formed queue \<open>Write\<close>
  appends or reports that the queue is full and changes nothing, \<open>Read\<close> takes the oldest element or
  reports that there is none, \<open>RemoveFirst\<close> deletes the oldest occurrence of a value, and all three
  keep the queue well formed.\<close>

theorem ring_queue_refines_list:
  assumes "queue_ok q"
  shows "(case Write q x of (done, q') \<Rightarrow>
       queue_ok q' \<and> (done \<longleftrightarrow> length (q_list q) < Capacity q) \<and>
       q_list q' = (if done then q_list q @ [x] else q_list q)) \<and>
     (case Read d q of (done, r, q') \<Rightarrow>
       queue_ok q' \<and> (done \<longleftrightarrow> q_list q \<noteq> []) \<and>
       (if done then q_list q = r # q_list q' else r = d \<and> q' = q)) \<and>
     (case RemoveFirst q x of (n, q') \<Rightarrow>
       queue_ok q' \<and> n = (if x \<in> set (q_list q) then 1 else 0) \<and> q_list q' = remove1 x (q_list q))"
proof (intro conjI)
  show "case Write q x of (done, q') \<Rightarrow>
       queue_ok q' \<and> (done \<longleftrightarrow> length (q_list q) < Capacity q) \<and>
       q_list q' = (if done then q_list q @ [x] else q_list q)"
    using ring.put_fst [OF assms, of x] ring.put_snd [OF assms, of x] by (simp add: split_beta)
  show "case Read d q of (done, r, q') \<Rightarrow>
       queue_ok q' \<and> (done \<longleftrightarrow> q_list q \<noteq> []) \<and>
       (if done then q_list q = r # q_list q' else r = d \<and> q' = q)"
  proof (cases "q_list q")
    case Nil
    then show ?thesis using assms ring.get_empty [OF assms Nil] by simp
  next
    case (Cons y ys)
    then obtain q' where "Read d q = (True, y, q')" "queue_ok q'" "q_list q' = ys"
      using ring.get_first [OF assms Cons, of d] by blast
    with Cons show ?thesis by simp
  qed
  show "case RemoveFirst q x of (n, q') \<Rightarrow>
       queue_ok q' \<and> n = (if x \<in> set (q_list q) then 1 else 0) \<and> q_list q' = remove1 x (q_list q)"
    using RemoveFirst_spec [OF assms, of x] by auto
qed

theorem ring_queue_refines_list_witness:
  "q_list (snd (Write (Queue_new 0 4) (7 :: nat))) = [7] \<and>
   fst (snd (Read 0 (snd (Write (Queue_new 0 4) (7 :: nat))))) = 7"
proof -
  have ok: "queue_ok (Queue_new (0 :: nat) 4)" by (rule queue_ok_new) simp_all
  have l: "length (q_list (Queue_new (0 :: nat) 4)) < Capacity (Queue_new (0 :: nat) 4)"
    by (simp del: length_q_list)
  obtain q' where q': "Write (Queue_new 0 4) (7 :: nat) = (True, q')" "queue_ok q'" "q_list q' = [7]"
    using ring_queue_refines_list [OF ok, of 7 0] l by (auto simp: split_beta prod_eq_iff)
  show ?thesis using ring_queue_refines_list [OF q'(2), of 0 0] q' by (auto simp: split_beta)
qed

text \<open>
  \<open>ReplaceAll\<close> returns after at most \<open>Capacity\<close> turns and rewrites every occurrence, unless the
  queue is full: then the loop \<open>i = Tail; i != Head\<close> ends before its first turn and the queue is left
  as it was.\<close>

lemma ring_ReplaceAll_returns:
  assumes "queue_ok q"
  shows "\<exists>n q'. ReplaceAll v r q = Some (n, q') \<and> queue_ok q' \<and>
     q_list q' = (if length (q_list q) = Capacity q then q_list q
                  else map (\<lambda>x. if x = v then r else x) (q_list q))"
  using ReplaceAll_spec [OF assms, of v r] by blast

end
