(* ===== verification/ObjQueue.thy ===== *)
theory ObjQueue
  imports Prelude
begin

text \<open>
  \<open>kernel/objectqueue.cpp\<close>: singly linked queues threaded through the \<open>Next\<close> field of their items
  (threads are such items, and the scheduler's three queues share that field). Items are
  addresses; the store \<open>nxt\<close> gives every item's \<open>Next\<close>, so that two queues over one store can
  alias. \<open>chain nxt p xs\<close> says that following \<open>Next\<close> from \<open>p\<close> meets exactly \<open>xs\<close>. Loops along the chain are
  \<open>partial_function\<close>s: \<open>None\<close> is a loop that does not end (a cyclic chain).
\<close>

type_synonym item = nat
type_synonym links = "item \<Rightarrow> item option"

fun chain :: "links \<Rightarrow> item option \<Rightarrow> item list \<Rightarrow> bool" where
  "chain nxt p [] \<longleftrightarrow> p = None"
| "chain nxt p (x # xs) \<longleftrightarrow> p = Some x \<and> chain nxt (nxt x) xs"

section \<open>The class\<close>

(* src/kernel/include/objectqueue.hpp:8-17 ObjectQueue *)
record oqueue =
  first :: "item option"

(* src/kernel/objectqueue.cpp:3-6 ObjectQueue::defaultItemComparer *)
definition defaultItemComparer :: "item \<Rightarrow> item \<Rightarrow> bool" where
  "defaultItemComparer a b \<longleftrightarrow> a = b"

(* src/kernel/objectqueue.cpp:8-11 ObjectQueue::ObjectQueue *)
definition ObjectQueue_new :: oqueue where
  "ObjectQueue_new = \<lparr>first = None\<rparr>"

(* src/kernel/objectqueue.cpp:29-29 ObjectQueue::Add, loop to the last item *)
partial_function (option) last_item :: "links \<Rightarrow> item \<Rightarrow> item option" where
  "last_item nxt it = (case nxt it of None \<Rightarrow> Some it | Some n \<Rightarrow> last_item nxt n)"

(* src/kernel/objectqueue.cpp:13-31 ObjectQueue::Add *)
definition Add :: "links \<Rightarrow> oqueue \<Rightarrow> item \<Rightarrow> bool \<Rightarrow> (links \<times> oqueue) option" where
  "Add nxt q i prepend =
     (if prepend then Some (nxt(i := first q), \<lparr>first = Some i\<rparr>)
      else let nxt' = nxt(i := None) in
        case first q of
          None \<Rightarrow> Some (nxt', \<lparr>first = Some i\<rparr>)
        | Some f \<Rightarrow> Option.bind (last_item nxt' f) (\<lambda>l. Some (nxt'(l := Some i), q)))"

(* src/kernel/objectqueue.cpp:33-41 ObjectQueue::Get *)
definition Get :: "links \<Rightarrow> oqueue \<Rightarrow> item option \<times> links \<times> oqueue" where
  "Get nxt q =
     (case first q of
        None \<Rightarrow> (None, nxt, q)
      | Some i \<Rightarrow> (Some i, nxt(i := None), \<lparr>first = nxt i\<rparr>))"

(* src/kernel/objectqueue.cpp:43-46 ObjectQueue::First *)
definition First :: "oqueue \<Rightarrow> item option" where
  "First q = first q"

(* src/kernel/objectqueue.cpp:60-72 ObjectQueue::Remove, loop *)
partial_function (option) remove_loop ::
    "(item \<Rightarrow> item \<Rightarrow> bool) \<Rightarrow> item \<Rightarrow> links \<Rightarrow> item option \<Rightarrow> item option \<Rightarrow> (bool \<times> links) option" where
  "remove_loop cmp i nxt prev it =
     (case it of
        None \<Rightarrow> Some (False, nxt)
      | Some j \<Rightarrow>
          if cmp j i
          then Some (True, (case prev of None \<Rightarrow> nxt | Some p \<Rightarrow> nxt(p := nxt j))(j := None))
          else remove_loop cmp i nxt (Some j) (nxt j))"

(* src/kernel/objectqueue.cpp:48-73 ObjectQueue::Remove *)
definition OQ_Remove :: "(item \<Rightarrow> item \<Rightarrow> bool) \<Rightarrow> links \<Rightarrow> oqueue \<Rightarrow> item \<Rightarrow> (bool \<times> links \<times> oqueue) option" where
  "OQ_Remove cmp nxt q i =
     (case first q of
        None \<Rightarrow> Some (False, nxt, q)
      | Some f \<Rightarrow>
          if cmp f i then Some (True, nxt(i := None), \<lparr>first = nxt i\<rparr>)
          else Option.bind (remove_loop cmp i nxt None (Some f)) (\<lambda>(r, nxt'). Some (r, nxt', q)))"

(* src/kernel/objectqueue.cpp:88-92 ObjectQueue::Contains, loop *)
partial_function (option) contains_loop :: "(item \<Rightarrow> item \<Rightarrow> bool) \<Rightarrow> item \<Rightarrow> links \<Rightarrow> item \<Rightarrow> bool option" where
  "contains_loop cmp i nxt it =
     (if cmp it i then Some True
      else case nxt it of None \<Rightarrow> Some False | Some n \<Rightarrow> contains_loop cmp i nxt n)"

(* src/kernel/objectqueue.cpp:82-94 ObjectQueue::Contains *)
definition Contains :: "(item \<Rightarrow> item \<Rightarrow> bool) \<Rightarrow> links \<Rightarrow> oqueue \<Rightarrow> item \<Rightarrow> bool option" where
  "Contains cmp nxt q i =
     (case first q of None \<Rightarrow> Some False
      | Some f \<Rightarrow> if cmp f i then Some True else contains_loop cmp i nxt f)"

text \<open>The action may change the store and the queue; returning true restarts the walk.\<close>

(* src/kernel/objectqueue.cpp:75-80 ObjectQueue::ForEach *)
partial_function (option) ForEach_loop ::
    "(item \<Rightarrow> 's \<times> links \<times> oqueue \<Rightarrow> bool \<times> 's \<times> links \<times> oqueue) \<Rightarrow>
     's \<times> links \<times> oqueue \<Rightarrow> item option \<Rightarrow> ('s \<times> links \<times> oqueue) option" where
  "ForEach_loop action st it =
     (case it of None \<Rightarrow> Some st
      | Some i \<Rightarrow>
          (let r = action i st; st' = snd r
           in ForEach_loop action st' (if fst r then first (snd (snd st')) else fst (snd st') i)))"

(* src/kernel/objectqueue.cpp:96-99 ObjectQueue::Clear *)
partial_function (option) OQ_Clear :: "links \<Rightarrow> oqueue \<Rightarrow> (links \<times> oqueue) option" where
  "OQ_Clear nxt q =
     (let r = Get nxt q in
      case fst r of None \<Rightarrow> Some (nxt, q) | Some _ \<Rightarrow> OQ_Clear (fst (snd r)) (snd (snd r)))"

section \<open>Chains\<close>

lemma chain_frame [simp]: "x \<notin> set xs \<Longrightarrow> chain (nxt(x := v)) p xs = chain nxt p xs"
  by (induction xs arbitrary: p) auto

lemma chain_unique: "chain nxt p xs \<Longrightarrow> chain nxt p ys \<Longrightarrow> xs = ys"
proof (induction xs arbitrary: p ys)
  case Nil
  then show ?case by (cases ys) auto
next
  case (Cons x xs)
  then show ?case by (cases ys) auto
qed

lemma last_item_chain:
  "chain nxt (Some f) xs \<Longrightarrow> last_item nxt f = Some (last xs)"
proof (induction xs arbitrary: f)
  case (Cons x xs)
  show ?case
  proof (cases xs)
    case Nil
    then show ?thesis using Cons.prems by (auto simp: last_item.simps)
  next
    case (Cons y ys)
    then have "chain nxt (Some y) xs" "nxt f = Some y" using Cons.prems by auto
    then show ?thesis using Cons.IH [of y] Cons by (subst last_item.simps) simp
  qed
qed simp

lemma chain_snoc:
  assumes "chain nxt p xs" "xs \<noteq> []" "distinct xs" "i \<notin> set xs" "nxt i = None"
  shows "chain (nxt(last xs := Some i)) p (xs @ [i])"
  using assms
proof (induction xs arbitrary: p)
  case (Cons x xs)
  show ?case
  proof (cases xs)
    case Nil
    then show ?thesis using Cons.prems by auto
  next
    case (Cons y ys)
    then have "last xs \<in> set xs" by simp
    then have "last xs \<noteq> x" using Cons.prems by auto
    then show ?thesis using Cons.IH [of "nxt x"] Cons.prems Cons by auto
  qed
qed simp

lemma Add_chain:
  assumes c: "chain nxt (first q) xs" and d: "distinct xs" and i: "i \<notin> set xs"
  shows "\<exists>nxt' q'. Add nxt q i pre = Some (nxt', q') \<and>
     chain nxt' (first q') (if pre then i # xs else xs @ [i]) \<and>
     (\<forall>j. j \<noteq> i \<and> j \<notin> set xs \<longrightarrow> nxt' j = nxt j)"
proof (cases "pre \<or> xs = []")
  case True
  then show ?thesis using c i by (cases pre) (auto simp: Add_def Let_def)
next
  case False
  then have pre: "\<not> pre" and ne: "xs \<noteq> []" by auto
  obtain f where f: "first q = Some f" using c ne by (cases xs) auto
  let ?n = "nxt(i := None)"
  have c': "chain ?n (first q) xs" using c i by simp
  have l: "last_item ?n f = Some (last xs)" using c' f by (auto intro: last_item_chain)
  have "last xs \<in> set xs" using ne by simp
  then show ?thesis
    using chain_snoc [OF c' ne d i] pre f l by (auto simp: Add_def Let_def)
qed

lemma remove_loop_chain:
  assumes "chain nxt it ys" and "distinct ys" and cmp: "\<And>j. cmp j i \<longleftrightarrow> j = i \<and> P"
    and "\<And>p. prev = Some p \<Longrightarrow> p \<notin> set ys"
  shows "remove_loop cmp i nxt prev it =
     Some (if P \<and> i \<in> set ys
           then (True, (case ys of [] \<Rightarrow> nxt | y # _ \<Rightarrow>
                   if y = i then (case prev of None \<Rightarrow> nxt | Some p \<Rightarrow> nxt(p := nxt i))(i := None)
                   else (nxt(last (takeWhile (\<lambda>j. j \<noteq> i) ys) := nxt i))(i := None)))
           else (False, nxt))"
  using assms(1,2,4)
proof (induction ys arbitrary: it prev)
  case Nil
  then show ?case by (simp add: remove_loop.simps)
next
  case (Cons y ys)
  then have it: "it = Some y" and ch: "chain nxt (nxt y) ys" by auto
  show ?case
  proof (cases "cmp y i")
    case True
    then show ?thesis using cmp by (subst remove_loop.simps) (auto simp: it split: option.splits)
  next
    case False
    have "remove_loop cmp i nxt prev it = remove_loop cmp i nxt (Some y) (nxt y)"
      using False by (subst remove_loop.simps) (simp add: it)
    also have "\<dots> = Some (if P \<and> i \<in> set ys
           then (True, (case ys of [] \<Rightarrow> nxt | z # _ \<Rightarrow>
                   if z = i then (case Some y of None \<Rightarrow> nxt | Some p \<Rightarrow> nxt(p := nxt i))(i := None)
                   else (nxt(last (takeWhile (\<lambda>j. j \<noteq> i) ys) := nxt i))(i := None)))
           else (False, nxt))"
      using Cons.prems by (intro Cons.IH [OF ch]) auto
    finally show ?thesis using False cmp by (cases ys) auto
  qed
qed

lemma chain_unlink:
  assumes "chain nxt p ys" "distinct ys" "i \<in> set ys" "ys \<noteq> []" "hd ys \<noteq> i"
  shows "chain ((nxt(last (takeWhile (\<lambda>j. j \<noteq> i) ys) := nxt i))(i := None)) p (remove1 i ys)"
  using assms
proof (induction ys arbitrary: p)
  case (Cons y ys)
  then have y: "y \<noteq> i" "i \<in> set ys" by auto
  then obtain z zs where ys: "ys = z # zs" by (cases ys) auto
  show ?case
  proof (cases "z = i")
    case True
    then have "i \<notin> set zs" "y \<notin> set zs" "chain nxt (nxt i) zs" using Cons.prems ys by auto
    then have h: "chain ((nxt(y := nxt i))(i := None)) (nxt i) zs" by (simp del: fun_upd_apply)
    have e: "last (takeWhile (\<lambda>j. j \<noteq> i) (y # ys)) = y" "remove1 i (y # ys) = y # zs"
      using True ys y by auto
    have at: "((nxt(y := nxt i))(i := None)) y = nxt i" using y by simp
    have "p = Some y" using Cons.prems by simp
    then show ?thesis unfolding e chain.simps at using h by blast
  next
    case False
    let ?l = "last (takeWhile (\<lambda>j. j \<noteq> i) ys)"
    have "takeWhile (\<lambda>j. j \<noteq> i) ys \<noteq> []" using ys False by simp
    then have "?l \<in> set ys" using last_in_set set_takeWhileD by metis
    then have "?l \<noteq> y" using Cons.prems by auto
    then show ?thesis using Cons.IH [of "nxt y"] Cons.prems ys y False by auto
  qed
qed simp

lemma OQ_Remove_chain:
  assumes c: "chain nxt (first q) xs" and d: "distinct xs" and cmp: "\<And>j. cmp j i \<longleftrightarrow> j = i \<and> P"
  shows "\<exists>nxt' q'. OQ_Remove cmp nxt q i = Some (P \<and> i \<in> set xs, nxt', q') \<and>
     chain nxt' (first q') (if P then remove1 i xs else xs) \<and> (\<forall>j. j \<notin> set xs \<longrightarrow> nxt' j = nxt j)"
proof (cases xs)
  case Nil
  then show ?thesis using c by (auto simp: OQ_Remove_def)
next
  case (Cons x ys)
  then have f: "first q = Some x" using c by simp
  show ?thesis
  proof (cases "cmp x i")
    case True
    then show ?thesis using cmp c d Cons f by (auto simp: OQ_Remove_def)
  next
    case False
    have r: "remove_loop cmp i nxt None (Some x) =
       Some (if P \<and> i \<in> set xs then (True, (nxt(last (takeWhile (\<lambda>j. j \<noteq> i) xs) := nxt i))(i := None))
             else (False, nxt))"
      using remove_loop_chain [where nxt = nxt and it = "Some x" and ys = xs and cmp = cmp and i = i
          and P = P and prev = None] c d f False cmp Cons by auto
    have "last (takeWhile (\<lambda>j. j \<noteq> i) xs) \<in> set xs" if "x \<noteq> i"
      using that Cons last_in_set [of "takeWhile (\<lambda>j. j \<noteq> i) xs"] set_takeWhileD by fastforce
    moreover have "chain ((nxt(last (takeWhile (\<lambda>j. j \<noteq> i) xs) := nxt i))(i := None)) (first q) (remove1 i xs)"
      if "P" "i \<in> set xs"
      using chain_unlink [OF c d that(2)] Cons False cmp that by auto
    ultimately show ?thesis using f False r c cmp by (auto simp: OQ_Remove_def)
  qed
qed

lemma Get_chain:
  assumes "chain nxt (first q) xs" and "distinct xs"
  shows "case xs of
       [] \<Rightarrow> Get nxt q = (None, nxt, q)
     | x # ys \<Rightarrow> \<exists>nxt' q'. Get nxt q = (Some x, nxt', q') \<and> chain nxt' (first q') ys \<and>
         (\<forall>j. j \<noteq> x \<longrightarrow> nxt' j = nxt j)"
  using assms by (cases xs) (auto simp: Get_def)

lemma contains_loop_chain:
  "chain nxt (Some p) xs \<Longrightarrow> contains_loop cmp i nxt p = Some (\<exists>j \<in> set xs. cmp j i)"
proof (induction xs arbitrary: p)
  case (Cons x xs)
  then show ?case by (cases xs) (auto simp: contains_loop.simps [of cmp i nxt x])
qed simp

lemma Contains_chain: "chain nxt (first q) xs \<Longrightarrow> Contains cmp nxt q i = Some (\<exists>j \<in> set xs. cmp j i)"
proof (cases xs)
  case (Cons x ys)
  moreover assume "chain nxt (first q) xs"
  ultimately show ?thesis using contains_loop_chain [of nxt x xs cmp i] by (auto simp: Contains_def)
qed (simp add: Contains_def)

lemma OQ_Clear_chain:
  assumes "chain nxt (first q) xs" and "distinct xs"
  shows "\<exists>nxt' q'. OQ_Clear nxt q = Some (nxt', q') \<and> first q' = None"
  using assms
proof (induction xs arbitrary: nxt q)
  case Nil
  then show ?case by (auto simp: OQ_Clear.simps [of nxt q] Get_def)
next
  case (Cons x xs)
  then have "OQ_Clear nxt q = OQ_Clear (nxt(x := None)) \<lparr>first = nxt x\<rparr>"
    by (subst OQ_Clear.simps) (simp add: Get_def Let_def)
  moreover have "chain (nxt(x := None)) (first \<lparr>first = nxt x\<rparr>) xs" using Cons.prems by simp
  ultimately show ?case using Cons.IH Cons.prems by simp
qed

section \<open>Properties\<close>

text \<open>C16. The linked queues implement lists over the shared \<open>Next\<close> fields: on a chain that represents
  the distinct items \<open>xs\<close>, \<open>Add\<close> of an item in no queue appends or prepends it and \<open>Remove\<close> with a
  comparer of the scheduler's form unlinks it; both loops end, and no \<open>Next\<close> field outside
  the queue is written, so the other queues over the same store are untouched.\<close>

theorem object_queue_refines_list:
  assumes "chain nxt (first q) xs" and "distinct xs" and "\<And>j. cmp j i \<longleftrightarrow> j = i \<and> P"
    and "chain nxt p ys" and "set xs \<inter> set ys = {}" and "k \<notin> set xs" and "k \<notin> set ys"
  shows "(\<exists>nxt' q'. Add nxt q k pre = Some (nxt', q') \<and>
            chain nxt' (first q') (if pre then k # xs else xs @ [k]) \<and> chain nxt' p ys) \<and>
         (\<exists>nxt' q'. OQ_Remove cmp nxt q i = Some (P \<and> i \<in> set xs, nxt', q') \<and>
            chain nxt' (first q') (if P then remove1 i xs else xs) \<and> chain nxt' p ys)"
proof -
  have frame: "chain nxt' p ys" if "\<forall>j \<in> set ys. nxt' j = nxt j" for nxt'
    using assms(4) that by (induction ys arbitrary: p) auto
  obtain n1 q1 where a: "Add nxt q k pre = Some (n1, q1)"
    "chain n1 (first q1) (if pre then k # xs else xs @ [k])" "\<forall>j. j \<noteq> k \<and> j \<notin> set xs \<longrightarrow> n1 j = nxt j"
    using Add_chain [OF assms(1,2,6)] by blast
  obtain n2 q2 where r: "OQ_Remove cmp nxt q i = Some (P \<and> i \<in> set xs, n2, q2)"
    "chain n2 (first q2) (if P then remove1 i xs else xs)" "\<forall>j. j \<notin> set xs \<longrightarrow> n2 j = nxt j"
    using OQ_Remove_chain [OF assms(1,2), where P = P and cmp = cmp and i = i] assms(3) by blast
  have "chain n1 p ys" by (rule frame) (use a(3) assms(5,7) in auto)
  moreover have "chain n2 p ys" by (rule frame) (use r(3) assms(5) in auto)
  ultimately show ?thesis using a(1,2) r(1,2) by auto
qed

theorem object_queue_refines_list_witness:
  "\<exists>nxt' q'. Add (\<lambda>_. None) \<lparr>first = Some 1\<rparr> 2 False = Some (nxt', q') \<and>
     chain nxt' (first q') [1, 2] \<and> chain nxt' (Some 3) [3]"
  using object_queue_refines_list [of "\<lambda>_. None" "\<lparr>first = Some 1\<rparr>" "[1]" "\<lambda>a b. a = b" 1 True "Some 3" "[3]" 2 False]
  by auto

end
