(* ===== verification/Rect.thy ===== *)
theory Rect
  imports Prelude
begin

text \<open>
  \<open>user/libwoot/rectangle.c\<close>: rectangles of the user-space graphics library. Coordinates are C
  \<^verbatim>\<open>int\<close>s, so every sum and difference goes through \<open>i32\<close>. \<open>rc_pts\<close> is the set of points of a
  rectangle; \<open>rc_small\<close> bounds the coordinates so that no operation of this file overflows. The
  locale \<open>hull_region\<close> is what the dirty-rectangle tracking of pixmaps and windows relies on.
\<close>

(* src/user/libwoot/woot/rectangle.h:7-11 rcRectangle *)
record rcRectangle =
  rcX :: int
  rcY :: int
  rcWidth :: int
  rcHeight :: int

(* src/user/libwoot/rectangle.c:6-6 rcRectangleEmpty *)
definition rcRectangleEmpty :: rcRectangle where
  "rcRectangleEmpty = \<lparr>rcX = 0, rcY = 0, rcWidth = 0, rcHeight = 0\<rparr>"

(* src/user/libwoot/rectangle.c:13-25 rcAddP *)
definition rcAddP :: "rcRectangle \<Rightarrow> rcRectangle \<Rightarrow> rcRectangle" where
  "rcAddP a b =
     (if rcWidth b \<le> 0 \<or> rcHeight b \<le> 0 then a
      else if rcWidth a \<le> 0 \<or> rcHeight a \<le> 0 then b
      else
        let minx = min (rcX a) (rcX b);
            miny = min (rcY a) (rcY b);
            maxx = max (i32 (rcX a + rcWidth a)) (i32 (rcX b + rcWidth b));
            maxy = max (i32 (rcY a + rcHeight a)) (i32 (rcY b + rcHeight b))
        in \<lparr>rcX = minx, rcY = miny, rcWidth = i32 (maxx - minx), rcHeight = i32 (maxy - miny)\<rparr>)"

(* src/user/libwoot/rectangle.c:8-11 rcAdd *)
definition rcAdd :: "rcRectangle \<Rightarrow> rcRectangle \<Rightarrow> rcRectangle" where
  "rcAdd a b = rcAddP a b"

(* src/user/libwoot/rectangle.c:32-44 rcIntersectP *)
definition rcIntersectP :: "rcRectangle \<Rightarrow> rcRectangle \<Rightarrow> rcRectangle" where
  "rcIntersectP a b =
     (let x = max (rcX a) (rcX b);
          x2 = min (i32 (rcX a + rcWidth a)) (i32 (rcX b + rcWidth b));
          y = max (rcY a) (rcY b);
          y2 = min (i32 (rcY a + rcHeight a)) (i32 (rcY b + rcHeight b));
          w = i32 (x2 - x);
          h = i32 (y2 - y)
      in if w \<le> 0 \<or> h \<le> 0 then rcRectangleEmpty
         else \<lparr>rcX = x, rcY = y, rcWidth = w, rcHeight = h\<rparr>)"

(* src/user/libwoot/rectangle.c:27-30 rcIntersect *)
definition rcIntersect :: "rcRectangle \<Rightarrow> rcRectangle \<Rightarrow> rcRectangle" where
  "rcIntersect a b = rcIntersectP a b"

(* src/user/libwoot/rectangle.c:51-54 rcContainsPointP *)
definition rcContainsPointP :: "rcRectangle \<Rightarrow> int \<Rightarrow> int \<Rightarrow> bool" where
  "rcContainsPointP r x y \<longleftrightarrow>
     x \<ge> rcX r \<and> y \<ge> rcY r \<and> x < i32 (rcX r + rcWidth r) \<and> y < i32 (rcY r + rcHeight r)"

(* src/user/libwoot/rectangle.c:46-49 rcContainsPoint *)
definition rcContainsPoint :: "rcRectangle \<Rightarrow> int \<Rightarrow> int \<Rightarrow> bool" where
  "rcContainsPoint r x y = rcContainsPointP r x y"

(* src/user/libwoot/rectangle.c:61-64 rcIsEmptyP *)
definition rcIsEmptyP :: "rcRectangle \<Rightarrow> bool" where
  "rcIsEmptyP r \<longleftrightarrow> rcWidth r \<le> 0 \<or> rcHeight r \<le> 0"

(* src/user/libwoot/rectangle.c:56-59 rcIsEmpty *)
definition rcIsEmpty :: "rcRectangle \<Rightarrow> bool" where
  "rcIsEmpty r = rcIsEmptyP r"

section \<open>Points\<close>

definition rc_pts :: "rcRectangle \<Rightarrow> (int \<times> int) set" where
  "rc_pts r = {(x, y). rcContainsPoint r x y}"

definition rc_small :: "rcRectangle \<Rightarrow> bool" where
  "rc_small r \<longleftrightarrow>
     - (2 ^ 29) \<le> rcX r \<and> - (2 ^ 29) \<le> rcY r \<and> rcX r + rcWidth r \<le> 2 ^ 29 \<and> rcY r + rcHeight r \<le> 2 ^ 29 \<and>
     rcX r \<le> 2 ^ 29 \<and> rcY r \<le> 2 ^ 29 \<and> - (2 ^ 29) \<le> rcX r + rcWidth r \<and> - (2 ^ 29) \<le> rcY r + rcHeight r"

lemma in_i32I: "- 2147483648 \<le> x \<Longrightarrow> x < 2147483648 \<Longrightarrow> in_i32 x"
  by (simp add: in_i32_def)

lemma rc_small_i32:
  assumes "rc_small r"
  shows "i32 (rcX r + rcWidth r) = rcX r + rcWidth r" "i32 (rcY r + rcHeight r) = rcY r + rcHeight r"
  using assms by (auto simp: rc_small_def intro!: i32_small in_i32I)

lemma rc_pts_small:
  "rc_small r \<Longrightarrow>
   rc_pts r = {(x, y). rcX r \<le> x \<and> rcY r \<le> y \<and> x < rcX r + rcWidth r \<and> y < rcY r + rcHeight r}"
  unfolding rc_pts_def rcContainsPoint_def rcContainsPointP_def by (simp add: rc_small_i32)

lemma rc_pts_empty: "rc_small r \<Longrightarrow> rc_pts r = {} \<longleftrightarrow> rcIsEmpty r"
proof -
  assume s: "rc_small r"
  have "(rcX r, rcY r) \<in> rc_pts r" if "\<not> rcIsEmpty r"
    using that s by (simp add: rc_pts_small rcIsEmpty_def rcIsEmptyP_def)
  moreover have "rcIsEmpty r \<Longrightarrow> rc_pts r = {}"
    using s by (auto simp: rc_pts_small rcIsEmpty_def rcIsEmptyP_def)
  ultimately show ?thesis by blast
qed

lemma rcIntersect_small:
  assumes a: "rc_small a" and b: "rc_small b"
  shows "rc_small (rcIntersect a b)" and "rc_pts (rcIntersect a b) = rc_pts a \<inter> rc_pts b"
proof -
  define x y x2 y2 where "x = max (rcX a) (rcX b)" and "y = max (rcY a) (rcY b)"
    and "x2 = min (rcX a + rcWidth a) (rcX b + rcWidth b)"
    and "y2 = min (rcY a + rcHeight a) (rcY b + rcHeight b)"
  have bd: "- (2 ^ 29) \<le> x" "x \<le> 2 ^ 29" "- (2 ^ 29) \<le> y" "y \<le> 2 ^ 29"
    "- (2 ^ 29) \<le> x2" "x2 \<le> 2 ^ 29" "- (2 ^ 29) \<le> y2" "y2 \<le> 2 ^ 29"
    using a b unfolding rc_small_def x_def y_def x2_def y2_def by auto
  have w: "i32 (x2 - x) = x2 - x" "i32 (y2 - y) = y2 - y"
    using bd by (auto intro!: i32_small in_i32I)
  have r: "rcIntersect a b =
     (if x2 - x \<le> 0 \<or> y2 - y \<le> 0 then rcRectangleEmpty
      else \<lparr>rcX = x, rcY = y, rcWidth = x2 - x, rcHeight = y2 - y\<rparr>)"
    unfolding rcIntersect_def rcIntersectP_def Let_def rc_small_i32 [OF a] rc_small_i32 [OF b]
      x_def [symmetric] y_def [symmetric] x2_def [symmetric] y2_def [symmetric] w ..
  show s: "rc_small (rcIntersect a b)" unfolding r using bd by (auto simp: rc_small_def rcRectangleEmpty_def)
  have "(p, q) \<in> rc_pts (rcIntersect a b) \<longleftrightarrow> x \<le> p \<and> y \<le> q \<and> p < x2 \<and> q < y2" for p q
    unfolding rc_pts_small [OF s] by (auto simp: r rcRectangleEmpty_def)
  then show "rc_pts (rcIntersect a b) = rc_pts a \<inter> rc_pts b"
    unfolding rc_pts_small [OF a] rc_pts_small [OF b] x_def y_def x2_def y2_def by auto
qed

lemma rcAdd_small:
  assumes a: "rc_small a" and b: "rc_small b"
  shows "rc_small (rcAdd a b)" and "rc_pts a \<union> rc_pts b \<subseteq> rc_pts (rcAdd a b)"
    and "rc_small c \<Longrightarrow> rc_pts a \<union> rc_pts b \<subseteq> rc_pts c \<Longrightarrow> rc_pts (rcAdd a b) \<subseteq> rc_pts c"
proof -
  let ?r = "rcAdd a b"
  have "rc_small ?r \<and> rc_pts a \<union> rc_pts b \<subseteq> rc_pts ?r \<and>
        (rc_small c \<and> rc_pts a \<union> rc_pts b \<subseteq> rc_pts c \<longrightarrow> rc_pts ?r \<subseteq> rc_pts c)"
  proof (cases "rcIsEmpty a \<or> rcIsEmpty b")
    case True
    then have "?r = a \<and> rc_pts b = {} \<or> ?r = b \<and> rc_pts a = {}"
      using rc_pts_empty [OF a] rc_pts_empty [OF b]
      by (auto simp: rcAdd_def rcAddP_def rcIsEmpty_def rcIsEmptyP_def)
    then show ?thesis using a b by auto
  next
    case False
    then have ne: "rcWidth a > 0" "rcHeight a > 0" "rcWidth b > 0" "rcHeight b > 0"
      by (auto simp: rcIsEmpty_def rcIsEmptyP_def)
    define x y x2 y2 where "x = min (rcX a) (rcX b)" and "y = min (rcY a) (rcY b)"
      and "x2 = max (rcX a + rcWidth a) (rcX b + rcWidth b)"
      and "y2 = max (rcY a + rcHeight a) (rcY b + rcHeight b)"
    have bd: "- (2 ^ 29) \<le> x" "x \<le> 2 ^ 29" "- (2 ^ 29) \<le> y" "y \<le> 2 ^ 29"
      "- (2 ^ 29) \<le> x2" "x2 \<le> 2 ^ 29" "- (2 ^ 29) \<le> y2" "y2 \<le> 2 ^ 29"
      using a b unfolding rc_small_def x_def y_def x2_def y2_def by auto
    have w: "i32 (x2 - x) = x2 - x" "i32 (y2 - y) = y2 - y"
      using bd by (auto intro!: i32_small in_i32I)
    have r: "?r = \<lparr>rcX = x, rcY = y, rcWidth = x2 - x, rcHeight = y2 - y\<rparr>"
      using ne unfolding rcAdd_def rcAddP_def Let_def rc_small_i32 [OF a] rc_small_i32 [OF b]
        x_def [symmetric] y_def [symmetric] x2_def [symmetric] y2_def [symmetric] w by simp
    have s: "rc_small ?r" unfolding r using bd by (simp add: rc_small_def)
    have pr: "rc_pts ?r = {(p, q). x \<le> p \<and> y \<le> q \<and> p < x2 \<and> q < y2}"
      unfolding rc_pts_small [OF s] by (simp add: r)
    have "rc_pts a \<union> rc_pts b \<subseteq> rc_pts ?r"
      unfolding pr rc_pts_small [OF a] rc_pts_small [OF b] x_def y_def x2_def y2_def by auto
    moreover have "rc_pts ?r \<subseteq> rc_pts c" if c: "rc_small c" "rc_pts a \<union> rc_pts b \<subseteq> rc_pts c"
    proof -
      have "(rcX a, rcY a) \<in> rc_pts c" "(rcX b, rcY b) \<in> rc_pts c"
        "(rcX a + rcWidth a - 1, rcY a + rcHeight a - 1) \<in> rc_pts c"
        "(rcX b + rcWidth b - 1, rcY b + rcHeight b - 1) \<in> rc_pts c"
        using c(2) ne by (auto simp: rc_pts_small [OF a] rc_pts_small [OF b])
      then have "rcX c \<le> x" "rcY c \<le> y" "x2 \<le> rcX c + rcWidth c" "y2 \<le> rcY c + rcHeight c"
        unfolding rc_pts_small [OF c(1)] x_def y_def x2_def y2_def by auto
      then show ?thesis unfolding pr rc_pts_small [OF c(1)] by auto
    qed
    ultimately show ?thesis using s by blast
  qed
  then show "rc_small ?r" "rc_pts a \<union> rc_pts b \<subseteq> rc_pts ?r"
    "rc_small c \<Longrightarrow> rc_pts a \<union> rc_pts b \<subseteq> rc_pts c \<Longrightarrow> rc_pts ?r \<subseteq> rc_pts c" by blast+
qed

section \<open>Accumulating regions\<close>

locale hull_region =
  fixes ok :: "'r \<Rightarrow> bool" and pts :: "'r \<Rightarrow> 'p set" and hull :: "'r \<Rightarrow> 'r \<Rightarrow> 'r" and nowhere :: 'r
  assumes ok_nowhere: "ok nowhere" and pts_nowhere: "pts nowhere = {}"
    and ok_hull: "ok a \<Longrightarrow> ok b \<Longrightarrow> ok (hull a b)"
    and hull_covers: "ok a \<Longrightarrow> ok b \<Longrightarrow> pts a \<union> pts b \<subseteq> pts (hull a b)"
    and hull_least: "ok a \<Longrightarrow> ok b \<Longrightarrow> ok c \<Longrightarrow> pts a \<union> pts b \<subseteq> pts c \<Longrightarrow> pts (hull a b) \<subseteq> pts c"
begin

lemma fold_hull:
  assumes "ok d" and "\<forall>r \<in> set rs. ok r"
  shows "ok (fold (\<lambda>r d. hull d r) rs d)"
    and "pts d \<union> (\<Union>r \<in> set rs. pts r) \<subseteq> pts (fold (\<lambda>r d. hull d r) rs d)"
    and "ok c \<Longrightarrow> pts d \<union> (\<Union>r \<in> set rs. pts r) \<subseteq> pts c \<Longrightarrow> pts (fold (\<lambda>r d. hull d r) rs d) \<subseteq> pts c"
proof -
  have "ok (fold (\<lambda>r d. hull d r) rs d) \<and>
     pts d \<union> (\<Union>r \<in> set rs. pts r) \<subseteq> pts (fold (\<lambda>r d. hull d r) rs d) \<and>
     (ok c \<and> pts d \<union> (\<Union>r \<in> set rs. pts r) \<subseteq> pts c \<longrightarrow> pts (fold (\<lambda>r d. hull d r) rs d) \<subseteq> pts c)"
    using assms
  proof (induction rs arbitrary: d)
    case (Cons r rs)
    have h: "ok (hull d r)" "pts d \<union> pts r \<subseteq> pts (hull d r)" using Cons.prems ok_hull hull_covers by auto
    have "pts (hull d r) \<union> (\<Union>r \<in> set rs. pts r) \<subseteq> pts c" if "ok c" "pts d \<union> (\<Union>r \<in> set (r # rs). pts r) \<subseteq> pts c"
      using hull_least [of d r c] Cons.prems that by auto
    with Cons.IH [OF h(1)] Cons.prems h(2) show ?case by auto
  qed simp
  then show "ok (fold (\<lambda>r d. hull d r) rs d)"
    "pts d \<union> (\<Union>r \<in> set rs. pts r) \<subseteq> pts (fold (\<lambda>r d. hull d r) rs d)"
    "ok c \<Longrightarrow> pts d \<union> (\<Union>r \<in> set rs. pts r) \<subseteq> pts c \<Longrightarrow> pts (fold (\<lambda>r d. hull d r) rs d) \<subseteq> pts c"
    by blast+
qed

end

lemma rc_empty_small [simp]: "rc_small rcRectangleEmpty" "rc_pts rcRectangleEmpty = {}"
proof -
  show s: "rc_small rcRectangleEmpty" by (simp add: rc_small_def rcRectangleEmpty_def)
  show "rc_pts rcRectangleEmpty = {}"
    using rc_pts_empty [OF s] by (simp add: rcIsEmpty_def rcIsEmptyP_def rcRectangleEmpty_def)
qed

interpretation dirty: hull_region rc_small rc_pts rcAdd rcRectangleEmpty
  by unfold_locales (use rcAdd_small in auto)

section \<open>Properties\<close>

text \<open>C32. On rectangles whose coordinates stay within a quarter of the \<^verbatim>\<open>int\<close> range, \<open>rcIntersect\<close> is
  exactly the intersection of the two sets of points and \<open>rcAdd\<close> is the smallest rectangle that
  covers both; no signed addition or subtraction in them wraps, and the results stay in that range.\<close>

theorem rectangle_lattice:
  assumes "rc_small a" and "rc_small b"
  shows "rc_small (rcIntersect a b) \<and> rc_small (rcAdd a b) \<and>
     rc_pts (rcIntersect a b) = rc_pts a \<inter> rc_pts b \<and>
     rc_pts a \<union> rc_pts b \<subseteq> rc_pts (rcAdd a b) \<and>
     (\<forall>c. rc_small c \<and> rc_pts a \<union> rc_pts b \<subseteq> rc_pts c \<longrightarrow> rc_pts (rcAdd a b) \<subseteq> rc_pts c) \<and>
     (rcIsEmpty (rcIntersect a b) \<longleftrightarrow> rc_pts a \<inter> rc_pts b = {})"
  using rcIntersect_small [OF assms] rcAdd_small [OF assms]
  by (simp add: rc_pts_empty [OF rcIntersect_small(1) [OF assms], symmetric])

theorem rectangle_lattice_witness:
  "rc_pts (rcIntersect \<lparr>rcX = 0, rcY = 0, rcWidth = 4, rcHeight = 4\<rparr> \<lparr>rcX = 2, rcY = 1, rcWidth = 9, rcHeight = 2\<rparr>) =
   rc_pts \<lparr>rcX = 0, rcY = 0, rcWidth = 4, rcHeight = 4\<rparr> \<inter> rc_pts \<lparr>rcX = 2, rcY = 1, rcWidth = 9, rcHeight = 2\<rparr>"
  using rectangle_lattice [of "\<lparr>rcX = 0, rcY = 0, rcWidth = 4, rcHeight = 4\<rparr>" "\<lparr>rcX = 2, rcY = 1, rcWidth = 9, rcHeight = 2\<rparr>"]
  by (simp add: rc_small_def)

end
