(* ===== verification/Pixmap.thy ===== *)
theory Pixmap
  imports Rect Complex_Main
begin

text \<open>
  \<open>user/libwoot/pixmap.c\<close>: pixel formats, colours, and drawing into byte buffers. Buffers live in one
  flat 32-bit address space \<open>mem\<close> (pixmaps made by \<open>pmSubPixMap\<close> alias their parent's pixels), so an
  address computation wraps modulo \<open>2 ^ 32\<close> and an out-of-range access hits whatever is there. Shifts
  by the fields of a format are those of the i386 target (the count is taken modulo 32).
\<close>

section \<open>Memory\<close>

type_synonym mem = "int \<Rightarrow> byte"

definition ua :: "int \<Rightarrow> int" where
  "ua a = a mod 2 ^ 32"

definition rd8 :: "mem \<Rightarrow> int \<Rightarrow> byte" where
  "rd8 m a = m (ua a)"

definition wr8 :: "mem \<Rightarrow> int \<Rightarrow> byte \<Rightarrow> mem" where
  "wr8 m a v = m(ua a := v)"

definition rd16 :: "mem \<Rightarrow> int \<Rightarrow> 16 word" where
  "rd16 m a = ucast (rd8 m a) OR push_bit 8 (ucast (rd8 m (a + 1)))"

definition wr16 :: "mem \<Rightarrow> int \<Rightarrow> 16 word \<Rightarrow> mem" where
  "wr16 m a v = wr8 (wr8 m a (ucast v)) (a + 1) (ucast (drop_bit 8 v))"

definition rd32 :: "mem \<Rightarrow> int \<Rightarrow> dword" where
  "rd32 m a = ucast (rd8 m a) OR push_bit 8 (ucast (rd8 m (a + 1)))
     OR push_bit 16 (ucast (rd8 m (a + 2))) OR push_bit 24 (ucast (rd8 m (a + 3)))"

definition wr32 :: "mem \<Rightarrow> int \<Rightarrow> dword \<Rightarrow> mem" where
  "wr32 m a v =
     wr8 (wr8 (wr8 (wr8 m a (ucast v)) (a + 1) (ucast (drop_bit 8 v)))
            (a + 2) (ucast (drop_bit 16 v))) (a + 3) (ucast (drop_bit 24 v))"

text \<open>\<open>memcpy\<close> and \<open>memmove\<close> of the C library: the destination bytes become the old source bytes.\<close>

definition memmove :: "mem \<Rightarrow> int \<Rightarrow> int \<Rightarrow> nat \<Rightarrow> mem" where
  "memmove m d s n = (\<lambda>a. if ua (a - d) < int n then rd8 m (s + ua (a - d)) else m a)"

definition shl32 :: "dword \<Rightarrow> nat \<Rightarrow> dword" where
  "shl32 x n = push_bit (n mod 32) x"

definition shr32 :: "dword \<Rightarrow> nat \<Rightarrow> dword" where
  "shr32 x n = drop_bit (n mod 32) x"

section \<open>Formats, colours and pixmaps\<close>

(* src/user/libwoot/woot/pixmap.h:10-15 pmPixelFormat *)
record pmPixelFormat =
  BPP :: nat
  AlphaBits :: nat
  RedBits :: nat
  GreenBits :: nat
  BlueBits :: nat
  AlphaShift :: nat
  RedShift :: nat
  GreenShift :: nat
  BlueShift :: nat

(* src/user/libwoot/woot/pixmap.h:17-27 pmColor *)
record pmColor =
  cA :: byte
  cR :: byte
  cG :: byte
  cB :: byte

(* src/user/libwoot/woot/pixmap.h:29-39 pmPixMap *)
record pmPixMap =
  Parent :: "nat option"
  Contents :: rcRectangle
  Dirty :: rcRectangle
  Pitch :: nat
  Format :: pmPixelFormat
  Palette :: "nat option"
  ReleasePixels :: nat
  Pixels :: nat

definition color :: "byte \<Rightarrow> byte \<Rightarrow> byte \<Rightarrow> byte \<Rightarrow> pmColor" where
  "color a r g b = \<lparr>cA = a, cR = r, cG = g, cB = b\<rparr>"

(* src/user/libwoot/pixmap.c:68-68 pmColorBlack *)
definition pmColorBlack :: pmColor where
  "pmColorBlack = color 255 0 0 0"

(* src/user/libwoot/pixmap.c:69-69 pmColorBlue *)
definition pmColorBlue :: pmColor where
  "pmColorBlue = color 255 0 0 170"

(* src/user/libwoot/pixmap.c:70-70 pmColorGreen *)
definition pmColorGreen :: pmColor where
  "pmColorGreen = color 255 0 170 0"

(* src/user/libwoot/pixmap.c:71-71 pmColorCyan *)
definition pmColorCyan :: pmColor where
  "pmColorCyan = color 255 0 170 170"

(* src/user/libwoot/pixmap.c:72-72 pmColorRed *)
definition pmColorRed :: pmColor where
  "pmColorRed = color 255 170 0 0"

(* src/user/libwoot/pixmap.c:73-73 pmColorMagenta *)
definition pmColorMagenta :: pmColor where
  "pmColorMagenta = color 255 170 0 170"

(* src/user/libwoot/pixmap.c:74-74 pmColorBrown *)
definition pmColorBrown :: pmColor where
  "pmColorBrown = color 255 170 85 0"

(* src/user/libwoot/pixmap.c:75-75 pmColorGray *)
definition pmColorGray :: pmColor where
  "pmColorGray = color 255 170 170 170"

(* src/user/libwoot/pixmap.c:76-76 pmColorDarkGray *)
definition pmColorDarkGray :: pmColor where
  "pmColorDarkGray = color 255 85 85 85"

(* src/user/libwoot/pixmap.c:77-77 pmColorBrightBlue *)
definition pmColorBrightBlue :: pmColor where
  "pmColorBrightBlue = color 255 85 85 255"

(* src/user/libwoot/pixmap.c:78-78 pmColorBrightGreen *)
definition pmColorBrightGreen :: pmColor where
  "pmColorBrightGreen = color 255 85 255 85"

(* src/user/libwoot/pixmap.c:79-79 pmColorBrightCyan *)
definition pmColorBrightCyan :: pmColor where
  "pmColorBrightCyan = color 255 85 255 255"

(* src/user/libwoot/pixmap.c:80-80 pmColorBrightRed *)
definition pmColorBrightRed :: pmColor where
  "pmColorBrightRed = color 255 255 85 85"

(* src/user/libwoot/pixmap.c:81-81 pmColorBrightMagenta *)
definition pmColorBrightMagenta :: pmColor where
  "pmColorBrightMagenta = color 255 255 85 255"

(* src/user/libwoot/pixmap.c:82-82 pmColorYellow *)
definition pmColorYellow :: pmColor where
  "pmColorYellow = color 255 255 255 85"

(* src/user/libwoot/pixmap.c:83-83 pmColorWhite *)
definition pmColorWhite :: pmColor where
  "pmColorWhite = color 255 255 255 255"

(* src/user/libwoot/pixmap.c:84-84 pmColorTransparent *)
definition pmColorTransparent :: pmColor where
  "pmColorTransparent = color 0 0 0 0"

(* src/user/libwoot/pixmap.c:86-86 pmFormatInvalid *)
definition pmFormatInvalid :: pmPixelFormat where
  "pmFormatInvalid = \<lparr>BPP = 0, AlphaBits = 0, RedBits = 0, GreenBits = 0, BlueBits = 0, AlphaShift = 0, RedShift = 0, GreenShift = 0, BlueShift = 0\<rparr>"

(* src/user/libwoot/pixmap.c:87-87 pmFormatA8R8G8B8 *)
definition pmFormatA8R8G8B8 :: pmPixelFormat where
  "pmFormatA8R8G8B8 = \<lparr>BPP = 32, AlphaBits = 8, RedBits = 8, GreenBits = 8, BlueBits = 8, AlphaShift = 24, RedShift = 16, GreenShift = 8, BlueShift = 0\<rparr>"

(* src/user/libwoot/pixmap.c:88-88 pmFormatA0R8B8G8 *)
definition pmFormatA0R8B8G8 :: pmPixelFormat where
  "pmFormatA0R8B8G8 = \<lparr>BPP = 32, AlphaBits = 0, RedBits = 8, GreenBits = 8, BlueBits = 8, AlphaShift = 0, RedShift = 16, GreenShift = 8, BlueShift = 0\<rparr>"

section \<open>Helpers\<close>

(* src/user/libwoot/pixmap.c:96-122 wmemset *)
primrec wmemset :: "mem \<Rightarrow> int \<Rightarrow> dword \<Rightarrow> nat \<Rightarrow> mem" where
  "wmemset m ptr v 0 = m"
| "wmemset m ptr v (Suc num) = wmemset (wr16 m ptr (ucast v)) (ptr + 2) v num"

(* src/user/libwoot/pixmap.c:107-128 lmemset *)
primrec lmemset :: "mem \<Rightarrow> int \<Rightarrow> dword \<Rightarrow> nat \<Rightarrow> mem" where
  "lmemset m ptr v 0 = m"
| "lmemset m ptr v (Suc num) = lmemset (wr32 m ptr v) (ptr + 4) v num"

(* src/user/libwoot/pixmap.c:137-145 bltmove, forward *)
primrec bltmove_fwd :: "mem \<Rightarrow> int \<Rightarrow> int \<Rightarrow> nat \<Rightarrow> nat \<Rightarrow> nat \<Rightarrow> nat \<Rightarrow> mem" where
  "bltmove_fwd m d s bpl dstride sstride 0 = m"
| "bltmove_fwd m d s bpl dstride sstride (Suc lines) =
     bltmove_fwd (memmove m d s bpl) (d + int dstride) (s + int sstride) bpl dstride sstride lines"

(* src/user/libwoot/pixmap.c:146-156 bltmove, backward *)
primrec bltmove_bwd :: "mem \<Rightarrow> int \<Rightarrow> int \<Rightarrow> nat \<Rightarrow> nat \<Rightarrow> nat \<Rightarrow> nat \<Rightarrow> mem" where
  "bltmove_bwd m d s bpl dstride sstride 0 = m"
| "bltmove_bwd m d s bpl dstride sstride (Suc lines) =
     bltmove_bwd (memmove m (d + int dstride * int lines) (s + int sstride * int lines) bpl)
       d s bpl dstride sstride lines"

(* src/user/libwoot/pixmap.c:131-158 bltmove *)
definition bltmove :: "mem \<Rightarrow> int \<Rightarrow> int \<Rightarrow> nat \<Rightarrow> nat \<Rightarrow> nat \<Rightarrow> nat \<Rightarrow> mem" where
  "bltmove m d s bpl dstride sstride lines =
     (if ua d < ua s then bltmove_fwd m d s bpl dstride sstride lines
      else bltmove_bwd m d s bpl dstride sstride lines)"

text \<open>
  The single-precision expression, truncated to \<^verbatim>\<open>int\<close>. Its only call divides by a power of two up to
  256 and multiplies by 255, which is exact in single precision, so the model computes in \<open>rat\<close>.
\<close>

(* src/user/libwoot/pixmap.c:160-163 mapValue *)
definition mapValue :: "int \<Rightarrow> int \<Rightarrow> int \<Rightarrow> int \<Rightarrow> int \<Rightarrow> int" where
  "mapValue imin imax omin omax val =
     (let q = of_int (val - imin) / of_int (imax - imin) * of_int (omax - omin) + of_int omin :: rat
      in if 0 \<le> q then \<lfloor>q\<rfloor> else \<lceil>q\<rceil>)"

(* src/user/libwoot/pixmap.c:165-168 isDepthSupported *)
definition isDepthSupported :: "nat \<Rightarrow> bool" where
  "isDepthSupported depth \<longleftrightarrow> depth = 8 \<or> depth = 15 \<or> depth = 16 \<or> depth = 24 \<or> depth = 32"

(* src/user/libwoot/pixmap.c:176-187 pmFormatEqualP *)
definition pmFormatEqualP :: "pmPixelFormat \<Rightarrow> pmPixelFormat \<Rightarrow> bool" where
  "pmFormatEqualP a b \<longleftrightarrow>
     BPP a = BPP b \<and>
     AlphaShift a = AlphaShift b \<and> RedShift a = RedShift b \<and>
     GreenShift a = GreenShift b \<and> BlueShift a = BlueShift b \<and>
     AlphaBits a = AlphaBits b \<and> RedBits a = RedBits b \<and>
     GreenBits a = GreenBits b \<and> BlueBits a = BlueBits b"

(* src/user/libwoot/pixmap.c:170-173 pmFormatEqual *)
definition pmFormatEqual :: "pmPixelFormat \<Rightarrow> pmPixelFormat \<Rightarrow> bool" where
  "pmFormatEqual a b = pmFormatEqualP a b"

(* src/user/libwoot/pixmap.c:194-197 pmFormatPixelsToBytesP *)
definition pmFormatPixelsToBytesP :: "pmPixelFormat \<Rightarrow> nat \<Rightarrow> nat" where
  "pmFormatPixelsToBytesP format pixels = u32 (u32 (pixels * BPP format) + 7) div 8"

(* src/user/libwoot/pixmap.c:189-192 pmFormatPixelsToBytes *)
definition pmFormatPixelsToBytes :: "pmPixelFormat \<Rightarrow> nat \<Rightarrow> nat" where
  "pmFormatPixelsToBytes format pixels = pmFormatPixelsToBytesP format pixels"

section \<open>Colours\<close>

(* src/user/libwoot/pixmap.c:199-207 pmColorFromRGB *)
definition pmColorFromRGB :: "byte \<Rightarrow> byte \<Rightarrow> byte \<Rightarrow> pmColor" where
  "pmColorFromRGB r g b = \<lparr>cA = 255, cR = r, cG = g, cB = b\<rparr>"

(* src/user/libwoot/pixmap.c:209-217 pmColorFromARGB *)
definition pmColorFromARGB :: "byte \<Rightarrow> byte \<Rightarrow> byte \<Rightarrow> byte \<Rightarrow> pmColor" where
  "pmColorFromARGB a r g b = \<lparr>cA = a, cR = r, cG = g, cB = b\<rparr>"

(* src/user/libwoot/pixmap.c:219-226 pmColorToValue *)
definition pmColorToValue :: "pmPixelFormat \<Rightarrow> pmColor \<Rightarrow> dword" where
  "pmColorToValue format c =
     (let a = shr32 (ucast (cA c)) (sub32 8 (AlphaBits format));
          r = shr32 (ucast (cR c)) (sub32 8 (RedBits format));
          g = shr32 (ucast (cG c)) (sub32 8 (GreenBits format));
          b = shr32 (ucast (cB c)) (sub32 8 (BlueBits format))
      in shl32 a (AlphaShift format) OR shl32 r (RedShift format)
           OR shl32 g (GreenShift format) OR shl32 b (BlueShift format))"

(* src/user/libwoot/pixmap.c:228-235 pmColorFromValue *)
definition pmColorFromValue :: "pmPixelFormat \<Rightarrow> dword \<Rightarrow> pmColor" where
  "pmColorFromValue format v =
     (let a = shl32 (shr32 v (AlphaShift format)) (sub32 8 (AlphaBits format)) AND 255;
          r = shl32 (shr32 v (RedShift format)) (sub32 8 (RedBits format)) AND 255;
          g = shl32 (shr32 v (GreenShift format)) (sub32 8 (GreenBits format)) AND 255;
          b = shl32 (shr32 v (BlueShift format)) (sub32 8 (BlueBits format)) AND 255
      in pmColorFromARGB (ucast a) (ucast r) (ucast g) (ucast b))"

text \<open>A \<open>pmColor\<close> in memory is its four bytes in the order of the fields.\<close>

definition rdColor :: "mem \<Rightarrow> int \<Rightarrow> pmColor" where
  "rdColor m a = color (rd8 m a) (rd8 m (a + 1)) (rd8 m (a + 2)) (rd8 m (a + 3))"

definition wrColor :: "mem \<Rightarrow> int \<Rightarrow> pmColor \<Rightarrow> mem" where
  "wrColor m a c = wr8 (wr8 (wr8 (wr8 m a (cA c)) (a + 1) (cR c)) (a + 2) (cG c)) (a + 3) (cB c)"

text \<open>A null \<open>pixMap\<close> argument is \<open>None\<close> in the functions that test for it.\<close>

(* src/user/libwoot/pixmap.c:237-242 pmColorFromIndex *)
definition pmColorFromIndex :: "mem \<Rightarrow> pmPixMap option \<Rightarrow> nat \<Rightarrow> pmColor" where
  "pmColorFromIndex m pixMap index =
     (case pixMap of None \<Rightarrow> pmColorBlack
      | Some pm \<Rightarrow>
          (case Palette pm of None \<Rightarrow> pmColorBlack
           | Some p \<Rightarrow>
               if index \<ge> 2 ^ (BPP (Format pm) mod 32) then pmColorBlack
               else rdColor m (int p + 4 * int index)))"

(* src/user/libwoot/pixmap.c:255-258 pmIndexFromColor, squared distance *)
definition color_dist :: "pmColor \<Rightarrow> pmColor \<Rightarrow> nat" where
  "color_dist p c =
     (let dr = int (unat (cR p)) - int (unat (cR c));
          dg = int (unat (cG p)) - int (unat (cG c));
          db = int (unat (cB p)) - int (unat (cB c))
      in nat (dr * dr + dg * dg + db * db))"

(* src/user/libwoot/pixmap.c:244-267 pmIndexFromColor *)
definition pmIndexFromColor :: "mem \<Rightarrow> pmPixMap option \<Rightarrow> pmColor \<Rightarrow> nat" where
  "pmIndexFromColor m pixMap c =
     (case pixMap of None \<Rightarrow> 0
      | Some pm \<Rightarrow>
          (case Palette pm of None \<Rightarrow> 0
           | Some p \<Rightarrow>
               snd (fold (\<lambda>i (mine, mini).
                            let e = color_dist (rdColor m (int p + 4 * int i)) c
                            in if e < mine then (e, i) else (mine, mini))
                         [0..<2 ^ (BPP (Format pm) mod 32)] (U32_MAX, 0))))"

(* src/user/libwoot/pixmap.c:667-672 pmBlendPixel *)
definition pmBlendPixel :: "pmColor \<Rightarrow> pmColor \<Rightarrow> pmColor" where
  "pmBlendPixel a b =
     (let A = unat (cA b) + 1; iA = 256 - unat (cA b);
          mix = (\<lambda>x y. of_nat (u32 (A * unat (y :: byte) + iA * unat (x :: byte)) div 256))
      in pmColorFromARGB (cA a) (mix (cR a) (cR b)) (mix (cG a) (cG b)) (mix (cB a) (cB b)))"

section \<open>Pixels\<close>

definition pix_addr :: "pmPixMap \<Rightarrow> int \<Rightarrow> int \<Rightarrow> int \<Rightarrow> int" where
  "pix_addr pm bytes x y = int (Pixels pm) + int (Pitch pm) * y + x * bytes"

(* src/user/libwoot/pixmap.c:612-637 pmSetPixel *)
definition pmSetPixel :: "mem \<Rightarrow> pmPixMap \<Rightarrow> int \<Rightarrow> int \<Rightarrow> pmColor \<Rightarrow> mem" where
  "pmSetPixel m pm x y c =
     (if x < 0 \<or> x \<ge> rcWidth (Contents pm) \<or> y < 0 \<or> y \<ge> rcHeight (Contents pm) then m
      else
        let bpp = BPP (Format pm);
            m = (if bpp = 8 then wr8 m (pix_addr pm 1 x y) (of_nat (pmIndexFromColor m (Some pm) c)) else m);
            col = pmColorToValue (Format pm) c
        in if bpp = 32 then wr32 m (pix_addr pm 4 x y) col
           else if bpp = 24 then
             wr32 m (pix_addr pm 3 x y) ((rd32 m (pix_addr pm 3 x y) AND 0xFF000000) OR col)
           else if bpp = 16 \<or> bpp = 15 then wr16 m (pix_addr pm 2 x y) (ucast col)
           else m)"

(* src/user/libwoot/pixmap.c:641-642 pmGetPixel, wrapping a coordinate *)
definition wrap_coord :: "int \<Rightarrow> int \<Rightarrow> int" where
  "wrap_coord n x = (if x < 0 then n - (i32 (- x)) mod n else x mod n)"

(* src/user/libwoot/pixmap.c:639-665 pmGetPixel *)
definition pmGetPixel :: "mem \<Rightarrow> pmPixMap \<Rightarrow> int \<Rightarrow> int \<Rightarrow> pmColor" where
  "pmGetPixel m pm x0 y0 =
     (let x = wrap_coord (rcWidth (Contents pm)) x0;
          y = wrap_coord (rcHeight (Contents pm)) y0;
          bpp = BPP (Format pm)
      in if bpp = 32 then pmColorFromValue (Format pm) (rd32 m (pix_addr pm 4 x y))
         else if bpp = 24 then pmColorFromValue (Format pm) (rd32 m (pix_addr pm 3 x y) AND 0xFFFFFF)
         else if bpp = 16 \<or> bpp = 15 then pmColorFromValue (Format pm) (ucast (rd16 m (pix_addr pm 2 x y)))
         else if bpp = 8 then
           rdColor m (int (case Palette pm of None \<Rightarrow> 0 | Some p \<Rightarrow> p) + 4 * uint (rd8 m (pix_addr pm 1 x y)))
         else pmColorBlack)"

section \<open>Lines and rectangles\<close>

(* src/user/libwoot/pixmap.c:692-696 pmHLine, 24 bit loop *)
definition hline24 :: "mem \<Rightarrow> pmPixMap \<Rightarrow> int \<Rightarrow> int \<Rightarrow> int \<Rightarrow> dword \<Rightarrow> mem" where
  "hline24 m pm x1 y x2 col =
     fold (\<lambda>x m. wr32 m (pix_addr pm 3 x y) ((rd32 m (pix_addr pm 3 x y) AND 0xFF000000) OR col))
       [x1..x2 - 1] m"

(* src/user/libwoot/pixmap.c:674-703 pmHLine *)
definition pmHLine :: "mem \<Rightarrow> pmPixMap \<Rightarrow> int \<Rightarrow> int \<Rightarrow> int \<Rightarrow> pmColor \<Rightarrow> mem" where
  "pmHLine m pm xa y xb c =
     (let x1 = (if xa > xb then xb else xa); x2 = (if xa > xb then xa else xb);
          W = rcWidth (Contents pm) in
      if y < 0 \<or> y \<ge> rcHeight (Contents pm) \<or> (x1 < 0 \<and> x2 < 0) \<or> (x1 \<ge> W \<and> x2 \<ge> W) then m
      else
        let x1 = max 0 x1; x2 = min (W - 1) x2;
            col = pmColorToValue (Format pm) c; w = x2 - x1 + 1; bpp = BPP (Format pm)
        in if bpp = 32 then lmemset m (pix_addr pm 4 x1 y) col (nat w)
           else if bpp = 24 then hline24 m pm x1 y x2 col
           else if bpp = 16 \<or> bpp = 15 then wmemset m (pix_addr pm 2 x1 y) col (nat w)
           else m)"

(* src/user/libwoot/pixmap.c:705-713 pmVLine *)
definition pmVLine :: "mem \<Rightarrow> pmPixMap \<Rightarrow> int \<Rightarrow> int \<Rightarrow> int \<Rightarrow> pmColor \<Rightarrow> mem" where
  "pmVLine m pm x ya yb c =
     (let y1 = (if ya > yb then yb else ya); y2 = (if ya > yb then ya else yb);
          W = rcWidth (Contents pm); H = rcHeight (Contents pm) in
      if x < 0 \<or> x \<ge> W \<or> (y1 < 0 \<and> y2 < 0) \<or> (y1 \<ge> H \<and> y2 \<ge> H) then m
      else fold (\<lambda>Y m. pmSetPixel m pm x Y c) [y1..y2] m)"

text \<open>\<open>lineBuf\<close> is the result of \<open>malloc\<close>; \<open>None\<close> is a null pointer.\<close>

(* src/user/libwoot/pixmap.c:719-724 pmVFlip, loop body *)
definition vflip_row :: "mem \<Rightarrow> pmPixMap \<Rightarrow> int \<Rightarrow> int \<Rightarrow> mem" where
  "vflip_row m pm lineBuf y =
     (let p = int (Pitch pm); base = int (Pixels pm);
          lo = base + p * (rcHeight (Contents pm) - (y + 1)); up = base + p * y;
          m = memmove m lineBuf lo (Pitch pm);
          m = memmove m lo up (Pitch pm)
      in memmove m up lineBuf (Pitch pm))"

(* src/user/libwoot/pixmap.c:715-726 pmVFlip *)
definition pmVFlip :: "int option \<Rightarrow> mem \<Rightarrow> pmPixMap \<Rightarrow> mem" where
  "pmVFlip lineBuf m pm =
     (case lineBuf of None \<Rightarrow> m
      | Some lb \<Rightarrow> fold (\<lambda>y m. vflip_row m pm lb y) [0..rcHeight (Contents pm) div 2 - 1] m)"

text \<open>\<open>>> 1\<close> on a negative \<^verbatim>\<open>int\<close> is an arithmetic shift, which rounds down as \<open>div\<close> does.\<close>

(* src/user/libwoot/pixmap.c:736-752 pmLine, loop *)
partial_function (option) pmLine_loop ::
    "pmPixMap \<Rightarrow> pmColor \<Rightarrow> int \<Rightarrow> int \<Rightarrow> int \<Rightarrow> int \<Rightarrow> int \<Rightarrow> int \<Rightarrow> int \<Rightarrow> int \<Rightarrow> int \<Rightarrow> mem \<Rightarrow> mem option" where
  "pmLine_loop pm c sx sy dx dy x2 y2 x1 y1 e m =
     (let m' = pmSetPixel m pm x1 y1 c in
      if x1 = x2 \<and> y1 = y2 then Some m'
      else
        let ex = (if e > - dx then i32 (e - dy) else e);
            x1' = (if e > - dx then i32 (x1 + sx) else x1);
            e' = (if e < dy then i32 (ex + dx) else ex);
            y1' = (if e < dy then i32 (y1 + sy) else y1)
        in pmLine_loop pm c sx sy dx dy x2 y2 x1' y1' e' m')"

(* src/user/libwoot/pixmap.c:728-753 pmLine *)
definition pmLine :: "mem \<Rightarrow> pmPixMap \<Rightarrow> int \<Rightarrow> int \<Rightarrow> int \<Rightarrow> int \<Rightarrow> pmColor \<Rightarrow> mem option" where
  "pmLine m pm x1 y1 x2 y2 c =
     (let dx = i32 (x2 - x1); sx = (if dx < 0 then - 1 else 1);
          dy = i32 (y2 - y1); sy = (if dy < 0 then - 1 else 1);
          dx = i32 (dx * sx); dy = i32 (dy * sy);
          e = (if dx > dy then dx else i32 (- dy)) div 2
      in pmLine_loop pm c sx sy dx dy x2 y2 x1 y1 e m)"

(* src/user/libwoot/pixmap.c:755-764 pmRectangle *)
definition pmRectangle :: "mem \<Rightarrow> pmPixMap \<Rightarrow> int \<Rightarrow> int \<Rightarrow> int \<Rightarrow> int \<Rightarrow> pmColor \<Rightarrow> mem" where
  "pmRectangle m pm x y w h c =
     (if w \<le> 0 \<or> h \<le> 0 then m
      else
        let x2 = i32 (x + w - 1); y2 = i32 (y + h - 1);
            m = pmHLine m pm x y x2 c;
            m = pmHLine m pm x y2 x2 c;
            m = pmVLine m pm x y y2 c
        in pmVLine m pm x2 y y2 c)"

(* src/user/libwoot/pixmap.c:766-769 pmRectangleRect *)
definition pmRectangleRect :: "mem \<Rightarrow> pmPixMap \<Rightarrow> rcRectangle \<Rightarrow> pmColor \<Rightarrow> mem" where
  "pmRectangleRect m pm r c = pmRectangle m pm (rcX r) (rcY r) (rcWidth r) (rcHeight r) c"

(* src/user/libwoot/pixmap.c:771-784 pmFillRectangle *)
definition pmFillRectangle :: "mem \<Rightarrow> pmPixMap \<Rightarrow> int \<Rightarrow> int \<Rightarrow> int \<Rightarrow> int \<Rightarrow> pmColor \<Rightarrow> mem" where
  "pmFillRectangle m pm x y w h c =
     (if w \<le> 0 \<or> h \<le> 0 then m
      else
        let x2 = i32 (x + w - 1); y2 = i32 (y + h) in
        if x2 < 0 \<or> x \<ge> rcWidth (Contents pm) \<or> y2 < 0 \<or> y \<ge> rcHeight (Contents pm) then m
        else fold (\<lambda>Y m. pmHLine m pm x Y x2 c) [y..y2 - 1] m)"

(* src/user/libwoot/pixmap.c:786-789 pmClear *)
definition pmClear :: "mem \<Rightarrow> pmPixMap \<Rightarrow> pmColor \<Rightarrow> mem" where
  "pmClear m pm c = pmFillRectangle m pm 0 0 (rcWidth (Contents pm)) (rcHeight (Contents pm)) c"

section \<open>Pixels as little-endian cells\<close>

text \<open>
  Under \<open>pm_ok\<close> a pixel is a little-endian cell of \<open>pbytes\<close> bytes, the cells of different pixels are
  disjoint, and every address computation stays inside the buffer. The fourth byte that the 24-bit
  accesses touch is written back unchanged; \<open>pm_ok\<close> leaves room for it behind the last row.
\<close>

definition pbytes :: "pmPixelFormat \<Rightarrow> nat" where
  "pbytes f = (BPP f + 7) div 8"

definition fmt_ok :: "pmPixelFormat \<Rightarrow> bool" where
  "fmt_ok f \<longleftrightarrow> BPP f \<in> {15, 16, 24, 32} \<and>
     (\<forall>(n, s) \<in> {(AlphaBits f, AlphaShift f), (RedBits f, RedShift f),
                (GreenBits f, GreenShift f), (BlueBits f, BlueShift f)}. n \<le> 8 \<and> s + n \<le> BPP f \<and> s < BPP f)"

definition pm_ok :: "pmPixMap \<Rightarrow> bool" where
  "pm_ok pm \<longleftrightarrow> fmt_ok (Format pm) \<and>
     0 < rcWidth (Contents pm) \<and> 0 < rcHeight (Contents pm) \<and>
     rcWidth (Contents pm) < 2 ^ 31 \<and> rcHeight (Contents pm) < 2 ^ 31 \<and>
     rcWidth (Contents pm) * int (pbytes (Format pm)) \<le> int (Pitch pm) \<and>
     int (Pixels pm) + int (Pitch pm) * rcHeight (Contents pm) < 2 ^ 32"

definition pm_in :: "pmPixMap \<Rightarrow> int \<Rightarrow> int \<Rightarrow> bool" where
  "pm_in pm x y \<longleftrightarrow> 0 \<le> x \<and> x < rcWidth (Contents pm) \<and> 0 \<le> y \<and> y < rcHeight (Contents pm)"

definition pix_cell :: "pmPixMap \<Rightarrow> int \<Rightarrow> int \<Rightarrow> int" where
  "pix_cell pm x y = pix_addr pm (int (pbytes (Format pm))) x y"

definition poke :: "mem \<Rightarrow> int \<Rightarrow> nat \<Rightarrow> dword \<Rightarrow> mem" where
  "poke m a b v = (\<lambda>p. if a \<le> p \<and> p < a + int b then ucast (drop_bit (8 * nat (p - a)) v) else m p)"

primrec peek :: "mem \<Rightarrow> int \<Rightarrow> nat \<Rightarrow> dword" where
  "peek m a 0 = 0"
| "peek m a (Suc b) = ucast (m a) OR push_bit 8 (peek m (a + 1) b)"

lemma ua_id [simp]: "0 \<le> a \<Longrightarrow> a < 2 ^ 32 \<Longrightarrow> ua a = a"
  by (simp add: ua_def)

lemma bit_byte_bound: "bit (w :: byte) n \<Longrightarrow> n < 8"
  using bit_imp_le_length [of w n] by simp

lemma bit_peek:
  "b \<le> 4 \<Longrightarrow> bit (peek m a b) i \<longleftrightarrow> i < 8 * b \<and> bit (m (a + int (i div 8))) (i mod 8)"
proof (induction b arbitrary: a i)
  case 0
  then show ?case by simp
next
  case (Suc b)
  show ?case
  proof (cases "i < 8")
    case True
    then show ?thesis by (simp add: bit_simps)
  next
    case False
    then have "int (i div 8) = 1 + int ((i - 8) div 8)" "(i - 8) mod 8 = i mod 8"
      by (simp_all add: le_div_geq le_mod_geq)
    with False Suc show ?thesis
      by (auto simp: bit_simps add.assoc dest: bit_byte_bound)
  qed
qed

lemma peek_cong: "(\<And>k. k < b \<Longrightarrow> m (a + int k) = m' (a + int k)) \<Longrightarrow> peek m a b = peek m' a b"
proof (induction b arbitrary: a)
  case (Suc b)
  have "peek m (a + 1) b = peek m' (a + 1) b"
    using Suc.prems [of "Suc k" for k] by (intro Suc.IH) (simp add: add.assoc)
  with Suc.prems [of 0] show ?case by simp
qed simp

lemma peek_poke_same:
  assumes "b \<le> 4"
  shows "peek (poke m a b v) a b = take_bit (8 * b) v"
proof (rule bit_eqI)
  fix i
  have "i div 8 < b \<longleftrightarrow> i < 8 * b" by (simp add: div_less_iff_less_mult mult.commute)
  moreover have "8 * (i div 8) + i mod 8 = i" by simp
  ultimately show "bit (peek (poke m a b v) a b) i = bit (take_bit (8 * b) v) i"
    using assms by (auto simp: bit_peek poke_def bit_simps)
qed

lemma peek_poke_other:
  assumes "a' + int b' \<le> a \<or> a + int b \<le> a'"
  shows "peek (poke m a b v) a' b' = peek m a' b'"
  using assms by (intro peek_cong) (auto simp: poke_def)

lemma wr32_poke:
  assumes "0 \<le> a" "a + 4 \<le> 2 ^ 32"
  shows "wr32 m a v = poke m a 4 v"
proof
  fix p
  consider "p = a" | "p = a + 1" | "p = a + 2" | "p = a + 3" | "p < a \<or> a + 4 \<le> p" by linarith
  then show "wr32 m a v p = poke m a 4 v p"
    using assms by cases (auto simp: wr32_def wr8_def poke_def)
qed

lemma wr16_poke:
  assumes "0 \<le> a" "a + 2 \<le> 2 ^ 32"
  shows "wr16 m a (ucast v) = poke m a 2 v"
proof
  fix p
  have "ucast (drop_bit 8 (ucast v :: 16 word)) = (ucast (drop_bit 8 v) :: byte)"
    by (rule bit_word_eqI) (auto simp: bit_simps)
  moreover have "ucast (ucast v :: 16 word) = (ucast v :: byte)"
    by (rule bit_word_eqI) (auto simp: bit_simps)
  moreover have "p = a \<or> p = a + 1 \<or> p < a \<or> a + 2 \<le> p" by linarith
  ultimately show "wr16 m a (ucast v) p = poke m a 2 v p"
    using assms by (auto simp: wr16_def wr8_def poke_def)
qed

lemma peek_2: "peek m a 2 = ucast (m a) OR push_bit 8 (ucast (m (a + 1)))"
proof -
  have "peek m a (Suc (Suc 0)) = ucast (m a) OR push_bit 8 (ucast (m (a + 1)))" by simp
  then show ?thesis by (simp only: numeral_2_eq_2)
qed

lemma peek_4:
  "peek m a 4 = ucast (m a) OR push_bit 8 (ucast (m (a + 1)))
     OR push_bit 16 (ucast (m (a + 2))) OR push_bit 24 (ucast (m (a + 3)))"
proof -
  have "peek m a (Suc (Suc 2)) = ucast (m a) OR push_bit 8 (ucast (m (a + 1)))
     OR push_bit 16 (ucast (m (a + 2))) OR push_bit 24 (ucast (m (a + 3)))"
    unfolding peek.simps peek_2 by (simp add: push_bit_or push_bit_push_bit or.assoc add.assoc)
  then show ?thesis by simp
qed

lemma rd32_peek: "0 \<le> a \<Longrightarrow> a + 4 \<le> 2 ^ 32 \<Longrightarrow> rd32 m a = peek m a 4"
  by (simp add: rd32_def rd8_def peek_4)

lemma rd16_peek: "0 \<le> a \<Longrightarrow> a + 2 \<le> 2 ^ 32 \<Longrightarrow> ucast (rd16 m a) = peek m a 2"
  by (rule bit_word_eqI) (auto simp: rd16_def rd8_def peek_2 bit_simps dest: bit_byte_bound)

lemma pm_ok_pbytes: "pm_ok pm \<Longrightarrow> pbytes (Format pm) \<in> {2, 3, 4}"
  by (auto simp: pm_ok_def fmt_ok_def pbytes_def)

lemma pix_cell_bounds:
  assumes "pm_ok pm" and "pm_in pm x y"
  shows "0 \<le> pix_cell pm x y"
    and "pix_cell pm x y + int (pbytes (Format pm))
           \<le> int (Pixels pm) + int (Pitch pm) * (y + 1)"
    and "int (Pixels pm) + int (Pitch pm) * (y + 1) < 2 ^ 32"
proof -
  let ?b = "int (pbytes (Format pm))"
  have "(x + 1) * ?b \<le> rcWidth (Contents pm) * ?b"
    using assms(2) by (intro mult_right_mono) (auto simp: pm_in_def)
  with assms(1) have "(x + 1) * ?b \<le> int (Pitch pm)" by (simp add: pm_ok_def)
  then show "pix_cell pm x y + ?b \<le> int (Pixels pm) + int (Pitch pm) * (y + 1)"
    by (simp add: pix_cell_def pix_addr_def algebra_simps)
  have "int (Pitch pm) * (y + 1) \<le> int (Pitch pm) * rcHeight (Contents pm)"
    using assms(2) by (intro mult_left_mono) (auto simp: pm_in_def)
  with assms(1) show "int (Pixels pm) + int (Pitch pm) * (y + 1) < 2 ^ 32"
    by (simp add: pm_ok_def)
  show "0 \<le> pix_cell pm x y"
    using assms(2) by (simp add: pix_cell_def pix_addr_def pm_in_def)
qed

lemma pix_cell_range:
  assumes "pm_ok pm" and "pm_in pm x y"
  shows "0 \<le> pix_cell pm x y" and "pix_cell pm x y + int (pbytes (Format pm)) < 2 ^ 32"
  using pix_cell_bounds [OF assms] by linarith+

lemma pix_cell_row_less:
  assumes "pm_ok pm" "pm_in pm x y" "pm_in pm x' y'" "y < y'"
  shows "pix_cell pm x y + int (pbytes (Format pm)) \<le> pix_cell pm x' y'"
proof -
  have "int (Pitch pm) * (y + 1) \<le> int (Pitch pm) * y'"
    using assms(4) by (intro mult_left_mono) auto
  moreover have "0 \<le> x' * int (pbytes (Format pm))"
    using assms(3) by (simp add: pm_in_def)
  ultimately show ?thesis
    using pix_cell_bounds(2) [OF assms(1,2)] unfolding pix_cell_def [of pm x'] pix_addr_def
    by linarith
qed

lemma pix_cell_col_less:
  assumes "x < x'"
  shows "pix_cell pm x y + int (pbytes (Format pm)) \<le> pix_cell pm x' y"
proof -
  have "(x + 1) * int (pbytes (Format pm)) \<le> x' * int (pbytes (Format pm))"
    using assms by (intro mult_right_mono) auto
  then show ?thesis by (simp add: pix_cell_def pix_addr_def algebra_simps)
qed

lemma pix_cell_disjoint:
  assumes "pm_ok pm" "pm_in pm x y" "pm_in pm x' y'" "(x, y) \<noteq> (x', y')"
  shows "pix_cell pm x y + int (pbytes (Format pm)) \<le> pix_cell pm x' y'
       \<or> pix_cell pm x' y' + int (pbytes (Format pm)) \<le> pix_cell pm x y"
proof -
  consider "y < y'" | "y' < y" | "y = y'" "x < x'" | "y = y'" "x' < x"
    using assms(4) by fastforce
  then show ?thesis
    by cases (use assms pix_cell_row_less pix_cell_col_less in blast)+
qed

section \<open>Colour encoding\<close>

definition chan_enc :: "nat \<Rightarrow> nat \<Rightarrow> byte \<Rightarrow> dword" where
  "chan_enc n s x = shl32 (shr32 (ucast x) (sub32 8 n)) s"

definition chan_dec :: "nat \<Rightarrow> nat \<Rightarrow> dword \<Rightarrow> byte" where
  "chan_dec n s v = ucast (shl32 (shr32 v s) (sub32 8 n) AND 255)"

text \<open>The upper \<open>n\<close> bits of a channel.\<close>

definition top_bits :: "nat \<Rightarrow> byte \<Rightarrow> byte" where
  "top_bits n x = push_bit (8 - n) (drop_bit (8 - n) x)"

lemma pmColorToValue_chan:
  "pmColorToValue f c = chan_enc (AlphaBits f) (AlphaShift f) (cA c) OR chan_enc (RedBits f) (RedShift f) (cR c)
     OR chan_enc (GreenBits f) (GreenShift f) (cG c) OR chan_enc (BlueBits f) (BlueShift f) (cB c)"
  by (simp add: pmColorToValue_def chan_enc_def Let_def)

lemma pmColorFromValue_chan:
  "pmColorFromValue f v = color (chan_dec (AlphaBits f) (AlphaShift f) v) (chan_dec (RedBits f) (RedShift f) v)
     (chan_dec (GreenBits f) (GreenShift f) v) (chan_dec (BlueBits f) (BlueShift f) v)"
  by (simp add: pmColorFromValue_def chan_dec_def Let_def color_def pmColorFromARGB_def)

lemma bit_chan_enc:
  assumes "n \<le> 8" "s + n \<le> 32" "s < 32"
  shows "bit (chan_enc n s x) i \<longleftrightarrow> s \<le> i \<and> i < s + n \<and> bit x (i - s + (8 - n))"
  using assms
  by (auto simp: chan_enc_def shl32_def shr32_def wrap_simps bit_simps add.commute dest: bit_byte_bound)

lemma bit_chan_dec:
  assumes "n \<le> 8" "s + n \<le> 32" "s < 32"
  shows "bit (chan_dec n s v) i \<longleftrightarrow> i < 8 \<and> 8 - n \<le> i \<and> bit v (s + (i - (8 - n)))"
proof -
  have "bit (255 :: dword) i \<longleftrightarrow> i < 8" for i
  proof -
    have "(255 :: dword) = mask 8" by (simp add: mask_eq_exp_minus_1)
    then show ?thesis by (simp only: bit_mask_iff possible_bit_word) auto
  qed
  with assms show ?thesis
    by (auto simp: chan_dec_def shl32_def shr32_def wrap_simps bit_simps)
qed

text \<open>The fields of a format do not overlap.\<close>

definition field_sep :: "nat \<Rightarrow> nat \<Rightarrow> nat \<Rightarrow> nat \<Rightarrow> bool" where
  "field_sep n s n' s' \<longleftrightarrow> s + n \<le> s' \<or> s' + n' \<le> s \<or> n = 0 \<or> n' = 0"

definition fields_disjoint :: "pmPixelFormat \<Rightarrow> bool" where
  "fields_disjoint f \<longleftrightarrow>
     field_sep (AlphaBits f) (AlphaShift f) (RedBits f) (RedShift f) \<and>
     field_sep (AlphaBits f) (AlphaShift f) (GreenBits f) (GreenShift f) \<and>
     field_sep (AlphaBits f) (AlphaShift f) (BlueBits f) (BlueShift f) \<and>
     field_sep (RedBits f) (RedShift f) (GreenBits f) (GreenShift f) \<and>
     field_sep (RedBits f) (RedShift f) (BlueBits f) (BlueShift f) \<and>
     field_sep (GreenBits f) (GreenShift f) (BlueBits f) (BlueShift f)"

lemma field_sepD: "field_sep n s n' s' \<Longrightarrow> \<not> (s \<le> i \<and> i < s + n \<and> s' \<le> i \<and> i < s' + n')"
  by (auto simp: field_sep_def)

lemma fmt_ok_fields:
  assumes "fmt_ok f"
  shows "AlphaBits f \<le> 8" "AlphaShift f + AlphaBits f \<le> 32" "AlphaShift f < 32"
    and "RedBits f \<le> 8" "RedShift f + RedBits f \<le> 32" "RedShift f < 32"
    and "GreenBits f \<le> 8" "GreenShift f + GreenBits f \<le> 32" "GreenShift f < 32"
    and "BlueBits f \<le> 8" "BlueShift f + BlueBits f \<le> 32" "BlueShift f < 32"
  using assms by (auto simp: fmt_ok_def)

lemma bit_pmColorToValue:
  assumes "fmt_ok f"
  shows "bit (pmColorToValue f c) i \<longleftrightarrow>
    (AlphaShift f \<le> i \<and> i < AlphaShift f + AlphaBits f \<and> bit (cA c) (i - AlphaShift f + (8 - AlphaBits f))) \<or>
    (RedShift f \<le> i \<and> i < RedShift f + RedBits f \<and> bit (cR c) (i - RedShift f + (8 - RedBits f))) \<or>
    (GreenShift f \<le> i \<and> i < GreenShift f + GreenBits f \<and> bit (cG c) (i - GreenShift f + (8 - GreenBits f))) \<or>
    (BlueShift f \<le> i \<and> i < BlueShift f + BlueBits f \<and> bit (cB c) (i - BlueShift f + (8 - BlueBits f)))"
  unfolding pmColorToValue_chan bit_or_iff
  using fmt_ok_fields [OF assms] by (simp add: bit_chan_enc)

lemma pmColorToValue_fits:
  assumes "fmt_ok f"
  shows "take_bit (8 * pbytes f) (pmColorToValue f c) = pmColorToValue f c"
proof (rule bit_eqI)
  fix i
  have "BPP f \<le> 8 * pbytes f" by (simp add: pbytes_def)
  with assms have "AlphaShift f + AlphaBits f \<le> 8 * pbytes f" "RedShift f + RedBits f \<le> 8 * pbytes f"
    "GreenShift f + GreenBits f \<le> 8 * pbytes f" "BlueShift f + BlueBits f \<le> 8 * pbytes f"
    by (auto simp: fmt_ok_def)
  then show "bit (take_bit (8 * pbytes f) (pmColorToValue f c)) i = bit (pmColorToValue f c) i"
    unfolding bit_take_bit_iff bit_pmColorToValue [OF assms] by auto
qed

lemma channel_bits:
  assumes "fmt_ok f" and "fields_disjoint f"
  shows "AlphaShift f \<le> i \<Longrightarrow> i < AlphaShift f + AlphaBits f \<Longrightarrow>
           bit (pmColorToValue f c) i \<longleftrightarrow> bit (cA c) (i - AlphaShift f + (8 - AlphaBits f))"
    and "RedShift f \<le> i \<Longrightarrow> i < RedShift f + RedBits f \<Longrightarrow>
           bit (pmColorToValue f c) i \<longleftrightarrow> bit (cR c) (i - RedShift f + (8 - RedBits f))"
    and "GreenShift f \<le> i \<Longrightarrow> i < GreenShift f + GreenBits f \<Longrightarrow>
           bit (pmColorToValue f c) i \<longleftrightarrow> bit (cG c) (i - GreenShift f + (8 - GreenBits f))"
    and "BlueShift f \<le> i \<Longrightarrow> i < BlueShift f + BlueBits f \<Longrightarrow>
           bit (pmColorToValue f c) i \<longleftrightarrow> bit (cB c) (i - BlueShift f + (8 - BlueBits f))"
proof -
  have sep: "\<not> (AlphaShift f \<le> i \<and> i < AlphaShift f + AlphaBits f \<and> RedShift f \<le> i \<and> i < RedShift f + RedBits f)"
    "\<not> (AlphaShift f \<le> i \<and> i < AlphaShift f + AlphaBits f \<and> GreenShift f \<le> i \<and> i < GreenShift f + GreenBits f)"
    "\<not> (AlphaShift f \<le> i \<and> i < AlphaShift f + AlphaBits f \<and> BlueShift f \<le> i \<and> i < BlueShift f + BlueBits f)"
    "\<not> (RedShift f \<le> i \<and> i < RedShift f + RedBits f \<and> GreenShift f \<le> i \<and> i < GreenShift f + GreenBits f)"
    "\<not> (RedShift f \<le> i \<and> i < RedShift f + RedBits f \<and> BlueShift f \<le> i \<and> i < BlueShift f + BlueBits f)"
    "\<not> (GreenShift f \<le> i \<and> i < GreenShift f + GreenBits f \<and> BlueShift f \<le> i \<and> i < BlueShift f + BlueBits f)"
    by (rule field_sepD, use assms(2) in \<open>simp add: fields_disjoint_def\<close>)+
  show "AlphaShift f \<le> i \<Longrightarrow> i < AlphaShift f + AlphaBits f \<Longrightarrow>
           bit (pmColorToValue f c) i \<longleftrightarrow> bit (cA c) (i - AlphaShift f + (8 - AlphaBits f))"
    unfolding bit_pmColorToValue [OF assms(1)] using sep by blast
  show "RedShift f \<le> i \<Longrightarrow> i < RedShift f + RedBits f \<Longrightarrow>
           bit (pmColorToValue f c) i \<longleftrightarrow> bit (cR c) (i - RedShift f + (8 - RedBits f))"
    unfolding bit_pmColorToValue [OF assms(1)] using sep by blast
  show "GreenShift f \<le> i \<Longrightarrow> i < GreenShift f + GreenBits f \<Longrightarrow>
           bit (pmColorToValue f c) i \<longleftrightarrow> bit (cG c) (i - GreenShift f + (8 - GreenBits f))"
    unfolding bit_pmColorToValue [OF assms(1)] using sep by blast
  show "BlueShift f \<le> i \<Longrightarrow> i < BlueShift f + BlueBits f \<Longrightarrow>
           bit (pmColorToValue f c) i \<longleftrightarrow> bit (cB c) (i - BlueShift f + (8 - BlueBits f))"
    unfolding bit_pmColorToValue [OF assms(1)] using sep by blast
qed

lemma chan_roundtrip:
  assumes "n \<le> 8" "s + n \<le> 32" "s < 32"
    and "\<And>i. s \<le> i \<Longrightarrow> i < s + n \<Longrightarrow> bit v i \<longleftrightarrow> bit x (i - s + (8 - n))"
  shows "chan_dec n s v = top_bits n x"
proof (rule bit_word_eqI)
  fix i assume "i < LENGTH(8)"
  then show "bit (chan_dec n s v) i = bit (top_bits n x) i"
    unfolding bit_chan_dec [OF assms(1-3)] top_bits_def
    using assms by (auto simp: bit_simps)
qed

text \<open>
  Encoding a colour in a pixel format and decoding it again keeps, in every channel, exactly the bits
  the format has room for: each channel loses its low \<open>8 - n\<close> bits and nothing else, whatever order the
  format puts the channels in, as long as its fields fit and do not overlap.
\<close>

lemma color_value_roundtrip:
  assumes "fmt_ok f" and "fields_disjoint f"
  shows "pmColorFromValue f (pmColorToValue f c) =
    color (top_bits (AlphaBits f) (cA c)) (top_bits (RedBits f) (cR c))
          (top_bits (GreenBits f) (cG c)) (top_bits (BlueBits f) (cB c))"
proof -
  note fs = fmt_ok_fields [OF assms(1)] and cb = channel_bits [OF assms]
  have "chan_dec (AlphaBits f) (AlphaShift f) (pmColorToValue f c) = top_bits (AlphaBits f) (cA c)"
    using fs(1-3) by (rule chan_roundtrip) (rule cb(1))
  moreover have "chan_dec (RedBits f) (RedShift f) (pmColorToValue f c) = top_bits (RedBits f) (cR c)"
    using fs(4-6) by (rule chan_roundtrip) (rule cb(2))
  moreover have "chan_dec (GreenBits f) (GreenShift f) (pmColorToValue f c) = top_bits (GreenBits f) (cG c)"
    using fs(7-9) by (rule chan_roundtrip) (rule cb(3))
  moreover have "chan_dec (BlueBits f) (BlueShift f) (pmColorToValue f c) = top_bits (BlueBits f) (cB c)"
    using fs(10-12) by (rule chan_roundtrip) (rule cb(4))
  ultimately show ?thesis by (simp add: pmColorFromValue_chan)
qed

section \<open>Reading and writing a pixel\<close>

lemma mask_24: "(0xFFFFFF :: dword) = mask 24" "(0xFF000000 :: dword) = push_bit 24 (mask 8)"
  by (simp_all add: mask_eq_exp_minus_1)

lemma wr24_poke:
  assumes "0 \<le> a" "a + 4 \<le> 2 ^ 32" and v: "take_bit 24 v = v"
  shows "wr32 m a ((rd32 m a AND 0xFF000000) OR v) = poke m a 3 v"
proof
  fix p
  have b: "bit v i \<Longrightarrow> i < 24" for i using v by (metis bit_take_bit_iff)
  define w where "w = rd32 m a AND 0xFF000000"
  have r: "bit w i \<longleftrightarrow> 24 \<le> i \<and> bit (m (a + 3)) (i - 24)" for i
    using assms(1,2)
    by (auto simp: w_def rd32_peek mask_24 peek_4 bit_simps simp del: push_bit_mask_eq dest: bit_byte_bound)
  have low: "ucast (drop_bit k (w OR v)) = (ucast (drop_bit k v) :: byte)"
    if "k + 8 \<le> 24" for k
    using that by (intro bit_word_eqI) (auto simp: bit_simps r)
  have top: "ucast (drop_bit 24 (w OR v)) = m (a + 3)"
    by (rule bit_word_eqI) (auto simp: bit_simps r dest: b)
  show "wr32 m a ((rd32 m a AND 0xFF000000) OR v) p = poke m a 3 v p"
    unfolding wr32_poke [OF assms(1,2)] w_def [symmetric]
  proof (cases "a \<le> p \<and> p < a + 4")
    case True
    then consider "p = a + 3" | "a \<le> p" "p < a + 3" by linarith
    then show "poke m a 4 (w OR v) p = poke m a 3 v p"
    proof cases
      case 1
      then show ?thesis by (simp add: poke_def top del: drop_bit_or)
    next
      case 2
      then show ?thesis by (simp add: poke_def low del: drop_bit_or)
    qed
  qed (auto simp: poke_def)
qed

lemma rd24_peek:
  assumes "0 \<le> a" "a + 4 \<le> 2 ^ 32"
  shows "rd32 m a AND 0xFFFFFF = peek m a 3"
  by (rule bit_word_eqI) (use assms in \<open>auto simp: rd32_peek mask_24 bit_peek bit_simps\<close>)

lemma pmSetPixel_out: "\<not> pm_in pm x y \<Longrightarrow> pmSetPixel m pm x y c = m"
  by (auto simp: pmSetPixel_def pm_in_def)

lemma pmSetPixel_poke:
  assumes "pm_ok pm" and "pm_in pm x y"
  shows "pmSetPixel m pm x y c = poke m (pix_cell pm x y) (pbytes (Format pm)) (pmColorToValue (Format pm) c)"
proof -
  have f: "fmt_ok (Format pm)" using assms(1) by (simp add: pm_ok_def)
  note r = pix_cell_range [OF assms] and t = pmColorToValue_fits [OF f, of c]
  from f consider "BPP (Format pm) = 32" | "BPP (Format pm) = 24" | "BPP (Format pm) = 16 \<or> BPP (Format pm) = 15"
    by (auto simp: fmt_ok_def)
  then show ?thesis
  proof cases
    case 1
    with assms(2) r show ?thesis
      by (auto simp: pmSetPixel_def pm_in_def Let_def pbytes_def pix_cell_def wr32_poke)
  next
    case 2
    with assms(2) r t show ?thesis
      by (auto simp: pmSetPixel_def pm_in_def Let_def pbytes_def pix_cell_def wr24_poke)
  next
    case 3
    with assms(2) r show ?thesis
      by (auto simp: pmSetPixel_def pm_in_def Let_def pbytes_def pix_cell_def wr16_poke)
  qed
qed

lemma pmGetPixel_peek:
  assumes "pm_ok pm" and "pm_in pm x y"
  shows "pmGetPixel m pm x y = pmColorFromValue (Format pm) (peek m (pix_cell pm x y) (pbytes (Format pm)))"
proof -
  have f: "fmt_ok (Format pm)" using assms(1) by (simp add: pm_ok_def)
  note r = pix_cell_range [OF assms]
  have w: "wrap_coord (rcWidth (Contents pm)) x = x" "wrap_coord (rcHeight (Contents pm)) y = y"
    using assms(2) by (auto simp: wrap_coord_def pm_in_def)
  from f consider "BPP (Format pm) = 32" | "BPP (Format pm) = 24" | "BPP (Format pm) = 16 \<or> BPP (Format pm) = 15"
    by (auto simp: fmt_ok_def)
  then show ?thesis
  proof cases
    case 1
    with r w show ?thesis
      by (auto simp: pmGetPixel_def Let_def pbytes_def pix_cell_def rd32_peek)
  next
    case 2
    with r w show ?thesis
      by (auto simp: pmGetPixel_def Let_def pbytes_def pix_cell_def rd24_peek)
  next
    case 3
    with r w show ?thesis
      by (auto simp: pmGetPixel_def Let_def pbytes_def pix_cell_def rd16_peek)
  qed
qed

text \<open>What a stored colour reads back as.\<close>

definition shown :: "pmPixelFormat \<Rightarrow> pmColor \<Rightarrow> pmColor" where
  "shown f c = pmColorFromValue f (pmColorToValue f c)"

lemma get_set_pixel:
  assumes "pm_ok pm" and "pm_in pm x' y'"
  shows "pmGetPixel (pmSetPixel m pm x y c) pm x' y' =
    (if x' = x \<and> y' = y then shown (Format pm) c else pmGetPixel m pm x' y')"
proof (cases "pm_in pm x y")
  case False
  with assms(2) show ?thesis by (auto simp: pmSetPixel_out)
next
  case True
  have "pbytes (Format pm) \<le> 4" using pm_ok_pbytes [OF assms(1)] by auto
  with assms True pix_cell_disjoint [OF assms(1) True assms(2)] show ?thesis
    by (auto simp: pmGetPixel_peek pmSetPixel_poke peek_poke_same peek_poke_other shown_def
          pmColorToValue_fits pm_ok_def)
qed

text \<open>
  A pixel drawn with \<open>pmSetPixel\<close> reads back through \<open>pmGetPixel\<close> as the drawn colour at the format's
  precision, every other pixel of the pixmap keeps its colour, and every byte outside the pixmap's
  buffer keeps its value, also when the coordinates lie outside the pixmap (then nothing is drawn).
\<close>

lemma pixel_set_get:
  assumes "pm_ok pm" and "pm_in pm x' y'"
  shows "pmGetPixel (pmSetPixel m pm x y c) pm x' y' =
      (if x' = x \<and> y' = y then shown (Format pm) c else pmGetPixel m pm x' y')
    \<and> (a < int (Pixels pm) \<or> int (Pixels pm) + int (Pitch pm) * rcHeight (Contents pm) \<le> a \<longrightarrow>
        pmSetPixel m pm x y c a = m a)"
proof (cases "pm_in pm x y")
  case True
  have "int (Pitch pm) * (y + 1) \<le> int (Pitch pm) * rcHeight (Contents pm)"
    using True by (intro mult_left_mono) (auto simp: pm_in_def)
  moreover have "int (Pixels pm) \<le> pix_cell pm x y"
    using True by (simp add: pix_cell_def pix_addr_def pm_in_def)
  ultimately show ?thesis
    using pix_cell_bounds(2) [OF assms(1) True]
    by (intro conjI get_set_pixel [OF assms]) (auto simp: pmSetPixel_poke [OF assms(1) True] poke_def)
qed (use assms(2) in \<open>auto simp: pmSetPixel_out\<close>)

definition demo_pm :: pmPixMap where
  "demo_pm = \<lparr>Parent = None, Contents = \<lparr>rcX = 0, rcY = 0, rcWidth = 4, rcHeight = 3\<rparr>,
     Dirty = rcRectangleEmpty, Pitch = 16, Format = pmFormatA8R8G8B8, Palette = None,
     ReleasePixels = 1, Pixels = 0x1000\<rparr>"

lemma demo_pm_ok: "pm_ok demo_pm"
  by (simp add: pm_ok_def demo_pm_def fmt_ok_def pmFormatA8R8G8B8_def pbytes_def)

section \<open>Horizontal lines and filled rectangles\<close>

lemma get_set_pixels:
  assumes "pm_ok pm" and "pm_in pm x' y'"
  shows "pmGetPixel (fold (\<lambda>x m. pmSetPixel m pm x y c) xs m) pm x' y' =
    (if y' = y \<and> x' \<in> set xs then shown (Format pm) c else pmGetPixel m pm x' y')"
  using assms by (induction xs arbitrary: m) (auto simp: get_set_pixel)

lemma lmemset_pixels:
  assumes "pm_ok pm" "BPP (Format pm) = 32" "0 \<le> y" "y < rcHeight (Contents pm)"
  shows "0 \<le> x \<Longrightarrow> x + int n \<le> rcWidth (Contents pm) \<Longrightarrow>
    lmemset m (pix_addr pm 4 x y) (pmColorToValue (Format pm) c) n =
    fold (\<lambda>x m. pmSetPixel m pm x y c) [x..x + int n - 1] m"
proof (induction n arbitrary: x m)
  case (Suc n)
  have "pmSetPixel m pm x y c = wr32 m (pix_addr pm 4 x y) (pmColorToValue (Format pm) c)"
    using Suc.prems assms by (simp add: pmSetPixel_def Let_def)
  moreover have "pix_addr pm 4 x y + 4 = pix_addr pm 4 (x + 1) y" by (simp add: pix_addr_def)
  moreover have "[x..x + int (Suc n) - 1] = x # [x + 1..(x + 1) + int n - 1]"
    by (simp add: upto_rec1 algebra_simps)
  ultimately show ?case using Suc.prems Suc.IH [of "x + 1"] by simp
qed simp

lemma wmemset_pixels:
  assumes "pm_ok pm" "BPP (Format pm) = 16 \<or> BPP (Format pm) = 15" "0 \<le> y" "y < rcHeight (Contents pm)"
  shows "0 \<le> x \<Longrightarrow> x + int n \<le> rcWidth (Contents pm) \<Longrightarrow>
    wmemset m (pix_addr pm 2 x y) (pmColorToValue (Format pm) c) n =
    fold (\<lambda>x m. pmSetPixel m pm x y c) [x..x + int n - 1] m"
proof (induction n arbitrary: x m)
  case (Suc n)
  have "pmSetPixel m pm x y c = wr16 m (pix_addr pm 2 x y) (ucast (pmColorToValue (Format pm) c))"
    using Suc.prems assms by (auto simp: pmSetPixel_def Let_def)
  moreover have "pix_addr pm 2 x y + 2 = pix_addr pm 2 (x + 1) y" by (simp add: pix_addr_def)
  moreover have "[x..x + int (Suc n) - 1] = x # [x + 1..(x + 1) + int n - 1]"
    by (simp add: upto_rec1 algebra_simps)
  ultimately show ?case using Suc.prems Suc.IH [of "x + 1"] by simp
qed simp

lemma fold_cong_pixels:
  "(\<And>x m. x \<in> set xs \<Longrightarrow> f x m = g x m) \<Longrightarrow> fold f xs m = fold g xs (m :: mem)"
  by (induction xs arbitrary: m) auto

lemma hline24_pixels:
  assumes "BPP (Format pm) = 24" "0 \<le> y" "y < rcHeight (Contents pm)" "0 \<le> x1" "x2 \<le> rcWidth (Contents pm)"
  shows "hline24 m pm x1 y x2 (pmColorToValue (Format pm) c) =
    fold (\<lambda>x m. pmSetPixel m pm x y c) [x1..x2 - 1] m"
  unfolding hline24_def
  by (rule fold_cong_pixels) (use assms in \<open>simp add: pmSetPixel_def Let_def\<close>)

text \<open>The last column a horizontal line reaches: the 24-bit loop stops one pixel early.\<close>

definition hline_end :: "pmPixMap \<Rightarrow> int \<Rightarrow> int \<Rightarrow> int" where
  "hline_end pm x1 x2 = (let e = min (rcWidth (Contents pm) - 1) (max x1 x2)
     in if BPP (Format pm) = 24 then e - 1 else e)"

lemma pmHLine_pixels:
  assumes "pm_ok pm" "0 \<le> y" "y < rcHeight (Contents pm)"
    and "0 \<le> max x1 x2" "min x1 x2 < rcWidth (Contents pm)"
  shows "pmHLine m pm x1 y x2 c =
    fold (\<lambda>x m. pmSetPixel m pm x y c) [max 0 (min x1 x2)..hline_end pm x1 x2] m"
proof -
  let ?W = "rcWidth (Contents pm)"
  define l where "l = max 0 (min x1 x2)"
  define r where "r = min (?W - 1) (max x1 x2)"
  define n where "n = nat (r - l + 1)"
  have "l \<le> r" using assms by (auto simp: pm_ok_def l_def r_def)
  then have n: "l + int n - 1 = r" "l + int n \<le> ?W" "0 \<le> l" "r \<le> ?W"
    by (auto simp: n_def r_def l_def)
  have lr: "(if x2 < x1 then x2 else x1) = min x1 x2" "(if x2 < x1 then x1 else x2) = max x1 x2" by auto
  have H: "pmHLine m pm x1 y x2 c =
    (if BPP (Format pm) = 32 then lmemset m (pix_addr pm 4 l y) (pmColorToValue (Format pm) c) n
     else if BPP (Format pm) = 24 then hline24 m pm l y r (pmColorToValue (Format pm) c)
     else if BPP (Format pm) = 16 \<or> BPP (Format pm) = 15
       then wmemset m (pix_addr pm 2 l y) (pmColorToValue (Format pm) c) n
     else m)"
    unfolding pmHLine_def lr Let_def n_def l_def r_def using assms(2-5) by auto
  have e: "hline_end pm x1 x2 = (if BPP (Format pm) = 24 then r - 1 else r)"
    by (simp add: hline_end_def r_def Let_def)
  from assms(1) consider "BPP (Format pm) = 32" | "BPP (Format pm) = 24"
    | "BPP (Format pm) = 16 \<or> BPP (Format pm) = 15" by (auto simp: pm_ok_def fmt_ok_def)
  then show ?thesis
  proof cases
    case 1
    then show ?thesis using lmemset_pixels [OF assms(1) 1 assms(2,3) n(3,2), of m c] n(1) H e by (simp add: l_def)
  next
    case 2
    then show ?thesis using hline24_pixels [OF 2 assms(2,3) n(3,4), of m c] H e by (simp add: l_def)
  next
    case 3
    then have "BPP (Format pm) \<noteq> 32" "BPP (Format pm) \<noteq> 24" by auto
    then show ?thesis using wmemset_pixels [OF assms(1) 3 assms(2,3) n(3,2), of m c] n(1) H e 3 by (simp add: l_def)
  qed
qed

lemma pmHLine_get:
  assumes "pm_ok pm" and "pm_in pm x' y'"
  shows "pmGetPixel (pmHLine m pm x1 y x2 c) pm x' y' =
    (if y' = y \<and> min x1 x2 \<le> x' \<and> x' \<le> hline_end pm x1 x2 then shown (Format pm) c else pmGetPixel m pm x' y')"
proof (cases "0 \<le> y \<and> y < rcHeight (Contents pm) \<and> 0 \<le> max x1 x2 \<and> min x1 x2 < rcWidth (Contents pm)")
  case True
  with assms show ?thesis
    by (auto simp: pmHLine_pixels get_set_pixels pm_in_def)
next
  case False
  then have "pmHLine m pm x1 y x2 c = m" by (auto simp: pmHLine_def Let_def)
  with False assms(2) show ?thesis by (auto simp: hline_end_def Let_def pm_in_def split: if_splits)
qed

lemma pmHLine_outside:
  assumes "pm_ok pm" and "a < int (Pixels pm) \<or> int (Pixels pm) + int (Pitch pm) * rcHeight (Contents pm) \<le> a"
  shows "pmHLine m pm x1 y x2 c a = m a"
proof (cases "0 \<le> y \<and> y < rcHeight (Contents pm) \<and> 0 \<le> max x1 x2 \<and> min x1 x2 < rcWidth (Contents pm)")
  case True
  have "pmSetPixel m pm x y c a = m a" for m x
  proof (cases "pm_in pm x y")
    case t: True
    have "int (Pitch pm) * (y + 1) \<le> int (Pitch pm) * rcHeight (Contents pm)"
      using True by (intro mult_left_mono) auto
    moreover have "int (Pixels pm) \<le> pix_cell pm x y"
      using t by (simp add: pix_cell_def pix_addr_def pm_in_def)
    ultimately show ?thesis
      using pix_cell_bounds(2) [OF assms(1) t] assms(2)
      by (auto simp: pmSetPixel_poke [OF assms(1) t] poke_def)
  qed (simp add: pmSetPixel_out)
  then have "fold (\<lambda>x m. pmSetPixel m pm x y c) xs m a = m a" for xs
    by (induction xs arbitrary: m) auto
  with True assms show ?thesis by (simp add: pmHLine_pixels)
qed (auto simp: pmHLine_def Let_def)

text \<open>
  In a 24-bit pixmap \<open>pmHLine\<close> never draws the last pixel of the (clipped) line: its loop runs to
  \<open>X < x2\<close> where the 32-bit and 16-bit branches draw \<open>x2 - x1 + 1\<close> pixels, so a one-pixel line draws
  nothing and every filled rectangle misses its right column. In the other depths the line covers
  exactly the pixels from one end to the other.
\<close>

lemma hline_last_pixel:
  assumes "pm_ok pm" and "0 \<le> y" and "y < rcHeight (Contents pm)"
    and "0 \<le> x1" and "x1 \<le> x2" and "x2 < rcWidth (Contents pm)"
  shows "pmGetPixel (pmHLine m pm x1 y x2 c) pm x2 y =
    (if BPP (Format pm) = 24 then pmGetPixel m pm x2 y else shown (Format pm) c)"
  using assms by (subst pmHLine_get) (auto simp: pm_in_def hline_end_def)

lemma fold_hlines_get:
  assumes "pm_ok pm" and "pm_in pm x' y'"
  shows "pmGetPixel (fold (\<lambda>Y m. pmHLine m pm x Y x2 c) ys m) pm x' y' =
    (if y' \<in> set ys \<and> min x x2 \<le> x' \<and> x' \<le> hline_end pm x x2 then shown (Format pm) c
     else pmGetPixel m pm x' y')"
  by (induction ys arbitrary: m) (auto simp: pmHLine_get [OF assms])

lemma fold_hlines_outside:
  assumes "pm_ok pm" and "a < int (Pixels pm) \<or> int (Pixels pm) + int (Pitch pm) * rcHeight (Contents pm) \<le> a"
  shows "fold (\<lambda>Y m. pmHLine m pm x Y x2 c) ys m a = m a"
  by (induction ys arbitrary: m) (auto simp: pmHLine_outside [OF assms])

lemma pmFillRectangle_cases:
  assumes "0 < w" "0 < h" "in_i32 (x + w - 1)" "in_i32 (y + h)"
  shows "pmFillRectangle m pm x y w h c =
    (if x + w - 1 < 0 \<or> x \<ge> rcWidth (Contents pm) \<or> y + h < 0 \<or> y \<ge> rcHeight (Contents pm) then m
     else fold (\<lambda>Y m. pmHLine m pm x Y (x + w - 1) c) [y..y + h - 1] m)"
  using assms by (simp add: pmFillRectangle_def Let_def wrap_simps)

text \<open>C23.
  In a 15, 16 or 32-bit pixmap \<open>pmFillRectangle\<close> gives the colour to exactly the pixels of the rectangle
  that lie inside the pixmap, wherever the rectangle is (partly or wholly outside included): all other
  pixels keep their colour, and no byte outside the pixel buffer is touched. Width and height are positive,
  and the sums \<open>x + w - 1\<close> and \<open>y + h\<close> do not overflow an \<open>int\<close>.
\<close>

theorem fill_rectangle_exact:
  assumes "pm_ok pm" and "BPP (Format pm) \<noteq> 24" and "pm_in pm x' y'"
    and "0 < w" and "0 < h" and "in_i32 (x + w - 1)" and "in_i32 (y + h)"
  shows "pmGetPixel (pmFillRectangle m pm x y w h c) pm x' y' =
      (if x \<le> x' \<and> x' < x + w \<and> y \<le> y' \<and> y' < y + h then shown (Format pm) c else pmGetPixel m pm x' y')
    \<and> (a < int (Pixels pm) \<or> int (Pixels pm) + int (Pitch pm) * rcHeight (Contents pm) \<le> a \<longrightarrow>
        pmFillRectangle m pm x y w h c a = m a)"
proof (intro conjI impI)
  show "pmGetPixel (pmFillRectangle m pm x y w h c) pm x' y' =
      (if x \<le> x' \<and> x' < x + w \<and> y \<le> y' \<and> y' < y + h then shown (Format pm) c else pmGetPixel m pm x' y')"
    using assms(2,3,4)
    by (auto simp: pmFillRectangle_cases [OF assms(4-7)] fold_hlines_get [OF assms(1,3)] pm_in_def hline_end_def)
  assume "a < int (Pixels pm) \<or> int (Pixels pm) + int (Pitch pm) * rcHeight (Contents pm) \<le> a"
  then show "pmFillRectangle m pm x y w h c a = m a"
    by (simp add: pmFillRectangle_cases [OF assms(4-7)] fold_hlines_outside [OF assms(1)])
qed

theorem fill_rectangle_exact_witness:
  "pmGetPixel (pmFillRectangle (\<lambda>a. 0) demo_pm (- 1) 1 3 5 pmColorRed) demo_pm 1 2 = shown pmFormatA8R8G8B8 pmColorRed
   \<and> pmFillRectangle (\<lambda>a. 0) demo_pm (- 1) 1 3 5 pmColorRed 0x1030 = 0"
proof -
  have "BPP (Format demo_pm) \<noteq> 24" "pm_in demo_pm 1 2" "in_i32 (- 1 + 3 - 1)" "in_i32 (1 + 5)"
    by (simp_all add: demo_pm_def pmFormatA8R8G8B8_def pm_in_def in_i32_def)
  from fill_rectangle_exact [OF demo_pm_ok this(1,2) _ _ this(3,4), of "\<lambda>a. 0" pmColorRed "0x1030"] show ?thesis
    by (simp add: demo_pm_def)
qed

section \<open>Blending\<close>

lemma blend_channel:
  fixes x y :: byte
  assumes "\<alpha> < (256 :: nat)"
  defines "v \<equiv> unat (of_nat (u32 ((\<alpha> + 1) * unat y + (256 - \<alpha>) * unat x) div 256) :: byte)"
  shows "v = ((\<alpha> + 1) * unat y + (256 - \<alpha>) * unat x) div 256"
    and "min (unat x) (unat y) \<le> v" and "v \<le> max (unat x) (unat y)"
proof -
  let ?s = "(\<alpha> + 1) * unat y + (256 - \<alpha>) * unat x"
  let ?M = "max (unat x) (unat y)" and ?m = "min (unat x) (unat y)"
  have x: "unat x < 256" "unat y < 256"
    using unsigned_less [of x, where 'a = nat] unsigned_less [of y, where 'a = nat] by simp_all
  have w: "(\<alpha> + 1) + (256 - \<alpha>) = 257" using assms(1) by simp
  have "?s \<le> (\<alpha> + 1) * ?M + (256 - \<alpha>) * ?M" by (intro add_mono mult_left_mono) auto
  also have "\<dots> = 257 * ?M" unfolding w [symmetric] by (simp add: algebra_simps)
  finally have up: "?s \<le> 257 * ?M" .
  have "257 * ?m = (\<alpha> + 1) * ?m + (256 - \<alpha>) * ?m" unfolding w [symmetric] by (simp add: algebra_simps)
  also have "\<dots> \<le> ?s" by (intro add_mono mult_left_mono) auto
  finally have lo: "257 * ?m \<le> ?s" .
  have M: "?M < 256" using x by simp
  obtain s' M' m' where g: "s' = ?s" "M' = ?M" "m' = ?m" by blast
  note up = up [folded g] and lo = lo [folded g] and M = M [folded g]
  from up M have s: "s' < 256 * (M' + 1)" by simp
  then have d: "s' div 256 < M' + 1" by (simp add: div_less_iff_less_mult mult.commute)
  from s M have "s' < 2 ^ 32" by simp
  with d M have v: "v = s' div 256"
    unfolding v_def g(1) [symmetric] by (simp add: wrap_simps unat_of_nat)
  then show "v = ?s div 256" by (simp only: g)
  from v d show "v \<le> ?M" unfolding g [symmetric] by linarith
  from lo have "256 * m' \<le> s'" by simp
  then show "?m \<le> v" unfolding v g(3) [symmetric] by (simp add: less_eq_div_iff_mult_less_eq mult.commute)
qed

lemma pmBlendPixel_chan:
  "unat (cR (pmBlendPixel a b)) = unat (of_nat (u32 ((unat (cA b) + 1) * unat (cR b) + (256 - unat (cA b)) * unat (cR a)) div 256) :: byte)"
  "unat (cG (pmBlendPixel a b)) = unat (of_nat (u32 ((unat (cA b) + 1) * unat (cG b) + (256 - unat (cA b)) * unat (cG a)) div 256) :: byte)"
  "unat (cB (pmBlendPixel a b)) = unat (of_nat (u32 ((unat (cA b) + 1) * unat (cB b) + (256 - unat (cA b)) * unat (cB a)) div 256) :: byte)"
  "cA (pmBlendPixel a b) = cA a"
  by (simp_all add: pmBlendPixel_def Let_def pmColorFromARGB_def)

lemma byte_less_256: "unat (x :: byte) < 256"
  using unsigned_less [of x, where 'a = nat] by simp

lemma blend_chan_ends:
  fixes x y :: byte
  shows "unat (of_nat (u32 ((255 + 1) * unat y + (256 - 255) * unat x) div 256) :: byte) = unat y"
    and "unat (of_nat (u32 ((0 + 1) * unat y + (256 - 0) * unat x) div 256) :: byte) = unat x"
  using byte_less_256 [of x] byte_less_256 [of y]
  by (subst blend_channel(1); simp)+

text \<open>C33.
  \<open>pmBlendPixel\<close> keeps the destination's alpha; an opaque source replaces the colour exactly, a fully
  transparent one leaves it exactly, and at every alpha the three mixed channels stay between the
  channels of destination and source (so blending a colour onto itself never drifts), although the two
  weights add up to 257 and not 256.
\<close>

theorem blend_pixel_between:
  "cA (pmBlendPixel a b) = cA a
   \<and> min (unat (cR a)) (unat (cR b)) \<le> unat (cR (pmBlendPixel a b))
   \<and> unat (cR (pmBlendPixel a b)) \<le> max (unat (cR a)) (unat (cR b))
   \<and> min (unat (cG a)) (unat (cG b)) \<le> unat (cG (pmBlendPixel a b))
   \<and> unat (cG (pmBlendPixel a b)) \<le> max (unat (cG a)) (unat (cG b))
   \<and> min (unat (cB a)) (unat (cB b)) \<le> unat (cB (pmBlendPixel a b))
   \<and> unat (cB (pmBlendPixel a b)) \<le> max (unat (cB a)) (unat (cB b))
   \<and> (cA b = 255 \<longrightarrow> pmBlendPixel a b = pmColorFromARGB (cA a) (cR b) (cG b) (cB b))
   \<and> (cA b = 0 \<longrightarrow> pmBlendPixel a b = pmColorFromARGB (cA a) (cR a) (cG a) (cB a))"
proof (intro conjI impI)
  note bounds = blend_channel(2,3) [OF byte_less_256]
  show "cA (pmBlendPixel a b) = cA a" by (rule pmBlendPixel_chan)
  show "min (unat (cR a)) (unat (cR b)) \<le> unat (cR (pmBlendPixel a b))"
    "unat (cR (pmBlendPixel a b)) \<le> max (unat (cR a)) (unat (cR b))"
    "min (unat (cG a)) (unat (cG b)) \<le> unat (cG (pmBlendPixel a b))"
    "unat (cG (pmBlendPixel a b)) \<le> max (unat (cG a)) (unat (cG b))"
    "min (unat (cB a)) (unat (cB b)) \<le> unat (cB (pmBlendPixel a b))"
    "unat (cB (pmBlendPixel a b)) \<le> max (unat (cB a)) (unat (cB b))"
    unfolding pmBlendPixel_chan by (rule bounds)+
next
  assume "cA b = 255"
  then have "unat (cA b) = 255" by simp
  then have "unat (cR (pmBlendPixel a b)) = unat (cR b)" "unat (cG (pmBlendPixel a b)) = unat (cG b)"
    "unat (cB (pmBlendPixel a b)) = unat (cB b)"
    unfolding pmBlendPixel_chan by (metis blend_chan_ends(1))+
  then show "pmBlendPixel a b = pmColorFromARGB (cA a) (cR b) (cG b) (cB b)"
    by (simp add: pmColorFromARGB_def pmBlendPixel_chan(4) flip: word_unat_eq_iff)
next
  assume "cA b = 0"
  then have "unat (cA b) = 0" by simp
  then have "unat (cR (pmBlendPixel a b)) = unat (cR a)" "unat (cG (pmBlendPixel a b)) = unat (cG a)"
    "unat (cB (pmBlendPixel a b)) = unat (cB a)"
    unfolding pmBlendPixel_chan by (metis blend_chan_ends(2))+
  then show "pmBlendPixel a b = pmColorFromARGB (cA a) (cR a) (cG a) (cB a)"
    by (simp add: pmColorFromARGB_def pmBlendPixel_chan(4) flip: word_unat_eq_iff)
qed

theorem blend_pixel_between_witness:
  "pmBlendPixel pmColorBlack pmColorBrown = pmColorFromARGB 255 170 85 0"
  using blend_pixel_between [of pmColorBlack pmColorBrown]
  by (simp add: pmColorBlack_def pmColorBrown_def color_def)

end
