(* ===== verification/PixmapLine.thy ===== *)
theory PixmapLine
  imports Pixmap
begin

text \<open>
  \<open>pmLine\<close> of \<open>user/libwoot/pixmap.c\<close>: the loop is Bresenham's algorithm with one signed error term. The
  first section solves the recurrence of the error term in closed form; the loop lemmas use it for the
  two cases (\<open>dx > dy\<close> and \<open>dx \<le> dy\<close>) and the last section is about the one shape on which the loop
  never ends.
\<close>

section \<open>The error term\<close>

text \<open>
  Along the major axis of length \<open>d\<close> the minor axis moves \<open>q \<le> d\<close> pixels. Starting from \<open>r0\<close> the
  minor coordinate after \<open>k\<close> steps is \<open>minor d q r0 k\<close> and the error term is \<open>rest d q r0 k\<close>.
\<close>

definition minor :: "int \<Rightarrow> int \<Rightarrow> int \<Rightarrow> int \<Rightarrow> int" where
  "minor d q r0 k = (k * q + (d - 1 - r0)) div d"

definition rest :: "int \<Rightarrow> int \<Rightarrow> int \<Rightarrow> int \<Rightarrow> int" where
  "rest d q r0 k = r0 - k * q + minor d q r0 k * d"

lemma rest_eq: "rest d q r0 k = d - 1 - (k * q + (d - 1 - r0)) mod d"
proof -
  have "(k * q + (d - 1 - r0)) div d * d = k * q + (d - 1 - r0) - (k * q + (d - 1 - r0)) mod d"
    by (simp add: minus_mod_eq_div_mult [symmetric])
  then show ?thesis by (simp add: rest_def minor_def)
qed

lemma rest_range:
  assumes "0 < d"
  shows "0 \<le> rest d q r0 k" and "rest d q r0 k < d"
  using pos_mod_bound [OF assms, of "k * q + (d - 1 - r0)"] pos_mod_sign [OF assms, of "k * q + (d - 1 - r0)"]
  unfolding rest_eq by linarith+

lemma minor_unique:
  assumes "0 < d" and "0 \<le> r0 - k * q + y * d" and "r0 - k * q + y * d < d"
  shows "minor d q r0 k = y"
proof -
  have "k * q + (d - 1 - r0) = y * d + (d - 1 - (r0 - k * q + y * d))" by simp
  moreover have "0 \<le> d - 1 - (r0 - k * q + y * d)" "d - 1 - (r0 - k * q + y * d) < d"
    using assms by linarith+
  ultimately show ?thesis unfolding minor_def
    by (metis add.commute add.right_neutral div_mult_self1 div_pos_pos_trivial assms(1) less_irrefl)
qed

lemma minor_step:
  assumes "0 < d" "0 \<le> q" "q \<le> d"
  shows "minor d q r0 (k + 1) = minor d q r0 k + (if rest d q r0 k < q then 1 else 0)"
    and "rest d q r0 (k + 1) = rest d q r0 k - q + (if rest d q r0 k < q then d else 0)"
proof -
  note r = rest_range [OF assms(1), of q r0 k]
  let ?y = "minor d q r0 k + (if rest d q r0 k < q then 1 else 0)"
  have e: "r0 - (k + 1) * q + ?y * d = rest d q r0 k - q + (if rest d q r0 k < q then d else 0)"
    by (simp add: rest_def algebra_simps)
  show y: "minor d q r0 (k + 1) = ?y"
    by (rule minor_unique [OF assms(1)]; unfold e) (use r assms in auto)
  show "rest d q r0 (k + 1) = rest d q r0 k - q + (if rest d q r0 k < q then d else 0)"
    unfolding rest_def [of d q r0 "k + 1"] y by (rule e)
qed

lemma minor_ends:
  assumes "0 \<le> r0" "r0 < d"
  shows "minor d q r0 0 = 0" and "rest d q r0 0 = r0" and "minor d q r0 d = q"
  using assms by (auto simp: rest_def minor_unique [where y = 0] minor_unique [where y = q] algebra_simps)

lemma minor_bounds:
  assumes "0 < d" "0 \<le> q" "q \<le> d" "0 \<le> r0" "r0 < d" "0 \<le> k"
  shows "0 \<le> minor d q r0 k" and "minor d q r0 k \<le> k"
proof -
  have "0 \<le> minor d q r0 (int n) \<and> minor d q r0 (int n) \<le> int n" for n
  proof (induction n)
    case 0
    then show ?case using minor_ends(1) [OF assms(4,5)] by simp
  next
    case (Suc n)
    then show ?case using minor_step(1) [OF assms(1-3), of r0 "int n"] by (auto simp: add.commute)
  qed
  from this [of "nat k"] assms(6) show "0 \<le> minor d q r0 k" "minor d q r0 k \<le> k" by auto
qed

lemma minor_half:
  assumes "0 < d" and "r0 = d div 2 \<or> r0 = (d + 1) div 2"
  shows "2 * \<bar>k * q - minor d q r0 k * d\<bar> \<le> d + 1"
proof -
  obtain t where t: "t = minor d q r0 k * d - k * q" by blast
  have "0 \<le> r0 + t" "r0 + t < d"
    using rest_range [OF assms(1), of q r0 k] by (simp_all add: rest_def t)
  with assms have "2 * \<bar>t\<bar> \<le> d + 1" by linarith
  then show ?thesis by (simp add: t abs_minus_commute)
qed

section \<open>The loop\<close>

definition draw :: "pmPixMap \<Rightarrow> pmColor \<Rightarrow> (int \<times> int) list \<Rightarrow> mem \<Rightarrow> mem" where
  "draw pm c ps m = fold (\<lambda>(x, y) m. pmSetPixel m pm x y c) ps m"

declare pmLine_loop.simps [simp del]

text \<open>The points of the line in the order they are drawn.\<close>

definition xmajor :: "int \<Rightarrow> int \<Rightarrow> int \<Rightarrow> int \<Rightarrow> int \<Rightarrow> int \<Rightarrow> int \<Rightarrow> int \<times> int" where
  "xmajor x1 y1 sx sy dx dy k = (x1 + k * sx, y1 + sy * minor dx dy (dx div 2) k)"

definition ymajor :: "int \<Rightarrow> int \<Rightarrow> int \<Rightarrow> int \<Rightarrow> int \<Rightarrow> int \<Rightarrow> int \<Rightarrow> int \<times> int" where
  "ymajor x1 y1 sx sy dx dy k = (x1 + sx * minor dy dx ((dy + 1) div 2) k, y1 + k * sy)"

definition line_coord :: "int \<Rightarrow> bool" where
  "line_coord x \<longleftrightarrow> \<bar>x\<bar> < 2 ^ 29"

definition unit_sign :: "int \<Rightarrow> bool" where
  "unit_sign s \<longleftrightarrow> s = 1 \<or> s = - 1"

lemma small_i32 [simp]: "\<bar>x\<bar> < 2 ^ 31 \<Longrightarrow> i32 x = x"
  by (simp add: i32_small in_i32_def abs_less_iff)

lemma sign_step_small:
  assumes "unit_sign s" "\<bar>x1\<bar> < 2 ^ 29" "0 \<le> k" "k < 2 ^ 30"
  shows "\<bar>x1 + k * s\<bar> < 2 ^ 30 + 2 ^ 29"
  using assms by (auto simp: unit_sign_def)

lemma xmajor_loop:
  assumes d: "0 \<le> dy" "dy < dx" "dx < 2 ^ 30" and s: "unit_sign sx" "unit_sign sy"
    and c: "line_coord x1" "line_coord y1" and n: "int n \<le> dx"
    and x2: "x2 = x1 + dx * sx" and y2: "y2 = y1 + sy * dy"
    and k: "k = dx - int n"
    and xy: "(x, y) = xmajor x1 y1 sx sy dx dy k"
  shows "pmLine_loop pm c sx sy dx dy x2 y2 x y (rest dx dy (dx div 2) k) m =
    Some (draw pm c (map (xmajor x1 y1 sx sy dx dy) [k..dx]) m)"
  using n k xy
proof (induction n arbitrary: k x y m)
  case 0
  then have "x = x2" "y = y2"
    using d minor_ends(3) [of "dx div 2" dx dy] by (auto simp: xmajor_def x2 y2)
  moreover have "xmajor x1 y1 sx sy dx dy k = (x, y)" "k = dx" using 0 by simp_all
  ultimately show ?case by (subst pmLine_loop.simps) (simp add: draw_def)
next
  case (Suc n)
  let ?r = "rest dx dy (dx div 2) k"
  note r = rest_range [of dx dy "dx div 2" k] and st = minor_step [of dx dy "dx div 2" k]
  have b: "0 \<le> minor dx dy (dx div 2) k" "minor dx dy (dx div 2) k \<le> k"
    using d Suc.prems by (auto intro: minor_bounds)
  have x: "x = x1 + k * sx" and y: "y = y1 + minor dx dy (dx div 2) k * sy"
    using Suc.prems by (auto simp: xmajor_def mult.commute)
  have "\<bar>x\<bar> < 2 ^ 30 + 2 ^ 29" "\<bar>y\<bar> < 2 ^ 30 + 2 ^ 29"
    unfolding x y using sign_step_small s c d b Suc.prems by (auto simp: line_coord_def)
  then have i: "i32 (x + sx) = x + sx" "i32 (y + sy) = y + sy"
    using s by (auto simp: unit_sign_def)
  have ne: "x \<noteq> x2" using Suc.prems s by (auto simp: x x2 unit_sign_def)
  have e: "i32 (?r - dy) = ?r - dy" "i32 (?r - dy + dx) = ?r - dy + dx" "- dx < ?r"
    using r d by auto
  have nx: "(x + sx, if ?r < dy then y + sy else y) = xmajor x1 y1 sx sy dx dy (k + 1)"
    using st d by (simp add: xmajor_def x y algebra_simps)
  have re: "(if ?r < dy then ?r - dy + dx else ?r - dy) = rest dx dy (dx div 2) (k + 1)"
    using st d by simp
  have le: "k \<le> dx" using Suc.prems(1,2) by simp
  have "pmLine_loop pm c sx sy dx dy x2 y2 x y ?r m =
      pmLine_loop pm c sx sy dx dy x2 y2 (x + sx) (if ?r < dy then y + sy else y)
        (rest dx dy (dx div 2) (k + 1)) (pmSetPixel m pm x y c)"
    unfolding re [symmetric] by (subst pmLine_loop.simps) (simp add: Let_def ne e i)
  also have "\<dots> = Some (draw pm c (map (xmajor x1 y1 sx sy dx dy) [k + 1..dx]) (pmSetPixel m pm x y c))"
    by (rule Suc.IH) (use Suc.prems nx in auto)
  also have "draw pm c (map (xmajor x1 y1 sx sy dx dy) [k + 1..dx]) (pmSetPixel m pm x y c) =
      draw pm c (map (xmajor x1 y1 sx sy dx dy) [k..dx]) m"
    using le by (simp add: draw_def upto_rec1 [of k dx] Suc.prems(3) [symmetric])
  finally show ?case .
qed

lemma ymajor_loop:
  assumes d: "0 \<le> dx" "dx \<le> dy" "2 \<le> dy" "dy < 2 ^ 30" and s: "unit_sign sx" "unit_sign sy"
    and c: "line_coord x1" "line_coord y1" and n: "int n \<le> dy"
    and x2: "x2 = x1 + sx * dx" and y2: "y2 = y1 + dy * sy"
    and k: "k = dy - int n"
    and xy: "(x, y) = ymajor x1 y1 sx sy dx dy k"
  shows "pmLine_loop pm c sx sy dx dy x2 y2 x y (- rest dy dx ((dy + 1) div 2) k) m =
    Some (draw pm c (map (ymajor x1 y1 sx sy dx dy) [k..dy]) m)"
  using n k xy
proof (induction n arbitrary: k x y m)
  case 0
  then have "x = x2" "y = y2"
    using d minor_ends(3) [of "(dy + 1) div 2" dy dx] by (auto simp: ymajor_def x2 y2)
  moreover have "ymajor x1 y1 sx sy dx dy k = (x, y)" "k = dy" using 0 by simp_all
  ultimately show ?case by (subst pmLine_loop.simps) (simp add: draw_def)
next
  case (Suc n)
  let ?r = "rest dy dx ((dy + 1) div 2) k"
  note r = rest_range [of dy dx "(dy + 1) div 2" k] and st = minor_step [of dy dx "(dy + 1) div 2" k]
  have b: "0 \<le> minor dy dx ((dy + 1) div 2) k" "minor dy dx ((dy + 1) div 2) k \<le> k"
    using d Suc.prems by (auto intro!: minor_bounds)
  have y: "y = y1 + k * sy" and x: "x = x1 + minor dy dx ((dy + 1) div 2) k * sx"
    using Suc.prems by (auto simp: ymajor_def mult.commute)
  have "\<bar>x\<bar> < 2 ^ 30 + 2 ^ 29" "\<bar>y\<bar> < 2 ^ 30 + 2 ^ 29"
    unfolding x y using sign_step_small s c d b Suc.prems by (auto simp: line_coord_def)
  then have i: "i32 (x + sx) = x + sx" "i32 (y + sy) = y + sy"
    using s by (auto simp: unit_sign_def)
  have ne: "y \<noteq> y2" using Suc.prems s by (auto simp: y y2 unit_sign_def)
  have e: "i32 (- ?r - dy) = - ?r - dy" "i32 (dx - ?r) = dx - ?r" "i32 (- ?r - dy + dx) = - ?r - dy + dx" "- ?r < dy"
    using r d by auto
  have nx: "(if ?r < dx then x + sx else x, y + sy) = ymajor x1 y1 sx sy dx dy (k + 1)"
    using st d by (simp add: ymajor_def x y algebra_simps)
  have re: "(if ?r < dx then - ?r - dy + dx else - ?r + dx) = - rest dy dx ((dy + 1) div 2) (k + 1)"
    using st d by simp
  have le: "k \<le> dy" using Suc.prems(1,2) by simp
  have "pmLine_loop pm c sx sy dx dy x2 y2 x y (- ?r) m =
      pmLine_loop pm c sx sy dx dy x2 y2 (if ?r < dx then x + sx else x) (y + sy)
        (- rest dy dx ((dy + 1) div 2) (k + 1)) (pmSetPixel m pm x y c)"
    unfolding re [symmetric] by (subst pmLine_loop.simps) (simp add: Let_def ne e i)
  also have "\<dots> = Some (draw pm c (map (ymajor x1 y1 sx sy dx dy) [k + 1..dy]) (pmSetPixel m pm x y c))"
    by (rule Suc.IH) (use Suc.prems nx in auto)
  also have "draw pm c (map (ymajor x1 y1 sx sy dx dy) [k + 1..dy]) (pmSetPixel m pm x y c) =
      draw pm c (map (ymajor x1 y1 sx sy dx dy) [k..dy]) m"
    using le by (simp add: draw_def upto_rec1 [of k dy] Suc.prems(3) [symmetric])
  finally show ?case .
qed

text \<open>
  A connected line of pixels from one end point to the other: one pixel per step along the longer axis,
  each at most half a pixel (rounded up) from the straight line through the end points.
\<close>

definition line_points :: "int \<Rightarrow> int \<Rightarrow> int \<Rightarrow> int \<Rightarrow> (int \<times> int) list \<Rightarrow> bool" where
  "line_points x1 y1 x2 y2 ps \<longleftrightarrow>
     int (length ps) = max \<bar>x2 - x1\<bar> \<bar>y2 - y1\<bar> + 1 \<and> hd ps = (x1, y1) \<and> last ps = (x2, y2) \<and>
     (\<forall>k < length ps. case ps ! k of (x, y) \<Rightarrow>
        max \<bar>x - x1\<bar> \<bar>y - y1\<bar> = int k \<and>
        2 * \<bar>(x - x1) * (y2 - y1) - (y - y1) * (x2 - x1)\<bar> \<le> max \<bar>x2 - x1\<bar> \<bar>y2 - y1\<bar> + 1)"

lemma line_points_map:
  assumes "0 \<le> d" "d = max \<bar>x2 - x1\<bar> \<bar>y2 - y1\<bar>" "f 0 = (x1, y1)" "f d = (x2, y2)"
    and "\<And>k x y. 0 \<le> k \<Longrightarrow> k \<le> d \<Longrightarrow> f k = (x, y) \<Longrightarrow> max \<bar>x - x1\<bar> \<bar>y - y1\<bar> = k
       \<and> 2 * \<bar>(x - x1) * (y2 - y1) - (y - y1) * (x2 - x1)\<bar> \<le> d + 1"
  shows "line_points x1 y1 x2 y2 (map f [0..d])"
proof -
  have "hd (map f [0..d]) = f 0" using assms(1) by (simp add: upto_rec1)
  moreover have "last (map f [0..d]) = f d" using assms(1) by (simp add: upto_rec2)
  moreover have "case map f [0..d] ! k of (x, y) \<Rightarrow>
        max \<bar>x - x1\<bar> \<bar>y - y1\<bar> = int k \<and>
        2 * \<bar>(x - x1) * (y2 - y1) - (y - y1) * (x2 - x1)\<bar> \<le> d + 1"
    if "k < length (map f [0..d])" for k
    using that assms(5) [of "int k"] by (auto split: prod.splits)
  ultimately show ?thesis
    using assms(1-4) unfolding line_points_def by simp
qed

lemma sign_abs: "unit_sign s \<Longrightarrow> \<bar>a * s\<bar> = \<bar>a\<bar>" "unit_sign s \<Longrightarrow> \<bar>s * a\<bar> = \<bar>a\<bar>"
  by (auto simp: unit_sign_def)

lemma cross_signs:
  assumes "unit_sign sx" "unit_sign sy"
  shows "\<bar>(k * sx) * (sy * q) - (sy * j) * (d * sx)\<bar> = \<bar>k * q - j * d\<bar>"
    and "\<bar>(sx * j) * (d * sy) - (k * sy) * (sx * q)\<bar> = \<bar>k * q - j * d\<bar>"
  using assms by (auto simp: unit_sign_def algebra_simps abs_minus_commute)

lemma xmajor_line:
  assumes d: "0 \<le> dy" "dy < dx" and s: "unit_sign sx" "unit_sign sy"
  shows "line_points x1 y1 (x1 + dx * sx) (y1 + sy * dy) (map (xmajor x1 y1 sx sy dx dy) [0..dx])"
proof (rule line_points_map)
  fix k x y assume k: "0 \<le> k" "k \<le> dx" and f: "xmajor x1 y1 sx sy dx dy k = (x, y)"
  let ?q = "minor dx dy (dx div 2) k"
  have "0 \<le> ?q" "?q \<le> k" using d k by (auto intro!: minor_bounds)
  moreover have "x - x1 = k * sx" "y - y1 = sy * ?q" using f by (auto simp: xmajor_def)
  moreover have "2 * \<bar>k * dy - ?q * dx\<bar> \<le> dx + 1" using d by (intro minor_half) auto
  ultimately show "max \<bar>x - x1\<bar> \<bar>y - y1\<bar> = k \<and>
      2 * \<bar>(x - x1) * (y1 + sy * dy - y1) - (y - y1) * (x1 + dx * sx - x1)\<bar> \<le> dx + 1"
    using k by (simp add: sign_abs [OF s(1)] sign_abs [OF s(2)] cross_signs [OF s])
qed (use d s minor_ends [of "dx div 2" dx dy] in \<open>auto simp: xmajor_def sign_abs\<close>)

lemma ymajor_line:
  assumes d: "0 \<le> dx" "dx \<le> dy" "2 \<le> dy" and s: "unit_sign sx" "unit_sign sy"
  shows "line_points x1 y1 (x1 + sx * dx) (y1 + dy * sy) (map (ymajor x1 y1 sx sy dx dy) [0..dy])"
proof (rule line_points_map)
  fix k x y assume k: "0 \<le> k" "k \<le> dy" and f: "ymajor x1 y1 sx sy dx dy k = (x, y)"
  let ?q = "minor dy dx ((dy + 1) div 2) k"
  have "0 \<le> ?q" "?q \<le> k" using d k by (auto intro!: minor_bounds)
  moreover have "y - y1 = k * sy" "x - x1 = sx * ?q" using f by (auto simp: ymajor_def)
  moreover have "2 * \<bar>k * dx - ?q * dy\<bar> \<le> dy + 1" using d by (intro minor_half) auto
  ultimately show "max \<bar>x - x1\<bar> \<bar>y - y1\<bar> = k \<and>
      2 * \<bar>(x - x1) * (y1 + dy * sy - y1) - (y - y1) * (x1 + sx * dx - x1)\<bar> \<le> dy + 1"
    using k by (simp add: sign_abs [OF s(1)] sign_abs [OF s(2)] cross_signs [OF s])
qed (use d s minor_ends [of "(dy + 1) div 2" dy dx] in \<open>auto simp: ymajor_def sign_abs\<close>)

text \<open>The deltas and signs that \<open>pmLine\<close> computes.\<close>

lemma pmLine_start:
  assumes "line_coord x1" "line_coord y1" "line_coord x2" "line_coord y2"
  obtains sx sy dx dy where "unit_sign sx" "unit_sign sy" "dx = \<bar>x2 - x1\<bar>" "dy = \<bar>y2 - y1\<bar>"
    "dx < 2 ^ 30" "dy < 2 ^ 30" "x2 = x1 + dx * sx" "y2 = y1 + dy * sy"
    "\<And>m pm c. pmLine m pm x1 y1 x2 y2 c =
       pmLine_loop pm c sx sy dx dy x2 y2 x1 y1 (if dx > dy then dx div 2 else (- dy) div 2) m"
proof
  let ?sx = "if x2 - x1 < 0 then - 1 else 1 :: int" and ?sy = "if y2 - y1 < 0 then - 1 else 1 :: int"
  have i: "i32 (x2 - x1) = x2 - x1" "i32 (y2 - y1) = y2 - y1"
    using assms by (auto simp: line_coord_def)
  have j: "i32 ((x2 - x1) * ?sx) = \<bar>x2 - x1\<bar>" "i32 ((y2 - y1) * ?sy) = \<bar>y2 - y1\<bar>"
    "i32 (- \<bar>y2 - y1\<bar>) = - \<bar>y2 - y1\<bar>"
    using assms by (auto simp: line_coord_def)
  show "pmLine m pm x1 y1 x2 y2 c =
       pmLine_loop pm c ?sx ?sy \<bar>x2 - x1\<bar> \<bar>y2 - y1\<bar> x2 y2 x1 y1
         (if \<bar>x2 - x1\<bar> > \<bar>y2 - y1\<bar> then \<bar>x2 - x1\<bar> div 2 else (- \<bar>y2 - y1\<bar>) div 2) m" for m pm c
    unfolding pmLine_def Let_def i j by simp
qed (use assms in \<open>auto simp: unit_sign_def line_coord_def\<close>)

text \<open>C30.
  \<open>pmLine\<close> returns for any two end points of moderate size that do not differ by exactly one in both
  coordinates, and what it has drawn is a connected line: the pixels \<open>ps\<close>, one per step along the longer
  axis, from the first end point to the second, each at most half a pixel (rounded up) away from the
  straight line between the end points.
\<close>

theorem line_draws:
  assumes "line_coord x1" "line_coord y1" "line_coord x2" "line_coord y2"
    and "\<not> (\<bar>x2 - x1\<bar> = 1 \<and> \<bar>y2 - y1\<bar> = 1)"
  shows "\<exists>ps. pmLine m pm x1 y1 x2 y2 c = Some (draw pm c ps m) \<and> line_points x1 y1 x2 y2 ps"
proof -
  obtain sx sy dx dy where s: "unit_sign sx" "unit_sign sy" and d: "dx = \<bar>x2 - x1\<bar>" "dy = \<bar>y2 - y1\<bar>"
    and b: "dx < 2 ^ 30" "dy < 2 ^ 30" and e: "x2 = x1 + dx * sx" "y2 = y1 + dy * sy"
    and L: "pmLine m pm x1 y1 x2 y2 c =
       pmLine_loop pm c sx sy dx dy x2 y2 x1 y1 (if dx > dy then dx div 2 else (- dy) div 2) m"
    using pmLine_start [OF assms(1-4)] by metis
  have p: "0 \<le> dx" "0 \<le> dy" using d by auto
  consider "dx > dy" | "dx \<le> dy" "2 \<le> dy" | "dx = 0" "dy = 0" | "dx = 0" "dy = 1"
    using assms(5) p d by linarith
  then show ?thesis
  proof cases
    case 1
    then have "pmLine m pm x1 y1 x2 y2 c = Some (draw pm c (map (xmajor x1 y1 sx sy dx dy) [0..dx]) m)"
      using xmajor_loop [OF p(2) 1 b(1) s assms(1,2), of "nat dx" x2 y2 0 x1 y1 pm c m]
        minor_ends [of "dx div 2" dx dy] p L e by (simp add: xmajor_def mult.commute)
    moreover have "line_points x1 y1 x2 y2 (map (xmajor x1 y1 sx sy dx dy) [0..dx])"
      using xmajor_line [OF p(2) 1 s, of x1 y1] e by (simp add: mult.commute)
    ultimately show ?thesis by blast
  next
    case 2
    have h: "- dy div 2 = - ((dy + 1) div 2)" by linarith
    from 2 have "pmLine m pm x1 y1 x2 y2 c = Some (draw pm c (map (ymajor x1 y1 sx sy dx dy) [0..dy]) m)"
      using ymajor_loop [OF p(1) 2 b(2) s assms(1,2), of "nat dy" x2 y2 0 x1 y1 pm c m]
        minor_ends [of "(dy + 1) div 2" dy dx] p L e h by (simp add: ymajor_def mult.commute)
    moreover have "line_points x1 y1 x2 y2 (map (ymajor x1 y1 sx sy dx dy) [0..dy])"
      using ymajor_line [OF p(1) 2 s, of x1 y1] e by (simp add: mult.commute)
    ultimately show ?thesis by blast
  next
    case 3
    then have "pmLine m pm x1 y1 x2 y2 c = Some (draw pm c [(x1, y1)] m)"
      unfolding L by (subst pmLine_loop.simps) (simp add: draw_def e)
    moreover have "line_points x1 y1 x2 y2 [(x1, y1)]" using 3 e by (simp add: line_points_def)
    ultimately show ?thesis by blast
  next
    case 4
    have "i32 (y1 + sy) = y1 + sy" using s assms(2) by (auto simp: unit_sign_def line_coord_def)
    with 4 s have "pmLine m pm x1 y1 x2 y2 c = Some (draw pm c [(x1, y1), (x2, y2)] m)"
      unfolding L by (subst pmLine_loop.simps, subst pmLine_loop.simps) (auto simp: draw_def e unit_sign_def)
    moreover have "line_points x1 y1 x2 y2 [(x1, y1), (x2, y2)]"
      using 4 e s by (auto simp: line_points_def unit_sign_def less_Suc_eq)
    ultimately show ?thesis by blast
  qed
qed

theorem line_draws_witness:
  "\<exists>ps. pmLine (\<lambda>a. 0) demo_pm 0 0 3 2 pmColorRed = Some (draw demo_pm pmColorRed ps (\<lambda>a. 0)) \<and> line_points 0 0 3 2 ps"
  using line_draws [of 0 0 3 2 "\<lambda>a. 0" demo_pm pmColorRed] by (simp add: line_coord_def)

section \<open>The shape that never ends\<close>

text \<open>
  With \<open>dx = dy = 1\<close> the error term starts at \<open>(- 1) >> 1 = - 1\<close>, so the first step moves only in \<open>y\<close>;
  from then on both coordinates move together and stay out of phase by one.
\<close>

definition off_phase :: "int \<Rightarrow> int \<Rightarrow> int \<Rightarrow> int \<Rightarrow> int \<Rightarrow> int \<Rightarrow> bool" where
  "off_phase sx sy x2 y2 x y \<longleftrightarrow> 2 ^ 32 dvd (x - x2) * sx - (y - y2) * sy + 1"

lemma i32_shift: "\<exists>k. i32 x = x + k * 2 ^ 32"
proof -
  have "i32 x = x + (- ((x + 2 ^ 31) div 2 ^ 32)) * 2 ^ 32"
    unfolding i32_def by (simp add: minus_div_mult_eq_mod [symmetric])
  then show ?thesis by blast
qed

lemma off_phase_step:
  assumes "unit_sign sx" "unit_sign sy" "off_phase sx sy x2 y2 x y"
  shows "off_phase sx sy x2 y2 (i32 (x + sx)) (i32 (y + sy))"
proof -
  obtain k l where k: "i32 (x + sx) = x + sx + k * 2 ^ 32" "i32 (y + sy) = y + sy + l * 2 ^ 32"
    using i32_shift by metis
  have "(i32 (x + sx) - x2) * sx - (i32 (y + sy) - y2) * sy + 1 =
      ((x - x2) * sx - (y - y2) * sy + 1) + 2 ^ 32 * (k * sx - l * sy)"
    unfolding k using assms(1,2) by (auto simp: unit_sign_def algebra_simps)
  with assms(3) show ?thesis unfolding off_phase_def by (simp only: dvd_add dvd_triv_left)
qed

lemma off_phase_never:
  assumes "pmLine_loop pm c sx sy dx dy x2 y2 x y e m = Some r"
  shows "unit_sign sx \<Longrightarrow> unit_sign sy \<Longrightarrow> dx = 1 \<Longrightarrow> dy = 1 \<Longrightarrow> e = 0 \<Longrightarrow> off_phase sx sy x2 y2 x y \<Longrightarrow> False"
  using assms
proof (induction rule: pmLine_loop.raw_induct [rotated, consumes 1, case_names step])
  case (step loop pm c sx sy dx dy x2 y2 x y e m r)
  have "\<not> (x = x2 \<and> y = y2)"
    using step.prems by (auto simp: off_phase_def)
  moreover have "i32 (i32 (0 - 1) + 1) = 0" by simp
  ultimately have "loop pm c sx sy dx dy x2 y2 (i32 (x + sx)) (i32 (y + sy)) 0 (pmSetPixel m pm x y c) = Some r"
    using step(2) step.prems by (simp add: Let_def split: if_splits)
  from step(1) [OF this] step.prems off_phase_step [of sx sy x2 y2 x y] show ?case by simp
qed

text \<open>C40.
  Between two diagonal neighbours \<open>pmLine\<close> never returns: for every pair of end points, coordinates less than
  \<open>2\<^sup>2\<^sup>9\<close> in size, that differ by one in both coordinates the loop has no result, because its error term starts at the rounded-down
  half of \<open>- dy\<close> and the two coordinates never meet their targets in the same step again.
\<close>

theorem line_unit_diagonal_never_returns:
  assumes "line_coord x1" "line_coord y1" "line_coord x2" "line_coord y2"
    and "\<bar>x2 - x1\<bar> = 1" and "\<bar>y2 - y1\<bar> = 1"
  shows "pmLine m pm x1 y1 x2 y2 c = None"
proof -
  obtain sx sy dx dy where s: "unit_sign sx" "unit_sign sy" and d: "dx = 1" "dy = 1"
    and ed: "x2 = x1 + dx * sx" "y2 = y1 + dy * sy"
    and Ld: "pmLine m pm x1 y1 x2 y2 c =
       pmLine_loop pm c sx sy dx dy x2 y2 x1 y1 (if dx > dy then dx div 2 else (- dy) div 2) m"
    using pmLine_start [OF assms(1-4)] assms(5,6) by metis
  have e: "x2 = x1 + sx" "y2 = y1 + sy" using ed d by simp_all
  have L: "pmLine m pm x1 y1 x2 y2 c = pmLine_loop pm c sx sy 1 1 x2 y2 x1 y1 (- 1) m"
    unfolding Ld d by simp
  have i: "i32 (y1 + sy) = y2" using e assms by (simp add: line_coord_def)
  have "pmLine_loop pm c sx sy 1 1 x2 y2 x1 y1 (- 1) m =
    pmLine_loop pm c sx sy 1 1 x2 y2 x1 y2 0 (pmSetPixel m pm x1 y1 c)"
    using s by (subst pmLine_loop.simps) (auto simp: Let_def e i [unfolded e] unit_sign_def)
  moreover have "off_phase sx sy x2 y2 x1 y2"
    using s by (auto simp: off_phase_def e unit_sign_def)
  ultimately show ?thesis
    using off_phase_never s L by (metis not_None_eq)
qed

theorem line_unit_diagonal_never_returns_witness:
  "pmLine (\<lambda>a. 0) demo_pm 1 1 2 0 pmColorRed = None"
  using line_unit_diagonal_never_returns [of 1 1 2 0 "\<lambda>a. 0" demo_pm pmColorRed] by (simp add: line_coord_def)

end
