(* ===== verification/Sys.thy ===== *)
theory Sys
  imports Prelude
begin

text \<open>
  The system-call interface of user programs (\<open>common/include\<close>) and the thin wrappers of
  \<open>user/libwoot\<close> around it. The kernel is the other side of this interface: a user program sees of it the
  answers to its calls. A \<open>sysw\<close> is a run as one program sees it: the answers still to come, in order,
  and the calls made so far, with their arguments. An answer is the return value and what the kernel
  stores through the pointer argument, if anything. When no answer is left, a call fails with
  \<open>- ENOSYS\<close>, as for an unknown call number.
\<close>

section \<open>Call numbers\<close>

(* src/common/include/syscalls.h:3-3 SYS_EXIT *)
abbreviation (input) SYS_EXIT :: nat where
  "SYS_EXIT \<equiv> 1"

(* src/common/include/syscalls.h:4-4 SYS_EXIT_GROUP *)
abbreviation (input) SYS_EXIT_GROUP :: nat where
  "SYS_EXIT_GROUP \<equiv> 2"

(* src/common/include/syscalls.h:5-5 SYS_DEBUG_STR *)
abbreviation (input) SYS_DEBUG_STR :: nat where
  "SYS_DEBUG_STR \<equiv> 3"

(* src/common/include/syscalls.h:6-6 SYS_SET_TID_ADDRESS *)
abbreviation (input) SYS_SET_TID_ADDRESS :: nat where
  "SYS_SET_TID_ADDRESS \<equiv> 4"

(* src/common/include/syscalls.h:7-7 SYS_SET_THREAD_AREA *)
abbreviation (input) SYS_SET_THREAD_AREA :: nat where
  "SYS_SET_THREAD_AREA \<equiv> 5"

(* src/common/include/syscalls.h:8-8 SYS_GET_PTHREAD *)
abbreviation (input) SYS_GET_PTHREAD :: nat where
  "SYS_GET_PTHREAD \<equiv> 6"

(* src/common/include/syscalls.h:9-9 SYS_READV *)
abbreviation (input) SYS_READV :: nat where
  "SYS_READV \<equiv> 7"

(* src/common/include/syscalls.h:10-10 SYS_WRITEV *)
abbreviation (input) SYS_WRITEV :: nat where
  "SYS_WRITEV \<equiv> 8"

(* src/common/include/syscalls.h:11-11 SYS_GETPID *)
abbreviation (input) SYS_GETPID :: nat where
  "SYS_GETPID \<equiv> 9"

(* src/common/include/syscalls.h:12-12 SYS_GETTID *)
abbreviation (input) SYS_GETTID :: nat where
  "SYS_GETTID \<equiv> 10"

(* src/common/include/syscalls.h:13-13 SYS_BRK *)
abbreviation (input) SYS_BRK :: nat where
  "SYS_BRK \<equiv> 11"

(* src/common/include/syscalls.h:14-14 SYS_GETCWD *)
abbreviation (input) SYS_GETCWD :: nat where
  "SYS_GETCWD \<equiv> 12"

(* src/common/include/syscalls.h:15-15 SYS_OPEN *)
abbreviation (input) SYS_OPEN :: nat where
  "SYS_OPEN \<equiv> 13"

(* src/common/include/syscalls.h:16-16 SYS_CLOSE *)
abbreviation (input) SYS_CLOSE :: nat where
  "SYS_CLOSE \<equiv> 14"

(* src/common/include/syscalls.h:17-17 SYS_READ *)
abbreviation (input) SYS_READ :: nat where
  "SYS_READ \<equiv> 15"

(* src/common/include/syscalls.h:18-18 SYS_WRITE *)
abbreviation (input) SYS_WRITE :: nat where
  "SYS_WRITE \<equiv> 16"

(* src/common/include/syscalls.h:19-19 SYS_MMAP *)
abbreviation (input) SYS_MMAP :: nat where
  "SYS_MMAP \<equiv> 17"

(* src/common/include/syscalls.h:20-20 SYS_MMAP2 *)
abbreviation (input) SYS_MMAP2 :: nat where
  "SYS_MMAP2 \<equiv> 18"

(* src/common/include/syscalls.h:21-21 SYS_MPROTECT *)
abbreviation (input) SYS_MPROTECT :: nat where
  "SYS_MPROTECT \<equiv> 19"

(* src/common/include/syscalls.h:22-22 SYS_GETDENTS *)
abbreviation (input) SYS_GETDENTS :: nat where
  "SYS_GETDENTS \<equiv> 20"

(* src/common/include/syscalls.h:23-23 SYS_FSTAT *)
abbreviation (input) SYS_FSTAT :: nat where
  "SYS_FSTAT \<equiv> 21"

(* src/common/include/syscalls.h:24-24 SYS_MUNMAP *)
abbreviation (input) SYS_MUNMAP :: nat where
  "SYS_MUNMAP \<equiv> 22"

(* src/common/include/syscalls.h:25-25 SYS_RT_SIGPROCMASK *)
abbreviation (input) SYS_RT_SIGPROCMASK :: nat where
  "SYS_RT_SIGPROCMASK \<equiv> 23"

(* src/common/include/syscalls.h:26-26 SYS_LSEEK *)
abbreviation (input) SYS_LSEEK :: nat where
  "SYS_LSEEK \<equiv> 24"

(* src/common/include/syscalls.h:29-29 SYS_FB_GET_COUNT *)
abbreviation (input) SYS_FB_GET_COUNT :: nat where
  "SYS_FB_GET_COUNT \<equiv> 64"

(* src/common/include/syscalls.h:30-30 SYS_FB_OPEN *)
abbreviation (input) SYS_FB_OPEN :: nat where
  "SYS_FB_OPEN \<equiv> 65"

(* src/common/include/syscalls.h:31-31 SYS_FB_OPEN_DEFAULT *)
abbreviation (input) SYS_FB_OPEN_DEFAULT :: nat where
  "SYS_FB_OPEN_DEFAULT \<equiv> 66"

(* src/common/include/syscalls.h:32-32 SYS_FB_CLOSE *)
abbreviation (input) SYS_FB_CLOSE :: nat where
  "SYS_FB_CLOSE \<equiv> 67"

(* src/common/include/syscalls.h:33-33 SYS_FB_GET_MODE_COUNT *)
abbreviation (input) SYS_FB_GET_MODE_COUNT :: nat where
  "SYS_FB_GET_MODE_COUNT \<equiv> 68"

(* src/common/include/syscalls.h:34-34 SYS_FB_GET_MODE_INFO *)
abbreviation (input) SYS_FB_GET_MODE_INFO :: nat where
  "SYS_FB_GET_MODE_INFO \<equiv> 69"

(* src/common/include/syscalls.h:35-35 SYS_FB_SET_MODE *)
abbreviation (input) SYS_FB_SET_MODE :: nat where
  "SYS_FB_SET_MODE \<equiv> 70"

(* src/common/include/syscalls.h:36-36 SYS_FB_MAP_PIXELS *)
abbreviation (input) SYS_FB_MAP_PIXELS :: nat where
  "SYS_FB_MAP_PIXELS \<equiv> 71"

(* src/common/include/syscalls.h:37-37 SYS_FB_GET_CURRENT_MODE *)
abbreviation (input) SYS_FB_GET_CURRENT_MODE :: nat where
  "SYS_FB_GET_CURRENT_MODE \<equiv> 72"

(* src/common/include/syscalls.h:40-40 SYS_INDEV_GET_COUNT *)
abbreviation (input) SYS_INDEV_GET_COUNT :: nat where
  "SYS_INDEV_GET_COUNT \<equiv> 80"

(* src/common/include/syscalls.h:41-41 SYS_INDEV_LIST *)
abbreviation (input) SYS_INDEV_LIST :: nat where
  "SYS_INDEV_LIST \<equiv> 81"

(* src/common/include/syscalls.h:42-42 SYS_INDEV_OPEN *)
abbreviation (input) SYS_INDEV_OPEN :: nat where
  "SYS_INDEV_OPEN \<equiv> 82"

(* src/common/include/syscalls.h:43-43 SYS_INDEV_CLOSE *)
abbreviation (input) SYS_INDEV_CLOSE :: nat where
  "SYS_INDEV_CLOSE \<equiv> 83"

(* src/common/include/syscalls.h:44-44 SYS_INDEV_GET_TYPE *)
abbreviation (input) SYS_INDEV_GET_TYPE :: nat where
  "SYS_INDEV_GET_TYPE \<equiv> 84"

(* src/common/include/syscalls.h:45-45 SYS_INDEV_GET_NAME *)
abbreviation (input) SYS_INDEV_GET_NAME :: nat where
  "SYS_INDEV_GET_NAME \<equiv> 85"

(* src/common/include/syscalls.h:46-46 SYS_INDEV_GET_EVENT *)
abbreviation (input) SYS_INDEV_GET_EVENT :: nat where
  "SYS_INDEV_GET_EVENT \<equiv> 86"

(* src/common/include/syscalls.h:49-49 SYS_THREAD_CREATE *)
abbreviation (input) SYS_THREAD_CREATE :: nat where
  "SYS_THREAD_CREATE \<equiv> 96"

(* src/common/include/syscalls.h:50-50 SYS_THREAD_DELETE *)
abbreviation (input) SYS_THREAD_DELETE :: nat where
  "SYS_THREAD_DELETE \<equiv> 97"

(* src/common/include/syscalls.h:51-51 SYS_THREAD_RESUME *)
abbreviation (input) SYS_THREAD_RESUME :: nat where
  "SYS_THREAD_RESUME \<equiv> 98"

(* src/common/include/syscalls.h:52-52 SYS_THREAD_SUSPEND *)
abbreviation (input) SYS_THREAD_SUSPEND :: nat where
  "SYS_THREAD_SUSPEND \<equiv> 99"

(* src/common/include/syscalls.h:53-53 SYS_THREAD_SLEEP *)
abbreviation (input) SYS_THREAD_SLEEP :: nat where
  "SYS_THREAD_SLEEP \<equiv> 100"

(* src/common/include/syscalls.h:54-54 SYS_THREAD_WAIT *)
abbreviation (input) SYS_THREAD_WAIT :: nat where
  "SYS_THREAD_WAIT \<equiv> 101"

(* src/common/include/syscalls.h:55-55 SYS_THREAD_ABORT *)
abbreviation (input) SYS_THREAD_ABORT :: nat where
  "SYS_THREAD_ABORT \<equiv> 102"

(* src/common/include/syscalls.h:56-56 SYS_THREAD_DAEMONIZE *)
abbreviation (input) SYS_THREAD_DAEMONIZE :: nat where
  "SYS_THREAD_DAEMONIZE \<equiv> 103"

(* src/common/include/syscalls.h:57-57 SYS_THREAD_GET_ID *)
abbreviation (input) SYS_THREAD_GET_ID :: nat where
  "SYS_THREAD_GET_ID \<equiv> 104"

(* src/common/include/syscalls.h:60-60 SYS_IPC_SEND_MESSAGE *)
abbreviation (input) SYS_IPC_SEND_MESSAGE :: nat where
  "SYS_IPC_SEND_MESSAGE \<equiv> 112"

(* src/common/include/syscalls.h:61-61 SYS_IPC_GET_MESSAGE *)
abbreviation (input) SYS_IPC_GET_MESSAGE :: nat where
  "SYS_IPC_GET_MESSAGE \<equiv> 113"

(* src/common/include/syscalls.h:62-62 SYS_IPC_CREATE_SHMEM *)
abbreviation (input) SYS_IPC_CREATE_SHMEM :: nat where
  "SYS_IPC_CREATE_SHMEM \<equiv> 114"

(* src/common/include/syscalls.h:63-63 SYS_IPC_OPEN_SHMEM *)
abbreviation (input) SYS_IPC_OPEN_SHMEM :: nat where
  "SYS_IPC_OPEN_SHMEM \<equiv> 115"

(* src/common/include/syscalls.h:64-64 SYS_IPC_CLOSE_SHMEM *)
abbreviation (input) SYS_IPC_CLOSE_SHMEM :: nat where
  "SYS_IPC_CLOSE_SHMEM \<equiv> 116"

(* src/common/include/syscalls.h:65-65 SYS_IPC_GET_SHMEM_SIZE *)
abbreviation (input) SYS_IPC_GET_SHMEM_SIZE :: nat where
  "SYS_IPC_GET_SHMEM_SIZE \<equiv> 117"

(* src/common/include/syscalls.h:66-66 SYS_IPC_MAP_SHMEM *)
abbreviation (input) SYS_IPC_MAP_SHMEM :: nat where
  "SYS_IPC_MAP_SHMEM \<equiv> 118"

(* src/common/include/syscalls.h:67-67 SYS_IPC_UNMAP_SHMEM *)
abbreviation (input) SYS_IPC_UNMAP_SHMEM :: nat where
  "SYS_IPC_UNMAP_SHMEM \<equiv> 119"

(* src/common/include/syscalls.h:70-70 SYS_PROCESS_CREATE *)
abbreviation (input) SYS_PROCESS_CREATE :: nat where
  "SYS_PROCESS_CREATE \<equiv> 128"

(* src/common/include/syscalls.h:71-71 SYS_PROCESS_DELETE *)
abbreviation (input) SYS_PROCESS_DELETE :: nat where
  "SYS_PROCESS_DELETE \<equiv> 129"

(* src/common/include/syscalls.h:72-72 SYS_PROCESS_WAIT *)
abbreviation (input) SYS_PROCESS_WAIT :: nat where
  "SYS_PROCESS_WAIT \<equiv> 130"

(* src/common/include/syscalls.h:73-73 SYS_PROCESS_ABORT *)
abbreviation (input) SYS_PROCESS_ABORT :: nat where
  "SYS_PROCESS_ABORT \<equiv> 131"

(* src/common/include/syscalls.h:76-76 SYS_SIGNAL_GET_HANDLER *)
abbreviation (input) SYS_SIGNAL_GET_HANDLER :: nat where
  "SYS_SIGNAL_GET_HANDLER \<equiv> 144"

(* src/common/include/syscalls.h:77-77 SYS_SIGNAL_SET_HANDLER *)
abbreviation (input) SYS_SIGNAL_SET_HANDLER :: nat where
  "SYS_SIGNAL_SET_HANDLER \<equiv> 145"

(* src/common/include/syscalls.h:78-78 SYS_SIGNAL_IS_ENABLED *)
abbreviation (input) SYS_SIGNAL_IS_ENABLED :: nat where
  "SYS_SIGNAL_IS_ENABLED \<equiv> 146"

(* src/common/include/syscalls.h:79-79 SYS_SIGNAL_ENABLE *)
abbreviation (input) SYS_SIGNAL_ENABLE :: nat where
  "SYS_SIGNAL_ENABLE \<equiv> 147"

(* src/common/include/syscalls.h:80-80 SYS_SIGNAL_DISABLE *)
abbreviation (input) SYS_SIGNAL_DISABLE :: nat where
  "SYS_SIGNAL_DISABLE \<equiv> 148"

(* src/common/include/syscalls.h:81-81 SYS_SIGNAL_RAISE *)
abbreviation (input) SYS_SIGNAL_RAISE :: nat where
  "SYS_SIGNAL_RAISE \<equiv> 149"

(* src/common/include/syscalls.h:82-82 SYS_SIGNAL_RETURN *)
abbreviation (input) SYS_SIGNAL_RETURN :: nat where
  "SYS_SIGNAL_RETURN \<equiv> 150"

(* src/common/include/syscalls.h:83-83 SYS_SIGNAL_GET_CURRENT *)
abbreviation (input) SYS_SIGNAL_GET_CURRENT :: nat where
  "SYS_SIGNAL_GET_CURRENT \<equiv> 151"

section \<open>Messages\<close>

(* src/common/include/msgnums.h:3-3 MSG_PAYLOAD_SIZE *)
abbreviation (input) MSG_PAYLOAD_SIZE :: nat where
  "MSG_PAYLOAD_SIZE \<equiv> 112"

(* src/common/include/msgnums.h:5-5 MSG_FLAG_NONE *)
abbreviation (input) MSG_FLAG_NONE :: int where
  "MSG_FLAG_NONE \<equiv> 0"

(* src/common/include/msgnums.h:6-6 MSG_FLAG_ACK_REQ *)
abbreviation (input) MSG_FLAG_ACK_REQ :: int where
  "MSG_FLAG_ACK_REQ \<equiv> 1"

(* src/common/include/msgnums.h:8-8 MSG_NULL *)
abbreviation (input) MSG_NULL :: int where
  "MSG_NULL \<equiv> 0"

(* src/common/include/msgnums.h:9-9 MSG_ACK *)
abbreviation (input) MSG_ACK :: int where
  "MSG_ACK \<equiv> 1"

(* src/common/include/msgnums.h:10-10 MSG_NACK *)
abbreviation (input) MSG_NACK :: int where
  "MSG_NACK \<equiv> 2"

(* src/common/include/msgnums.h:11-11 MSG_PING *)
abbreviation (input) MSG_PING :: int where
  "MSG_PING \<equiv> 3"

(* src/common/include/msgnums.h:12-12 MSG_PONG *)
abbreviation (input) MSG_PONG :: int where
  "MSG_PONG \<equiv> 4"

(* src/common/include/msgnums.h:13-13 MSG_QUIT *)
abbreviation (input) MSG_QUIT :: int where
  "MSG_QUIT \<equiv> 5"

(* src/common/include/msgnums.h:15-15 MSG_ACQUIRE_KEYBOARD *)
abbreviation (input) MSG_ACQUIRE_KEYBOARD :: int where
  "MSG_ACQUIRE_KEYBOARD \<equiv> 100"

(* src/common/include/msgnums.h:16-16 MSG_RELEASE_KEYBOARD *)
abbreviation (input) MSG_RELEASE_KEYBOARD :: int where
  "MSG_RELEASE_KEYBOARD \<equiv> 101"

(* src/common/include/msgnums.h:17-17 MSG_KEYBOARD_EVENT *)
abbreviation (input) MSG_KEYBOARD_EVENT :: int where
  "MSG_KEYBOARD_EVENT \<equiv> 102"

(* src/common/include/msgnums.h:18-18 MSG_ACQUIRE_MOUSE *)
abbreviation (input) MSG_ACQUIRE_MOUSE :: int where
  "MSG_ACQUIRE_MOUSE \<equiv> 103"

(* src/common/include/msgnums.h:19-19 MSG_RELEASE_MOUSE *)
abbreviation (input) MSG_RELEASE_MOUSE :: int where
  "MSG_RELEASE_MOUSE \<equiv> 104"

(* src/common/include/msgnums.h:20-20 MSG_MOUSE_EVENT *)
abbreviation (input) MSG_MOUSE_EVENT :: int where
  "MSG_MOUSE_EVENT \<equiv> 105"

(* src/common/include/msgnums.h:22-22 MSG_RPC_REQUEST *)
abbreviation (input) MSG_RPC_REQUEST :: int where
  "MSG_RPC_REQUEST \<equiv> 200"

(* src/common/include/msgnums.h:23-23 MSG_RPC_RESPONSE *)
abbreviation (input) MSG_RPC_RESPONSE :: int where
  "MSG_RPC_RESPONSE \<equiv> 201"

(* src/common/include/msgnums.h:24-24 MSG_RPC_FIND_SERVER *)
abbreviation (input) MSG_RPC_FIND_SERVER :: int where
  "MSG_RPC_FIND_SERVER \<equiv> 202"

(* src/common/include/msgnums.h:25-25 MSG_RPC_FIND_SERVER_RESP *)
abbreviation (input) MSG_RPC_FIND_SERVER_RESP :: int where
  "MSG_RPC_FIND_SERVER_RESP \<equiv> 203"

(* src/common/include/msgnums.h:29-29 macro MSG_RPC_RESP_PAYLOAD_SIZE *)
abbreviation (input) MSG_RPC_RESP_PAYLOAD_SIZE :: nat where
  "MSG_RPC_RESP_PAYLOAD_SIZE \<equiv> MSG_PAYLOAD_SIZE - 4"

text \<open>The payload of a message is its \<open>Data\<close> view, 112 bytes; the other views of the union read from it.\<close>

(* src/common/include/msgnums.h:37-47 ipcMessage *)
record ipcMessage =
  Number :: int
  Flags :: int
  ID :: int
  Source :: int
  Data :: "byte list"

definition le_bytes :: "int \<Rightarrow> byte list" where
  "le_bytes v = map (\<lambda>k. of_int (v div 2 ^ (8 * k))) [0..<4]"

definition le_int :: "byte list \<Rightarrow> int" where
  "le_int bs = i32 (\<Sum>k<4. uint (bs ! k) * 2 ^ (8 * k))"

(* src/common/include/msgnums.h:31-35 ipcRPCResponse *)
record ipcRPCResponse =
  RequestMessageID :: int
  Results :: "byte list"

definition RPCResponse :: "ipcMessage \<Rightarrow> ipcRPCResponse" where
  "RPCResponse msg = \<lparr>RequestMessageID = le_int (take 4 (Data msg)), Results = drop 4 (Data msg)\<rparr>"

section \<open>Devices and video modes\<close>

(* src/common/include/inputdevtypes.h:3-3 INP_MAX_RAW_BYTES *)
abbreviation (input) INP_MAX_RAW_BYTES :: nat where
  "INP_MAX_RAW_BYTES \<equiv> 64"

(* src/common/include/inputdevtypes.h:4-4 INP_MAX_MOUSE_AXES *)
abbreviation (input) INP_MAX_MOUSE_AXES :: nat where
  "INP_MAX_MOUSE_AXES \<equiv> 13"

(* src/common/include/inputdevtypes.h:5-5 INP_MAX_TABLET_COORDS *)
abbreviation (input) INP_MAX_TABLET_COORDS :: nat where
  "INP_MAX_TABLET_COORDS \<equiv> 7"

(* src/common/include/inputdevtypes.h:6-6 INP_MAX_TABLET_AXES *)
abbreviation (input) INP_MAX_TABLET_AXES :: nat where
  "INP_MAX_TABLET_AXES \<equiv> 6"

(* src/common/include/inputdevtypes.h:7-7 INP_MAX_CONTROLLER_COORDS *)
abbreviation (input) INP_MAX_CONTROLLER_COORDS :: nat where
  "INP_MAX_CONTROLLER_COORDS \<equiv> 13"

(* src/common/include/inputdevtypes.h:9-9 INP_DEV_TYPE_UNKNOWN *)
abbreviation (input) INP_DEV_TYPE_UNKNOWN :: int where
  "INP_DEV_TYPE_UNKNOWN \<equiv> 0"

(* src/common/include/inputdevtypes.h:10-10 INP_DEV_TYPE_OTHER *)
abbreviation (input) INP_DEV_TYPE_OTHER :: int where
  "INP_DEV_TYPE_OTHER \<equiv> 1"

(* src/common/include/inputdevtypes.h:11-11 INP_DEV_TYPE_KEYBOARD *)
abbreviation (input) INP_DEV_TYPE_KEYBOARD :: int where
  "INP_DEV_TYPE_KEYBOARD \<equiv> 2"

(* src/common/include/inputdevtypes.h:12-12 INP_DEV_TYPE_MOUSE *)
abbreviation (input) INP_DEV_TYPE_MOUSE :: int where
  "INP_DEV_TYPE_MOUSE \<equiv> 3"

(* src/common/include/inputdevtypes.h:13-13 INP_DEV_TYPE_TABLET *)
abbreviation (input) INP_DEV_TYPE_TABLET :: int where
  "INP_DEV_TYPE_TABLET \<equiv> 4"

(* src/common/include/inputdevtypes.h:14-14 INP_DEV_TYPE_CONTROLLER *)
abbreviation (input) INP_DEV_TYPE_CONTROLLER :: int where
  "INP_DEV_TYPE_CONTROLLER \<equiv> 5"

(* src/common/include/inputdevtypes.h:16-16 INP_KBD_EVENT_FLAG_RELEASE *)
abbreviation (input) INP_KBD_EVENT_FLAG_RELEASE :: int where
  "INP_KBD_EVENT_FLAG_RELEASE \<equiv> 1"

(* src/common/include/inputdevtypes.h:18-22 inpKeyboardEvent *)
record inpKeyboardEvent =
  Key :: nat
  KbdFlags :: nat

(* src/common/include/inputdevtypes.h:24-30 inpMouseEvent *)
record inpMouseEvent =
  ButtonsPressed :: nat
  ButtonsHeld :: nat
  ButtonsReleased :: nat
  Delta :: "int list"

(* src/common/include/vidmodeinfo.h:3-3 VID_MI_FLAG_INDEX_COLOR *)
abbreviation (input) VID_MI_FLAG_INDEX_COLOR :: int where
  "VID_MI_FLAG_INDEX_COLOR \<equiv> 1"

(* src/common/include/vidmodeinfo.h:5-14 vidModeInfo *)
record vidModeInfo =
  miWidth :: int
  miHeight :: int
  miBitsPerPixel :: int
  miRefreshRate :: int
  miPitch :: int
  miFlags :: int
  miAlphaBits :: int
  miRedBits :: int
  miGreenBits :: int
  miBlueBits :: int
  miAlphaShift :: int
  miRedShift :: int
  miGreenShift :: int
  miBlueShift :: int

section \<open>The interface\<close>

datatype sysarg = AInt int | AStr string | ABytes "byte list" | APtr nat

datatype sysout = ONone | OMsg ipcMessage | OMode vidModeInfo | OStr string | OKbd inpKeyboardEvent | OMouse inpMouseEvent

record sysw =
  answers :: "(int \<times> sysout) list"
  calls :: "(nat \<times> sysarg list) list"

definition syscall :: "nat \<Rightarrow> sysarg list \<Rightarrow> sysw \<Rightarrow> int \<times> sysout \<times> sysw" where
  "syscall num args w =
     (let w = w\<lparr>calls := calls w @ [(num, args)]\<rparr> in
      case answers w of
        [] \<Rightarrow> (- ENOSYS, ONone, w)
      | (r, out) # as \<Rightarrow> (r, out, w\<lparr>answers := as\<rparr>))"

text \<open>A call whose only result is its return value.\<close>

definition sys :: "nat \<Rightarrow> sysarg list \<Rightarrow> sysw \<Rightarrow> int \<times> sysw" where
  "sys num args w = (case syscall num args w of (r, out, w) \<Rightarrow> (r, w))"

section \<open>Wrappers\<close>

(* src/user/libwoot/input.c:5-8 inpGetDeviceCount *)
definition inpGetDeviceCount :: " sysw \<Rightarrow> int \<times> sysw" where
  "inpGetDeviceCount = sys SYS_INDEV_GET_COUNT []"

(* src/user/libwoot/input.c:15-18 inpOpenDevice *)
definition inpOpenDevice :: "string \<Rightarrow> sysw \<Rightarrow> int \<times> sysw" where
  "inpOpenDevice name = sys SYS_INDEV_OPEN [AStr name]"

(* src/user/libwoot/input.c:20-23 inpCloseDevice *)
definition inpCloseDevice :: "int \<Rightarrow> sysw \<Rightarrow> int \<times> sysw" where
  "inpCloseDevice handle = sys SYS_INDEV_CLOSE [AInt handle]"

(* src/user/libwoot/input.c:25-28 inpGetDeviceType *)
definition inpGetDeviceType :: "int \<Rightarrow> sysw \<Rightarrow> int \<times> sysw" where
  "inpGetDeviceType handle = sys SYS_INDEV_GET_TYPE [AInt handle]"

text \<open>The calls that fill a buffer return what the kernel stored in it.\<close>

(* src/user/libwoot/input.c:10-13 inpDeviceList *)
definition inpDeviceList :: "nat \<Rightarrow> nat \<Rightarrow> sysw \<Rightarrow> int \<times> sysout \<times> sysw" where
  "inpDeviceList buf bufSize = syscall SYS_INDEV_LIST [APtr buf, AInt (int bufSize)]"

(* src/user/libwoot/input.c:30-33 inpGetDeviceName *)
definition inpGetDeviceName :: "int \<Rightarrow> nat \<Rightarrow> nat \<Rightarrow> sysw \<Rightarrow> int \<times> sysout \<times> sysw" where
  "inpGetDeviceName handle buf bufSize = syscall SYS_INDEV_GET_NAME [AInt handle, APtr buf, AInt (int bufSize)]"

(* src/user/libwoot/input.c:35-38 inpGetEvent *)
definition inpGetEvent :: "int \<Rightarrow> int \<Rightarrow> nat \<Rightarrow> sysw \<Rightarrow> int \<times> sysout \<times> sysw" where
  "inpGetEvent handle timeout buf = syscall SYS_INDEV_GET_EVENT [AInt handle, AInt timeout, APtr buf]"

(* src/user/libwoot/thread.c:5-8 threadCreate *)
definition threadCreate :: "string \<Rightarrow> nat \<Rightarrow> int \<Rightarrow> nat \<Rightarrow> sysw \<Rightarrow> int \<times> sysw" where
  "threadCreate name entry arg retVal = sys SYS_THREAD_CREATE [AStr name, APtr entry, AInt arg, APtr retVal]"

(* src/user/libwoot/thread.c:10-13 threadDelete *)
definition threadDelete :: "int \<Rightarrow> sysw \<Rightarrow> int \<times> sysw" where
  "threadDelete handle = sys SYS_THREAD_DELETE [AInt handle]"

(* src/user/libwoot/thread.c:15-18 threadResume *)
definition threadResume :: "int \<Rightarrow> sysw \<Rightarrow> int \<times> sysw" where
  "threadResume handle = sys SYS_THREAD_RESUME [AInt handle]"

(* src/user/libwoot/thread.c:20-23 threadSuspend *)
definition threadSuspend :: "int \<Rightarrow> sysw \<Rightarrow> int \<times> sysw" where
  "threadSuspend handle = sys SYS_THREAD_SUSPEND [AInt handle]"

(* src/user/libwoot/thread.c:25-28 threadSleep *)
definition threadSleep :: "int \<Rightarrow> int \<Rightarrow> sysw \<Rightarrow> int \<times> sysw" where
  "threadSleep handle ms = sys SYS_THREAD_SLEEP [AInt handle, AInt ms]"

(* src/user/libwoot/thread.c:30-33 threadWait *)
definition threadWait :: "int \<Rightarrow> int \<Rightarrow> sysw \<Rightarrow> int \<times> sysw" where
  "threadWait handle timeout = sys SYS_THREAD_WAIT [AInt handle, AInt timeout]"

(* src/user/libwoot/thread.c:35-38 threadAbort *)
definition threadAbort :: "int \<Rightarrow> int \<Rightarrow> sysw \<Rightarrow> int \<times> sysw" where
  "threadAbort handle retVal = sys SYS_THREAD_ABORT [AInt handle, AInt retVal]"

(* src/user/libwoot/thread.c:40-43 threadDaemonize *)
definition threadDaemonize :: " sysw \<Rightarrow> int \<times> sysw" where
  "threadDaemonize = sys SYS_THREAD_DAEMONIZE []"

(* src/user/libwoot/thread.c:45-48 threadGetId *)
definition threadGetId :: "int \<Rightarrow> sysw \<Rightarrow> int \<times> sysw" where
  "threadGetId handle = sys SYS_THREAD_GET_ID [AInt handle]"

(* src/user/libwoot/process.c:5-8 processCreate *)
definition processCreate :: "string \<Rightarrow> sysw \<Rightarrow> int \<times> sysw" where
  "processCreate cmdline = sys SYS_PROCESS_CREATE [AStr cmdline]"

(* src/user/libwoot/process.c:10-13 processDelete *)
definition processDelete :: "int \<Rightarrow> sysw \<Rightarrow> int \<times> sysw" where
  "processDelete handle = sys SYS_PROCESS_DELETE [AInt handle]"

(* src/user/libwoot/process.c:15-18 processWait *)
definition processWait :: "int \<Rightarrow> int \<Rightarrow> sysw \<Rightarrow> int \<times> sysw" where
  "processWait handle timeout = sys SYS_PROCESS_WAIT [AInt handle, AInt timeout]"

(* src/user/libwoot/process.c:20-23 processAbort *)
definition processAbort :: "int \<Rightarrow> int \<Rightarrow> sysw \<Rightarrow> int \<times> sysw" where
  "processAbort handle result = sys SYS_PROCESS_ABORT [AInt handle, AInt result]"

(* src/user/libwoot/signal.c:5-8 sigGetHandler *)
definition sigGetHandler :: "int \<Rightarrow> sysw \<Rightarrow> int \<times> sysw" where
  "sigGetHandler sig = sys SYS_SIGNAL_GET_HANDLER [AInt sig]"

(* src/user/libwoot/signal.c:10-13 sigSetHandler *)
definition sigSetHandler :: "int \<Rightarrow> nat \<Rightarrow> sysw \<Rightarrow> int \<times> sysw" where
  "sigSetHandler sig handler = sys SYS_SIGNAL_SET_HANDLER [AInt sig, APtr handler]"

(* src/user/libwoot/signal.c:15-18 sigIsSignalEnabled *)
definition sigIsSignalEnabled :: "int \<Rightarrow> sysw \<Rightarrow> int \<times> sysw" where
  "sigIsSignalEnabled sig = sys SYS_SIGNAL_IS_ENABLED [AInt sig]"

(* src/user/libwoot/signal.c:20-23 sigEnableSignal *)
definition sigEnableSignal :: "int \<Rightarrow> sysw \<Rightarrow> int \<times> sysw" where
  "sigEnableSignal sig = sys SYS_SIGNAL_ENABLE [AInt sig]"

(* src/user/libwoot/signal.c:25-28 sigDisableSignal *)
definition sigDisableSignal :: "int \<Rightarrow> sysw \<Rightarrow> int \<times> sysw" where
  "sigDisableSignal sig = sys SYS_SIGNAL_DISABLE [AInt sig]"

(* src/user/libwoot/signal.c:30-33 sigRaise *)
definition sigRaise :: "int \<Rightarrow> int \<Rightarrow> sysw \<Rightarrow> int \<times> sysw" where
  "sigRaise tid sig = sys SYS_SIGNAL_RAISE [AInt tid, AInt sig]"

(* src/user/libwoot/video.c:6-9 vidGetDisplayCount *)
definition vidGetDisplayCount :: " sysw \<Rightarrow> int \<times> sysw" where
  "vidGetDisplayCount = sys SYS_FB_GET_COUNT []"

(* src/user/libwoot/video.c:11-14 vidOpenDisplay *)
definition vidOpenDisplay :: "string \<Rightarrow> sysw \<Rightarrow> int \<times> sysw" where
  "vidOpenDisplay name = sys SYS_FB_OPEN [AStr name]"

(* src/user/libwoot/video.c:16-19 vidOpenDefaultDisplay *)
definition vidOpenDefaultDisplay :: " sysw \<Rightarrow> int \<times> sysw" where
  "vidOpenDefaultDisplay = sys SYS_FB_OPEN_DEFAULT []"

(* src/user/libwoot/video.c:21-24 vidCloseDisplay *)
definition vidCloseDisplay :: "int \<Rightarrow> sysw \<Rightarrow> int \<times> sysw" where
  "vidCloseDisplay display = sys SYS_FB_CLOSE [AInt display]"

(* src/user/libwoot/video.c:26-29 vidGetModeCount *)
definition vidGetModeCount :: "int \<Rightarrow> sysw \<Rightarrow> int \<times> sysw" where
  "vidGetModeCount display = sys SYS_FB_GET_MODE_COUNT [AInt display]"

(* src/user/libwoot/video.c:31-34 vidGetModeInfo *)
definition vidGetModeInfo :: "int \<Rightarrow> int \<Rightarrow> sysw \<Rightarrow> int \<times> sysout \<times> sysw" where
  "vidGetModeInfo display mode = syscall SYS_FB_GET_MODE_INFO [AInt display, AInt mode]"

(* src/user/libwoot/video.c:36-39 vidSetMode *)
definition vidSetMode :: "int \<Rightarrow> int \<Rightarrow> sysw \<Rightarrow> int \<times> sysw" where
  "vidSetMode display mode = sys SYS_FB_SET_MODE [AInt display, AInt mode]"

(* src/user/libwoot/video.c:64-67 vidMapPixels *)
definition vidMapPixels :: "int \<Rightarrow> nat \<Rightarrow> sysw \<Rightarrow> int \<times> sysw" where
  "vidMapPixels display hint = sys SYS_FB_MAP_PIXELS [AInt display, APtr hint]"

(* src/user/libwoot/video.c:69-72 vidGetCurrentMode *)
definition vidGetCurrentMode :: "int \<Rightarrow> sysw \<Rightarrow> int \<times> sysw" where
  "vidGetCurrentMode display = sys SYS_FB_GET_CURRENT_MODE [AInt display]"

(* src/user/libwoot/ipc.c:6-9 ipcSendMessage *)
definition ipcSendMessage :: "int \<Rightarrow> int \<Rightarrow> int \<Rightarrow> byte list \<Rightarrow> sysw \<Rightarrow> int \<times> sysw" where
  "ipcSendMessage dst num flags payload =
     sys SYS_IPC_SEND_MESSAGE [AInt dst, AInt num, AInt flags, ABytes payload, AInt (int (length payload))]"

(* src/user/libwoot/ipc.c:11-14 ipcAckMessage *)
definition ipcAckMessage :: "ipcMessage \<Rightarrow> sysw \<Rightarrow> int \<times> sysw" where
  "ipcAckMessage msg = ipcSendMessage (Source msg) MSG_ACK MSG_FLAG_NONE []"

(* src/user/libwoot/ipc.c:16-19 ipcGetMessage *)
definition ipcGetMessage :: "int \<Rightarrow> sysw \<Rightarrow> int \<times> sysout \<times> sysw" where
  "ipcGetMessage timeout = syscall SYS_IPC_GET_MESSAGE [AInt timeout]"

text \<open>A null message is \<open>None\<close>.\<close>

(* src/user/libwoot/ipc.c:21-29 ipcProcessMessage *)
definition ipcProcessMessage :: "ipcMessage option \<Rightarrow> sysw \<Rightarrow> int \<times> sysw" where
  "ipcProcessMessage msgp w =
     (case msgp of None \<Rightarrow> (- EINVAL, w)
      | Some msg \<Rightarrow>
          let w = (if odd (Flags msg) then snd (ipcAckMessage msg w) else w);
              w = (if Number msg = MSG_PING then snd (ipcSendMessage (Source msg) MSG_PONG MSG_FLAG_NONE [] w) else w)
          in (0, w))"

(* src/user/libwoot/ipc.c:31-34 ipcCreateSharedMem *)
definition ipcCreateSharedMem :: "string \<Rightarrow> nat \<Rightarrow> sysw \<Rightarrow> int \<times> sysw" where
  "ipcCreateSharedMem name n = sys SYS_IPC_CREATE_SHMEM [AStr name, AInt (int n)]"

(* src/user/libwoot/ipc.c:36-39 ipcOpenSharedMem *)
definition ipcOpenSharedMem :: "string \<Rightarrow> sysw \<Rightarrow> int \<times> sysw" where
  "ipcOpenSharedMem name = sys SYS_IPC_OPEN_SHMEM [AStr name]"

(* src/user/libwoot/ipc.c:41-44 ipcCloseSharedMem *)
definition ipcCloseSharedMem :: "int \<Rightarrow> sysw \<Rightarrow> int \<times> sysw" where
  "ipcCloseSharedMem handle = sys SYS_IPC_CLOSE_SHMEM [AInt handle]"

(* src/user/libwoot/ipc.c:46-49 ipcGetSharedMemSize *)
definition ipcGetSharedMemSize :: "int \<Rightarrow> sysw \<Rightarrow> int \<times> sysw" where
  "ipcGetSharedMemSize handle = sys SYS_IPC_GET_SHMEM_SIZE [AInt handle]"

(* src/user/libwoot/ipc.c:51-54 ipcMapSharedMem *)
definition ipcMapSharedMem :: "int \<Rightarrow> nat \<Rightarrow> nat \<Rightarrow> sysw \<Rightarrow> int \<times> sysw" where
  "ipcMapSharedMem handle hint flags = sys SYS_IPC_MAP_SHMEM [AInt handle, APtr hint, AInt (int flags)]"

(* src/user/libwoot/ipc.c:56-59 ipcUnMapSharedMem *)
definition ipcUnMapSharedMem :: "int \<Rightarrow> nat \<Rightarrow> sysw \<Rightarrow> int \<times> sysw" where
  "ipcUnMapSharedMem handle addr = sys SYS_IPC_UNMAP_SHMEM [AInt handle, APtr addr]"

lemma sysw_upd_commute [simp]: "w\<lparr>calls := c, answers := a\<rparr> = w\<lparr>answers := a, calls := c\<rparr>"
  by simp

end
