(* ===== verification/Rpc.thy ===== *)
theory Rpc
  imports Sys
begin

text \<open>
  Remote procedure calls over messages (\<open>user/libwoot/rpc.c\<close>), choosing a video mode
  (\<open>user/libwoot/video.c\<close>), on the system-call interface of \<open>Sys\<close>. A C string is its characters without the terminating NUL.
\<close>

section \<open>Strings\<close>

(* src/user/musl/musl-1.1.21/src/string/strncmp.c:3-9 strncmp *)
fun strncmp :: "string \<Rightarrow> string \<Rightarrow> nat \<Rightarrow> int" where
  "strncmp l r 0 = 0"
| "strncmp (a # l) (b # r) (Suc n) =
     (if n \<noteq> 0 \<and> a = b then strncmp l r n else int (of_char a :: nat) - int (of_char b :: nat))"
| "strncmp [] [] (Suc n) = 0"
| "strncmp [] (b # r) (Suc n) = - int (of_char b :: nat)"
| "strncmp (a # l) [] (Suc n) = int (of_char a :: nat)"

(* src/user/libwoot/rpc.c:9-13 startsWith *)
definition startsWith :: "string \<Rightarrow> string \<Rightarrow> nat" where
  "startsWith str prefix = (if strncmp str prefix (length prefix) = 0 then length prefix else 0)"

definition is_digit :: "char \<Rightarrow> bool" where
  "is_digit c \<longleftrightarrow> 48 \<le> (of_char c :: nat) \<and> (of_char c :: nat) \<le> 57"

definition is_space :: "char \<Rightarrow> bool" where
  "is_space c \<longleftrightarrow> (of_char c :: nat) = 32 \<or> (9 \<le> (of_char c :: nat) \<and> (of_char c :: nat) \<le> 13)"

(* src/user/musl/musl-1.1.21/src/stdlib/atoi.c:13-14 atoi, digits *)
fun atoi_digits :: "int \<Rightarrow> string \<Rightarrow> int" where
  "atoi_digits n [] = n"
| "atoi_digits n (c # s) =
     (if is_digit c then atoi_digits (i32 (i32 (10 * n) - (int (of_char c :: nat) - 48))) s else n)"

(* src/user/musl/musl-1.1.21/src/stdlib/atoi.c:4-16 atoi *)
definition atoi :: "string \<Rightarrow> int" where
  "atoi s0 =
     (case dropWhile is_space s0 of
        [] \<Rightarrow> 0
      | c # s \<Rightarrow>
          if c = CHR ''-'' then atoi_digits 0 s
          else if c = CHR ''+'' then i32 (- atoi_digits 0 s)
          else i32 (- atoi_digits 0 (c # s)))"

text \<open>\<^verbatim>\<open>"%d"\<close> of \<^verbatim>\<open>printf\<close>, and \<^verbatim>\<open>snprintf\<close>, which keeps what fits in the buffer with its NUL.\<close>

fun show_nat :: "nat \<Rightarrow> string" where
  "show_nat n = (if n < 10 then [char_of (48 + n)] else show_nat (n div 10) @ [char_of (48 + n mod 10)])"

declare show_nat.simps [simp del]

definition show_int :: "int \<Rightarrow> string" where
  "show_int v = (if v < 0 then CHR ''-'' # show_nat (nat (- v)) else show_nat (nat v))"

definition snprintf :: "nat \<Rightarrow> string \<Rightarrow> string" where
  "snprintf bufSize s = take (bufSize - 1) s"

definition str_bytes :: "string \<Rightarrow> byte list" where
  "str_bytes s = map (\<lambda>c. of_nat (of_char c)) s @ [0]"

section \<open>Calls\<close>

text \<open>
  The waiting loop of \<open>rpcFindServer\<close> and \<open>rpcCall\<close>: take messages until one passes the test. \<open>Inl\<close> is an
  error of \<open>ipcGetMessage\<close> or running out of time; \<open>Inr\<close> is the time left and the message.
\<close>

lemma ipcGetMessage_answers:
  "ipcGetMessage t w = (r, out, w') \<Longrightarrow> 0 \<le> r \<Longrightarrow> length (answers w') < length (answers w)"
  by (auto simp: ipcGetMessage_def syscall_def Let_def split: list.splits)

lemma sys_answers: "length (answers (snd (sys n as w))) \<le> length (answers w)"
  by (auto simp: sys_def syscall_def Let_def split: list.splits)

lemma ipcSendMessage_answers: "length (answers (snd (ipcSendMessage d n f p w))) \<le> length (answers w)"
  unfolding ipcSendMessage_def by (rule sys_answers)

lemma ipcProcessMessage_answers: "length (answers (snd (ipcProcessMessage m w))) \<le> length (answers w)"
  by (auto simp: ipcProcessMessage_def ipcAckMessage_def Let_def ipcSendMessage_answers split: option.splits
        intro: le_trans [OF ipcSendMessage_answers ipcSendMessage_answers])

(* src/user/libwoot/rpc.c:82-101 rpcCall, waiting loop *)
function rpc_wait :: "(ipcMessage \<Rightarrow> bool) \<Rightarrow> int \<Rightarrow> int \<Rightarrow> int \<Rightarrow> sysw \<Rightarrow> (int + int \<times> ipcMessage) \<times> sysw" where
  "rpc_wait ok expired timeout timeleft w =
     (if timeout < 0 \<or> timeleft > 0 then
        (case ipcGetMessage timeleft w of (res, out, w1) \<Rightarrow>
           if res < 0 then (Inl res, w1)
           else
             (case out of
                OMsg msg \<Rightarrow>
                  let w2 = snd (ipcProcessMessage (Some msg) w1)
                  in if ok msg then (Inr (res, msg), w2) else rpc_wait ok expired timeout res w2
              | _ \<Rightarrow> (Inl (- EINVAL), w1)))
      else (Inl expired, w))"
  by pat_completeness auto
termination
  by (relation "measure (\<lambda>(ok, e, t, tl, w). length (answers w))")
     (auto dest!: sym [of "(_, _, _)"] ipcGetMessage_answers intro: le_less_trans [OF ipcProcessMessage_answers])

declare rpc_wait.simps [simp del]

(* src/user/libwoot/rpc.c:15-43 rpcFindServer *)
definition rpcFindServer :: "string \<Rightarrow> nat \<Rightarrow> int \<Rightarrow> sysw \<Rightarrow> (int \<times> string option) \<times> sysw" where
  "rpcFindServer kind addrBufSize timeout w =
     (if timeout = 0 then ((- EINVAL, None), w)
      else if length kind + 1 > MSG_PAYLOAD_SIZE then ((- EINVAL, None), w)
      else
        (case ipcSendMessage 0 MSG_RPC_FIND_SERVER MSG_FLAG_NONE (str_bytes kind) w of (rid, w) \<Rightarrow>
           if rid < 0 then ((rid, None), w)
           else
             (case rpc_wait (\<lambda>m. Number m = MSG_RPC_FIND_SERVER_RESP \<and> RequestMessageID (RPCResponse m) = rid)
                     (- ENOENT) timeout timeout w of
                (Inl e, w) \<Rightarrow> ((e, None), w)
              | (Inr (timeleft, m), w) \<Rightarrow>
                  ((timeleft, Some (snprintf addrBufSize (''proc://'' @ show_int (Source m)))), w))))"

(* src/user/libwoot/rpc.c:45-51 rpcIPCFindServerRespond *)
definition rpcIPCFindServerRespond :: "int \<Rightarrow> int \<Rightarrow> sysw \<Rightarrow> int \<times> sysw" where
  "rpcIPCFindServerRespond dst reqMsgId = ipcSendMessage dst MSG_RPC_FIND_SERVER_RESP MSG_FLAG_NONE (le_bytes reqMsgId)"

(* src/user/libwoot/rpc.c:53-102 rpcCall *)
definition rpcCall :: "string \<Rightarrow> string \<Rightarrow> byte list \<Rightarrow> nat \<Rightarrow> int \<Rightarrow> sysw \<Rightarrow> (int \<times> byte list option) \<times> sysw" where
  "rpcCall addr pname args respBufSize timeout w =
     (if timeout = 0 then ((- EINVAL, None), w)
      else
        let offs = startsWith addr ''proc://'' in
        if offs = 0 then ((- EINVAL, None), w)
        else
          let pid = atoi (drop offs addr); payloadSize = length pname + 1 + length args in
          if pid \<le> 0 then ((- EINVAL, None), w)
          else if payloadSize > MSG_PAYLOAD_SIZE then ((- EINVAL, None), w)
          else
            (case ipcSendMessage pid MSG_RPC_REQUEST MSG_FLAG_NONE (str_bytes pname @ args) w of (reqMsgId, w) \<Rightarrow>
               if reqMsgId < 0 then ((reqMsgId, None), w)
               else
                 (case rpc_wait (\<lambda>m. Number m = MSG_RPC_RESPONSE \<and> Source m = pid
                                   \<and> RequestMessageID (RPCResponse m) = reqMsgId)
                         (- EBUSY) timeout timeout w of
                    (Inl e, w) \<Rightarrow> ((e, None), w)
                  | (Inr (timeleft, m), w) \<Rightarrow>
                      ((timeleft, Some (take (min MSG_RPC_RESP_PAYLOAD_SIZE respBufSize) (Results (RPCResponse m)))), w))))"

(* src/user/libwoot/rpc.c:104-112 rpcIPCReturn *)
definition rpcIPCReturn :: "int \<Rightarrow> int \<Rightarrow> byte list \<Rightarrow> sysw \<Rightarrow> int \<times> sysw" where
  "rpcIPCReturn dst reqMsgId resp =
     ipcSendMessage dst MSG_RPC_RESPONSE MSG_FLAG_NONE (le_bytes reqMsgId @ take MSG_RPC_RESP_PAYLOAD_SIZE resp)"

section \<open>Choosing a video mode\<close>

(* src/user/libwoot/video.c:48-57 vidSetMode2, tests *)
definition mode_matches :: "int \<Rightarrow> int \<Rightarrow> int \<Rightarrow> int \<Rightarrow> int \<Rightarrow> vidModeInfo \<Rightarrow> bool" where
  "mode_matches width height bpp refresh index mi \<longleftrightarrow>
     \<not> (width \<ge> 0 \<and> miWidth mi \<noteq> width) \<and> \<not> (height \<ge> 0 \<and> miHeight mi \<noteq> height) \<and>
     \<not> (bpp \<ge> 0 \<and> miBitsPerPixel mi \<noteq> bpp) \<and> \<not> (refresh \<ge> 0 \<and> miRefreshRate mi \<noteq> refresh) \<and>
     \<not> (index \<ge> 0 \<and> index \<noteq> (if odd (miFlags mi) then 1 else 0))"

(* src/user/libwoot/video.c:44-60 vidSetMode2, loop *)
primrec set_mode_loop :: "int \<Rightarrow> (vidModeInfo \<Rightarrow> bool) \<Rightarrow> int list \<Rightarrow> sysw \<Rightarrow> int \<times> sysw" where
  "set_mode_loop display matches [] w = (- ENOENT, w)"
| "set_mode_loop display matches (i # is) w =
     (case vidGetModeInfo display i w of (r, out, w) \<Rightarrow>
        if r < 0 then set_mode_loop display matches is w
        else
          (case out of
             OMode mi \<Rightarrow> if matches mi then vidSetMode display i w else set_mode_loop display matches is w
           | _ \<Rightarrow> set_mode_loop display matches is w))"

(* src/user/libwoot/video.c:41-62 vidSetMode2 *)
definition vidSetMode2 :: "int \<Rightarrow> int \<Rightarrow> int \<Rightarrow> int \<Rightarrow> int \<Rightarrow> int \<Rightarrow> sysw \<Rightarrow> int \<times> sysw" where
  "vidSetMode2 display width height bpp refresh index w =
     (case vidGetModeCount display w of (modeCount, w) \<Rightarrow>
        set_mode_loop display (mode_matches width height bpp refresh index) [0..modeCount - 1] w)"

section \<open>Addresses\<close>

lemma of_char_digit: "(n :: nat) < 10 \<Longrightarrow> (of_char (char_of (48 + n) :: char) :: nat) = 48 + n"
  by (simp add: char_of_nat of_char_of)

lemma is_digit_show: "(n :: nat) < 10 \<Longrightarrow> is_digit (char_of (48 + n))"
  by (simp add: is_digit_def of_char_digit)

lemma show_nat_nonempty [simp]: "show_nat n \<noteq> []"
  by (subst show_nat.simps) auto

lemma atoi_digits_append:
  assumes "\<forall>c \<in> set s. is_digit c"
  shows "atoi_digits n (s @ t) = atoi_digits (atoi_digits n s) t"
  using assms by (induction s arbitrary: n) auto

lemma show_nat_digits: "\<forall>c \<in> set (show_nat n). is_digit c"
proof (induction n rule: show_nat.induct)
  case (1 n)
  then show ?case
    by (subst show_nat.simps) (auto simp: is_digit_show)
qed

lemma atoi_show_nat: "int n < 2 ^ 31 \<Longrightarrow> atoi_digits 0 (show_nat n) = - int n"
proof (induction n rule: show_nat.induct)
  case (1 n)
  show ?case
  proof (cases "n < 10")
    case True
    then show ?thesis
      by (subst show_nat.simps) (simp add: is_digit_show of_char_digit i32_small in_i32_def)
  next
    case False
    have d: "int (n div 10) < 2 ^ 31" using "1.prems" by simp
    have IH: "atoi_digits 0 (show_nat (n div 10)) = - int (n div 10)"
      using "1.IH" [OF False d] .
    have e: "10 * (n div 10) + n mod 10 = n" by simp
    then have b: "10 * int (n div 10) + int (n mod 10) = int n" by presburger
    have r: "i32 (10 * - int (n div 10)) = - (10 * int (n div 10))"
      "i32 (- (10 * int (n div 10)) - int (n mod 10)) = - int n"
      using "1.prems" b by (simp_all add: i32_small in_i32_def)
    from False show ?thesis
      by (subst show_nat.simps)
         (simp add: atoi_digits_append [OF show_nat_digits] IH is_digit_show of_char_digit r [simplified])
  qed
qed

lemma atoi_show_int:
  assumes "0 \<le> v" "v < 2 ^ 31"
  shows "atoi (show_int v) = v"
proof -
  obtain c s where cs: "show_nat (nat v) = c # s" by (cases "show_nat (nat v)") auto
  have "is_digit c" using show_nat_digits [of "nat v"] cs by auto
  then have "\<not> is_space c" "c \<noteq> CHR ''-''" "c \<noteq> CHR ''+''"
    by (auto simp: is_digit_def is_space_def)
  then have "atoi (show_int v) = i32 (- atoi_digits 0 (show_nat (nat v)))"
    using assms(1) cs by (simp add: atoi_def show_int_def)
  with assms show ?thesis by (simp add: atoi_show_nat i32_small in_i32_def)
qed

lemma length_show_nat: "n < 10 ^ k \<Longrightarrow> 0 < k \<Longrightarrow> length (show_nat n) \<le> k"
proof (induction n arbitrary: k rule: show_nat.induct)
  case (1 n)
  show ?case
  proof (cases "n < 10")
    case True
    with 1 show ?thesis by (subst show_nat.simps) simp
  next
    case False
    then obtain k' where k: "k = Suc k'" "0 < k'" using "1.prems" by (cases k; cases "k - 1") auto
    then have "n div 10 < 10 ^ k'" using "1.prems" by (simp add: div_less_iff_less_mult mult.commute)
    with "1.IH" [OF False this k(2)] False k show ?thesis by (subst show_nat.simps) simp
  qed
qed

lemma strncmp_prefix: "length p = n \<Longrightarrow> strncmp (p @ s) p n = 0"
proof (induction p arbitrary: n)
  case (Cons c p)
  then show ?case by (cases n; cases p) (auto simp: length_Suc_conv)
qed simp

text \<open>
  The address that \<open>rpcFindServer\<close> writes for a server is one that \<open>rpcCall\<close> understands: for every
  process number the text \<open>proc://N\<close>, cut to the 64 bytes the clients reserve, starts with the expected
  prefix and the number parsed after it is the process number again.
\<close>

lemma server_address_roundtrip:
  assumes "0 < pid" and "pid < 2 ^ 31"
  shows "let addr = snprintf 64 (''proc://'' @ show_int pid)
    in startsWith addr ''proc://'' = 7 \<and> atoi (drop (startsWith addr ''proc://'') addr) = pid"
proof -
  have "length (show_nat (nat pid)) \<le> 10" using assms by (intro length_show_nat) auto
  then have a: "snprintf 64 (''proc://'' @ show_int pid) = ''proc://'' @ show_int pid"
    using assms(1) by (simp add: snprintf_def show_int_def)
  have "startsWith (''proc://'' @ show_int pid) ''proc://'' = 7"
    unfolding startsWith_def by (subst strncmp_prefix) simp_all
  with assms show ?thesis unfolding a Let_def by (simp add: atoi_show_int)
qed

section \<open>Responses\<close>

lemma le_bytes_list: "le_bytes v = [of_int v, of_int (v div 2 ^ 8), of_int (v div 2 ^ 16), of_int (v div 2 ^ 24)]"
  by (simp add: le_bytes_def upt_rec numeral_eq_Suc)

lemma le_roundtrip:
  assumes "in_i32 v"
  shows "le_int (le_bytes v) = v"
proof -
  have u: "uint (of_int x :: byte) = x mod 2 ^ 8" for x by (simp add: unsigned_of_int take_bit_eq_mod)
  let ?a = "v div 2 ^ 8" and ?b = "v div 2 ^ 16" and ?c = "v div 2 ^ 24"
  have "(\<Sum>k<4. uint (le_bytes v ! k) * 2 ^ (8 * k)) =
      v mod 2 ^ 8 + (?a mod 2 ^ 8) * 2 ^ 8 + (?b mod 2 ^ 8) * 2 ^ 16 + (?c mod 2 ^ 8) * 2 ^ 24"
    by (simp add: le_bytes_list u lessThan_nat_numeral lessThan_Suc)
  also have "\<dots> = v mod 2 ^ 32"
  proof -
    have w: "(2 ^ 8 * 2 ^ 8 :: int) = 2 ^ 16" "(2 ^ 16 * 2 ^ 8 :: int) = 2 ^ 24"
      "(2 ^ 8 * 2 ^ 24 :: int) = 2 ^ 32" "(2 ^ 8 * 2 ^ 16 :: int) = 2 ^ 24" by simp_all
    have p: "0 \<le> (2 ^ 8 :: int)" "0 \<le> (2 ^ 16 :: int)" "0 \<le> (2 ^ 24 :: int)" by simp_all
    note d = zdiv_zmult2_eq [OF p(1), where a = v and b = "2 ^ 8", unfolded w, symmetric]
      zdiv_zmult2_eq [OF p(1), where a = v and b = "2 ^ 16", unfolded w, symmetric]
    note m = zmod_zmult2_eq [OF p(3), where a = v and b = "2 ^ 8", unfolded w d]
      zmod_zmult2_eq [OF p(2), where a = ?a and b = "2 ^ 8", unfolded w d]
      zmod_zmult2_eq [OF p(1), where a = ?b and b = "2 ^ 8", unfolded w d]
    have g: "p + q * 2 ^ 8 + r * 2 ^ 16 + t * 2 ^ 24 = 2 ^ 8 * (2 ^ 8 * (2 ^ 8 * t + r) + q) + p" for p q r t :: int
      by simp
    show ?thesis unfolding m by (rule g)
  qed
  finally have "le_int (le_bytes v) = i32 (v mod 2 ^ 32)" by (simp add: le_int_def)
  also have "\<dots> = i32 v" by (simp add: i32_def mod_simps)
  finally show ?thesis using assms by (simp add: i32_small)
qed

lemma length_le_bytes [simp]: "length (le_bytes v) = 4"
  by (simp add: le_bytes_def)

text \<open>What the kernel delivers for a payload: it is cut or zero-filled to the 112 bytes of a message.\<close>

definition padded :: "byte list \<Rightarrow> byte list" where
  "padded p = take MSG_PAYLOAD_SIZE (p @ replicate MSG_PAYLOAD_SIZE 0)"

lemma RPCResponse_padded:
  assumes "in_i32 reqid" "length resp \<le> MSG_RPC_RESP_PAYLOAD_SIZE" "Data m = padded (le_bytes reqid @ resp)"
  shows "RequestMessageID (RPCResponse m) = reqid" and "take (length resp) (Results (RPCResponse m)) = resp"
proof -
  have "Data m = le_bytes reqid @ resp @ replicate (108 - length resp) 0"
    using assms(2,3) by (simp add: padded_def)
  then show "RequestMessageID (RPCResponse m) = reqid" "take (length resp) (Results (RPCResponse m)) = resp"
    using assms(1) by (simp_all add: RPCResponse_def le_roundtrip)
qed

section \<open>Waiting for a response\<close>

text \<open>A message that needs no reply: no acknowledgement requested and not a ping.\<close>

definition plain :: "ipcMessage \<Rightarrow> bool" where
  "plain m \<longleftrightarrow> even (Flags m) \<and> Number m \<noteq> MSG_PING"

lemma ipcProcessMessage_plain: "plain m \<Longrightarrow> ipcProcessMessage (Some m) w = (0, w)"
  by (simp add: plain_def ipcProcessMessage_def)

text \<open>The calls that the waiting loop makes for the times that its answers report.\<close>

definition get_calls :: "int list \<Rightarrow> (nat \<times> sysarg list) list" where
  "get_calls ts = map (\<lambda>t. (SYS_IPC_GET_MESSAGE, [AInt t])) ts"

lemma rpc_wait_skips:
  assumes "\<forall>(t, m) \<in> set ms. plain m \<and> \<not> ok m \<and> 0 \<le> t \<and> (timeout < 0 \<or> 0 < t)"
    and "ok m" "plain m" "0 \<le> t" "timeout < 0 \<or> 0 < left"
    and "answers w = map (\<lambda>(t, m). (t, OMsg m)) ms @ (t, OMsg m) # rest"
  shows "rpc_wait ok expired timeout left w =
    (Inr (t, m), w\<lparr>answers := rest, calls := calls w @ get_calls (left # map fst ms)\<rparr>)"
  using assms
proof (induction ms arbitrary: left w)
  case Nil
  then show ?case
    by (subst rpc_wait.simps)
       (simp add: ipcGetMessage_def syscall_def ipcProcessMessage_plain get_calls_def Let_def)
next
  case (Cons p ms)
  obtain t' m' where p: "p = (t', m')" by force
  let ?w = "w\<lparr>answers := map (\<lambda>(t, m). (t, OMsg m)) ms @ (t, OMsg m) # rest,
              calls := calls w @ [(SYS_IPC_GET_MESSAGE, [AInt left])]\<rparr>"
  have "rpc_wait ok expired timeout left w = rpc_wait ok expired timeout t' ?w"
    using Cons.prems p
    by (subst rpc_wait.simps) (simp add: ipcGetMessage_def syscall_def ipcProcessMessage_plain Let_def)
  also have "\<dots> = (Inr (t, m), ?w\<lparr>answers := rest, calls := calls ?w @ get_calls (t' # map fst ms)\<rparr>)"
    by (rule Cons.IH) (use Cons.prems p in auto)
  finally show ?case by (simp add: p get_calls_def)
qed

text \<open>C28.
  \<open>rpcCall\<close> delivers the answer to its own request: whatever other plain messages come first (other
  responses, events, responses of other processes), as long as time is left after each, it keeps waiting
  with exactly the time left and returns when a response from the called process with the id of this
  request arrives: the time left, and the results cut to the caller's buffer. It sends exactly one
  message, the request, whose payload is the NUL-terminated procedure name followed by the arguments.
\<close>

theorem rpc_call_gets_own_response:
  assumes "0 < pid" and "pid < 2 ^ 31" and "length pname + 1 + length args \<le> MSG_PAYLOAD_SIZE"
    and "timeout \<noteq> 0" and "0 \<le> reqid" and "in_i32 reqid" and "length resp \<le> MSG_RPC_RESP_PAYLOAD_SIZE"
    and "\<forall>(t, m) \<in> set ms. plain m \<and> 0 < t \<and>
      \<not> (Number m = MSG_RPC_RESPONSE \<and> Source m = pid \<and> RequestMessageID (RPCResponse m) = reqid)"
    and "Number m = MSG_RPC_RESPONSE" and "Source m = pid" and "Flags m = MSG_FLAG_NONE"
    and "Data m = padded (le_bytes reqid @ resp)" and "0 \<le> t"
    and "answers w = (reqid, ONone) # map (\<lambda>(t, m). (t, OMsg m)) ms @ [(t, OMsg m)]"
  shows "rpcCall (''proc://'' @ show_int pid) pname args (length resp) timeout w =
    ((t, Some resp),
     w\<lparr>answers := [], calls := calls w @ (SYS_IPC_SEND_MESSAGE, [AInt pid, AInt MSG_RPC_REQUEST, AInt MSG_FLAG_NONE,
          ABytes (str_bytes pname @ args), AInt (int (length pname + 1 + length args))])
        # get_calls (timeout # map fst ms)\<rparr>)"
proof -
  let ?addr = "''proc://'' @ show_int pid"
  let ?ok = "\<lambda>m. Number m = MSG_RPC_RESPONSE \<and> Source m = pid \<and> RequestMessageID (RPCResponse m) = reqid"
  let ?c = "(SYS_IPC_SEND_MESSAGE, [AInt pid, AInt MSG_RPC_REQUEST, AInt MSG_FLAG_NONE,
          ABytes (str_bytes pname @ args), AInt (int (length pname + 1 + length args))])"
  let ?w = "w\<lparr>answers := map (\<lambda>(t, m). (t, OMsg m)) ms @ [(t, OMsg m)], calls := calls w @ [?c]\<rparr>"
  have offs: "startsWith ?addr ''proc://'' = 7"
    unfolding startsWith_def by (subst strncmp_prefix) simp_all
  have pid: "atoi (drop 7 ?addr) = pid" using assms(1,2) by (simp add: atoi_show_int)
  have send: "ipcSendMessage pid MSG_RPC_REQUEST MSG_FLAG_NONE (str_bytes pname @ args) w = (reqid, ?w)"
    using assms(14) by (simp add: ipcSendMessage_def sys_def syscall_def Let_def str_bytes_def)
  note R = RPCResponse_padded [OF assms(6,7,12)]
  have wait: "rpc_wait ?ok (- EBUSY) timeout timeout ?w =
      (Inr (t, m), ?w\<lparr>answers := [], calls := calls ?w @ get_calls (timeout # map fst ms)\<rparr>)"
    by (rule rpc_wait_skips) (use assms R(1) in \<open>auto simp: plain_def\<close>)
  have m: "min MSG_RPC_RESP_PAYLOAD_SIZE (length resp) = length resp" using assms(7) by simp
  show ?thesis
    unfolding rpcCall_def Let_def offs pid send prod.case wait sum.case m R(2)
    using assms(1,3-5) by simp
qed

theorem rpc_call_gets_own_response_witness:
  "fst (rpcCall (''proc://'' @ show_int 3) ''f'' [] 0 100
     \<lparr>answers = [(7, ONone), (40, OMsg \<lparr>Number = MSG_RPC_RESPONSE, Flags = 0, ID = 1, Source = 4, Data = padded (le_bytes 7 @ [])\<rparr>),
        (20, OMsg \<lparr>Number = MSG_RPC_RESPONSE, Flags = 0, ID = 2, Source = 3, Data = padded (le_bytes 7 @ [])\<rparr>)], calls = []\<rparr>)
   = (20, Some [])"
  by (subst rpc_call_gets_own_response [where reqid = 7 and t = 20 and resp = "[]" and
        ms = "[(40, \<lparr>Number = MSG_RPC_RESPONSE, Flags = 0, ID = 1, Source = 4, Data = padded (le_bytes 7 @ [])\<rparr>)]" and
        m = "\<lparr>Number = MSG_RPC_RESPONSE, Flags = 0, ID = 2, Source = 3, Data = padded (le_bytes 7 @ [])\<rparr>",
        simplified list.size]) (simp_all add: plain_def in_i32_def)

text \<open>
  A call without a time limit does not wait without limit. With a negative timeout the first message is
  awaited for ever, but the loop then waits for the time that call returned, and \<open>ipcGetMessage\<close> returns
  0 when a message was already queued: after one unrelated queued message the next wait is a poll with
  timeout 0, and a poll that finds nothing ends the call with its error although the response may still
  come.
\<close>

lemma rpc_infinite_timeout_becomes_poll:
  assumes "timeout < 0" and "plain m" and "\<not> ok m" and "e < 0"
    and "answers w = (0, OMsg m) # (e, ONone) # rest"
  shows "rpc_wait ok expired timeout timeout w =
    (Inl e, w\<lparr>answers := rest, calls := calls w @ get_calls [timeout, 0]\<rparr>)"
  using assms
  by (subst rpc_wait.simps, subst rpc_wait.simps)
     (simp add: ipcGetMessage_def syscall_def ipcProcessMessage_plain get_calls_def Let_def)

section \<open>The first matching mode\<close>

lemma set_mode_loop_spec:
  assumes "length is = length ms" and "answers w = map (\<lambda>(r, mi). (r, OMode mi)) ms @ rest"
  shows "set_mode_loop display ok is w =
    (case List.find (\<lambda>(i, r, mi). 0 \<le> r \<and> ok mi) (zip is ms) of
       None \<Rightarrow> (- ENOENT, w\<lparr>answers := rest, calls := calls w @ map (\<lambda>i. (SYS_FB_GET_MODE_INFO, [AInt display, AInt i])) is\<rparr>)
     | Some (i, x) \<Rightarrow> vidSetMode display i
         (w\<lparr>answers := drop (length (takeWhile (\<lambda>(i, r, mi). \<not> (0 \<le> r \<and> ok mi)) (zip is ms)) + 1) (answers w),
            calls := calls w @ map (\<lambda>i. (SYS_FB_GET_MODE_INFO, [AInt display, AInt i]))
              (map fst (takeWhile (\<lambda>(i, r, mi). \<not> (0 \<le> r \<and> ok mi)) (zip is ms)) @ [i])\<rparr>))"
  using assms
proof (induction "is" ms arbitrary: w rule: list_induct2)
  case (Cons i "is" p ms)
  obtain r mi where p: "p = (r, mi)" by force
  let ?w = "w\<lparr>answers := map (\<lambda>(r, mi). (r, OMode mi)) ms @ rest,
              calls := calls w @ [(SYS_FB_GET_MODE_INFO, [AInt display, AInt i])]\<rparr>"
  have step: "vidGetModeInfo display i w = (r, OMode mi, ?w)"
    using Cons.prems p by (simp add: vidGetModeInfo_def syscall_def Let_def)
  show ?case
  proof (cases "0 \<le> r \<and> ok mi")
    case True
    then show ?thesis using Cons.prems p by (simp add: step)
  next
    case False
    then have "set_mode_loop display ok (i # is) w = set_mode_loop display ok is ?w" by (auto simp: step)
    with Cons.IH [of ?w] False Cons.prems p show ?thesis by (auto split: option.splits)
  qed
qed simp

text \<open>
  \<open>vidSetMode2\<close> sets the first mode, in the order of the driver's list, that can be queried and agrees
  with every requested attribute (a negative request means any), and sets no mode at all, returning
  \<open>- ENOENT\<close>, when none agrees.
\<close>

lemma video_mode_first_match:
  assumes "answers w = (int (length ms), ONone) # map (\<lambda>(r, mi). (r, OMode mi)) ms @ rest"
  shows "case List.find (\<lambda>(i, r, mi). 0 \<le> r \<and> mode_matches width height bpp refresh index mi)
           (zip [0..int (length ms) - 1] ms) of
      None \<Rightarrow> fst (vidSetMode2 display width height bpp refresh index w) = - ENOENT
        \<and> SYS_FB_SET_MODE \<notin> fst ` set (drop (length (calls w)) (calls (snd (vidSetMode2 display width height bpp refresh index w))))
    | Some (i, r, mi) \<Rightarrow>
        last (calls (snd (vidSetMode2 display width height bpp refresh index w))) = (SYS_FB_SET_MODE, [AInt display, AInt i])"
proof -
  let ?w = "w\<lparr>answers := map (\<lambda>(r, mi). (r, OMode mi)) ms @ rest, calls := calls w @ [(SYS_FB_GET_MODE_COUNT, [AInt display])]\<rparr>"
  have c: "vidGetModeCount display w = (int (length ms), ?w)"
    using assms by (simp add: vidGetModeCount_def sys_def syscall_def Let_def)
  have l: "length [0..int (length ms) - 1] = length ms" by simp
  show ?thesis
    unfolding vidSetMode2_def c prod.case
    by (subst set_mode_loop_spec [OF l, of ?w rest], simp)+
       (auto simp: vidSetMode_def sys_def syscall_def Let_def split: option.splits list.splits)
qed

definition demo_mode :: vidModeInfo where
  "demo_mode = \<lparr>miWidth = 640, miHeight = 480, miBitsPerPixel = 32, miRefreshRate = 60, miPitch = 2560, miFlags = 0,
     miAlphaBits = 0, miRedBits = 8, miGreenBits = 8, miBlueBits = 8, miAlphaShift = 0, miRedShift = 16,
     miGreenShift = 8, miBlueShift = 0\<rparr>"

end
