(* ===== verification/PixmapBlit.thy ===== *)
theory PixmapBlit
  imports Pixmap
begin

text \<open>
  \<open>pmBlit\<close> and \<open>pmAlphaBlit\<close> of \<open>user/libwoot/pixmap.c\<close>. The two loops of a slow blit run over row and
  column numbers counted from the corner they start in; the number of rounds is the smaller of the two
  distances that the loop conditions compare.
\<close>

section \<open>Model\<close>

(* src/user/libwoot/pixmap.c:793-819 pmBlit, moving the rectangle into both pixmaps *)
definition blit_shift :: "pmPixMap \<Rightarrow> int \<Rightarrow> int \<Rightarrow> int \<Rightarrow> int \<Rightarrow> int \<Rightarrow> int \<Rightarrow> int \<times> int \<times> int \<times> int \<times> int \<times> int" where
  "blit_shift src sx sy x y w h =
     (let (sx, w, x) = (if x < 0 then (i32 (sx - x), i32 (w + x), 0) else (sx, w, x));
          (sy, h, y) = (if y < 0 then (i32 (sy - y), i32 (h + y), 0) else (sy, h, y));
          (x, w, sx) = (if sx < 0 then (i32 (x - sx), i32 (w + sx), 0) else (x, w, sx));
          (y, h, sy) = (if sy < 0 then (i32 (y - sy), i32 (h + sy), 0) else (y, h, sy));
          w = (if w < 0 then rcWidth (Contents src) else w);
          h = (if h < 0 then rcHeight (Contents src) else h)
      in (sx, sy, x, y, w, h))"

(* src/user/libwoot/pixmap.c:821-830 pmBlit, the ends of the rectangle *)
definition blit_ends :: "pmPixMap \<Rightarrow> pmPixMap \<Rightarrow> int \<times> int \<times> int \<times> int \<times> int \<times> int \<Rightarrow> (int \<times> int \<times> int \<times> int) option" where
  "blit_ends dst src args =
     (case args of (sx, sy, x, y, w, h) \<Rightarrow>
        let D = Contents dst; S = Contents src in
        if x \<ge> rcWidth D \<or> y \<ge> rcHeight D then None
        else
          let x2 = min (rcWidth D) (i32 (x + w)); y2 = min (rcHeight D) (i32 (y + h)) in
          if x2 \<le> 0 \<or> y2 \<le> 0 \<or> sx \<ge> rcWidth S \<or> sy \<ge> rcHeight S then None
          else Some (x2, y2, min (rcWidth S) (i32 (sx + w)), min (rcHeight S) (i32 (sy + h))))"

definition pixel_ptr :: "pmPixMap \<Rightarrow> int \<Rightarrow> int \<Rightarrow> int" where
  "pixel_ptr pm x y = ua (int (Pixels pm) + y * int (Pitch pm) + int (pmFormatPixelsToBytes (Format pm) (nat x)))"

text \<open>A pair of nested loops: \<open>rows\<close> rounds of \<open>cols\<close> rounds of the body.\<close>

definition loop2 :: "int \<Rightarrow> int \<Rightarrow> (int \<Rightarrow> int \<Rightarrow> mem \<Rightarrow> mem) \<Rightarrow> mem \<Rightarrow> mem" where
  "loop2 rows cols body m = fold (\<lambda>j m. fold (\<lambda>i m. body i j m) [0..cols - 1] m) [0..rows - 1] m"

(* src/user/libwoot/pixmap.c:863-865 pmBlit, body of the 8 to 32 bit loops *)
definition blit8to32 :: "pmPixMap \<Rightarrow> pmPixMap \<Rightarrow> nat \<Rightarrow> int \<Rightarrow> int \<Rightarrow> mem \<Rightarrow> mem" where
  "blit8to32 dst src pal X Y m =
     (let f = Format dst;
          a = (if AlphaBits f \<noteq> 0 then 255 else 0 :: dword);
          srcPix = rd8 m (int (Pixels src) + int (Pitch src) * Y + X);
          col = rdColor m (int pal + 4 * uint srcPix)
      in wr32 m (int (Pixels dst) + int (Pitch dst) * Y + 4 * X)
           (shl32 (ucast (cR col)) (RedShift f) OR shl32 (ucast (cG col)) (GreenShift f)
              OR shl32 (ucast (cB col)) (BlueShift f) OR shl32 a (AlphaShift f)))"

(* src/user/libwoot/pixmap.c:852-877 pmBlit, forward loops *)
definition blit_forward :: "mem \<Rightarrow> pmPixMap \<Rightarrow> pmPixMap \<Rightarrow> int \<Rightarrow> int \<Rightarrow> int \<Rightarrow> int \<Rightarrow> int \<Rightarrow> int \<Rightarrow> int \<Rightarrow> int \<Rightarrow> mem" where
  "blit_forward m dst src sx sy x y x2 y2 sx2 sy2 =
     (let rows = min (y2 - y) (sy2 - sy); cols = min (x2 - x) (sx2 - sx) in
      case Palette src of
        Some pal \<Rightarrow>
          if BPP (Format src) = 8 \<and> BPP (Format dst) = 32
          then loop2 rows cols (\<lambda>i j. blit8to32 dst src pal (x + i) (y + j)) m
          else loop2 rows cols (\<lambda>i j m. pmSetPixel m dst (x + i) (y + j) (pmGetPixel m src (sx + i) (sy + j))) m
      | None \<Rightarrow> loop2 rows cols (\<lambda>i j m. pmSetPixel m dst (x + i) (y + j) (pmGetPixel m src (sx + i) (sy + j))) m)"

(* src/user/libwoot/pixmap.c:878-909 pmBlit, backward loops *)
definition blit_backward :: "mem \<Rightarrow> pmPixMap \<Rightarrow> pmPixMap \<Rightarrow> int \<Rightarrow> int \<Rightarrow> int \<Rightarrow> int \<Rightarrow> int \<Rightarrow> int \<Rightarrow> int \<Rightarrow> int \<Rightarrow> mem" where
  "blit_backward m dst src sx sy x y w h x2 y2 =
     (let sx2b = i32 (i32 (sx + w) + i32 (x2 - i32 (x + w)));
          sy2b = i32 (i32 (sy + h) + i32 (y2 - i32 (y + h)));
          rows = min (y2 - y) (sy2b - sy); cols = min (x2 - x) (sx2b - sx);
          slow = loop2 rows cols (\<lambda>i j m. pmSetPixel m dst (x2 - 1 - i) (y2 - 1 - j)
                   (pmGetPixel m src (sx2b - 1 - i) (sy2b - 1 - j))) m in
      case Palette src of
        Some pal \<Rightarrow>
          if BPP (Format src) = 8 \<and> BPP (Format dst) = 32
          then loop2 rows cols (\<lambda>i j. blit8to32 dst src pal (x2 - 1 - i) (y2 - 1 - j)) m
          else slow
      | None \<Rightarrow> slow)"

(* src/user/libwoot/pixmap.c:791-910 pmBlit *)
definition pmBlit :: "mem \<Rightarrow> pmPixMap \<Rightarrow> pmPixMap \<Rightarrow> int \<Rightarrow> int \<Rightarrow> int \<Rightarrow> int \<Rightarrow> int \<Rightarrow> int \<Rightarrow> mem" where
  "pmBlit m dst src sx0 sy0 x0 y0 w0 h0 =
     (let args = blit_shift src sx0 sy0 x0 y0 w0 h0 in
      case args of (sx, sy, x, y, w, h) \<Rightarrow>
      case blit_ends dst src args of None \<Rightarrow> m
      | Some (x2, y2, sx2, sy2) \<Rightarrow>
          let d = pixel_ptr dst x y; s = pixel_ptr src sx sy in
          if pmFormatEqual (Format dst) (Format src) \<and> BPP (Format dst) \<ge> 8 then
            let sw = sx2 - sx; sh = sy2 - sy; W = x2 - x; H = y2 - y in
            if W < 0 \<or> H < 0 then m
            else bltmove m d s (pmFormatPixelsToBytes (Format dst) (nat (min sw W))) (Pitch dst) (Pitch src) (nat (min sh H))
          else if s = d then m
          else if s > d then blit_forward m dst src sx sy x y x2 y2 sx2 sy2
          else blit_backward m dst src sx sy x y w h x2 y2)"

(* src/user/libwoot/pixmap.c:912-980 pmAlphaBlit *)
definition pmAlphaBlit :: "mem \<Rightarrow> pmPixMap \<Rightarrow> pmPixMap \<Rightarrow> int \<Rightarrow> int \<Rightarrow> int \<Rightarrow> int \<Rightarrow> int \<Rightarrow> int \<Rightarrow> mem" where
  "pmAlphaBlit m dst src sx0 sy0 x0 y0 w0 h0 =
     (if AlphaBits (Format src) = 0 then pmBlit m dst src sx0 sy0 x0 y0 w0 h0
      else
      let args = blit_shift src sx0 sy0 x0 y0 w0 h0;
          blend = (\<lambda>X Y sX sY m. pmSetPixel m dst X Y (pmBlendPixel (pmGetPixel m dst X Y) (pmGetPixel m src sX sY))) in
      case args of (sx, sy, x, y, w, h) \<Rightarrow>
      case blit_ends dst src args of None \<Rightarrow> m
      | Some (x2, y2, sx2, sy2) \<Rightarrow>
          let d = pixel_ptr dst x y; s = pixel_ptr src sx sy in
          if s = d then m
          else if s > d then
            loop2 (min (y2 - y) (sy2 - sy)) (min (x2 - x) (sx2 - sx))
              (\<lambda>i j. blend (x + i) (y + j) (sx + i) (sy + j)) m
          else
            let sx2b = i32 (i32 (sx + w) + i32 (x2 - i32 (x + w)));
                sy2b = i32 (i32 (sy + h) + i32 (y2 - i32 (y + h)))
            in loop2 (min (y2 - y) (sy2b - sy)) (min (x2 - x) (sx2b - sx))
                 (\<lambda>i j. blend (x2 - 1 - i) (y2 - 1 - j) (sx2b - 1 - i) (sy2b - 1 - j)) m)"

section \<open>Block moves\<close>

lemma memmove_in:
  assumes "0 \<le> d" "d + int n \<le> 2 ^ 32" "0 \<le> s" "s + int n \<le> 2 ^ 32" "0 \<le> a" "a < 2 ^ 32"
  shows "memmove m d s n a = (if d \<le> a \<and> a < d + int n then m (s + (a - d)) else m a)"
proof (cases "d \<le> a")
  case True
  with assms have "ua (a - d) = a - d" by simp
  with assms True show ?thesis by (auto simp: memmove_def rd8_def)
next
  case False
  with assms have "ua (a - d) = a - d + 2 ^ 32"
    unfolding ua_def by (subst mod_add_self2 [symmetric], subst mod_pos_pos_trivial) auto
  with assms False show ?thesis by (simp add: memmove_def)
qed

text \<open>Row \<open>i\<close> of a block of \<open>bpl\<close> bytes per line holds the address \<open>a\<close>.\<close>

definition in_row :: "int \<Rightarrow> nat \<Rightarrow> nat \<Rightarrow> int \<Rightarrow> int \<Rightarrow> bool" where
  "in_row d bpl stride i a \<longleftrightarrow> d + int stride * i \<le> a \<and> a < d + int stride * i + int bpl"

lemma in_row_unique:
  assumes "bpl \<le> ds" "in_row d bpl ds i a" "in_row d bpl ds j a"
  shows "i = j"
proof (rule ccontr)
  assume "i \<noteq> j"
  then consider "i + 1 \<le> j" | "j + 1 \<le> i" by linarith
  then show False
  proof cases
    case 1
    then have "int ds * (i + 1) \<le> int ds * j" by (intro mult_left_mono) auto
    with assms show False by (simp add: in_row_def algebra_simps)
  next
    case 2
    then have "int ds * (j + 1) \<le> int ds * i" by (intro mult_left_mono) auto
    with assms show False by (simp add: in_row_def algebra_simps)
  qed
qed

text \<open>
  Moving the rows of a block one after the other. A row that is moved later must not have been
  overwritten by then.
\<close>

definition move_rows :: "int \<Rightarrow> int \<Rightarrow> nat \<Rightarrow> nat \<Rightarrow> nat \<Rightarrow> int list \<Rightarrow> mem \<Rightarrow> mem" where
  "move_rows d s bpl ds ss rows m = fold (\<lambda>i m. memmove m (d + int ds * i) (s + int ss * i) bpl) rows m"

definition row_fits :: "int \<Rightarrow> nat \<Rightarrow> nat \<Rightarrow> int \<Rightarrow> bool" where
  "row_fits d bpl stride i \<longleftrightarrow> 0 \<le> d + int stride * i \<and> d + int stride * i + int bpl \<le> 2 ^ 32"

lemma move_rows_spec:
  assumes "bpl \<le> ds" "\<forall>i \<in> set rows. row_fits d bpl ds i \<and> row_fits s bpl ss i" "distinct rows"
    and "sorted_wrt (\<lambda>j i. \<forall>b. in_row d bpl ds j b \<longrightarrow> \<not> in_row s bpl ss i b) rows"
    and "0 \<le> a" "a < 2 ^ 32"
  shows "(\<forall>i \<in> set rows. in_row d bpl ds i a \<longrightarrow>
            move_rows d s bpl ds ss rows m a = m (s + int ss * i + (a - (d + int ds * i)))) \<and>
         ((\<forall>i \<in> set rows. \<not> in_row d bpl ds i a) \<longrightarrow> move_rows d s bpl ds ss rows m a = m a)"
  using assms
proof (induction rows arbitrary: m)
  case (Cons j rows)
  let ?m = "memmove m (d + int ds * j) (s + int ss * j) bpl"
  have fj: "row_fits d bpl ds j" "row_fits s bpl ss j" using Cons.prems by auto
  have mm: "?m b = (if in_row d bpl ds j b then m (s + int ss * j + (b - (d + int ds * j))) else m b)"
    if "0 \<le> b" "b < 2 ^ 32" for b
    using memmove_in [OF _ _ _ _ that] fj by (simp add: row_fits_def in_row_def)
  have IH: "(\<forall>i \<in> set rows. in_row d bpl ds i a \<longrightarrow>
            move_rows d s bpl ds ss rows ?m a = ?m (s + int ss * i + (a - (d + int ds * i)))) \<and>
         ((\<forall>i \<in> set rows. \<not> in_row d bpl ds i a) \<longrightarrow> move_rows d s bpl ds ss rows ?m a = ?m a)"
    using Cons.prems by (intro Cons.IH) auto
  have step: "move_rows d s bpl ds ss (j # rows) m = move_rows d s bpl ds ss rows ?m"
    by (simp add: move_rows_def)
  show ?case
  proof (cases "\<exists>i \<in> set rows. in_row d bpl ds i a")
    case True
    then obtain i where i: "i \<in> set rows" "in_row d bpl ds i a" by blast
    let ?b = "s + int ss * i + (a - (d + int ds * i))"
    have sr: "in_row s bpl ss i ?b" using i(2) by (simp add: in_row_def)
    with Cons.prems(4) i have "\<not> in_row d bpl ds j ?b" by auto
    moreover have "0 \<le> ?b" "?b < 2 ^ 32"
      using sr Cons.prems(2) i(1) by (auto simp: in_row_def row_fits_def)
    ultimately have "?m ?b = m ?b" by (simp only: mm if_False)
    with IH i have "move_rows d s bpl ds ss (j # rows) m a = m ?b" unfolding step by auto
    then have res: "move_rows d s bpl ds ss (j # rows) m a = m ?b" .
    show ?thesis
    proof (intro conjI ballI impI)
      fix i' assume "in_row d bpl ds i' a"
      then have "i' = i" using in_row_unique [OF Cons.prems(1) _ i(2)] by blast
      with res show "move_rows d s bpl ds ss (j # rows) m a = m (s + int ss * i' + (a - (d + int ds * i')))"
        by simp
    next
      assume "\<forall>i \<in> set (j # rows). \<not> in_row d bpl ds i a"
      with i show "move_rows d s bpl ds ss (j # rows) m a = m a" by simp
    qed
  next
    case False
    then have "move_rows d s bpl ds ss (j # rows) m a = ?m a" using IH unfolding step by blast
    with False mm [OF Cons.prems(5,6)] show ?thesis by auto
  qed
qed (simp add: move_rows_def)

lemma upto_Suc_shift: "[a + 1..b + 1] = map (\<lambda>i. i + 1) [a..b]"
  by (simp add: list_eq_iff_nth_eq)

lemma bltmove_fwd_rows: "bltmove_fwd m d s bpl ds ss n = move_rows d s bpl ds ss [0..int n - 1] m"
proof (induction n arbitrary: m d s)
  case (Suc n)
  have "[0..int (Suc n) - 1] = 0 # map (\<lambda>i. i + 1) [0..int n - 1]"
    using upto_Suc_shift [of 0 "int n - 1"] by (simp add: upto_rec1)
  then show ?case
    by (simp add: Suc move_rows_def fold_map o_def algebra_simps)
qed (simp add: move_rows_def)

lemma bltmove_bwd_rows: "bltmove_bwd m d s bpl ds ss n = move_rows d s bpl ds ss (rev [0..int n - 1]) m"
proof (induction n arbitrary: m)
  case (Suc n)
  have "[0..int (Suc n) - 1] = [0..int n - 1] @ [int n]" by (simp add: upto_rec2)
  then show ?case by (simp add: Suc move_rows_def)
qed (simp add: move_rows_def)

text \<open>Two blocks that can be moved onto each other: they share one buffer row structure, or nothing.\<close>

definition blocks_ok :: "int \<Rightarrow> int \<Rightarrow> nat \<Rightarrow> nat \<Rightarrow> nat \<Rightarrow> nat \<Rightarrow> bool" where
  "blocks_ok d s bpl ds ss n \<longleftrightarrow> ds = ss \<or>
     (\<forall>i \<in> {0..<int n}. \<forall>j \<in> {0..<int n}. \<forall>b. in_row d bpl ds j b \<longrightarrow> \<not> in_row s bpl ss i b)"

lemma same_stride_fwd:
  assumes "bpl \<le> ds" "d < s" "j < i"
  shows "in_row d bpl ds j b \<Longrightarrow> \<not> in_row s bpl ds i b"
proof -
  have "int ds * (j + 1) \<le> int ds * i" using assms by (intro mult_left_mono) auto
  then show "in_row d bpl ds j b \<Longrightarrow> \<not> in_row s bpl ds i b"
    using assms by (simp add: in_row_def algebra_simps)
qed

lemma same_stride_bwd:
  assumes "bpl \<le> ds" "s \<le> d" "i < j"
  shows "in_row d bpl ds j b \<Longrightarrow> \<not> in_row s bpl ds i b"
proof -
  have "int ds * (i + 1) \<le> int ds * j" using assms by (intro mult_left_mono) auto
  then show "in_row d bpl ds j b \<Longrightarrow> \<not> in_row s bpl ds i b"
    using assms by (simp add: in_row_def algebra_simps)
qed

lemma bltmove_spec:
  assumes "bpl \<le> ds" "\<forall>i \<in> {0..<int n}. row_fits d bpl ds i \<and> row_fits s bpl ss i"
    and "0 \<le> d" "d < 2 ^ 32" "0 \<le> s" "s < 2 ^ 32" "blocks_ok d s bpl ds ss n" "0 \<le> a" "a < 2 ^ 32"
  shows "(\<forall>i \<in> {0..<int n}. in_row d bpl ds i a \<longrightarrow>
            bltmove m d s bpl ds ss n a = m (s + int ss * i + (a - (d + int ds * i)))) \<and>
         ((\<forall>i \<in> {0..<int n}. \<not> in_row d bpl ds i a) \<longrightarrow> bltmove m d s bpl ds ss n a = m a)"
proof -
  have set: "set [0..int n - 1] = {0..<int n}" by auto
  let ?P = "\<lambda>j i. \<forall>b. in_row d bpl ds j b \<longrightarrow> \<not> in_row s bpl ss i b"
  have f: "sorted_wrt ?P [0..int n - 1]" if "d < s"
    using sorted_wrt_upto [of 0 "int n - 1"]
    by (rule sorted_wrt_mono_rel [rotated], unfold set)
       (use assms(1,7) that same_stride_fwd in \<open>fastforce simp: blocks_ok_def\<close>)
  have b: "sorted_wrt ?P (rev [0..int n - 1])" if "s \<le> d"
    unfolding sorted_wrt_rev using sorted_wrt_upto [of 0 "int n - 1"]
    by (rule sorted_wrt_mono_rel [rotated], unfold set)
       (use assms(1,7) that same_stride_bwd in \<open>fastforce simp: blocks_ok_def\<close>)
  show ?thesis
  proof (cases "d < s")
    case True
    then have "bltmove m d s bpl ds ss n = move_rows d s bpl ds ss [0..int n - 1] m"
      using assms by (simp add: bltmove_def bltmove_fwd_rows)
    then show ?thesis
      using move_rows_spec [OF assms(1) _ _ f [OF True] assms(8,9), of m] assms(2) unfolding set by simp
  next
    case False
    then have "bltmove m d s bpl ds ss n = move_rows d s bpl ds ss (rev [0..int n - 1]) m"
      using assms by (simp add: bltmove_def bltmove_bwd_rows)
    then show ?thesis
      using move_rows_spec [OF assms(1) _ _ b assms(8,9), of m] False assms(2) unfolding set_rev set by simp
  qed
qed

section \<open>Copying between pixmaps of one format\<close>

text \<open>
  The formats of 16, 24 and 32 bits. The fast path of \<open>pmBlit\<close> (\<open>pixmap.c:836\<close>) is also taken for 8 bits, where it copies
  indices between palettes that may differ, and for 15 bits, where \<open>pmFormatPixelsToBytes\<close> gives fewer bytes than the
  pixels take; these are left out.
\<close>

definition blit_ready :: "pmPixMap \<Rightarrow> bool" where
  "blit_ready pm \<longleftrightarrow> pm_ok pm \<and> BPP (Format pm) \<noteq> 15 \<and> rcWidth (Contents pm) < 2 ^ 26"

lemma pixels_to_bytes:
  assumes "blit_ready pm" "0 \<le> x" "x \<le> rcWidth (Contents pm)"
  shows "int (pmFormatPixelsToBytes (Format pm) (nat x)) = x * int (pbytes (Format pm))"
proof -
  let ?b = "pbytes (Format pm)"
  have bpp: "BPP (Format pm) = 8 * ?b" "?b \<le> 4"
    using assms(1) by (auto simp: blit_ready_def pm_ok_def fmt_ok_def pbytes_def)
  have "nat x * ?b \<le> 2 ^ 26 * 4"
    using assms bpp(2) by (intro mult_mono) (auto simp: blit_ready_def)
  then have "nat x * (8 * ?b) + 7 < 2 ^ 32" by (simp add: mult.left_commute)
  then show ?thesis
    using assms(2) unfolding pmFormatPixelsToBytes_def pmFormatPixelsToBytesP_def bpp(1)
    by (simp add: wrap_simps mult.left_commute [of _ 8] div_mult_self4 [of 8])
qed

lemma pixel_ptr_cell:
  assumes "blit_ready pm" "pm_in pm x y"
  shows "pixel_ptr pm x y = pix_cell pm x y"
proof -
  have "pm_ok pm" using assms(1) by (simp add: blit_ready_def)
  note r = pix_cell_range [OF this assms(2)]
  have "int (pmFormatPixelsToBytes (Format pm) (nat x)) = x * int (pbytes (Format pm))"
    using assms by (intro pixels_to_bytes) (auto simp: pm_in_def)
  with r show ?thesis
    unfolding pixel_ptr_def by (simp add: pix_cell_def pix_addr_def mult.commute)
qed

text \<open>The rectangle lies inside the pixmap.\<close>

definition rect_in :: "pmPixMap \<Rightarrow> int \<Rightarrow> int \<Rightarrow> int \<Rightarrow> int \<Rightarrow> bool" where
  "rect_in pm x y w h \<longleftrightarrow> 0 \<le> x \<and> 0 \<le> y \<and> 0 < w \<and> 0 < h \<and>
     x + w \<le> rcWidth (Contents pm) \<and> y + h \<le> rcHeight (Contents pm)"

lemma pmBlit_bltmove:
  assumes "blit_ready dst" "blit_ready src" "Format dst = Format src"
    and "rect_in src sx sy w h" "rect_in dst x y w h"
  shows "pmBlit m dst src sx sy x y w h =
    bltmove m (pix_cell dst x y) (pix_cell src sx sy) (nat w * pbytes (Format dst)) (Pitch dst) (Pitch src) (nat h)"
proof -
  have lt: "x + w < 2 ^ 31" "y + h < 2 ^ 31" "sx + w < 2 ^ 31" "sy + h < 2 ^ 31"
    using assms by (auto simp: rect_in_def blit_ready_def pm_ok_def)
  then have i: "i32 (x + w) = x + w" "i32 (y + h) = y + h" "i32 (sx + w) = sx + w" "i32 (sy + h) = sy + h"
    using assms(4,5) by (auto simp: rect_in_def i32_small in_i32_def)
  have sh: "blit_shift src sx sy x y w h = (sx, sy, x, y, w, h)"
    using assms(4,5) by (simp add: blit_shift_def rect_in_def)
  have en: "blit_ends dst src (sx, sy, x, y, w, h) = Some (x + w, y + h, sx + w, sy + h)"
    using assms(4,5) i by (auto simp: blit_ends_def rect_in_def Let_def)
  have p: "pixel_ptr dst x y = pix_cell dst x y" "pixel_ptr src sx sy = pix_cell src sx sy"
    using assms by (auto intro!: pixel_ptr_cell simp: rect_in_def pm_in_def)
  have "int (pmFormatPixelsToBytes (Format dst) (nat w)) = w * int (pbytes (Format dst))"
    using assms by (intro pixels_to_bytes) (auto simp: rect_in_def)
  also have "\<dots> = int (nat w * pbytes (Format dst))" using assms(4) by (simp add: rect_in_def)
  finally have b: "pmFormatPixelsToBytes (Format dst) (nat w) = nat w * pbytes (Format dst)"
    by (simp only: of_nat_eq_iff)
  have "BPP (Format dst) \<ge> 8" using assms(1) by (auto simp: blit_ready_def pm_ok_def fmt_ok_def)
  then show ?thesis
    using assms(3-5) unfolding pmBlit_def Let_def sh
    by (simp add: en p pmFormatEqual_def pmFormatEqualP_def rect_in_def b [unfolded assms(3)])
qed

lemma peek_shift: "(\<And>k. k < b \<Longrightarrow> m (a + int k) = m' (a' + int k)) \<Longrightarrow> peek m a b = peek m' a' b"
proof (induction b arbitrary: a a')
  case (Suc b)
  have "peek m (a + 1) b = peek m' (a' + 1) b"
    using Suc.prems [of "Suc k" for k] by (intro Suc.IH) (simp add: add.assoc)
  with Suc.prems [of 0] show ?case by simp
qed simp

text \<open>The rows of a rectangle, as rows of a block and as rows of the whole buffer.\<close>

lemma rect_row:
  assumes "pm_ok pm" "rect_in pm x y w h" "0 \<le> i" "i < h"
    and "in_row (pix_cell pm x y) (nat w * pbytes (Format pm)) (Pitch pm) i a"
  shows "in_row (int (Pixels pm)) (Pitch pm) (Pitch pm) (y + i) a"
    and "pix_cell pm x (y + i) \<le> a" and "a < pix_cell pm (x + w) (y + i)"
proof -
  let ?b = "int (pbytes (Format pm))"
  have "(x + w) * ?b \<le> rcWidth (Contents pm) * ?b"
    using assms(2) by (intro mult_right_mono) (auto simp: rect_in_def)
  with assms(1) have W: "(x + w) * ?b \<le> int (Pitch pm)" by (simp add: pm_ok_def)
  have x: "0 \<le> x * ?b" using assms(2) by (simp add: rect_in_def)
  have w: "0 < w" using assms(2) by (simp add: rect_in_def)
  from assms(5) w show lo: "pix_cell pm x (y + i) \<le> a" and hi: "a < pix_cell pm (x + w) (y + i)"
    by (simp_all add: in_row_def pix_cell_def pix_addr_def algebra_simps)
  from lo hi W x show "in_row (int (Pixels pm)) (Pitch pm) (Pitch pm) (y + i) a"
    by (simp add: in_row_def pix_cell_def pix_addr_def algebra_simps)
qed

lemma rect_row_fits:
  assumes "pm_ok pm" "rect_in pm x y w h" "0 \<le> i" "i < h"
  shows "row_fits (pix_cell pm x y) (nat w * pbytes (Format pm)) (Pitch pm) i"
proof -
  have in1: "pm_in pm x (y + i)" and in2: "pm_in pm (x + w - 1) (y + i)"
    using assms by (auto simp: rect_in_def pm_in_def)
  have "0 < w" using assms(2) by (simp add: rect_in_def)
  then show ?thesis
    using pix_cell_range(1) [OF assms(1) in1] pix_cell_range(2) [OF assms(1) in2]
    by (simp add: row_fits_def pix_cell_def pix_addr_def algebra_simps)
qed

lemma rect_bpl_le_pitch:
  assumes "pm_ok pm" "rect_in pm x y w h"
  shows "nat w * pbytes (Format pm) \<le> Pitch pm"
proof -
  have "w * int (pbytes (Format pm)) \<le> rcWidth (Contents pm) * int (pbytes (Format pm))"
    using assms(2) by (intro mult_right_mono) (auto simp: rect_in_def)
  then have "int (nat w * pbytes (Format pm)) \<le> int (Pitch pm)"
    using assms by (simp add: pm_ok_def rect_in_def)
  then show ?thesis by (simp only: of_nat_le_iff)
qed

text \<open>The buffers of two pixmaps have no byte in common.\<close>

definition buffers_disjoint :: "pmPixMap \<Rightarrow> pmPixMap \<Rightarrow> bool" where
  "buffers_disjoint p q \<longleftrightarrow>
     int (Pixels p) + int (Pitch p) * rcHeight (Contents p) \<le> int (Pixels q) \<or>
     int (Pixels q) + int (Pitch q) * rcHeight (Contents q) \<le> int (Pixels p)"

lemma buffer_row_range:
  assumes "in_row (int (Pixels pm)) (Pitch pm) (Pitch pm) i a" "0 \<le> i" "i < rcHeight (Contents pm)"
  shows "int (Pixels pm) \<le> a" and "a < int (Pixels pm) + int (Pitch pm) * rcHeight (Contents pm)"
proof -
  have "int (Pitch pm) * (i + 1) \<le> int (Pitch pm) * rcHeight (Contents pm)"
    using assms by (intro mult_left_mono) auto
  with assms show "a < int (Pixels pm) + int (Pitch pm) * rcHeight (Contents pm)"
    by (simp add: in_row_def algebra_simps)
  have "0 \<le> int (Pitch pm) * i" using assms by simp
  with assms(1) show "int (Pixels pm) \<le> a" unfolding in_row_def by linarith
qed

lemma rect_blocks_ok:
  assumes "pm_ok dst" "pm_ok src" "rect_in src sx sy w h" "rect_in dst x y w h" "Format dst = Format src"
    and "Pitch dst = Pitch src \<or> buffers_disjoint dst src"
  shows "blocks_ok (pix_cell dst x y) (pix_cell src sx sy) (nat w * pbytes (Format dst)) (Pitch dst) (Pitch src) (nat h)"
proof (cases "Pitch dst = Pitch src")
  case False
  have "\<not> in_row (pix_cell src sx sy) (nat w * pbytes (Format dst)) (Pitch src) i b"
    if i: "0 \<le> i" "i < h" "0 \<le> j" "j < h"
      and r: "in_row (pix_cell dst x y) (nat w * pbytes (Format dst)) (Pitch dst) j b" for i j b
  proof
    assume s: "in_row (pix_cell src sx sy) (nat w * pbytes (Format dst)) (Pitch src) i b"
    note D = buffer_row_range [OF rect_row(1) [OF assms(1,4) i(3,4) r]]
      and S = buffer_row_range [OF rect_row(1) [OF assms(2,3) i(1,2) s [unfolded assms(5)]]]
    show False
      using D S False assms(3,4,6) i unfolding buffers_disjoint_def rect_in_def by linarith
  qed
  then show ?thesis by (auto simp: blocks_ok_def)
qed (simp add: blocks_ok_def)

lemma pmBlit_byte:
  assumes "blit_ready dst" "blit_ready src" "Format dst = Format src"
    and "rect_in src sx sy w h" "rect_in dst x y w h"
    and "Pitch dst = Pitch src \<or> buffers_disjoint dst src"
    and "pm_in dst X Y" "0 \<le> k" "k < int (pbytes (Format dst))"
  shows "pmBlit m dst src sx sy x y w h (pix_cell dst X Y + k) =
    (if x \<le> X \<and> X < x + w \<and> y \<le> Y \<and> Y < y + h then m (pix_cell src (sx + (X - x)) (sy + (Y - y)) + k)
     else m (pix_cell dst X Y + k))"
proof -
  let ?b = "pbytes (Format dst)" and ?a = "pix_cell dst X Y + k"
  let ?d = "pix_cell dst x y" and ?s = "pix_cell src sx sy" and ?bpl = "nat w * pbytes (Format dst)"
  have ok: "pm_ok dst" "pm_ok src" using assms by (auto simp: blit_ready_def)
  have xy: "pm_in dst x y" "pm_in src sx sy" using assms(4,5) by (auto simp: rect_in_def pm_in_def)
  note rd = pix_cell_range [OF ok(1) xy(1)] and rs = pix_cell_range [OF ok(2) xy(2)]
    and ra = pix_cell_range [OF ok(1) assms(7)] and wh = assms(5) [unfolded rect_in_def]
  have w: "0 < w" "0 < h" using wh by auto
  have spec: "(\<forall>i \<in> {0..<int (nat h)}. in_row ?d ?bpl (Pitch dst) i ?a \<longrightarrow>
        pmBlit m dst src sx sy x y w h ?a = m (?s + int (Pitch src) * i + (?a - (?d + int (Pitch dst) * i)))) \<and>
      ((\<forall>i \<in> {0..<int (nat h)}. \<not> in_row ?d ?bpl (Pitch dst) i ?a) \<longrightarrow> pmBlit m dst src sx sy x y w h ?a = m ?a)"
    unfolding pmBlit_bltmove [OF assms(1-5)]
    by (rule bltmove_spec)
       (use rect_bpl_le_pitch [OF ok(1) assms(5)] rect_row_fits [OF ok(1) assms(5)] rect_row_fits [OF ok(2) assms(4)]
          rect_blocks_ok [OF ok assms(4,5,3,6)] rd rs ra assms(3,8,9) w in auto)
  show ?thesis
  proof (cases "x \<le> X \<and> X < x + w \<and> y \<le> Y \<and> Y < y + h")
    case True
    have "(X - x + 1) * int ?b \<le> w * int ?b" using True by (intro mult_right_mono) auto
    moreover have "0 \<le> (X - x) * int ?b" using True by (intro mult_nonneg_nonneg) auto
    moreover have "int ?bpl = w * int ?b" using w by simp
    moreover have "?a = ?d + int (Pitch dst) * (Y - y) + (X - x) * int ?b + k"
      by (simp add: pix_cell_def pix_addr_def algebra_simps)
    ultimately have "in_row ?d ?bpl (Pitch dst) (Y - y) ?a"
      using assms(8,9) unfolding in_row_def distrib_right by linarith
    then have "pmBlit m dst src sx sy x y w h ?a =
        m (?s + int (Pitch src) * (Y - y) + (?a - (?d + int (Pitch dst) * (Y - y))))"
      using spec True by auto
    also have "?s + int (Pitch src) * (Y - y) + (?a - (?d + int (Pitch dst) * (Y - y))) =
        pix_cell src (sx + (X - x)) (sy + (Y - y)) + k"
      by (simp add: pix_cell_def pix_addr_def assms(3) algebra_simps)
    finally show ?thesis using True by simp
  next
    case False
    have "\<not> in_row ?d ?bpl (Pitch dst) i ?a" if i: "0 \<le> i" "i < h" for i
    proof
      assume r: "in_row ?d ?bpl (Pitch dst) i ?a"
      note R = rect_row [OF ok(1) assms(5) i r]
      have "in_row (int (Pixels dst)) (Pitch dst) (Pitch dst) Y ?a"
        using pix_cell_bounds(2) [OF ok(1) assms(7)] assms(7-9)
        by (simp add: in_row_def pix_cell_def pix_addr_def pm_in_def algebra_simps)
      from in_row_unique [OF _ this R(1)] have Y: "Y = y + i" by simp
      have "\<not> X < x" using pix_cell_col_less [of X x dst Y] R(2) Y assms(9) by auto
      moreover have "\<not> x + w \<le> X"
        using pix_cell_col_less [of "x + w" X dst Y] R(3) Y assms(8) by (cases "x + w = X") auto
      ultimately show False using False Y i by auto
    qed
    then have "pmBlit m dst src sx sy x y w h ?a = m ?a" using spec by auto
    then show ?thesis using False by (simp only: if_False)
  qed
qed

lemma pmBlit_elsewhere:
  assumes "blit_ready dst" "blit_ready src" "Format dst = Format src"
    and "rect_in src sx sy w h" "rect_in dst x y w h"
    and "Pitch dst = Pitch src \<or> buffers_disjoint dst src"
    and "0 \<le> a" "a < 2 ^ 32" "\<not> (int (Pixels dst) \<le> a \<and> a < int (Pixels dst) + int (Pitch dst) * rcHeight (Contents dst))"
  shows "pmBlit m dst src sx sy x y w h a = m a"
proof -
  let ?d = "pix_cell dst x y" and ?s = "pix_cell src sx sy" and ?bpl = "nat w * pbytes (Format dst)"
  have ok: "pm_ok dst" "pm_ok src" using assms by (auto simp: blit_ready_def)
  have xy: "pm_in dst x y" "pm_in src sx sy" using assms(4,5) by (auto simp: rect_in_def pm_in_def)
  have wh: "0 < w" "0 < h" "0 \<le> y" "y + h \<le> rcHeight (Contents dst)" using assms(5) by (auto simp: rect_in_def)
  have "\<not> in_row ?d ?bpl (Pitch dst) i a" if i: "0 \<le> i" "i < h" for i
    using buffer_row_range [OF rect_row(1) [OF ok(1) assms(5) i]] wh i assms(9) by force
  moreover have "(\<forall>i \<in> {0..<int (nat h)}. \<not> in_row ?d ?bpl (Pitch dst) i a) \<longrightarrow>
      bltmove m ?d ?s ?bpl (Pitch dst) (Pitch src) (nat h) a = m a"
    by (rule bltmove_spec [THEN conjunct2])
       (use rect_bpl_le_pitch [OF ok(1) assms(5)] rect_row_fits [OF ok(1) assms(5)] rect_row_fits [OF ok(2) assms(4)]
          rect_blocks_ok [OF ok assms(4,5,3,6)] pix_cell_range [OF ok(1) xy(1)] pix_cell_range [OF ok(2) xy(2)] assms(3,7,8) wh in auto)
  ultimately show ?thesis unfolding pmBlit_bltmove [OF assms(1-5)] using wh by auto
qed

lemma blit_get:
  assumes "blit_ready dst" "blit_ready src" "Format dst = Format src"
    and "rect_in src sx sy w h" "rect_in dst x y w h"
    and "Pitch dst = Pitch src \<or> buffers_disjoint dst src"
    and "pm_in dst X Y"
  shows "pmGetPixel (pmBlit m dst src sx sy x y w h) dst X Y =
    (if x \<le> X \<and> X < x + w \<and> y \<le> Y \<and> Y < y + h then pmGetPixel m src (sx + (X - x)) (sy + (Y - y))
     else pmGetPixel m dst X Y)"
proof -
  have ok: "pm_ok dst" "pm_ok src" using assms by (auto simp: blit_ready_def)
  note byte = pmBlit_byte [OF assms, of "int k" m for k]
  show ?thesis
  proof (cases "x \<le> X \<and> X < x + w \<and> y \<le> Y \<and> Y < y + h")
    case True
    then have "pm_in src (sx + (X - x)) (sy + (Y - y))" using assms(4) by (auto simp: rect_in_def pm_in_def)
    moreover have "peek (pmBlit m dst src sx sy x y w h) (pix_cell dst X Y) (pbytes (Format dst)) =
        peek m (pix_cell src (sx + (X - x)) (sy + (Y - y))) (pbytes (Format dst))"
      using byte True by (intro peek_shift) simp
    ultimately show ?thesis using True ok assms(3,7) by (simp add: pmGetPixel_peek)
  next
    case False
    then have "peek (pmBlit m dst src sx sy x y w h) (pix_cell dst X Y) (pbytes (Format dst)) =
        peek m (pix_cell dst X Y) (pbytes (Format dst))"
      using byte by (intro peek_shift) (auto split: if_splits)
    then show ?thesis using False ok assms(7) by (simp only: pmGetPixel_peek if_False)
  qed
qed

text \<open>A blit leaves every pixmap alone whose buffer is apart from the destination's.\<close>

lemma blit_other:
  assumes "blit_ready dst" "blit_ready src" "Format dst = Format src"
    and "rect_in src sx sy w h" "rect_in dst x y w h"
    and "Pitch dst = Pitch src \<or> buffers_disjoint dst src"
    and "pm_ok q" "buffers_disjoint dst q" "pm_in q X Y"
  shows "pmGetPixel (pmBlit m dst src sx sy x y w h) q X Y = pmGetPixel m q X Y"
proof -
  have "pmBlit m dst src sx sy x y w h (pix_cell q X Y + int k) = m (pix_cell q X Y + int k)" if "k < pbytes (Format q)" for k
  proof (rule pmBlit_elsewhere [OF assms(1-6)])
    note R = pix_cell_range [OF assms(7,9)]
    show "0 \<le> pix_cell q X Y + int k" "pix_cell q X Y + int k < 2 ^ 32" using R that by auto
    have "in_row (int (Pixels q)) (Pitch q) (Pitch q) Y (pix_cell q X Y + int k)"
      using pix_cell_bounds(2) [OF assms(7,9)] that assms(9)
      by (simp add: in_row_def pix_cell_def pix_addr_def pm_in_def algebra_simps)
    from buffer_row_range [OF this] assms(8,9)
    show "\<not> (int (Pixels dst) \<le> pix_cell q X Y + int k \<and> pix_cell q X Y + int k < int (Pixels dst) + int (Pitch dst) * rcHeight (Contents dst))"
      by (auto simp: buffers_disjoint_def pm_in_def)
  qed
  then have "peek (pmBlit m dst src sx sy x y w h) (pix_cell q X Y) (pbytes (Format q)) = peek m (pix_cell q X Y) (pbytes (Format q))"
    by (intro peek_shift) simp
  then show ?thesis using assms(7,9) by (simp only: pmGetPixel_peek)
qed

text \<open>C22.
  Between pixmaps of one 16, 24 or 32-bit format, for rectangles that lie inside both pixmaps, and when
  the two have the same pitch or separate buffers, \<open>pmBlit\<close> is an exact rectangle copy: every pixel of the target
  rectangle shows the colour its source pixel had before the call and every other pixel of the
  destination keeps its colour. This includes overlapping rectangles of one buffer (scrolling in any
  direction), where the row order and the \<open>memmove\<close> per row have to agree; sub-pixmaps that share
  their parent's rows are covered by the equal-pitch case. (8-bit pixmaps, whose palettes may differ, and 15-bit ones,
  where the byte counts are wrong, are excluded; rectangles that reach outside a pixmap too.)
\<close>

theorem blit_copies_rectangle:
  assumes "blit_ready dst" "blit_ready src" "Format dst = Format src"
    and "rect_in src sx sy w h" "rect_in dst x y w h"
    and "Pitch dst = Pitch src \<or> buffers_disjoint dst src"
    and "pm_in dst X Y"
  shows "pmGetPixel (pmBlit m dst src sx sy x y w h) dst X Y =
    (if x \<le> X \<and> X < x + w \<and> y \<le> Y \<and> Y < y + h then pmGetPixel m src (sx + (X - x)) (sy + (Y - y))
     else pmGetPixel m dst X Y)"
  using assms by (rule blit_get)

theorem blit_copies_rectangle_witness:
  "pmGetPixel (pmBlit (\<lambda>a. of_int a) demo_pm demo_pm 0 0 1 1 3 2) demo_pm 2 2 = pmGetPixel (\<lambda>a. of_int a) demo_pm 1 1"
proof -
  have "blit_ready demo_pm" using demo_pm_ok by (simp add: blit_ready_def demo_pm_def pmFormatA8R8G8B8_def)
  moreover have "rect_in demo_pm 0 0 3 2" "rect_in demo_pm 1 1 3 2" "pm_in demo_pm 2 2"
    by (simp_all add: rect_in_def pm_in_def demo_pm_def)
  ultimately show ?thesis
    using blit_copies_rectangle [of demo_pm demo_pm 0 0 3 2 1 1 2 2 "\<lambda>a. of_int a"] by simp
qed

section \<open>The 8 to 32 bit fast path\<close>

lemma pmBlit_8to32_one:
  assumes "BPP (Format src) = 8" "BPP (Format dst) = 32" "Palette src = Some pal"
    and "rect_in src sx sy 1 1" "rect_in dst x y 1 1"
    and "rcWidth (Contents src) < 2 ^ 31" "rcHeight (Contents src) < 2 ^ 31"
    and "rcWidth (Contents dst) < 2 ^ 31" "rcHeight (Contents dst) < 2 ^ 31"
    and "pixel_ptr dst x y \<noteq> pixel_ptr src sx sy"
  shows "pmBlit m dst src sx sy x y 1 1 = blit8to32 dst src pal x y m"
proof -
  have i: "i32 (x + 1) = x + 1" "i32 (y + 1) = y + 1" "i32 (sx + 1) = sx + 1" "i32 (sy + 1) = sy + 1"
    using assms(4-9) by (auto simp: rect_in_def i32_small in_i32_def)
  have sh: "blit_shift src sx sy x y 1 1 = (sx, sy, x, y, 1, 1)"
    using assms(4,5) by (simp add: blit_shift_def rect_in_def)
  have en: "blit_ends dst src (sx, sy, x, y, 1, 1) = Some (x + 1, y + 1, sx + 1, sy + 1)"
    using assms(4,5) i by (auto simp: blit_ends_def rect_in_def Let_def)
  have "\<not> pmFormatEqual (Format dst) (Format src)"
    using assms(1,2) by (simp add: pmFormatEqual_def pmFormatEqualP_def)
  moreover have "blit_forward m dst src sx sy x y (x + 1) (y + 1) (sx + 1) (sy + 1) = blit8to32 dst src pal x y m"
    by (simp add: blit_forward_def assms(1-3) loop2_def)
  moreover have "blit_backward m dst src sx sy x y 1 1 (x + 1) (y + 1) = blit8to32 dst src pal x y m"
    by (simp add: blit_backward_def assms(1-3) loop2_def i i32_small in_i32_def)
  ultimately show ?thesis
    using assms(10) unfolding pmBlit_def Let_def sh by (simp add: en)
qed

text \<open>
  The fast path of \<open>pmBlit\<close> from a palettised to a 32-bit pixmap ignores the source position: it indexes
  the source with the destination coordinates, so blitting one pixel from any two places of the source
  to the same target gives the same memory, the colour found in the source at the target's
  coordinates.
\<close>

lemma blit_8to32_ignores_source_position:
  assumes "BPP (Format src) = 8" "BPP (Format dst) = 32" "Palette src = Some pal"
    and "rect_in src sx sy 1 1" "rect_in src sx' sy' 1 1" "rect_in dst x y 1 1"
    and "rcWidth (Contents src) < 2 ^ 31" "rcHeight (Contents src) < 2 ^ 31"
    and "rcWidth (Contents dst) < 2 ^ 31" "rcHeight (Contents dst) < 2 ^ 31"
    and "pixel_ptr dst x y \<noteq> pixel_ptr src sx sy" "pixel_ptr dst x y \<noteq> pixel_ptr src sx' sy'"
  shows "pmBlit m dst src sx sy x y 1 1 = pmBlit m dst src sx' sy' x y 1 1
    \<and> pmBlit m dst src sx sy x y 1 1 = blit8to32 dst src pal x y m"
  using pmBlit_8to32_one [OF assms(1-3,4,6-10,11)] pmBlit_8to32_one [OF assms(1-3,5,6-10,12)] by simp

definition demo_pal_pm :: pmPixMap where
  "demo_pal_pm = demo_pm\<lparr>Format := pmFormatInvalid\<lparr>BPP := 8\<rparr>, Palette := Some 0x3000, Pixels := 0x2000\<rparr>"

end
