(* ===== verification/PixmapObj.thy ===== *)
theory PixmapObj
  imports PixmapBlit
begin

text \<open>
  The object side of \<open>user/libwoot/pixmap.c\<close>: creation, deletion, sub-pixmaps, dirty rectangles and the
  file loaders. A heap has the pixmap objects by address, the blocks that are allocated, and the answers
  that \<open>malloc\<close> and \<open>calloc\<close> will give, in order (\<open>None\<close> is a null pointer). A result of \<open>None\<close> is a
  null-pointer dereference.
\<close>

section \<open>The heap\<close>

record pmHeap =
  hmem :: mem
  hpms :: "nat \<rightharpoonup> pmPixMap"
  hlive :: "nat set"
  hans :: "nat option list"
  hfiles :: nat

definition malloc :: "pmHeap \<Rightarrow> nat option \<times> pmHeap" where
  "malloc h =
     (case hans h of
        Some p # as \<Rightarrow> (Some p, h\<lparr>hans := as, hlive := insert p (hlive h)\<rparr>)
      | None # as \<Rightarrow> (None, h\<lparr>hans := as\<rparr>)
      | [] \<Rightarrow> (None, h))"

definition calloc :: "nat \<Rightarrow> pmHeap \<Rightarrow> nat option \<times> pmHeap" where
  "calloc n h =
     (case malloc h of
        (Some p, h') \<Rightarrow> (Some p, h'\<lparr>hmem := (\<lambda>a. if ua (a - int p) < int n then 0 else hmem h' a)\<rparr>)
      | (None, h') \<Rightarrow> (None, h'))"

definition free :: "nat \<Rightarrow> pmHeap \<Rightarrow> pmHeap" where
  "free p h = h\<lparr>hlive := hlive h - {p}\<rparr>"

definition fopen :: "pmHeap \<Rightarrow> pmHeap" where
  "fopen h = h\<lparr>hfiles := hfiles h + 1\<rparr>"

definition fclose :: "pmHeap \<Rightarrow> pmHeap" where
  "fclose h = h\<lparr>hfiles := hfiles h - 1\<rparr>"

section \<open>Palettes and pixmaps\<close>

(* src/user/libwoot/pixmap.c:274-278 pmPaletteCreate, loop *)
definition palette_fill :: "nat \<Rightarrow> int \<Rightarrow> mem \<Rightarrow> mem" where
  "palette_fill nColors p m =
     fold (\<lambda>i m. let gray = of_int (mapValue 0 (int nColors) 0 255 (int i))
                 in wrColor m (p + 4 * int i) (pmColorFromRGB gray gray gray)) [0..<nColors] m"

(* src/user/libwoot/pixmap.c:269-280 pmPaletteCreate *)
definition pmPaletteCreate :: "pmPixelFormat \<Rightarrow> pmHeap \<Rightarrow> (nat option \<times> pmHeap) option" where
  "pmPaletteCreate format h =
     (if BPP format > 8 then Some (None, h)
      else case malloc h of
             (None, h) \<Rightarrow> None
           | (Some p, h) \<Rightarrow> Some (Some p, h\<lparr>hmem := palette_fill (2 ^ BPP format) (int p) (hmem h)\<rparr>))"

(* src/user/libwoot/pixmap.c:282-285 pmPaletteDelete *)
definition pmPaletteDelete :: "nat option \<Rightarrow> pmHeap \<Rightarrow> pmHeap" where
  "pmPaletteDelete palette h = (case palette of None \<Rightarrow> h | Some p \<Rightarrow> free p h)"

(* src/user/libwoot/pixmap.c:316-324 pmDelete *)
definition pmDelete :: "nat option \<Rightarrow> pmHeap \<Rightarrow> pmHeap option" where
  "pmDelete pixMap h =
     (case pixMap of None \<Rightarrow> Some h
      | Some a \<Rightarrow>
          (case hpms h a of None \<Rightarrow> None
           | Some pm \<Rightarrow>
               let h = (if ReleasePixels pm \<noteq> 0 \<and> Pixels pm \<noteq> 0 then free (Pixels pm) h else h);
                   h = pmPaletteDelete (Palette pm) h
               in Some (free a (h\<lparr>hpms := (hpms h)(a := None)\<rparr>))))"

definition pm_zero :: pmPixMap where
  "pm_zero = \<lparr>Parent = None, Contents = rcRectangleEmpty, Dirty = rcRectangleEmpty, Pitch = 0,
     Format = pmFormatInvalid, Palette = None, ReleasePixels = 0, Pixels = 0\<rparr>"

text \<open>The part that \<open>pmCreate\<close> and \<open>pmFromMemory\<close> share: the object, and a palette for 8 bits or less.\<close>

(* src/user/libwoot/pixmap.c:291-305 pmCreate, object and palette *)
definition pm_object :: "int \<Rightarrow> int \<Rightarrow> nat \<Rightarrow> pmPixelFormat \<Rightarrow> pmHeap \<Rightarrow> ((nat \<times> pmPixMap) option \<times> pmHeap) option" where
  "pm_object width height pitch format h =
     (case malloc h of
        (None, h) \<Rightarrow> Some (None, h)
      | (Some a, h) \<Rightarrow>
          let pm = pm_zero\<lparr>Contents := \<lparr>rcX = 0, rcY = 0, rcWidth = width, rcHeight = height\<rparr>,
                           Pitch := pitch, Format := format\<rparr>
          in if BPP format \<le> 8 then
               (case pmPaletteCreate format h of
                  None \<Rightarrow> None
                | Some (None, h) \<Rightarrow> map_option (\<lambda>h. (None, h)) (pmDelete (Some a) (h\<lparr>hpms := (hpms h)(a \<mapsto> pm)\<rparr>))
                | Some (Some p, h) \<Rightarrow> Some (Some (a, pm\<lparr>Palette := Some p\<rparr>), h))
             else Some (Some (a, pm), h))"

(* src/user/libwoot/pixmap.c:287-314 pmCreate *)
definition pmCreate :: "int \<Rightarrow> int \<Rightarrow> pmPixelFormat \<Rightarrow> pmHeap \<Rightarrow> (nat option \<times> pmHeap) option" where
  "pmCreate width height format h =
     (if width < 1 \<or> height < 1 \<or> \<not> isDepthSupported (BPP format) then Some (None, h)
      else
        let pitch = pmFormatPixelsToBytesP format (nat width) in
        case pm_object width height pitch format h of
          None \<Rightarrow> None
        | Some (None, h) \<Rightarrow> Some (None, h)
        | Some (Some (a, pm), h) \<Rightarrow>
            (case calloc (nat height * pitch) h of
               (None, h) \<Rightarrow> map_option (\<lambda>h. (None, h)) (pmDelete (Some a) (h\<lparr>hpms := (hpms h)(a \<mapsto> pm\<lparr>ReleasePixels := 1\<rparr>)\<rparr>))
             | (Some p, h) \<Rightarrow> Some (Some a, h\<lparr>hpms := (hpms h)(a \<mapsto> pm\<lparr>Pixels := p, ReleasePixels := 1\<rparr>)\<rparr>)))"

(* src/user/libwoot/pixmap.c:383-405 pmFromMemory *)
definition pmFromMemory :: "int \<Rightarrow> int \<Rightarrow> nat \<Rightarrow> pmPixelFormat \<Rightarrow> nat \<Rightarrow> nat \<Rightarrow> pmHeap \<Rightarrow> (nat option \<times> pmHeap) option" where
  "pmFromMemory width height pitch format pixels releasePixels h =
     (if width < 1 \<or> height < 1 \<or> \<not> isDepthSupported (BPP format) then Some (None, h)
      else
        case pm_object width height pitch format h of
          None \<Rightarrow> None
        | Some (None, h) \<Rightarrow> Some (None, h)
        | Some (Some (a, pm), h) \<Rightarrow>
            Some (Some a, h\<lparr>hpms := (hpms h)(a \<mapsto> pm\<lparr>Pixels := pixels, ReleasePixels := releasePixels\<rparr>)\<rparr>))"

(* src/user/libwoot/pixmap.c:407-413 pmFromPixMap *)
definition pmFromPixMap :: "nat \<Rightarrow> pmPixelFormat \<Rightarrow> pmHeap \<Rightarrow> (nat option \<times> pmHeap) option" where
  "pmFromPixMap src format h =
     (case hpms h src of None \<Rightarrow> None
      | Some s \<Rightarrow>
          (case pmCreate (rcWidth (Contents s)) (rcHeight (Contents s)) format h of
             None \<Rightarrow> None
           | Some (None, h) \<Rightarrow> Some (None, h)
           | Some (Some a, h) \<Rightarrow>
               (case hpms h a of None \<Rightarrow> None
                | Some d \<Rightarrow> Some (Some a, h\<lparr>hmem := pmBlit (hmem h) d s 0 0 0 0 (rcWidth (Contents d)) (rcHeight (Contents d))\<rparr>))))"

(* src/user/libwoot/pixmap.c:415-430 pmSubPixMap *)
definition pmSubPixMap :: "nat \<Rightarrow> int \<Rightarrow> int \<Rightarrow> int \<Rightarrow> int \<Rightarrow> pmHeap \<Rightarrow> (nat option \<times> pmHeap) option" where
  "pmSubPixMap src x y w h hp =
     (case hpms hp src of None \<Rightarrow> None
      | Some s \<Rightarrow>
          let srcRect = \<lparr>rcX = 0, rcY = 0, rcWidth = rcWidth (Contents s), rcHeight = rcHeight (Contents s)\<rparr>;
              newRect = rcIntersectP srcRect \<lparr>rcX = x, rcY = y, rcWidth = w, rcHeight = h\<rparr>
          in if rcWidth newRect \<le> 0 \<or> rcHeight newRect \<le> 0 then Some (None, hp)
             else
               (case pmFromMemory (rcWidth newRect) (rcHeight newRect) (Pitch s) (Format s)
                       (nat (ua (int (Pixels s) + rcY newRect * int (Pitch s)
                          + int (pmFormatPixelsToBytes (Format s) (nat (rcX newRect mod 2 ^ 32)))))) 0 hp of
                  None \<Rightarrow> None
                | Some (None, hp) \<Rightarrow> None
                | Some (Some a, hp) \<Rightarrow>
                    map_option (\<lambda>pm. (Some a, hp\<lparr>hpms := (hpms hp)(a \<mapsto>
                        pm\<lparr>Parent := Some src, Contents := (Contents pm)\<lparr>rcX := x, rcY := y\<rparr>\<rparr>)\<rparr>)) (hpms hp a)))"

section \<open>Dirty rectangles\<close>

(* src/user/libwoot/pixmap.c:332-343 pmInvalidateRect *)
partial_function (option) pmInvalidateRect :: "nat option \<Rightarrow> rcRectangle \<Rightarrow> pmHeap \<Rightarrow> pmHeap option" where
  "pmInvalidateRect pixMap rect h =
     (if pixMap = None then Some h
      else case hpms h (the pixMap) of None \<Rightarrow> None
           | Some pm \<Rightarrow>
               (case Parent pm of
                  Some par \<Rightarrow>
                    (case hpms h par of None \<Rightarrow> None
                     | Some pp \<Rightarrow>
                         pmInvalidateRect (Some par)
                           (rect\<lparr>rcX := i32 (rcX rect + rcX (Contents pp)), rcY := i32 (rcY rect + rcY (Contents pp))\<rparr>) h)
                | None \<Rightarrow> Some (h\<lparr>hpms := (hpms h)(the pixMap \<mapsto> pm\<lparr>Dirty := rcAdd (Dirty pm) rect\<rparr>)\<rparr>)))"

(* src/user/libwoot/pixmap.c:326-330 pmInvalidate *)
definition pmInvalidate :: "nat option \<Rightarrow> int \<Rightarrow> int \<Rightarrow> int \<Rightarrow> int \<Rightarrow> pmHeap \<Rightarrow> pmHeap option" where
  "pmInvalidate pixMap x y w h hp = pmInvalidateRect pixMap \<lparr>rcX = x, rcY = y, rcWidth = w, rcHeight = h\<rparr> hp"

text \<open>The pointer version passes a translated copy on and adds the caller's rectangle at the root.\<close>

(* src/user/libwoot/pixmap.c:345-357 pmInvalidateRectP *)
partial_function (option) pmInvalidateRectP :: "nat option \<Rightarrow> rcRectangle \<Rightarrow> pmHeap \<Rightarrow> pmHeap option" where
  "pmInvalidateRectP pixMap rect h =
     (if pixMap = None then Some h
      else case hpms h (the pixMap) of None \<Rightarrow> None
           | Some pm \<Rightarrow>
               (case Parent pm of
                  Some par \<Rightarrow>
                    (case hpms h par of None \<Rightarrow> None
                     | Some pp \<Rightarrow>
                         let r = rect\<lparr>rcX := i32 (rcX rect + rcX (Contents pp)), rcY := i32 (rcY rect + rcY (Contents pp))\<rparr>
                         in pmInvalidateRectP (Some par) r h)
                | None \<Rightarrow> Some (h\<lparr>hpms := (hpms h)(the pixMap \<mapsto> pm\<lparr>Dirty := rcAdd (Dirty pm) rect\<rparr>)\<rparr>)))"

(* src/user/libwoot/pixmap.c:359-362 pmInvalidateWhole *)
definition pmInvalidateWhole :: "pmPixMap \<Rightarrow> pmPixMap" where
  "pmInvalidateWhole pixMap = pixMap\<lparr>Dirty := Contents pixMap\<rparr>"

(* src/user/libwoot/pixmap.c:364-368 pmGetDirtyRectangle *)
definition pmGetDirtyRectangle :: "pmPixMap option \<Rightarrow> rcRectangle" where
  "pmGetDirtyRectangle pixMap = (case pixMap of None \<Rightarrow> rcRectangleEmpty | Some pm \<Rightarrow> Dirty pm)"

(* src/user/libwoot/pixmap.c:377-381 pmClearDirty *)
definition pmClearDirty :: "pmPixMap option \<Rightarrow> pmPixMap option" where
  "pmClearDirty pixMap = map_option (\<lambda>pm. pm\<lparr>Dirty := rcRectangleEmpty\<rparr>) pixMap"

(* src/user/libwoot/pixmap.c:370-375 pmGetAndClearDirtyRectangle *)
definition pmGetAndClearDirtyRectangle :: "pmPixMap option \<Rightarrow> rcRectangle \<times> pmPixMap option" where
  "pmGetAndClearDirtyRectangle pixMap = (pmGetDirtyRectangle pixMap, pmClearDirty pixMap)"

section \<open>Accessors\<close>

(* src/user/libwoot/pixmap.c:587-592 pmSetPaletteEntry *)
definition pmSetPaletteEntry :: "pmPixMap option \<Rightarrow> nat \<Rightarrow> pmColor \<Rightarrow> mem \<Rightarrow> mem" where
  "pmSetPaletteEntry pixMap idx c m =
     (case pixMap of None \<Rightarrow> m
      | Some pm \<Rightarrow>
          (case Palette pm of None \<Rightarrow> m
           | Some p \<Rightarrow> if idx \<ge> 2 ^ (BPP (Format pm) mod 32) then m else wrColor m (int p + 4 * int idx) c))"

(* src/user/libwoot/pixmap.c:594-598 pmGetRectangle *)
definition pmGetRectangle :: "pmPixMap option \<Rightarrow> rcRectangle" where
  "pmGetRectangle pixMap = (case pixMap of None \<Rightarrow> rcRectangleEmpty | Some pm \<Rightarrow> Contents pm)"

(* src/user/libwoot/pixmap.c:600-604 pmGetPitch *)
definition pmGetPitch :: "pmPixMap option \<Rightarrow> nat" where
  "pmGetPitch pixMap = (case pixMap of None \<Rightarrow> nat ((- EINVAL) mod 2 ^ 32) | Some pm \<Rightarrow> Pitch pm)"

(* src/user/libwoot/pixmap.c:606-610 pmGetPixels *)
definition pmGetPixels :: "pmPixMap option \<Rightarrow> nat" where
  "pmGetPixels pixMap = (case pixMap of None \<Rightarrow> 0 | Some pm \<Rightarrow> Pixels pm)"

section \<open>Cursor files\<close>

text \<open>
  A file is its bytes. \<open>fread\<close> of one item of \<open>n\<close> bytes succeeds when that many bytes are left, except
  that an item of size 0 counts as none; \<open>fseek\<close> refuses a negative offset.
\<close>

definition le16 :: "byte list \<Rightarrow> nat \<Rightarrow> nat" where
  "le16 bs i = unat (bs ! i) + 256 * unat (bs ! (i + 1))"

definition le32 :: "byte list \<Rightarrow> nat \<Rightarrow> nat" where
  "le32 bs i = le16 bs i + 65536 * le16 bs (i + 2)"

definition fread :: "byte list \<Rightarrow> nat \<Rightarrow> nat \<Rightarrow> byte list option" where
  "fread file pos n = (if 0 < n \<and> pos + n \<le> length file then Some (take n (drop pos file)) else None)"

(* src/user/libwoot/pixmap.c:37-42 IconDir *)
record IconDir =
  idReserved :: nat
  idType :: nat
  idImageCount :: nat

(* src/user/libwoot/pixmap.c:44-62 IconDirEntry *)
record IconDirEntry =
  ideWidth :: nat
  ideHeight :: nat
  idePaletteColors :: nat
  ideHotspotX :: nat
  ideHotspotY :: nat
  ideDataSize :: nat
  ideDataOffset :: nat

(* src/user/libwoot/pixmap.c:14-27 BMPImageHeader *)
record BMPImageHeader =
  biSize :: nat
  biWidth :: nat
  biHeight :: int
  biPlanes :: nat
  biBitCount :: nat
  biCompression :: nat
  biSizeImage :: nat
  biXPelsPerMeter :: nat
  biYPelsPerMeter :: nat
  biClrUsed :: nat
  biClrImportant :: nat

definition rd_IconDir :: "byte list \<Rightarrow> IconDir" where
  "rd_IconDir bs = \<lparr>idReserved = le16 bs 0, idType = le16 bs 2, idImageCount = le16 bs 4\<rparr>"

definition rd_IconDirEntry :: "byte list \<Rightarrow> IconDirEntry" where
  "rd_IconDirEntry bs =
     \<lparr>ideWidth = unat (bs ! 0), ideHeight = unat (bs ! 1), idePaletteColors = unat (bs ! 2),
      ideHotspotX = le16 bs 4, ideHotspotY = le16 bs 6, ideDataSize = le32 bs 8, ideDataOffset = le32 bs 12\<rparr>"

definition rd_BMPImageHeader :: "byte list \<Rightarrow> BMPImageHeader" where
  "rd_BMPImageHeader bs =
     \<lparr>biSize = le32 bs 0, biWidth = le32 bs 4, biHeight = i32 (int (le32 bs 8)), biPlanes = le16 bs 12,
      biBitCount = le16 bs 14, biCompression = le32 bs 16, biSizeImage = le32 bs 20,
      biXPelsPerMeter = le32 bs 24, biYPelsPerMeter = le32 bs 28, biClrUsed = le32 bs 32, biClrImportant = le32 bs 36\<rparr>"

definition wr_bytes :: "mem \<Rightarrow> int \<Rightarrow> byte list \<Rightarrow> mem" where
  "wr_bytes m p bs = (\<lambda>a. if ua (a - p) < int (length bs) then bs ! nat (ua (a - p)) else m a)"

text \<open>What the header part of \<open>pmLoadCUR\<close> finds: the entry of the image, or \<open>None\<close> for an early return.\<close>

(* src/user/libwoot/pixmap.c:522-553 pmLoadCUR, directory *)
definition cur_entry :: "byte list \<Rightarrow> nat \<Rightarrow> IconDirEntry option" where
  "cur_entry file idx =
     (case fread file 0 6 of None \<Rightarrow> None
      | Some b \<Rightarrow>
          let dir = rd_IconDir b in
          if idReserved dir \<noteq> 0 \<or> idType dir \<noteq> 2 \<or> idImageCount dir < 1 \<or> idx \<ge> idImageCount dir then None
          else
            (case fread file (6 + 16 * idx) 16 of None \<Rightarrow> None
             | Some e \<Rightarrow>
                 let ide = rd_IconDirEntry e in
                 if idePaletteColors ide \<noteq> 0 then None else Some ide))"

(* src/user/libwoot/pixmap.c:715-726 pmVFlip, with its buffer *)
definition pmVFlip_alloc :: "nat option \<Rightarrow> pmHeap \<Rightarrow> pmHeap option" where
  "pmVFlip_alloc pixMap h =
     (case pixMap of None \<Rightarrow> None
      | Some a \<Rightarrow>
          (case hpms h a of None \<Rightarrow> None
           | Some pm \<Rightarrow>
               (case malloc h of
                  (None, h) \<Rightarrow> Some h
                | (Some lb, h) \<Rightarrow> Some (free lb (h\<lparr>hmem := pmVFlip (Some (int lb)) (hmem h) pm\<rparr>)))))"

(* src/user/libwoot/pixmap.c:517-585 pmLoadCUR *)
definition pmLoadCUR :: "byte list option \<Rightarrow> nat \<Rightarrow> pmHeap \<Rightarrow> (nat option \<times> (nat \<times> nat) option \<times> pmHeap) option" where
  "pmLoadCUR filename idx h =
     (case filename of None \<Rightarrow> Some (None, None, h)
      | Some file \<Rightarrow>
          let h = fopen h in
          case cur_entry file idx of None \<Rightarrow> Some (None, None, fclose h)
          | Some ide \<Rightarrow>
              let w = (if ideWidth ide \<noteq> 0 then ideWidth ide else 256);
                  ht = (if ideHeight ide \<noteq> 0 then ideHeight ide else 256);
                  hot = Some (ideHotspotX ide, ideHotspotY ide) in
              if ideDataOffset ide \<ge> 2 ^ 31 then Some (None, hot, fclose h)
              else case fread file (ideDataOffset ide) 40 of None \<Rightarrow> Some (None, hot, fclose h)
              | Some b \<Rightarrow>
                  (case calloc (ideDataSize ide) h of
                     (None, h) \<Rightarrow> Some (None, hot, fclose h)
                   | (Some p, h) \<Rightarrow>
                       (case fread file (ideDataOffset ide + 40) (sub32 (ideDataSize ide) 40) of
                          None \<Rightarrow> Some (None, hot, fclose (free p h))
                        | Some px \<Rightarrow>
                            let h = fclose (h\<lparr>hmem := wr_bytes (hmem h) (int p) px\<rparr>) in
                            (case pmFromMemory (int w) (int ht) (4 * w) pmFormatA8R8G8B8 p 1 h of
                               None \<Rightarrow> None
                             | Some (pm, h) \<Rightarrow>
                                 if biHeight (rd_BMPImageHeader b) > 0
                                 then map_option (\<lambda>h. (pm, hot, h)) (pmVFlip_alloc pm h)
                                 else Some (pm, hot, h)))))"

section \<open>PNG files\<close>

text \<open>
  \<^verbatim>\<open>libpng\<close> is not part of this model: a \<open>pngFile\<close> holds what its calls answer for one file (whether the
  signature matches, whether the two structures can be created, the header fields, and the bytes of the
  rows that \<^verbatim>\<open>png_read_image\<close> stores through the row pointers). The calls that parse the file can also fail:
  \<^verbatim>\<open>pmLoadPNG\<close> installs no error handler and no \<^verbatim>\<open>setjmp\<close>, so \<^verbatim>\<open>libpng\<close> aborts the program, which is the result
  \<open>None\<close>. The memory that \<^verbatim>\<open>libpng\<close> allocates for itself is not counted.
\<close>

record pngFile =
  png_sig_ok :: bool
  png_read_struct :: bool
  png_info_struct :: bool
  png_read_info :: bool
  png_read_update_info :: bool
  png_read_image :: bool
  png_width :: nat
  png_height :: nat
  png_color_type :: nat
  png_bit_depth :: nat
  png_rowbytes :: nat
  png_row :: "nat \<Rightarrow> byte list"

(* src/user/libwoot/pixmap.c:493-494 pmLoadPNG, PNG_COLOR_TYPE_RGBA and the format *)
definition png_format :: "nat \<Rightarrow> pmPixelFormat" where
  "png_format color_type =
     (let a = color_type = 6
      in \<lparr>BPP = 32, AlphaBits = (if a then 8 else 0), RedBits = 8, GreenBits = 8, BlueBits = 8,
          AlphaShift = (if a then 24 else 0), RedShift = 0, GreenShift = 8, BlueShift = 16\<rparr>)"

(* src/user/libwoot/pixmap.c:432-515 pmLoadPNG *)
definition pmLoadPNG :: "pngFile option \<Rightarrow> pmHeap \<Rightarrow> (nat option \<times> pmHeap) option" where
  "pmLoadPNG file h =
     (case file of None \<Rightarrow> Some (None, h)
      | Some f \<Rightarrow>
          let h = fopen h in
          if \<not> png_sig_ok f \<or> \<not> png_read_struct f \<or> \<not> png_info_struct f then Some (None, fclose h)
          else if \<not> png_read_info f \<or> \<not> png_read_update_info f then None
          else if png_bit_depth f \<noteq> 8 \<or> (png_color_type f \<noteq> 2 \<and> png_color_type f \<noteq> 6) then Some (None, fclose h)
          else
            (case calloc (png_height f * 4) h of
               (None, h) \<Rightarrow> Some (None, fclose h)
             | (Some rows, h) \<Rightarrow>
                 (case calloc (png_height f * png_rowbytes f) h of
                    (None, h) \<Rightarrow> Some (None, fclose (free rows h))
                  | (Some pixels, h) \<Rightarrow>
                      (case pmFromMemory (i32 (int (png_width f))) (i32 (int (png_height f))) (png_rowbytes f)
                              (png_format (png_color_type f)) pixels 1 h of
                         None \<Rightarrow> None
                       | Some (None, h) \<Rightarrow> Some (None, fclose (free rows (free pixels h)))
                       | Some (Some a, h) \<Rightarrow>
                           if \<not> png_read_image f then None else
                           let h = h\<lparr>hmem := fold (\<lambda>y m. wr_bytes m (int pixels + int (png_rowbytes f) * int y) (png_row f y))
                                                [0..<png_height f] (hmem h)\<rparr>
                           in Some (Some a, free rows (fclose h))))))"

section \<open>Ownership of blocks\<close>

text \<open>
  What the C library promises of its allocator: an answer is null or a block that is not in use. The
  resources of a heap are its blocks in use, its pixmap objects and its open files.
\<close>

definition fresh_answers :: "pmHeap \<Rightarrow> bool" where
  "fresh_answers h \<longleftrightarrow> (let ps = [p. Some p \<leftarrow> hans h]
     in distinct ps \<and> (\<forall>p \<in> set ps. p \<noteq> 0 \<and> p \<notin> hlive h \<and> hpms h p = None))"

definition same_resources :: "pmHeap \<Rightarrow> pmHeap \<Rightarrow> bool" where
  "same_resources h h' \<longleftrightarrow> hlive h' = hlive h \<and> hpms h' = hpms h \<and> hfiles h' = hfiles h"

lemma malloc_cases:
  assumes "fresh_answers h"
  obtains h' where "malloc h = (None, h')" "same_resources h h'" "hmem h' = hmem h" "fresh_answers h'"
  | p h' where "malloc h = (Some p, h')" "p \<noteq> 0" "p \<notin> hlive h" "hpms h p = None"
      "hlive h' = insert p (hlive h)" "hpms h' = hpms h" "hfiles h' = hfiles h" "hmem h' = hmem h"
      "fresh_answers h'"
proof (cases "hans h")
  case Nil
  with assms that(1) [of h] show ?thesis by (simp add: malloc_def same_resources_def)
next
  case (Cons a as)
  show ?thesis
  proof (cases a)
    case None
    with Cons assms that(1) [of "h\<lparr>hans := as\<rparr>"] show ?thesis
      by (simp add: malloc_def same_resources_def fresh_answers_def)
  next
    case (Some p)
    with Cons assms that(2) [of p "h\<lparr>hans := as, hlive := insert p (hlive h)\<rparr>"] show ?thesis
      by (auto simp: malloc_def fresh_answers_def Let_def)
  qed
qed

lemma calloc_cases:
  assumes "fresh_answers h"
  obtains h' where "calloc n h = (None, h')" "same_resources h h'" "hmem h' = hmem h" "fresh_answers h'"
  | p h' where "calloc n h = (Some p, h')" "p \<noteq> 0" "p \<notin> hlive h" "hpms h p = None"
      "hlive h' = insert p (hlive h)" "hpms h' = hpms h" "hfiles h' = hfiles h"
      "hmem h' = (\<lambda>a. if ua (a - int p) < int n then 0 else hmem h a)" "fresh_answers h'"
  using assms
proof (cases rule: malloc_cases)
  case (1 h')
  with that(1) show ?thesis by (simp add: calloc_def)
next
  case (2 p h')
  with that(2) [of p "h'\<lparr>hmem := (\<lambda>a. if ua (a - int p) < int n then 0 else hmem h' a)\<rparr>"] show ?thesis
    by (simp add: calloc_def fresh_answers_def cong: if_cong)
qed

text \<open>The blocks that belong to a pixmap object.\<close>

definition owned :: "nat \<Rightarrow> pmPixMap \<Rightarrow> nat set" where
  "owned a pm = insert a ((if ReleasePixels pm \<noteq> 0 \<and> Pixels pm \<noteq> 0 then {Pixels pm} else {}) \<union> set_option (Palette pm))"

lemma pmDelete_owned:
  assumes "hpms h a = Some pm"
  shows "\<exists>h'. pmDelete (Some a) h = Some h' \<and> hlive h' = hlive h - owned a pm
    \<and> hpms h' = (hpms h)(a := None) \<and> hfiles h' = hfiles h"
  using assms by (auto simp: pmDelete_def pmPaletteDelete_def free_def owned_def Let_def split: option.splits)

text \<open>
  The outcomes of a constructor: a fault (a null palette is written to), no object and nothing kept, or
  a new object whose own blocks are the only new ones. The palette is the second block that is asked for.
\<close>

definition second_refused :: "pmHeap \<Rightarrow> bool" where
  "second_refused h \<longleftrightarrow> fst (malloc h) \<noteq> None \<and> fst (malloc (snd (malloc h))) = None"

definition made :: "pmHeap \<Rightarrow> nat \<Rightarrow> pmPixMap \<Rightarrow> pmHeap \<Rightarrow> bool" where
  "made h a pm h' \<longleftrightarrow> hlive h \<inter> owned a pm = {} \<and> hlive h' = hlive h \<union> owned a pm \<and> hpms h a = None \<and>
     hfiles h' = hfiles h \<and> fresh_answers h'"

lemma pm_object_cases:
  assumes "fresh_answers h"
  obtains "pm_object width height pitch format h = None" "BPP format \<le> 8" "second_refused h"
  | h' where "pm_object width height pitch format h = Some (None, h')" "same_resources h h'" "fresh_answers h'"
  | a pm h' where "pm_object width height pitch format h = Some (Some (a, pm), h')"
      "made h a pm h'" "hpms h' = hpms h" "Parent pm = None" "Pixels pm = 0" "ReleasePixels pm = 0"
      "Contents pm = \<lparr>rcX = 0, rcY = 0, rcWidth = width, rcHeight = height\<rparr>" "Pitch pm = pitch"
      "Format pm = format" "Palette pm \<noteq> None \<longleftrightarrow> BPP format \<le> 8" "BPP format > 8 \<Longrightarrow> hmem h' = hmem h"
  using assms
proof (cases rule: malloc_cases)
  case (1 h')
  with that(2) show ?thesis by (simp add: pm_object_def)
next
  case (2 a h1)
  let ?pm = "pm_zero\<lparr>Contents := \<lparr>rcX = 0, rcY = 0, rcWidth = width, rcHeight = height\<rparr>, Pitch := pitch, Format := format\<rparr>"
  show ?thesis
  proof (cases "BPP format \<le> 8")
    case False
    then show ?thesis
      using 2 that(3) [of a ?pm h1] by (auto simp: pm_object_def made_def owned_def pm_zero_def)
  next
    case True
    from 2(9) show ?thesis
    proof (cases rule: malloc_cases)
      case (1 h2)
      with True 2 that(1) show ?thesis by (simp add: pm_object_def pmPaletteCreate_def second_refused_def)
    next
      case p: (2 p h2)
      let ?h = "h2\<lparr>hmem := palette_fill (2 ^ BPP format) (int p) (hmem h2)\<rparr>"
      have "fresh_answers ?h" using p(9) by (simp add: fresh_answers_def)
      with True 2 p that(3) [of a "?pm\<lparr>Palette := Some p\<rparr>" ?h] show ?thesis
        by (auto simp: pm_object_def pmPaletteCreate_def made_def owned_def pm_zero_def)
    qed
  qed
qed

lemma pmCreate_cases:
  assumes "fresh_answers h"
  obtains "pmCreate width height format h = None" "BPP format \<le> 8" "second_refused h"
  | h' where "pmCreate width height format h = Some (None, h')" "same_resources h h'"
  | a pm h' where "pmCreate width height format h = Some (Some a, h')"
      "made h a pm h'" "hpms h' = (hpms h)(a \<mapsto> pm)" "1 \<le> width" "1 \<le> height" "Parent pm = None"
      "Contents pm = \<lparr>rcX = 0, rcY = 0, rcWidth = width, rcHeight = height\<rparr>"
      "Pitch pm = pmFormatPixelsToBytesP format (nat width)" "Format pm = format" "Pixels pm \<noteq> 0"
      "ReleasePixels pm = 1"
      "\<And>b. ua (b - int (Pixels pm)) < int (nat height * Pitch pm) \<Longrightarrow> hmem h' b = 0"
proof (cases "width < 1 \<or> height < 1 \<or> \<not> isDepthSupported (BPP format)")
  case True
  with that(2) [of h] show ?thesis by (simp add: pmCreate_def same_resources_def)
next
  case ok: False
  let ?pitch = "pmFormatPixelsToBytesP format (nat width)"
  from assms show ?thesis
  proof (cases rule: pm_object_cases [of h width height ?pitch format])
    case 1
    with ok that(1) show ?thesis by (simp add: pmCreate_def)
  next
    case (2 h')
    with ok that(2) show ?thesis by (simp add: pmCreate_def)
  next
    case (3 a pm h1)
    have f: "fresh_answers h1" using 3(2) by (simp add: made_def)
    then show ?thesis
    proof (cases rule: calloc_cases [of h1 "nat height * ?pitch"])
      case (1 h2)
      let ?h = "h2\<lparr>hpms := (hpms h2)(a \<mapsto> pm\<lparr>ReleasePixels := 1\<rparr>)\<rparr>"
      obtain h' where h': "pmDelete (Some a) ?h = Some h'" "hlive h' = hlive ?h - owned a (pm\<lparr>ReleasePixels := 1\<rparr>)"
        "hpms h' = (hpms ?h)(a := None)" "hfiles h' = hfiles ?h"
        using pmDelete_owned [of ?h a "pm\<lparr>ReleasePixels := 1\<rparr>"] by auto
      have "owned a (pm\<lparr>ReleasePixels := 1\<rparr>) = owned a pm" using 3 by (simp add: owned_def)
      with 1 3 h' have "same_resources h h'" by (auto simp: same_resources_def made_def)
      with 1 3 ok h' that(2) [of h'] show ?thesis by (simp add: pmCreate_def)
    next
      case (2 p h2)
      let ?pm = "pm\<lparr>Pixels := p, ReleasePixels := 1\<rparr>" and ?h = "h2\<lparr>hpms := (hpms h2)(a \<mapsto> pm\<lparr>Pixels := p, ReleasePixels := 1\<rparr>)\<rparr>"
      have "owned a ?pm = insert p (owned a pm)" using 2 3 by (auto simp: owned_def)
      moreover have "fresh_answers ?h"
        using 2(5,6,9) 3(2) by (auto simp: fresh_answers_def made_def owned_def Let_def)
      ultimately have "made h a ?pm ?h" using 2 3 by (auto simp: made_def)
      with 2 3 ok that(3) [of a ?h ?pm] show ?thesis by (auto simp: pmCreate_def)
    qed
  qed
qed

text \<open>C24.
  \<open>pmCreate\<close> owns exactly what it allocates: when it returns a null pointer (bad size, unsupported
  depth, or no memory at any of its allocations) the blocks in use and the objects are what they were,
  and when it returns an object, \<open>pmDelete\<close> gives everything back: pixel buffer, palette and object. Its
  only fault is the palette of an 8-bit format that cannot be allocated (the second block asked for is refused),
  which \<open>pmPaletteCreate\<close> writes to all the same. The allocator's answers are null or blocks not in use.
\<close>

theorem create_delete_balance:
  assumes "fresh_answers h"
  shows "case pmCreate width height format h of
      None \<Rightarrow> BPP format \<le> 8 \<and> second_refused h
    | Some (None, h') \<Rightarrow> same_resources h h'
    | Some (Some a, h') \<Rightarrow> (\<exists>h''. pmDelete (Some a) h' = Some h'' \<and> same_resources h h'')"
  using assms
proof (cases rule: pmCreate_cases [of h width height format])
  case (3 a pm h')
  obtain h'' where h'': "pmDelete (Some a) h' = Some h''" "hlive h'' = hlive h' - owned a pm"
      "hpms h'' = (hpms h')(a := None)" "hfiles h'' = hfiles h'"
    using pmDelete_owned [of h' a pm] 3 by auto
  have "same_resources h h''" using 3 h'' by (auto simp: same_resources_def made_def)
  with 3 h'' show ?thesis by simp
qed simp_all

definition demo_heap :: pmHeap where
  "demo_heap = \<lparr>hmem = (\<lambda>a. 7), hpms = (\<lambda>a. None), hlive = {16}, hans = [Some 64, Some 4096], hfiles = 0\<rparr>"

lemma demo_heap_fresh: "fresh_answers demo_heap"
  by (simp add: fresh_answers_def demo_heap_def Let_def)

theorem create_delete_balance_witness:
  "\<exists>h' h''. pmCreate 2 2 pmFormatA8R8G8B8 demo_heap = Some (Some 64, h') \<and> pmDelete (Some 64) h' = Some h''
     \<and> same_resources demo_heap h''"
proof -
  have "\<exists>h'. pmCreate 2 2 pmFormatA8R8G8B8 demo_heap = Some (Some 64, h')"
    by (simp add: pmCreate_def pm_object_def malloc_def calloc_def demo_heap_def isDepthSupported_def pmFormatA8R8G8B8_def Let_def)
  with create_delete_balance [OF demo_heap_fresh, where width = 2 and height = 2 and format = pmFormatA8R8G8B8] show ?thesis by auto
qed

text \<open>
  A pixmap made by \<open>pmCreate\<close> in a 16, 24 or 32-bit format is well formed (so the drawing theorems
  apply to it) and blank: every pixel reads as the colour of the value zero.
\<close>

lemma create_well_formed_blank:
  assumes "fresh_answers h" and "pmCreate width height format h = Some (Some a, h')"
    and "fmt_ok format" and "BPP format \<noteq> 15" and "width < 2 ^ 26" and "height < 2 ^ 31"
    and "\<And>pm. hpms h' a = Some pm \<Longrightarrow> int (Pixels pm) + int (Pitch pm) * height < 2 ^ 32"
  shows "\<exists>pm. hpms h' a = Some pm \<and> pm_ok pm \<and> rcWidth (Contents pm) = width \<and> rcHeight (Contents pm) = height
    \<and> (\<forall>x y. pm_in pm x y \<longrightarrow> pmGetPixel (hmem h') pm x y = pmColorFromValue format 0)"
  using assms(1)
proof (cases rule: pmCreate_cases [of h width height format])
  case (3 a' pm h2)
  then have a: "a' = a" "h2 = h'" using assms(2) by auto
  have pm: "hpms h' a = Some pm" using 3 a by simp
  have bpp: "BPP format = 8 * pbytes format" "pbytes format \<le> 4"
    using assms(3,4) by (auto simp: fmt_ok_def pbytes_def)
  have "nat width * pbytes format \<le> 2 ^ 26 * 4" using assms(5) bpp by (intro mult_mono) auto
  then have "nat width * (8 * pbytes format) + 7 < 2 ^ 32" by (simp add: mult.left_commute)
  then have pitch: "int (Pitch pm) = width * int (pbytes format)"
    using 3(4,8) unfolding pmFormatPixelsToBytesP_def bpp(1)
    by (simp add: wrap_simps mult.left_commute [of _ 8] div_mult_self4 [of 8])
  have ok: "pm_ok pm"
    using 3 assms(3,5-7) pm pitch by (simp add: pm_ok_def)
  have "pmGetPixel (hmem h') pm x y = pmColorFromValue format 0" if "pm_in pm x y" for x y
  proof -
    let ?c = "pix_cell pm x y" and ?b = "pbytes format"
    have H: "int (Pitch pm) * (y + 1) \<le> int (Pitch pm) * height"
      using that 3(7) by (intro mult_left_mono) (auto simp: pm_in_def)
    have c: "int (Pixels pm) \<le> ?c" "?c + int ?b \<le> int (Pixels pm) + int (Pitch pm) * height" "?c + int ?b < 2 ^ 32"
      using pix_cell_bounds(2) [OF ok that] pix_cell_range(2) [OF ok that] H that 3(9)
      by (auto simp: pix_cell_def pix_addr_def pm_in_def)
    have "hmem h' (?c + int k) = 0" if "k < ?b" for k
    proof -
      have "ua (?c + int k - int (Pixels pm)) < int (nat height * Pitch pm)"
        using c that 3(5) by (subst ua_id) (auto simp: mult.commute)
      with 3(12) a show ?thesis by simp
    qed
    then have "peek (hmem h') ?c ?b = peek (\<lambda>_. 0) ?c ?b" by (intro peek_cong) simp
    also have "\<dots> = 0" using bpp(2) by (intro bit_eqI) (simp add: bit_peek)
    finally show ?thesis using pmGetPixel_peek [OF ok that] 3(9) by simp
  qed
  then show ?thesis using pm ok 3(7) by auto
qed (use assms(2) in auto)

text \<open>
  In a 15-bit format a pixel takes two bytes but \<open>pmFormatPixelsToBytes\<close> counts 15 bits, so the buffer
  that \<open>pmCreate\<close> allocates for a row is shorter than the row \<open>pmSetPixel\<close> writes.
\<close>

lemma pitch_15_too_small:
  assumes "BPP f = 15" "8 \<le> w" "w < 2 ^ 26"
  shows "pmFormatPixelsToBytesP f w < w * pbytes f"
  using assms by (simp add: pmFormatPixelsToBytesP_def pbytes_def wrap_simps div_less_iff_less_mult)

text \<open>
  Invalidating a part of a sub-pixmap marks the wrong place: for a sub-pixmap of a top-level pixmap
  (whose own position is the origin) the rectangle is added to the parent's dirty area without the
  sub-pixmap's position, because the translation uses the parent's \<open>Contents\<close> and not the child's. Both
  versions of the operation behave this way.
\<close>

lemma invalidate_ignores_sub_position:
  assumes "hpms h a = Some child" and "Parent child = Some r" and "hpms h r = Some top_pm" and "Parent top_pm = None"
    and "rcX (Contents top_pm) = 0" and "rcY (Contents top_pm) = 0"
    and "in_i32 (rcX rect)" and "in_i32 (rcY rect)"
  shows "pmInvalidateRect (Some a) rect h = Some (h\<lparr>hpms := (hpms h)(r \<mapsto> top_pm\<lparr>Dirty := rcAdd (Dirty top_pm) rect\<rparr>)\<rparr>)
    \<and> pmInvalidateRectP (Some a) rect h = pmInvalidateRect (Some a) rect h"
proof
  show a: "pmInvalidateRect (Some a) rect h = Some (h\<lparr>hpms := (hpms h)(r \<mapsto> top_pm\<lparr>Dirty := rcAdd (Dirty top_pm) rect\<rparr>)\<rparr>)"
    using assms by (subst pmInvalidateRect.simps, subst pmInvalidateRect.simps) (simp add: wrap_simps)
  show "pmInvalidateRectP (Some a) rect h = pmInvalidateRect (Some a) rect h"
    unfolding a using assms by (subst pmInvalidateRectP.simps, subst pmInvalidateRectP.simps) (simp add: wrap_simps)
qed

definition demo_sub_heap :: pmHeap where
  "demo_sub_heap = demo_heap\<lparr>hpms := [1 \<mapsto> demo_pm, 2 \<mapsto> demo_pm\<lparr>Parent := Some 1,
     Contents := \<lparr>rcX = 2, rcY = 1, rcWidth = 2, rcHeight = 2\<rparr>\<rparr>]\<rparr>"

lemma pmFromMemory_cases:
  assumes "fresh_answers h"
  obtains "pmFromMemory width height pitch format pixels rel h = None" "BPP format \<le> 8"
  | h' where "pmFromMemory width height pitch format pixels rel h = Some (None, h')" "same_resources h h'"
  | a pm h' where "pmFromMemory width height pitch format pixels rel h = Some (Some a, h')" "made h a pm h'"
      "hpms h' = (hpms h)(a \<mapsto> pm\<lparr>Pixels := pixels, ReleasePixels := rel\<rparr>)" "Pixels pm = 0" "Palette pm \<noteq> None \<longleftrightarrow> BPP format \<le> 8"
proof (cases "width < 1 \<or> height < 1 \<or> \<not> isDepthSupported (BPP format)")
  case True
  with that(2) [of h] show ?thesis by (simp add: pmFromMemory_def same_resources_def)
next
  case ok: False
  from assms show ?thesis
  proof (cases rule: pm_object_cases [of h width height pitch format])
    case (3 a pm h1)
    let ?h = "h1\<lparr>hpms := (hpms h1)(a \<mapsto> pm\<lparr>Pixels := pixels, ReleasePixels := rel\<rparr>)\<rparr>"
    have "made h a pm ?h" using 3(2,3) by (auto simp: made_def fresh_answers_def owned_def Let_def)
    then show ?thesis using 3 ok that(3) [of a ?h pm] by (auto simp: pmFromMemory_def)
  qed (use ok that in \<open>auto simp: pmFromMemory_def\<close>)
qed

text \<open>The file gets as far as \<^verbatim>\<open>libpng\<close>: its signature matches and the structures can be created.\<close>

definition png_opened :: "pngFile option \<Rightarrow> bool" where
  "png_opened pf \<longleftrightarrow> (case pf of None \<Rightarrow> False | Some f \<Rightarrow> png_sig_ok f \<and> png_read_struct f \<and> png_info_struct f)"

text \<open>What \<open>pmLoadPNG\<close> keeps when it succeeds: the object and its pixels, and neither the row pointers nor the file.\<close>

lemma load_png_success:
  assumes f: "fresh_answers h" and r: "calloc n h = (Some rows, h1)" and p: "calloc m h1 = (Some pixels, h2)"
    and o: "pmFromMemory w ht pitch format pixels 1 h2 = Some (Some a, h3)" and bpp: "\<not> BPP format \<le> 8"
  shows "\<exists>h''. pmDelete (Some a) (free rows (fclose (h3\<lparr>hmem := M\<rparr>))) = Some h'' \<and>
    hlive h'' = hlive h \<and> hpms h'' = hpms h \<and> hfiles h'' = hfiles h - 1"
proof -
  obtain R: "rows \<noteq> 0" "rows \<notin> hlive h" "hlive h1 = insert rows (hlive h)" "hpms h1 = hpms h" "hfiles h1 = hfiles h" "fresh_answers h1"
    using f r by (cases rule: calloc_cases [of h n]) auto
  obtain P: "pixels \<noteq> 0" "pixels \<notin> hlive h1" "hlive h2 = insert pixels (hlive h1)" "hpms h2 = hpms h1" "hfiles h2 = hfiles h1" "fresh_answers h2"
    using R(6) p by (cases rule: calloc_cases [of h1 m]) auto
  obtain pm where O: "made h2 a pm h3" "hpms h3 = (hpms h2)(a \<mapsto> pm\<lparr>Pixels := pixels, ReleasePixels := 1\<rparr>)" "Pixels pm = 0" "Palette pm = None"
    using P(6) o bpp by (cases rule: pmFromMemory_cases [of h2 w ht pitch format pixels 1]) auto
  let ?pm = "pm\<lparr>Pixels := pixels, ReleasePixels := 1\<rparr>" and ?h = "free rows (fclose (h3\<lparr>hmem := M\<rparr>))"
  have ow: "owned a pm = {a}" "owned a ?pm = {a, pixels}" using O(3,4) P(1) by (auto simp: owned_def)
  have live: "hlive ?h = insert a (insert pixels (insert rows (hlive h))) - {rows}" "a \<notin> hlive h2" "hpms h2 a = None" "hfiles h3 = hfiles h2"
    using O(1) ow R(3) P(3) by (auto simp: made_def free_def fclose_def)
  have "hpms ?h a = Some ?pm" by (simp add: free_def fclose_def O(2))
  from pmDelete_owned [OF this] obtain h'' where "pmDelete (Some a) ?h = Some h''" "hlive h'' = hlive ?h - {a, pixels}"
      "hpms h'' = (hpms ?h)(a := None)" "hfiles h'' = hfiles ?h" using ow by auto
  then show ?thesis using live R P O by (auto simp: free_def fclose_def fun_upd_idem)
qed

text \<open>C31.
  What \<open>pmLoadPNG\<close> holds on every path, for every file and every pattern of failing allocations. It aborts only inside
  \<^verbatim>\<open>libpng\<close>: when the signature matches and the structures can be created, but \<^verbatim>\<open>png_read_info\<close>,
  \<^verbatim>\<open>png_read_update_info\<close> or, later, \<^verbatim>\<open>png_read_image\<close> fails (no error handler is installed); a result means that
  the first two succeeded, a pixmap that all three did. A null result leaves the blocks in use, the pixmap objects and
  the number of open files as they were. A pixmap owns all that was kept: the row pointers are freed and the file is
  closed, and \<open>pmDelete\<close> of the pixmap gives everything back. (The memory \<^verbatim>\<open>libpng\<close> allocates itself is not counted;
  the allocator's answers are null or blocks not in use.)
\<close>

theorem load_png_releases_on_failure:
  assumes "fresh_answers h"
  shows "case pmLoadPNG pf h of
      None \<Rightarrow> png_opened pf \<and> \<not> (png_read_info (the pf) \<and> png_read_update_info (the pf) \<and> png_read_image (the pf))
    | Some (None, h') \<Rightarrow> same_resources h h' \<and> (png_opened pf \<longrightarrow> png_read_info (the pf) \<and> png_read_update_info (the pf))
    | Some (Some a, h') \<Rightarrow> png_opened pf \<and> png_read_info (the pf) \<and> png_read_update_info (the pf) \<and> png_read_image (the pf) \<and>
        (\<exists>h''. pmDelete (Some a) h' = Some h'' \<and> same_resources h h'')"
proof (cases "png_opened pf")
  case False
  then show ?thesis
    by (cases pf) (auto simp: pmLoadPNG_def png_opened_def Let_def fopen_def fclose_def same_resources_def)
next
  case True
  then obtain f where Some: "pf = Some f" and op: "png_sig_ok f" "png_read_struct f" "png_info_struct f"
    by (cases pf) (auto simp: png_opened_def)
  let ?h = "fopen h"
  have f: "fresh_answers ?h" using assms by (simp add: fopen_def fresh_answers_def)
  consider "\<not> (png_read_info f \<and> png_read_update_info f)"
    | "png_read_info f" "png_read_update_info f" "png_bit_depth f \<noteq> 8 \<or> (png_color_type f \<noteq> 2 \<and> png_color_type f \<noteq> 6)"
    | "png_read_info f" "png_read_update_info f" "png_bit_depth f = 8" "png_color_type f = 2 \<or> png_color_type f = 6" by blast
  then show ?thesis
  proof cases
    case 1
    then show ?thesis using op True by (auto simp: Some pmLoadPNG_def Let_def)
  next
    case 2
    then show ?thesis using op by (auto simp: Some pmLoadPNG_def Let_def fopen_def fclose_def same_resources_def)
  next
    case good: 3
    have bpp: "\<not> BPP (png_format (png_color_type f)) \<le> 8" by (simp add: png_format_def Let_def)
    from f show ?thesis
    proof (cases rule: calloc_cases [of ?h "png_height f * 4"])
      case (1 h1)
      with good op Some show ?thesis by (auto simp: pmLoadPNG_def fopen_def fclose_def same_resources_def)
    next
      case r: (2 rows h1)
      from r(9) show ?thesis
      proof (cases rule: calloc_cases [of h1 "png_height f * png_rowbytes f"])
        case (1 h2)
        with r good op Some show ?thesis
          by (auto simp: pmLoadPNG_def fopen_def fclose_def free_def same_resources_def)
      next
        case p: (2 pixels h2)
        note succ = load_png_success [OF f r(1) p(1) _ bpp]
        from p(9) show ?thesis
        proof (cases rule: pmFromMemory_cases [of h2 "i32 (int (png_width f))" "i32 (int (png_height f))"
                "png_rowbytes f" "png_format (png_color_type f)" pixels 1])
          case (3 a pm h3)
          show ?thesis using succ [OF 3(1)] 3(1) r(1) p(1) good op Some True
            by (cases "png_read_image f") (auto simp: pmLoadPNG_def fopen_def same_resources_def Let_def)
        qed (use r p good op Some bpp in \<open>auto simp: pmLoadPNG_def fopen_def fclose_def free_def same_resources_def Let_def\<close>)
      qed
    qed
  qed
qed

definition demo_png :: pngFile where
  "demo_png = \<lparr>png_sig_ok = True, png_read_struct = True, png_info_struct = True, png_read_info = True,
     png_read_update_info = True, png_read_image = True, png_width = 1, png_height = 1, png_color_type = 6,
     png_bit_depth = 8, png_rowbytes = 4, png_row = (\<lambda>y. [1, 2, 3, 4])\<rparr>"

theorem load_png_releases_on_failure_witness:
  "\<exists>h h' h''. pmLoadPNG (Some demo_png) h = Some (Some 128, h') \<and> pmDelete (Some 128) h' = Some h'' \<and> same_resources h h''"
proof -
  let ?h = "demo_heap\<lparr>hans := [Some 64, Some 4096, Some 128]\<rparr>"
  have f: "fresh_answers ?h" by (simp add: fresh_answers_def demo_heap_def Let_def)
  have "\<exists>h'. pmLoadPNG (Some demo_png) ?h = Some (Some 128, h')"
    by (simp add: pmLoadPNG_def demo_png_def png_format_def pmFromMemory_def pm_object_def malloc_def calloc_def
        fopen_def demo_heap_def isDepthSupported_def i32_def Let_def)
  then obtain h' where "pmLoadPNG (Some demo_png) ?h = Some (Some 128, h')" by blast
  with load_png_releases_on_failure [OF f, of "Some demo_png"] show ?thesis by auto
qed

end
