(* ===== verification/Wm.thy ===== *)
theory Wm
  imports Rpc PixmapObj
begin

text \<open>
  The window-manager client \<open>user/libwoot/wm.c\<close>. Its world is the system-call side (\<open>Sys\<close>), the heap of
  the pixmap objects (\<open>PixmapObj\<close>) and the address of the server found by \<open>wmInitialize\<close>.
\<close>

record wmWorld =
  wsys :: sysw
  wheap :: pmHeap
  wmServer :: string

(* src/user/libwoot/wm.c:9-9 macro DEFAULT_RPC_TIMEOUT *)
abbreviation (input) DEFAULT_RPC_TIMEOUT :: int where
  "DEFAULT_RPC_TIMEOUT \<equiv> 1000"

(* src/user/libwoot/wm.c:13-18 wmWindow *)
record wmWindow =
  wid :: int
  shMemHandle :: int
  wpixMap :: "nat option"

(* src/user/libwoot/wm.c:20-25 wmInitialize *)
definition wmInitialize :: "wmWorld \<Rightarrow> int \<times> wmWorld" where
  "wmInitialize w =
     (case rpcFindServer ''windowmanager'' 64 DEFAULT_RPC_TIMEOUT (wsys w) of
        ((res, addr), s) \<Rightarrow>
          let w = w\<lparr>wsys := s, wmServer := (case addr of None \<Rightarrow> wmServer w | Some a \<Rightarrow> a)\<rparr>
          in if res < 0 then (res, w) else (0, w))"

(* src/user/libwoot/wm.c:27-30 wmGetServer *)
definition wmGetServer :: "wmWorld \<Rightarrow> string option" where
  "wmGetServer w = (if wmServer w \<noteq> [] then Some (wmServer w) else None)"

text \<open>The response of \<open>wmCreateWindow\<close>: an id, nine words of pixel format, and a NUL-terminated name.\<close>

definition resp_word :: "byte list \<Rightarrow> nat \<Rightarrow> int" where
  "resp_word bs k = le_int (take 4 (drop (4 * k) bs))"

definition resp_uword :: "byte list \<Rightarrow> nat \<Rightarrow> nat" where
  "resp_uword bs k = nat (resp_word bs k mod 2 ^ 32)"

(* src/user/libwoot/wm.c:35-44 wmCreateWindow, pixelFormat of the response *)
definition resp_format :: "byte list \<Rightarrow> pmPixelFormat" where
  "resp_format bs = \<lparr>BPP = resp_uword bs 1, AlphaBits = resp_uword bs 2, RedBits = resp_uword bs 3,
     GreenBits = resp_uword bs 4, BlueBits = resp_uword bs 5, AlphaShift = resp_uword bs 6,
     RedShift = resp_uword bs 7, GreenShift = resp_uword bs 8, BlueShift = resp_uword bs 9\<rparr>"

definition resp_name :: "byte list \<Rightarrow> string" where
  "resp_name bs = map (\<lambda>b. char_of (unat b)) (takeWhile (\<lambda>b. b \<noteq> 0) (drop 40 bs))"

(* src/user/libwoot/wm.c:49-77 wmCreateWindow, after the call *)
definition wm_attach :: "byte list \<Rightarrow> nat \<Rightarrow> nat \<Rightarrow> wmWorld \<Rightarrow> ((nat \<times> wmWindow) option \<times> wmWorld) option" where
  "wm_attach resp w h st =
     (case calloc 12 (wheap st) of
        (None, hp) \<Rightarrow> Some (None, st\<lparr>wheap := hp\<rparr>)
      | (Some wnd, hp) \<Rightarrow>
          (case ipcOpenSharedMem (resp_name resp) (wsys st) of (handle, s) \<Rightarrow>
             if handle < 0 then Some (None, st\<lparr>wsys := s, wheap := free wnd hp\<rparr>)
             else
               (case ipcMapSharedMem handle 0 1 s of (pixels, s) \<Rightarrow>
                  if pixels = 0 then
                    Some (None, st\<lparr>wsys := snd (ipcCloseSharedMem handle s), wheap := free wnd hp\<rparr>)
                  else
                    let fmt = resp_format resp; pitch = pmFormatPixelsToBytesP fmt w;
                        px = nat (pixels mod 2 ^ 32) in
                    (case pmFromMemory (i32 (int w)) (i32 (int h)) pitch fmt px 0 hp of
                       None \<Rightarrow> None
                     | Some (None, hp) \<Rightarrow>
                         let s = snd (ipcUnMapSharedMem handle px s); s = snd (ipcCloseSharedMem handle s)
                         in Some (None, st\<lparr>wsys := s, wheap := free wnd hp\<rparr>)
                     | Some (Some pm, hp) \<Rightarrow>
                         Some (Some (wnd, \<lparr>wid = resp_word resp 0, shMemHandle = handle, wpixMap = Some pm\<rparr>),
                               st\<lparr>wsys := s, wheap := hp\<rparr>)))))"

(* src/user/libwoot/wm.c:32-78 wmCreateWindow *)
definition wmCreateWindow :: "int \<Rightarrow> int \<Rightarrow> nat \<Rightarrow> nat \<Rightarrow> nat \<Rightarrow> wmWorld \<Rightarrow> ((nat \<times> wmWindow) option \<times> wmWorld) option" where
  "wmCreateWindow x y w h flags st =
     (case rpcCall (wmServer st) ''wmCreateWindow'' (concat (map le_bytes [x, y, int w, int h, int flags]))
             MSG_RPC_RESP_PAYLOAD_SIZE DEFAULT_RPC_TIMEOUT (wsys st) of
        ((res, resp), s) \<Rightarrow>
          let st = st\<lparr>wsys := s\<rparr> in
          case resp of None \<Rightarrow> Some (None, st)
          | Some r \<Rightarrow> if res < 0 \<or> resp_word r 0 < 0 then Some (None, st) else wm_attach r w h st)"

text \<open>A null window is \<open>None\<close>; otherwise the object and its address.\<close>

(* src/user/libwoot/wm.c:80-95 wmDeleteWindow *)
definition wmDeleteWindow :: "(nat \<times> wmWindow) option \<Rightarrow> wmWorld \<Rightarrow> (int \<times> wmWorld) option" where
  "wmDeleteWindow window st =
     (case window of None \<Rightarrow> Some (- EINVAL, st)
      | Some (wnd, W) \<Rightarrow>
          (case rpcCall (wmServer st) ''wmDeleteWindow'' (le_bytes (wid W)) 4 DEFAULT_RPC_TIMEOUT (wsys st) of
             ((res, resp), s) \<Rightarrow>
               let st = st\<lparr>wsys := s\<rparr>;
                   response = (case resp of None \<Rightarrow> - ENOSYS | Some r \<Rightarrow> le_int r) in
               if res < 0 then Some (res, st)
               else
                 (case wpixMap W of
                    None \<Rightarrow> Some (response, st\<lparr>wheap := free wnd (wheap st)\<rparr>)
                  | Some pm \<Rightarrow>
                      (case hpms (wheap st) pm of None \<Rightarrow> None
                       | Some p \<Rightarrow>
                           (case pmDelete (Some pm) (wheap st) of None \<Rightarrow> None
                            | Some hp \<Rightarrow>
                                let s = snd (ipcUnMapSharedMem (shMemHandle W) (Pixels p) s);
                                    s = snd (ipcCloseSharedMem (shMemHandle W) s)
                                in Some (response, st\<lparr>wsys := s, wheap := free wnd hp\<rparr>))))))"

(* src/user/libwoot/wm.c:97-100 wmGetPixMap *)
definition wmGetPixMap :: "wmWindow \<Rightarrow> nat option" where
  "wmGetPixMap window = wpixMap window"

(* src/user/libwoot/wm.c:102-105 wmRedrawWindow *)
definition wmRedrawWindow :: "wmWindow \<Rightarrow> wmWorld \<Rightarrow> wmWorld" where
  "wmRedrawWindow window st =
     st\<lparr>wsys := snd (rpcCall (wmServer st) ''wmRedrawWindow'' (le_bytes (wid window)) 0 DEFAULT_RPC_TIMEOUT (wsys st))\<rparr>"

section \<open>Shared memory and blocks\<close>

text \<open>
  A window that cannot be set up leaves nothing behind: whenever \<open>wmCreateWindow\<close> fails after the server
  agreed (no memory for the window, no such shared memory, mapping refused, no memory for the pixmap)
  every block it allocated is freed again, and if the shared memory had been opened, its last call
  closes exactly that handle. The only fault is the palette of an 8-bit format that cannot be allocated.
\<close>

lemma window_attach_failure_releases:
  assumes "fresh_answers (wheap st)"
  shows "case wm_attach resp w h st of
      None \<Rightarrow> BPP (resp_format resp) \<le> 8
    | Some (Some x, st') \<Rightarrow> True
    | Some (None, st') \<Rightarrow> same_resources (wheap st) (wheap st')
        \<and> (let handle = fst (ipcOpenSharedMem (resp_name resp) (wsys st)) in
           calls (wsys st') = calls (wsys st)
           \<or> (if handle < 0 then wsys st' = snd (ipcOpenSharedMem (resp_name resp) (wsys st))
              else last (calls (wsys st')) = (SYS_IPC_CLOSE_SHMEM, [AInt handle])))"
  using assms
proof (cases rule: calloc_cases [of "wheap st" 12])
  case (1 hp)
  then show ?thesis by (simp add: wm_attach_def)
next
  case c: (2 wnd hp)
  obtain handle s1 where o: "ipcOpenSharedMem (resp_name resp) (wsys st) = (handle, s1)" by force
  obtain pixels s2 where m: "ipcMapSharedMem handle 0 1 s1 = (pixels, s2)" by force
  have cl: "last (calls (snd (ipcCloseSharedMem handle s))) = (SYS_IPC_CLOSE_SHMEM, [AInt handle])" for s
    by (simp add: ipcCloseSharedMem_def sys_def syscall_def Let_def split: list.splits)
  have fr: "same_resources (wheap st) (free wnd hp')" if "same_resources hp hp'" for hp'
    using c that by (auto simp: same_resources_def free_def)
  have fr0: "same_resources hp hp" by (simp add: same_resources_def)
  show ?thesis
  proof (cases "handle < 0 \<or> pixels = 0")
    case True
    with c o m cl fr [OF fr0] show ?thesis by (auto simp: wm_attach_def)
  next
    case False
    from c(9) show ?thesis
      by (cases rule: pmFromMemory_cases [of hp "i32 (int w)" "i32 (int h)" "pmFormatPixelsToBytesP (resp_format resp) w"
              "resp_format resp" "nat (pixels mod 2 ^ 32)" 0])
         (use False c o m cl fr in \<open>auto simp: wm_attach_def Let_def\<close>)
  qed
qed

definition demo_world :: wmWorld where
  "demo_world = \<lparr>wsys = \<lparr>answers = [(5, ONone), (0, ONone), (0, ONone)], calls = []\<rparr>, wheap = demo_heap, wmServer = ''proc://2''\<rparr>"

end
