(* ===== verification/WinServer.thy ===== *)
theory WinServer
  imports Wm "HOL-Library.Monad_Syntax"
begin

text \<open>
  The window manager \<open>user/windowmanager/wm.cpp\<close> and its windows \<open>user/windowmanager/window.cpp\<close>, the server of
  the RPC calls of theory \<open>Wm\<close>. A window is an object on the heap, given by its address; \<open>windows\<close> is the vector
  of windows from the bottom to the top, as the list that \<open>Vec\<close> shows it to be when its growth is granted; that an
  insertion into it (\<open>wm.cpp:184\<close>) can fail for want of memory is not modelled.
  \<open>None\<close> is a fault: an access through a null pointer or to a deleted window or pixmap. Printing is left out.
\<close>

section \<open>Windows\<close>

(* src/user/libwoot/woot/wm.h:11-11 macro WM_CWF_NONE *)
abbreviation (input) WM_CWF_NONE :: nat where
  "WM_CWF_NONE \<equiv> 0"

(* src/user/libwoot/woot/wm.h:20-20 macro WM_CWF_USEALPHA *)
abbreviation (input) WM_CWF_USEALPHA :: nat where
  "WM_CWF_USEALPHA \<equiv> 256"

(* src/user/windowmanager/window.hpp:11-17 Window, fields *)
record Window =
  wndID :: int
  wndRect :: rcRectangle
  wndFlags :: nat
  shMemName :: "(nat \<times> string) option"
  wndPixels :: nat
  pixelsShMem :: int
  wndPixMap :: "nat option"

text \<open>
  The state of the server: the kernel's side, the heap, the windows that are alive and the number of the last
  one, the variables of \<open>main\<close>.
\<close>

record wserver =
  ssys :: sysw
  sheap :: pmHeap
  wobjs :: "nat \<rightharpoonup> Window"
  ids :: int
  windows :: "nat list"
  mouseWnd :: "nat option"
  mouseX :: int
  mouseY :: int
  dirtyRect :: rcRectangle
  fbPixMap :: nat
  bbPixMap :: nat
  fbFormat :: pmPixelFormat
  screenWidth :: int
  screenHeight :: int
  cursorHotX :: int
  cursorHotY :: int

definition sysdo :: "(sysw \<Rightarrow> int \<times> sysw) \<Rightarrow> wserver \<Rightarrow> int \<times> wserver" where
  "sysdo f s = (case f (ssys s) of (r, w) \<Rightarrow> (r, s\<lparr>ssys := w\<rparr>))"

definition strdup :: "string \<Rightarrow> pmHeap \<Rightarrow> (nat \<times> string) option \<times> pmHeap" where
  "strdup str h = (case calloc (length str + 1) h of (p, h) \<Rightarrow> (map_option (\<lambda>p. (p, str)) p, h))"

(* src/user/windowmanager/window.cpp:15-31 Window::Window, constructor *)
definition Window_new :: "int \<Rightarrow> int \<Rightarrow> nat \<Rightarrow> nat \<Rightarrow> nat \<Rightarrow> pmPixelFormat \<Rightarrow> wserver \<Rightarrow> (nat \<times> wserver) option" where
  "Window_new x y w h flags format s =
     (case calloc 44 (sheap s) of
        (None, hp) \<Rightarrow> None
      | (Some a, hp) \<Rightarrow>
          let s = s\<lparr>sheap := hp, ids := i32 (ids s + 1)\<rparr>;
              rect = \<lparr>rcX = x, rcY = y, rcWidth = i32 (int w), rcHeight = i32 (int h)\<rparr>;
              pgSize = 4096;
              nameBuf = snprintf 64 (''window_'' @ show_int (ids s) @ ''_pixels'');
              pmPitch = pmFormatPixelsToBytesP format w;
              (shm, s) = sysdo (ipcCreateSharedMem nameBuf (align (u32 (pmPitch * h)) pgSize)) s;
              (pixels, s) = (if shm \<ge> 0 then sysdo (ipcMapSharedMem shm 0 1) s else (0, s));
              pixels = nat (pixels mod 2 ^ 32)
          in do { (pm, hp) \<leftarrow> (if pixels \<noteq> 0 then pmFromMemory (rcWidth rect) (rcHeight rect) pmPitch format pixels 0 (sheap s)
                              else Some (None, sheap s));
                  let (name, hp) = strdup nameBuf hp;
                  Some (a, s\<lparr>sheap := hp, wobjs := (wobjs s)(a \<mapsto>
                     \<lparr>wndID = ids s, wndRect = rect, wndFlags = flags, shMemName = name, wndPixels = pixels,
                      pixelsShMem = shm, wndPixMap = pm\<rparr>)\<rparr>) })"

(* src/user/windowmanager/window.cpp:38-41 Window::GetPixelFormat *)
definition GetPixelFormat :: "Window \<Rightarrow> wserver \<Rightarrow> pmPixelFormat option" where
  "GetPixelFormat W s =
     (case wndPixMap W of None \<Rightarrow> Some pmFormatInvalid | Some p \<Rightarrow> map_option Format (hpms (sheap s) p))"

(* src/user/windowmanager/window.cpp:53-56 Window::GetDecoratedRect *)
definition GetDecoratedRect :: "Window \<Rightarrow> rcRectangle" where
  "GetDecoratedRect W = wndRect W"

(* src/user/windowmanager/window.cpp:68-72 Window::SetPosition *)
definition SetPosition :: "int \<Rightarrow> int \<Rightarrow> Window \<Rightarrow> Window" where
  "SetPosition x y W = W\<lparr>wndRect := (wndRect W)\<lparr>rcX := x, rcY := y\<rparr>\<rparr>"

(* src/user/windowmanager/window.cpp:74-80 Window::~Window *)
definition Window_delete :: "nat \<Rightarrow> wserver \<Rightarrow> wserver option" where
  "Window_delete a s =
     do { W \<leftarrow> wobjs s a;
          let hp = (case shMemName W of None \<Rightarrow> sheap s | Some (p, _) \<Rightarrow> free p (sheap s));
          hp \<leftarrow> pmDelete (wndPixMap W) hp;
          let s = s\<lparr>sheap := hp\<rparr>;
          let s = (if wndPixels W \<noteq> 0 then snd (sysdo (ipcUnMapSharedMem (pixelsShMem W) (wndPixels W)) s) else s);
          let s = (if pixelsShMem W \<noteq> 0 then snd (sysdo (ipcCloseSharedMem (pixelsShMem W)) s) else s);
          Some (s\<lparr>sheap := free a (sheap s), wobjs := (wobjs s)(a := None)\<rparr>) }"

section \<open>The server\<close>

(* src/user/windowmanager/wm.cpp:245-253 getWindowById *)
fun getWindowById :: "(nat \<rightharpoonup> Window) \<Rightarrow> nat list \<Rightarrow> int \<Rightarrow> nat option option" where
  "getWindowById objs [] i = Some None"
| "getWindowById objs (a # as) i = do { W \<leftarrow> objs a; if wndID W = i then Some (Some a) else getWindowById objs as i }"

(* src/user/windowmanager/wm.cpp:255-260 moveWindow *)
definition moveWindow :: "nat \<Rightarrow> int \<Rightarrow> int \<Rightarrow> wserver \<Rightarrow> wserver option" where
  "moveWindow a x y s =
     do { W \<leftarrow> wobjs s a;
          let d = rcAdd (dirtyRect s) (GetDecoratedRect W);
          let W = SetPosition x y W;
          Some (s\<lparr>wobjs := (wobjs s)(a \<mapsto> W), dirtyRect := rcAdd d (GetDecoratedRect W)\<rparr>) }"

text \<open>One window painted into the back buffer, where it meets the rectangle.\<close>

(* src/user/windowmanager/wm.cpp:265-278 updateRect, loop body *)
definition paintWindow :: "pmPixMap \<Rightarrow> rcRectangle \<Rightarrow> (nat \<rightharpoonup> Window) \<Rightarrow> (nat \<rightharpoonup> pmPixMap) \<Rightarrow> nat \<Rightarrow> mem \<Rightarrow> mem option" where
  "paintWindow bb rect objs pms a m =
     do { W \<leftarrow> objs a;
          let rc = GetDecoratedRect W;
          let is = rcIntersectP rect rc;
          if rcIsEmptyP is then Some m
          else do { p \<leftarrow> wndPixMap W;
                    pm \<leftarrow> pms p;
                    let sx = i32 (rcX is - rcX rc);
                    let sy = i32 (rcY is - rcY rc);
                    Some (if odd (wndFlags W div WM_CWF_USEALPHA)
                          then pmAlphaBlit m bb pm sx sy (rcX is) (rcY is) (rcWidth is) (rcHeight is)
                          else pmBlit m bb pm sx sy (rcX is) (rcY is) (rcWidth is) (rcHeight is)) } }"

fun paintAll :: "pmPixMap \<Rightarrow> rcRectangle \<Rightarrow> (nat \<rightharpoonup> Window) \<Rightarrow> (nat \<rightharpoonup> pmPixMap) \<Rightarrow> nat list \<Rightarrow> mem \<Rightarrow> mem option" where
  "paintAll bb rect objs pms [] m = Some m"
| "paintAll bb rect objs pms (a # as) m = do { m \<leftarrow> paintWindow bb rect objs pms a m; paintAll bb rect objs pms as m }"

(* src/user/windowmanager/wm.cpp:262-281 updateRect *)
definition updateRect :: "rcRectangle \<Rightarrow> wserver \<Rightarrow> wserver option" where
  "updateRect rect s =
     do { let h = sheap s;
          fb \<leftarrow> hpms h (fbPixMap s);
          bb \<leftarrow> hpms h (bbPixMap s);
          m \<leftarrow> paintAll bb rect (wobjs s) (hpms h) (windows s) (hmem h);
          Some (s\<lparr>sheap := h\<lparr>hmem := pmBlit m fb bb (rcX rect) (rcY rect) (rcX rect) (rcY rect) (rcWidth rect) (rcHeight rect)\<rparr>\<rparr>) }"

text \<open>The payload of a request: the name of the procedure, a null byte and the arguments.\<close>

definition msg_string :: "byte list \<Rightarrow> string" where
  "msg_string bs = map (\<lambda>b. char_of (unat b)) (takeWhile (\<lambda>b. b \<noteq> 0) bs)"

definition msg_args :: "byte list \<Rightarrow> byte list" where
  "msg_args bs = drop (length (msg_string bs) + 1) bs"

definition arg_int :: "byte list \<Rightarrow> nat \<Rightarrow> int" where
  "arg_int args k = le_int (take 4 (drop (4 * k) args))"

definition arg_uint :: "byte list \<Rightarrow> nat \<Rightarrow> nat" where
  "arg_uint args k = nat (arg_int args k mod 2 ^ 32)"

text \<open>The response to \<open>wmCreateWindow\<close>. The bytes after the name are those of the stack; here they are 0.\<close>

definition format_bytes :: "pmPixelFormat \<Rightarrow> byte list" where
  "format_bytes f = concat (map (\<lambda>v. le_bytes (int v))
     [BPP f, AlphaBits f, RedBits f, GreenBits f, BlueBits f, AlphaShift f, RedShift f, GreenShift f, BlueShift f])"

(* src/user/windowmanager/wm.cpp:187-200 main, response to wmCreateWindow *)
definition create_response :: "Window \<Rightarrow> pmPixelFormat \<Rightarrow> byte list" where
  "create_response W fmt =
     (let name = (case shMemName W of None \<Rightarrow> ''(null)'' | Some (_, n) \<Rightarrow> n);
          bs = le_bytes (wndID W) @ format_bytes fmt @ str_bytes (snprintf (MSG_RPC_RESP_PAYLOAD_SIZE - 40) name)
      in bs @ replicate (MSG_RPC_RESP_PAYLOAD_SIZE - length bs) 0)"

(* src/user/windowmanager/wm.cpp:163-203 main, wmCreateWindow *)
definition createWindow :: "ipcMessage \<Rightarrow> byte list \<Rightarrow> wserver \<Rightarrow> wserver option" where
  "createWindow msg args s =
     do { (a, s) \<leftarrow> Window_new (arg_int args 0) (arg_int args 1) (arg_uint args 2) (arg_uint args 3) (arg_uint args 4) (fbFormat s) s;
          W \<leftarrow> wobjs s a;
          let s = s\<lparr>dirtyRect := rcAdd (dirtyRect s) (GetDecoratedRect W)\<rparr>;
          let mouseWndIdx = length (takeWhile (\<lambda>b. Some b \<noteq> mouseWnd s) (windows s));
          let s = s\<lparr>windows := take mouseWndIdx (windows s) @ a # drop mouseWndIdx (windows s)\<rparr>;
          fmt \<leftarrow> GetPixelFormat W s;
          Some (snd (sysdo (rpcIPCReturn (Source msg) (ID msg) (create_response W fmt)) s)) }"

(* src/user/windowmanager/wm.cpp:204-214 main, wmDeleteWindow *)
definition deleteWindow :: "ipcMessage \<Rightarrow> byte list \<Rightarrow> wserver \<Rightarrow> wserver option" where
  "deleteWindow msg args s =
     do { wnd \<leftarrow> getWindowById (wobjs s) (windows s) (arg_int args 0);
          s \<leftarrow> (case wnd of None \<Rightarrow> Some s | Some a \<Rightarrow> Window_delete a (s\<lparr>windows := remove1 a (windows s)\<rparr>));
          Some (snd (sysdo (rpcIPCReturn (Source msg) (ID msg) []) s)) }"

(* src/user/windowmanager/wm.cpp:215-222 main, wmRedrawWindow *)
definition redrawWindow :: "ipcMessage \<Rightarrow> byte list \<Rightarrow> wserver \<Rightarrow> wserver option" where
  "redrawWindow msg args s =
     do { wnd \<leftarrow> getWindowById (wobjs s) (windows s) (arg_int args 0);
          rect \<leftarrow> (case wnd of None \<Rightarrow> Some rcRectangleEmpty | Some a \<Rightarrow> map_option GetDecoratedRect (wobjs s a));
          let s = s\<lparr>dirtyRect := rcAddP (dirtyRect s) rect\<rparr>;
          Some (snd (sysdo (rpcIPCReturn (Source msg) (ID msg) []) s)) }"

(* src/user/windowmanager/wm.cpp:144-158 main, MSG_MOUSE_EVENT *)
definition mouseEvent :: "byte list \<Rightarrow> wserver \<Rightarrow> wserver option" where
  "mouseEvent bs s =
     (let clip = (\<lambda>v n. if v < 0 then 0 else if v \<ge> n then i32 (n - 1) else v);
          s = s\<lparr>mouseX := clip (i32 (mouseX s + arg_int bs 3)) (screenWidth s),
                mouseY := clip (i32 (mouseY s + arg_int bs 4)) (screenHeight s)\<rparr>
      in case mouseWnd s of
           None \<Rightarrow> Some s
         | Some a \<Rightarrow> moveWindow a (i32 (mouseX s - cursorHotX s)) (i32 (mouseY s - cursorHotY s)) s)"

text \<open>What the server does with a message, other than \<open>MSG_QUIT\<close>.\<close>

(* src/user/windowmanager/wm.cpp:142-226 main, a message *)
definition wm_message :: "ipcMessage \<Rightarrow> wserver \<Rightarrow> wserver option" where
  "wm_message msg s =
     (if Number msg = MSG_MOUSE_EVENT then mouseEvent (Data msg) s
      else if Number msg = MSG_RPC_REQUEST then
        let req = msg_string (Data msg); args = msg_args (Data msg) in
        if req = ''wmCreateWindow'' then createWindow msg args s
        else if req = ''wmDeleteWindow'' then deleteWindow msg args s
        else if req = ''wmRedrawWindow'' then redrawWindow msg args s
        else Some s
      else if Number msg = MSG_RPC_FIND_SERVER \<and> msg_string (Data msg) = ''windowmanager'' then
        Some (snd (sysdo (rpcIPCFindServerRespond (Source msg) (ID msg)) s))
      else Some s)"

definition get_msg :: "int \<Rightarrow> ipcMessage \<Rightarrow> wserver \<Rightarrow> int \<times> ipcMessage \<times> wserver" where
  "get_msg timeout msg s =
     (case ipcGetMessage timeout (ssys s) of (r, out, w) \<Rightarrow> (r, case out of OMsg m \<Rightarrow> m | _ \<Rightarrow> msg, s\<lparr>ssys := w\<rparr>))"

text \<open>
  One message, and the next one: when there is none at hand, the dirty rectangle is painted and the server waits.
  The first component says that the server ends.
\<close>

(* src/user/windowmanager/wm.cpp:135-232 main, loop body *)
definition wm_turn :: "ipcMessage \<Rightarrow> wserver \<Rightarrow> (bool \<times> ipcMessage \<times> wserver) option" where
  "wm_turn msg s =
     (let s = snd (sysdo (ipcProcessMessage (Some msg)) s) in
      if Number msg = MSG_QUIT then Some (True, msg, s)
      else
        do { s \<leftarrow> wm_message msg s;
             let (r, msg, s) = get_msg 0 msg s;
             if r \<ge> 0 then Some (False, msg, s)
             else do { s \<leftarrow> (if \<not> rcIsEmptyP (dirtyRect s) then updateRect (dirtyRect s) s else Some s);
                       let (r, msg, s) = get_msg (- 1) msg (s\<lparr>dirtyRect := rcRectangleEmpty\<rparr>);
                       Some (False, msg, s) } })"

text \<open>\<open>n\<close> turns of the loop, or fewer when the server ends; \<open>True\<close> says that it ended.\<close>

primrec wm_run :: "nat \<Rightarrow> ipcMessage \<Rightarrow> wserver \<Rightarrow> (bool \<times> wserver) option" where
  "wm_run 0 msg s = Some (False, s)"
| "wm_run (Suc n) msg s =
     do { (quit, msg, s) \<leftarrow> wm_turn msg s; if quit then Some (True, s) else wm_run n msg s }"

section \<open>Start and end\<close>

text \<open>
  The start of \<open>main\<close>: \<open>Inl\<close> is the result of a program that gives up. \<open>errno\<close> is what the C library holds;
  \<open>logo\<close> and \<open>cursor\<close> are the files \<open>/logo.png\<close> and \<open>/normal.cur\<close>.
\<close>

(* src/user/windowmanager/wm.cpp:73-84 main, fbFormat *)
definition mode_format :: "vidModeInfo \<Rightarrow> pmPixelFormat" where
  "mode_format mi =
     (let u = (\<lambda>v. nat (v mod 2 ^ 32)) in
      \<lparr>BPP = u (miBitsPerPixel mi), AlphaBits = u (miAlphaBits mi), RedBits = u (miRedBits mi), GreenBits = u (miGreenBits mi),
       BlueBits = u (miBlueBits mi), AlphaShift = u (miAlphaShift mi), RedShift = u (miRedShift mi), GreenShift = u (miGreenShift mi),
       BlueShift = u (miBlueShift mi)\<rparr>)"

(* src/user/windowmanager/wm.cpp:38-71 main, opening the display *)
definition wm_display :: "int \<Rightarrow> int \<Rightarrow> int \<Rightarrow> int \<Rightarrow> sysw \<Rightarrow> ((int + vidModeInfo \<times> nat) \<times> sysw) option" where
  "wm_display errno width height depth w =
     (case vidOpenDefaultDisplay w of (display, w) \<Rightarrow>
      if display < 0 then Some (Inl (- errno), w)
      else case vidSetMode2 display width height depth (- 1) (- 1) w of (r, w) \<Rightarrow>
      if r < 0 then Some (Inl (- errno), w)
      else case vidGetCurrentMode display w of (currMode, w) \<Rightarrow>
      if currMode < 0 then Some (Inl (- errno), w)
      else case vidGetModeInfo display currMode w of (r, out, w) \<Rightarrow>
      if r < 0 then Some (Inl (- errno), w)
      else case vidMapPixels display 0 w of (pixels, w) \<Rightarrow>
      if pixels = - 1 then Some (Inl (- errno), w)
      else case out of OMode mi \<Rightarrow> Some (Inr (mi, nat (pixels mod 2 ^ 32)), w) | _ \<Rightarrow> None)"

definition half :: "int \<Rightarrow> int" where
  "half z = (if z < 0 then - ((- z) div 2) else z div 2)"

(* src/user/windowmanager/wm.cpp:102-117 main, desktop window *)
definition wm_desktop :: "pngFile option \<Rightarrow> wserver \<Rightarrow> wserver option" where
  "wm_desktop logo s =
     do { (lg, hp) \<leftarrow> pmLoadPNG logo (sheap s);
          let s = s\<lparr>sheap := hp\<rparr>;
          case lg of
            None \<Rightarrow> Some s
          | Some l \<Rightarrow>
              do { bb \<leftarrow> hpms (sheap s) (bbPixMap s);
                   lp \<leftarrow> hpms (sheap s) l;
                   let (W, H) = (rcWidth (Contents bb), rcHeight (Contents bb));
                   let (w, h) = (rcWidth (Contents lp), rcHeight (Contents lp));
                   (a, s) \<leftarrow> Window_new 0 0 (nat (W mod 2 ^ 32)) (nat (H mod 2 ^ 32)) WM_CWF_NONE (Format bb) s;
                   wnd \<leftarrow> wobjs s a;
                   p \<leftarrow> wndPixMap wnd;
                   pm \<leftarrow> hpms (sheap s) p;
                   let m = pmClear (hmem (sheap s)) pm (pmColorFromRGB 24 64 96);
                   let m = pmAlphaBlit m pm lp 0 0 (half (i32 (W - w))) (half (i32 (H - h))) w h;
                   hp \<leftarrow> pmDelete (Some l) ((sheap s)\<lparr>hmem := m\<rparr>);
                   Some (s\<lparr>sheap := hp, windows := a # windows s\<rparr>) } }"

(* src/user/windowmanager/wm.cpp:119-130 main, mouse cursor window *)
definition wm_cursor :: "byte list option \<Rightarrow> wserver \<Rightarrow> wserver option" where
  "wm_cursor cursor s =
     do { (cu, hot, hp) \<leftarrow> pmLoadCUR cursor 0 (sheap s);
          let s = s\<lparr>sheap := hp\<rparr>;
          let s = (case hot of None \<Rightarrow> s | Some (hx, hy) \<Rightarrow> s\<lparr>cursorHotX := int hx, cursorHotY := int hy\<rparr>);
          case cu of
            None \<Rightarrow> Some s
          | Some c \<Rightarrow>
              do { cp \<leftarrow> hpms (sheap s) c;
                   (a, s) \<leftarrow> Window_new (i32 (mouseX s - cursorHotX s)) (i32 (mouseY s - cursorHotY s))
                     (nat (rcWidth (Contents cp) mod 2 ^ 32)) (nat (rcHeight (Contents cp) mod 2 ^ 32)) WM_CWF_USEALPHA (Format cp) s;
                   wnd \<leftarrow> wobjs s a;
                   p \<leftarrow> wndPixMap wnd;
                   pm \<leftarrow> hpms (sheap s) p;
                   let m = pmBlit (hmem (sheap s)) pm cp 0 0 0 0 (- 1) (- 1);
                   hp \<leftarrow> pmDelete (Some c) ((sheap s)\<lparr>hmem := m\<rparr>);
                   Some (s\<lparr>sheap := hp, mouseWnd := Some a, windows := windows s @ [a]\<rparr>) } }"

(* src/user/windowmanager/wm.cpp:24-136 main, start *)
definition wm_start :: "int \<Rightarrow> string list \<Rightarrow> pngFile option \<Rightarrow> byte list option \<Rightarrow> pmHeap \<Rightarrow> sysw \<Rightarrow> ((int + wserver) \<times> sysw) option" where
  "wm_start errno argv logo cursor h w =
     (let width = (if length argv > 1 then atoi (argv ! 1) else 640);
          height = (if length argv > 2 then atoi (argv ! 2) else 480);
          depth = (if length argv > 3 then atoi (argv ! 3) else 32) in
      do { (r, w) \<leftarrow> wm_display errno width height depth w;
           case r of
             Inl e \<Rightarrow> Some (Inl e, w)
           | Inr (mi, pixels) \<Rightarrow>
               do { let fmt = mode_format mi;
                    (fb, h) \<leftarrow> pmFromMemory (miWidth mi) (miHeight mi) (nat (miPitch mi mod 2 ^ 32)) fmt pixels 0 h;
                    f \<leftarrow> fb;
                    (bb, h) \<leftarrow> pmFromPixMap f fmt h;
                    b \<leftarrow> bb;
                    let w = snd (ipcSendMessage 0 MSG_ACQUIRE_KEYBOARD MSG_FLAG_NONE [] w);
                    let w = snd (ipcSendMessage 0 MSG_ACQUIRE_MOUSE MSG_FLAG_NONE [] w);
                    let w = snd (threadDaemonize w);
                    let s = \<lparr>ssys = w, sheap = h, wobjs = Map.empty, ids = 0, windows = [], mouseWnd = None,
                        mouseX = half width, mouseY = half height, dirtyRect = rcRectangleEmpty, fbPixMap = f, bbPixMap = b,
                        fbFormat = fmt, screenWidth = width, screenHeight = height, cursorHotX = 0, cursorHotY = 0\<rparr>;
                    s \<leftarrow> wm_desktop logo s;
                    s \<leftarrow> wm_cursor cursor s;
                    bbp \<leftarrow> hpms (sheap s) (bbPixMap s);
                    s \<leftarrow> updateRect (Contents bbp) s;
                    Some (Inr s, ssys s) } })"

(* src/user/windowmanager/wm.cpp:235-242 main, end *)
definition wm_end :: "wserver \<Rightarrow> (int \<times> wserver) option" where
  "wm_end s =
     do { let s = snd (sysdo (ipcSendMessage 0 MSG_RELEASE_KEYBOARD MSG_FLAG_NONE []) s);
          let s = snd (sysdo (ipcSendMessage 0 MSG_RELEASE_MOUSE MSG_FLAG_NONE []) s);
          hp \<leftarrow> pmDelete (Some (bbPixMap s)) (sheap s);
          hp \<leftarrow> pmDelete (Some (fbPixMap s)) hp;
          Some (0, s\<lparr>sheap := hp\<rparr>) }"

text \<open>The whole program for at most \<open>n\<close> turns; \<open>msg\<close> is what the variable holds before the first message.\<close>

(* src/user/windowmanager/wm.cpp:24-243 main *)
definition wm_main :: "nat \<Rightarrow> ipcMessage \<Rightarrow> int \<Rightarrow> string list \<Rightarrow> pngFile option \<Rightarrow> byte list option \<Rightarrow> pmHeap \<Rightarrow> sysw \<Rightarrow> (int option \<times> wserver option) option" where
  "wm_main n msg errno argv logo cursor h w =
     do { (r, w) \<leftarrow> wm_start errno argv logo cursor h w;
          case r of
            Inl e \<Rightarrow> Some (Some e, None)
          | Inr s \<Rightarrow>
              do { let (_, msg, s) = get_msg (- 1) msg s;
                   (quit, s) \<leftarrow> wm_run n msg s;
                   if quit then do { (res, s) \<leftarrow> wm_end s; Some (Some res, Some s) } else Some (None, Some s) } }"

section \<open>Painting\<close>

text \<open>The frame buffer and the back buffer: of one size and one format, in memory of their own.\<close>

definition screen :: "wserver \<Rightarrow> pmPixMap \<Rightarrow> pmPixMap \<Rightarrow> bool" where
  "screen s fb bb \<longleftrightarrow> hpms (sheap s) (fbPixMap s) = Some fb \<and> hpms (sheap s) (bbPixMap s) = Some bb \<and>
     blit_ready fb \<and> blit_ready bb \<and> Format fb = Format bb \<and> buffers_disjoint fb bb \<and>
     rcWidth (Contents fb) = rcWidth (Contents bb) \<and> rcHeight (Contents fb) = rcHeight (Contents bb)"

text \<open>An opaque window of the screen's format, with a pixmap of its size apart from the buffers of the screen.\<close>

definition opaque :: "pmPixMap \<Rightarrow> pmPixMap \<Rightarrow> Window \<Rightarrow> pmPixMap \<Rightarrow> bool" where
  "opaque fb bb W pm \<longleftrightarrow> even (wndFlags W div WM_CWF_USEALPHA) \<and> rc_small (wndRect W) \<and> blit_ready pm \<and> Format pm = Format bb \<and>
     rcWidth (Contents pm) = rcWidth (wndRect W) \<and> rcHeight (Contents pm) = rcHeight (wndRect W) \<and>
     buffers_disjoint bb pm \<and> buffers_disjoint fb pm"

text \<open>Every window that meets the rectangle is opaque.\<close>

definition meets :: "rcRectangle \<Rightarrow> Window \<Rightarrow> bool" where
  "meets rect W \<longleftrightarrow> \<not> rcIsEmptyP (rcIntersectP rect (wndRect W))"

definition all_opaque :: "pmPixMap \<Rightarrow> pmPixMap \<Rightarrow> rcRectangle \<Rightarrow> (nat \<rightharpoonup> Window) \<Rightarrow> (nat \<rightharpoonup> pmPixMap) \<Rightarrow> nat list \<Rightarrow> bool" where
  "all_opaque fb bb rect objs pms as \<longleftrightarrow>
     (\<forall>a \<in> set as. \<exists>W. objs a = Some W \<and> rc_small (wndRect W) \<and>
        (meets rect W \<longrightarrow> (\<exists>p pm. wndPixMap W = Some p \<and> pms p = Some pm \<and> opaque fb bb W pm)))"

text \<open>The colour of a point: that of the topmost window there, or of what lies below all windows.\<close>

fun point_colour :: "mem \<Rightarrow> (nat \<rightharpoonup> Window) \<Rightarrow> (nat \<rightharpoonup> pmPixMap) \<Rightarrow> int \<Rightarrow> int \<Rightarrow> nat list \<Rightarrow> pmColor \<Rightarrow> pmColor" where
  "point_colour m objs pms X Y [] c = c"
| "point_colour m objs pms X Y (a # as) c =
     (let W = the (objs a) in
      point_colour m objs pms X Y as
        (if rcContainsPoint (wndRect W) X Y
         then pmGetPixel m (the (pms (the (wndPixMap W)))) (X - rcX (wndRect W)) (Y - rcY (wndRect W)) else c))"

lemma rc_corners:
  assumes "rc_small r" "\<not> rcIsEmptyP r"
  shows "(rcX r, rcY r) \<in> rc_pts r" "(rcX r + rcWidth r - 1, rcY r + rcHeight r - 1) \<in> rc_pts r"
  using assms by (auto simp: rc_pts_small rcIsEmptyP_def)

lemma meeting_rect:
  assumes "rc_small rect" "rc_small rc" "rect_in bb (rcX rect) (rcY rect) (rcWidth rect) (rcHeight rect)"
    and "rcWidth (Contents pm) = rcWidth rc" "rcHeight (Contents pm) = rcHeight rc"
    and "\<not> rcIsEmptyP (rcIntersectP rect rc)"
  defines "is \<equiv> rcIntersectP rect rc"
  shows "i32 (rcX is - rcX rc) = rcX is - rcX rc" "i32 (rcY is - rcY rc) = rcY is - rcY rc"
    and "rect_in bb (rcX is) (rcY is) (rcWidth is) (rcHeight is)"
    and "rect_in pm (rcX is - rcX rc) (rcY is - rcY rc) (rcWidth is) (rcHeight is)"
    and "(rcX is \<le> X \<and> X < rcX is + rcWidth is \<and> rcY is \<le> Y \<and> Y < rcY is + rcHeight is) \<longleftrightarrow> rcContainsPoint rect X Y \<and> rcContainsPoint rc X Y"
proof -
  have sm: "rc_small is" and pts: "rc_pts is = rc_pts rect \<inter> rc_pts rc"
    using rcIntersect_small [OF assms(1,2)] by (simp_all add: is_def rcIntersect_def)
  have ne: "\<not> rcIsEmptyP is" using assms(6) by (simp add: is_def)
  have c: "rcX rect \<le> rcX is" "rcY rect \<le> rcY is" "rcX rc \<le> rcX is" "rcY rc \<le> rcY is"
    "rcX is + rcWidth is \<le> rcX rect + rcWidth rect" "rcY is + rcHeight is \<le> rcY rect + rcHeight rect"
    "rcX is + rcWidth is \<le> rcX rc + rcWidth rc" "rcY is + rcHeight is \<le> rcY rc + rcHeight rc"
    using rc_corners [OF sm ne] unfolding pts by (auto simp: rc_pts_small [OF assms(1)] rc_pts_small [OF assms(2)])
  show "i32 (rcX is - rcX rc) = rcX is - rcX rc" "i32 (rcY is - rcY rc) = rcY is - rcY rc"
    using c sm assms(2) by (auto simp: rc_small_def intro!: i32_small in_i32I)
  show "rect_in bb (rcX is) (rcY is) (rcWidth is) (rcHeight is)"
    using c ne assms(3) by (auto simp: rect_in_def rcIsEmptyP_def)
  show "rect_in pm (rcX is - rcX rc) (rcY is - rcY rc) (rcWidth is) (rcHeight is)"
    using c ne assms(4,5) by (auto simp: rect_in_def rcIsEmptyP_def)
  have "(X, Y) \<in> rc_pts is \<longleftrightarrow> (X, Y) \<in> rc_pts rect \<and> (X, Y) \<in> rc_pts rc" using pts by blast
  then show "(rcX is \<le> X \<and> X < rcX is + rcWidth is \<and> rcY is \<le> Y \<and> Y < rcY is + rcHeight is) \<longleftrightarrow> rcContainsPoint rect X Y \<and> rcContainsPoint rc X Y"
    unfolding rc_pts_small [OF sm] by (auto simp: rc_pts_def)
qed

lemma not_meeting:
  assumes "rc_small rect" "rc_small (wndRect W)" "\<not> meets rect W"
  shows "\<not> (rcContainsPoint rect X Y \<and> rcContainsPoint (wndRect W) X Y)"
proof -
  have "rc_pts (rcIntersectP rect (wndRect W)) = rc_pts rect \<inter> rc_pts (wndRect W)" "rc_small (rcIntersectP rect (wndRect W))"
    using rcIntersect_small [of rect "wndRect W"] assms(1,2) by (simp_all add: rcIntersect_def)
  then have "rc_pts rect \<inter> rc_pts (wndRect W) = {}"
    using assms(3) rc_pts_empty [of "rcIntersectP rect (wndRect W)"] by (simp add: rcIsEmpty_def meets_def)
  then show ?thesis by (auto simp: rc_pts_def)
qed

lemma paintWindow_ok:
  assumes "blit_ready bb" "rc_small rect" "rect_in bb (rcX rect) (rcY rect) (rcWidth rect) (rcHeight rect)"
    and "objs a = Some W" "rc_small (wndRect W)"
    and "meets rect W \<longrightarrow> (\<exists>p. wndPixMap W = Some p \<and> pms p = Some pm \<and> opaque fb bb W pm)"
  shows "\<exists>m'. paintWindow bb rect objs pms a m = Some m' \<and>
     (\<forall>X Y. pm_in bb X Y \<longrightarrow> pmGetPixel m' bb X Y =
        (if rcContainsPoint rect X Y \<and> rcContainsPoint (wndRect W) X Y
         then pmGetPixel m pm (X - rcX (wndRect W)) (Y - rcY (wndRect W)) else pmGetPixel m bb X Y)) \<and>
     (\<forall>q X Y. pm_ok q \<and> buffers_disjoint bb q \<and> pm_in q X Y \<longrightarrow> pmGetPixel m' q X Y = pmGetPixel m q X Y)"
proof (cases "rcIsEmptyP (rcIntersectP rect (wndRect W))")
  case True
  then have "\<not> (rcContainsPoint rect X Y \<and> rcContainsPoint (wndRect W) X Y)" for X Y
    using not_meeting [OF assms(2,5)] by (simp add: meets_def)
  then show ?thesis using True assms(4) by (auto simp: paintWindow_def GetDecoratedRect_def)
next
  case False
  let ?is = "rcIntersectP rect (wndRect W)" and ?rc = "wndRect W"
  obtain p where p: "wndPixMap W = Some p" "pms p = Some pm" "opaque fb bb W pm" using assms(6) False by (auto simp: meets_def)
  note P = p(3) [unfolded opaque_def]
  have op: "rc_small ?rc" "rcWidth (Contents pm) = rcWidth ?rc" "rcHeight (Contents pm) = rcHeight ?rc" using P by blast+
  note M = meeting_rect [OF assms(2) op(1) assms(3) op(2,3) False]
  let ?m = "pmBlit m bb pm (rcX ?is - rcX ?rc) (rcY ?is - rcY ?rc) (rcX ?is) (rcY ?is) (rcWidth ?is) (rcHeight ?is)"
  have m': "paintWindow bb rect objs pms a m = Some ?m"
    using False assms(4) p(1,2) P by (simp add: paintWindow_def GetDecoratedRect_def Let_def M(1,2))
  have b: "blit_ready pm" "Format bb = Format pm" "Pitch bb = Pitch pm \<or> buffers_disjoint bb pm" using P by auto
  have "pmGetPixel ?m bb X Y = (if rcContainsPoint rect X Y \<and> rcContainsPoint ?rc X Y
         then pmGetPixel m pm (X - rcX ?rc) (Y - rcY ?rc) else pmGetPixel m bb X Y)" if "pm_in bb X Y" for X Y
    using blit_get [OF assms(1) b(1,2) M(4,3) b(3) that, of m] M(5) [of X Y] by (auto simp: algebra_simps)
  moreover have "pmGetPixel ?m q X Y = pmGetPixel m q X Y" if "pm_ok q" "buffers_disjoint bb q" "pm_in q X Y" for q X Y
    using blit_other [OF assms(1) b(1,2) M(4,3) b(3) that] .
  ultimately show ?thesis using m' by blast
qed

lemma opaque_point:
  assumes "opaque fb bb W pm" "rcContainsPoint (wndRect W) X Y"
  shows "pm_in pm (X - rcX (wndRect W)) (Y - rcY (wndRect W))" "pm_ok pm" "buffers_disjoint bb pm"
proof -
  have "(X, Y) \<in> rc_pts (wndRect W)" using assms(2) by (simp add: rc_pts_def)
  then show "pm_in pm (X - rcX (wndRect W)) (Y - rcY (wndRect W))"
    using assms(1) by (auto simp: rc_pts_small opaque_def pm_in_def)
  show "pm_ok pm" "buffers_disjoint bb pm" using assms(1) by (simp_all add: opaque_def blit_ready_def)
qed

lemma point_colour_mem:
  assumes "all_opaque fb bb rect objs pms as" "rc_small rect" "rcContainsPoint rect X Y"
    and "\<And>q X Y. pm_ok q \<and> buffers_disjoint bb q \<and> pm_in q X Y \<Longrightarrow> pmGetPixel m' q X Y = pmGetPixel m q X Y"
  shows "point_colour m' objs pms X Y as c = point_colour m objs pms X Y as c"
  using assms(1)
proof (induction as arbitrary: c)
  case (Cons a as)
  then obtain W where W: "objs a = Some W" "rc_small (wndRect W)"
    "meets rect W \<Longrightarrow> \<exists>p pm. wndPixMap W = Some p \<and> pms p = Some pm \<and> opaque fb bb W pm" by (auto simp: all_opaque_def)
  have "all_opaque fb bb rect objs pms as" using Cons.prems by (simp add: all_opaque_def)
  note IH = Cons.IH [OF this]
  show ?case
  proof (cases "rcContainsPoint (wndRect W) X Y")
    case True
    then have "meets rect W" using not_meeting [OF assms(2) W(2)] assms(3) by blast
    then obtain p pm where p: "wndPixMap W = Some p" "pms p = Some pm" "opaque fb bb W pm" using W(3) by blast
    then show ?thesis using IH W(1) opaque_point [OF p(3) True] assms(4) by (simp add: Let_def)
  next
    case False
    then show ?thesis using IH W(1) by (simp add: Let_def)
  qed
qed simp

lemma paintAll_ok:
  assumes "blit_ready bb" "rc_small rect" "rect_in bb (rcX rect) (rcY rect) (rcWidth rect) (rcHeight rect)"
    and "all_opaque fb bb rect objs pms as"
  shows "\<exists>m'. paintAll bb rect objs pms as m = Some m' \<and>
     (\<forall>X Y. pm_in bb X Y \<longrightarrow> pmGetPixel m' bb X Y =
        (if rcContainsPoint rect X Y then point_colour m objs pms X Y as (pmGetPixel m bb X Y) else pmGetPixel m bb X Y)) \<and>
     (\<forall>q X Y. pm_ok q \<and> buffers_disjoint bb q \<and> pm_in q X Y \<longrightarrow> pmGetPixel m' q X Y = pmGetPixel m q X Y)"
  using assms(4)
proof (induction as arbitrary: m)
  case (Cons a as)
  then obtain W where W: "objs a = Some W" "rc_small (wndRect W)"
    "meets rect W \<longrightarrow> (\<exists>p pm. wndPixMap W = Some p \<and> pms p = Some pm \<and> opaque fb bb W pm)" by (auto simp: all_opaque_def)
  define pm where "pm = the (pms (the (wndPixMap W)))"
  have pm: "meets rect W \<longrightarrow> (\<exists>p. wndPixMap W = Some p \<and> pms p = Some pm \<and> opaque fb bb W pm)" using W(3) by (auto simp: pm_def)
  have rest: "all_opaque fb bb rect objs pms as" using Cons.prems by (simp add: all_opaque_def)
  obtain m1 where m1: "paintWindow bb rect objs pms a m = Some m1"
    "\<And>X Y. pm_in bb X Y \<Longrightarrow> pmGetPixel m1 bb X Y =
        (if rcContainsPoint rect X Y \<and> rcContainsPoint (wndRect W) X Y
         then pmGetPixel m pm (X - rcX (wndRect W)) (Y - rcY (wndRect W)) else pmGetPixel m bb X Y)"
    "\<And>q X Y. pm_ok q \<and> buffers_disjoint bb q \<and> pm_in q X Y \<Longrightarrow> pmGetPixel m1 q X Y = pmGetPixel m q X Y"
    using paintWindow_ok [of bb rect objs a W pms pm fb m, OF assms(1-3) W(1,2) pm] by blast
  obtain m2 where m2: "paintAll bb rect objs pms as m1 = Some m2"
    "\<And>X Y. pm_in bb X Y \<Longrightarrow> pmGetPixel m2 bb X Y =
        (if rcContainsPoint rect X Y then point_colour m1 objs pms X Y as (pmGetPixel m1 bb X Y) else pmGetPixel m1 bb X Y)"
    "\<And>q X Y. pm_ok q \<and> buffers_disjoint bb q \<and> pm_in q X Y \<Longrightarrow> pmGetPixel m2 q X Y = pmGetPixel m1 q X Y"
    using Cons.IH [OF rest, of m1] by blast
  have "pmGetPixel m2 bb X Y = (if rcContainsPoint rect X Y then point_colour m objs pms X Y (a # as) (pmGetPixel m bb X Y) else pmGetPixel m bb X Y)"
    if "pm_in bb X Y" for X Y
    using m1(2) [OF that] m2(2) [OF that] point_colour_mem [OF rest assms(2) _ m1(3), of X Y] W(1) by (simp add: Let_def pm_def)
  then show ?case using m1(1,3) m2(1,3) by simp
qed simp

lemma updateRect_ok:
  assumes "screen s fb bb" "all_opaque fb bb rect (wobjs s) (hpms (sheap s)) (windows s)" "rc_small rect"
    and "rect_in bb (rcX rect) (rcY rect) (rcWidth rect) (rcHeight rect)"
  shows "\<exists>s'. updateRect rect s = Some s' \<and> s' = s\<lparr>sheap := (sheap s)\<lparr>hmem := hmem (sheap s')\<rparr>\<rparr> \<and>
     (\<forall>X Y. pm_in fb X Y \<longrightarrow> pmGetPixel (hmem (sheap s')) fb X Y =
        (if rcContainsPoint rect X Y
         then point_colour (hmem (sheap s)) (wobjs s) (hpms (sheap s)) X Y (windows s) (pmGetPixel (hmem (sheap s)) bb X Y)
         else pmGetPixel (hmem (sheap s)) fb X Y))"
proof -
  note S = assms(1) [unfolded screen_def]
  have bb: "blit_ready bb" "blit_ready fb" "pm_ok fb" "buffers_disjoint bb fb" "Format fb = Format bb" "Pitch fb = Pitch bb \<or> buffers_disjoint fb bb"
    using S by (auto simp: blit_ready_def buffers_disjoint_def)
  obtain m where m: "paintAll bb rect (wobjs s) (hpms (sheap s)) (windows s) (hmem (sheap s)) = Some m"
    "\<And>X Y. pm_in bb X Y \<Longrightarrow> pmGetPixel m bb X Y =
        (if rcContainsPoint rect X Y then point_colour (hmem (sheap s)) (wobjs s) (hpms (sheap s)) X Y (windows s) (pmGetPixel (hmem (sheap s)) bb X Y)
         else pmGetPixel (hmem (sheap s)) bb X Y)"
    "\<And>q X Y. pm_ok q \<and> buffers_disjoint bb q \<and> pm_in q X Y \<Longrightarrow> pmGetPixel m q X Y = pmGetPixel (hmem (sheap s)) q X Y"
    using paintAll_ok [OF bb(1) assms(3,4,2)] by blast
  have rf: "rect_in fb (rcX rect) (rcY rect) (rcWidth rect) (rcHeight rect)" using assms(4) S by (simp add: rect_in_def)
  let ?m = "pmBlit m fb bb (rcX rect) (rcY rect) (rcX rect) (rcY rect) (rcWidth rect) (rcHeight rect)"
  have u: "updateRect rect s = Some (s\<lparr>sheap := (sheap s)\<lparr>hmem := ?m\<rparr>\<rparr>)" using S m(1) by (simp add: updateRect_def)
  have "pmGetPixel ?m fb X Y =
        (if rcContainsPoint rect X Y
         then point_colour (hmem (sheap s)) (wobjs s) (hpms (sheap s)) X Y (windows s) (pmGetPixel (hmem (sheap s)) bb X Y)
         else pmGetPixel (hmem (sheap s)) fb X Y)" if "pm_in fb X Y" for X Y
  proof -
    have "pm_in bb X Y" using that S by (simp add: pm_in_def)
    moreover have "(rcX rect \<le> X \<and> X < rcX rect + rcWidth rect \<and> rcY rect \<le> Y \<and> Y < rcY rect + rcHeight rect) \<longleftrightarrow> rcContainsPoint rect X Y"
      using rc_pts_small [OF assms(3)] by (auto simp: rc_pts_def)
    ultimately show ?thesis
      using blit_get [OF bb(2,1,5) assms(4) rf bb(6) that, of m] m(2,3) bb(3,4) that by auto
  qed
  then show ?thesis using u by (intro exI [of _ "s\<lparr>sheap := (sheap s)\<lparr>hmem := ?m\<rparr>\<rparr>"]) simp
qed

section \<open>The stack of windows\<close>

text \<open>
  The windows on the list are those that are alive, each once, with numbers of their own; the cursor, if there is
  one, is on top.
\<close>

definition server_ok :: "wserver \<Rightarrow> bool" where
  "server_ok s \<longleftrightarrow> distinct (windows s) \<and> dom (wobjs s) = set (windows s) \<and>
     (\<forall>a W. wobjs s a = Some W \<longrightarrow> wndID W \<le> ids s) \<and> inj_on (\<lambda>a. wndID (the (wobjs s a))) (set (windows s)) \<and>
     (\<forall>c. mouseWnd s = Some c \<longrightarrow> windows s \<noteq> [] \<and> last (windows s) = c)"

text \<open>The windows under the cursor, from the bottom to the top.\<close>

definition stack :: "wserver \<Rightarrow> nat list" where
  "stack s = filter (\<lambda>a. mouseWnd s \<noteq> Some a) (windows s)"

text \<open>The allocator does not hand out the memory of a live window.\<close>

definition fresh_window :: "wserver \<Rightarrow> bool" where
  "fresh_window s \<longleftrightarrow> (case calloc 44 (sheap s) of (None, _) \<Rightarrow> True | (Some a, _) \<Rightarrow> wobjs s a = None)"

definition deletes_cursor :: "ipcMessage \<Rightarrow> wserver \<Rightarrow> bool" where
  "deletes_cursor msg s \<longleftrightarrow> Number msg = MSG_RPC_REQUEST \<and> msg_string (Data msg) = ''wmDeleteWindow'' \<and>
     (case mouseWnd s of None \<Rightarrow> False | Some c \<Rightarrow> wndID (the (wobjs s c)) = arg_int (msg_args (Data msg)) 0)"

lemma sysdo_fields [simp]:
  "wobjs (snd (sysdo f s)) = wobjs s" "ids (snd (sysdo f s)) = ids s" "windows (snd (sysdo f s)) = windows s"
  "mouseWnd (snd (sysdo f s)) = mouseWnd s" "sheap (snd (sysdo f s)) = sheap s" "dirtyRect (snd (sysdo f s)) = dirtyRect s"
  by (simp_all add: sysdo_def split: prod.splits)

lemma server_ok_cong:
  assumes "windows s' = windows s" "wobjs s' = wobjs s" "ids s' = ids s" "mouseWnd s' = mouseWnd s"
  shows "server_ok s' = server_ok s" "stack s' = stack s"
  by (simp_all only: server_ok_def stack_def assms)

lemma Window_new_fields:
  assumes "Window_new x y w h flags format s = Some (a, s1)"
  shows "\<exists>hp W. calloc 44 (sheap s) = (Some a, hp) \<and> wobjs s1 = (wobjs s)(a \<mapsto> W) \<and> wndID W = ids s1 \<and> ids s1 = i32 (ids s + 1) \<and>
     windows s1 = windows s \<and> mouseWnd s1 = mouseWnd s \<and> dirtyRect s1 = dirtyRect s \<and>
     wndRect W = \<lparr>rcX = x, rcY = y, rcWidth = i32 (int w), rcHeight = i32 (int h)\<rparr>"
proof (cases "calloc 44 (sheap s)")
  case (Pair c hp)
  then show ?thesis using assms
    by (auto simp: Window_new_def sysdo_def Let_def bind_eq_Some_conv case_prod_beta split: option.splits if_splits)
qed

lemma Window_delete_fields:
  assumes "Window_delete a s = Some s'"
  shows "wobjs s' = (wobjs s)(a := None)" "windows s' = windows s" "mouseWnd s' = mouseWnd s" "ids s' = ids s" "dirtyRect s' = dirtyRect s"
  using assms by (auto simp: Window_delete_def Let_def bind_eq_Some_conv split: if_splits option.splits)

lemma getWindowById_found: "getWindowById objs as i = Some (Some a) \<Longrightarrow> a \<in> set as \<and> (\<exists>W. objs a = Some W \<and> wndID W = i)"
  by (induction as) (auto simp: bind_eq_Some_conv split: if_splits)

text \<open>A new window goes directly below the cursor.\<close>

lemma insert_position:
  assumes "server_ok s"
  shows "take (length (takeWhile (\<lambda>b. Some b \<noteq> mouseWnd s) (windows s))) (windows s) @ a # drop (length (takeWhile (\<lambda>b. Some b \<noteq> mouseWnd s) (windows s))) (windows s) =
     stack s @ a # (case mouseWnd s of None \<Rightarrow> [] | Some c \<Rightarrow> [c])"
proof (cases "mouseWnd s")
  case None
  then have "takeWhile (\<lambda>b. Some b \<noteq> mouseWnd s) (windows s) = windows s" by (simp add: takeWhile_eq_all_conv)
  then show ?thesis using None unfolding stack_def by (simp only: append_Nil2 option.case take_all drop_all order_refl) simp
next
  case (Some c)
  then have ne: "windows s \<noteq> []" "last (windows s) = c" "distinct (windows s)" using assms by (auto simp: server_ok_def)
  then obtain ws where ws: "windows s = ws @ [c]" by (metis append_butlast_last_id)
  then have c: "c \<notin> set ws" using ne(3) by simp
  then have "takeWhile (\<lambda>b. Some b \<noteq> mouseWnd s) (windows s) = ws" unfolding ws Some by (subst takeWhile_append2) auto
  moreover have "stack s = ws" using c unfolding stack_def ws Some by (auto simp: filter_id_conv)
  ultimately show ?thesis using ws Some by simp
qed

lemma windows_stack: "server_ok s \<Longrightarrow> windows s = stack s @ (case mouseWnd s of None \<Rightarrow> [] | Some c \<Rightarrow> [c])"
proof (cases "mouseWnd s")
  case (Some c)
  assume "server_ok s"
  then have ne: "windows s \<noteq> []" "last (windows s) = c" "distinct (windows s)" using Some by (auto simp: server_ok_def)
  then obtain ws where ws: "windows s = ws @ [c]" by (metis append_butlast_last_id)
  then have "c \<notin> set ws" using ne(3) by simp
  then have "filter (\<lambda>a. mouseWnd s \<noteq> Some a) ws = ws" using Some by (auto simp: filter_id_conv)
  then show ?thesis using Some ws by (simp add: stack_def)
qed (simp add: stack_def)

lemma server_ok_create:
  assumes ok: "server_ok s" and new: "wobjs s a = None" and "ids s < 2 ^ 31 - 1" "- (2 ^ 31) \<le> ids s"
    and W: "wobjs s' = (wobjs s)(a \<mapsto> W)" "wndID W = ids s'" "ids s' = i32 (ids s + 1)" "mouseWnd s' = mouseWnd s"
    and ws: "windows s' = stack s @ a # (case mouseWnd s of None \<Rightarrow> [] | Some c \<Rightarrow> [c])"
  shows "server_ok s' \<and> stack s' = stack s @ [a]"
proof -
  have i: "ids s' = ids s + 1" using W(3) assms(3,4) by (simp add: i32_small in_i32_def)
  have dis: "distinct (windows s)" and dom: "dom (wobjs s) = set (windows s)" and le: "\<And>a W. wobjs s a = Some W \<Longrightarrow> wndID W \<le> ids s"
    and inj: "inj_on (\<lambda>a. wndID (the (wobjs s a))) (set (windows s))" using ok by (auto simp: server_ok_def)
  note split = windows_stack [OF ok]
  have a: "a \<notin> set (windows s)" using new dom by (metis domIff)
  have set: "set (windows s') = insert a (set (windows s))" unfolding ws by (subst split) (auto split: option.splits)
  have d: "distinct (windows s')" using dis a unfolding ws by (subst (asm) (1 2) split) (auto split: option.splits)
  have ne: "wndID (the (wobjs s b)) \<noteq> ids s + 1" if "b \<in> set (windows s)" for b
    using that dom le by (metis domD less_irrefl option.sel zless_add1_eq order.trans add_le_same_cancel1 not_one_le_zero)
  have "inj_on (\<lambda>a. wndID (the (wobjs s' a))) (set (windows s'))"
    unfolding set W(1) inj_on_insert using a inj ne W(2) i by (auto simp: inj_on_def) metis
  moreover have "dom (wobjs s') = set (windows s')" unfolding set W(1) using dom by auto
  moreover have "wndID V \<le> ids s'" if "wobjs s' b = Some V" for b V
    using that le [of b V] W i by (auto split: if_splits)
  moreover have "windows s' \<noteq> [] \<and> last (windows s') = c" if "mouseWnd s' = Some c" for c
    using that W(4) unfolding ws by simp
  moreover have "stack s' = stack s @ [a]"
    using a ok W(4) unfolding stack_def ws by (auto simp: server_ok_def split: option.splits)
  ultimately show ?thesis using d by (auto simp: server_ok_def)
qed

lemma server_ok_delete:
  assumes ok: "server_ok s" and a: "a \<in> set (windows s)" "mouseWnd s \<noteq> Some a"
    and W: "wobjs s' = (wobjs s)(a := None)" "ids s' = ids s" "mouseWnd s' = mouseWnd s" "windows s' = remove1 a (windows s)"
  shows "server_ok s' \<and> stack s' = remove1 a (stack s)"
proof -
  have dis: "distinct (windows s)" and dom: "dom (wobjs s) = set (windows s)" and le: "\<And>a W. wobjs s a = Some W \<Longrightarrow> wndID W \<le> ids s"
    and inj: "inj_on (\<lambda>a. wndID (the (wobjs s a))) (set (windows s))" using ok by (auto simp: server_ok_def)
  have set: "set (windows s') = set (windows s) - {a}" unfolding W using dis by simp
  have "inj_on (\<lambda>a. wndID (the (wobjs s' a))) (set (windows s'))"
    unfolding set W(1) using inj by (auto simp: inj_on_def)
  moreover have "dom (wobjs s') = set (windows s')" unfolding set W(1) using dom by auto
  moreover have "wndID V \<le> ids s'" if "wobjs s' b = Some V" for b V
    using that le [of b V] W by (auto split: if_splits)
  moreover have "windows s' \<noteq> [] \<and> last (windows s') = c" if "mouseWnd s' = Some c" for c
  proof -
    have c: "mouseWnd s = Some c" using that W(3) by simp
    then have "windows s = stack s @ [c]" using windows_stack [OF ok] by simp
    moreover from this have "a \<in> set (stack s)" using a c by auto
    ultimately show ?thesis unfolding W(4) by (simp add: remove1_append)
  qed
  moreover have "stack s' = remove1 a (stack s)"
    using a unfolding stack_def W by (simp add: filter_remove1)
  moreover have "distinct (windows s')" using dis W(4) by simp
  ultimately show ?thesis by (auto simp: server_ok_def)
qed

lemma moveWindow_fields:
  assumes "moveWindow a x y s = Some s'"
  shows "\<exists>W. wobjs s a = Some W \<and> wobjs s' = (wobjs s)(a \<mapsto> SetPosition x y W) \<and> windows s' = windows s \<and> mouseWnd s' = mouseWnd s \<and> ids s' = ids s"
  using assms by (auto simp: moveWindow_def Let_def bind_eq_Some_conv)

lemma server_ok_move:
  assumes "server_ok s" "wobjs s a = Some W" "wobjs s' = (wobjs s)(a \<mapsto> SetPosition x y W)" "windows s' = windows s" "mouseWnd s' = mouseWnd s" "ids s' = ids s"
  shows "server_ok s' \<and> stack s' = stack s"
proof -
  have i: "wndID (the (wobjs s' b)) = wndID (the (wobjs s b))" for b using assms(2,3) by (simp add: SetPosition_def)
  have "dom (wobjs s') = dom (wobjs s)" using assms(2,3) by auto
  moreover have "wndID V \<le> ids s'" if "wobjs s' b = Some V" for b V
    using that assms by (auto simp: server_ok_def SetPosition_def split: if_splits)
  ultimately show ?thesis using assms(1) i unfolding server_ok_def stack_def assms(4,5) by simp
qed

lemma wm_message_ok:
  assumes ok: "server_ok s" and m: "wm_message msg s = Some s'" and fresh: "fresh_window s" and lim: "- (2 ^ 31) \<le> ids s" "ids s < 2 ^ 31 - 1"
    and nd: "\<not> deletes_cursor msg s"
  shows "server_ok s' \<and> mouseWnd s' = mouseWnd s \<and> (stack s' = stack s \<or> (\<exists>a. stack s' = stack s @ [a]) \<or> (\<exists>a \<in> set (stack s). stack s' = remove1 a (stack s)))"
proof -
  let ?req = "msg_string (Data msg)" and ?args = "msg_args (Data msg)"
  have same: ?thesis if "windows s' = windows s" "wobjs s' = wobjs s" "ids s' = ids s" "mouseWnd s' = mouseWnd s"
    using server_ok_cong [OF that] ok that(4) by simp
  consider (mouse) "mouseEvent (Data msg) s = Some s'" | (create) "createWindow msg ?args s = Some s'"
    | (delete) "Number msg = MSG_RPC_REQUEST" "?req = ''wmDeleteWindow''" "deleteWindow msg ?args s = Some s'"
    | (redraw) "redrawWindow msg ?args s = Some s'" | (rest) "s' = s \<or> (\<exists>f. s' = snd (sysdo f s))"
    using m by (auto simp: wm_message_def Let_def split: if_splits)
  then show ?thesis
  proof cases
    case mouse
    show ?thesis
    proof (cases "mouseWnd s")
      case None
      then show ?thesis using mouse same by (auto simp: mouseEvent_def Let_def)
    next
      case (Some c)
      then obtain s1 x y where s1: "moveWindow c x y s1 = Some s'" "wobjs s1 = wobjs s" "windows s1 = windows s" "mouseWnd s1 = mouseWnd s" "ids s1 = ids s"
        using mouse by (force simp: mouseEvent_def Let_def)
      then show ?thesis using moveWindow_fields [OF s1(1)] server_ok_move [OF ok] by auto
    qed
  next
    case create
    then obtain a s1 W where c: "Window_new (arg_int ?args 0) (arg_int ?args 1) (arg_uint ?args 2) (arg_uint ?args 3) (arg_uint ?args 4) (fbFormat s) s = Some (a, s1)"
      and s': "wobjs s' = wobjs s1" "ids s' = ids s1" "mouseWnd s' = mouseWnd s1"
        "windows s' = take (length (takeWhile (\<lambda>b. Some b \<noteq> mouseWnd s1) (windows s1))) (windows s1) @ a # drop (length (takeWhile (\<lambda>b. Some b \<noteq> mouseWnd s1) (windows s1))) (windows s1)"
      by (auto simp: createWindow_def Let_def bind_eq_Some_conv)
    obtain hp W where n: "calloc 44 (sheap s) = (Some a, hp)" "wobjs s1 = (wobjs s)(a \<mapsto> W)" "wndID W = ids s1" "ids s1 = i32 (ids s + 1)"
      "windows s1 = windows s" "mouseWnd s1 = mouseWnd s" using Window_new_fields [OF c] by blast
    have "server_ok s' \<and> stack s' = stack s @ [a]"
      by (rule server_ok_create [OF ok _ lim(2,1), of a s' W])
         (use fresh n s' insert_position [OF ok, of a] in \<open>simp_all add: fresh_window_def\<close>)
    then show ?thesis using s'(3) n(6) by auto
  next
    case delete
    then obtain wnd s1 where g: "getWindowById (wobjs s) (windows s) (arg_int ?args 0) = Some wnd"
      and d: "(case wnd of None \<Rightarrow> Some s | Some a \<Rightarrow> Window_delete a (s\<lparr>windows := remove1 a (windows s)\<rparr>)) = Some s1"
      and s': "wobjs s' = wobjs s1" "ids s' = ids s1" "mouseWnd s' = mouseWnd s1" "windows s' = windows s1"
      by (auto simp: deleteWindow_def bind_eq_Some_conv)
    show ?thesis
    proof (cases wnd)
      case None
      then show ?thesis using same d s' by simp
    next
      case (Some a)
      note F = Window_delete_fields [OF d [unfolded Some option.case]]
      have a: "a \<in> set (windows s)" "wndID (the (wobjs s a)) = arg_int ?args 0" using getWindowById_found g Some by fastforce+
      have nm: "mouseWnd s \<noteq> Some a" using nd a(2) delete(1,2) by (auto simp: deletes_cursor_def)
      have "server_ok s' \<and> stack s' = remove1 a (stack s)"
        by (rule server_ok_delete [OF ok a(1) nm]) (use F s' in simp_all)
      moreover have "a \<in> set (stack s)" using a(1) nm by (auto simp: stack_def)
      ultimately show ?thesis using F(3) s'(3) by auto
    qed
  next
    case redraw
    then show ?thesis by (intro same) (auto simp: redrawWindow_def Let_def bind_eq_Some_conv)
  next
    case rest
    then show ?thesis by (intro same) auto
  qed
qed

section \<open>The answer to a client\<close>

text \<open>What the client of theory \<open>Wm\<close> reads from the response is what the server put in it.\<close>

lemma response_words:
  assumes "\<forall>v \<in> set vs. in_i32 v" "k < length vs"
  shows "resp_word (concat (map le_bytes vs) @ rest) k = vs ! k"
proof -
  have "take 4 (drop (4 * k) (concat (map le_bytes vs) @ rest)) = le_bytes (vs ! k)"
    using assms(2)
  proof (induction vs arbitrary: k)
    case (Cons v vs)
    then show ?case by (cases k) simp_all
  qed simp
  then show ?thesis using assms by (simp add: resp_word_def le_roundtrip)
qed

definition format_words :: "pmPixelFormat \<Rightarrow> nat list" where
  "format_words f = [BPP f, AlphaBits f, RedBits f, GreenBits f, BlueBits f, AlphaShift f, RedShift f, GreenShift f, BlueShift f]"

lemma char_byte: "unat (of_nat (of_char c) :: byte) = of_char c"
  by (cases c) (simp add: unat_of_nat)

lemma char_byte_0: "(of_nat (of_char c) :: byte) = 0 \<Longrightarrow> c = CHR 0x00"
proof -
  assume "(of_nat (of_char c) :: byte) = 0"
  then have "(of_char c :: nat) = 0" using char_byte [of c] by simp
  then have "(of_char c :: nat) = of_char (CHR 0x00)" by simp
  then show "c = CHR 0x00" by (simp only: of_char_eq_iff)
qed

lemma response_read_back:
  assumes "in_i32 (wndID W)" "\<forall>v \<in> set (format_words fmt). v < 2 ^ 31"
    and "shMemName W = Some (p, name)" "CHR 0x00 \<notin> set name" "length name < 68"
  shows "resp_word (create_response W fmt) 0 = wndID W" "resp_format (create_response W fmt) = fmt" "resp_name (create_response W fmt) = name"
proof -
  let ?vs = "wndID W # map int (format_words fmt)"
  obtain pad where c: "create_response W fmt = concat (map le_bytes ?vs) @ str_bytes name @ pad"
    using assms(3,5) by (auto simp: create_response_def format_bytes_def format_words_def snprintf_def Let_def)
  have i: "\<forall>v \<in> set ?vs. in_i32 v" using assms(1,2) by (auto simp: in_i32_def)
  note R = response_words [OF i]
  show "resp_word (create_response W fmt) 0 = wndID W" using R [of 0 "str_bytes name @ pad"] by (simp add: c)
  have len: "length (format_words fmt) = 9" by (simp add: format_words_def)
  have u: "resp_uword (create_response W fmt) (Suc k) = format_words fmt ! k" if "k < 9" for k
  proof -
    have "resp_word (create_response W fmt) (Suc k) = int (format_words fmt ! k)" 
      using R [of "Suc k" "str_bytes name @ pad"] that len by (simp add: c)
    moreover have "format_words fmt ! k < 2 ^ 31" using assms(2) nth_mem [of k "format_words fmt"] that len by auto
    ultimately show ?thesis by (simp add: resp_uword_def)
  qed
  show "resp_format (create_response W fmt) = fmt"
    using u [of 0] u [of 1] u [of 2] u [of 3] u [of 4] u [of 5] u [of 6] u [of 7] u [of 8]
    by (simp add: resp_format_def format_words_def numeral_eq_Suc)
  have "length (concat (map le_bytes ?vs)) = 40" by (simp add: format_words_def)
  then have "drop 40 (create_response W fmt) = str_bytes name @ pad" unfolding c by simp
  moreover have "takeWhile (\<lambda>b. b \<noteq> 0) (str_bytes name @ pad) = map (\<lambda>c. of_nat (of_char c)) name"
    using assms(4) unfolding str_bytes_def append.assoc by (subst takeWhile_append2) (auto dest: char_byte_0)
  ultimately show "resp_name (create_response W fmt) = name" by (simp add: resp_name_def o_def char_byte)
qed

section \<open>Properties\<close>

text \<open>C13.
  An update shows the windows. The screen has a frame buffer and a back buffer of one size and one 16, 24 or 32-bit
  format in separate memory; every listed window exists; and every window that meets the dirty rectangle, which lies on
  the screen, does not use alpha and has a pixmap of its own size and the screen's format, apart from both buffers
  (coordinates bounded by \<open>2\<^sup>2\<^sup>9\<close>). Then the server does not fault (it does on a window without a pixmap:
  \<open>window_without_pixmap_faults\<close>), and afterwards every point of the rectangle has on the frame buffer the colour of the topmost
  window there (of the back buffer where there is none), every other point the colour it had. This goes through
  the intersection of rectangles, the blits into the back buffer in the order of the windows, and the blit of the
  back buffer to the screen, on one memory.\<close>

theorem update_shows_windows:
  assumes "screen s fb bb" "all_opaque fb bb rect (wobjs s) (hpms (sheap s)) (windows s)" "rc_small rect"
    and "rect_in bb (rcX rect) (rcY rect) (rcWidth rect) (rcHeight rect)"
  shows "\<exists>s'. updateRect rect s = Some s' \<and> s' = s\<lparr>sheap := (sheap s)\<lparr>hmem := hmem (sheap s')\<rparr>\<rparr> \<and>
     (\<forall>X Y. pm_in fb X Y \<longrightarrow> pmGetPixel (hmem (sheap s')) fb X Y =
        (if rcContainsPoint rect X Y
         then point_colour (hmem (sheap s)) (wobjs s) (hpms (sheap s)) X Y (windows s) (pmGetPixel (hmem (sheap s)) bb X Y)
         else pmGetPixel (hmem (sheap s)) fb X Y))"
  using assms by (rule updateRect_ok)

definition demo_pixmap :: "nat \<Rightarrow> int \<Rightarrow> pmPixMap" where
  "demo_pixmap p n = \<lparr>Parent = None, Contents = \<lparr>rcX = 0, rcY = 0, rcWidth = n, rcHeight = n\<rparr>, Dirty = rcRectangleEmpty,
     Pitch = 4 * nat n, Format = pmFormatA8R8G8B8, Palette = None, ReleasePixels = 0, Pixels = p\<rparr>"

definition demo_window :: Window where
  "demo_window = \<lparr>wndID = 1, wndRect = \<lparr>rcX = 1, rcY = 1, rcWidth = 2, rcHeight = 2\<rparr>, wndFlags = 1, shMemName = None, wndPixels = 12288,
     pixelsShMem = 3, wndPixMap = Some 30\<rparr>"

definition demo_server :: wserver where
  "demo_server = \<lparr>ssys = \<lparr>answers = [], calls = []\<rparr>,
     sheap = \<lparr>hmem = (\<lambda>a. of_int a), hpms = [10 \<mapsto> demo_pixmap 4096 4, 20 \<mapsto> demo_pixmap 8192 4, 30 \<mapsto> demo_pixmap 12288 2],
        hlive = {}, hans = [], hfiles = 0\<rparr>,
     wobjs = [100 \<mapsto> demo_window], ids = 1, windows = [100], mouseWnd = None, mouseX = 0, mouseY = 0,
     dirtyRect = rcRectangleEmpty, fbPixMap = 10, bbPixMap = 20, fbFormat = pmFormatA8R8G8B8, screenWidth = 4, screenHeight = 4,
     cursorHotX = 0, cursorHotY = 0\<rparr>"

lemma demo_pixmap_ready: "n \<in> {2, 4} \<Longrightarrow> p \<in> {4096, 8192, 12288} \<Longrightarrow> blit_ready (demo_pixmap p n)"
  by (auto simp: blit_ready_def pm_ok_def fmt_ok_def demo_pixmap_def pmFormatA8R8G8B8_def pbytes_def)

theorem update_shows_windows_witness:
  "\<exists>s'. updateRect \<lparr>rcX = 0, rcY = 0, rcWidth = 3, rcHeight = 3\<rparr> demo_server = Some s' \<and>
     pmGetPixel (hmem (sheap s')) (demo_pixmap 4096 4) 2 1 = pmGetPixel (\<lambda>a. of_int a) (demo_pixmap 12288 2) 1 0"
proof -
  let ?fb = "demo_pixmap 4096 4" and ?bb = "demo_pixmap 8192 4" and ?rect = "\<lparr>rcX = 0, rcY = 0, rcWidth = 3, rcHeight = 3\<rparr>"
  have sc: "screen demo_server ?fb ?bb"
    using demo_pixmap_ready by (simp add: screen_def demo_server_def buffers_disjoint_def) (simp add: demo_pixmap_def)
  have op: "opaque ?fb ?bb demo_window (demo_pixmap 12288 2)"
    using demo_pixmap_ready by (simp add: opaque_def demo_window_def rc_small_def buffers_disjoint_def) (simp add: demo_pixmap_def)
  have ao: "all_opaque ?fb ?bb ?rect (wobjs demo_server) (hpms (sheap demo_server)) (windows demo_server)"
  proof -
    have "wobjs demo_server 100 = Some demo_window" "wndPixMap demo_window = Some 30" "windows demo_server = [100]"
      "hpms (sheap demo_server) 30 = Some (demo_pixmap 12288 2)" "rc_small (wndRect demo_window)"
      using op by (simp_all add: demo_server_def demo_window_def opaque_def)
    then show ?thesis using op by (auto simp: all_opaque_def)
  qed
  have rc: "rc_small ?rect" "rect_in ?bb 0 0 3 3" "pm_in ?fb 2 1" by (simp_all add: rc_small_def rect_in_def pm_in_def demo_pixmap_def)
  have in1: "rcContainsPoint ?rect 2 1" "rcContainsPoint (wndRect demo_window) 2 1"
    by (simp_all add: rcContainsPoint_def rcContainsPointP_def demo_window_def i32_def)
  have w: "wobjs demo_server 100 = Some demo_window" "wndPixMap demo_window = Some 30" "windows demo_server = [100]"
    "hpms (sheap demo_server) 30 = Some (demo_pixmap 12288 2)" "hmem (sheap demo_server) = (\<lambda>a. of_int a)"
    "rcX (wndRect demo_window) = 1" "rcY (wndRect demo_window) = 1"
    by (simp_all add: demo_server_def demo_window_def)
  then have "point_colour (hmem (sheap demo_server)) (wobjs demo_server) (hpms (sheap demo_server)) 2 1 (windows demo_server) c =
      pmGetPixel (\<lambda>a. of_int a) (demo_pixmap 12288 2) 1 0" for c
    using in1(2) by simp
  then show ?thesis using update_shows_windows [OF sc ao rc(1)] rc(2,3) in1(1) by auto
qed

text \<open>C18.
  The cursor stays on top: whatever message the server handles, other than a request to delete the cursor's own
  window, the list of windows keeps its form (every live window once, with a number of its own, the cursor last),
  and below the cursor the order changes only by a new window on top of the others or by one that is removed.\<close>

theorem cursor_stays_on_top:
  assumes "server_ok s" "wm_message msg s = Some s'" "fresh_window s" "- (2 ^ 31) \<le> ids s" "ids s < 2 ^ 31 - 1" "\<not> deletes_cursor msg s"
  shows "server_ok s' \<and> mouseWnd s' = mouseWnd s \<and>
     (stack s' = stack s \<or> (\<exists>a. stack s' = stack s @ [a]) \<or> (\<exists>a \<in> set (stack s). stack s' = remove1 a (stack s)))"
  using assms by (rule wm_message_ok)

theorem cursor_stays_on_top_witness:
  "server_ok (demo_server\<lparr>mouseWnd := Some 100\<rparr>) \<and>
   (\<exists>s'. wm_message \<lparr>Number = MSG_MOUSE_EVENT, Flags = 0, ID = 0, Source = 0, Data = replicate 112 0\<rparr> (demo_server\<lparr>mouseWnd := Some 100\<rparr>) = Some s' \<and>
      server_ok s' \<and> mouseWnd s' = Some 100)"
proof -
  let ?s = "demo_server\<lparr>mouseWnd := Some 100\<rparr>"
    and ?m = "\<lparr>Number = MSG_MOUSE_EVENT, Flags = 0, ID = 0, Source = 0, Data = replicate 112 0\<rparr>"
  have ok: "server_ok ?s" by (simp add: server_ok_def demo_server_def demo_window_def)
  obtain s' where s': "wm_message ?m ?s = Some s'"
    by (auto simp: wm_message_def mouseEvent_def moveWindow_def Let_def demo_server_def)
  have "fresh_window ?s" "\<not> deletes_cursor ?m ?s" "- (2 ^ 31) \<le> ids ?s" "ids ?s < 2 ^ 31 - 1"
    by (simp_all add: fresh_window_def calloc_def malloc_def deletes_cursor_def demo_server_def)
  then show ?thesis using cursor_stays_on_top [OF ok s'] ok s' by simp
qed

section \<open>Where the code falls short\<close>

text \<open>Any client may delete the window of the cursor, whose number is known; the next movement of the mouse faults.\<close>

lemma getWindowById_unique:
  assumes "\<forall>a \<in> set as. \<exists>W. objs a = Some W" "inj_on (\<lambda>a. wndID (the (objs a))) (set as)" "c \<in> set as"
  shows "getWindowById objs as (wndID (the (objs c))) = Some (Some c)"
  using assms
proof (induction as)
  case (Cons a as)
  from Cons.prems(1) obtain W where W: "objs a = Some W" by auto
  show ?case
  proof (cases "a = c")
    case True
    then show ?thesis using W by simp
  next
    case False
    then have "c \<in> set as" using Cons.prems(3) by simp
    moreover have "wndID W \<noteq> wndID (the (objs c))"
      using inj_onD [OF Cons.prems(2), of a c] False W \<open>c \<in> set as\<close> by auto
    ultimately show ?thesis using Cons.IH Cons.prems(1,2) W by (simp add: inj_on_insert)
  qed
qed simp

lemma deleted_cursor_faults:
  assumes "server_ok s" "mouseWnd s = Some c" "deleteWindow msg args s = Some s'" "arg_int args 0 = wndID (the (wobjs s c))"
  shows "mouseEvent bs s' = None"
proof -
  have "getWindowById (wobjs s) (windows s) (arg_int args 0) = Some (Some c)"
    unfolding assms(4) by (rule getWindowById_unique) (use assms(1,2) in \<open>auto simp: server_ok_def\<close>)
  then obtain s1 where s1: "Window_delete c (s\<lparr>windows := remove1 c (windows s)\<rparr>) = Some s1" "wobjs s' = wobjs s1" "mouseWnd s' = mouseWnd s1"
    using assms(3) by (auto simp: deleteWindow_def bind_eq_Some_conv)
  have "wobjs s' c = None" "mouseWnd s' = Some c" using Window_delete_fields [OF s1(1)] s1(2,3) assms(2) by simp_all
  then show ?thesis by (simp add: mouseEvent_def moveWindow_def Let_def)
qed

text \<open>A deleted window stays on the screen: its place is not marked dirty.\<close>

lemma delete_marks_nothing: "deleteWindow msg args s = Some s' \<Longrightarrow> dirtyRect s' = dirtyRect s"
  by (auto simp: deleteWindow_def bind_eq_Some_conv Window_delete_fields(5) split: option.splits)

text \<open>A window whose shared memory could not be had has no pixmap, and the first update that meets it faults.\<close>

lemma window_without_pixmap_faults:
  "objs a = Some W \<Longrightarrow> wndPixMap W = None \<Longrightarrow> meets rect W \<Longrightarrow> paintWindow bb rect objs pms a m = None"
  by (simp add: paintWindow_def meets_def GetDecoratedRect_def Let_def)

end
