(* ===== verification/InputHandler.thy ===== *)
theory InputHandler
  imports Rpc
begin

text \<open>
  The input daemon \<open>user/inputhandler/inputhandler.c\<close> and the first user process \<open>user/init/init.c\<close>. The
  daemon's threads share \<open>done\<close> and the two owners; each pass of a thread's loop is one step. Printing is
  left out.
\<close>

section \<open>Model\<close>

(* src/user/inputhandler/inputhandler.c:9-11 done, keyboardOwner, mouseOwner *)
record ihState =
  ihDone :: bool
  keyboardOwner :: int
  mouseOwner :: int

definition word_bytes :: "nat list \<Rightarrow> byte list" where
  "word_bytes ws = concat (map (\<lambda>v. le_bytes (int v)) ws)"

(* src/user/inputhandler/inputhandler.c:22-33 kbdThread, loop body *)
definition kbd_step :: "int \<Rightarrow> ihState \<times> sysw \<Rightarrow> ihState \<times> sysw" where
  "kbd_step handle s =
     (case s of (st, w) \<Rightarrow>
      case inpGetEvent handle 1000 0 w of
        (r, OKbd event, w) \<Rightarrow>
          if r < 0 then (st, w)
          else
            let w = (if keyboardOwner st \<ge> 0
                     then snd (ipcSendMessage (keyboardOwner st) MSG_KEYBOARD_EVENT MSG_FLAG_NONE
                                 (word_bytes [Key event, KbdFlags event]) w)
                     else w)
            in if Key event = 27 \<and> odd (KbdFlags event)
               then (st\<lparr>ihDone := True\<rparr>, snd (ipcSendMessage 0 MSG_QUIT MSG_FLAG_NONE [] w))
               else (st, w)
      | (r, out, w) \<Rightarrow> (st, w))"

(* src/user/inputhandler/inputhandler.c:49-57 mouseThread, loop body *)
definition mouse_step :: "int \<Rightarrow> ihState \<times> sysw \<Rightarrow> ihState \<times> sysw" where
  "mouse_step handle s =
     (case s of (st, w) \<Rightarrow>
      case inpGetEvent handle 1000 0 w of
        (r, OMouse event, w) \<Rightarrow>
          if r < 0 \<or> mouseOwner st < 0 then (st, w)
          else (st, snd (ipcSendMessage (mouseOwner st) MSG_MOUSE_EVENT MSG_FLAG_NONE
                     (word_bytes [ButtonsPressed event, ButtonsHeld event, ButtonsReleased event]
                        @ concat (map le_bytes (Delta event))) w))
      | (r, out, w) \<Rightarrow> (st, w))"

text \<open>
  A thread on its own: \<open>n\<close> bounds the passes of the loop, which ends earlier when \<open>done\<close> is set; \<open>None\<close> is
  a thread that is still running.
\<close>

(* src/user/inputhandler/inputhandler.c:20-36 kbdThread, loop *)
primrec kbd_loop :: "nat \<Rightarrow> int \<Rightarrow> ihState \<times> sysw \<Rightarrow> (ihState \<times> sysw) option" where
  "kbd_loop 0 handle s = (if ihDone (fst s) then Some (fst s, snd (inpCloseDevice handle (snd s))) else None)"
| "kbd_loop (Suc n) handle s =
     (if ihDone (fst s) then Some (fst s, snd (inpCloseDevice handle (snd s)))
      else kbd_loop n handle (kbd_step handle s))"

(* src/user/inputhandler/inputhandler.c:13-38 kbdThread *)
definition kbdThread :: "nat \<Rightarrow> int \<Rightarrow> ihState \<times> sysw \<Rightarrow> (ihState \<times> sysw) option" where
  "kbdThread n arg s =
     (case s of (st, w) \<Rightarrow>
        let w = snd (threadDaemonize w); w = snd (snd (inpGetDeviceName arg 0 64 w))
        in kbd_loop n arg (st, w))"

(* src/user/inputhandler/inputhandler.c:47-60 mouseThread, loop *)
primrec mouse_loop :: "nat \<Rightarrow> int \<Rightarrow> ihState \<times> sysw \<Rightarrow> (ihState \<times> sysw) option" where
  "mouse_loop 0 handle s = (if ihDone (fst s) then Some (fst s, snd (inpCloseDevice handle (snd s))) else None)"
| "mouse_loop (Suc n) handle s =
     (if ihDone (fst s) then Some (fst s, snd (inpCloseDevice handle (snd s)))
      else mouse_loop n handle (mouse_step handle s))"

(* src/user/inputhandler/inputhandler.c:40-62 mouseThread *)
definition mouseThread :: "nat \<Rightarrow> int \<Rightarrow> ihState \<times> sysw \<Rightarrow> (ihState \<times> sysw) option" where
  "mouseThread n arg s =
     (case s of (st, w) \<Rightarrow>
        let w = snd (threadDaemonize w); w = snd (snd (inpGetDeviceName arg 0 64 w))
        in mouse_loop n arg (st, w))"

text \<open>
  The device loop: \<open>names\<close> holds NUL-terminated names, \<open>threads\<close> starts as zeros. Thread entry points are
  the addresses 1 and 2.
\<close>

definition c_string :: "string \<Rightarrow> nat \<Rightarrow> string" where
  "c_string buf i = takeWhile (\<lambda>c. c \<noteq> CHR 0x00) (drop i buf)"

(* src/user/inputhandler/inputhandler.c:87-103 main, handling a device by its type *)
definition start_device :: "int \<Rightarrow> sysw \<Rightarrow> int \<times> sysw" where
  "start_device devHandle w =
     (case inpGetDeviceType devHandle w of (devType, w) \<Rightarrow>
        if devType = INP_DEV_TYPE_KEYBOARD then threadCreate ''keyboard thread'' 1 devHandle 0 w
        else if devType = INP_DEV_TYPE_MOUSE then threadCreate ''mouse thread'' 2 devHandle 0 w
        else (- 1, snd (inpCloseDevice devHandle w)))"

(* src/user/inputhandler/inputhandler.c:76-106 main, device loop *)
function device_loop :: "string \<Rightarrow> nat \<Rightarrow> nat \<Rightarrow> nat \<Rightarrow> nat \<Rightarrow> int list \<Rightarrow> sysw \<Rightarrow> int list \<times> sysw" where
  "device_loop names namesLen devCount i j threads w =
     (if i < namesLen \<and> j < devCount \<and> c_string names i \<noteq> [] then
        (case inpOpenDevice (c_string names i) w of (devHandle, w) \<Rightarrow>
           if devHandle < 0 then device_loop names namesLen devCount (i + 1) (j + 1) threads w
           else
             (case start_device devHandle w of (t, w) \<Rightarrow>
                device_loop names namesLen devCount (i + length (c_string names i) + 1) (j + 1) (threads[j := t]) w))
      else (threads, w))"
  by pat_completeness auto
termination
  by (relation "measure (\<lambda>(names, namesLen, devCount, i, j, threads, w). namesLen - i)") auto

declare device_loop.simps [simp del]

(* src/user/inputhandler/inputhandler.c:108-114 main, starting the threads *)
definition resume_threads :: "int list \<Rightarrow> sysw \<Rightarrow> sysw" where
  "resume_threads threads w =
     fold (\<lambda>t w. if t < 0 then w else snd (threadWait t (- 1) (snd (threadResume t w)))) threads w"

(* src/user/inputhandler/inputhandler.c:124-145 main, handling a message *)
definition owner_message :: "ipcMessage \<Rightarrow> ihState \<Rightarrow> ihState" where
  "owner_message msg st =
     (if Number msg = MSG_ACQUIRE_KEYBOARD then
        (if keyboardOwner st < 0 then st\<lparr>keyboardOwner := Source msg\<rparr> else st)
      else if Number msg = MSG_ACQUIRE_MOUSE then
        (if mouseOwner st < 0 then st\<lparr>mouseOwner := Source msg\<rparr> else st)
      else if Number msg = MSG_RELEASE_KEYBOARD then st\<lparr>keyboardOwner := - 1\<rparr>
      else if Number msg = MSG_RELEASE_MOUSE then st\<lparr>mouseOwner := - 1\<rparr>
      else st)"

(* src/user/inputhandler/inputhandler.c:119-146 main, message loop *)
function message_loop :: "ihState \<Rightarrow> sysw \<Rightarrow> ihState \<times> sysw" where
  "message_loop st w =
     (case ipcGetMessage (- 1) w of (r, out, w1) \<Rightarrow>
        if r < 0 then (st, w1)
        else
          (case out of
             OMsg msg \<Rightarrow>
               let w2 = snd (ipcProcessMessage (Some msg) w1)
               in if Number msg = MSG_QUIT then (st, w2) else message_loop (owner_message msg st) w2
           | _ \<Rightarrow> (st, w1)))"
  by pat_completeness auto
termination
  by (relation "measure (\<lambda>(st, w). length (answers w))")
     (auto dest!: sym [of "(_, _, _)"] ipcGetMessage_answers intro: le_less_trans [OF ipcProcessMessage_answers])

declare message_loop.simps [simp del]

(* src/user/inputhandler/inputhandler.c:148-154 main, end of the threads *)
definition delete_threads :: "int list \<Rightarrow> sysw \<Rightarrow> sysw" where
  "delete_threads threads w =
     fold (\<lambda>t w. if t < 0 then w else snd (threadDelete t (snd (threadWait t (- 1) w)))) threads w"

text \<open>The kernel stores the device names in the buffer; without an answer of that kind it is empty.\<close>

(* src/user/inputhandler/inputhandler.c:64-159 main *)
definition inputhandler_main :: "nat \<Rightarrow> sysw \<Rightarrow> int \<times> ihState \<times> sysw" where
  "inputhandler_main names w =
     (case inpGetDeviceCount w of (devCount, w) \<Rightarrow>
      case inpDeviceList names (nat (devCount * 16)) w of (namesLen, out, w) \<Rightarrow>
      case device_loop (case out of OStr s \<Rightarrow> s | _ \<Rightarrow> []) (nat namesLen) (nat devCount) 0 0
             (replicate (nat devCount) 0) w of (threads, w) \<Rightarrow>
      let w = resume_threads threads w;
          w = snd (threadDaemonize w) in
      case message_loop \<lparr>ihDone = False, keyboardOwner = - 1, mouseOwner = - 1\<rparr> w of (st, w) \<Rightarrow>
      (0, st, delete_threads threads w))"

(* src/user/init/init.c:5-26 main *)
definition init_main :: "sysw \<Rightarrow> int \<times> sysw" where
  "init_main w =
     (case processCreate ''/bin/inputhandler'' w of (inputProc, w) \<Rightarrow>
      let w = snd (processWait inputProc 5000 w) in
      case processCreate ''/bin/windowmanager 1024 768 32'' w of (wmProc, w) \<Rightarrow>
      let w = snd (processWait wmProc 5000 w) in
      case processCreate ''/bin/usertest'' w of (testProc, w) \<Rightarrow>
      let w = snd (processWait testProc (- 1) w);
          w = snd (processDelete testProc w);
          w = snd (processWait wmProc (- 1) w);
          w = snd (processDelete wmProc w);
          w = snd (processWait inputProc (- 1) w);
          w = snd (processDelete inputProc w)
      in (0, w))"

section \<open>Ownership of the keyboard\<close>

definition acquires :: "ipcMessage list \<Rightarrow> int list" where
  "acquires ms = map Source (filter (\<lambda>m. Number m = MSG_ACQUIRE_KEYBOARD) ms)"

lemma owner_kept:
  assumes "\<forall>m \<in> set ms. Number m \<noteq> MSG_RELEASE_KEYBOARD" and "0 \<le> keyboardOwner st"
  shows "keyboardOwner (fold owner_message ms st) = keyboardOwner st"
  using assms
proof (induction ms arbitrary: st)
  case (Cons m ms)
  have "keyboardOwner (owner_message m st) = keyboardOwner st"
    using Cons.prems by (auto simp: owner_message_def)
  with Cons show ?case by simp
qed simp

lemma first_acquire_wins:
  assumes "\<forall>m \<in> set ms. Number m \<noteq> MSG_RELEASE_KEYBOARD \<and> 0 \<le> Source m"
  shows "keyboardOwner (fold owner_message ms st) =
    (if 0 \<le> keyboardOwner st then keyboardOwner st else case acquires ms of [] \<Rightarrow> keyboardOwner st | p # ps \<Rightarrow> p)"
  using assms
proof (induction ms arbitrary: st)
  case (Cons m ms)
  show ?case
  proof (cases "Number m = MSG_ACQUIRE_KEYBOARD \<and> keyboardOwner st < 0")
    case True
    then have "owner_message m st = st\<lparr>keyboardOwner := Source m\<rparr>" by (simp add: owner_message_def)
    with True Cons.prems owner_kept [of ms "st\<lparr>keyboardOwner := Source m\<rparr>"] show ?thesis
      by (simp add: acquires_def)
  next
    case False
    then have "keyboardOwner (owner_message m st) = keyboardOwner st"
      using Cons.prems by (auto simp: owner_message_def)
    with False Cons show ?thesis by (auto simp: acquires_def split: list.splits)
  qed
qed (simp add: acquires_def)

lemma message_loop_until_quit:
  assumes "\<forall>(t, m) \<in> set ms. 0 \<le> t \<and> plain m \<and> Number m \<noteq> MSG_QUIT" and "0 \<le> t" "Number q = MSG_QUIT" "plain q"
    and "answers w = map (\<lambda>(t, m). (t, OMsg m)) ms @ (t, OMsg q) # rest"
  shows "message_loop st w = (fold owner_message (map snd ms) st,
    w\<lparr>answers := rest, calls := calls w @ get_calls (replicate (Suc (length ms)) (- 1))\<rparr>)"
  using assms
proof (induction ms arbitrary: st w)
  case Nil
  then show ?case
    by (subst message_loop.simps)
       (simp add: ipcGetMessage_def syscall_def Let_def ipcProcessMessage_plain get_calls_def)
next
  case (Cons p ms)
  obtain t' m' where p: "p = (t', m')" by force
  let ?w = "w\<lparr>answers := map (\<lambda>(t, m). (t, OMsg m)) ms @ (t, OMsg q) # rest,
              calls := calls w @ get_calls [- 1]\<rparr>"
  have "message_loop st w = message_loop (owner_message m' st) ?w"
    using Cons.prems p
    by (subst message_loop.simps)
       (simp add: ipcGetMessage_def syscall_def Let_def ipcProcessMessage_plain get_calls_def)
  also have "\<dots> = (fold owner_message (map snd ms) (owner_message m' st),
      ?w\<lparr>answers := rest, calls := calls ?w @ get_calls (replicate (Suc (length ms)) (- 1))\<rparr>)"
    by (rule Cons.IH) (use Cons.prems p in auto)
  finally show ?case by (simp add: p get_calls_def)
qed

text \<open>C34.
  The message loop of the input daemon stops at the first \<open>MSG_QUIT\<close> after handling every message before
  it, and until someone releases the keyboard its owner is the process whose acquire message came first:
  later requests do not take it away.
\<close>

theorem input_owner_first_come:
  assumes "\<forall>(t, m) \<in> set ms. 0 \<le> t \<and> plain m \<and> Number m \<noteq> MSG_QUIT
      \<and> Number m \<noteq> MSG_RELEASE_KEYBOARD \<and> 0 \<le> Source m"
    and "0 \<le> t" and "Number q = MSG_QUIT" and "plain q" and "keyboardOwner st < 0"
    and "answers w = map (\<lambda>(t, m). (t, OMsg m)) ms @ (t, OMsg q) # rest"
  shows "answers (snd (message_loop st w)) = rest
    \<and> keyboardOwner (fst (message_loop st w)) =
        (case acquires (map snd ms) of [] \<Rightarrow> keyboardOwner st | p # ps \<Rightarrow> p)"
proof -
  have L: "message_loop st w = (fold owner_message (map snd ms) st,
      w\<lparr>answers := rest, calls := calls w @ get_calls (replicate (Suc (length ms)) (- 1))\<rparr>)"
    by (rule message_loop_until_quit [OF _ assms(2-4,6)]) (use assms(1) in auto)
  have "\<forall>m \<in> set (map snd ms). Number m \<noteq> MSG_RELEASE_KEYBOARD \<and> 0 \<le> Source m" using assms(1) by auto
  from first_acquire_wins [OF this, of st] assms(5) show ?thesis by (simp add: L)
qed

definition demo_msg :: "int \<Rightarrow> int \<Rightarrow> ipcMessage" where
  "demo_msg n p = \<lparr>Number = n, Flags = 0, ID = 1, Source = p, Data = []\<rparr>"

theorem input_owner_first_come_witness:
  "keyboardOwner (fst (message_loop \<lparr>ihDone = False, keyboardOwner = - 1, mouseOwner = - 1\<rparr>
     \<lparr>answers = [(0, OMsg (demo_msg MSG_ACQUIRE_KEYBOARD 4)), (0, OMsg (demo_msg MSG_ACQUIRE_KEYBOARD 5)),
        (0, OMsg (demo_msg MSG_QUIT 1))], calls = []\<rparr>)) = 4"
  using input_owner_first_come [of "[(0, demo_msg MSG_ACQUIRE_KEYBOARD 4), (0, demo_msg MSG_ACQUIRE_KEYBOARD 5)]" 0
      "demo_msg MSG_QUIT 1" "\<lparr>ihDone = False, keyboardOwner = - 1, mouseOwner = - 1\<rparr>" _ "[]"]
  by (simp add: demo_msg_def plain_def acquires_def)

text \<open>
  When a device cannot be opened, the device loop goes on one character further instead of at the next
  name: the next open call is for the same name without its first letter, and the slot of the failed
  device keeps the value 0, a valid handle, with which the daemon later resumes and waits.
\<close>

lemma failed_device_retries_suffix:
  assumes "0 < namesLen" and "Suc 0 < devCount" and "length (c_string names 0) > 1" and "1 < namesLen"
    and "answers w = (e, ONone) # (e', ONone) # rest" and "e < 0" and "e' < 0"
  shows "\<exists>w'. device_loop names namesLen devCount 0 0 threads w = device_loop names namesLen devCount 2 2 threads w'
    \<and> calls w' = calls w @ [(SYS_INDEV_OPEN, [AStr (c_string names 0)]), (SYS_INDEV_OPEN, [AStr (tl (c_string names 0))])]"
proof -
  obtain c d s where n: "c_string names 0 = c # d # s"
    using assms(3) by (cases "c_string names 0"; cases "tl (c_string names 0)") auto
  then obtain names' where names: "names = c # names'" and c: "c \<noteq> CHR 0x00"
    and s: "takeWhile (\<lambda>c. c \<noteq> CHR 0x00) names' = d # s"
    by (cases names) (auto simp: c_string_def split: if_splits)
  then have 1: "c_string names 1 = d # s" by (simp add: c_string_def)
  have "device_loop names namesLen devCount 0 0 threads w =
    device_loop names namesLen devCount 2 2 threads (snd (inpOpenDevice (d # s) (snd (inpOpenDevice (c # d # s) w))))"
    using assms n 1 by (subst device_loop.simps, subst device_loop.simps)
      (simp add: inpOpenDevice_def sys_def syscall_def Let_def numeral_2_eq_2)
  then show ?thesis
    using assms(5) n by (auto simp: inpOpenDevice_def sys_def syscall_def Let_def)
qed

end
