(* ===== verification/Sched.thy ===== *)
theory Sched
  imports RingQueue
begin

text \<open>
  The scheduler: \<open>kernel/thread.cpp\<close> and the timer tick of \<open>kernel/time.cpp\<close>. Threads are numbered; the
  three static queues are object queues, which \<open>ObjQueue\<close> shows to be lists of threads. Every operation
  runs with interrupts disabled, so it is one step of the scheduler state. The interrupt of \<open>FakeTick\<close> is
  the call of the tick handler; when a suspended thread is switched to again it only leaves its operation.
  What \<open>TicksSleep\<close> pops after that switch is the word \<open>StackTop\<close> that others may have replaced.
\<close>

section \<open>State\<close>

(* src/kernel/include/thread.hpp:32-41 Thread::State *)
datatype tstate = Unknown | Active | Ready | Suspending | Suspended | Sleeping | Finalized

text \<open>The registers an interrupt saves, in the order of the stack; the narrower views of the unions are parts of these.\<close>

(* src/kernel/include/ints.hpp:9-124 Ints::State *)
record mstate =
  ESP :: nat
  SS :: nat
  GS :: nat
  FS :: nat
  ES :: nat
  DS :: nat
  EDI :: nat
  ESI :: nat
  EBP :: nat
  EBX :: nat
  EDX :: nat
  ECX :: nat
  EAX :: nat
  InterruptNumber :: nat
  ErrorCode :: nat
  EIP :: nat
  CS :: nat
  EFLAGS :: nat
  UserESP :: nat
  UserSS :: nat

definition mstate0 :: mstate where
  "mstate0 = \<lparr>ESP = 0, SS = 0, GS = 0, FS = 0, ES = 0, DS = 0, EDI = 0, ESI = 0, EBP = 0, EBX = 0, EDX = 0, ECX = 0, EAX = 0, InterruptNumber = 0, ErrorCode = 0, EIP = 0, CS = 0, EFLAGS = 0, UserESP = 0, UserSS = 0\<rparr>"

(* src/kernel/include/thread.hpp:17-95 Thread *)
record thread =
  ID :: int
  State :: tstate
  SleepTicks :: int
  InterruptibleSleep :: bool
  CanChangeState :: bool
  StackTop :: int
  WakeCount :: int
  WaitingMutex :: "nat option"
  WaitingSemaphore :: "nat option"
  SignalMask :: "64 word"
  SignalQueue :: "byte Queue"
  SavedMachineState :: mstate
  CurrentSignal :: int
  SignalRetAddr :: nat
  SignalHandlers :: "nat list"

text \<open>\<open>IRQFlag\<close> is bit 7 of the clock chip's register \<open>0x0C\<close>: the chip sets it, and reading the register clears it.\<close>

(* src/kernel/thread.cpp:57-64 Thread::currentThread, idleThread, the queues *)
record sched =
  currentThread :: "nat option"
  idleThread :: nat
  readyThreads :: "nat list"
  suspendedThreads :: "nat list"
  sleepingThreads :: "nat list"
  thr :: "nat \<Rightarrow> thread"
  systemTicks :: nat
  IRQFlag :: bool

definition upd :: "nat \<Rightarrow> (thread \<Rightarrow> thread) \<Rightarrow> sched \<Rightarrow> sched" where
  "upd t f s = s\<lparr>thr := (thr s)(t := f (thr s t))\<rparr>"

text \<open>\<open>ObjectQueue::Add\<close>, \<open>Get\<close> and \<open>Remove\<close> on the list a queue stands for.\<close>

definition q_add :: "nat \<Rightarrow> bool \<Rightarrow> nat list \<Rightarrow> nat list" where
  "q_add t prepend q = (if prepend then t # q else q @ [t])"

(* src/kernel/include/sequencer.hpp:15-21 GetNext *)
definition Sequencer_GetNext :: "int \<Rightarrow> int \<times> int" where
  "Sequencer_GetNext v = (v, i32 (v + 1))"

text \<open>\<open>SignalHandlers\<close>, which the constructor does not set, are zero: kernel memory is cleared when it is allocated.\<close>

(* src/kernel/thread.cpp:173-198 Thread::Thread, the fields *)
definition Thread_new :: "int \<Rightarrow> thread" where
  "Thread_new i = \<lparr>ID = i, State = Unknown, SleepTicks = 0, InterruptibleSleep = False, CanChangeState = False,
     StackTop = 0, WakeCount = 0, WaitingMutex = None, WaitingSemaphore = None, SignalMask = 0,
     SignalQueue = Queue_new 0 64, SavedMachineState = mstate0, CurrentSignal = -1,
     SignalRetAddr = 0, SignalHandlers = replicate 64 0\<rparr>"

text \<open>The kernel's own two threads are numbered 0 and 1; the sequence of identifiers starts at 1.\<close>

(* src/kernel/thread.cpp:119-135 Thread::Initialize *)
definition Thread_Initialize :: "sched \<Rightarrow> sched" where
  "Thread_Initialize s =
     (let (i, next) = Sequencer_GetNext 1;
          (j, next) = Sequencer_GetNext next
      in s\<lparr>currentThread := Some 0, idleThread := 1,
           thr := (thr s)(0 := Thread_new i, 1 := (Thread_new j)\<lparr>State := Ready\<rparr>)\<rparr>)"

section \<open>Choosing and switching\<close>

(* src/kernel/thread.cpp:296-305 Thread::GetNext, counting down *)
definition tick_down :: "sched \<Rightarrow> sched" where
  "tick_down s = fold (\<lambda>t. upd t (\<lambda>x. if SleepTicks x > 0 then x\<lparr>SleepTicks := SleepTicks x - 1\<rparr> else x))
     (sleepingThreads s) s"

(* src/kernel/thread.cpp:311-321 Thread::GetNext, waking one thread *)
definition wake_one :: "nat \<Rightarrow> sched \<Rightarrow> sched" where
  "wake_one t s =
     (let s = s\<lparr>sleepingThreads := remove1 t (sleepingThreads s)\<rparr>;
          s = upd t (\<lambda>x. x\<lparr>State := Ready, InterruptibleSleep := False,
                StackTop := (if CanChangeState x then SleepTicks x else StackTop x), CanChangeState := False\<rparr>) s
      in s\<lparr>readyThreads := q_add t False (readyThreads s)\<rparr>)"

text \<open>\<open>ForEach\<close> starts again at the first thread after each one it wakes.\<close>

(* src/kernel/thread.cpp:306-324 Thread::GetNext, waking sleepers *)
function wake_sleepers :: "sched \<Rightarrow> sched" where
  "wake_sleepers s =
     (case List.find (\<lambda>t. SleepTicks (thr s t) = 0) (sleepingThreads s) of
        None \<Rightarrow> s
      | Some t \<Rightarrow> wake_sleepers (wake_one t s))"
  by pat_completeness auto
termination
proof (relation "measure (\<lambda>s. length (sleepingThreads s))")
  fix s :: sched and t assume "List.find (\<lambda>t. SleepTicks (thr s t) = 0) (sleepingThreads s) = Some t"
  then have "t \<in> set (sleepingThreads s)" by (auto simp: find_Some_iff)
  then have "length (remove1 t (sleepingThreads s)) < length (sleepingThreads s)"
    by (simp add: length_remove1) (metis Suc_pred length_pos_if_in_set lessI)
  then show "(wake_one t s, s) \<in> measure (\<lambda>s. length (sleepingThreads s))"
    by (simp add: wake_one_def upd_def Let_def)
qed simp

declare wake_sleepers.simps [simp del]

(* src/kernel/thread.cpp:327-340 Thread::GetNext, putting the current thread back *)
definition requeue_current :: "sched \<Rightarrow> sched" where
  "requeue_current s =
     (case currentThread s of None \<Rightarrow> s
      | Some c \<Rightarrow>
          if c \<noteq> idleThread s \<and> State (thr s c) \<noteq> Sleeping then
            (if State (thr s c) \<noteq> Suspending
             then (upd c (\<lambda>x. x\<lparr>State := Ready\<rparr>) s)\<lparr>readyThreads := q_add c False (readyThreads s)\<rparr>
             else (upd c (\<lambda>x. x\<lparr>State := Suspended\<rparr>) s)\<lparr>suspendedThreads := q_add c False (suspendedThreads s)\<rparr>)
          else s)"

(* src/kernel/thread.cpp:293-344 Thread::GetNext *)
definition Thread_GetNext :: "bool \<Rightarrow> sched \<Rightarrow> nat \<times> sched" where
  "Thread_GetNext doTick s =
     (let s = (if doTick then tick_down s else s);
          s = requeue_current (wake_sleepers s)
      in case readyThreads s of
           [] \<Rightarrow> (idleThread s, s)
         | t # ts \<Rightarrow> (t, s\<lparr>readyThreads := ts\<rparr>))"

text \<open>Stack pointers, the task segment and the page directory are not part of the scheduler state.\<close>

(* src/kernel/thread.cpp:346-375 Thread::Switch *)
definition Thread_Switch :: "nat \<Rightarrow> sched \<Rightarrow> sched" where
  "Thread_Switch t s =
     (if currentThread s = Some t then s
      else upd t (\<lambda>x. x\<lparr>State := Active\<rparr>) (s\<lparr>currentThread := Some t\<rparr>))"

text \<open>\<open>isIRQ\<close> is what the handler reads from the chip: true in a timer interrupt, the flag as it stands in a fake tick.\<close>

(* src/kernel/time.cpp:18-26 Time::Tick *)
definition Time_Tick :: "bool \<Rightarrow> bool \<Rightarrow> sched \<Rightarrow> sched" where
  "Time_Tick isIRQ isFakeTick s =
     (let (t, s) = Thread_GetNext (isIRQ \<and> \<not> isFakeTick) s;
          s = (Thread_Switch t s)\<lparr>IRQFlag := False\<rparr>
      in if isIRQ then s\<lparr>systemTicks := systemTicks s + 1\<rparr> else s)"

(* src/kernel/time.cpp:163-169 Time::FakeTick *)
definition FakeTick :: "sched \<Rightarrow> sched" where
  "FakeTick s = Time_Tick (IRQFlag s) True s"

section \<open>Operations of a thread\<close>

(* src/kernel/thread.cpp:377-383 Thread::GetCurrent *)
definition Thread_GetCurrent :: "sched \<Rightarrow> nat option" where
  "Thread_GetCurrent s = currentThread s"

(* src/kernel/thread.cpp:385-391 Thread::Enable *)
definition Thread_Enable :: "nat \<Rightarrow> sched \<Rightarrow> sched" where
  "Thread_Enable this s =
     upd this (\<lambda>x. x\<lparr>State := Suspended\<rparr>) (s\<lparr>suspendedThreads := q_add this False (suspendedThreads s)\<rparr>)"

(* src/kernel/thread.cpp:393-398 Thread::Yield *)
definition Thread_Yield :: "sched \<Rightarrow> sched" where
  "Thread_Yield s = FakeTick s"

(* src/kernel/thread.cpp:403-404 Thread::Suspend, the wake-up count *)
definition use_wake :: "nat \<Rightarrow> sched \<Rightarrow> sched" where
  "use_wake this s = upd this (\<lambda>x. if WakeCount x \<noteq> 0 then x\<lparr>WakeCount := i32 (WakeCount x - 1)\<rparr> else x) s"

(* src/kernel/thread.cpp:400-424 Thread::Suspend *)
definition Thread_Suspend :: "nat \<Rightarrow> sched \<Rightarrow> sched" where
  "Thread_Suspend this s =
     (let s = use_wake this s in
      if WakeCount (thr s this) \<noteq> 0 then s
      else if currentThread s = Some this then FakeTick (upd this (\<lambda>x. x\<lparr>State := Suspending\<rparr>) s)
      else if this \<in> set (readyThreads s) then
        (upd this (\<lambda>x. x\<lparr>State := Suspended\<rparr>)
           (s\<lparr>readyThreads := remove1 this (readyThreads s), suspendedThreads := q_add this False (suspendedThreads s)\<rparr>))
      else if this \<in> set (sleepingThreads s) then
        (upd this (\<lambda>x. x\<lparr>State := Suspended\<rparr>)
           (s\<lparr>sleepingThreads := remove1 this (sleepingThreads s), suspendedThreads := q_add this False (suspendedThreads s)\<rparr>))
      else s)"

(* src/kernel/thread.cpp:432-444 Thread::Resume, waking the thread *)
definition resume_thread :: "nat \<Rightarrow> bool \<Rightarrow> sched \<Rightarrow> sched" where
  "resume_thread this prepend s =
     (let s = (if State (thr s this) = Sleeping
               then upd this (\<lambda>x. x\<lparr>StackTop := (if CanChangeState x then SleepTicks x else StackTop x),
                      InterruptibleSleep := False, CanChangeState := False, SleepTicks := 0\<rparr>) s
               else s);
          s = upd this (\<lambda>x. x\<lparr>State := Ready\<rparr>) s
      in s\<lparr>readyThreads := q_add this prepend (readyThreads s)\<rparr>)"

(* src/kernel/thread.cpp:426-450 Thread::Resume *)
definition Thread_Resume :: "nat \<Rightarrow> bool \<Rightarrow> sched \<Rightarrow> bool \<times> sched" where
  "Thread_Resume this prepend s =
     (let s = upd this (\<lambda>x. x\<lparr>WakeCount := i32 (WakeCount x + 1)\<rparr>) s in
      if this \<in> set (suspendedThreads s) then
        (True, resume_thread this prepend (s\<lparr>suspendedThreads := remove1 this (suspendedThreads s)\<rparr>))
      else if this \<in> set (sleepingThreads s) \<and> InterruptibleSleep (thr s this) then
        (True, resume_thread this prepend (s\<lparr>sleepingThreads := remove1 this (sleepingThreads s)\<rparr>))
      else (False, s))"

(* src/kernel/thread.cpp:452-459 Thread::QuickResume *)
definition Thread_QuickResume :: "nat \<Rightarrow> sched \<Rightarrow> bool \<times> sched" where
  "Thread_QuickResume this s =
     (case Thread_Resume this True s of
        (False, s) \<Rightarrow> (False, s)
      | (True, s) \<Rightarrow> (case Thread_GetNext True s of (t, s) \<Rightarrow> (True, Thread_Switch t s)))"

text \<open>
  \<open>Inl\<close> is the value returned at once; \<open>Inr\<close> is a sleep, whose value is the \<open>StackTop\<close> of the thread when it
  runs again (0 when it was not the current thread). The pushed word is \<open>0x1234abcd\<close>.
\<close>

(* src/kernel/thread.cpp:461-489 Thread::TicksSleep *)
definition Thread_TicksSleep :: "nat \<Rightarrow> nat \<Rightarrow> bool \<Rightarrow> sched \<Rightarrow> (nat + bool) \<times> sched" where
  "Thread_TicksSleep this ticks interruptible s =
     (let s = use_wake this s in
      if WakeCount (thr s this) \<noteq> 0 then (Inl ticks, s)
      else
        let s = s\<lparr>readyThreads := remove1 this (readyThreads s), suspendedThreads := remove1 this (suspendedThreads s),
                  sleepingThreads := q_add this False (remove1 this (sleepingThreads s))\<rparr>;
            s = upd this (\<lambda>x. x\<lparr>State := Sleeping, SleepTicks := i32 (int ticks), InterruptibleSleep := interruptible\<rparr>) s
        in if currentThread s = Some this
           then (Inr True, FakeTick (upd this (\<lambda>x. x\<lparr>CanChangeState := True, StackTop := 0x1234abcd\<rparr>) s))
           else (Inr False, s))"

(* src/kernel/thread.cpp:493-496 Thread::Sleep, ticks *)
definition sleep_ticks :: "nat \<Rightarrow> nat \<Rightarrow> nat" where
  "sleep_ticks tickFreq millis = u32 (tickFreq * millis div 1000 + 1)"

(* src/kernel/thread.cpp:497-499 Thread::Sleep, result *)
definition ticks_to_millis :: "nat \<Rightarrow> nat \<Rightarrow> nat" where
  "ticks_to_millis tickFreq ticksLeft = u32 (ticksLeft * max 1 (1000000000 div tickFreq) div 1000000)"

(* src/kernel/thread.cpp:491-500 Thread::Sleep *)
definition Thread_Sleep :: "nat \<Rightarrow> nat \<Rightarrow> nat \<Rightarrow> bool \<Rightarrow> sched \<Rightarrow> (nat + bool) \<times> sched" where
  "Thread_Sleep tickFreq this millis interruptible s =
     (case Thread_TicksSleep this (sleep_ticks tickFreq millis) interruptible s of
        (Inl left, s) \<Rightarrow> (Inl (ticks_to_millis tickFreq left), s)
      | (Inr b, s) \<Rightarrow> (Inr b, s))"

(* src/kernel/thread.cpp:241-278 Thread::GetByID *)
definition Thread_GetByID :: "int \<Rightarrow> sched \<Rightarrow> nat option" where
  "Thread_GetByID id0 s =
     (case currentThread s of None \<Rightarrow> None
      | Some c \<Rightarrow>
          if ID (thr s c) = id0 then Some c
          else List.find (\<lambda>t. ID (thr s t) = id0) (readyThreads s @ suspendedThreads s @ sleepingThreads s))"

(* src/kernel/thread.cpp:280-291 Thread::Exists *)
definition Thread_Exists :: "nat \<Rightarrow> sched \<Rightarrow> bool" where
  "Thread_Exists t s \<longleftrightarrow> currentThread s = Some t \<or> t \<in> set (readyThreads s) \<or> t \<in> set (suspendedThreads s)
     \<or> t \<in> set (sleepingThreads s)"

section \<open>The scheduler invariant\<close>

definition queued :: "sched \<Rightarrow> nat list" where
  "queued s = readyThreads s @ suspendedThreads s @ sleepingThreads s"

text \<open>
  Every thread is in at most one queue and at most once, its state says in which, and the idle thread is
  in none.
\<close>

definition queues_ok :: "sched \<Rightarrow> bool" where
  "queues_ok s \<longleftrightarrow> distinct (queued s) \<and> idleThread s \<notin> set (queued s) \<and>
     State (thr s (idleThread s)) \<notin> {Sleeping, Suspending} \<and>
     (\<forall>t \<in> set (readyThreads s). State (thr s t) = Ready) \<and>
     (\<forall>t \<in> set (suspendedThreads s). State (thr s t) = Suspended) \<and>
     (\<forall>t \<in> set (sleepingThreads s). State (thr s t) = Sleeping)"

definition sched_ok :: "sched \<Rightarrow> bool" where
  "sched_ok s \<longleftrightarrow> queues_ok s \<and>
     (\<forall>c. currentThread s = Some c \<longrightarrow> c \<notin> set (queued s) \<and> State (thr s c) \<notin> {Sleeping, Suspending})"

text \<open>Inside an operation the current thread may be on its way to one of the queues.\<close>

definition leaving_ok :: "sched \<Rightarrow> bool" where
  "leaving_ok s \<longleftrightarrow> queues_ok s \<and>
     (\<forall>c. currentThread s = Some c \<longrightarrow>
        (c \<notin> set (queued s) \<and> State (thr s c) \<noteq> Sleeping) \<or> (c \<in> set (sleepingThreads s) \<and> SleepTicks (thr s c) \<noteq> 0))"

lemma sched_ok_leaving: "sched_ok s \<Longrightarrow> leaving_ok s"
  by (auto simp: sched_ok_def leaving_ok_def)

lemma upd_simps [simp]:
  "thr (upd t f s) = (thr s)(t := f (thr s t))" "currentThread (upd t f s) = currentThread s"
  "idleThread (upd t f s) = idleThread s" "readyThreads (upd t f s) = readyThreads s"
  "suspendedThreads (upd t f s) = suspendedThreads s" "sleepingThreads (upd t f s) = sleepingThreads s"
  "systemTicks (upd t f s) = systemTicks s"
  by (simp_all add: upd_def)

lemma set_q_add [simp]: "set (q_add t p q) = insert t (set q)"
  by (auto simp: q_add_def)

lemma distinct_q_add [simp]: "distinct (q_add t p q) \<longleftrightarrow> t \<notin> set q \<and> distinct q"
  by (auto simp: q_add_def)

lemma fold_upd_fields:
  "readyThreads (fold (\<lambda>t. upd t f) ts s) = readyThreads s"
  "suspendedThreads (fold (\<lambda>t. upd t f) ts s) = suspendedThreads s"
  "sleepingThreads (fold (\<lambda>t. upd t f) ts s) = sleepingThreads s"
  "currentThread (fold (\<lambda>t. upd t f) ts s) = currentThread s"
  "idleThread (fold (\<lambda>t. upd t f) ts s) = idleThread s"
  by (induction ts arbitrary: s) auto

lemma fold_upd_thr:
  "distinct ts \<Longrightarrow> thr (fold (\<lambda>t. upd t f) ts s) u = (if u \<in> set ts then f (thr s u) else thr s u)"
  by (induction ts arbitrary: s) auto

lemma tick_down_state:
  assumes "queues_ok s"
  shows "State (thr (tick_down s) u) = State (thr s u)"
    and "SleepTicks (thr (tick_down s) u) =
      (if u \<in> set (sleepingThreads s) \<and> SleepTicks (thr s u) > 0 then SleepTicks (thr s u) - 1 else SleepTicks (thr s u))"
proof -
  have "distinct (sleepingThreads s)" using assms by (simp add: queues_ok_def queued_def)
  then show "State (thr (tick_down s) u) = State (thr s u)"
    and "SleepTicks (thr (tick_down s) u) =
      (if u \<in> set (sleepingThreads s) \<and> SleepTicks (thr s u) > 0 then SleepTicks (thr s u) - 1 else SleepTicks (thr s u))"
    by (auto simp: tick_down_def fold_upd_thr)
qed

lemma tick_down_ok: "sched_ok s \<Longrightarrow> leaving_ok (tick_down s)"
  by (auto simp: sched_ok_def leaving_ok_def queues_ok_def tick_down_def fold_upd_fields fold_upd_thr queued_def)

lemma wake_one_ok:
  assumes "leaving_ok s" "t \<in> set (sleepingThreads s)" "SleepTicks (thr s t) = 0"
  shows "leaving_ok (wake_one t s)"
  using assms
  by (auto simp: leaving_ok_def queues_ok_def queued_def wake_one_def Let_def)

lemma wake_sleepers_ok: "leaving_ok s \<Longrightarrow> leaving_ok (wake_sleepers s)"
proof (induction s rule: wake_sleepers.induct)
  case (1 s)
  show ?case
  proof (cases "List.find (\<lambda>t. SleepTicks (thr s t) = 0) (sleepingThreads s)")
    case None
    then show ?thesis using "1.prems" by (subst wake_sleepers.simps) simp
  next
    case (Some t)
    then have "t \<in> set (sleepingThreads s)" "SleepTicks (thr s t) = 0" by (auto simp: find_Some_iff)
    with 1 Some show ?thesis by (subst wake_sleepers.simps) (simp add: wake_one_ok)
  qed
qed

lemma requeue_current_ok:
  assumes "leaving_ok s"
  shows "queues_ok (requeue_current s)"
  using assms
  by (auto simp: leaving_ok_def queues_ok_def queued_def requeue_current_def split: option.splits)

lemma requeue_fields [simp]:
  "idleThread (requeue_current s) = idleThread s" "currentThread (requeue_current s) = currentThread s"
  by (auto simp: requeue_current_def split: option.splits)

lemma Thread_GetNext_ok:
  assumes "if doTick then sched_ok s else leaving_ok s" and "Thread_GetNext doTick s = (t, s')"
  shows "queues_ok s'" and "t \<notin> set (queued s')" and "State (thr s' t) \<notin> {Sleeping, Suspending}"
proof -
  let ?s = "requeue_current (wake_sleepers (if doTick then tick_down s else s))"
  have "leaving_ok (if doTick then tick_down s else s)" using assms(1) by (auto simp: tick_down_ok split: if_splits)
  then have q: "queues_ok ?s" by (intro requeue_current_ok wake_sleepers_ok)
  have "(t = idleThread ?s \<and> s' = ?s) \<or> (\<exists>ts. readyThreads ?s = t # ts \<and> s' = ?s\<lparr>readyThreads := ts\<rparr>)"
    using assms(2) by (auto simp: Thread_GetNext_def Let_def split: list.splits)
  then show "queues_ok s'" and "t \<notin> set (queued s')" and "State (thr s' t) \<notin> {Sleeping, Suspending}"
    using q by (auto simp: queues_ok_def queued_def)
qed

lemma Thread_Switch_ok:
  assumes "queues_ok s" "t \<notin> set (queued s)" "State (thr s t) \<notin> {Sleeping, Suspending}"
  shows "sched_ok (Thread_Switch t s)"
  using assms by (auto simp: sched_ok_def queues_ok_def queued_def Thread_Switch_def)

lemma sched_ok_ticks [simp]: "sched_ok (s\<lparr>systemTicks := n\<rparr>) = sched_ok s"
  by (simp add: sched_ok_def queues_ok_def queued_def)

lemma sched_ok_flag [simp]: "sched_ok (s\<lparr>IRQFlag := b\<rparr>) = sched_ok s"
  by (simp add: sched_ok_def queues_ok_def queued_def)

lemma Time_Tick_ok:
  assumes "if isIRQ \<and> \<not> fake then sched_ok s else leaving_ok s"
  shows "sched_ok (Time_Tick isIRQ fake s)"
proof -
  obtain t s' where g: "Thread_GetNext (isIRQ \<and> \<not> fake) s = (t, s')" by force
  note ok = Thread_GetNext_ok [OF _ g]
  have "sched_ok (Thread_Switch t s')" using ok assms by (intro Thread_Switch_ok) auto
  then show ?thesis by (simp add: Time_Tick_def g Let_def)
qed

lemma FakeTick_ok: "leaving_ok s \<Longrightarrow> sched_ok (FakeTick s)"
  by (simp add: FakeTick_def Time_Tick_ok)

text \<open>Updates that leave the state of a thread alone leave the invariant alone.\<close>

lemma upd_keeps_ok:
  assumes "\<And>x. State (f x) = State x"
  shows "sched_ok (upd t f s) = sched_ok s"
proof -
  have "State (thr (upd t f s) u) = State (thr s u)" for u using assms by simp
  then show ?thesis by (simp add: sched_ok_def queues_ok_def queued_def del: upd_simps(1))
qed

lemma use_wake_ok [simp]: "sched_ok (use_wake t s) = sched_ok s"
  by (simp add: use_wake_def upd_keeps_ok)

lemma use_wake_fields [simp]:
  "currentThread (use_wake t s) = currentThread s" "idleThread (use_wake t s) = idleThread s"
  "readyThreads (use_wake t s) = readyThreads s" "suspendedThreads (use_wake t s) = suspendedThreads s"
  "sleepingThreads (use_wake t s) = sleepingThreads s"
  by (simp_all add: use_wake_def)

lemma Thread_Enable_ok:
  assumes "sched_ok s" "\<not> Thread_Exists t s" "t \<noteq> idleThread s"
  shows "sched_ok (Thread_Enable t s)"
  using assms
  by (auto simp: sched_ok_def queues_ok_def queued_def Thread_Enable_def Thread_Exists_def)

lemma Thread_Suspend_ok:
  assumes "sched_ok s" "t \<noteq> idleThread s"
  shows "sched_ok (Thread_Suspend t s)"
proof -
  let ?s = "use_wake t s"
  have ok: "sched_ok ?s" using assms by simp
  have "leaving_ok (upd t (\<lambda>x. x\<lparr>State := Suspending\<rparr>) ?s)" if "currentThread ?s = Some t"
    using ok that assms(2) by (auto simp: sched_ok_def leaving_ok_def queues_ok_def queued_def)
  moreover have "sched_ok (upd t (\<lambda>x. x\<lparr>State := Suspended\<rparr>)
      (?s\<lparr>readyThreads := remove1 t (readyThreads ?s), suspendedThreads := q_add t False (suspendedThreads ?s)\<rparr>))"
    if "t \<in> set (readyThreads ?s)" "currentThread ?s \<noteq> Some t"
    using ok that assms(2) by (auto simp: sched_ok_def queues_ok_def queued_def)
  moreover have "sched_ok (upd t (\<lambda>x. x\<lparr>State := Suspended\<rparr>)
      (?s\<lparr>sleepingThreads := remove1 t (sleepingThreads ?s), suspendedThreads := q_add t False (suspendedThreads ?s)\<rparr>))"
    if "t \<in> set (sleepingThreads ?s)" "currentThread ?s \<noteq> Some t"
    using ok that assms(2) by (auto simp: sched_ok_def queues_ok_def queued_def)
  ultimately show ?thesis using ok by (simp add: Thread_Suspend_def Let_def FakeTick_ok)
qed

lemma resume_thread_ok:
  assumes "sched_ok s" "t \<notin> set (queued s)" "currentThread s \<noteq> Some t" "t \<noteq> idleThread s"
  shows "sched_ok (resume_thread t prepend s)"
  using assms by (auto simp: sched_ok_def queues_ok_def queued_def resume_thread_def Let_def)

lemma sched_ok_unqueue:
  assumes "sched_ok s"
  shows "sched_ok (s\<lparr>suspendedThreads := remove1 t (suspendedThreads s)\<rparr>)"
    and "sched_ok (s\<lparr>sleepingThreads := remove1 t (sleepingThreads s)\<rparr>)"
    and "t \<in> set (suspendedThreads s) \<Longrightarrow> t \<notin> set (queued (s\<lparr>suspendedThreads := remove1 t (suspendedThreads s)\<rparr>))"
    and "t \<in> set (sleepingThreads s) \<Longrightarrow> t \<notin> set (queued (s\<lparr>sleepingThreads := remove1 t (sleepingThreads s)\<rparr>))"
    and "t \<in> set (queued s) \<Longrightarrow> currentThread s \<noteq> Some t \<and> t \<noteq> idleThread s"
  using assms by (auto simp: sched_ok_def queues_ok_def queued_def dest: notin_set_remove1)

lemma Thread_Resume_ok:
  assumes "sched_ok s" shows "sched_ok (snd (Thread_Resume t prepend s))"
proof -
  define s1 where "s1 = upd t (\<lambda>x. x\<lparr>WakeCount := i32 (WakeCount x + 1)\<rparr>) s"
  have ok: "sched_ok s1" using assms by (simp add: s1_def upd_keeps_ok)
  have "t \<in> set (queued s1)" if "t \<in> set (suspendedThreads s1) \<union> set (sleepingThreads s1)"
    using that by (auto simp: queued_def)
  then show ?thesis using ok sched_ok_unqueue [OF ok, of t]
    by (auto simp: Thread_Resume_def s1_def [symmetric] Let_def intro!: resume_thread_ok)
qed

lemma Thread_GetNext_Switch_ok:
  "sched_ok s \<Longrightarrow> Thread_GetNext True s = (t, s') \<Longrightarrow> sched_ok (Thread_Switch t s')"
  using Thread_GetNext_ok [of True s t s'] by (intro Thread_Switch_ok) auto

lemma Thread_QuickResume_ok:
  assumes "sched_ok s" shows "sched_ok (snd (Thread_QuickResume t s))"
proof -
  obtain b s1 where r: "Thread_Resume t True s = (b, s1)" by force
  obtain u s2 where g: "Thread_GetNext True s1 = (u, s2)" by force
  have "sched_ok s1" using Thread_Resume_ok [OF assms, of t True] by (simp add: r)
  with Thread_GetNext_Switch_ok [OF this g] show ?thesis
    by (cases b) (simp_all add: Thread_QuickResume_def r g)
qed

lemma Thread_TicksSleep_ok:
  assumes "sched_ok s" "t \<noteq> idleThread s" "i32 (int ticks) \<noteq> 0" "Thread_Exists t s"
  shows "sched_ok (snd (Thread_TicksSleep t ticks interruptible s))"
proof -
  define s1 where "s1 = use_wake t s"
  have ok: "sched_ok s1" using assms by (simp add: s1_def)
  define s2 where "s2 = upd t (\<lambda>x. x\<lparr>State := Sleeping, SleepTicks := i32 (int ticks), InterruptibleSleep := interruptible\<rparr>)
    (s1\<lparr>readyThreads := remove1 t (readyThreads s1), suspendedThreads := remove1 t (suspendedThreads s1),
      sleepingThreads := q_add t False (remove1 t (sleepingThreads s1))\<rparr>)"
  have cur: "currentThread s2 = currentThread s1" by (simp add: s2_def)
  have rest: "t \<noteq> idleThread s1" using assms by (simp add: s1_def)
  have "leaving_ok (upd t (\<lambda>x. x\<lparr>CanChangeState := True, StackTop := 0x1234abcd\<rparr>) s2)" if "currentThread s1 = Some t"
    using ok that rest assms(3)
    by (auto simp: sched_ok_def leaving_ok_def queues_ok_def queued_def s2_def dest: notin_set_remove1)
  moreover have "sched_ok s2" if "currentThread s1 \<noteq> Some t"
    using ok that rest by (auto simp: sched_ok_def queues_ok_def queued_def s2_def dest: notin_set_remove1)
  ultimately show ?thesis using ok cur
    by (simp add: Thread_TicksSleep_def s1_def [symmetric] s2_def [symmetric] Let_def FakeTick_ok)
qed

section \<open>What a tick does to the queues\<close>

lemma wake_sleepers_Suspending: "State (thr (wake_sleepers s) u) = Suspending \<Longrightarrow> State (thr s u) = Suspending"
proof (induction s rule: wake_sleepers.induct)
  case (1 s)
  show ?case
  proof (cases "List.find (\<lambda>t. SleepTicks (thr s t) = 0) (sleepingThreads s)")
    case None
    then show ?thesis using "1.prems" by (simp add: wake_sleepers.simps [of s])
  next
    case (Some t)
    then have "State (thr (wake_one t s) u) = Suspending"
      using 1 by (simp add: wake_sleepers.simps [of s])
    then show ?thesis by (auto simp: wake_one_def Let_def split: if_splits)
  qed
qed

lemma wake_one_fields [simp]:
  "currentThread (wake_one t s) = currentThread s" "idleThread (wake_one t s) = idleThread s"
  "readyThreads (wake_one t s) = readyThreads s @ [t]" "suspendedThreads (wake_one t s) = suspendedThreads s"
  "sleepingThreads (wake_one t s) = remove1 t (sleepingThreads s)"
  "SleepTicks (thr (wake_one t s) u) = SleepTicks (thr s u)"
  "WakeCount (thr (wake_one t s) u) = WakeCount (thr s u)"
  by (simp_all add: wake_one_def Let_def q_add_def)

lemma wake_sleepers_fields:
  assumes "distinct (sleepingThreads s)"
  shows "currentThread (wake_sleepers s) = currentThread s \<and> idleThread (wake_sleepers s) = idleThread s \<and>
    suspendedThreads (wake_sleepers s) = suspendedThreads s \<and>
    (\<exists>ws. readyThreads (wake_sleepers s) = readyThreads s @ ws \<and>
       set ws = {t \<in> set (sleepingThreads s). SleepTicks (thr s t) = 0}) \<and>
    set (sleepingThreads (wake_sleepers s)) = {t \<in> set (sleepingThreads s). SleepTicks (thr s t) \<noteq> 0} \<and>
    (\<forall>u. SleepTicks (thr (wake_sleepers s) u) = SleepTicks (thr s u) \<and>
         WakeCount (thr (wake_sleepers s) u) = WakeCount (thr s u))"
  using assms
proof (induction s rule: wake_sleepers.induct)
  case (1 s)
  show ?case
  proof (cases "List.find (\<lambda>t. SleepTicks (thr s t) = 0) (sleepingThreads s)")
    case None
    then have e: "wake_sleepers s = s" by (subst wake_sleepers.simps) simp
    show ?thesis using None unfolding e by (auto simp: find_None_iff)
  next
    case (Some t)
    then have t: "t \<in> set (sleepingThreads s)" "SleepTicks (thr s t) = 0" by (auto simp: find_Some_iff)
    have step: "wake_sleepers s = wake_sleepers (wake_one t s)" using Some by (subst wake_sleepers.simps) simp
    have d: "distinct (sleepingThreads (wake_one t s))" using "1.prems" by simp
    show ?thesis using "1.IH" [OF Some d] t "1.prems" unfolding step by auto
  qed
qed

lemma wake_sleepers_other:
  "u \<notin> set (sleepingThreads s) \<Longrightarrow> thr (wake_sleepers s) u = thr s u"
proof (induction s rule: wake_sleepers.induct)
  case (1 s)
  show ?case
  proof (cases "List.find (\<lambda>t. SleepTicks (thr s t) = 0) (sleepingThreads s)")
    case None
    then show ?thesis by (simp add: wake_sleepers.simps [of s])
  next
    case (Some t)
    then have "t \<noteq> u" using "1.prems" by (auto simp: find_Some_iff)
    then have "thr (wake_one t s) u = thr s u" by (simp add: wake_one_def Let_def)
    then show ?thesis using 1 Some by (simp add: wake_sleepers.simps [of s] notin_set_remove1)
  qed
qed

lemma requeue_current_fields:
  "sleepingThreads (requeue_current s) = sleepingThreads s"
  "\<exists>ys. readyThreads (requeue_current s) = readyThreads s @ ys"
  "SleepTicks (thr (requeue_current s) u) = SleepTicks (thr s u)"
  "WakeCount (thr (requeue_current s) u) = WakeCount (thr s u)"
  by (auto simp: requeue_current_def q_add_def split: option.splits)

definition present :: "sched \<Rightarrow> nat set" where
  "present s = set (queued s) \<union> set_option (currentThread s)"

lemma Thread_Exists_present: "Thread_Exists t s \<longleftrightarrow> t \<in> present s"
  by (auto simp: Thread_Exists_def present_def queued_def)

lemma present_wake_sleepers: "distinct (sleepingThreads s) \<Longrightarrow> present (wake_sleepers s) = present s"
  using wake_sleepers_fields [of s] by (auto simp: present_def queued_def)

lemma requeue_current_present:
  assumes "leaving_ok s"
  shows "present s - {idleThread s} \<subseteq> set (queued (requeue_current s))"
  using assms
  by (auto simp: leaving_ok_def queues_ok_def present_def queued_def requeue_current_def split: option.splits)

lemma Thread_GetNext_switch_present:
  assumes "if doTick then sched_ok s else leaving_ok s" and g: "Thread_GetNext doTick s = (t, s')"
  shows "present s - {idleThread s} \<subseteq> present (Thread_Switch t s')"
proof -
  let ?d = "if doTick then tick_down s else s"
  let ?w = "wake_sleepers ?d"
  have l: "leaving_ok ?d" using assms(1) by (auto simp: tick_down_ok split: if_splits)
  then have d: "distinct (sleepingThreads ?d)" by (auto simp: leaving_ok_def queues_ok_def queued_def)
  have "present ?d = present s" "idleThread ?d = idleThread s"
    by (auto simp: present_def queued_def tick_down_def fold_upd_fields)
  then have "present s = present ?w" "idleThread s = idleThread ?w"
    using present_wake_sleepers [OF d] wake_sleepers_fields [OF d] by auto
  then have sub: "present s - {idleThread s} \<subseteq> set (queued (requeue_current ?w))"
    using requeue_current_present [OF wake_sleepers_ok [OF l]] by simp
  have "set (queued (requeue_current ?w)) \<subseteq> insert t (set (queued s'))"
    using g by (auto simp: Thread_GetNext_def Let_def queued_def split: list.splits)
  moreover have "insert t (set (queued s')) \<subseteq> present (Thread_Switch t s')"
    by (auto simp: present_def Thread_Switch_def queued_def)
  ultimately show ?thesis using sub by blast
qed

text \<open>The timer interrupt.\<close>

abbreviation timer :: "sched \<Rightarrow> sched" where
  "timer \<equiv> Time_Tick True False"

lemma timer_ok: "sched_ok s \<Longrightarrow> sched_ok ((timer ^^ n) s)"
  by (induction n) (simp_all add: Time_Tick_ok)

lemma timer_fields:
  assumes ok: "sched_ok s"
  shows "idleThread (timer s) = idleThread s"
    and "set (sleepingThreads (timer s)) = {t \<in> set (sleepingThreads s). SleepTicks (thr s t) \<notin> {0, 1}}"
    and "u \<in> set (sleepingThreads s) \<Longrightarrow> SleepTicks (thr s u) > 0 \<Longrightarrow> SleepTicks (thr (timer s) u) = SleepTicks (thr s u) - 1"
    and "WakeCount (thr (timer s) u) = WakeCount (thr s u)"
    and "present s - {idleThread s} \<subseteq> present (timer s)"
    and "readyThreads s = x # xs \<Longrightarrow> currentThread (timer s) = Some x \<and> (\<exists>ys. readyThreads (timer s) = xs @ ys)"
proof -
  let ?d = "tick_down s" let ?r = "requeue_current (wake_sleepers ?d)"
  have q: "queues_ok s" using ok by (simp add: sched_ok_def)
  obtain t s' where g: "Thread_GetNext True s = (t, s')" by force
  have T: "timer s = (Thread_Switch t s')\<lparr>systemTicks := systemTicks (Thread_Switch t s') + 1, IRQFlag := False\<rparr>"
    by (simp add: Time_Tick_def g Let_def)
  have "distinct (sleepingThreads ?d)" using q by (simp add: queues_ok_def queued_def tick_down_def fold_upd_fields)
  note w = wake_sleepers_fields [OF this] note r = requeue_current_fields [of "wake_sleepers ?d"]
  have f: "readyThreads ?d = readyThreads s" "sleepingThreads ?d = sleepingThreads s" "idleThread ?d = idleThread s"
    by (simp_all add: tick_down_def fold_upd_fields)
  have wd: "WakeCount (thr ?d v) = WakeCount (thr s v)" for v
    using q by (simp add: tick_down_def fold_upd_thr queues_ok_def queued_def)
  have s': "t = idleThread ?r \<and> s' = ?r \<and> readyThreads ?r = [] \<or> (\<exists>ts. readyThreads ?r = t # ts \<and> s' = ?r\<lparr>readyThreads := ts\<rparr>)"
    using g by (auto simp: Thread_GetNext_def Let_def split: list.splits)
  have sw: "idleThread (Thread_Switch t s') = idleThread s'" "sleepingThreads (Thread_Switch t s') = sleepingThreads s'"
    "readyThreads (Thread_Switch t s') = readyThreads s'" "currentThread (Thread_Switch t s') = Some t"
    "SleepTicks (thr (Thread_Switch t s') v) = SleepTicks (thr s' v)"
    "WakeCount (thr (Thread_Switch t s') v) = WakeCount (thr s' v)" for v
    by (simp_all add: Thread_Switch_def)
  show "idleThread (timer s) = idleThread s" using s' w f by (auto simp: T sw)
  show "set (sleepingThreads (timer s)) = {t \<in> set (sleepingThreads s). SleepTicks (thr s t) \<notin> {0, 1}}"
  proof -
    have "sleepingThreads (timer s) = sleepingThreads (wake_sleepers ?d)" using s' r(1) by (auto simp: T sw)
    then show ?thesis using w f by (auto simp: tick_down_state [OF q])
  qed
  have "SleepTicks (thr (timer s) u) = SleepTicks (thr ?d u)" using s' w r(3) by (auto simp: T sw)
  then show "u \<in> set (sleepingThreads s) \<Longrightarrow> SleepTicks (thr s u) > 0 \<Longrightarrow> SleepTicks (thr (timer s) u) = SleepTicks (thr s u) - 1"
    by (simp add: tick_down_state [OF q])
  show "WakeCount (thr (timer s) u) = WakeCount (thr s u)" using s' w r(4) wd by (auto simp: T sw)
  show "present s - {idleThread s} \<subseteq> present (timer s)"
    using Thread_GetNext_switch_present [of True s t s'] ok g by (simp add: T present_def queued_def)
  show "readyThreads s = x # xs \<Longrightarrow> currentThread (timer s) = Some x \<and> (\<exists>ys. readyThreads (timer s) = xs @ ys)"
    using s' w r(2) f by (auto simp: T sw)
qed

lemma timer_WakeCount: "sched_ok s \<Longrightarrow> WakeCount (thr ((timer ^^ n) s) u) = WakeCount (thr s u)"
  by (induction n) (simp_all add: timer_fields timer_ok)

lemma timer_idle: "sched_ok s \<Longrightarrow> idleThread ((timer ^^ n) s) = idleThread s"
  by (induction n) (simp_all add: timer_fields timer_ok)

lemma funpow_inner: "(f ^^ Suc n) x = (f ^^ n) (f x)"
  by (simp add: funpow_swap1)

text \<open>A switch away from the current thread suspends at most that thread.\<close>

lemma FakeTick_fields:
  assumes l: "leaving_ok s"
  shows "WakeCount (thr (FakeTick s) u) = WakeCount (thr s u)"
    and "set (suspendedThreads (FakeTick s)) = set (suspendedThreads s)
      \<union> {c. currentThread s = Some c \<and> c \<noteq> idleThread s \<and> State (thr s c) = Suspending}"
proof -
  let ?w = "wake_sleepers s" let ?r = "requeue_current ?w"
  obtain t s' where g: "Thread_GetNext False s = (t, s')" by force
  have T: "thr (FakeTick s) = thr (Thread_Switch t s')" "suspendedThreads (FakeTick s) = suspendedThreads (Thread_Switch t s')"
    by (simp_all add: FakeTick_def Time_Tick_def g Let_def)
  have "distinct (sleepingThreads s)" using l by (simp add: leaving_ok_def queues_ok_def queued_def)
  note w = wake_sleepers_fields [OF this]
  have wf: "currentThread ?w = currentThread s" "idleThread ?w = idleThread s" "suspendedThreads ?w = suspendedThreads s"
    "WakeCount (thr ?w u) = WakeCount (thr s u)" using w by simp_all
  have s': "s' = ?r \<or> (\<exists>ts. s' = ?r\<lparr>readyThreads := ts\<rparr>)"
    using g by (auto simp: Thread_GetNext_def Let_def split: list.splits)
  have "WakeCount (thr (Thread_Switch t s') u) = WakeCount (thr s' u)" by (simp add: Thread_Switch_def)
  then show "WakeCount (thr (FakeTick s) u) = WakeCount (thr s u)"
    unfolding T using s' requeue_current_fields(4) [of ?w u] wf by auto
  have st: "State (thr ?w c) = Suspending \<longleftrightarrow> State (thr s c) = Suspending" if "currentThread s = Some c" for c
    using l that wake_sleepers_Suspending [of s c] wake_sleepers_other [of c s]
    by (cases "c \<in> set (sleepingThreads s)") (auto simp: leaving_ok_def queues_ok_def)
  have "set (suspendedThreads ?r) = set (suspendedThreads s)
      \<union> {c. currentThread s = Some c \<and> c \<noteq> idleThread s \<and> State (thr s c) = Suspending}"
  proof (cases "currentThread s")
    case (Some c)
    with st [of c] show ?thesis
      by (cases "c \<noteq> idleThread s \<and> State (thr s c) = Suspending") (auto simp: requeue_current_def wf)
  qed (simp add: requeue_current_def wf)
  moreover have "suspendedThreads (FakeTick s) = suspendedThreads ?r"
    unfolding T using s' by (auto simp: Thread_Switch_def)
  ultimately show "set (suspendedThreads (FakeTick s)) = set (suspendedThreads s)
      \<union> {c. currentThread s = Some c \<and> c \<noteq> idleThread s \<and> State (thr s c) = Suspending}" by simp
qed

text \<open>A timer interrupt suspends nobody.\<close>

lemma timer_suspended:
  assumes ok: "sched_ok s" shows "suspendedThreads (timer s) = suspendedThreads s"
proof -
  let ?w = "wake_sleepers (tick_down s)"
  have q: "queues_ok s" using ok by (simp add: sched_ok_def)
  have l: "leaving_ok ?w" by (intro wake_sleepers_ok tick_down_ok ok)
  have "distinct (sleepingThreads (tick_down s))" using q by (simp add: queues_ok_def queued_def tick_down_def fold_upd_fields)
  note w = wake_sleepers_fields [OF this]
  have cur: "currentThread ?w = currentThread s" using w by (simp add: tick_down_def fold_upd_fields)
  have "State (thr ?w c) \<noteq> Suspending" if "currentThread s = Some c" for c
    using ok that wake_sleepers_Suspending [of "tick_down s" c] by (auto simp: tick_down_state [OF q] sched_ok_def)
  then have "suspendedThreads (requeue_current ?w) = suspendedThreads ?w"
    using cur by (auto simp: requeue_current_def split: option.splits)
  moreover have "suspendedThreads ?w = suspendedThreads s" using w by (simp add: tick_down_def fold_upd_fields)
  ultimately show ?thesis
    by (auto simp: Time_Tick_def Thread_GetNext_def Thread_Switch_def Let_def split: list.splits)
qed

section \<open>The threads of the system\<close>

text \<open>
  The steps of the scheduler: the timer interrupt, the chip raising its flag while interrupts are disabled (a fake
  tick may then consume it, and the interrupt itself finds the flag clear), and every operation on a thread. A thread
  is enabled once; the idle thread is never suspended and never sleeps. A sleep lasts at least one tick: the number of
  ticks, as the \<open>int\<close> the code stores, is not 0. \<open>Sleep\<close> adds one tick to every duration, but \<open>TicksSleep\<close> is
  public; lemma \<open>zero_tick_sleep_duplicates\<close> below shows what a sleep of 0 ticks does.
\<close>

inductive sched_step :: "sched \<Rightarrow> sched \<Rightarrow> bool" where
  step_timer: "sched_step s (timer s)"
| step_flag: "sched_step s (s\<lparr>IRQFlag := True\<rparr>)"
| step_spurious: "sched_step s (Time_Tick False False s)"
| step_yield: "sched_step s (Thread_Yield s)"
| step_enable: "\<not> Thread_Exists t s \<Longrightarrow> t \<noteq> idleThread s \<Longrightarrow> sched_step s (Thread_Enable t s)"
| step_suspend: "t \<noteq> idleThread s \<Longrightarrow> sched_step s (Thread_Suspend t s)"
| step_resume: "sched_step s (snd (Thread_Resume t prepend s))"
| step_quick: "sched_step s (snd (Thread_QuickResume t s))"
| step_sleep: "Thread_Exists t s \<Longrightarrow> t \<noteq> idleThread s \<Longrightarrow> i32 (int ticks) \<noteq> 0 \<Longrightarrow>
    sched_step s (snd (Thread_TicksSleep t ticks interruptible s))"

lemma sched_step_ok: "sched_step s s' \<Longrightarrow> sched_ok s \<Longrightarrow> sched_ok s'"
  by (induction rule: sched_step.induct)
    (simp_all add: Time_Tick_ok Thread_Yield_def FakeTick_ok sched_ok_leaving Thread_Enable_ok Thread_Suspend_ok
      Thread_Resume_ok Thread_QuickResume_ok Thread_TicksSleep_ok)

lemma present_flag: "present (s\<lparr>IRQFlag := b\<rparr>) = present s"
  by (simp add: present_def queued_def)

lemma Time_Tick_present:
  assumes "leaving_ok s" "\<not> (isIRQ \<and> \<not> fake)"
  shows "present s - {idleThread s} \<subseteq> present (Time_Tick isIRQ fake s)"
proof -
  obtain t s' where g: "Thread_GetNext False s = (t, s')" by force
  have "(isIRQ \<and> \<not> fake) = False" using assms(2) by simp
  then have "present (Time_Tick isIRQ fake s) = present (Thread_Switch t s')"
    unfolding Time_Tick_def by (simp only: g Let_def) (simp add: present_def queued_def)
  then show ?thesis using Thread_GetNext_switch_present [of False s t s'] assms(1) g by simp
qed

lemma FakeTick_present: "leaving_ok s \<Longrightarrow> present s - {idleThread s} \<subseteq> present (FakeTick s)"
  by (simp add: FakeTick_def Time_Tick_present)

lemma present_upd [simp]: "present (upd t f s) = present s"
  by (simp add: present_def queued_def)

lemma present_use_wake [simp]: "present (use_wake t s) = present s"
  by (simp add: present_def queued_def)

lemma Thread_Suspend_present:
  assumes "sched_ok s" "t \<noteq> idleThread s"
  shows "present s - {idleThread s} \<subseteq> present (Thread_Suspend t s)"
proof -
  let ?s = "use_wake t s"
  have ok: "sched_ok ?s" using assms by simp
  have "leaving_ok (upd t (\<lambda>x. x\<lparr>State := Suspending\<rparr>) ?s)" if "currentThread ?s = Some t"
    using ok that assms(2) by (auto simp: sched_ok_def leaving_ok_def queues_ok_def queued_def)
  from FakeTick_present [OF this]
  have "present s - {idleThread s} \<subseteq> present (FakeTick (upd t (\<lambda>x. x\<lparr>State := Suspending\<rparr>) ?s))"
    if "currentThread s = Some t" using that by simp
  then show ?thesis
    by (auto simp: Thread_Suspend_def Let_def present_def queued_def dest: in_set_remove1)
qed

lemma Thread_Resume_present:
  assumes "sched_ok s" shows "present (snd (Thread_Resume t prepend s)) = present s"
  using assms
  by (auto simp: Thread_Resume_def Let_def resume_thread_def present_def queued_def sched_ok_def queues_ok_def)

lemma Thread_Resume_idle [simp]: "idleThread (snd (Thread_Resume t prepend s)) = idleThread s"
  by (simp add: Thread_Resume_def Let_def resume_thread_def)

lemma Thread_QuickResume_present:
  assumes "sched_ok s" shows "present s - {idleThread s} \<subseteq> present (snd (Thread_QuickResume t s))"
proof -
  obtain b s1 where r: "Thread_Resume t True s = (b, s1)" by force
  obtain u s2 where g: "Thread_GetNext True s1 = (u, s2)" by force
  have p: "present s1 = present s" "idleThread s1 = idleThread s" "sched_ok s1"
    using Thread_Resume_present [OF assms, of t True] Thread_Resume_ok [OF assms, of t True]
      Thread_Resume_idle [of t True s] by (simp_all add: r)
  have "present s1 - {idleThread s1} \<subseteq> present (Thread_Switch u s2)"
    using Thread_GetNext_switch_present [of True s1 u s2] p g by simp
  with p show ?thesis by (cases b) (auto simp: Thread_QuickResume_def r g)
qed

lemma Thread_TicksSleep_present:
  assumes "sched_ok s" "t \<noteq> idleThread s" "i32 (int ticks) \<noteq> 0"
  shows "present s - {idleThread s} \<subseteq> present (snd (Thread_TicksSleep t ticks interruptible s))"
proof -
  define s1 where "s1 = use_wake t s"
  have s1: "sched_ok s1" "present s1 = present s" "idleThread s1 = idleThread s" using assms by (simp_all add: s1_def)
  define s2 where "s2 = upd t (\<lambda>x. x\<lparr>State := Sleeping, SleepTicks := i32 (int ticks), InterruptibleSleep := interruptible\<rparr>)
    (s1\<lparr>readyThreads := remove1 t (readyThreads s1), suspendedThreads := remove1 t (suspendedThreads s1),
      sleepingThreads := q_add t False (remove1 t (sleepingThreads s1))\<rparr>)"
  have s2: "present s \<subseteq> present s2" "currentThread s2 = currentThread s1" "idleThread s2 = idleThread s1"
  proof -
    have "x \<in> set q \<Longrightarrow> x = t \<or> x \<in> set (remove1 t q)" for q and x :: nat by (induction q) auto
    then show "present s \<subseteq> present s2" unfolding s1(2) [symmetric] by (auto simp: s2_def present_def queued_def)
  qed (simp_all add: s2_def)
  let ?p = "upd t (\<lambda>x. x\<lparr>CanChangeState := True, StackTop := 0x1234abcd\<rparr>) s2"
  have "leaving_ok ?p" if "currentThread s1 = Some t"
    using s1 that assms(2,3)
    by (auto simp: sched_ok_def leaving_ok_def queues_ok_def queued_def s2_def dest: notin_set_remove1)
  from FakeTick_present [OF this] have "present s - {idleThread s} \<subseteq> present (FakeTick ?p)"
    if "currentThread s1 = Some t" using that s1 s2 by auto
  then show ?thesis using s1 s2
    by (auto simp: Thread_TicksSleep_def s1_def [symmetric] s2_def [symmetric] Let_def)
qed

lemma Time_Tick_idle: "Thread_GetNext (isIRQ \<and> \<not> fake) s = (t, s') \<Longrightarrow> idleThread s' = i \<Longrightarrow> idleThread (Time_Tick isIRQ fake s) = i"
  by (simp add: Time_Tick_def Thread_Switch_def Let_def)

lemma wake_sleepers_idle [simp]: "idleThread (wake_sleepers s) = idleThread s"
proof (induction s rule: wake_sleepers.induct)
  case (1 s)
  then show ?case
    by (cases "List.find (\<lambda>t. SleepTicks (thr s t) = 0) (sleepingThreads s)") (simp_all add: wake_sleepers.simps [of s])
qed

lemma Thread_GetNext_idle: "Thread_GetNext d s = (t, s') \<Longrightarrow> idleThread s' = idleThread s"
  by (auto simp: Thread_GetNext_def Let_def tick_down_def fold_upd_fields split: list.splits if_splits)

lemma idle_fields [simp]:
  "idleThread (Time_Tick isIRQ fake s) = idleThread s"
  "idleThread (FakeTick s) = idleThread s"
proof -
  show *: "idleThread (Time_Tick isIRQ fake s) = idleThread s" for isIRQ fake
    by (cases "Thread_GetNext (isIRQ \<and> \<not> fake) s")
      (simp add: Time_Tick_def Thread_Switch_def Let_def Thread_GetNext_idle)
  show "idleThread (FakeTick s) = idleThread s" by (simp add: FakeTick_def *)
qed

lemma sched_step_idle: "sched_step s s' \<Longrightarrow> idleThread s' = idleThread s"
proof (induction rule: sched_step.induct)
  case (step_quick s t)
  obtain b s1 where r: "Thread_Resume t True s = (b, s1)" by force
  obtain u s2 where g: "Thread_GetNext True s1 = (u, s2)" by force
  show ?case using Thread_Resume_idle [of t True s] Thread_GetNext_idle [OF g]
    by (cases b) (simp_all add: Thread_QuickResume_def r g Thread_Switch_def)
qed (simp_all add: Thread_Yield_def Thread_Enable_def Thread_Suspend_def Thread_TicksSleep_def Let_def)

lemma sched_step_present:
  assumes "sched_step s s'" "sched_ok s" shows "present s - {idleThread s} \<subseteq> present s'"
  using assms
proof (induction rule: sched_step.induct)
  case (step_enable t s)
  then show ?case by (auto simp: Thread_Enable_def present_def queued_def)
qed (simp_all add: Thread_Yield_def FakeTick_present sched_ok_leaving Thread_Suspend_present Thread_Resume_present
      Thread_QuickResume_present Thread_TicksSleep_present Time_Tick_present timer_fields(5) present_flag Diff_subset)

lemma sched_steps_ok:
  "sched_step\<^sup>*\<^sup>* s s' \<Longrightarrow> sched_ok s \<Longrightarrow> sched_ok s' \<and> idleThread s' = idleThread s \<and> present s - {idleThread s} \<subseteq> present s'"
proof (induction rule: rtranclp_induct)
  case (step y z)
  then show ?case using sched_step_ok [of y z] sched_step_idle [of y z] sched_step_present [of y z] by auto
qed auto

section \<open>Properties\<close>

definition places :: "nat \<Rightarrow> sched \<Rightarrow> nat" where
  "places t s = count_list (readyThreads s) t + count_list (suspendedThreads s) t + count_list (sleepingThreads s) t
     + (if currentThread s = Some t then 1 else 0)"

lemma places_le_1:
  assumes "sched_ok s" shows "places t s = (if Thread_Exists t s then 1 else 0)"
proof -
  have "count_list q u = (if u \<in> set q then 1 else 0)" if "distinct q" for q :: "nat list" and u
    using that by (induction q) auto
  with assms show ?thesis
    by (auto simp: places_def sched_ok_def queues_ok_def queued_def Thread_Exists_def)
qed

text \<open>The state at the end of \<open>Thread::Initialize\<close>, and the state before it, where every object is zero.\<close>

definition boot :: sched where
  "boot = Thread_Initialize \<lparr>currentThread = None, idleThread = 0, readyThreads = [], suspendedThreads = [],
     sleepingThreads = [], thr = \<lambda>t. Thread_new (int t + 1), systemTicks = 0, IRQFlag = False\<rparr>"

lemma boot_fields [simp]:
  "currentThread boot = Some 0" "idleThread boot = 1" "readyThreads boot = []" "suspendedThreads boot = []"
  "sleepingThreads boot = []" "\<not> IRQFlag boot" "thr boot 0 = Thread_new 1" "thr boot (Suc 0) = (Thread_new 2)\<lparr>State := Ready\<rparr>"
  "t \<ge> 2 \<Longrightarrow> thr boot t = Thread_new (int t + 1)"
  by (auto simp: boot_def Thread_Initialize_def Sequencer_GetNext_def i32_def)

lemma boot_ok: "sched_ok boot"
  by (simp add: sched_ok_def queues_ok_def queued_def Thread_new_def)

text \<open>
  A sleep of 0 ticks: the fake tick of \<open>TicksSleep\<close> wakes the thread it is about to leave and then puts it back into
  the ready queue as the current thread, so that it is both running and ready.
\<close>

lemma zero_tick_sleep_duplicates:
  "let s = snd (Thread_TicksSleep 0 0 interruptible boot)
   in currentThread s = Some 0 \<and> readyThreads s = [0] \<and> places 0 s = 2"
  by (simp add: Thread_TicksSleep_def use_wake_def Let_def Thread_new_def FakeTick_def Time_Tick_def Thread_GetNext_def
      wake_sleepers.simps wake_one_def requeue_current_def Thread_Switch_def q_add_def places_def i32_def)

text \<open>C1.
  From any well-formed state, after any sequence of timer interrupts (also such as find the chip's flag already
  consumed), yields, suspensions, resumptions, enablings of new threads and sleeps of at least one tick, no thread is
  lost and none is duplicated: a thread that exists, other than the idle thread, stays in exactly one of the three
  queues or on the processor, and its \<open>State\<close> field names the queue it is in. The idle thread is never suspended or
  put to sleep, and a thread is enabled once. Sleeps of 0 ticks are excluded: they do duplicate the thread
  (\<open>zero_tick_sleep_duplicates\<close>).\<close>

theorem scheduler_keeps_threads:
  assumes "sched_step\<^sup>*\<^sup>* s s'" "sched_ok s" "Thread_Exists t s" "t \<noteq> idleThread s"
  shows "places t s' = 1
    \<and> (t \<in> set (readyThreads s') \<longleftrightarrow> State (thr s' t) = Ready \<and> currentThread s' \<noteq> Some t)
    \<and> (t \<in> set (suspendedThreads s') \<longleftrightarrow> State (thr s' t) = Suspended \<and> currentThread s' \<noteq> Some t)
    \<and> (t \<in> set (sleepingThreads s') \<longleftrightarrow> State (thr s' t) = Sleeping)"
proof -
  have ok: "sched_ok s'" and ex: "t \<in> present s'"
    using sched_steps_ok [OF assms(1,2)] assms(3,4) by (auto simp: Thread_Exists_present)
  then show ?thesis using places_le_1 [OF ok]
    by (auto simp: Thread_Exists_present sched_ok_def queues_ok_def queued_def present_def)
qed

theorem scheduler_keeps_threads_witness:
  "\<exists>s'. sched_step\<^sup>*\<^sup>* boot s' \<and> 0 \<in> set (suspendedThreads s') \<and> currentThread s' = Some 2 \<and> places 0 s' = 1"
proof -
  let ?s1 = "Thread_Enable 2 boot" let ?s2 = "snd (Thread_Resume 2 False ?s1)" let ?s3 = "Thread_Suspend 0 ?s2"
  have "sched_step boot ?s1" by (intro step_enable) (simp_all add: Thread_Exists_def)
  moreover have "sched_step ?s1 ?s2" by (rule step_resume)
  moreover have "sched_step ?s2 ?s3" by (rule step_suspend) (simp add: Thread_Enable_def)
  ultimately have r: "sched_step\<^sup>*\<^sup>* boot ?s3" by (meson converse_rtranclp_into_rtranclp rtranclp.rtrancl_refl)
  have "0 \<in> set (suspendedThreads ?s3) \<and> currentThread ?s3 = Some 2"
    by (simp add: Thread_Enable_def Thread_Resume_def resume_thread_def Thread_Suspend_def use_wake_def Let_def
        Thread_new_def FakeTick_def Time_Tick_def Thread_GetNext_def wake_sleepers.simps requeue_current_def
        Thread_Switch_def q_add_def i32_def)
  with r scheduler_keeps_threads [OF r boot_ok, of 0] show ?thesis
    by (metis Thread_Exists_def boot_fields(1,2) zero_neq_one)
qed

lemma timer_runs_ready:
  assumes "sched_ok s" "k < length (readyThreads s)"
  shows "currentThread ((timer ^^ (k + 1)) s) = Some (readyThreads s ! k)"
  using assms
proof (induction k arbitrary: s)
  case 0
  then obtain x xs where "readyThreads s = x # xs" by (cases "readyThreads s") auto
  then show ?case using timer_fields(6) [OF "0.prems"(1)] by simp
next
  case (Suc k)
  then obtain x xs where r: "readyThreads s = x # xs" by (cases "readyThreads s") auto
  obtain ys where ys: "readyThreads (timer s) = xs @ ys" using timer_fields(6) [OF Suc.prems(1) r] by auto
  have "k < length xs" using Suc.prems r by simp
  then have "currentThread ((timer ^^ (k + 1)) (timer s)) = Some (xs ! k)"
    using Suc.IH [of "timer s"] Suc.prems Time_Tick_ok [of True False s] ys by (simp add: nth_append)
  then show ?case by (simp add: r funpow_swap1)
qed

text \<open>C26.
  Round robin: the thread at position \<open>k\<close> of the ready queue is the one that runs after \<open>k + 1\<close> timer interrupts,
  however many sleepers wake up in between.\<close>

theorem ready_thread_runs:
  assumes "sched_ok s" "k < length (readyThreads s)"
  shows "currentThread ((timer ^^ (k + 1)) s) = Some (readyThreads s ! k)"
  using assms by (rule timer_runs_ready)

theorem ready_thread_runs_witness:
  "let s = Thread_Enable 2 (Thread_Enable 3 boot);
       s = snd (Thread_Resume 2 False (snd (Thread_Resume 3 False s)))
   in readyThreads s = [3, 2] \<and> currentThread ((timer ^^ 2) s) = Some 2"
proof -
  let ?s = "Thread_Enable 2 (Thread_Enable 3 boot)"
  let ?t = "snd (Thread_Resume 2 False (snd (Thread_Resume 3 False ?s)))"
  have "sched_ok ?s" by (intro Thread_Enable_ok boot_ok) (simp_all add: Thread_Exists_def Thread_Enable_def)
  then have ok: "sched_ok ?t" by (intro Thread_Resume_ok)
  have r: "readyThreads ?t = [3, 2]"
    by (simp add: Thread_Resume_def resume_thread_def Thread_Enable_def Thread_new_def q_add_def Let_def)
  show ?thesis using ready_thread_runs [OF ok, of 1] r by (simp add: Let_def numeral_2_eq_2)
qed

lemma sleeping_countdown:
  assumes "sched_ok s" "t \<in> set (sleepingThreads s)" "SleepTicks (thr s t) = int n" "k < n"
  shows "t \<in> set (sleepingThreads ((timer ^^ k) s)) \<and> SleepTicks (thr ((timer ^^ k) s) t) = int (n - k)"
  using assms(4)
proof (induction k)
  case (Suc k)
  then show ?case using timer_fields(2) [OF timer_ok [OF assms(1)], of k] timer_fields(3) [OF timer_ok [OF assms(1)], of t k]
    by auto
qed (use assms in simp)

text \<open>C27.
  A thread that sleeps for \<open>n > 0\<close> ticks stays asleep for \<open>n - 1\<close> timer interrupts in a row, and the \<open>n\<close>-th one
  makes it ready or runs it. Runs in which other calls (yields, resumptions) come between the interrupts are not
  part of the statement.\<close>

theorem sleeper_wakes_after_n_ticks:
  assumes "sched_ok s" "t \<in> set (sleepingThreads s)" "SleepTicks (thr s t) = int n" "n > 0"
  shows "(\<forall>k < n. t \<in> set (sleepingThreads ((timer ^^ k) s)))
    \<and> (t \<in> set (readyThreads ((timer ^^ n) s)) \<or> currentThread ((timer ^^ n) s) = Some t)"
proof -
  note down = sleeping_countdown [OF assms(1-3)]
  obtain m where n: "n = Suc m" using assms(4) gr0_conv_Suc by blast
  let ?s = "(timer ^^ m) s"
  note ok = timer_ok [OF assms(1), of m]
  have t: "t \<in> set (sleepingThreads ?s)" "SleepTicks (thr ?s t) = 1" using down [of m] n by auto
  have gone: "t \<notin> set (sleepingThreads (timer ?s))" using timer_fields(2) [OF ok] t by simp
  have "t \<noteq> idleThread ?s" "t \<in> present ?s" "State (thr ?s t) = Sleeping"
    using ok t(1) by (auto simp: sched_ok_def queues_ok_def queued_def present_def)
  then have "t \<in> present (timer ?s)" using timer_fields(5) [OF ok] by auto
  moreover have "t \<notin> set (suspendedThreads (timer ?s))"
    using ok t(1) unfolding timer_suspended [OF ok] by (auto simp: sched_ok_def queues_ok_def queued_def)
  ultimately show ?thesis using gone down unfolding n by (auto simp: present_def queued_def)
qed

theorem sleeper_wakes_after_n_ticks_witness:
  "let s = snd (Thread_TicksSleep 0 3 True boot)
   in currentThread s = Some 1 \<and> sleepingThreads s = [0] \<and> 0 \<in> set (sleepingThreads ((timer ^^ 2) s))
     \<and> (0 \<in> set (readyThreads ((timer ^^ 3) s)) \<or> currentThread ((timer ^^ 3) s) = Some 0)"
proof -
  let ?s = "snd (Thread_TicksSleep 0 3 True boot)"
  have ok: "sched_ok ?s" by (rule Thread_TicksSleep_ok [OF boot_ok]) (simp_all add: Thread_Exists_def i32_def)
  have v: "currentThread ?s = Some 1 \<and> sleepingThreads ?s = [0] \<and> SleepTicks (thr ?s 0) = 3"
    by (simp add: Thread_TicksSleep_def use_wake_def Let_def Thread_new_def FakeTick_def Time_Tick_def Thread_GetNext_def
        wake_sleepers.simps requeue_current_def Thread_Switch_def q_add_def i32_def)
  show ?thesis using sleeper_wakes_after_n_ticks [OF ok, of 0 3] v by (simp add: Let_def)
qed

lemma Thread_Resume_running:
  assumes "sched_ok s" "currentThread s = Some t"
  shows "Thread_Resume t prepend s = (False, upd t (\<lambda>x. x\<lparr>WakeCount := i32 (WakeCount x + 1)\<rparr>) s)"
  using assms by (auto simp: Thread_Resume_def Let_def sched_ok_def queued_def)

lemma Thread_Suspend_running:
  assumes "sched_ok s" "currentThread s = Some t" "t \<noteq> idleThread s" "WakeCount (thr (use_wake t s) t) = 0"
  shows "set (suspendedThreads (Thread_Suspend t s)) = insert t (set (suspendedThreads s))"
    and "WakeCount (thr (Thread_Suspend t s) u) = WakeCount (thr (use_wake t s) u)"
    and "currentThread (Thread_Suspend t s) \<noteq> Some t"
proof -
  let ?s = "upd t (\<lambda>x. x\<lparr>State := Suspending\<rparr>) (use_wake t s)"
  have ok: "sched_ok (use_wake t s)" using assms(1) by simp
  have l: "leaving_ok ?s" using ok assms(2,3) by (auto simp: sched_ok_def leaving_ok_def queues_ok_def queued_def)
  have e: "Thread_Suspend t s = FakeTick ?s" using assms(2,4) by (simp add: Thread_Suspend_def Let_def)
  show *: "set (suspendedThreads (Thread_Suspend t s)) = insert t (set (suspendedThreads s))"
    unfolding e FakeTick_fields(2) [OF l] using assms(2,3) by auto
  show "WakeCount (thr (Thread_Suspend t s) u) = WakeCount (thr (use_wake t s) u)"
    unfolding e FakeTick_fields(1) [OF l] by simp
  show "currentThread (Thread_Suspend t s) \<noteq> Some t"
    using Thread_Suspend_ok [OF assms(1,3)] * by (auto simp: sched_ok_def queued_def)
qed

text \<open>
  \<open>WakeCount\<close> remembers a resumption of a running thread only while it is not zero: a thread that was last
  resumed by another thread goes on running when it suspends itself after being resumed early, and its state is
  as if neither had happened; but a thread whose last wait was a sleep that ran out (which leaves the count
  zero) is suspended all the same, so the wake-up is lost.\<close>

lemma early_resume_lost_after_sleep:
  assumes "sched_ok s" "currentThread s = Some t" "t \<noteq> idleThread s"
    and "0 \<le> WakeCount (thr s t)" "WakeCount (thr s t) < 2 ^ 31 - 1"
  shows "if WakeCount (thr s t) = 0 then t \<in> set (suspendedThreads (Thread_Suspend t (snd (Thread_Resume t prepend s))))
    else Thread_Suspend t (snd (Thread_Resume t prepend s)) = s"
proof -
  let ?w = "WakeCount (thr s t)"
  let ?s = "upd t (\<lambda>x. x\<lparr>WakeCount := i32 (WakeCount x + 1)\<rparr>) s"
  have r: "snd (Thread_Resume t prepend s) = ?s" using Thread_Resume_running [OF assms(1,2)] by simp
  have i: "i32 (?w + 1) = ?w + 1" "i32 ?w = ?w" using assms(4,5) by (simp_all add: i32_small in_i32_def)
  have u: "use_wake t ?s = s"
    using assms(4) i by (simp add: use_wake_def upd_def)
  show ?thesis
  proof (cases "?w = 0")
    case True
    have "sched_ok ?s" using assms(1) by (simp add: upd_keeps_ok)
    then show ?thesis using Thread_Suspend_running(1) [of ?s t] assms(2,3) True u by (simp add: r)
  next
    case False
    then show ?thesis using u by (simp add: r Thread_Suspend_def Let_def)
  qed
qed

lemma timer_wakes_only_sleeper:
  assumes "sleepingThreads s = [t]" "SleepTicks (thr s t) = 1" "readyThreads s = []" "currentThread s = Some i"
    "idleThread s = i" "t \<noteq> i"
  shows "currentThread (timer s) = Some t"
  using assms
  by (simp add: Time_Tick_def Thread_GetNext_def tick_down_def wake_sleepers.simps wake_one_def requeue_current_def
      Thread_Switch_def q_add_def Let_def)

end
