(* ===== verification/Sync.thy ===== *)
theory Sync
  imports Sched
begin

text \<open>
  Semaphores and mutexes (\<open>kernel/semaphore.cpp\<close>, \<open>kernel/mutex.cpp\<close>) over the scheduler, and the end of a
  thread (\<open>Thread::Finalize\<close>), which signals one and leaves the queues of both. An operation runs with
  interrupts disabled up to the point where it suspends the calling thread: there it stops with \<open>Blocked\<close>, and
  what follows is a step of its own (\<open>_rest\<close>), taken when the thread is the current one again. A null thread in a
  waiter queue is \<open>None\<close>.
\<close>

section \<open>State\<close>

(* src/kernel/include/semaphore.hpp:9-14 Semaphore *)
record semaphore =
  SemCount :: int
  SemWaiters :: "nat option Queue"

(* src/kernel/include/mutex.hpp:8-16 Mutex *)
record mutex =
  Recursive :: bool
  MtxCount :: int
  Owner :: "nat option"
  MtxWaiters :: "nat option Queue"

record kstate =
  sch :: sched
  sems :: "nat \<Rightarrow> semaphore"
  mtxs :: "nat \<Rightarrow> mutex"

definition set_sem :: "nat \<Rightarrow> semaphore \<Rightarrow> kstate \<Rightarrow> kstate" where
  "set_sem i m k = k\<lparr>sems := (sems k)(i := m)\<rparr>"

definition set_mtx :: "nat \<Rightarrow> mutex \<Rightarrow> kstate \<Rightarrow> kstate" where
  "set_mtx i m k = k\<lparr>mtxs := (mtxs k)(i := m)\<rparr>"

definition on_sched :: "(sched \<Rightarrow> sched) \<Rightarrow> kstate \<Rightarrow> kstate" where
  "on_sched f k = k\<lparr>sch := f (sch k)\<rparr>"

lemma kstate_simps [simp]:
  "sch (set_sem i x k) = sch k" "mtxs (set_sem i x k) = mtxs k" "sems (set_sem i x k) = (sems k)(i := x)"
  "sch (set_mtx i y k) = sch k" "mtxs (set_mtx i y k) = (mtxs k)(i := y)" "sems (set_mtx i y k) = sems k"
  "sch (on_sched f k) = f (sch k)" "mtxs (on_sched f k) = mtxs k" "sems (on_sched f k) = sems k"
  by (simp_all add: set_sem_def set_mtx_def on_sched_def)

datatype 'r outcome = Done 'r | Blocked | Halted

section \<open>Waiting\<close>

text \<open>
  The value of an interrupted or expired sleep is the word on the thread's stack. \<open>Some\<close> is a return to the
  caller, which is the current thread again (or still).
\<close>

definition slept :: "nat \<Rightarrow> nat \<Rightarrow> sched \<Rightarrow> nat" where
  "slept tickFreq t s = ticks_to_millis tickFreq (nat (StackTop (thr s t) mod 2 ^ 32))"

(* src/kernel/semaphore.cpp:38-39 Semaphore::Wait, blocking *)
definition block :: "nat \<Rightarrow> nat \<Rightarrow> nat \<Rightarrow> sched \<Rightarrow> nat option \<times> sched" where
  "block tickFreq ct timeout s =
     (if timeout \<noteq> 0 then
        (case Thread_Sleep tickFreq ct timeout True s of
           (Inl timeleft, s') \<Rightarrow> (Some timeleft, s')
         | (Inr _, s') \<Rightarrow> (if currentThread s' = Some ct then Some (slept tickFreq ct s') else None, s'))
      else let s' = Thread_Suspend ct s in (if currentThread s' = Some ct then Some 1 else None, s'))"

(* src/kernel/semaphore.cpp:59-69 Semaphore::Signal, next waiter *)
fun read_waiter :: "nat \<Rightarrow> nat option Queue \<Rightarrow> (nat option \<times> nat option Queue) option" where
  "read_waiter 0 q = None"
| "read_waiter (Suc n) q =
     (case Read None q of
        (False, _, q') \<Rightarrow> Some (None, q')
      | (True, None, q') \<Rightarrow> read_waiter n q'
      | (True, Some t, q') \<Rightarrow> Some (Some t, q'))"

text \<open>The loop ends after at most one turn for each slot and a last one.\<close>

definition next_waiter :: "nat option Queue \<Rightarrow> nat option \<times> nat option Queue" where
  "next_waiter q = (case read_waiter (Capacity q + 1) q of Some r \<Rightarrow> r | None \<Rightarrow> (None, q))"

section \<open>Semaphores\<close>

(* src/kernel/semaphore.cpp:10-15 Semaphore::Semaphore *)
definition Semaphore_new :: "int \<Rightarrow> semaphore" where
  "Semaphore_new count = \<lparr>SemCount = count, SemWaiters = Queue_new None 32\<rparr>"

(* src/kernel/semaphore.cpp:40-47 Semaphore::Wait, after waiting *)
definition Semaphore_Wait_rest :: "nat \<Rightarrow> nat \<Rightarrow> int \<Rightarrow> kstate \<Rightarrow> int \<times> kstate" where
  "Semaphore_Wait_rest this ct timeleft k =
     (let k = on_sched (upd ct (\<lambda>x. x\<lparr>WaitingSemaphore := None\<rparr>)) k;
          m = sems k this;
          m = (if timeleft = 0 then m\<lparr>SemWaiters := snd (RemoveFirst (SemWaiters m) (Some ct))\<rparr>
               else m\<lparr>SemCount := i32 (SemCount m - 1)\<rparr>)
      in (if timeleft \<noteq> 0 then timeleft else - EBUSY, set_sem this m k))"

text \<open>Before threads are initialized the current thread is null, and a wait that has to block stops the kernel on it.\<close>

(* src/kernel/semaphore.cpp:17-53 Semaphore::Wait *)
definition Semaphore_Wait :: "nat \<Rightarrow> nat \<Rightarrow> nat \<Rightarrow> bool \<Rightarrow> kstate \<Rightarrow> int outcome \<times> kstate" where
  "Semaphore_Wait tickFreq this timeout tryWait k =
     (let m = sems k this; ct = currentThread (sch k) in
      if SemCount m > 0 then (Done (i32 (int timeout)), set_sem this (m\<lparr>SemCount := SemCount m - 1\<rparr>) k)
      else if tryWait then (Done (- EBUSY), k)
      else case Write (SemWaiters m) ct of
             (False, _) \<Rightarrow> (Done (- ENOMEM), k)
           | (True, q) \<Rightarrow>
               let k = set_sem this (m\<lparr>SemWaiters := q\<rparr>) k in
               case ct of None \<Rightarrow> (Halted, k)
               | Some ct \<Rightarrow>
                   let k = on_sched (upd ct (\<lambda>x. x\<lparr>WaitingSemaphore := Some this\<rparr>)) k
                   in case block tickFreq ct timeout (sch k) of
                        (None, s) \<Rightarrow> (Blocked, k\<lparr>sch := s\<rparr>)
                      | (Some timeleft, s) \<Rightarrow>
                          (case Semaphore_Wait_rest this ct (i32 (int timeleft)) (k\<lparr>sch := s\<rparr>) of (r, k) \<Rightarrow> (Done r, k)))"

text \<open>A blocked wait goes on when its thread runs again.\<close>

definition Semaphore_Wait_return :: "nat \<Rightarrow> nat \<Rightarrow> nat \<Rightarrow> nat \<Rightarrow> kstate \<Rightarrow> int \<times> kstate" where
  "Semaphore_Wait_return tickFreq this timeout ct k =
     Semaphore_Wait_rest this ct (if timeout \<noteq> 0 then i32 (int (slept tickFreq ct (sch k))) else 1) k"

(* src/kernel/semaphore.cpp:55-75 Semaphore::Signal *)
definition Semaphore_Signal :: "nat \<Rightarrow> bool \<Rightarrow> kstate \<Rightarrow> kstate" where
  "Semaphore_Signal this in_isr k =
     (let m = sems k this;
          m = m\<lparr>SemCount := i32 (SemCount m + 1)\<rparr>
      in case next_waiter (SemWaiters m) of
           (None, q) \<Rightarrow> set_sem this (m\<lparr>SemWaiters := q\<rparr>) k
         | (Some t, q) \<Rightarrow>
             on_sched (\<lambda>s. if in_isr then snd (Thread_QuickResume t s) else snd (Thread_Resume t False s))
               (set_sem this (m\<lparr>SemWaiters := q\<rparr>) k))"

(* src/kernel/semaphore.cpp:77-82 Semaphore::Cancel *)
definition Semaphore_Cancel :: "nat \<Rightarrow> nat \<Rightarrow> kstate \<Rightarrow> kstate" where
  "Semaphore_Cancel this t k =
     set_sem this ((sems k this)\<lparr>SemWaiters := snd (RemoveFirst (SemWaiters (sems k this)) (Some t))\<rparr>) k"

(* src/kernel/semaphore.cpp:84-87 Semaphore::GetCount *)
definition Semaphore_GetCount :: "nat \<Rightarrow> kstate \<Rightarrow> int" where
  "Semaphore_GetCount this k = SemCount (sems k this)"

(* src/kernel/semaphore.cpp:89-95 Semaphore::Reset *)
definition Semaphore_Reset :: "nat \<Rightarrow> int \<Rightarrow> kstate \<Rightarrow> kstate option" where
  "Semaphore_Reset this count k =
     map_option (\<lambda>q. set_sem this \<lparr>SemCount = count, SemWaiters = q\<rparr> k) (Clear None (SemWaiters (sems k this)))"

section \<open>Mutexes\<close>

(* src/kernel/mutex.cpp:12-17 Mutex::Mutex *)
definition Mutex_new :: "bool \<Rightarrow> mutex" where
  "Mutex_new recursive = \<lparr>Recursive = recursive, MtxCount = 0, Owner = None, MtxWaiters = Queue_new None 32\<rparr>"

(* src/kernel/mutex.cpp:57-62 Mutex::Acquire, after waiting *)
definition Mutex_Acquire_rest :: "nat \<Rightarrow> nat \<Rightarrow> bool \<Rightarrow> kstate \<Rightarrow> bool \<times> kstate" where
  "Mutex_Acquire_rest this ct success k =
     (let k = on_sched (upd ct (\<lambda>x. x\<lparr>WaitingMutex := None\<rparr>)) k;
          m = mtxs k this
      in (success, if success then k else set_mtx this (m\<lparr>MtxWaiters := snd (RemoveFirst (MtxWaiters m) (Some ct))\<rparr>) k))"

(* src/kernel/mutex.cpp:19-68 Mutex::Acquire *)
definition Mutex_Acquire :: "nat \<Rightarrow> nat \<Rightarrow> nat \<Rightarrow> bool \<Rightarrow> kstate \<Rightarrow> bool outcome \<times> kstate" where
  "Mutex_Acquire tickFreq this timeout tryAcquire k =
     (case currentThread (sch k) of None \<Rightarrow> (Done True, k)
      | Some ct \<Rightarrow>
          let m = mtxs k this in
          if MtxCount m = 0 \<or> Owner m = Some ct then
            if tryAcquire then (Done False, k)
            else if \<not> Recursive m \<and> MtxCount m \<noteq> 0 then (Halted, k)
            else (Done True, set_mtx this (m\<lparr>MtxCount := i32 (MtxCount m + 1), Owner := Some ct\<rparr>) k)
          else if tryAcquire then (Done False, k)
          else case Write (MtxWaiters m) (Some ct) of
                 (False, _) \<Rightarrow> (Done False, k)
               | (True, q) \<Rightarrow>
                   let k = set_mtx this (m\<lparr>MtxWaiters := q\<rparr>) k;
                       k = on_sched (upd ct (\<lambda>x. x\<lparr>WaitingMutex := Some this\<rparr>)) k
                   in case block tickFreq ct timeout (sch k) of
                        (None, s) \<Rightarrow> (Blocked, k\<lparr>sch := s\<rparr>)
                      | (Some timeleft, s) \<Rightarrow>
                          (case Mutex_Acquire_rest this ct (timeleft \<noteq> 0) (k\<lparr>sch := s\<rparr>) of (r, k) \<Rightarrow> (Done r, k)))"

definition Mutex_Acquire_return :: "nat \<Rightarrow> nat \<Rightarrow> nat \<Rightarrow> nat \<Rightarrow> kstate \<Rightarrow> bool \<times> kstate" where
  "Mutex_Acquire_return tickFreq this timeout ct k =
     Mutex_Acquire_rest this ct (timeout = 0 \<or> slept tickFreq ct (sch k) \<noteq> 0) k"

(* src/kernel/mutex.cpp:70-108 Mutex::Release *)
definition Mutex_Release :: "nat \<Rightarrow> kstate \<Rightarrow> kstate" where
  "Mutex_Release this k =
     (case currentThread (sch k) of None \<Rightarrow> k
      | Some ct \<Rightarrow>
          let m = mtxs k this in
          if Owner m \<noteq> Some ct then k
          else
            let m = (if MtxCount m > 0 then m\<lparr>MtxCount := MtxCount m - 1\<rparr> else m) in
            if MtxCount m \<noteq> 0 then set_mtx this m k
            else case next_waiter (MtxWaiters m) of
                   (None, q) \<Rightarrow> set_mtx this (m\<lparr>Owner := None, MtxWaiters := q\<rparr>) k
                 | (Some t, q) \<Rightarrow>
                     on_sched (\<lambda>s. snd (Thread_Resume t False s))
                       (set_mtx this (m\<lparr>Owner := Some t, MtxCount := 1, MtxWaiters := q\<rparr>) k))"

(* src/kernel/mutex.cpp:110-115 Mutex::Cancel *)
definition Mutex_Cancel :: "nat \<Rightarrow> nat \<Rightarrow> kstate \<Rightarrow> kstate option" where
  "Mutex_Cancel this t k =
     map_option (\<lambda>r. set_mtx this ((mtxs k this)\<lparr>MtxWaiters := snd r\<rparr>) k)
       (ReplaceAll (Some t) None (MtxWaiters (mtxs k this)))"

(* src/kernel/mutex.cpp:117-120 Mutex::GetCount *)
definition Mutex_GetCount :: "nat \<Rightarrow> kstate \<Rightarrow> int" where
  "Mutex_GetCount this k = MtxCount (mtxs k this)"

section \<open>The end of a thread\<close>

text \<open>\<open>Finished t\<close> is the semaphore that \<open>t\<close> points to; the exit code goes to user memory and is left out.\<close>

(* src/kernel/thread.cpp:142-171 Thread::Finalize *)
definition Thread_Finalize :: "nat option \<Rightarrow> (nat \<Rightarrow> nat option) \<Rightarrow> kstate \<Rightarrow> kstate option" where
  "Thread_Finalize thread Finished k =
     (case (case thread of None \<Rightarrow> currentThread (sch k) | Some t \<Rightarrow> Some t) of None \<Rightarrow> None
      | Some t \<Rightarrow>
          let k = (case Finished t of None \<Rightarrow> k | Some f \<Rightarrow> Semaphore_Signal f False k);
              k = on_sched (upd t (\<lambda>x. x\<lparr>State := Finalized\<rparr>)) k
          in case (case WaitingMutex (thr (sch k) t) of None \<Rightarrow> Some k | Some m \<Rightarrow> Mutex_Cancel m t k) of None \<Rightarrow> None
             | Some k \<Rightarrow>
                 let k = (case WaitingSemaphore (thr (sch k) t) of None \<Rightarrow> k | Some m \<Rightarrow> Semaphore_Cancel m t k);
                     k = on_sched (\<lambda>s. s\<lparr>readyThreads := remove1 t (readyThreads s),
                           suspendedThreads := remove1 t (suspendedThreads s),
                           sleepingThreads := remove1 t (sleepingThreads s)\<rparr>) k
                 in Some (if currentThread (sch k) = Some t
                          then on_sched (\<lambda>s. FakeTick (s\<lparr>currentThread := None\<rparr>)) k else k))"

section \<open>The queue of waiters\<close>

lemma read_waiter_spec:
  "queue_ok q \<Longrightarrow> length (q_list q) < n \<Longrightarrow>
   \<exists>q'. read_waiter n q = Some (case dropWhile (\<lambda>x. x = None) (q_list q) of [] \<Rightarrow> None | t # _ \<Rightarrow> t, q') \<and>
     queue_ok q' \<and> Capacity q' = Capacity q \<and> q_list q' = tl (dropWhile (\<lambda>x. x = None) (q_list q))"
proof (induction n arbitrary: q)
  case (Suc n)
  show ?case
  proof (cases "q_list q")
    case Nil
    then show ?thesis using Read_empty [OF Suc.prems(1) Nil, of None] Suc.prems by simp
  next
    case (Cons x xs)
    obtain q' where q': "Read None q = (True, x, q')" "queue_ok q'" "Capacity q' = Capacity q" "q_list q' = xs"
      using Read_step [OF Suc.prems(1) Cons] by blast
    show ?thesis
    proof (cases x)
      case None
      have "length (q_list q') < n" using Suc.prems(2) unfolding q'(4) Cons by simp
      from Suc.IH [OF q'(2) this] show ?thesis using q' Cons None by (auto split: list.splits)
    qed (use q' Cons in auto)
  qed
qed simp

lemma next_waiter_spec:
  assumes "queue_ok q" "q_list q = map Some ws"
  shows "\<exists>q'. next_waiter q = (case ws of [] \<Rightarrow> None | t # _ \<Rightarrow> Some t, q') \<and> queue_ok q' \<and>
    Capacity q' = Capacity q \<and> q_list q' = map Some (tl ws)"
proof -
  have "length (q_list q) < Capacity q + 1" using Count_le [OF assms(1)] by simp
  from read_waiter_spec [OF assms(1) this] show ?thesis
    using assms(2) by (cases ws) (auto simp: next_waiter_def)
qed

section \<open>Mutual exclusion\<close>

text \<open>
  Threads that take and release one mutex, without a timeout, while timer interrupts and yields happen at any
  point. A running thread may call \<open>Release\<close> also without having the mutex. \<open>inside\<close> are the threads whose \<open>Acquire\<close> returned true and that have not released; \<open>waiting\<close> those
  that are blocked in \<open>Acquire\<close>.
\<close>

inductive mtx_step :: "nat \<Rightarrow> nat \<Rightarrow> kstate \<times> nat set \<times> nat set \<Rightarrow> kstate \<times> nat set \<times> nat set \<Rightarrow> bool" for f m where
  mtx_timer: "mtx_step f m (k, ins, wts) (on_sched timer k, ins, wts)"
| mtx_yield: "mtx_step f m (k, ins, wts) (on_sched Thread_Yield k, ins, wts)"
| mtx_acquire: "currentThread (sch k) = Some ct \<Longrightarrow> ct \<notin> ins \<union> wts \<Longrightarrow> ct \<noteq> idleThread (sch k) \<Longrightarrow>
    Mutex_Acquire f m 0 False k = (r, k') \<Longrightarrow>
    mtx_step f m (k, ins, wts) (k', if r = Done True then insert ct ins else ins, if r = Blocked then insert ct wts else wts)"
| mtx_return: "currentThread (sch k) = Some ct \<Longrightarrow> ct \<in> wts \<Longrightarrow> Mutex_Acquire_return f m 0 ct k = (b, k') \<Longrightarrow>
    mtx_step f m (k, ins, wts) (k', if b then insert ct ins else ins, wts - {ct})"
| mtx_release: "currentThread (sch k) = Some ct \<Longrightarrow> ct \<notin> wts \<Longrightarrow>
    mtx_step f m (k, ins, wts) (Mutex_Release m k, ins - {ct}, wts)"

definition lock_ok :: "nat \<Rightarrow> kstate \<times> nat set \<times> nat set \<Rightarrow> bool" where
  "lock_ok m st \<longleftrightarrow> (case st of (k, ins, wts) \<Rightarrow>
     sched_ok (sch k) \<and> queue_ok (MtxWaiters (mtxs k m)) \<and>
     (\<forall>t. 0 \<le> WakeCount (thr (sch k) t) \<and> WakeCount (thr (sch k) t) \<le> 1) \<and>
     (\<exists>ws. q_list (MtxWaiters (mtxs k m)) = map Some ws \<and> distinct ws \<and>
        set ws \<subseteq> set (suspendedThreads (sch k)) \<and> (\<forall>t \<in> set ws. WakeCount (thr (sch k) t) = 0) \<and>
        (case Owner (mtxs k m) of
           None \<Rightarrow> MtxCount (mtxs k m) = 0 \<and> ins = {} \<and> wts = {} \<and> ws = []
         | Some ow \<Rightarrow> MtxCount (mtxs k m) = 1 \<and> ow \<notin> set ws \<and>
             (ins = {ow} \<and> wts = set ws \<or> ins = {} \<and> wts = insert ow (set ws)))))"

text \<open>What a step needs of the scheduler: the invariant, the wake-up counts, and that no waiter leaves the suspended queue.\<close>

lemma lock_ok_sched:
  assumes "lock_ok m (k, ins, wts)" "sched_ok s'" "\<And>t. WakeCount (thr s' t) = WakeCount (thr (sch k) t)"
    "set (suspendedThreads (sch k)) \<subseteq> set (suspendedThreads s')"
  shows "lock_ok m (k\<lparr>sch := s'\<rparr>, ins, wts)"
  using assms unfolding lock_ok_def by (auto split: option.splits)

lemma lock_ok_timer: "lock_ok m (k, ins, wts) \<Longrightarrow> lock_ok m (on_sched timer k, ins, wts)"
  unfolding on_sched_def
  by (rule lock_ok_sched) (auto simp: lock_ok_def Time_Tick_ok timer_fields timer_suspended)

lemma lock_ok_yield: "lock_ok m (k, ins, wts) \<Longrightarrow> lock_ok m (on_sched Thread_Yield k, ins, wts)"
  unfolding on_sched_def Thread_Yield_def
  by (rule lock_ok_sched) (auto simp: lock_ok_def FakeTick_ok FakeTick_fields sched_ok_leaving)

lemma Suspend_taken:
  assumes "sched_ok s" "currentThread s = Some t" "t \<noteq> idleThread s" "0 \<le> WakeCount (thr s t)" "WakeCount (thr s t) \<le> 1"
  shows "set (suspendedThreads (Thread_Suspend t s)) = insert t (set (suspendedThreads s))"
    and "WakeCount (thr (Thread_Suspend t s) u) = (if u = t then 0 else WakeCount (thr s u))"
    and "currentThread (Thread_Suspend t s) \<noteq> Some t" and "sched_ok (Thread_Suspend t s)"
proof -
  have "WakeCount (thr s t) = 0 \<or> WakeCount (thr s t) = 1" using assms(4,5) by linarith
  then have w: "WakeCount (thr (use_wake t s) u) = (if u = t then 0 else WakeCount (thr s u))" for u
    by (auto simp: use_wake_def i32_def)
  note S = Thread_Suspend_running [OF assms(1-3)]
  show "set (suspendedThreads (Thread_Suspend t s)) = insert t (set (suspendedThreads s))"
    "WakeCount (thr (Thread_Suspend t s) u) = (if u = t then 0 else WakeCount (thr s u))"
    "currentThread (Thread_Suspend t s) \<noteq> Some t"
    using S w by auto
  show "sched_ok (Thread_Suspend t s)" by (rule Thread_Suspend_ok [OF assms(1,3)])
qed

lemma lock_ok_acquire:
  assumes ok: "lock_ok m (k, ins, wts)" and ct: "currentThread (sch k) = Some ct" "ct \<notin> ins \<union> wts" "ct \<noteq> idleThread (sch k)"
    and acq: "Mutex_Acquire f m 0 False k = (r, k')"
  shows "lock_ok m (k', if r = Done True then insert ct ins else ins, if r = Blocked then insert ct wts else wts)"
proof (cases "Owner (mtxs k m)")
  case None
  then show ?thesis using ok ct acq by (auto simp: lock_ok_def Mutex_Acquire_def Let_def i32_def)
next
  case (Some ow)
  let ?m = "mtxs k m"
  obtain ws where ws: "q_list (MtxWaiters ?m) = map Some ws" "distinct ws" "set ws \<subseteq> set (suspendedThreads (sch k))"
      "\<forall>t \<in> set ws. WakeCount (thr (sch k) t) = 0" "MtxCount ?m = 1" "ow \<notin> set ws"
      "ins = {ow} \<and> wts = set ws \<or> ins = {} \<and> wts = insert ow (set ws)"
    using ok Some by (auto simp: lock_ok_def)
  have s: "sched_ok (sch k)" "queue_ok (MtxWaiters ?m)" "\<And>t. 0 \<le> WakeCount (thr (sch k) t) \<and> WakeCount (thr (sch k) t) \<le> 1"
    using ok by (auto simp: lock_ok_def)
  have ne: "ow \<noteq> ct" using ws(7) ct(2) by auto
  let ?s = "upd ct (\<lambda>x. x\<lparr>WaitingMutex := Some m\<rparr>) (sch k)"
  have sok: "sched_ok ?s" using s(1) by (simp add: upd_keeps_ok)
  obtain b q where wr: "Write (MtxWaiters ?m) (Some ct) = (b, q)" by force
  show ?thesis
  proof (cases b)
    case False
    then show ?thesis using acq ok Some ne ws(5) wr ct by (auto simp: Mutex_Acquire_def Let_def)
  next
    case True
    have q: "queue_ok q" "q_list q = map Some (ws @ [ct])"
      using ring.put_snd [OF s(2), of "Some ct"] ring.put_fst [OF s(2), of "Some ct"] True wr ws(1) by auto
    note S = Suspend_taken [OF sok, of ct] 
    have c: "currentThread ?s = Some ct" "ct \<noteq> idleThread ?s" "0 \<le> WakeCount (thr ?s ct)" "WakeCount (thr ?s ct) \<le> 1"
      using ct s(3) [of ct] by auto
    have e: "r = Blocked" "k' = (on_sched (\<lambda>_. Thread_Suspend ct ?s) (set_mtx m (?m\<lparr>MtxWaiters := q\<rparr>) k))"
      using acq Some ne ws(5) wr True ct S(3) [OF c]
      by (auto simp: Mutex_Acquire_def Let_def block_def on_sched_def set_mtx_def)
    have w: "WakeCount (thr ?s u) = WakeCount (thr (sch k) u)" for u by simp
    have "ct \<notin> set ws" using ws(7) ct(2) by auto
    then show ?thesis unfolding e lock_ok_def
      using S [OF c] q ws ne Some s(3)
      by (auto simp: w simp del: upd_simps(1) intro!: exI [of _ "ws @ [ct]"])
  qed
qed

lemma lock_ok_return:
  assumes ok: "lock_ok m (k, ins, wts)" and ct: "currentThread (sch k) = Some ct" "ct \<in> wts"
    and ret: "Mutex_Acquire_return f m 0 ct k = (b, k')"
  shows "lock_ok m (k', if b then insert ct ins else ins, wts - {ct})"
proof -
  obtain ws where ws: "q_list (MtxWaiters (mtxs k m)) = map Some ws" "set ws \<subseteq> set (suspendedThreads (sch k))"
    and s: "sched_ok (sch k)" using ok by (auto simp: lock_ok_def)
  have "ct \<notin> set ws" using ws(2) s ct(1) by (auto simp: sched_ok_def queued_def)
  moreover have "b" "k' = on_sched (upd ct (\<lambda>x. x\<lparr>WaitingMutex := None\<rparr>)) k"
    using ret by (auto simp: Mutex_Acquire_return_def Mutex_Acquire_rest_def Let_def)
  ultimately show ?thesis using ok ct ws
    by (auto simp: lock_ok_def upd_keeps_ok inj_map_eq_map split: option.splits)
qed

lemma Thread_Resume_waiter:
  assumes "sched_ok s" "t \<in> set (suspendedThreads s)" "WakeCount (thr s t) = 0"
  shows "set (suspendedThreads (snd (Thread_Resume t False s))) = set (suspendedThreads s) - {t}"
    and "readyThreads (snd (Thread_Resume t False s)) = readyThreads s @ [t]"
    and "WakeCount (thr (snd (Thread_Resume t False s)) u) = (if u = t then 1 else WakeCount (thr s u))"
  using assms
  by (auto simp: Thread_Resume_def resume_thread_def Let_def i32_def q_add_def sched_ok_def queues_ok_def queued_def)

lemma lock_ok_release:
  assumes ok: "lock_ok m (k, ins, wts)" and ct: "currentThread (sch k) = Some ct" "ct \<in> ins"
  shows "lock_ok m (Mutex_Release m k, ins - {ct}, wts)"
proof -
  let ?m = "mtxs k m"
  obtain ws where ws: "q_list (MtxWaiters ?m) = map Some ws" "distinct ws" "set ws \<subseteq> set (suspendedThreads (sch k))"
      "\<forall>t \<in> set ws. WakeCount (thr (sch k) t) = 0"
    and own: "Owner ?m = Some ct" "MtxCount ?m = 1" "ct \<notin> set ws" "ins = {ct}" "wts = set ws"
    using ok ct(2) by (auto simp: lock_ok_def split: option.splits)
  have s: "sched_ok (sch k)" "queue_ok (MtxWaiters ?m)" "\<And>t. 0 \<le> WakeCount (thr (sch k) t) \<and> WakeCount (thr (sch k) t) \<le> 1"
    using ok by (auto simp: lock_ok_def)
  obtain q where q: "next_waiter (MtxWaiters ?m) = (case ws of [] \<Rightarrow> None | t # _ \<Rightarrow> Some t, q)" "queue_ok q"
      "q_list q = map Some (tl ws)"
    using next_waiter_spec [OF s(2) ws(1)] by blast
  show ?thesis
  proof (cases ws)
    case Nil
    then show ?thesis using q s own ct by (auto simp: lock_ok_def Mutex_Release_def Let_def)
  next
    case (Cons t ts)
    then have t: "t \<in> set (suspendedThreads (sch k))" "WakeCount (thr (sch k) t) = 0" using ws by auto
    have e: "Mutex_Release m k = on_sched (\<lambda>s. snd (Thread_Resume t False s))
        (set_mtx m (?m\<lparr>Owner := Some t, MtxCount := 1, MtxWaiters := q\<rparr>) k)"
      using q Cons own ct by (simp add: Mutex_Release_def Let_def)
    show ?thesis unfolding e lock_ok_def
      using q s own ws Cons Thread_Resume_ok [OF s(1), of t False] Thread_Resume_waiter [OF s(1) t]
      by (auto intro!: exI [of _ ts])
  qed
qed

lemma lock_ok_foreign_release:
  assumes "lock_ok m (k, ins, wts)" "currentThread (sch k) = Some ct" "ct \<notin> ins" "ct \<notin> wts"
  shows "Mutex_Release m k = k"
  using assms by (auto simp: lock_ok_def Mutex_Release_def Let_def split: option.splits)

lemma lock_ok_any_release:
  assumes "lock_ok m (k, ins, wts)" "currentThread (sch k) = Some ct" "ct \<notin> wts"
  shows "lock_ok m (Mutex_Release m k, ins - {ct}, wts)"
  using assms lock_ok_release lock_ok_foreign_release by (cases "ct \<in> ins") auto

lemma lock_ok_step: "mtx_step f m st st' \<Longrightarrow> lock_ok m st \<Longrightarrow> lock_ok m st'"
  by (induction rule: mtx_step.induct)
    (blast intro: lock_ok_timer lock_ok_yield lock_ok_acquire lock_ok_return lock_ok_any_release)+

lemma lock_ok_steps: "(mtx_step f m)\<^sup>*\<^sup>* st st' \<Longrightarrow> lock_ok m st \<Longrightarrow> lock_ok m st'"
  by (induction rule: rtranclp_induct) (auto dest: lock_ok_step)

lemma lock_ok_new:
  assumes "sched_ok (sch k)" "mtxs k m = Mutex_new r" "\<forall>t. 0 \<le> WakeCount (thr (sch k) t) \<and> WakeCount (thr (sch k) t) \<le> 1"
  shows "lock_ok m (k, {}, {})"
  using assms by (auto simp: lock_ok_def Mutex_new_def intro: queue_ok_new)

section \<open>Properties\<close>

text \<open>C2.
  Mutual exclusion: threads that take a new mutex without a timeout and are woken by nothing but its release
  are inside one at a time, whatever the interleaving of timer interrupts and yields and whoever else calls
  \<open>Release\<close>; the one inside is the
  \<open>Owner\<close>, and every other thread whose \<open>Acquire\<close> has not returned is either next in the hand-over or queued.\<close>

theorem mutex_mutual_exclusion:
  assumes "(mtx_step f m)\<^sup>*\<^sup>* (k, {}, {}) (k', ins, wts)" "sched_ok (sch k)" "mtxs k m = Mutex_new r"
    "\<forall>t. 0 \<le> WakeCount (thr (sch k) t) \<and> WakeCount (thr (sch k) t) \<le> 1"
  shows "(\<forall>t \<in> ins. Owner (mtxs k' m) = Some t \<and> ins = {t} \<and> t \<notin> wts)
    \<and> (\<forall>t \<in> wts. Owner (mtxs k' m) = Some t \<or> Some t \<in> set (q_list (MtxWaiters (mtxs k' m))))"
proof -
  have ok: "lock_ok m (k', ins, wts)"
    using lock_ok_steps [OF assms(1) lock_ok_new [OF assms(2-4)]] .
  then show ?thesis by (auto simp: lock_ok_def split: option.splits)
qed

text \<open>Two threads, the second of them enabled and resumed; the mutex is taken by both.\<close>

definition two_threads :: sched where
  "two_threads = snd (Thread_Resume 2 False (Thread_Enable 2 boot))"

definition k_two :: kstate where
  "k_two = \<lparr>sch = two_threads, sems = \<lambda>_. Semaphore_new 0, mtxs = \<lambda>_. Mutex_new False\<rparr>"

lemma two_threads_fields:
  "sched_ok two_threads" "currentThread two_threads = Some 0" "idleThread two_threads = 1"
  "readyThreads two_threads = [2]" "suspendedThreads two_threads = []" "sleepingThreads two_threads = []"
  "WakeCount (thr two_threads t) = (if t = 2 then 1 else 0)"
proof -
  have e: "sched_ok (Thread_Enable 2 boot)"
    by (intro Thread_Enable_ok boot_ok) (simp_all add: Thread_Exists_def)
  then show "sched_ok two_threads" unfolding two_threads_def by (rule Thread_Resume_ok)
  show "currentThread two_threads = Some 0" "idleThread two_threads = 1"
    "readyThreads two_threads = [2]" "suspendedThreads two_threads = []" "sleepingThreads two_threads = []"
    by (simp_all add: two_threads_def Thread_Enable_def Thread_Resume_def resume_thread_def Thread_new_def q_add_def Let_def)
  have "WakeCount (thr boot t) = 0"
  proof -
    consider "t = 0" | "t = 1" | "t \<ge> 2" by linarith
    then show ?thesis by cases (simp_all add: Thread_new_def)
  qed
  then show "WakeCount (thr two_threads t) = (if t = 2 then 1 else 0)"
    by (auto simp: two_threads_def Thread_Enable_def Thread_Resume_def resume_thread_def Thread_new_def Let_def i32_def)
qed

lemma Write_new: "Write (Queue_new d 32) x = (True, snd (Write (Queue_new d 32) x))"
  by (simp add: Write_def Queue_new_def Let_def)

lemma Mutex_Acquire_free:
  assumes "currentThread (sch k) = Some ct" "mtxs k m = Mutex_new r"
  shows "Mutex_Acquire f m 0 False k = (Done True, set_mtx m ((Mutex_new r)\<lparr>MtxCount := 1, Owner := Some ct\<rparr>) k)"
  using assms by (simp add: Mutex_Acquire_def Mutex_new_def Let_def i32_def)

theorem mutex_mutual_exclusion_witness:
  "\<exists>k'. (mtx_step 128 0)\<^sup>*\<^sup>* (k_two, {}, {}) (k', {0}, {2}) \<and> Owner (mtxs k' 0) = Some 0 \<and>
     Some 2 \<in> set (q_list (MtxWaiters (mtxs k' 0)))"
proof -
  let ?k1 = "set_mtx 0 ((Mutex_new False)\<lparr>MtxCount := 1, Owner := Some 0\<rparr>) k_two"
  let ?k2 = "on_sched timer ?k1"
  obtain r k' where a: "Mutex_Acquire 128 0 0 False ?k2 = (r, k')" by force
  have c: "currentThread (sch k_two) = Some 0" "currentThread (sch ?k2) = Some 2"
    using timer_fields(6) [OF two_threads_fields(1), of 2 "[]"] two_threads_fields by (auto simp: k_two_def)
  have i: "idleThread (sch k_two) = 1" "idleThread (sch ?k2) = 1" using two_threads_fields by (simp_all add: k_two_def)
  have w: "WakeCount (thr (timer two_threads) t) = (if t = 2 then 1 else 0)" for t
    using timer_fields(4) [OF two_threads_fields(1), of t] two_threads_fields by simp
  have sok: "sched_ok (upd 2 (\<lambda>x. x\<lparr>WaitingMutex := Some 0\<rparr>) (timer two_threads))"
    using timer_ok [OF two_threads_fields(1), of 1] by (simp add: upd_keeps_ok)
  obtain q where q: "Write (Queue_new None 32) (Some (2 :: nat)) = (True, q)" by (rule that [OF Write_new])
  have r: "r = Blocked"
    using a c i q Suspend_taken(3) [OF sok, of 2] w [of 2] two_threads_fields(3)
    by (auto simp: Mutex_Acquire_def Let_def block_def on_sched_def set_mtx_def Mutex_new_def k_two_def)
  have 1: "mtx_step 128 0 (k_two, {}, {}) (?k1, {0}, {})"
    using mtx_acquire [OF c(1), of "{}" "{}" 128 0 "Done True" ?k1] i Mutex_Acquire_free [OF c(1), of 0 False 128]
    by (simp add: k_two_def)
  have 2: "mtx_step 128 0 (?k1, {0}, {}) (?k2, {0}, {})" by (rule mtx_timer)
  have 3: "mtx_step 128 0 (?k2, {0}, {}) (k', {0}, {2})"
    using mtx_acquire [OF c(2), of "{0}" "{}" 128 0 r k'] i a r by simp
  have run: "(mtx_step 128 0)\<^sup>*\<^sup>* (k_two, {}, {}) (k', {0}, {2})"
    by (rule converse_rtranclp_into_rtranclp, rule 1, rule converse_rtranclp_into_rtranclp, rule 2, rule r_into_rtranclp, rule 3)
  have wake: "\<forall>t. 0 \<le> WakeCount (thr (sch k_two) t) \<and> WakeCount (thr (sch k_two) t) \<le> 1"
    by (simp add: k_two_def two_threads_fields)
  have "sched_ok (sch k_two)" "mtxs k_two 0 = Mutex_new False" using two_threads_fields(1) by (simp_all add: k_two_def)
  note ex = mutex_mutual_exclusion [OF run this wake]
  have "Owner (mtxs k' 0) = Some 0" using ex by blast
  moreover have "Some 2 \<in> set (q_list (MtxWaiters (mtxs k' 0)))" using ex calculation by auto
  ultimately show ?thesis using run by blast
qed

text \<open>C36.
  A resumption that reaches a running thread (as \<open>Signal::Raise\<close> sends it) breaks the exclusion: when another
  thread owns the mutex, the waiter queue (32 slots) has room and the caller's wake-up count is 2, \<open>Acquire\<close> without
  a timeout returns true at once, although the mutex keeps its owner and the caller is left in the waiter queue.\<close>

theorem mutex_acquired_without_ownership:
  assumes "currentThread (sch k) = Some ct" "Owner (mtxs k m) = Some ow" "ow \<noteq> ct" "MtxCount (mtxs k m) \<noteq> 0"
    "queue_ok (MtxWaiters (mtxs k m))" "length (q_list (MtxWaiters (mtxs k m))) < Capacity (MtxWaiters (mtxs k m))"
    "WakeCount (thr (sch k) ct) = 2"
  shows "\<exists>k'. Mutex_Acquire f m 0 False k = (Done True, k') \<and> Owner (mtxs k' m) = Some ow \<and>
    MtxCount (mtxs k' m) = MtxCount (mtxs k m) \<and>
    q_list (MtxWaiters (mtxs k' m)) = q_list (MtxWaiters (mtxs k m)) @ [Some ct] \<and> currentThread (sch k') = Some ct"
proof -
  note W = Write_step [OF assms(5,6), of "Some ct"]
  obtain q where q: "Write (MtxWaiters (mtxs k m)) (Some ct) = (True, q)" "q_list q = q_list (MtxWaiters (mtxs k m)) @ [Some ct]"
    using W by (cases "Write (MtxWaiters (mtxs k m)) (Some ct)") auto
  show ?thesis using assms q
    by (auto simp: Mutex_Acquire_def Let_def block_def Thread_Suspend_def use_wake_def i32_def Mutex_Acquire_rest_def)
qed

theorem mutex_acquired_without_ownership_witness:
  "\<exists>k k'. currentThread (sch k) = Some 2 \<and> Owner (mtxs k 0) = Some 0 \<and>
     Mutex_Acquire 128 0 0 False k = (Done True, k') \<and> Owner (mtxs k' 0) = Some 0"
proof -
  let ?k1 = "set_mtx 0 ((Mutex_new False)\<lparr>MtxCount := 1, Owner := Some 0\<rparr>) k_two"
  let ?k = "on_sched (\<lambda>s. snd (Thread_Resume 2 False (timer s))) ?k1"
  have c: "currentThread (timer two_threads) = Some 2"
    using timer_fields(6) [OF two_threads_fields(1), of 2 "[]"] two_threads_fields by auto
  have w: "WakeCount (thr (timer two_threads) 2) = 1"
    using timer_fields(4) [OF two_threads_fields(1), of 2] two_threads_fields by simp
  have ok: "sched_ok (timer two_threads)" using timer_ok [OF two_threads_fields(1), of 1] by simp
  have q: "queue_ok (Queue_new (None :: nat option) 32)" by (rule queue_ok_new) simp_all
  have r: "sch ?k = upd 2 (\<lambda>x. x\<lparr>WakeCount := i32 (WakeCount x + 1)\<rparr>) (timer two_threads)"
    using Thread_Resume_running [OF ok c] by (simp add: k_two_def)
  have cur: "currentThread (sch ?k) = Some 2" using r c by simp
  have "WakeCount (thr (sch ?k) 2) = 2" unfolding r using w by (simp add: i32_def)
  then show ?thesis
    using mutex_acquired_without_ownership [OF cur, of 0 0 128] cur q by (fastforce simp: Mutex_new_def)
qed

text \<open>
  A timed \<open>Acquire\<close> whose sleep has run out, but which has not run since, is still in the queue. A release hands
  it the mutex; when it runs it reports failure, and stays the owner.
\<close>

lemma mutex_timeout_keeps_ownership:
  assumes "sched_ok (sch k)" "currentThread (sch k) = Some ct" "Owner (mtxs k m) = Some ct" "MtxCount (mtxs k m) = 1"
    "queue_ok (MtxWaiters (mtxs k m))" "q_list (MtxWaiters (mtxs k m)) = map Some (t # ws)" "t \<in> set (readyThreads (sch k))"
    "StackTop (thr (sch k) t) = 0" "timeout \<noteq> 0" "t \<notin> set ws"
  shows "fst (Mutex_Acquire_return f m timeout t (Mutex_Release m k)) = False \<and>
    Owner (mtxs (snd (Mutex_Acquire_return f m timeout t (Mutex_Release m k))) m) = Some t \<and>
    MtxCount (mtxs (snd (Mutex_Acquire_return f m timeout t (Mutex_Release m k))) m) = 1"
proof -
  obtain q where q: "next_waiter (MtxWaiters (mtxs k m)) = (Some t, q)"
    using next_waiter_spec [OF assms(5,6)] by auto
  have "t \<notin> set (suspendedThreads (sch k))" "t \<notin> set (sleepingThreads (sch k))"
    using assms(1,7) by (auto simp: sched_ok_def queues_ok_def queued_def)
  then have r: "snd (Thread_Resume t False (sch k)) = upd t (\<lambda>x. x\<lparr>WakeCount := i32 (WakeCount x + 1)\<rparr>) (sch k)"
    by (simp add: Thread_Resume_def Let_def)
  show ?thesis using assms q r
    by (simp add: Mutex_Release_def Mutex_Acquire_return_def Mutex_Acquire_rest_def slept_def ticks_to_millis_def u32_def Let_def)
qed

text \<open>C37.
  One signal can let two threads pass. When the count is 0 and the first waiter \<open>w\<close> is suspended, \<open>Signal\<close> (outside
  an interrupt handler) raises the count and moves \<open>w\<close> from the suspended threads to the end of the ready queue, but
  \<open>w\<close> takes the count down only when it runs. The signalling thread, still running, can wait in between and passes
  at once; and when the timer has rotated the ready queue as far as \<open>w\<close>, its own \<open>Wait\<close> (without a timeout) returns
  1 as well, which leaves the count at \<open>-1\<close>.\<close>

theorem semaphore_signal_passes_two:
  assumes "sched_ok (sch k)" "currentThread (sch k) = Some c" "w \<in> set (suspendedThreads (sch k))"
    "SemCount (sems k i) = 0" "queue_ok (SemWaiters (sems k i))" "q_list (SemWaiters (sems k i)) = map Some (w # ws)"
    "timeout < 2 ^ 31"
  shows "let k1 = Semaphore_Signal i False k; (r, k2) = Semaphore_Wait f i timeout tryWait k1;
      k3 = on_sched (timer ^^ (length (readyThreads (sch k)) + 1)) k2; (r', k4) = Semaphore_Wait_return f i 0 w k3
    in w \<notin> set (suspendedThreads (sch k1)) \<and> readyThreads (sch k1) = readyThreads (sch k) @ [w] \<and>
      currentThread (sch k1) = Some c \<and> r = Done (int timeout) \<and>
      currentThread (sch k3) = Some w \<and> r' = 1 \<and> Semaphore_GetCount i k4 = -1"
proof -
  let ?s = "snd (Thread_Resume w False (sch k))"
  obtain q where q: "next_waiter (SemWaiters (sems k i)) = (Some w, q)"
    using next_waiter_spec [OF assms(5,6)] by auto
  have d: "distinct (suspendedThreads (sch k))" using assms(1) by (simp add: sched_ok_def queues_ok_def queued_def)
  have s: "readyThreads ?s = readyThreads (sch k) @ [w]" "currentThread ?s = Some c" "w \<notin> set (suspendedThreads ?s)"
    using assms(2,3) d by (simp_all add: Thread_Resume_def resume_thread_def q_add_def Let_def)
  have run: "currentThread ((timer ^^ (length (readyThreads (sch k)) + 1)) ?s) = Some w"
    using timer_runs_ready [OF Thread_Resume_ok [OF assms(1)], of "length (readyThreads (sch k))" w False] s(1) by simp
  have one: "i32 (0 + 1) = 1" "i32 (- 1) = - 1" by (simp_all add: i32_def)
  have t: "i32 (int timeout) = int timeout" using assms(7) by (simp add: i32_small in_i32_def)
  show ?thesis using q assms(4) one s run
    by (simp add: Semaphore_Signal_def Semaphore_Wait_def Semaphore_Wait_return_def Semaphore_Wait_rest_def
        Semaphore_GetCount_def t Let_def)
qed

theorem semaphore_signal_passes_two_witness:
  "let (r, k) = Semaphore_Wait 128 0 0 False k_two
   in r = Blocked \<and> 0 \<in> set (suspendedThreads (sch k)) \<and> currentThread (sch k) = Some 2 \<and>
     (let k1 = Semaphore_Signal 0 False k; (r', k2) = Semaphore_Wait 128 0 5 False k1
      in 0 \<notin> set (suspendedThreads (sch k1)) \<and> r' = Done 5 \<and>
        Semaphore_GetCount 0 (snd (Semaphore_Wait_return 128 0 0 0
          (on_sched (timer ^^ (length (readyThreads (sch k)) + 1)) k2))) = -1)"
proof -
  obtain q where q: "Write (Queue_new None 32) (Some (0 :: nat)) = (True, q)" by (rule that [OF Write_new])
  have new: "queue_ok (Queue_new (None :: nat option) 32)" by (rule queue_ok_new) simp_all
  have ql: "queue_ok q" "q_list q = map Some [0]" using ring.put_snd [OF new, of "Some 0"] q by simp_all
  let ?s = "upd 0 (\<lambda>x. x\<lparr>WaitingSemaphore := Some 0\<rparr>) two_threads"
  have sok: "sched_ok ?s" using two_threads_fields(1) by (simp add: upd_keeps_ok)
  have S: "currentThread (Thread_Suspend 0 ?s) = Some 2"
    by (simp add: two_threads_fields Thread_Suspend_def use_wake_def FakeTick_def Time_Tick_def Thread_GetNext_def
        wake_sleepers.simps requeue_current_def Thread_Switch_def Let_def)
  have sus: "0 \<in> set (suspendedThreads (Thread_Suspend 0 ?s))" "sched_ok (Thread_Suspend 0 ?s)"
    using Suspend_taken(1,4) [OF sok, of 0] by (simp_all add: two_threads_fields)
  define k where "k = on_sched (\<lambda>_. Thread_Suspend 0 ?s) (set_sem 0 ((Semaphore_new 0)\<lparr>SemWaiters := q\<rparr>) k_two)"
  have e: "Semaphore_Wait 128 0 0 False k_two = (Blocked, k)"
    using S q by (simp add: Semaphore_Wait_def Let_def block_def two_threads_fields Semaphore_new_def k_two_def
        on_sched_def set_sem_def k_def)
  have k: "SemCount (sems k 0) = 0" "SemWaiters (sems k 0) = q" "sch k = Thread_Suspend 0 ?s"
    by (simp_all add: k_def Semaphore_new_def)
  show ?thesis
    using semaphore_signal_passes_two [of k 2 0 0 "[]" 5 128 False] k ql S sus unfolding e
    by (simp add: Let_def case_prod_beta)
qed

end
