(* ===== verification/Signals.thy ===== *)
theory Signals
  imports Sync Sys "HOL-Library.Monad_Syntax"
begin

text \<open>
  Signals: \<open>kernel/signal.cpp\<close>, the signal calls of \<open>kernel/syscalls.cpp\<close> and the entry of a system call, which
  delivers pending signals. \<open>ret\<close> is the word below the arguments of a system call (\<open>args[-1]\<close>), the user
  address it returns to; \<open>sigHandlerAsm\<close> is the address of the trampoline that runs the handler.
\<close>

section \<open>Delivery\<close>

(* src/kernel/include/signal.hpp:3-3 macro SIGNAL_COUNT *)
abbreviation (input) SIGNAL_COUNT :: nat where
  "SIGNAL_COUNT \<equiv> 64"

text \<open>The next signal of a thread, if there is one with a handler; it leaves the queue in any case.\<close>

(* src/kernel/signal.cpp:60-61 Signal::HandleSignals, the queued signal *)
definition take_signal :: "nat \<Rightarrow> sched \<Rightarrow> nat option \<times> sched" where
  "take_signal thread s =
     (case Read 0 (SignalQueue (thr s thread)) of (ok, signum, q) \<Rightarrow>
        let n = unat signum in
        (if ok \<and> n < SIGNAL_COUNT \<and> SignalHandlers (thr s thread) ! n \<noteq> 0 then Some n else None,
         upd thread (\<lambda>x. x\<lparr>SignalQueue := q\<rparr>) s))"

text \<open>From an interrupt: the handler's frame is pushed on the user stack, here a memory of words.\<close>

(* src/kernel/signal.cpp:56-78 Signal::HandleSignals *)
definition HandleSignals_int :: "nat \<Rightarrow> mstate \<Rightarrow> (nat \<Rightarrow> nat) \<Rightarrow> sched \<Rightarrow> mstate \<times> (nat \<Rightarrow> nat) \<times> sched" where
  "HandleSignals_int thread state mem s =
     (case take_signal thread s of
        (None, s) \<Rightarrow> (state, mem, s)
      | (Some n, s) \<Rightarrow>
          let s = upd thread (\<lambda>x. x\<lparr>SavedMachineState := state, CurrentSignal := int n\<rparr>) s;
              retAddr = sub32 (UserESP state) 4;
              argAddr = sub32 retAddr 4;
              top = sub32 argAddr 4;
              mem = mem(retAddr := 0x80CDC031, argAddr := n, top := retAddr)
          in (state\<lparr>UserESP := top, EIP := SignalHandlers (thr s thread) ! n\<rparr>, mem, s))"

(* src/kernel/signal.cpp:80-93 Signal::HandleSignals *)
definition HandleSignals_ret :: "nat \<Rightarrow> nat \<Rightarrow> nat \<Rightarrow> sched \<Rightarrow> nat \<times> sched" where
  "HandleSignals_ret sigHandlerAsm thread ret s =
     (case take_signal thread s of
        (None, s) \<Rightarrow> (ret, s)
      | (Some n, s) \<Rightarrow> (sigHandlerAsm, upd thread (\<lambda>x. x\<lparr>CurrentSignal := int n, SignalRetAddr := ret\<rparr>) s))"

(* src/kernel/signal.cpp:47-54 Signal::ReturnFromSignal *)
definition ReturnFromSignal :: "nat \<Rightarrow> sched \<Rightarrow> mstate \<times> sched" where
  "ReturnFromSignal thread s = (SavedMachineState (thr s thread), upd thread (\<lambda>x. x\<lparr>CurrentSignal := -1\<rparr>) s)"

text \<open>The mask has one bit for each signal; the callers pass numbers below 64.\<close>

(* src/kernel/signal.cpp:95-104 Signal::Raise *)
definition Raise :: "nat \<Rightarrow> byte \<Rightarrow> sched \<Rightarrow> sched" where
  "Raise thread signum s =
     (if push_bit (unat signum) 1 AND SignalMask (thr s thread) \<noteq> 0
      then snd (Thread_Resume thread False
             (upd thread (\<lambda>x. x\<lparr>SignalQueue := snd (Write (SignalQueue x) signum)\<rparr>) s))
      else s)"

section \<open>System calls\<close>

text \<open>The current thread \<open>ct\<close> is the caller. Arguments are 32-bit words.\<close>

(* src/kernel/syscalls.cpp:880-883 SysCalls::sys_signal_get_handler *)
definition sys_signal_get_handler :: "nat \<Rightarrow> nat \<Rightarrow> sched \<Rightarrow> int" where
  "sys_signal_get_handler ct a1 s = (if a1 < SIGNAL_COUNT then i32 (int (SignalHandlers (thr s ct) ! a1)) else 0)"

(* src/kernel/syscalls.cpp:885-891 SysCalls::sys_signal_set_handler *)
definition sys_signal_set_handler :: "nat \<Rightarrow> nat \<Rightarrow> nat \<Rightarrow> sched \<Rightarrow> int \<times> sched" where
  "sys_signal_set_handler ct a1 a2 s =
     (if a1 \<ge> SIGNAL_COUNT then (- EINVAL, s)
      else (ESUCCESS, upd ct (\<lambda>x. x\<lparr>SignalHandlers := (SignalHandlers x)[a1 := a2]\<rparr>) s))"

(* src/kernel/syscalls.cpp:893-899 SysCalls::sys_signal_is_enabled *)
definition sys_signal_is_enabled :: "nat \<Rightarrow> nat \<Rightarrow> sched \<Rightarrow> int" where
  "sys_signal_is_enabled ct a1 s =
     (let signum = a1 mod 2 ^ 8 in
      if signum \<ge> SIGNAL_COUNT then - EINVAL
      else if push_bit signum 1 AND SignalMask (thr s ct) \<noteq> 0 then 1 else 0)"

(* src/kernel/syscalls.cpp:901-908 SysCalls::sys_signal_enable *)
definition sys_signal_enable :: "nat \<Rightarrow> nat \<Rightarrow> sched \<Rightarrow> int \<times> sched" where
  "sys_signal_enable ct a1 s =
     (let signum = a1 mod 2 ^ 8 in
      if signum \<ge> SIGNAL_COUNT then (- EINVAL, s)
      else (ESUCCESS, upd ct (\<lambda>x. x\<lparr>SignalMask := SignalMask x OR push_bit signum 1\<rparr>) s))"

(* src/kernel/syscalls.cpp:910-917 SysCalls::sys_signal_disable *)
definition sys_signal_disable :: "nat \<Rightarrow> nat \<Rightarrow> sched \<Rightarrow> int \<times> sched" where
  "sys_signal_disable ct a1 s =
     (let signum = a1 mod 2 ^ 8 in
      if signum \<ge> SIGNAL_COUNT then (- EINVAL, s)
      else (ESUCCESS, upd ct (\<lambda>x. x\<lparr>SignalMask := SignalMask x AND NOT (push_bit signum 1)\<rparr>) s))"

(* src/kernel/syscalls.cpp:919-931 SysCalls::sys_signal_raise *)
definition sys_signal_raise :: "nat \<Rightarrow> nat \<Rightarrow> nat \<Rightarrow> sched \<Rightarrow> int \<times> sched" where
  "sys_signal_raise ct a1 a2 s =
     (let tid = i32 (int a1); signum = a2 mod 2 ^ 8 in
      case (if tid = -1 then Some ct else Thread_GetByID tid s) of
        None \<Rightarrow> (- ESRCH, s)
      | Some t \<Rightarrow> if signum \<ge> SIGNAL_COUNT then (- EINVAL, s) else (ESUCCESS, Raise t (of_nat signum) s))"

(* src/kernel/syscalls.cpp:933-939 SysCalls::sys_signal_return *)
definition sys_signal_return :: "nat \<Rightarrow> sched \<Rightarrow> int \<times> nat \<times> sched" where
  "sys_signal_return ct s = (ESUCCESS, SignalRetAddr (thr s ct), upd ct (\<lambda>x. x\<lparr>CurrentSignal := -1\<rparr>) s)"

(* src/kernel/syscalls.cpp:941-944 SysCalls::sys_signal_get_current *)
definition sys_signal_get_current :: "nat \<Rightarrow> sched \<Rightarrow> int" where
  "sys_signal_get_current ct s = CurrentSignal (thr s ct)"

text \<open>
  The entry of every system call. A handler gets the arguments, the return address and the state; the current
  thread after it is again the caller. \<open>None\<close> is an access through a null current thread.
\<close>

(* src/kernel/syscalls.cpp:166-180 SysCalls::handler *)
definition SysCalls_handler ::
  "(nat \<Rightarrow> (nat list \<Rightarrow> nat \<Rightarrow> sched \<Rightarrow> int \<times> nat \<times> sched) option) \<Rightarrow> nat \<Rightarrow> nat list \<Rightarrow> nat \<Rightarrow> sched \<Rightarrow> (int \<times> nat \<times> sched) option" where
  "SysCalls_handler handlers sigHandlerAsm args ret s =
     (let req = args ! 0;
          (res, ret, s) = (if req \<noteq> 0 \<and> req < 1024
            then case handlers req of Some h \<Rightarrow> h args ret s | None \<Rightarrow> (- ENOSYS, ret, s)
            else (- ENOSYS, ret, s))
      in case currentThread s of None \<Rightarrow> None
         | Some ct \<Rightarrow>
             if CurrentSignal (thr s ct) < 0
             then case HandleSignals_ret sigHandlerAsm ct ret s of (ret, s) \<Rightarrow> Some (res, ret, s)
             else Some (res, ret, s))"

section \<open>Properties\<close>

text \<open>
  What a thread does with its pending signals: it runs the handler of the current one and makes the system
  call that returns from it, which may deliver the next.
\<close>

definition return_call :: "nat \<Rightarrow> nat \<Rightarrow> nat \<Rightarrow> sched \<Rightarrow> (int \<times> nat \<times> sched) option" where
  "return_call sigHandlerAsm ct ret s =
     SysCalls_handler ((\<lambda>_. None)(SYS_SIGNAL_RETURN \<mapsto> (\<lambda>args ret s. sys_signal_return ct s)))
       sigHandlerAsm [SYS_SIGNAL_RETURN] ret s"

primrec run_handlers :: "nat \<Rightarrow> nat \<Rightarrow> nat \<Rightarrow> nat \<Rightarrow> sched \<Rightarrow> (int list \<times> nat \<times> sched) option" where
  "run_handlers 0 sigHandlerAsm ct ret s = Some ([], ret, s)"
| "run_handlers (Suc n) sigHandlerAsm ct ret s =
     do { (_, ret', s') \<leftarrow> return_call sigHandlerAsm ct ret s;
          (cs, r, s'') \<leftarrow> run_handlers n sigHandlerAsm ct ret' s';
          Some (sys_signal_get_current ct s # cs, r, s'') }"

text \<open>A signal the thread can take: its number is in range and it has a handler.\<close>

definition handled :: "nat \<Rightarrow> sched \<Rightarrow> byte \<Rightarrow> bool" where
  "handled t s x \<longleftrightarrow> unat x < SIGNAL_COUNT \<and> SignalHandlers (thr s t) ! unat x \<noteq> 0"

lemma take_signal_empty:
  assumes "queue_ok (SignalQueue (thr s t))" "q_list (SignalQueue (thr s t)) = []"
  shows "\<exists>s'. take_signal t s = (None, s') \<and> thr s' t = thr s t \<and> currentThread s' = currentThread s"
  using Read_empty [OF assms, of 0] by (simp add: take_signal_def Let_def)

lemma take_signal_first:
  assumes "queue_ok (SignalQueue (thr s t))" "q_list (SignalQueue (thr s t)) = x # xs" "handled t s x"
  shows "\<exists>q'. take_signal t s = (Some (unat x), upd t (\<lambda>y. y\<lparr>SignalQueue := q'\<rparr>) s) \<and> queue_ok q' \<and> q_list q' = xs"
  using Read_step [OF assms(1,2), of 0] assms(3) by (auto simp: take_signal_def handled_def Let_def)

lemma HandleSignals_ret_first:
  assumes "queue_ok (SignalQueue (thr s t))" "q_list (SignalQueue (thr s t)) = x # xs" "handled t s x"
  shows "\<exists>s'. HandleSignals_ret h t a s = (h, s') \<and> currentThread s' = currentThread s \<and>
    CurrentSignal (thr s' t) = int (unat x) \<and> SignalRetAddr (thr s' t) = a \<and>
    SignalHandlers (thr s' t) = SignalHandlers (thr s t) \<and>
    queue_ok (SignalQueue (thr s' t)) \<and> q_list (SignalQueue (thr s' t)) = xs"
  using take_signal_first [OF assms] by (auto simp: HandleSignals_ret_def)

lemma run_handlers_pending:
  assumes "currentThread s = Some t" "CurrentSignal (thr s t) = int (unat x)" "SignalRetAddr (thr s t) = a"
    "queue_ok (SignalQueue (thr s t))" "q_list (SignalQueue (thr s t)) = xs" "\<forall>y \<in> set xs. handled t s y"
  shows "\<exists>s'. run_handlers (Suc (length xs)) h t r s = Some (map (int \<circ> unat) (x # xs), a, s') \<and>
    CurrentSignal (thr s' t) = -1 \<and> q_list (SignalQueue (thr s' t)) = []"
  using assms
proof (induction xs arbitrary: s x r)
  case Nil
  let ?s = "upd t (\<lambda>x. x\<lparr>CurrentSignal := -1\<rparr>) s"
  have "queue_ok (SignalQueue (thr ?s t))" "q_list (SignalQueue (thr ?s t)) = []" using Nil by auto
  from take_signal_empty [OF this] show ?case using Nil
    by (auto simp: return_call_def SysCalls_handler_def sys_signal_return_def HandleSignals_ret_def
        sys_signal_get_current_def Let_def)
next
  case (Cons y ys)
  let ?s = "upd t (\<lambda>x. x\<lparr>CurrentSignal := -1\<rparr>) s"
  have "queue_ok (SignalQueue (thr ?s t))" "q_list (SignalQueue (thr ?s t)) = y # ys" "handled t ?s y"
    using Cons.prems by (auto simp: handled_def)
  from HandleSignals_ret_first [OF this, of h a] obtain s' where
    s': "HandleSignals_ret h t a ?s = (h, s')" "currentThread s' = Some t" "CurrentSignal (thr s' t) = int (unat y)"
      "SignalRetAddr (thr s' t) = a" "SignalHandlers (thr s' t) = SignalHandlers (thr s t)"
      "queue_ok (SignalQueue (thr s' t))" "q_list (SignalQueue (thr s' t)) = ys"
    using Cons.prems(1) by auto
  have call: "return_call h t r s = Some (ESUCCESS, h, s')"
    using Cons.prems s' by (simp add: return_call_def SysCalls_handler_def sys_signal_return_def Let_def)
  have "\<forall>z \<in> set ys. handled t s' z" using Cons.prems s'(5) by (auto simp: handled_def)
  from Cons.IH [OF s'(2,3,4,6,7) this, of h] show ?case
    using call Cons.prems by (auto simp: sys_signal_get_current_def simp del: run_handlers.simps(2)
        simp: run_handlers.simps(2) [of "Suc (length ys)"])
qed


text \<open>The first thread enables signal 5, gives it a handler and raises it.\<close>

definition signal_ready :: sched where
  "signal_ready = snd (sys_signal_set_handler 0 5 0x1000 (snd (sys_signal_enable 0 5 boot)))"


end
