(* ===== verification/Ipc.thy ===== *)
theory Ipc
  imports Signals "HOL-Library.AList"
begin

text \<open>
  Message queues (\<open>kernel/include/messagequeue.hpp\<close>) over two semaphores, and messages between processes
  (\<open>kernel/ipc.cpp\<close>). A queue knows its semaphores by number; \<open>mspace\<close> counts free slots and \<open>mfull\<close> messages.
\<close>

section \<open>Message queues\<close>

(* src/kernel/include/messagequeue.hpp:7-11 class MessageQueue *)
record 'a mqueue =
  mdata :: "'a list"
  mspace :: nat
  mfull :: nat
  mcap :: nat
  mh :: nat
  mt :: nat

(* src/kernel/include/messagequeue.hpp:13-18 MessageQueue::MessageQueue *)
definition MessageQueue_new :: "'a \<Rightarrow> nat \<Rightarrow> nat \<Rightarrow> nat \<Rightarrow> kstate \<Rightarrow> 'a mqueue \<times> kstate" where
  "MessageQueue_new x si mi capacity k =
     (\<lparr>mdata = replicate capacity x, mspace = si, mfull = mi, mcap = capacity, mh = 0, mt = 0\<rparr>,
      set_sem mi (Semaphore_new 0) (set_sem si (Semaphore_new (int capacity)) k))"

text \<open>A wait for \<open>timeout\<close> milliseconds: for ever when it is negative, not at all when it is 0.\<close>

(* src/kernel/include/messagequeue.hpp:36-36 MessageQueue::Read, the wait *)
definition mq_wait :: "nat \<Rightarrow> nat \<Rightarrow> int \<Rightarrow> kstate \<Rightarrow> int outcome \<times> kstate" where
  "mq_wait f sem timeout k = Semaphore_Wait f sem (if timeout < 0 then 0 else nat timeout) (timeout = 0) k"

(* src/kernel/include/messagequeue.hpp:37-42 MessageQueue::Read, after the wait *)
definition MessageQueue_Read_rest :: "'a mqueue \<Rightarrow> int \<Rightarrow> kstate \<Rightarrow> int outcome \<times> 'a option \<times> 'a mqueue \<times> kstate" where
  "MessageQueue_Read_rest q timeleft k =
     (if timeleft < 0 then (Done (- ETIMEOUT), None, q, k)
      else (Done timeleft, Some (mdata q ! mt q), q\<lparr>mt := (mt q + 1) mod mcap q\<rparr>, Semaphore_Signal (mspace q) False k))"

(* src/kernel/include/messagequeue.hpp:33-43 MessageQueue::Read *)
definition MessageQueue_Read :: "nat \<Rightarrow> bool \<Rightarrow> 'a mqueue \<Rightarrow> int \<Rightarrow> kstate \<Rightarrow> int outcome \<times> 'a option \<times> 'a mqueue \<times> kstate" where
  "MessageQueue_Read f buf q timeout k =
     (if \<not> buf then (Done (- EINVAL), None, q, k)
      else case mq_wait f (mfull q) timeout k of
             (Done timeleft, k) \<Rightarrow> MessageQueue_Read_rest q timeleft k
           | (Blocked, k) \<Rightarrow> (Blocked, None, q, k)
           | (Halted, k) \<Rightarrow> (Halted, None, q, k))"

text \<open>
  The reader that returns the message itself: \<open>None\<close> is the unspecified value it returns on a timeout, when it
  also leaves \<open>timeleft\<close> alone.
\<close>

(* src/kernel/include/messagequeue.hpp:20-31 MessageQueue::Read *)
definition MessageQueue_Read_val :: "nat \<Rightarrow> 'a mqueue \<Rightarrow> int \<Rightarrow> kstate \<Rightarrow> (int \<times> 'a) option outcome \<times> 'a mqueue \<times> kstate" where
  "MessageQueue_Read_val f q timeout k =
     (case mq_wait f (mfull q) timeout k of
        (Done timeleft, k) \<Rightarrow>
          if timeleft < 0 then (Done None, q, k)
          else (Done (Some (timeleft, mdata q ! mt q)), q\<lparr>mt := (mt q + 1) mod mcap q\<rparr>, Semaphore_Signal (mspace q) False k)
      | (Blocked, k) \<Rightarrow> (Blocked, q, k)
      | (Halted, k) \<Rightarrow> (Halted, q, k))"

(* src/kernel/include/messagequeue.hpp:48-53 MessageQueue::Write, after the wait *)
definition MessageQueue_Write_rest :: "'a mqueue \<Rightarrow> 'a \<Rightarrow> int \<Rightarrow> kstate \<Rightarrow> int outcome \<times> 'a mqueue \<times> kstate" where
  "MessageQueue_Write_rest q val timeleft k =
     (if timeleft < 0 then (Done (- ETIMEOUT), q, k)
      else (Done timeleft, q\<lparr>mdata := (mdata q)[mh q := val], mh := (mh q + 1) mod mcap q\<rparr>, Semaphore_Signal (mfull q) False k))"

(* src/kernel/include/messagequeue.hpp:45-54 MessageQueue::Write *)
definition MessageQueue_Write :: "nat \<Rightarrow> 'a mqueue \<Rightarrow> 'a \<Rightarrow> int \<Rightarrow> kstate \<Rightarrow> int outcome \<times> 'a mqueue \<times> kstate" where
  "MessageQueue_Write f q val timeout k =
     (case mq_wait f (mspace q) timeout k of
        (Done timeleft, k) \<Rightarrow> MessageQueue_Write_rest q val timeleft k
      | (Blocked, k) \<Rightarrow> (Blocked, q, k)
      | (Halted, k) \<Rightarrow> (Halted, q, k))"

section \<open>Messages between processes\<close>

text \<open>
  The processes in the order of their list, each with its mailbox. The lock of the list is left out: the
  broadcast holds it from beginning to end and nothing in it blocks.
\<close>

record ipcs =
  ids :: int
  procs :: "(int \<times> ipcMessage mqueue) list"

(* src/kernel/process.cpp:248-256 Process::GetByID *)
definition Process_GetByID :: "int \<Rightarrow> ipcs \<Rightarrow> ipcMessage mqueue option" where
  "Process_GetByID pid p = map_of (procs p) pid"

definition set_proc :: "int \<Rightarrow> ipcMessage mqueue \<Rightarrow> ipcs \<Rightarrow> ipcs" where
  "set_proc pid q p = p\<lparr>procs := AList.update pid q (procs p)\<rparr>"

(* src/kernel/ipc.cpp:14-16 IPC::SendMessage, the message *)
definition make_message :: "int \<Rightarrow> int \<Rightarrow> int \<Rightarrow> int \<Rightarrow> byte list option \<Rightarrow> ipcMessage" where
  "make_message number flags i source payload =
     \<lparr>Number = number, Flags = flags, ipcMessage.ID = i, Source = source,
      ipcMessage.Data = (case payload of None \<Rightarrow> replicate MSG_PAYLOAD_SIZE 0
        | Some bs \<Rightarrow> take MSG_PAYLOAD_SIZE bs @ replicate (MSG_PAYLOAD_SIZE - length bs) 0)\<rparr>"

(* src/kernel/ipc.cpp:17-21 IPC::SendMessage, broadcast *)
fun broadcast :: "nat \<Rightarrow> ipcMessage \<Rightarrow> (int \<times> ipcMessage mqueue) list \<Rightarrow> kstate \<Rightarrow> (int \<times> ipcMessage mqueue) list \<times> kstate" where
  "broadcast f msg [] k = ([], k)"
| "broadcast f msg ((pid, q) # ps) k =
     (case MessageQueue_Write f q msg 0 k of (_, q, k) \<Rightarrow>
      case broadcast f msg ps k of (ps, k) \<Rightarrow> ((pid, q) # ps, k))"

(* src/kernel/ipc.cpp:10-33 IPC::SendMessage *)
definition IPC_SendMessage ::
  "nat \<Rightarrow> int \<Rightarrow> int \<Rightarrow> int \<Rightarrow> int \<Rightarrow> byte list option \<Rightarrow> ipcs \<Rightarrow> kstate \<Rightarrow> int outcome \<times> ipcs \<times> kstate" where
  "IPC_SendMessage f cur dst number flags payload p k =
     (if dst = 0 then
        let (i, next) = Sequencer_GetNext (ids p);
            msg = make_message number flags i cur payload
        in case broadcast f msg (procs p) k of (ps, k) \<Rightarrow> (Done i, p\<lparr>ids := next, procs := ps\<rparr>, k)
      else case Process_GetByID dst p of
             None \<Rightarrow> (Done (- ESRCH), p, k)
           | Some q \<Rightarrow>
               let (i, next) = Sequencer_GetNext (ids p);
                   msg = make_message number flags i cur payload
               in case MessageQueue_Write f q msg 100 k of
                    (Done res, q, k) \<Rightarrow> (Done (if res < 0 then res else i), set_proc dst q (p\<lparr>ids := next\<rparr>), k)
                  | (Blocked, q, k) \<Rightarrow> (Blocked, p\<lparr>ids := next\<rparr>, k)
                  | (Halted, q, k) \<Rightarrow> (Halted, p\<lparr>ids := next\<rparr>, k))"

(* src/kernel/ipc.cpp:35-38 IPC::AckMessage *)
definition IPC_AckMessage :: "nat \<Rightarrow> int \<Rightarrow> int \<Rightarrow> int \<Rightarrow> ipcs \<Rightarrow> kstate \<Rightarrow> int outcome \<times> ipcs \<times> kstate" where
  "IPC_AckMessage f cur source i = IPC_SendMessage f cur source MSG_ACK MSG_FLAG_NONE (Some (le_bytes i))"

(* src/kernel/ipc.cpp:40-43 IPC::GetMessage *)
definition IPC_GetMessage ::
  "nat \<Rightarrow> int \<Rightarrow> bool \<Rightarrow> int \<Rightarrow> ipcs \<Rightarrow> kstate \<Rightarrow> (int outcome \<times> ipcMessage option \<times> ipcs \<times> kstate) option" where
  "IPC_GetMessage f cur buf timeout p k =
     (case Process_GetByID cur p of None \<Rightarrow> None
      | Some q \<Rightarrow> (case MessageQueue_Read f buf q timeout k of (r, m, q, k) \<Rightarrow> Some (r, m, set_proc cur q p, k)))"

section \<open>A message queue is a bounded queue\<close>

text \<open>Nobody waits on the two semaphores, and they count the slots.\<close>

definition idle_sem :: "nat \<Rightarrow> kstate \<Rightarrow> bool" where
  "idle_sem i k \<longleftrightarrow> queue_ok (SemWaiters (sems k i)) \<and> q_list (SemWaiters (sems k i)) = []"

definition mq_ok :: "'a mqueue \<times> kstate \<Rightarrow> bool" where
  "mq_ok st \<longleftrightarrow> (case st of (q, k) \<Rightarrow>
     mspace q \<noteq> mfull q \<and> idle_sem (mspace q) k \<and> idle_sem (mfull q) k \<and> 0 < mcap q \<and> mcap q < 2 ^ 31 \<and>
     length (mdata q) = mcap q \<and> mt q < mcap q \<and>
     0 \<le> SemCount (sems k (mfull q)) \<and> 0 \<le> SemCount (sems k (mspace q)) \<and>
     SemCount (sems k (mspace q)) + SemCount (sems k (mfull q)) = int (mcap q) \<and>
     mh q = (mt q + nat (SemCount (sems k (mfull q)))) mod mcap q)"

definition mq_list :: "'a mqueue \<times> kstate \<Rightarrow> 'a list" where
  "mq_list st = (case st of (q, k) \<Rightarrow>
     map (\<lambda>i. mdata q ! ((mt q + i) mod mcap q)) [0..<nat (SemCount (sems k (mfull q)))])"

definition mq_put :: "nat \<Rightarrow> 'a mqueue \<times> kstate \<Rightarrow> 'a \<Rightarrow> bool \<times> 'a mqueue \<times> kstate" where
  "mq_put f st x = (case st of (q, k) \<Rightarrow> case MessageQueue_Write f q x 0 k of (r, st') \<Rightarrow> (r = Done 0, st'))"

definition mq_get :: "nat \<Rightarrow> 'a \<Rightarrow> 'a mqueue \<times> kstate \<Rightarrow> bool \<times> 'a \<times> 'a mqueue \<times> kstate" where
  "mq_get f d st = (case st of (q, k) \<Rightarrow>
     case MessageQueue_Read f True q 0 k of (r, v, st') \<Rightarrow> (r = Done 0, case v of Some x \<Rightarrow> x | None \<Rightarrow> d, st'))"

lemma Wait_available:
  assumes "SemCount (sems k i) > 0" "timeout < 2 ^ 31"
  shows "mq_wait f i timeout k =
    (Done (max 0 timeout), set_sem i ((sems k i)\<lparr>SemCount := SemCount (sems k i) - 1\<rparr>) k)"
proof -
  have "i32 (int (if timeout < 0 then 0 else nat timeout)) = max 0 timeout"
    using assms(2) by (auto simp: i32_small in_i32_def)
  then show ?thesis using assms(1) by (simp add: mq_wait_def Semaphore_Wait_def Let_def)
qed

lemma Signal_idle:
  assumes "idle_sem i k"
  shows "Semaphore_Signal i b k = set_sem i ((sems k i)\<lparr>SemCount := i32 (SemCount (sems k i) + 1)\<rparr>) k"
proof -
  have "next_waiter (SemWaiters (sems k i)) = (None, SemWaiters (sems k i))"
    using assms Read_empty [of "SemWaiters (sems k i)" None] by (simp add: next_waiter_def idle_sem_def)
  then show ?thesis by (simp add: Semaphore_Signal_def Let_def)
qed

lemma mq_write_room:
  assumes ok: "mq_ok (q, k)" and room: "length (mq_list (q, k)) < mcap q" and t: "timeout < 2 ^ 31"
  shows "\<exists>q' k'. MessageQueue_Write f q x timeout k = (Done (max 0 timeout), q', k') \<and> mq_ok (q', k') \<and>
    mcap q' = mcap q \<and> mspace q' = mspace q \<and> mfull q' = mfull q \<and> mq_list (q', k') = mq_list (q, k) @ [x]"
proof -
  define c where "c = SemCount (sems k (mfull q))"
  define n where "n = nat c"
  have c: "0 \<le> c" "c < int (mcap q)" "n < mcap q" "SemCount (sems k (mspace q)) = int (mcap q) - c" "c = int n"
    using ok room by (auto simp: mq_ok_def mq_list_def c_def n_def)
  have h: "mh q = (mt q + n) mod mcap q" using ok by (simp add: mq_ok_def n_def c_def)
  let ?k1 = "set_sem (mspace q) ((sems k (mspace q))\<lparr>SemCount := SemCount (sems k (mspace q)) - 1\<rparr>) k"
  have w: "mq_wait f (mspace q) timeout k = (Done (max 0 timeout), ?k1)"
    using c t by (intro Wait_available) auto
  have i: "idle_sem (mfull q) ?k1" using ok by (simp add: mq_ok_def idle_sem_def)
  have plus: "i32 (c + 1) = c + 1" using c ok by (simp add: mq_ok_def i32_small in_i32_def)
  let ?k2 = "set_sem (mfull q) ((sems k (mfull q))\<lparr>SemCount := c + 1\<rparr>) ?k1"
  let ?q = "q\<lparr>mdata := (mdata q)[mh q := x], mh := (mh q + 1) mod mcap q\<rparr>"
  have r: "MessageQueue_Write f q x timeout k = (Done (max 0 timeout), ?q, ?k2)"
    using ok w Signal_idle [OF i, of False] plus by (simp add: MessageQueue_Write_def MessageQueue_Write_rest_def mq_ok_def c_def)
  have n1: "nat (c + 1) = Suc n" using c by simp
  have ok': "mq_ok (?q, ?k2)"
  proof -
    have "(mh q + 1) mod mcap q = (mt q + Suc n) mod mcap q" unfolding h by (simp add: mod_Suc_eq)
    then show ?thesis using ok c n1 by (simp add: mq_ok_def idle_sem_def)
  qed
  have ne: "(mt q + j) mod mcap q \<noteq> mh q" if "j < n" for j
    using ring_index_inj [of j "mcap q" n "mt q"] that c(3) h by auto
  have hlt: "mh q < length (mdata q)" using ok h by (simp add: mq_ok_def)
  have "mq_list (?q, ?k2) = map (\<lambda>i. (mdata q)[mh q := x] ! ((mt q + i) mod mcap q)) [0..<Suc n]"
    using n1 by (simp add: mq_list_def)
  also have "\<dots> = map (\<lambda>i. mdata q ! ((mt q + i) mod mcap q)) [0..<n] @ [x]"
    using hlt h by (simp, intro ballI nth_list_update_neq) (metis ne h atLeastLessThan_iff)
  finally have "mq_list (?q, ?k2) = mq_list (q, k) @ [x]"
    by (simp add: mq_list_def c_def [symmetric] n_def [symmetric])
  then show ?thesis using r ok' by auto
qed

lemma mq_read_first:
  assumes ok: "mq_ok (q, k)" and e: "mq_list (q, k) = x # xs" and t: "timeout < 2 ^ 31"
  shows "\<exists>q' k'. MessageQueue_Read f True q timeout k = (Done (max 0 timeout), Some x, q', k') \<and> mq_ok (q', k') \<and>
    mcap q' = mcap q \<and> mspace q' = mspace q \<and> mfull q' = mfull q \<and> mq_list (q', k') = xs"
proof -
  define c where "c = SemCount (sems k (mfull q))"
  obtain n where c: "c = int (Suc n)"
  proof -
    have "nat c \<noteq> 0" using e by (auto simp: mq_list_def c_def)
    then show ?thesis using that [of "nat c - 1"] by simp
  qed
  have sp: "SemCount (sems k (mspace q)) = int (mcap q) - c" "c \<le> int (mcap q)" using ok by (auto simp: mq_ok_def c_def)
  let ?k1 = "set_sem (mfull q) ((sems k (mfull q))\<lparr>SemCount := c - 1\<rparr>) k"
  have w: "mq_wait f (mfull q) timeout k = (Done (max 0 timeout), ?k1)"
    unfolding c_def by (rule Wait_available) (use c t in \<open>simp_all add: c_def\<close>)
  have i: "idle_sem (mspace q) ?k1" using ok by (simp add: mq_ok_def idle_sem_def)
  have plus: "i32 (int (mcap q) - c + 1) = int (mcap q) - c + 1" using c sp ok by (simp add: mq_ok_def i32_small in_i32_def)
  let ?k2 = "set_sem (mspace q) ((sems k (mspace q))\<lparr>SemCount := int (mcap q) - c + 1\<rparr>) ?k1"
  let ?q = "q\<lparr>mt := (mt q + 1) mod mcap q\<rparr>"
  have r: "MessageQueue_Read f True q timeout k = (Done (max 0 timeout), Some (mdata q ! mt q), ?q, ?k2)"
    using ok w Signal_idle [OF i, of False] plus sp
    by (simp add: MessageQueue_Read_def MessageQueue_Read_rest_def mq_ok_def)
  have l: "mq_list (q, k) = map (\<lambda>i. mdata q ! ((mt q + i) mod mcap q)) [0..<Suc n]"
  proof -
    have "nat c = Suc n" using c by simp
    then show ?thesis unfolding mq_list_def prod.case c_def [symmetric] by (rule arg_cong)
  qed
  have x: "x = mdata q ! mt q" and xs: "xs = map (\<lambda>i. mdata q ! ((mt q + i) mod mcap q)) [1..<Suc n]"
    using e ok unfolding l by (auto simp: mq_ok_def upt_conv_Cons simp del: upt_Suc)
  have shift: "map (\<lambda>i. mdata q ! ((mt q + i) mod mcap q)) [1..<Suc n] =
      map (\<lambda>i. mdata q ! (((mt q + 1) mod mcap q + i) mod mcap q)) [0..<n]"
    unfolding One_nat_def map_Suc_upt [symmetric] by (simp add: mod_simps)
  have nc: "nat (1 + int n) = Suc n" by simp
  have ok': "mq_ok (?q, ?k2)" using ok c sp nc by (auto simp: mq_ok_def idle_sem_def mod_simps c_def)
  have "mq_list (?q, ?k2) = xs"
    using xs shift ok c by (simp add: mq_list_def mq_ok_def)
  then show ?thesis using r ok' x by auto
qed

interpretation mq: mailbox mq_ok "\<lambda>(q, k). mcap q" mq_list "mq_put f" "mq_get f d" d for f and d :: 'a
proof unfold_locales
  fix st :: "'a mqueue \<times> kstate" and x :: 'a and xs
  assume ok: "mq_ok st"
  obtain q k where st: "st = (q, k)" by (cases st)
  show "length (mq_list st) \<le> (case st of (q, k) \<Rightarrow> mcap q)" using ok by (auto simp: st mq_ok_def mq_list_def)
  show "mq_put f st x = (False, st)" if "length (mq_list st) = (case st of (q, k) \<Rightarrow> mcap q)"
    using ok that by (auto simp: st mq_ok_def mq_list_def mq_put_def mq_wait_def MessageQueue_Write_def
        MessageQueue_Write_rest_def Semaphore_Wait_def Let_def)
  show "\<exists>st'. mq_put f st x = (True, st') \<and> mq_ok st' \<and> (case st' of (q, k) \<Rightarrow> mcap q) = (case st of (q, k) \<Rightarrow> mcap q) \<and>
      mq_list st' = mq_list st @ [x]" if "length (mq_list st) < (case st of (q, k) \<Rightarrow> mcap q)"
    using mq_write_room [of q k 0 f x] ok that by (auto simp: st mq_put_def)
  show "mq_get f d st = (False, d, st)" if "mq_list st = []"
    using ok that by (auto simp: st mq_ok_def mq_list_def mq_get_def mq_wait_def MessageQueue_Read_def
        MessageQueue_Read_rest_def Semaphore_Wait_def Let_def)
  show "\<exists>st'. mq_get f d st = (True, x, st') \<and> mq_ok st' \<and> (case st' of (q, k) \<Rightarrow> mcap q) = (case st of (q, k) \<Rightarrow> mcap q) \<and>
      mq_list st' = xs" if "mq_list st = x # xs"
    using mq_read_first [of q k x xs 0 f] ok that by (auto simp: st mq_get_def)
qed

section \<open>Properties\<close>

text \<open>A process sends a list of messages, given by number, flags and payload; another one fetches \<open>n\<close>.\<close>

primrec send_list ::
  "nat \<Rightarrow> int \<Rightarrow> int \<Rightarrow> (int \<times> int \<times> byte list option) list \<Rightarrow> ipcs \<Rightarrow> kstate \<Rightarrow> int outcome list \<times> ipcs \<times> kstate" where
  "send_list f cur dst [] p k = ([], p, k)"
| "send_list f cur dst (m # ms) p k =
     (case m of (number, flags, payload) \<Rightarrow>
      case IPC_SendMessage f cur dst number flags payload p k of (r, p, k) \<Rightarrow>
      case send_list f cur dst ms p k of (rs, p, k) \<Rightarrow> (r # rs, p, k))"

primrec fetch_list ::
  "nat \<Rightarrow> int \<Rightarrow> int \<Rightarrow> nat \<Rightarrow> ipcs \<Rightarrow> kstate \<Rightarrow> ((int outcome \<times> ipcMessage option) list \<times> ipcs \<times> kstate) option" where
  "fetch_list f cur timeout 0 p k = Some ([], p, k)"
| "fetch_list f cur timeout (Suc n) p k =
     (case IPC_GetMessage f cur True timeout p k of None \<Rightarrow> None
      | Some (r, m, p, k) \<Rightarrow> map_option (\<lambda>(rs, p, k). ((r, m) # rs, p, k)) (fetch_list f cur timeout n p k))"

fun messages_of :: "int \<Rightarrow> int \<Rightarrow> (int \<times> int \<times> byte list option) list \<Rightarrow> ipcMessage list" where
  "messages_of cur i [] = []"
| "messages_of cur i ((number, flags, payload) # ms) =
     make_message number flags i cur payload # messages_of cur (i32 (i + 1)) ms"

lemma length_messages_of [simp]: "length (messages_of cur i ms) = length ms"
  by (induction cur i ms rule: messages_of.induct) auto

lemma GetByID_set_proc [simp]: "Process_GetByID pid (set_proc pid q p) = Some q"
  by (simp add: Process_GetByID_def set_proc_def update_conv)

lemma Process_GetByID_ids [simp]: "Process_GetByID pid (p\<lparr>ids := i\<rparr>) = Process_GetByID pid p"
  by (simp add: Process_GetByID_def)

lemma ids_set_proc [simp]: "ids (set_proc pid q p) = ids p"
  by (simp add: set_proc_def)

lemma SendMessage_room:
  assumes "dst \<noteq> 0" "Process_GetByID dst p = Some q" "mq_ok (q, k)" "length (mq_list (q, k)) < mcap q"
  shows "\<exists>p' q' k'. IPC_SendMessage f cur dst number flags payload p k = (Done (ids p), p', k') \<and>
    Process_GetByID dst p' = Some q' \<and> mq_ok (q', k') \<and> mcap q' = mcap q \<and> ids p' = i32 (ids p + 1) \<and>
    mq_list (q', k') = mq_list (q, k) @ [make_message number flags (ids p) cur payload]"
proof -
  obtain q' k' where w: "MessageQueue_Write f q (make_message number flags (ids p) cur payload) 100 k = (Done 100, q', k')"
      "mq_ok (q', k')" "mcap q' = mcap q" "mq_list (q', k') = mq_list (q, k) @ [make_message number flags (ids p) cur payload]"
    using mq_write_room [OF assms(3,4), of 100 f] by fastforce
  then show ?thesis using assms(1,2) by (simp add: IPC_SendMessage_def Sequencer_GetNext_def Let_def)
qed

lemma send_list_room:
  assumes "dst \<noteq> 0" "Process_GetByID dst p = Some q" "mq_ok (q, k)" "length (mq_list (q, k)) + length ms \<le> mcap q"
  shows "\<exists>p' q' k'. send_list f cur dst ms p k = (map (Done \<circ> ipcMessage.ID) (messages_of cur (ids p) ms), p', k') \<and>
    Process_GetByID dst p' = Some q' \<and> mq_ok (q', k') \<and> mq_list (q', k') = mq_list (q, k) @ messages_of cur (ids p) ms"
  using assms(2-4)
proof (induction ms arbitrary: p q k)
  case (Cons m ms)
  obtain number flags payload where m: "m = (number, flags, payload)" by (cases m)
  have "length (mq_list (q, k)) < mcap q" using Cons.prems(3) by simp
  from SendMessage_room [OF assms(1) Cons.prems(1,2) this] obtain p1 q1 k1 where
    s: "IPC_SendMessage f cur dst number flags payload p k = (Done (ids p), p1, k1)"
      "Process_GetByID dst p1 = Some q1" "mq_ok (q1, k1)" "mcap q1 = mcap q" "ids p1 = i32 (ids p + 1)"
      "mq_list (q1, k1) = mq_list (q, k) @ [make_message number flags (ids p) cur payload]" by blast
  have "length (mq_list (q1, k1)) + length ms \<le> mcap q1" using s(4,6) Cons.prems(3) by simp
  from Cons.IH [OF s(2,3) this] s m show ?case
    by (auto simp: make_message_def)
qed simp

lemma fetch_list_first:
  assumes "Process_GetByID cur p = Some q" "mq_ok (q, k)" "mq_list (q, k) = xs @ ys" "timeout < 2 ^ 31"
  shows "\<exists>p' k'. fetch_list f cur timeout (length xs) p k = Some (map (\<lambda>m. (Done (max 0 timeout), Some m)) xs, p', k')"
  using assms(1-3)
proof (induction xs arbitrary: p q k)
  case (Cons x xs)
  have "mq_list (q, k) = x # (xs @ ys)" using Cons.prems(3) by simp
  from mq_read_first [OF Cons.prems(2) this assms(4), of f] obtain q' k' where
    r: "MessageQueue_Read f True q timeout k = (Done (max 0 timeout), Some x, q', k')" "mq_ok (q', k')"
      "mq_list (q', k') = xs @ ys" by blast
  have "Process_GetByID cur (set_proc cur q' p) = Some q'" by simp
  from Cons.IH [OF this r(2,3)] r Cons.prems(1) show ?case
    by (auto simp: IPC_GetMessage_def)
qed simp

text \<open>C10.
  Messages to a process whose mailbox is empty and has room for them, with no thread waiting at it, arrive complete and in order: each send
  returns the identifier of its message, and as many fetches, whatever their timeout, return exactly these
  messages, with sender, number and flags and the payload cut or padded to 112 bytes. A fetch returns the
  timeout it was given, and 0 when that was negative, that is, unlimited.\<close>

theorem messages_arrive_in_order:
  assumes "dst \<noteq> 0" "Process_GetByID dst p = Some q" "mq_ok (q, k)" "mq_list (q, k) = []" "length ms \<le> mcap q"
    "timeout < 2 ^ 31"
  shows "\<exists>p1 k1 p2 k2. send_list f cur dst ms p k = (map (Done \<circ> ipcMessage.ID) (messages_of cur (ids p) ms), p1, k1) \<and>
    fetch_list f dst timeout (length ms) p1 k1 =
      Some (map (\<lambda>m. (Done (max 0 timeout), Some m)) (messages_of cur (ids p) ms), p2, k2)"
proof -
  have "length (mq_list (q, k)) + length ms \<le> mcap q" using assms(4,5) by simp
  from send_list_room [OF assms(1-3) this, of f cur] obtain p1 q1 k1 where
    s: "send_list f cur dst ms p k = (map (Done \<circ> ipcMessage.ID) (messages_of cur (ids p) ms), p1, k1)"
      "Process_GetByID dst p1 = Some q1" "mq_ok (q1, k1)" "mq_list (q1, k1) = messages_of cur (ids p) ms @ []"
    using assms(4) by auto
  from fetch_list_first [OF s(2-4) assms(6), of f] s(1) show ?thesis by auto
qed

lemma mq_ok_new:
  assumes "si \<noteq> mi" "0 < c" "c < 2 ^ 31"
  shows "mq_ok (MessageQueue_new x si mi c k)" "mq_list (MessageQueue_new x si mi c k) = []"
  using assms by (auto simp: mq_ok_def mq_list_def MessageQueue_new_def idle_sem_def Semaphore_new_def intro: queue_ok_new)

theorem messages_arrive_in_order_witness:
  "\<exists>p1 k1 p2 k2.
     (case MessageQueue_new (make_message 0 0 0 0 None) 0 1 64 k_two of (q, k) \<Rightarrow>
        send_list 128 3 7 [(2, 0, None), (9, 1, Some [1, 2])] \<lparr>ids = 0, procs = [(7, q)]\<rparr> k = ([Done 0, Done 1], p1, k1)) \<and>
     fetch_list 128 7 (-1) 2 p1 k1 =
       Some ([(Done 0, Some (make_message 2 0 0 3 None)), (Done 0, Some (make_message 9 1 1 3 (Some [1, 2])))], p2, k2)"
proof -
  obtain q k where n: "MessageQueue_new (make_message 0 0 0 0 None) 0 1 64 k_two = (q, k)" by force
  have "mq_ok (q, k)" "mq_list (q, k) = []"
    using mq_ok_new [of 0 1 64 "make_message 0 0 0 0 None" k_two] n by auto
  moreover have "mcap q = 64" using n by (auto simp: MessageQueue_new_def)
  ultimately show ?thesis
    using messages_arrive_in_order [of 7 "\<lparr>ids = 0, procs = [(7, q)]\<rparr>" q k
        "[(2, 0, None), (9, 1, Some [1, 2])]" "-1" 128 3] n
    by (simp add: Process_GetByID_def i32_def make_message_def numeral_2_eq_2)
qed

end
