(* ===== verification/Clock.thy ===== *)
theory Clock
  imports Sched "HOL-Library.Signed_Division"
begin

text \<open>
  The clock: the CMOS chip (\<open>kernel/cmos.cpp\<close>) as its registers and the latched index port, and the calendar of
  \<open>kernel/time.cpp\<close>. \<open>time_t\<close> is a 32-bit \<open>int\<close>; \<open>sdiv\<close> and \<open>smod\<close> are the division of C, which truncates.
\<close>

section \<open>The CMOS chip\<close>

record cmos =
  port70 :: byte
  reg :: "byte \<Rightarrow> byte"

(* src/kernel/cmos.cpp:4-11 CMOS::Read *)
definition CMOS_Read :: "byte \<Rightarrow> cmos \<Rightarrow> byte \<times> cmos" where
  "CMOS_Read r c = (let c = c\<lparr>port70 := (port70 c AND 0x80) OR (r AND 0x7F)\<rparr> in (reg c (port70 c AND 0x7F), c))"

(* src/kernel/cmos.cpp:13-19 CMOS::Write *)
definition CMOS_Write :: "byte \<Rightarrow> byte \<Rightarrow> cmos \<Rightarrow> cmos" where
  "CMOS_Write r val c =
     (let c = c\<lparr>port70 := (port70 c AND 0x80) OR (r AND 0x7F)\<rparr> in c\<lparr>reg := (reg c)(port70 c AND 0x7F := val)\<rparr>)"

(* src/kernel/cmos.cpp:21-28 CMOS::DisableNMI *)
definition CMOS_DisableNMI :: "cmos \<Rightarrow> bool \<times> cmos" where
  "CMOS_DisableNMI c = (port70 c AND 0x80 \<noteq> 0, c\<lparr>port70 := port70 c AND 0x7F\<rparr>)"

(* src/kernel/cmos.cpp:30-36 CMOS::RestoreNMI *)
definition CMOS_RestoreNMI :: "bool \<Rightarrow> cmos \<Rightarrow> cmos" where
  "CMOS_RestoreNMI state c = c\<lparr>port70 := (port70 c AND 0x7F) OR (if state then 0x80 else 0)\<rparr>"

(* src/kernel/cmos.cpp:38-41 CMOS::GetIRQ *)
definition CMOS_GetIRQ :: nat where
  "CMOS_GetIRQ = 8"

definition with_nmi_off :: "(cmos \<Rightarrow> cmos) \<Rightarrow> cmos \<Rightarrow> cmos" where
  "with_nmi_off f c = (case CMOS_DisableNMI c of (nmi, c) \<Rightarrow> CMOS_RestoreNMI nmi (f c))"

(* src/kernel/cmos.cpp:43-50 CMOS::EnableTimer *)
definition CMOS_EnableTimer :: "cmos \<Rightarrow> cmos" where
  "CMOS_EnableTimer = with_nmi_off (\<lambda>c. case CMOS_Read 0x0B c of (v, c) \<Rightarrow> CMOS_Write 0x0B (v OR 0x40) c)"

(* src/kernel/cmos.cpp:52-59 CMOS::DisableTimer *)
definition CMOS_DisableTimer :: "cmos \<Rightarrow> cmos" where
  "CMOS_DisableTimer = with_nmi_off (\<lambda>c. case CMOS_Read 0x0B c of (v, c) \<Rightarrow> CMOS_Write 0x0B (v AND NOT 0x40) c)"

text \<open>The shift is by the rate less one; a rate of 0, which \<open>SetTimerDivider\<close> never stores, would be a shift by \<open>-1\<close>.\<close>

(* src/kernel/cmos.cpp:61-67 CMOS::GetTimerFrequency *)
definition CMOS_GetTimerFrequency :: "cmos \<Rightarrow> nat option \<times> cmos" where
  "CMOS_GetTimerFrequency c =
     (case CMOS_Read 0x0A c of (v, c) \<Rightarrow>
        let rate = unat (v AND 0x0F) in (if rate = 0 then None else Some (32768 div 2 ^ (rate - 1)), c))"

(* src/kernel/cmos.cpp:69-78 CMOS::SetTimerDivider *)
definition CMOS_SetTimerDivider :: "int \<Rightarrow> cmos \<Rightarrow> cmos" where
  "CMOS_SetTimerDivider divider =
     (let divider = (if divider < 3 then 3 else if divider > 15 then 15 else divider)
      in with_nmi_off (\<lambda>c. case CMOS_Read 0x0A c of (v, c) \<Rightarrow> CMOS_Write 0x0A ((v AND 0xF0) OR of_int divider) c))"

(* src/kernel/time.cpp:28-33 Time::Initialize *)
definition Time_Initialize :: "cmos \<Rightarrow> nat option \<times> cmos" where
  "Time_Initialize c = CMOS_GetTimerFrequency (CMOS_SetTimerDivider 9 c)"

section \<open>The calendar\<close>

(* src/kernel/include/time.hpp:18-27 Time::DateTime *)
record DateTime =
  Year :: int
  Month :: int
  Day :: int
  Hour :: int
  Minute :: int
  Second :: int
  Millisecond :: int

(* src/kernel/time.cpp:13-16 bcdToDec *)
definition bcdToDec :: "byte \<Rightarrow> nat" where
  "bcdToDec bcd = (unat (bcd AND 0x0F) + unat (drop_bit 4 bcd) * 10) mod 2 ^ 8"

text \<open>
  The clock is read in two rounds of six registers until both agree. \<open>rounds\<close> are the values that the chip
  shows, two rounds at a time; \<open>None\<close> is a clock that has not settled in them.
\<close>

(* src/kernel/time.cpp:47-67 Time::GetDateTime, the loop *)
fun read_clock :: "(byte list \<times> byte list) list \<Rightarrow> byte list option" where
  "read_clock [] = None"
| "read_clock ((r1, r2) # rounds) = (if r1 = r2 then Some r1 else read_clock rounds)"

(* src/kernel/time.cpp:41-76 Time::GetDateTime *)
definition GetDateTime :: "(byte list \<times> byte list) list \<Rightarrow> DateTime option" where
  "GetDateTime rounds =
     map_option (\<lambda>r. \<lparr>Year = 2000 + int (bcdToDec (r ! 5)), Month = int (bcdToDec (r ! 4)), Day = int (bcdToDec (r ! 3)),
        Hour = int (bcdToDec (r ! 2)), Minute = int (bcdToDec (r ! 1)), Second = int (bcdToDec (r ! 0)), Millisecond = 0\<rparr>)
       (read_clock rounds)"

(* src/kernel/time.cpp:78-111 Time::UnixToDateTime *)
definition UnixToDateTime :: "int \<Rightarrow> DateTime" where
  "UnixToDateTime t =
     (let t = (if t < 0 then 0 else t);
          second = t smod 60; t = t sdiv 60;
          minute = t smod 60; t = t sdiv 60;
          hour = t smod 24; t = t sdiv 24;
          a = i32 (i32 (4 * t + 102032) sdiv 146097 + 15);
          b = i32 (t + 2442113 + a - a sdiv 4);
          c = i32 (20 * b - 2442) sdiv 7305;
          d = i32 (b - 365 * c - c sdiv 4);
          e = i32 (d * 1000) sdiv 30601;
          f = i32 (d - e * 30 - i32 (e * 601) sdiv 1000);
          (c, e) = (if e \<le> 13 then (c - 4716, e - 1) else (c - 4715, e - 13))
      in \<lparr>Year = c, Month = e, Day = f, Hour = hour, Minute = minute, Second = second, Millisecond = 0\<rparr>)"

(* src/kernel/time.cpp:121-143 Time::DateTimeToUnix *)
definition DateTimeToUnix :: "DateTime \<Rightarrow> int" where
  "DateTimeToUnix date =
     (let y = Year date; m = Month date; d = Day date;
          (m, y) = (if m \<le> 2 then (i32 (m + 12), i32 (y - 1)) else (m, y));
          t = i32 (365 * y + y sdiv 4 - y sdiv 100 + y sdiv 400);
          t = i32 (t + (30 * m + i32 (3 * (m + 1)) sdiv 5 + d));
          t = i32 (t - 719561);
          t = i32 (t * 86400)
      in i32 (t + (3600 * Hour date + 60 * Minute date + Second date)))"

(* src/kernel/time.cpp:178-183 Time::GetTime *)
definition GetTime :: "(byte list \<times> byte list) list \<Rightarrow> int option" where
  "GetTime rounds = map_option DateTimeToUnix (GetDateTime rounds)"

(* src/kernel/time.cpp:185-193 Time::GetTimeOfDay *)
definition GetTimeOfDay :: "(byte list \<times> byte list) list \<Rightarrow> int option" where
  "GetTimeOfDay rounds =
     map_option (\<lambda>dt. DateTimeToUnix (dt\<lparr>Year := 0, Month := 0, Day := 0\<rparr>)) (GetDateTime rounds)"

(* src/kernel/time.cpp:150-156 Time::GetTickCount *)
definition GetTickCount :: "sched \<Rightarrow> nat" where
  "GetTickCount s = systemTicks s"

(* src/kernel/time.cpp:171-176 Time::Sleep *)
definition Time_Sleep :: "nat \<Rightarrow> nat \<Rightarrow> bool \<Rightarrow> sched \<Rightarrow> (nat + bool) \<times> sched" where
  "Time_Sleep tickFreq millis interruptible s =
     (case Thread_GetCurrent s of None \<Rightarrow> (Inl 0, s) | Some ct \<Rightarrow> Thread_Sleep tickFreq ct millis interruptible s)"

section \<open>Properties\<close>

lemma sdiv_nonneg: "0 \<le> a \<Longrightarrow> 0 < b \<Longrightarrow> a sdiv b = a div (b :: int)"
  by (cases "a = 0") (auto simp: signed_divide_int_def sgn_1_pos order_le_less)

lemma smod_nonneg: "0 \<le> a \<Longrightarrow> 0 < b \<Longrightarrow> a smod b = a mod (b :: int)"
  using smod_sdiv_mult_eq [of a b] by (simp add: sdiv_nonneg minus_div_mult_eq_mod [symmetric])

lemma div_bounds:
  fixes k x n :: int
  assumes "k = x div n" "0 < n" shows "n * k \<le> x" "x < n * k + n"
proof -
  have "x = n * k + x mod n" using assms by simp
  then show "n * k \<le> x" "x < n * k + n" using pos_mod_bound [OF assms(2), of x] pos_mod_sign [OF assms(2), of x] by linarith+
qed

lemma div_numeral_bounds:
  assumes "k = x div numeral w" shows "numeral w * k \<le> (x :: int)" "x < numeral w * k + numeral w"
  using div_bounds [OF assms] by simp_all

lemma div_eqI: "0 < n \<Longrightarrow> n * k \<le> x \<Longrightarrow> x < n * k + n \<Longrightarrow> x div n = (k :: int)"
  by (rule int_div_pos_eq [of x n k "x - n * k"]) auto

text \<open>The century of the shifted year, and the range of the day and month numbers that the formulas go through.\<close>

lemma calendar_century:
  fixes t k b c :: int
  assumes "0 \<le> t" and k: "k = (4 * t + 102032) div 146097" and b: "b = t + 2442113 + (k + 15) - (k + 15) div 4"
    and c: "c = (20 * b - 2442) div 7305"
  shows "(c - 4716) div 100 = k + 19"
proof -
  define r where "r = (k + 15) div 4"
  note B = div_numeral_bounds [OF k] div_numeral_bounds [OF r_def] div_numeral_bounds [OF c]
  have "100 * (k + 19) \<le> c - 4716" using B b by (simp add: r_def [symmetric])
  moreover have "c - 4716 < 100 * (k + 19) + 100" using B b by (simp add: r_def [symmetric])
  ultimately show ?thesis by (intro div_eqI) simp_all
qed

lemma calendar_month:
  fixes b c d e :: int
  assumes "0 \<le> c" and c: "c = (20 * b - 2442) div 7305" and d: "d = b - 365 * c - c div 4" and e: "e = d * 1000 div 30601"
  shows "122 < d" "d \<le> 488" "4 \<le> e" "e \<le> 15" "e * 601 div 1000 = 3 * e div 5"
proof -
  define r where "r = c div 4"
  note B = div_numeral_bounds [OF c] div_numeral_bounds [OF r_def] div_numeral_bounds [OF e]
  show D: "122 < d" "d \<le> 488" using B(1-4) d [folded r_def] by linarith+
  show E: "4 \<le> e" "e \<le> 15" using B(5,6) D by linarith+
  have "e = 4 \<or> e = 5 \<or> e = 6 \<or> e = 7 \<or> e = 8 \<or> e = 9 \<or> e = 10 \<or> e = 11 \<or> e = 12 \<or> e = 13 \<or> e = 14 \<or> e = 15"
    using E by presburger
  then show "e * 601 div 1000 = 3 * e div 5" by auto
qed

lemma calendar_day:
  fixes d e g :: int
  assumes e: "e = d * 1000 div 30601" "4 \<le> e" "e \<le> 15" and g: "g = e * 601 div 1000"
  shows "1 \<le> d - e * 30 - g \<and> d - e * 30 - g \<le> 31"
proof -
  have b: "30601 * e \<le> d * 1000" "d * 1000 < 30601 * e + 30601" using div_numeral_bounds [OF e(1)] by auto
  have "e = 4 \<or> e = 5 \<or> e = 6 \<or> e = 7 \<or> e = 8 \<or> e = 9 \<or> e = 10 \<or> e = 11 \<or> e = 12 \<or> e = 13 \<or> e = 14 \<or> e = 15"
    using e(2,3) by presburger
  then show ?thesis using b g by (elim disjE) simp_all
qed

text \<open>The calendar of a day number, without the wrap-around.\<close>

lemma calendar_inverse:
  fixes t :: int
  assumes "0 \<le> t"
  defines "k \<equiv> (4 * t + 102032) div 146097"
  defines "b \<equiv> t + 2442113 + (k + 15) - (k + 15) div 4"
  defines "c \<equiv> (20 * b - 2442) div 7305"
  defines "d \<equiv> b - 365 * c - c div 4"
  defines "e \<equiv> d * 1000 div 30601"
  shows "365 * (c - 4716) + (c - 4716) div 4 - (c - 4716) div 100 + (c - 4716) div 400
     + (30 * (e - 1) + 3 * e div 5 + (d - e * 30 - e * 601 div 1000)) - 719561 = t"
proof -
  have "0 \<le> k" unfolding k_def using assms(1) by simp
  then have b: "2442113 \<le> b" using assms(1) div_bounds [of "(k + 15) div 4" "k + 15" 4] by (simp add: b_def)
  have c0: "6000 \<le> c" using b div_bounds [of c "20 * b - 2442" 7305] by (simp add: c_def)
  have cent: "(c - 4716) div 100 = k + 19" 
    by (rule calendar_century [OF assms(1) meta_eq_to_obj_eq [OF k_def] meta_eq_to_obj_eq [OF b_def] meta_eq_to_obj_eq [OF c_def]])
  have "(c - 4716) div 400 = (c - 4716) div 100 div 4" by (simp add: div_mult2_eq [symmetric] zdiv_zmult2_eq [symmetric])
  moreover have "(k + 19) div 4 = (k + 15) div 4 + 1" using div_add_self2 [of 4 "k + 15"] by simp
  ultimately have q: "(c - 4716) div 400 = (k + 15) div 4 + 1" unfolding cent by simp
  have y4: "(c - 4716) div 4 = c div 4 - 1179" by presburger
  have m: "e * 601 div 1000 = 3 * e div 5"
    using c0 by (intro calendar_month(5) [OF _ meta_eq_to_obj_eq [OF c_def] meta_eq_to_obj_eq [OF d_def] meta_eq_to_obj_eq [OF e_def]]) simp
  show ?thesis unfolding cent q y4 m using d_def b_def by simp
qed

text \<open>In the range of \<open>time_t\<close> nothing wraps.\<close>

lemma calendar_range:
  fixes t u k b c d e g :: int
  assumes t: "0 \<le> t" "t < 2 ^ 31" and h: "h = t div 60 div 60" and u: "u = h div 24"
    and k: "k = (4 * u + 102032) div 146097" and r: "r = (k + 15) div 4" and b: "b = u + 2442113 + (k + 15) - r"
    and c: "c = (20 * b - 2442) div 7305" and q: "q = c div 4" and d: "d = b - 365 * c - q" and e: "e = d * 1000 div 30601"
  shows "0 \<le> h \<and> h \<le> 596523" "0 \<le> u \<and> u \<le> 24855" "0 \<le> k \<and> k \<le> 1" "0 \<le> r \<and> r \<le> 4" "2442113 \<le> b \<and> b \<le> 2470000"
    "6000 \<le> c \<and> c \<le> 7000" "0 \<le> q \<and> q \<le> 2000"
proof -
  have m: "0 \<le> t div 60" "t div 60 \<le> 35791394" using t div_numeral_bounds [of "t div 60" t] by simp_all
  show H: "0 \<le> h \<and> h \<le> 596523" using m div_numeral_bounds [OF h] by linarith
  show U: "0 \<le> u \<and> u \<le> 24855" using H div_numeral_bounds [OF u] by linarith
  show K: "0 \<le> k \<and> k \<le> 1" using U div_numeral_bounds [OF k] by linarith
  show R: "0 \<le> r \<and> r \<le> 4" using K div_numeral_bounds [OF r] by linarith
  show B: "2442113 \<le> b \<and> b \<le> 2470000" using U K R b by linarith
  show C: "6000 \<le> c \<and> c \<le> 7000" using B div_numeral_bounds [OF c] by linarith
  show "0 \<le> q \<and> q \<le> 2000" using C div_numeral_bounds [OF q] by linarith
qed

lemma UnixToDateTime_eq:
  assumes t: "0 \<le> t" "t < 2 ^ 31" and h: "h = t div 60 div 60" and u: "u = h div 24"
    and k: "k = (4 * u + 102032) div 146097" and r: "r = (k + 15) div 4" and b: "b = u + 2442113 + (k + 15) - r"
    and c: "c = (20 * b - 2442) div 7305" and q: "q = c div 4" and d: "d = b - 365 * c - q" and e: "e = d * 1000 div 30601"
    and g: "g = e * 601 div 1000"
  shows "UnixToDateTime t = \<lparr>Year = (if e \<le> 13 then c - 4716 else c - 4715), Month = (if e \<le> 13 then e - 1 else e - 13),
     Day = d - e * 30 - g, Hour = h mod 24, Minute = t div 60 mod 60, Second = t mod 60, Millisecond = 0\<rparr>"
proof -
  note R = calendar_range [OF t h u k r b c q d e]
  have D: "122 < d" "d \<le> 488" "4 \<le> e" "e \<le> 15"
    using calendar_month(1-4) [OF _ c d [unfolded q] e] R(6) by simp_all
  have sm: "t smod 60 = t mod 60" "t sdiv 60 = t div 60" "t div 60 smod 60 = t div 60 mod 60" "t div 60 sdiv 60 = h"
    "h smod 24 = h mod 24" "h sdiv 24 = u"
    using t h u R(1) by (simp_all add: sdiv_nonneg smod_nonneg)
  have "i32 (4 * u + 102032) sdiv 146097 = k" "i32 (k + 15) = k + 15" "(k + 15) sdiv 4 = r"
    "i32 (u + 2442113 + (k + 15) - r) = b" "i32 (20 * b - 2442) sdiv 7305 = c" "c sdiv 4 = q"
    "i32 (b - 365 * c - q) = d" "i32 (d * 1000) sdiv 30601 = e" "i32 (e * 601) sdiv 1000 = g"
    "i32 (d - e * 30 - g) = d - e * 30 - g"
  proof -
    have G: "0 \<le> g" "g \<le> 15" using div_numeral_bounds [OF g] D by linarith+
    show "i32 (4 * u + 102032) sdiv 146097 = k" using R(2) k by (simp add: sdiv_nonneg i32_small in_i32_def)
    show "i32 (k + 15) = k + 15" using R(3) by (simp add: i32_small in_i32_def)
    show "(k + 15) sdiv 4 = r" using R(3) r by (simp add: sdiv_nonneg)
    show "i32 (u + 2442113 + (k + 15) - r) = b" using R(5) b by (simp add: i32_small in_i32_def)
    show "i32 (20 * b - 2442) sdiv 7305 = c" using R(5) c by (simp add: sdiv_nonneg i32_small in_i32_def)
    show "c sdiv 4 = q" using R(6) q by (simp add: sdiv_nonneg)
    show "i32 (b - 365 * c - q) = d" using D d by (simp add: i32_small in_i32_def)
    show "i32 (d * 1000) sdiv 30601 = e" using D e by (simp add: sdiv_nonneg i32_small in_i32_def)
    show "i32 (e * 601) sdiv 1000 = g" using D g by (simp add: sdiv_nonneg i32_small in_i32_def)
    show "i32 (d - e * 30 - g) = d - e * 30 - g" using D G by (intro i32_small) (simp add: in_i32_def)
  qed
  note eqs = sm this
  have "(if t < 0 then 0 else t) = t" using t by simp
  note eqs = this eqs
  show ?thesis
  proof (cases "e \<le> 13")
    case True
    then have T: "(e \<le> 13) = True" by simp
    show ?thesis unfolding UnixToDateTime_def by (simp only: Let_def eqs T if_True prod.case)
  next
    case False
    then have F: "(e \<le> 13) = False" by simp
    show ?thesis unfolding UnixToDateTime_def by (simp only: Let_def eqs F if_False prod.case)
  qed
qed

lemma DateTimeToUnix_eq:
  fixes y m dd w :: int
  assumes y: "1000 \<le> y" "y \<le> 3000" and m: "3 \<le> m" "m \<le> 14" and dd: "1 \<le> dd" "dd \<le> 31"
    and w: "w = 365 * y + y div 4 - y div 100 + y div 400 + (30 * m + 3 * (m + 1) div 5 + dd) - 719561"
    and date: "(if Month date \<le> 2 then (Month date + 12, Year date - 1) else (Month date, Year date)) = (m, y)" "Day date = dd"
  shows "DateTimeToUnix date =
    i32 (i32 (w * 86400) + (3600 * Hour date + 60 * Minute date + Second date))"
proof -
  have r: "y div 4 \<le> 750" "0 \<le> y div 4" "y div 100 \<le> 30" "0 \<le> y div 100" "y div 400 \<le> 7" "0 \<le> y div 400"
    "3 * (m + 1) div 5 \<le> 9" "0 \<le> 3 * (m + 1) div 5"
    using y m by (simp_all add: div_le_mono zdiv_mono1 order.trans [OF zdiv_mono1])
  have adj: "(if Month date \<le> 2 then (i32 (Month date + 12), i32 (Year date - 1)) else (Month date, Year date)) = (m, y)"
    using date(1) y m by (auto simp: i32_small in_i32_def split: if_splits)
  have e: "y sdiv 4 = y div 4" "y sdiv 100 = y div 100" "y sdiv 400 = y div 400"
    "i32 (3 * (m + 1)) sdiv 5 = 3 * (m + 1) div 5"
    using y m by (simp_all add: sdiv_nonneg i32_small in_i32_def)
  let ?a = "365 * y + y div 4 - y div 100 + y div 400"
  let ?b = "30 * m + 3 * (m + 1) div 5 + dd"
  have i: "i32 ?a = ?a" "i32 (?a + ?b) = ?a + ?b" "i32 (?a + ?b - 719561) = w"
    unfolding w using y m dd r by (auto simp: in_i32_def intro!: i32_small)
  show ?thesis unfolding DateTimeToUnix_def by (simp only: Let_def adj prod.case date(2) e i)
qed

text \<open>C25.
  Every \<open>time_t\<close> from the epoch to the end of its range survives the way to a calendar date and back:
  \<open>DateTimeToUnix\<close> inverts \<open>UnixToDateTime\<close>, without an overflow in either, and month, day and time of day
  are in range.\<close>

theorem unix_time_roundtrip:
  assumes "0 \<le> t" "t < 2 ^ 31"
  shows "DateTimeToUnix (UnixToDateTime t) = t \<and> Month (UnixToDateTime t) \<in> {1..12} \<and>
    Day (UnixToDateTime t) \<in> {1..31} \<and> Hour (UnixToDateTime t) \<in> {0..23} \<and> Minute (UnixToDateTime t) \<in> {0..59} \<and> Second (UnixToDateTime t) \<in> {0..59}"
proof -
  obtain h u k r b c q d e g where v: "h = t div 60 div 60" "u = h div 24" "k = (4 * u + 102032) div 146097"
    "r = (k + 15) div 4" "b = u + 2442113 + (k + 15) - r" "c = (20 * b - 2442) div 7305" "q = c div 4"
    "d = b - 365 * c - q" "e = d * 1000 div 30601" "g = e * 601 div 1000" by blast
  note R = calendar_range [OF assms v(1-9)] note U = UnixToDateTime_eq [OF assms v]
  have D: "122 < d" "d \<le> 488" "4 \<le> e" "e \<le> 15"
    using calendar_month(1-4) [OF _ v(6) v(8) [unfolded v(7)] v(9)] R(6) by simp_all
  have G: "0 \<le> g" "g \<le> 15" using div_numeral_bounds [OF v(10)] D by linarith+
  note Dd = calendar_day [OF v(9) D(3,4) v(10)]
  have w: "u = 365 * (c - 4716) + (c - 4716) div 4 - (c - 4716) div 100 + (c - 4716) div 400
     + (30 * (e - 1) + 3 * (e - 1 + 1) div 5 + (d - e * 30 - g)) - 719561"
    using calendar_inverse [of u, folded v(3), folded v(4), folded v(5), folded v(6), folded v(7), folded v(8), folded v(9),
        folded v(10)] R(2) by simp
  have adj: "(if Month (UnixToDateTime t) \<le> 2 then (Month (UnixToDateTime t) + 12, Year (UnixToDateTime t) - 1)
      else (Month (UnixToDateTime t), Year (UnixToDateTime t))) = (e - 1, c - 4716)"
    unfolding U using D by auto
  have t1: "t = u * 86400 + (3600 * (h mod 24) + 60 * (t div 60 mod 60) + t mod 60)"
  proof -
    have "h = 24 * u + h mod 24" "t div 60 = 60 * h + t div 60 mod 60" "t = 60 * (t div 60) + t mod 60"
      by (simp_all add: v(1,2))
    then show ?thesis by linarith
  qed
  have m: "0 \<le> h mod 24" "h mod 24 < 24" "0 \<le> t div 60 mod 60" "t div 60 mod 60 < 60" "0 \<le> t mod 60" "t mod 60 < 60"
    by simp_all
  have i: "i32 (u * 86400) = u * 86400" using assms t1 m R(2) by (intro i32_small) (simp add: in_i32_def)
  have "DateTimeToUnix (UnixToDateTime t) = i32 (i32 (u * 86400) + (3600 * (h mod 24) + 60 * (t div 60 mod 60) + t mod 60))"
    using DateTimeToUnix_eq [OF _ _ _ _ _ _ w adj] R(6) D Dd by (simp add: U)
  also have "\<dots> = t" unfolding i t1 [symmetric] using assms by (intro i32_small) (simp add: in_i32_def)
  finally have rt: "DateTimeToUnix (UnixToDateTime t) = t" .
  have "h mod 24 \<le> 23" "t div 60 mod 60 \<le> 59" "t mod 60 \<le> 59" using m by linarith+
  with rt show ?thesis using D Dd by (simp add: U)
qed

theorem unix_time_roundtrip_witness:
  "UnixToDateTime 951782400 = \<lparr>Year = 2000, Month = 2, Day = 29, Hour = 0, Minute = 0, Second = 0, Millisecond = 0\<rparr> \<and>
   DateTimeToUnix (UnixToDateTime 951782400) = 951782400"
proof -
  have "UnixToDateTime 951782400 = \<lparr>Year = 2000, Month = 2, Day = 29, Hour = 0, Minute = 0, Second = 0, Millisecond = 0\<rparr>"
    by (subst UnixToDateTime_eq [OF _ _ refl refl refl refl refl refl refl refl refl refl]) simp_all
  then show ?thesis using unix_time_roundtrip [of 951782400] by simp
qed

text \<open>
  The timer: whatever the divider asked for, the chip ends up with a rate from 3 to 15, and the other bits of the
  register are kept.
\<close>

lemma cmos_index: "((p AND 0x80) OR (r AND 0x7F)) AND 0x7F = r AND (0x7F :: byte)" "((p AND 0x80) OR (r AND 0x7F)) AND 0x80 = p AND (0x80 :: byte)"
  by (simp_all add: word_ao_dist word_bw_assocs)

lemma timer_frequency:
  assumes "c' = CMOS_SetTimerDivider divider c"
  shows "fst (CMOS_GetTimerFrequency c') = Some (32768 div 2 ^ (nat (max 3 (min 15 divider)) - 1))"
    and "reg c' 0x0A AND 0xF0 = reg c 0x0A AND 0xF0"
proof -
  define dv where "dv = max 3 (min 15 divider)"
  have "3 \<le> dv" "dv \<le> 15" by (auto simp: dv_def)
  then have dv: "dv = 3 \<or> dv = 4 \<or> dv = 5 \<or> dv = 6 \<or> dv = 7 \<or> dv = 8 \<or> dv = 9 \<or> dv = 10 \<or> dv = 11 \<or> dv = 12 \<or> dv = 13 \<or> dv = 14 \<or> dv = 15"
    by presburger
  have "(if divider < 3 then 3 else if divider > 15 then 15 else divider) = dv" by (simp add: dv_def)
  then have r: "reg c' 0x0A = (reg c 0x0A AND 0xF0) OR of_int dv"
    using assms
    by (simp add: CMOS_SetTimerDivider_def with_nmi_off_def CMOS_DisableNMI_def CMOS_RestoreNMI_def CMOS_Read_def
        CMOS_Write_def Let_def word_ao_dist word_bw_assocs)
  have "unat ((of_int dv :: byte) AND 0x0F) = nat dv" "(of_int dv :: byte) AND 0xF0 = 0" "nat dv \<noteq> 0"
    using dv by (elim disjE; simp)+
  moreover obtain c'' where "CMOS_Read 0x0A c' = (reg c' 0x0A, c'')" by (simp add: CMOS_Read_def Let_def word_ao_dist word_bw_assocs)
  ultimately show "fst (CMOS_GetTimerFrequency c') = Some (32768 div 2 ^ (nat (max 3 (min 15 divider)) - 1))"
    "reg c' 0x0A AND 0xF0 = reg c 0x0A AND 0xF0"
    by (simp_all add: CMOS_GetTimerFrequency_def r dv_def [symmetric] word_ao_dist word_bw_assocs Let_def)
qed

text \<open>The system timer therefore runs at 128 Hz.\<close>

lemma Time_Initialize_frequency: "fst (Time_Initialize c) = Some 128"
  using timer_frequency(1) [OF refl, of 9 c] by (simp add: Time_Initialize_def)

text \<open>
  The time of day is computed from a date of zeros, which lies before the epoch: at midnight the result is the
  wrapped number of seconds of a negative number of days.
\<close>

lemma time_of_day_at_midnight:
  "DateTimeToUnix \<lparr>Year = 0, Month = 0, Day = 0, Hour = 0, Minute = 0, Second = 0, Millisecond = 0\<rparr> = i32 (- 719559 * 86400)"
proof -
  have i: "i32 12 = 12" "i32 (- 1) = - 1" "i32 39 = 39" "i32 (- 365) = - 365" "i32 2 = 2" "i32 (- 719559) = - 719559"
    by (simp_all add: i32_small in_i32_def)
  have q: "1 sdiv (4 :: int) = 0" "1 sdiv (100 :: int) = 0" "1 sdiv (400 :: int) = 0" "39 sdiv (5 :: int) = 7"
    by (simp_all add: signed_divide_int_def)
  have w: "i32 (i32 x) = i32 x" for x by (simp add: i32_small)
  show ?thesis by (simp add: DateTimeToUnix_def Let_def i q w)
qed

end
