(* ===== verification/Vec.thy ===== *)
theory Vec
  imports Prelude
begin

text \<open>
  The growing array of \<open>kernel/include/vector.hpp\<close>. The block that the heap gives is a list of \<open>allocatedSize\<close>
  elements, \<open>None\<close> when it is null; \<open>resize n\<close> says whether the heap can give a block of \<open>n\<close> elements, and the new
  part of the block holds \<open>d\<close>. Blocks are counted in elements: the code multiplies by \<open>sizeof(T)\<close>, which for 32-bit sizes
  could wrap around for blocks of 4 GiB and more. An access through a null block or out of the block is \<open>None\<close>, a fault.
\<close>

section \<open>The array\<close>

(* src/kernel/include/vector.hpp:23-27 class Vector *)
record 'a vector =
  maxSize :: nat
  currentSize :: nat
  allocatedSize :: nat
  allocIncr :: nat
  vdata :: "'a list option"

definition resize_block :: "'a \<Rightarrow> nat \<Rightarrow> 'a list option \<Rightarrow> 'a list" where
  "resize_block d n b = (case b of None \<Rightarrow> replicate n d | Some xs \<Rightarrow> take n xs @ replicate (n - length xs) d)"

(* src/kernel/include/vector.hpp:29-42 upSize *)
definition upSize :: "(nat \<Rightarrow> bool) \<Rightarrow> 'a \<Rightarrow> 'a vector \<Rightarrow> bool \<times> 'a vector" where
  "upSize resize d v =
     (let newSize = u32 (currentSize v + 1) in
      if newSize > maxSize v then (False, v)
      else if newSize > allocatedSize v then
        let n = u32 (allocatedSize v + allocIncr v);
            n = (if n > maxSize v then maxSize v else n);
            v = v\<lparr>vdata := (if resize n then Some (resize_block d n (vdata v)) else None)\<rparr>
        in if n \<noteq> 0 \<and> vdata v = None then (False, v) else (True, v\<lparr>allocatedSize := n\<rparr>)
      else (True, v))"

(* src/kernel/include/vector.hpp:44-54 constructors of Vector *)
definition Vector_new :: "(nat \<Rightarrow> bool) \<Rightarrow> 'a \<Rightarrow> nat \<Rightarrow> nat \<Rightarrow> nat \<Rightarrow> 'a vector" where
  "Vector_new resize d preAlloc incr maxs =
     (let n = (if preAlloc > maxs then maxs else preAlloc)
      in \<lparr>maxSize = maxs, currentSize = 0, allocatedSize = n, allocIncr = incr,
          vdata = (if resize n then Some (replicate n d) else None)\<rparr>)"

(* src/kernel/include/vector.hpp:56-59 Size *)
definition Vector_Size :: "'a vector \<Rightarrow> nat" where
  "Vector_Size v = currentSize v"

(* src/kernel/include/vector.hpp:61-64 AllocSize *)
definition Vector_AllocSize :: "'a vector \<Rightarrow> nat" where
  "Vector_AllocSize v = allocatedSize v"

definition vread :: "nat \<Rightarrow> 'a vector \<Rightarrow> 'a option" where
  "vread i v = (case vdata v of None \<Rightarrow> None | Some xs \<Rightarrow> if i < length xs then Some (xs ! i) else None)"

definition vwrite :: "nat \<Rightarrow> 'a \<Rightarrow> 'a vector \<Rightarrow> 'a vector option" where
  "vwrite i x v = (case vdata v of None \<Rightarrow> None
     | Some xs \<Rightarrow> if i < length xs then Some (v\<lparr>vdata := Some (xs[i := x])\<rparr>) else None)"

(* src/kernel/include/vector.hpp:66-69 Get *)
definition Vector_Get :: "'a \<Rightarrow> nat \<Rightarrow> 'a vector \<Rightarrow> 'a option" where
  "Vector_Get d idx v = (if idx \<ge> currentSize v then Some d else vread idx v)"

(* src/kernel/include/vector.hpp:71-76 Set *)
definition Vector_Set :: "nat \<Rightarrow> 'a \<Rightarrow> 'a vector \<Rightarrow> (bool \<times> 'a vector) option" where
  "Vector_Set idx x v = (if idx \<ge> currentSize v then Some (False, v) else map_option (Pair True) (vwrite idx x v))"

(* src/kernel/include/vector.hpp:78-83 Append *)
definition Vector_Append :: "(nat \<Rightarrow> bool) \<Rightarrow> 'a \<Rightarrow> 'a \<Rightarrow> 'a vector \<Rightarrow> (bool \<times> 'a vector) option" where
  "Vector_Append resize d x v =
     (case upSize resize d v of
        (False, v) \<Rightarrow> Some (False, v)
      | (True, v) \<Rightarrow> map_option (\<lambda>v. (True, v\<lparr>currentSize := u32 (currentSize v + 1)\<rparr>)) (vwrite (currentSize v) x v))"

text \<open>\<open>Memory::Move\<close> of \<open>n\<close> elements inside the block.\<close>

definition vmove :: "nat \<Rightarrow> nat \<Rightarrow> nat \<Rightarrow> 'a vector \<Rightarrow> 'a vector option" where
  "vmove dst src n v = (case vdata v of None \<Rightarrow> if n = 0 then Some v else None
     | Some xs \<Rightarrow> if n = 0 then Some v
         else if dst + n \<le> length xs \<and> src + n \<le> length xs
         then Some (v\<lparr>vdata := Some (take dst xs @ take n (drop src xs) @ drop (dst + n) xs)\<rparr>) else None)"

(* src/kernel/include/vector.hpp:85-92 Prepend *)
definition Vector_Prepend :: "(nat \<Rightarrow> bool) \<Rightarrow> 'a \<Rightarrow> 'a \<Rightarrow> 'a vector \<Rightarrow> (bool \<times> 'a vector) option" where
  "Vector_Prepend resize d x v =
     (case upSize resize d v of
        (False, v) \<Rightarrow> Some (False, v)
      | (True, v) \<Rightarrow>
          Option.bind (vmove 1 0 (currentSize v) v) (\<lambda>v.
          map_option (\<lambda>v. (True, v\<lparr>currentSize := u32 (currentSize v + 1)\<rparr>)) (vwrite 0 x v)))"

(* src/kernel/include/vector.hpp:94-102 InsertBefore *)
definition Vector_InsertBefore :: "(nat \<Rightarrow> bool) \<Rightarrow> 'a \<Rightarrow> nat \<Rightarrow> 'a \<Rightarrow> 'a vector \<Rightarrow> (bool \<times> 'a vector) option" where
  "Vector_InsertBefore resize d idx x v =
     (let idx = (if idx > currentSize v then currentSize v else idx) in
      case upSize resize d v of
        (False, v) \<Rightarrow> Some (False, v)
      | (True, v) \<Rightarrow>
          Option.bind (vmove (1 + idx) idx (currentSize v - idx) v) (\<lambda>v.
          map_option (\<lambda>v. (True, v\<lparr>currentSize := u32 (currentSize v + 1)\<rparr>)) (vwrite idx x v)))"

text \<open>In an empty array \<open>idx\<close> becomes the largest \<open>uint\<close> and \<open>idx + 1\<close> wraps to 0.\<close>

(* src/kernel/include/vector.hpp:104-112 InsertAfter *)
definition Vector_InsertAfter :: "(nat \<Rightarrow> bool) \<Rightarrow> 'a \<Rightarrow> nat \<Rightarrow> 'a \<Rightarrow> 'a vector \<Rightarrow> (bool \<times> 'a vector) option" where
  "Vector_InsertAfter resize d idx x v =
     (let idx = (if idx \<ge> currentSize v then sub32 (currentSize v) 1 else idx) in
      case upSize resize d v of
        (False, v) \<Rightarrow> Some (False, v)
      | (True, v) \<Rightarrow>
          Option.bind (vmove (u32 (2 + idx)) (u32 (1 + idx)) (sub32 (sub32 (currentSize v) idx) 1) v) (\<lambda>v.
          map_option (\<lambda>v. (True, v\<lparr>currentSize := u32 (currentSize v + 1)\<rparr>)) (vwrite (u32 (idx + 1)) x v)))"

(* src/kernel/include/vector.hpp:135-141 RemoveAt *)
definition Vector_RemoveAt :: "nat \<Rightarrow> 'a vector \<Rightarrow> (bool \<times> 'a vector) option" where
  "Vector_RemoveAt idx v =
     (if idx \<ge> currentSize v then Some (False, v)
      else map_option (\<lambda>v. (True, v\<lparr>currentSize := currentSize v - 1\<rparr>)) (vmove idx (idx + 1) (currentSize v - idx - 1) v))"

(* src/kernel/include/vector.hpp:116-120 RemoveOne, loop *)
function RemoveOne_from :: "nat \<Rightarrow> 'a \<Rightarrow> 'a vector \<Rightarrow> (bool \<times> 'a vector) option" where
  "RemoveOne_from i x v =
     (if i < currentSize v then
        (case vread i v of None \<Rightarrow> None
         | Some y \<Rightarrow> if x = y then Vector_RemoveAt i v else RemoveOne_from (i + 1) x v)
      else Some (False, v))"
  by pat_completeness auto
termination by (relation "measure (\<lambda>(i, x, v). currentSize v - i)") auto

declare RemoveOne_from.simps [simp del]

(* src/kernel/include/vector.hpp:114-122 RemoveOne *)
definition Vector_RemoveOne :: "'a \<Rightarrow> 'a vector \<Rightarrow> (bool \<times> 'a vector) option" where
  "Vector_RemoveOne x v = RemoveOne_from 0 x v"

lemma RemoveAt_shrinks:
  "Vector_RemoveAt i v = Some (True, v') \<Longrightarrow> i < currentSize v \<and> currentSize v' = currentSize v - 1"
  by (auto simp: Vector_RemoveAt_def vmove_def split: if_splits option.splits)

text \<open>After a removal the loop looks at the same index again (\<open>i--\<close> and \<open>++i\<close>).\<close>

(* src/kernel/include/vector.hpp:127-131 RemoveAll, loop *)
function RemoveAll_from :: "nat \<Rightarrow> nat \<Rightarrow> 'a \<Rightarrow> 'a vector \<Rightarrow> (nat \<times> 'a vector) option" where
  "RemoveAll_from i res x v =
     (if i < currentSize v then
        (case vread i v of None \<Rightarrow> None
         | Some y \<Rightarrow>
             if x = y then
               (case Vector_RemoveAt i v of Some (True, v') \<Rightarrow> RemoveAll_from i (res + 1) x v' | _ \<Rightarrow> None)
             else RemoveAll_from (i + 1) res x v)
      else Some (res, v))"
  by pat_completeness auto
termination
  by (relation "measure (\<lambda>(i, res, x, v). currentSize v - i)") (auto dest: RemoveAt_shrinks)

declare RemoveAll_from.simps [simp del]

(* src/kernel/include/vector.hpp:124-133 RemoveAll *)
definition Vector_RemoveAll :: "'a \<Rightarrow> 'a vector \<Rightarrow> (nat \<times> 'a vector) option" where
  "Vector_RemoveAll x v = RemoveAll_from 0 0 x v"

(* src/kernel/include/vector.hpp:143-150 Trim *)
definition Vector_Trim :: "(nat \<Rightarrow> bool) \<Rightarrow> 'a \<Rightarrow> 'a vector \<Rightarrow> 'a vector" where
  "Vector_Trim resize d v =
     (if currentSize v < allocatedSize v
      then v\<lparr>vdata := (if resize (currentSize v) then Some (resize_block d (currentSize v) (vdata v)) else None),
             allocatedSize := currentSize v\<rparr>
      else v)"

(* src/kernel/include/vector.hpp:152-160 Swap *)
definition Vector_Swap :: "nat \<Rightarrow> nat \<Rightarrow> 'a vector \<Rightarrow> (bool \<times> 'a vector) option" where
  "Vector_Swap i j v =
     (if i \<ge> currentSize v \<or> j \<ge> currentSize v then Some (False, v)
      else case (vread j v, vread i v) of
             (Some tmp, Some x) \<Rightarrow> Option.bind (vwrite j x v) (\<lambda>v. map_option (Pair True) (vwrite i tmp v))
           | _ \<Rightarrow> None)"

section \<open>The array stands for a list\<close>

definition vec_ok :: "'a vector \<Rightarrow> bool" where
  "vec_ok v \<longleftrightarrow> currentSize v \<le> allocatedSize v \<and> allocatedSize v \<le> maxSize v \<and> 0 < allocIncr v \<and>
     allocatedSize v + allocIncr v < 2 ^ 32 \<and> (\<exists>xs. vdata v = Some xs \<and> length xs = allocatedSize v)"

definition vlist :: "'a vector \<Rightarrow> 'a list" where
  "vlist v = (case vdata v of None \<Rightarrow> [] | Some xs \<Rightarrow> take (currentSize v) xs)"

text \<open>A vector that can still grow: its next block size does not reach the end of the address range.\<close>

definition can_grow :: "(nat \<Rightarrow> bool) \<Rightarrow> 'a vector \<Rightarrow> bool" where
  "can_grow resize v \<longleftrightarrow> currentSize v < maxSize v \<and> (\<forall>n. resize n) \<and> allocatedSize v + 2 * allocIncr v < 2 ^ 32"

lemma vec_okE:
  assumes "vec_ok v"
  obtains xs where "vdata v = Some xs" "length xs = allocatedSize v" "currentSize v \<le> length xs" "vlist v = take (currentSize v) xs"
    "currentSize v < 2 ^ 32 - 1" "length (vlist v) = currentSize v"
  using assms by (auto simp: vec_ok_def vlist_def)

lemma length_vlist: "vec_ok v \<Longrightarrow> length (vlist v) = currentSize v"
  by (elim vec_okE)

lemma upSize_grow:
  assumes ok: "vec_ok v" and g: "can_grow resize v"
  shows "\<exists>v' ys. upSize resize d v = (True, v') \<and> vec_ok v' \<and> vlist v' = vlist v \<and> currentSize v' = currentSize v \<and>
    maxSize v' = maxSize v \<and> allocIncr v' = allocIncr v \<and> vdata v' = Some ys \<and> currentSize v < length ys"
proof -
  from ok obtain xs where xs: "vdata v = Some xs" "length xs = allocatedSize v" "currentSize v \<le> length xs"
    "vlist v = take (currentSize v) xs" "currentSize v < 2 ^ 32 - 1" by (elim vec_okE)
  have n: "u32 (currentSize v + 1) = currentSize v + 1" "u32 (allocatedSize v + allocIncr v) = allocatedSize v + allocIncr v"
    using xs(5) ok by (simp_all add: u32_small vec_ok_def)
  show ?thesis
  proof (cases "currentSize v + 1 > allocatedSize v")
    case False
    then have "upSize resize d v = (True, v)" using g n by (simp add: upSize_def Let_def can_grow_def)
    then show ?thesis using ok xs False by auto
  next
    case True
    define k where "k = min (maxSize v) (allocatedSize v + allocIncr v)"
    have k: "(if allocatedSize v + allocIncr v > maxSize v then maxSize v else allocatedSize v + allocIncr v) = k"
      "currentSize v < k" "allocatedSize v < k" using ok g True by (auto simp: k_def vec_ok_def can_grow_def)
    let ?v = "v\<lparr>vdata := Some (resize_block d k (vdata v)), allocatedSize := k\<rparr>"
    have "upSize resize d v = (True, ?v)"
      using True g n k by (simp add: upSize_def Let_def can_grow_def)
    moreover have "vec_ok ?v" using ok g k xs by (auto simp: vec_ok_def resize_block_def can_grow_def k_def)
    moreover have "vlist ?v = vlist v" using xs k by (simp add: vlist_def resize_block_def)
    ultimately show ?thesis using k xs by (auto simp: resize_block_def)
  qed
qed

text \<open>Inserting after a successful growth: the tail moves up by one and the gap is filled.\<close>

lemma insert_gap:
  assumes ok: "vec_ok v" and ys: "vdata v = Some ys" "currentSize v < length ys" and i: "i \<le> currentSize v"
  shows "\<exists>v1 v2. vmove (1 + i) i (currentSize v - i) v = Some v1 \<and> vwrite i x v1 = Some v2 \<and>
    currentSize v1 = currentSize v \<and> currentSize v2 = currentSize v \<and> maxSize v2 = maxSize v \<and> allocIncr v2 = allocIncr v \<and>
    vec_ok (v2\<lparr>currentSize := currentSize v + 1\<rparr>) \<and>
    vlist (v2\<lparr>currentSize := currentSize v + 1\<rparr>) = take i (vlist v) @ x # drop i (vlist v)"
proof -
  define n where "n = currentSize v - i"
  define zs where "zs = take (1 + i) ys @ take n (drop i ys) @ drop (1 + i + n) ys"
  have len: "length zs = length ys" using ys i by (simp add: zs_def n_def)
  have m: "vmove (1 + i) i n v = Some (v\<lparr>vdata := Some zs\<rparr>)"
  proof (cases "n = 0")
    case True
    then have "zs = ys" by (simp add: zs_def)
    then show ?thesis using True ys by (simp add: vmove_def)
  next
    case False
    then show ?thesis using ys i by (auto simp: vmove_def zs_def n_def)
  qed
  let ?v2 = "v\<lparr>vdata := Some (zs[i := x])\<rparr>"
  have w: "vwrite i x (v\<lparr>vdata := Some zs\<rparr>) = Some ?v2" using i ys len by (simp add: vwrite_def)
  have iy: "i < length ys" using i ys by simp
  have "zs[i := x] = take i ys @ x # (take n (drop i ys) @ drop (1 + i + n) ys)"
    unfolding zs_def using iy by (simp add: take_Suc_conv_app_nth list_update_append)
  moreover have "take (currentSize v + 1) (take i ys @ x # (take n (drop i ys) @ drop (1 + i + n) ys))
      = take i ys @ x # take n (drop i ys)"
  proof -
    have "currentSize v + 1 - i = Suc n" "i \<le> currentSize v + 1" using i by (simp_all add: n_def)
    then show ?thesis using i ys iy by (simp add: n_def)
  qed
  ultimately have "vlist (?v2\<lparr>currentSize := currentSize v + 1\<rparr>) = take i (vlist v) @ x # drop i (vlist v)"
    using i ys by (simp add: vlist_def n_def take_drop min_def)
  moreover have "vec_ok (?v2\<lparr>currentSize := currentSize v + 1\<rparr>)" using ok ys len by (auto simp: vec_ok_def)
  ultimately show ?thesis using m w by (simp add: n_def)
qed

lemma Append_grow:
  assumes "vec_ok v" "can_grow resize v"
  shows "\<exists>v'. Vector_Append resize d x v = Some (True, v') \<and> vec_ok v' \<and> maxSize v' = maxSize v \<and>
    allocIncr v' = allocIncr v \<and> vlist v' = vlist v @ [x]"
proof -
  obtain v1 ys where u: "upSize resize d v = (True, v1)" "vec_ok v1" "vlist v1 = vlist v" "currentSize v1 = currentSize v"
      "maxSize v1 = maxSize v" "allocIncr v1 = allocIncr v" "vdata v1 = Some ys" "currentSize v1 < length ys"
    using upSize_grow [OF assms, of d] by auto
  have n: "u32 (currentSize v1 + 1) = currentSize v1 + 1"
    by (rule vec_okE [OF u(2)]) (simp add: u32_small)
  show ?thesis using insert_gap [OF u(2,7,8) order_refl, of x] u n length_vlist [OF u(2)]
    by (auto simp: Vector_Append_def vmove_def)
qed

lemma InsertBefore_grow:
  assumes "vec_ok v" "can_grow resize v"
  shows "\<exists>v'. Vector_InsertBefore resize d i x v = Some (True, v') \<and> vec_ok v' \<and> maxSize v' = maxSize v \<and>
    vlist v' = take i (vlist v) @ x # drop i (vlist v)"
proof -
  define j where "j = (if i > currentSize v then currentSize v else i)"
  obtain v1 ys where u: "upSize resize d v = (True, v1)" "vec_ok v1" "vlist v1 = vlist v" "currentSize v1 = currentSize v"
      "maxSize v1 = maxSize v" "vdata v1 = Some ys" "currentSize v1 < length ys"
    using upSize_grow [OF assms, of d] by auto
  have n: "u32 (currentSize v1 + 1) = currentSize v1 + 1"
    by (rule vec_okE [OF u(2)]) (simp add: u32_small)
  have "j \<le> currentSize v1" using u(4) by (simp add: j_def)
  moreover have "take j (vlist v) = take i (vlist v)" "drop j (vlist v) = drop i (vlist v)"
    using length_vlist [OF assms(1)] by (simp_all add: j_def)
  ultimately show ?thesis using insert_gap [OF u(2,6,7), of j x] u n
    by (auto simp: Vector_InsertBefore_def j_def [symmetric] Let_def)
qed

lemma Prepend_grow:
  assumes "vec_ok v" "can_grow resize v"
  shows "\<exists>v'. Vector_Prepend resize d x v = Some (True, v') \<and> vec_ok v' \<and> maxSize v' = maxSize v \<and> vlist v' = x # vlist v"
proof -
  have "Vector_Prepend resize d x v = Vector_InsertBefore resize d 0 x v"
    by (auto simp: Vector_Prepend_def Vector_InsertBefore_def Let_def split: prod.splits bool.splits)
  then show ?thesis using InsertBefore_grow [OF assms, of d 0 x] by simp
qed

text \<open>\<open>InsertAfter\<close> is \<open>InsertBefore\<close> the next index, also in an empty array, where the index wraps around.\<close>

lemma InsertAfter_grow:
  assumes ok: "vec_ok v" and g: "can_grow resize v"
  shows "\<exists>v'. Vector_InsertAfter resize d i x v = Some (True, v') \<and> vec_ok v' \<and> maxSize v' = maxSize v \<and>
    vlist v' = take (i + 1) (vlist v) @ x # drop (i + 1) (vlist v)"
proof -
  define j where "j = (if i + 1 > currentSize v then currentSize v else i + 1)"
  define k where "k = (if i \<ge> currentSize v then sub32 (currentSize v) 1 else i)"
  have c: "currentSize v < 2 ^ 32 - 1" by (rule vec_okE [OF ok])
  have s1: "sub32 (currentSize v) (Suc 0) = (if currentSize v = 0 then 2 ^ 32 - 1 else currentSize v - 1)"
    using c by (cases "currentSize v") (auto simp: sub32_def)
  have k: "u32 (1 + k) = j" "u32 (k + 1) = j" "u32 (2 + k) = 1 + j"
    using c by (auto simp: k_def j_def u32_def s1)
  have kk: "sub32 (sub32 (currentSize v) k) 1 = currentSize v - j"
  proof (cases "i \<ge> currentSize v")
    case True
    then show ?thesis using c by (auto simp: k_def j_def s1) (auto simp: sub32_def)
  next
    case False
    then have "sub32 (currentSize v) i = currentSize v - i" "sub32 (currentSize v - i) 1 = currentSize v - i - 1"
      using c sub32_small [of i "currentSize v"] sub32_small [of 1 "currentSize v - i"] by auto
    then show ?thesis using False by (simp add: k_def j_def)
  qed
  obtain v1 ys where u: "upSize resize d v = (True, v1)" "vec_ok v1" "vlist v1 = vlist v" "currentSize v1 = currentSize v"
    using upSize_grow [OF assms, of d] by auto
  have "Vector_InsertAfter resize d i x v = Vector_InsertBefore resize d (i + 1) x v"
    unfolding Vector_InsertAfter_def Vector_InsertBefore_def k_def [symmetric] j_def [symmetric] Let_def
    using u k kk by simp
  then show ?thesis using InsertBefore_grow [OF assms, of d "i + 1" x] by simp
qed

lemma Set_list:
  assumes "vec_ok v" "i < length (vlist v)"
  shows "\<exists>v'. Vector_Set i x v = Some (True, v') \<and> vec_ok v' \<and> maxSize v' = maxSize v \<and>
    allocIncr v' = allocIncr v \<and> vlist v' = (vlist v)[i := x]"
  using assms(2)
  by (rule_tac vec_okE [OF assms(1)]) (use assms(1) in \<open>auto simp: Vector_Set_def vwrite_def vlist_def vec_ok_def take_update_swap\<close>)

lemma Get_list: "vec_ok v \<Longrightarrow> Vector_Get d i v = Some (if i < length (vlist v) then vlist v ! i else d)"
  by (erule vec_okE) (auto simp: Vector_Get_def vread_def)

lemma RemoveAt_list:
  assumes ok: "vec_ok v" and i: "i < length (vlist v)"
  shows "\<exists>v'. Vector_RemoveAt i v = Some (True, v') \<and> vec_ok v' \<and> maxSize v' = maxSize v \<and>
    vlist v' = take i (vlist v) @ drop (i + 1) (vlist v)"
proof -
  from ok obtain xs where xs: "vdata v = Some xs" "length xs = allocatedSize v" "currentSize v \<le> length xs"
    "vlist v = take (currentSize v) xs" "length (vlist v) = currentSize v" by (elim vec_okE)
  define n where "n = currentSize v - i - 1"
  define zs where "zs = take i xs @ take n (drop (i + 1) xs) @ drop (i + n) xs"
  have len: "length zs = length xs" using xs i by (simp add: zs_def n_def)
  have m: "vmove i (i + 1) n v = Some (v\<lparr>vdata := Some (if n = 0 then xs else zs)\<rparr>)"
    using xs i by (auto simp: vmove_def zs_def n_def)
  have "take (currentSize v - 1) (if n = 0 then xs else zs) = take i (vlist v) @ drop (i + 1) (vlist v)"
  proof (cases "n = 0")
    case True
    then have "currentSize v = i + 1" using i xs(5) by (simp add: n_def)
    then show ?thesis using True xs by simp
  next
    case False
    have "currentSize v - 1 = i + n" using i xs(5) by (simp add: n_def)
    then show ?thesis using False xs i by (simp add: zs_def n_def drop_take)
  qed
  moreover have "length (if n = 0 then xs else zs) = allocatedSize v" using len xs by simp
  ultimately show ?thesis using ok m i xs
    by (auto simp: Vector_RemoveAt_def n_def vec_ok_def vlist_def)
qed

lemma vread_list: "vec_ok v \<Longrightarrow> i < length (vlist v) \<Longrightarrow> vread i v = Some (vlist v ! i)"
  by (erule vec_okE) (auto simp: vread_def)

lemma RemoveOne_from_list:
  assumes "vec_ok v" "i \<le> length (vlist v)"
  shows "\<exists>v'. RemoveOne_from i x v = Some (x \<in> set (drop i (vlist v)), v') \<and> vec_ok v' \<and> maxSize v' = maxSize v \<and>
    vlist v' = take i (vlist v) @ remove1 x (drop i (vlist v))"
  using assms
proof (induction i x v rule: RemoveOne_from.induct)
  case (1 i x v)
  show ?case
  proof (cases "i < length (vlist v)")
    case False
    then show ?thesis using "1.prems" length_vlist [OF "1.prems"(1)] by (simp add: RemoveOne_from.simps)
  next
    case True
    have c: "i < currentSize v" using True length_vlist [OF "1.prems"(1)] by simp
    have r: "vread i v = Some (vlist v ! i)" by (rule vread_list [OF "1.prems"(1) True])
    have d: "drop i (vlist v) = vlist v ! i # drop (i + 1) (vlist v)" using True by (simp add: Cons_nth_drop_Suc)
    show ?thesis
    proof (cases "x = vlist v ! i")
      case True
      then show ?thesis using RemoveAt_list [OF "1.prems"(1) \<open>i < length (vlist v)\<close>] c r d
        by (auto simp: RemoveOne_from.simps [of i])
    next
      case False
      have "take (i + 1) (vlist v) = take i (vlist v) @ [vlist v ! i]" using True by (simp add: take_Suc_conv_app_nth)
      then show ?thesis using "1.IH" [OF c r False "1.prems"(1)] True False c r d
        by (simp add: RemoveOne_from.simps [of i])
    qed
  qed
qed

lemma RemoveAll_from_list:
  assumes "vec_ok v" "i \<le> length (vlist v)"
  shows "\<exists>v'. RemoveAll_from i res x v = Some (res + count_list (drop i (vlist v)) x, v') \<and> vec_ok v' \<and>
    maxSize v' = maxSize v \<and> vlist v' = take i (vlist v) @ removeAll x (drop i (vlist v))"
  using assms
proof (induction i res x v rule: RemoveAll_from.induct)
  case (1 i res x v)
  show ?case
  proof (cases "i < length (vlist v)")
    case False
    then show ?thesis using "1.prems" length_vlist [OF "1.prems"(1)] by (simp add: RemoveAll_from.simps)
  next
    case True
    have c: "i < currentSize v" using True length_vlist [OF "1.prems"(1)] by simp
    have r: "vread i v = Some (vlist v ! i)" by (rule vread_list [OF "1.prems"(1) True])
    have d: "drop i (vlist v) = vlist v ! i # drop (i + 1) (vlist v)" using True by (simp add: Cons_nth_drop_Suc)
    show ?thesis
    proof (cases "x = vlist v ! i")
      case True
      obtain v' where v': "Vector_RemoveAt i v = Some (True, v')" "vec_ok v'" "maxSize v' = maxSize v"
          "vlist v' = take i (vlist v) @ drop (i + 1) (vlist v)"
        using RemoveAt_list [OF "1.prems"(1) \<open>i < length (vlist v)\<close>] by blast
      have l: "i \<le> length (vlist v')" using v'(4) \<open>i < length (vlist v)\<close> by simp
      have e: "take i (vlist v') = take i (vlist v)" "drop i (vlist v') = drop (i + 1) (vlist v)"
        using v'(4) \<open>i < length (vlist v)\<close> by simp_all
      have step: "RemoveAll_from i res x v = RemoveAll_from i (res + 1) x v'"
        using True c r v'(1) by (subst RemoveAll_from.simps) simp
      show ?thesis using "1.IH"(1) [OF c r True v'(1) refl refl v'(2) l] True d v'(3) unfolding step e by simp
    next
      case False
      have "take (i + 1) (vlist v) = take i (vlist v) @ [vlist v ! i]" using True by (simp add: take_Suc_conv_app_nth)
      moreover have "RemoveAll_from i res x v = RemoveAll_from (i + 1) res x v"
        using False c r by (subst RemoveAll_from.simps) simp
      ultimately show ?thesis using "1.IH"(2) [OF c r False "1.prems"(1)] True False d by simp
    qed
  qed
qed

text \<open>
  A growth that the heap refuses: \<open>Heap::Resize\<close> returns null, and the pointer to the old block is gone.
\<close>

lemma failed_growth_loses_data:
  assumes "vec_ok v" "currentSize v = allocatedSize v" "currentSize v < maxSize v" "\<forall>n. \<not> resize n"
  shows "\<exists>v'. Vector_Append resize d x v = Some (False, v') \<and> vdata v' = None \<and> currentSize v' = currentSize v"
proof -
  have n: "u32 (currentSize v + 1) = currentSize v + 1" "u32 (allocatedSize v + allocIncr v) = allocatedSize v + allocIncr v"
    using assms(1) by (auto simp: vec_ok_def u32_small)
  show ?thesis using assms n by (simp add: Vector_Append_def upSize_def Let_def vec_ok_def)
qed

section \<open>Properties\<close>

text \<open>C17.
  The growing array is a list: on a well-formed array that can grow, insertion at the front, at the end and before
  or after an index (also past the end), replacement, and removal by index, of the first and of all occurrences
  do what the operation says to the list of elements, report success and keep the array well formed. (That it can grow
  means that its maximum is not reached and the heap gives the larger block; that the size of this block in bytes, the
  number of elements times their size, stays below \<open>2\<^sup>3\<^sup>2\<close> is assumed, since the model counts elements.)\<close>

theorem vector_refines_list:
  assumes "vec_ok v"
  shows "(can_grow resize v \<longrightarrow>
      (\<exists>v'. Vector_Append resize d x v = Some (True, v') \<and> vec_ok v' \<and> vlist v' = vlist v @ [x]) \<and>
      (\<exists>v'. Vector_Prepend resize d x v = Some (True, v') \<and> vec_ok v' \<and> vlist v' = x # vlist v) \<and>
      (\<exists>v'. Vector_InsertBefore resize d i x v = Some (True, v') \<and> vec_ok v' \<and>
         vlist v' = take i (vlist v) @ x # drop i (vlist v)) \<and>
      (\<exists>v'. Vector_InsertAfter resize d i x v = Some (True, v') \<and> vec_ok v' \<and>
         vlist v' = take (i + 1) (vlist v) @ x # drop (i + 1) (vlist v))) \<and>
    (i < length (vlist v) \<longrightarrow>
      (\<exists>v'. Vector_Set i x v = Some (True, v') \<and> vec_ok v' \<and> vlist v' = (vlist v)[i := x]) \<and>
      (\<exists>v'. Vector_RemoveAt i v = Some (True, v') \<and> vec_ok v' \<and> vlist v' = take i (vlist v) @ drop (i + 1) (vlist v))) \<and>
    Vector_Get d i v = Some (if i < length (vlist v) then vlist v ! i else d) \<and>
    (\<exists>v'. Vector_RemoveOne x v = Some (x \<in> set (vlist v), v') \<and> vec_ok v' \<and> vlist v' = remove1 x (vlist v)) \<and>
    (\<exists>v'. Vector_RemoveAll x v = Some (count_list (vlist v) x, v') \<and> vec_ok v' \<and> vlist v' = removeAll x (vlist v))"
proof (intro conjI impI)
  assume g: "can_grow resize v"
  show "\<exists>v'. Vector_Append resize d x v = Some (True, v') \<and> vec_ok v' \<and> vlist v' = vlist v @ [x]"
    using Append_grow [OF assms g] by blast
  show "\<exists>v'. Vector_Prepend resize d x v = Some (True, v') \<and> vec_ok v' \<and> vlist v' = x # vlist v"
    using Prepend_grow [OF assms g] by blast
  show "\<exists>v'. Vector_InsertBefore resize d i x v = Some (True, v') \<and> vec_ok v' \<and> vlist v' = take i (vlist v) @ x # drop i (vlist v)"
    using InsertBefore_grow [OF assms g] by blast
  show "\<exists>v'. Vector_InsertAfter resize d i x v = Some (True, v') \<and> vec_ok v' \<and>
      vlist v' = take (i + 1) (vlist v) @ x # drop (i + 1) (vlist v)"
    using InsertAfter_grow [OF assms g] by blast
next
  assume i: "i < length (vlist v)"
  show "\<exists>v'. Vector_Set i x v = Some (True, v') \<and> vec_ok v' \<and> vlist v' = (vlist v)[i := x]"
    using Set_list [OF assms i] by blast
  show "\<exists>v'. Vector_RemoveAt i v = Some (True, v') \<and> vec_ok v' \<and> vlist v' = take i (vlist v) @ drop (i + 1) (vlist v)"
    using RemoveAt_list [OF assms i] by blast
next
  show "Vector_Get d i v = Some (if i < length (vlist v) then vlist v ! i else d)" by (rule Get_list [OF assms])
  show "\<exists>v'. Vector_RemoveOne x v = Some (x \<in> set (vlist v), v') \<and> vec_ok v' \<and> vlist v' = remove1 x (vlist v)"
    using RemoveOne_from_list [OF assms, of 0 x] by (auto simp: Vector_RemoveOne_def)
  show "\<exists>v'. Vector_RemoveAll x v = Some (count_list (vlist v) x, v') \<and> vec_ok v' \<and> vlist v' = removeAll x (vlist v)"
    using RemoveAll_from_list [OF assms, of 0 0 x] by (auto simp: Vector_RemoveAll_def)
qed

lemma vec_ok_new: "0 < incr \<Longrightarrow> maxs + incr < 2 ^ 32 \<Longrightarrow> (\<And>k. resize k) \<Longrightarrow> vec_ok (Vector_new resize d n incr maxs)"
  by (simp add: vec_ok_def Vector_new_def Let_def)

lemma vlist_new [simp]: "vlist (Vector_new resize d n incr maxs) = []"
  by (simp add: vlist_def Vector_new_def Let_def split: option.split)

theorem vector_refines_list_witness:
  "\<exists>v'. Vector_Append (\<lambda>_. True) 0 (7 :: nat) (Vector_new (\<lambda>_. True) 0 0 8 1024) = Some (True, v') \<and> vlist v' = [7]"
proof -
  have "vec_ok (Vector_new (\<lambda>_. True) (0 :: nat) 0 8 1024)" by (rule vec_ok_new) simp_all
  moreover have "can_grow (\<lambda>_. True) (Vector_new (\<lambda>_. True) (0 :: nat) 0 8 1024)" by (simp add: can_grow_def Vector_new_def)
  ultimately show ?thesis using vector_refines_list [of "Vector_new (\<lambda>_. True) (0 :: nat) 0 8 1024" "\<lambda>_. True" 0 7] by auto
qed

end
