(* ===== verification/Handles.thy ===== *)
theory Handles
  imports Vec Sync "HOL-Library.Monad_Syntax"
begin

text \<open>
  The handle table of a process and the calls that work on it (\<open>kernel/process.cpp\<close>). A handle is a type tag and a
  pointer; the table is a \<open>vector\<close>. The lock of the process is recursive: \<open>lockDepth\<close> counts how often the calling
  thread holds it, and the argument \<open>c\<close> of an operation says whether \<open>Acquire\<close> succeeds in it. Files, threads and
  objects are known by their addresses; \<open>files\<close> and \<open>threads\<close> are those that exist. A null or wild access is \<open>None\<close>.
\<close>

section \<open>Handles\<close>

(* src/kernel/include/process.hpp:29-40 HandleType *)
datatype HandleType = HT_Free | HT_Unknown | HT_File | HT_Object | HT_Thread | HT_Process | HT_NamedObject | HT_Mutex | HT_Semaphore

(* src/kernel/include/process.hpp:27-52 Process::Handle *)
record handle =
  Type :: HandleType
  Ptr :: nat

(* src/kernel/process.cpp:877-881 Process::Handle::Handle *)
definition Handle_free :: handle where
  "Handle_free = \<lparr>Type = HT_Free, Ptr = 0\<rparr>"

(* src/kernel/process.cpp:883-887 Process::Handle::Handle, of nullptr *)
definition Handle_null :: handle where
  "Handle_null = \<lparr>Type = HT_Unknown, Ptr = 0\<rparr>"

(* src/kernel/process.cpp:889-893 Process::Handle::Handle, of a File *)
definition Handle_file :: "nat \<Rightarrow> handle" where
  "Handle_file p = \<lparr>Type = HT_File, Ptr = p\<rparr>"

(* src/kernel/process.cpp:895-899 Process::Handle::Handle, of an Item *)
definition Handle_object :: "nat \<Rightarrow> handle" where
  "Handle_object p = \<lparr>Type = HT_Object, Ptr = p\<rparr>"

(* src/kernel/process.cpp:901-905 Process::Handle::Handle, of a Thread *)
definition Handle_thread :: "nat \<Rightarrow> handle" where
  "Handle_thread p = \<lparr>Type = HT_Thread, Ptr = p\<rparr>"

(* src/kernel/process.cpp:907-911 Process::Handle::Handle, of a Process *)
definition Handle_process :: "nat \<Rightarrow> handle" where
  "Handle_process p = \<lparr>Type = HT_Process, Ptr = p\<rparr>"

(* src/kernel/process.cpp:913-917 Process::Handle::Handle, of a NamedObject *)
definition Handle_named :: "nat \<Rightarrow> handle" where
  "Handle_named p = \<lparr>Type = HT_NamedObject, Ptr = p\<rparr>"

(* src/kernel/process.cpp:179-186 Process::allocHandleSlot, loop *)
function find_free_from :: "nat \<Rightarrow> handle vector \<Rightarrow> nat option option" where
  "find_free_from i v =
     (if i < Vector_Size v then
        do { h \<leftarrow> Vector_Get Handle_free i v;
             if Type h = HT_Free then Some (Some i) else find_free_from (i + 1) v }
      else Some None)"
  by pat_completeness auto
termination by (relation "measure (\<lambda>(i, v). Vector_Size v - i)") auto

declare find_free_from.simps [simp del]

(* src/kernel/process.cpp:176-190 Process::allocHandleSlot *)
definition allocHandleSlot :: "(nat \<Rightarrow> bool) \<Rightarrow> handle \<Rightarrow> handle vector \<Rightarrow> (int \<times> handle vector) option" where
  "allocHandleSlot resize h v =
     do { free \<leftarrow> find_free_from 0 v;
          case free of
            Some i \<Rightarrow> do { (_, v') \<leftarrow> Vector_Set i h v; Some (int i, v') }
          | None \<Rightarrow> do { (ok, v') \<leftarrow> Vector_Append resize Handle_free h v;
                       Some (if ok then int (Vector_Size v) else - ENOMEM, v') } }"

(* src/kernel/process.cpp:192-198 Process::freeHandleSlot *)
definition freeHandleSlot :: "int \<Rightarrow> handle vector \<Rightarrow> handle vector option" where
  "freeHandleSlot i v =
     (if i < 0 \<or> i \<ge> int (Vector_Size v) then Some v
      else map_option snd (Vector_Set (nat i) Handle_free v))"

section \<open>The process\<close>

record proc =
  lockDepth :: nat
  Handles :: "handle vector"
  Errno :: int
  files :: "nat set"
  threads :: "nat set"
  sys :: kstate

(* src/kernel/process.cpp:394-400 Process::Lock *)
definition Process_Lock :: "bool \<Rightarrow> proc \<Rightarrow> bool \<times> proc" where
  "Process_Lock c p = (if c then (True, p\<lparr>lockDepth := lockDepth p + 1\<rparr>) else (False, p\<lparr>Errno := - EBUSY\<rparr>))"

(* src/kernel/process.cpp:402-405 Process::UnLock *)
definition Process_UnLock :: "proc \<Rightarrow> proc" where
  "Process_UnLock p = p\<lparr>lockDepth := lockDepth p - 1\<rparr>"

text \<open>Of the constructor: the lock, and the first three handles of the table.\<close>

(* src/kernel/process.cpp:380-382 Process::Process, the handles *)
definition Process_new :: "(nat \<Rightarrow> bool) \<Rightarrow> kstate \<Rightarrow> proc option" where
  "Process_new resize k =
     do { (_, v) \<leftarrow> Vector_Append resize Handle_free Handle_null (Vector_new resize Handle_free 8 8 1024);
          (_, v) \<leftarrow> Vector_Append resize Handle_free Handle_null v;
          (_, v) \<leftarrow> Vector_Append resize Handle_free Handle_null v;
          Some \<lparr>lockDepth = 0, Handles = v, Errno = 0, files = {}, threads = {}, sys = k\<rparr> }"

text \<open>\<open>opened\<close> is what \<open>File::Open\<close> gives: the address of a new file, or the error number it sets.\<close>

(* src/kernel/process.cpp:536-546 Process::Open *)
definition Process_Open :: "(nat \<Rightarrow> bool) \<Rightarrow> bool \<Rightarrow> bool \<Rightarrow> int + nat \<Rightarrow> proc \<Rightarrow> (int \<times> proc) option" where
  "Process_Open resize c has_name opened p =
     (if \<not> has_name then Some (- EINVAL, p)
      else case Process_Lock c p of
             (False, p) \<Rightarrow> Some (- Errno p, p)
           | (True, p) \<Rightarrow>
               (case opened of
                  Inl e \<Rightarrow> Some (- e, p\<lparr>Errno := e\<rparr>)
                | Inr f \<Rightarrow>
                    do { (res, v) \<leftarrow> allocHandleSlot resize (Handle_file f) (Handles p);
                         let p = p\<lparr>Handles := v, files := insert f (files p)\<rparr>;
                         let p = (if res < 0 then p\<lparr>files := files p - {f}\<rparr> else p);
                         Some (res, Process_UnLock p) }))"

(* src/kernel/process.cpp:548-557 Process::OpenObject *)
definition Process_OpenObject :: "(nat \<Rightarrow> bool) \<Rightarrow> bool \<Rightarrow> bool \<Rightarrow> nat option \<Rightarrow> proc \<Rightarrow> (int \<times> proc) option" where
  "Process_OpenObject resize c has_name obj p =
     (if \<not> has_name then Some (- EINVAL, p)
      else case Process_Lock c p of
             (False, p) \<Rightarrow> Some (- Errno p, p)
           | (True, p) \<Rightarrow>
               (case obj of
                  None \<Rightarrow> Some (- ENOENT, p)
                | Some x \<Rightarrow>
                    do { (res, v) \<leftarrow> allocHandleSlot resize (Handle_object x) (Handles p);
                         Some (res, Process_UnLock (p\<lparr>Handles := v\<rparr>)) }))"

text \<open>
  \<open>Finished\<close> are the semaphores that the threads signal, \<open>put\<close> the result of \<open>NamedObject::Put\<close>. A call that
  finalizes the calling thread is \<open>Blocked\<close> for ever: \<open>Finalize\<close> switches to another thread and never returns, so
  the thread object is not deleted and the lock stays taken.
\<close>

(* src/kernel/process.cpp:559-598 Process::Close *)
definition Process_Close :: "(nat \<Rightarrow> nat option) \<Rightarrow> int \<Rightarrow> bool \<Rightarrow> int \<Rightarrow> proc \<Rightarrow> (int outcome \<times> proc) option" where
  "Process_Close Finished put c i p =
     (case Process_Lock c p of
        (False, p) \<Rightarrow> Some (Done (- Errno p), p)
      | (True, p) \<Rightarrow>
          do { h \<leftarrow> Vector_Get Handle_free (nat (i mod 2 ^ 32)) (Handles p);
               v \<leftarrow> freeHandleSlot i (Handles p);
               let p = p\<lparr>Handles := v\<rparr>;
               case Type h of
                 HT_Object \<Rightarrow> Some (Done ESUCCESS, Process_UnLock p)
               | HT_File \<Rightarrow> Some (Done ESUCCESS, Process_UnLock (if Ptr h \<noteq> 0 then p\<lparr>files := files p - {Ptr h}\<rparr> else p))
               | HT_Thread \<Rightarrow>
                   (if Ptr h \<noteq> 0
                    then do { k \<leftarrow> Thread_Finalize (Some (Ptr h)) Finished (sys p);
                              if currentThread (sch (sys p)) = Some (Ptr h) then Some (Blocked, p\<lparr>sys := k\<rparr>)
                              else Some (Done ESUCCESS, Process_UnLock (p\<lparr>sys := k, threads := threads p - {Ptr h}\<rparr>)) }
                    else Some (Done ESUCCESS, Process_UnLock p))
               | HT_Process \<Rightarrow> Some (Done ESUCCESS, Process_UnLock p)
               | HT_NamedObject \<Rightarrow> Some (Done put, Process_UnLock p)
               | _ \<Rightarrow> Some (Done (- EBADF), Process_UnLock p) })"

(* src/kernel/process.cpp:600-612 Process::GetHandleData *)
definition GetHandleData :: "bool \<Rightarrow> int \<Rightarrow> HandleType \<Rightarrow> proc \<Rightarrow> (nat \<times> proc) option" where
  "GetHandleData c i ty p =
     (case Process_Lock c p of
        (False, p) \<Rightarrow> Some (0, p)
      | (True, p) \<Rightarrow>
          do { h \<leftarrow> Vector_Get Handle_free (nat (i mod 2 ^ 32)) (Handles p);
               if Type h \<noteq> ty then Some (0, Process_UnLock (p\<lparr>Errno := EBADF\<rparr>))
               else Some (Ptr h, Process_UnLock p) })"

section \<open>Threads, processes and objects by handle\<close>

text \<open>
  \<open>t\<close> is the address of the new thread and \<open>i\<close> its identifier. The block for the C library that \<open>SBrk\<close> reserves in
  user memory is left out.
\<close>

(* src/kernel/process.cpp:614-633 Process::NewThread *)
definition Process_NewThread :: "(nat \<Rightarrow> bool) \<Rightarrow> bool \<Rightarrow> nat \<Rightarrow> int \<Rightarrow> proc \<Rightarrow> (int \<times> proc) option" where
  "Process_NewThread resize c t i p =
     (case Process_Lock c p of
        (False, p) \<Rightarrow> Some (- Errno p, p)
      | (True, p) \<Rightarrow>
          let p = p\<lparr>sys := on_sched (upd t (\<lambda>_. Thread_new i)) (sys p), threads := insert t (threads p)\<rparr> in
          do { (res, v) \<leftarrow> allocHandleSlot resize (Handle_thread t) (Handles p);
               let p = p\<lparr>Handles := v\<rparr>;
               if res < 0 then Some (res, p\<lparr>threads := threads p - {t}\<rparr>)
               else Some (res, Process_UnLock (p\<lparr>sys := on_sched (Thread_Enable t) (sys p)\<rparr>)) })"

(* src/kernel/process.cpp:635-638 Process::DeleteThread *)
definition Process_DeleteThread :: "(nat \<Rightarrow> nat option) \<Rightarrow> int \<Rightarrow> bool \<Rightarrow> int \<Rightarrow> proc \<Rightarrow> (int outcome \<times> proc) option" where
  "Process_DeleteThread Finished put c i p = Process_Close Finished put c i p"

(* src/kernel/process.cpp:640-643 Process::GetThread *)
definition GetThread :: "bool \<Rightarrow> int \<Rightarrow> proc \<Rightarrow> (nat \<times> proc) option" where
  "GetThread c i p = GetHandleData c i HT_Thread p"

(* src/kernel/process.cpp:645-650 Process::ResumeThread *)
definition ResumeThread :: "bool \<Rightarrow> int \<Rightarrow> proc \<Rightarrow> (int \<times> proc) option" where
  "ResumeThread c i p =
     do { (t, p) \<leftarrow> GetThread c i p;
          if t = 0 then Some (- EINVAL, p)
          else case Thread_Resume t False (sch (sys p)) of
                 (b, s) \<Rightarrow> Some (if b then 0 else - EINVAL, p\<lparr>sys := (sys p)\<lparr>sch := s\<rparr>\<rparr>) }"

(* src/kernel/process.cpp:652-658 Process::SuspendThread *)
definition SuspendThread :: "bool \<Rightarrow> int \<Rightarrow> proc \<Rightarrow> (int \<times> proc) option" where
  "SuspendThread c i p =
     do { (t, p) \<leftarrow> GetThread c i p;
          if t = 0 then Some (- EINVAL, p)
          else Some (ESUCCESS, p\<lparr>sys := on_sched (Thread_Suspend t) (sys p)\<rparr>) }"

text \<open>The result of a sleep that switches away is the one of \<open>Thread::Sleep\<close>.\<close>

(* src/kernel/process.cpp:660-665 Process::SleepThread *)
definition SleepThread :: "nat \<Rightarrow> bool \<Rightarrow> int \<Rightarrow> int \<Rightarrow> proc \<Rightarrow> ((int + bool) \<times> proc) option" where
  "SleepThread f c i ms p =
     do { (t, p) \<leftarrow> GetThread c i p;
          if t = 0 then Some (Inl (- EINVAL), p)
          else case Thread_Sleep f t (nat (ms mod 2 ^ 32)) False (sch (sys p)) of
                 (r, s) \<Rightarrow> Some (case r of Inl left \<Rightarrow> Inl (i32 (int left)) | Inr b \<Rightarrow> Inr b, p\<lparr>sys := (sys p)\<lparr>sch := s\<rparr>\<rparr>) }"

text \<open>\<open>Finished\<close> is the semaphore that the thread signals at its end; a wait that blocks goes on in \<open>Semaphore_Wait_return\<close>.\<close>

(* src/kernel/process.cpp:667-673 Process::WaitThread *)
definition WaitThread :: "nat \<Rightarrow> (nat \<Rightarrow> nat) \<Rightarrow> bool \<Rightarrow> int \<Rightarrow> int \<Rightarrow> proc \<Rightarrow> (int outcome \<times> proc) option" where
  "WaitThread f Finished c i timeout p =
     do { (t, p) \<leftarrow> GetThread c i p;
          if t = 0 then Some (Done (- EINVAL), p)
          else case Semaphore_Wait f (Finished t) (if timeout < 0 then 0 else nat timeout) (timeout = 0) (sys p) of
                 (Done timeleft, k) \<Rightarrow> Some (Done (if timeleft \<ge> 0 then timeleft else - EBUSY), p\<lparr>sys := k\<rparr>)
               | (r, k) \<Rightarrow> Some (r, p\<lparr>sys := k\<rparr>) }"

(* src/kernel/process.cpp:675-681 Process::AbortThread *)
definition AbortThread :: "(nat \<Rightarrow> nat option) \<Rightarrow> bool \<Rightarrow> int \<Rightarrow> proc \<Rightarrow> (int outcome \<times> proc) option" where
  "AbortThread Finished c i p =
     do { (t, p) \<leftarrow> GetThread c i p;
          if t = 0 then Some (Done (- EINVAL), p)
          else do { k \<leftarrow> Thread_Finalize (Some t) Finished (sys p);
                    Some (if currentThread (sch (sys p)) = Some t then Blocked else Done ESUCCESS, p\<lparr>sys := k\<rparr>) } }"

(* src/kernel/process.cpp:710-713 Process::GetProcess *)
definition GetProcess :: "bool \<Rightarrow> int \<Rightarrow> proc \<Rightarrow> (nat \<times> proc) option" where
  "GetProcess c i p = GetHandleData c i HT_Process p"

(* src/kernel/process.cpp:731-739 Process::CreateNamedObjectHandle *)
definition CreateNamedObjectHandle :: "(nat \<Rightarrow> bool) \<Rightarrow> bool \<Rightarrow> nat \<Rightarrow> proc \<Rightarrow> (int \<times> proc) option" where
  "CreateNamedObjectHandle resize c no p =
     (case Process_Lock c p of
        (False, p) \<Rightarrow> Some (- Errno p, p)
      | (True, p) \<Rightarrow>
          do { (res, v) \<leftarrow> allocHandleSlot resize (Handle_named no) (Handles p);
               let p = p\<lparr>Handles := v\<rparr>;
               if res < 0 then Some (res, p) else Some (res, Process_UnLock p) })"

(* src/kernel/process.cpp:741-747 Process::GetNamedObject *)
definition GetNamedObject :: "bool \<Rightarrow> int \<Rightarrow> proc \<Rightarrow> (nat \<times> proc) option" where
  "GetNamedObject c i p =
     (case Process_Lock c p of
        (False, p) \<Rightarrow> Some (0, p)
      | (True, p) \<Rightarrow> do { (no, p) \<leftarrow> GetHandleData c i HT_NamedObject p; Some (no, Process_UnLock p) })"

section \<open>The table\<close>

definition table_ok :: "handle vector \<Rightarrow> bool" where
  "table_ok v \<longleftrightarrow> vec_ok v \<and> maxSize v = 1024 \<and> allocIncr v = 8"

lemma find_free_from_spec:
  assumes "vec_ok v" "i \<le> length (vlist v)"
  shows "find_free_from i v = Some (List.find (\<lambda>j. Type (vlist v ! j) = HT_Free) [i..<length (vlist v)])"
  using assms
proof (induction i v rule: find_free_from.induct)
  case (1 i v)
  show ?case
  proof (cases "i < length (vlist v)")
    case True
    then have "find_free_from i v = (if Type (vlist v ! i) = HT_Free then Some (Some i) else find_free_from (i + 1) v)"
      using Get_list [OF "1.prems"(1)] length_vlist [OF "1.prems"(1)]
      by (simp add: find_free_from.simps [of i] Vector_Size_def)
    moreover have "find_free_from (i + 1) v = Some (List.find (\<lambda>j. Type (vlist v ! j) = HT_Free) [i + 1..<length (vlist v)])"
      if "Type (vlist v ! i) \<noteq> HT_Free"
      using "1.IH" [of "vlist v ! i"] that True "1.prems" Get_list [OF "1.prems"(1)] length_vlist [OF "1.prems"(1)]
      by (simp add: Vector_Size_def)
    ultimately show ?thesis using True by (simp add: upt_conv_Cons)
  next
    case False
    then have n: "\<not> i < Vector_Size v" and e: "[i..<length (vlist v)] = []"
      using length_vlist [OF "1.prems"(1)] by (simp_all add: Vector_Size_def)
    show ?thesis unfolding e using n by (subst find_free_from.simps) simp
  qed
qed

text \<open>A new handle goes to the lowest free slot, else to the end, and is refused when all 1024 slots are taken.\<close>

lemma allocHandleSlot_spec:
  assumes ok: "table_ok v" and resize: "\<forall>n. resize n"
  shows "\<exists>r v'. allocHandleSlot resize h v = Some (r, v') \<and> table_ok v' \<and>
    (r = - ENOMEM \<and> v' = v \<and> length (vlist v) = 1024 \<and> (\<forall>x \<in> set (vlist v). Type x \<noteq> HT_Free) \<or>
     0 \<le> r \<and> nat r < length (vlist v) \<and> Type (vlist v ! nat r) = HT_Free \<and> (\<forall>j < nat r. Type (vlist v ! j) \<noteq> HT_Free) \<and>
       vlist v' = (vlist v)[nat r := h] \<or>
     0 \<le> r \<and> nat r = length (vlist v) \<and> (\<forall>x \<in> set (vlist v). Type x \<noteq> HT_Free) \<and> vlist v' = vlist v @ [h])"
proof -
  have vok: "vec_ok v" and m: "maxSize v = 1024" "allocIncr v = 8" using ok by (auto simp: table_ok_def)
  note f = find_free_from_spec [OF vok, of 0, simplified]
  show ?thesis
  proof (cases "List.find (\<lambda>j. Type (vlist v ! j) = HT_Free) [0..<length (vlist v)]")
    case (Some i)
    then have i: "i < length (vlist v)" "Type (vlist v ! i) = HT_Free" "\<forall>j < i. Type (vlist v ! j) \<noteq> HT_Free"
      by (auto simp: find_Some_iff)
    obtain v' where "Vector_Set i h v = Some (True, v')" "vec_ok v'" "maxSize v' = maxSize v" "allocIncr v' = allocIncr v"
        "vlist v' = (vlist v)[i := h]" using Set_list [OF vok i(1)] by blast
    then show ?thesis using Some i f m by (auto simp: allocHandleSlot_def table_ok_def)
  next
    case None
    then have none: "\<forall>x \<in> set (vlist v). Type x \<noteq> HT_Free" by (auto simp: find_None_iff in_set_conv_nth)
    show ?thesis
    proof (cases "currentSize v < 1024")
      case True
      have "can_grow resize v" using True m vok resize by (simp add: can_grow_def vec_ok_def)
      from Append_grow [OF vok this] obtain v' where "Vector_Append resize Handle_free h v = Some (True, v')" "vec_ok v'"
          "maxSize v' = maxSize v" "allocIncr v' = allocIncr v" "vlist v' = vlist v @ [h]" by blast
      then show ?thesis using None f m none length_vlist [OF vok] by (auto simp: allocHandleSlot_def table_ok_def Vector_Size_def)
    next
      case False
      then have c: "currentSize v = 1024" using vok m by (simp add: vec_ok_def)
      then have "Vector_Append resize Handle_free h v = Some (False, v)"
        using m by (simp add: Vector_Append_def upSize_def u32_def Let_def)
      then show ?thesis using None f ok none c length_vlist [OF vok] by (simp add: allocHandleSlot_def)
    qed
  qed
qed

lemma freeHandleSlot_spec:
  assumes ok: "table_ok v"
  shows "\<exists>v'. freeHandleSlot i v = Some v' \<and> table_ok v' \<and>
    vlist v' = (if 0 \<le> i \<and> nat i < length (vlist v) then (vlist v)[nat i := Handle_free] else vlist v)"
proof -
  have vok: "vec_ok v" using ok by (simp add: table_ok_def)
  show ?thesis
  proof (cases "0 \<le> i \<and> nat i < length (vlist v)")
    case True
    then have "\<not> (i < 0 \<or> i \<ge> int (Vector_Size v))" using length_vlist [OF vok] by (auto simp: Vector_Size_def)
    then show ?thesis using Set_list [OF vok, of "nat i" Handle_free] True ok by (auto simp: freeHandleSlot_def table_ok_def)
  next
    case False
    then have "i < 0 \<or> i \<ge> int (Vector_Size v)" using length_vlist [OF vok] by (auto simp: Vector_Size_def)
    then have "freeHandleSlot i v = Some v" by (simp add: freeHandleSlot_def)
    then show ?thesis using ok unfolding if_not_P [OF False] by blast
  qed
qed

section \<open>Handles and the objects they stand for\<close>

text \<open>No two handles of type \<open>ty\<close> point to the same object.\<close>

definition unshared :: "HandleType \<Rightarrow> handle list \<Rightarrow> bool" where
  "unshared ty hs \<longleftrightarrow> (\<forall>i j. i < length hs \<longrightarrow> j < length hs \<longrightarrow> i \<noteq> j \<longrightarrow> Type (hs ! i) = ty \<longrightarrow> Type (hs ! j) = ty \<longrightarrow>
     Ptr (hs ! i) \<noteq> Ptr (hs ! j))"

definition handles_ok :: "proc \<Rightarrow> bool" where
  "handles_ok p \<longleftrightarrow> table_ok (Handles p) \<and> 0 \<notin> files p \<union> threads p \<and>
     (\<forall>h \<in> set (vlist (Handles p)). (Type h = HT_File \<longrightarrow> Ptr h \<in> files p) \<and> (Type h = HT_Thread \<longrightarrow> Ptr h \<in> threads p)) \<and>
     unshared HT_File (vlist (Handles p)) \<and> unshared HT_Thread (vlist (Handles p))"

lemma unshared_put:
  assumes "unshared ty hs" "\<And>x. Type h = ty \<Longrightarrow> x \<in> set hs \<Longrightarrow> Type x = ty \<Longrightarrow> Ptr x \<noteq> Ptr h"
  shows "unshared ty (hs[i := h])" "unshared ty (hs @ [h])"
proof -
  have fresh: "Type h = ty \<Longrightarrow> j < length hs \<Longrightarrow> Type (hs ! j) = ty \<Longrightarrow> Ptr (hs ! j) \<noteq> Ptr h" for j
    using assms(2) nth_mem by blast
  have old: "a < length hs \<Longrightarrow> b < length hs \<Longrightarrow> a \<noteq> b \<Longrightarrow> Type (hs ! a) = ty \<Longrightarrow> Type (hs ! b) = ty \<Longrightarrow>
      Ptr (hs ! a) \<noteq> Ptr (hs ! b)" for a b using assms(1) by (simp add: unshared_def)
  show "unshared ty (hs @ [h])" unfolding unshared_def
  proof (intro allI impI)
    fix a b assume "a < length (hs @ [h])" "b < length (hs @ [h])" "a \<noteq> b" "Type ((hs @ [h]) ! a) = ty" "Type ((hs @ [h]) ! b) = ty"
    then show "Ptr ((hs @ [h]) ! a) \<noteq> Ptr ((hs @ [h]) ! b)"
      using old [of a b] fresh [of a] fresh [of b]
      by (cases "a < length hs"; cases "b < length hs") (auto simp: nth_append less_Suc_eq)
  qed
  show "unshared ty (hs[i := h])" unfolding unshared_def
  proof (intro allI impI)
    fix a b assume "a < length (hs[i := h])" "b < length (hs[i := h])" "a \<noteq> b" "Type (hs[i := h] ! a) = ty" "Type (hs[i := h] ! b) = ty"
    then show "Ptr (hs[i := h] ! a) \<noteq> Ptr (hs[i := h] ! b)"
      using old [of a b] fresh [of a] fresh [of b]
      by (cases "a = i"; cases "b = i") (auto simp: nth_list_update_neq)
  qed
qed

lemma handles_ok_put:
  assumes ok: "handles_ok p" and v: "table_ok v"
    and h: "Type h = HT_File \<Longrightarrow> Ptr h \<in> fs - files p" "Type h = HT_Thread \<Longrightarrow> Ptr h \<in> ts - threads p"
    and new: "files p \<subseteq> fs" "threads p \<subseteq> ts" "0 \<notin> fs \<union> ts"
    and l: "vlist v = (vlist (Handles p))[i := h] \<or> vlist v = vlist (Handles p) @ [h]"
    and p': "Handles p' = v" "files p' = fs" "threads p' = ts"
  shows "handles_ok p'"
proof -
  have "unshared ty (vlist v)" if "ty = HT_File \<or> ty = HT_Thread" for ty
  proof -
    have "Ptr x \<noteq> Ptr h" if "Type h = ty" "x \<in> set (vlist (Handles p))" "Type x = ty" for x
      using ok h that \<open>ty = HT_File \<or> ty = HT_Thread\<close> by (auto simp: handles_ok_def)
    moreover have "unshared ty (vlist (Handles p))" using ok that by (auto simp: handles_ok_def)
    ultimately show ?thesis using l unshared_put [of ty "vlist (Handles p)" h] by auto
  qed
  moreover have "set (vlist v) \<subseteq> insert h (set (vlist (Handles p)))" using l set_update_subset_insert by force
  moreover have "\<forall>x \<in> set (vlist v). (Type x = HT_File \<longrightarrow> Ptr x \<in> fs) \<and> (Type x = HT_Thread \<longrightarrow> Ptr x \<in> ts)"
  proof
    fix x assume "x \<in> set (vlist v)"
    then consider "x = h" | "x \<in> set (vlist (Handles p))" using calculation(2) by blast
    then show "(Type x = HT_File \<longrightarrow> Ptr x \<in> fs) \<and> (Type x = HT_Thread \<longrightarrow> Ptr x \<in> ts)"
      using ok h new by cases (auto simp: handles_ok_def)
  qed
  ultimately show ?thesis using v new(3) by (simp add: handles_ok_def p')
qed

lemma handles_ok_cong:
  assumes "handles_ok p" "Handles p' = Handles p" "files p' = files p" "threads p' = threads p"
  shows "handles_ok p'"
  using assms by (simp add: handles_ok_def)

lemma handles_ok_alloc:
  assumes ok: "handles_ok p" and resize: "\<forall>n. resize n" and a: "allocHandleSlot resize h (Handles p) = Some (r, v)"
    and h: "Type h = HT_File \<Longrightarrow> Ptr h \<in> fs - files p" "Type h = HT_Thread \<Longrightarrow> Ptr h \<in> ts - threads p"
    and new: "files p \<subseteq> fs" "threads p \<subseteq> ts" "0 \<notin> fs \<union> ts"
  shows "r < 0 \<and> v = Handles p \<or>
    0 \<le> r \<and> (\<forall>p'. Handles p' = v \<longrightarrow> files p' = fs \<longrightarrow> threads p' = ts \<longrightarrow> handles_ok p')"
proof -
  have t: "table_ok (Handles p)" using ok by (simp add: handles_ok_def)
  from allocHandleSlot_spec [OF t resize, of h] a
  have v: "table_ok v" and c: "r = - ENOMEM \<and> v = Handles p \<or> 0 \<le> r \<and> vlist v = (vlist (Handles p))[nat r := h] \<or>
      0 \<le> r \<and> vlist v = vlist (Handles p) @ [h]" by auto
  show ?thesis using c handles_ok_put [OF ok v h new] by auto
qed

lemma handles_ok_free:
  assumes ok: "handles_ok p" and v: "freeHandleSlot i (Handles p) = Some v"
    and g: "Vector_Get Handle_free (nat (i mod 2 ^ 32)) (Handles p) = Some h" and i: "- (2 ^ 31) \<le> i" "i < 2 ^ 31"
    and fs: "fs = (if Type h = HT_File then files p - {Ptr h} else files p)"
    and ts: "ts = (if Type h = HT_Thread then threads p - {Ptr h} else threads p) \<or> ts = threads p"
    and p': "Handles p' = v" "files p' = fs" "threads p' = ts"
  shows "handles_ok p'"
proof -
  let ?hs = "vlist (Handles p)"
  have t: "table_ok (Handles p)" and vok: "vec_ok (Handles p)" using ok by (auto simp: handles_ok_def table_ok_def)
  have len: "length ?hs \<le> 1024" using vok t length_vlist [OF vok] by (simp add: vec_ok_def table_ok_def)
  have hs: "h = (if 0 \<le> i \<and> nat i < length ?hs then ?hs ! nat i else Handle_free)"
  proof (cases "0 \<le> i")
    case True
    then have "i mod 2 ^ 32 = i" using i by simp
    then show ?thesis using g Get_list [OF vok, of Handle_free "nat i"] True by auto
  next
    case False
    have "i mod 2 ^ 32 = (i + 2 ^ 32) mod 2 ^ 32" by simp
    also have "\<dots> = i + 2 ^ 32" using False i by (intro mod_pos_pos_trivial) auto
    finally have "i mod 2 ^ 32 = i + 2 ^ 32" .
    then show ?thesis using g Get_list [OF vok, of Handle_free "nat (i + 2 ^ 32)"] False i len by auto
  qed
  obtain v' where v': "table_ok v" "vlist v = (if 0 \<le> i \<and> nat i < length ?hs then ?hs[nat i := Handle_free] else ?hs)"
    using freeHandleSlot_spec [OF t, of i] v by auto
  have u: "unshared HT_File (vlist v)" "unshared HT_Thread (vlist v)"
    using ok v'(2) unshared_put(1) [of _ ?hs Handle_free] by (auto simp: handles_ok_def Handle_free_def)
  have "(Type x = HT_File \<longrightarrow> Ptr x \<in> fs) \<and> (Type x = HT_Thread \<longrightarrow> Ptr x \<in> ts)" if "x \<in> set (vlist v)" for x
  proof (cases "0 \<le> i \<and> nat i < length ?hs")
    case False
    have "h = Handle_free" "vlist v = ?hs" using hs [unfolded if_not_P [OF False]] v'(2) [unfolded if_not_P [OF False]] by simp_all
    then show ?thesis using that ok fs ts by (simp add: handles_ok_def Handle_free_def)
  next
    case True
    from that obtain j where j: "j < length ?hs" "x = (if j = nat i then Handle_free else ?hs ! j)"
      using v'(2) True by (auto simp: in_set_conv_nth)
    have h: "h = ?hs ! nat i" using hs True by simp
    have conf: "Type (?hs ! j) = HT_File \<Longrightarrow> Ptr (?hs ! j) \<in> files p" "Type (?hs ! j) = HT_Thread \<Longrightarrow> Ptr (?hs ! j) \<in> threads p"
      using ok j(1) nth_mem [of j ?hs] by (auto simp: handles_ok_def)
    have "j \<noteq> nat i \<Longrightarrow> Type (?hs ! j) = ty \<Longrightarrow> Type h = ty \<Longrightarrow> ty = HT_File \<or> ty = HT_Thread \<Longrightarrow> Ptr (?hs ! j) \<noteq> Ptr h" for ty
      using ok j(1) True unfolding h by (auto simp: handles_ok_def unshared_def)
    then show ?thesis using j(2) conf fs ts by (auto simp: Handle_free_def)
  qed
  moreover have "0 \<notin> fs \<union> ts" using ok fs ts by (auto simp: handles_ok_def split: if_splits)
  ultimately show ?thesis using u v'(1) by (auto simp: handles_ok_def p')
qed

lemmas lock_simps = Process_Lock_def Process_UnLock_def

lemma Process_Open_ok:
  assumes "handles_ok p" "\<forall>n. resize n" "Process_Open resize c nm opened p = Some (r, p')"
    "\<And>f. opened = Inr f \<Longrightarrow> f \<notin> files p \<and> f \<noteq> 0"
  shows "handles_ok p'"
proof (cases "c \<and> nm \<and> (\<exists>f. opened = Inr f)")
  case False
  then show ?thesis using assms
    by (auto simp: Process_Open_def lock_simps split: if_splits sum.splits elim!: handles_ok_cong)
next
  case True
  then obtain f where f: "opened = Inr f" "f \<notin> files p" "f \<noteq> 0" using assms(4) by auto
  obtain res v where a: "allocHandleSlot resize (Handle_file f) (Handles p) = Some (res, v)"
    using assms(3) True f by (auto simp: Process_Open_def lock_simps split: bind_splits)
  have "0 \<notin> insert f (files p) \<union> threads p" using assms(1) f by (auto simp: handles_ok_def)
  with handles_ok_alloc [OF assms(1,2) a, of "insert f (files p)" "threads p"] f
  have "res < 0 \<and> v = Handles p \<or>
      0 \<le> res \<and> (\<forall>p'. Handles p' = v \<longrightarrow> files p' = insert f (files p) \<longrightarrow> threads p' = threads p \<longrightarrow> handles_ok p')"
    by (auto simp: Handle_file_def)
  then show ?thesis using assms(3) True f a
    by (auto simp: Process_Open_def lock_simps Let_def intro: handles_ok_cong [OF assms(1)])
qed

lemma Process_OpenObject_ok:
  assumes "handles_ok p" "\<forall>n. resize n" "Process_OpenObject resize c nm obj p = Some (r, p')"
  shows "handles_ok p'"
proof (cases "c \<and> nm \<and> obj \<noteq> None")
  case False
  then show ?thesis using assms
    by (auto simp: Process_OpenObject_def lock_simps split: if_splits option.splits elim!: handles_ok_cong)
next
  case True
  then obtain x where x: "obj = Some x" by auto
  obtain res v where a: "allocHandleSlot resize (Handle_object x) (Handles p) = Some (res, v)"
    using assms(3) True x by (auto simp: Process_OpenObject_def lock_simps split: bind_splits)
  have "0 \<notin> files p \<union> threads p" using assms(1) by (auto simp: handles_ok_def)
  from handles_ok_alloc [OF assms(1,2) a _ _ order_refl order_refl this]
  show ?thesis using assms(3) True x a
    by (auto simp: Process_OpenObject_def lock_simps Handle_object_def intro: handles_ok_cong [OF assms(1)])
qed

lemma CreateNamedObjectHandle_ok:
  assumes "handles_ok p" "\<forall>n. resize n" "CreateNamedObjectHandle resize c no p = Some (r, p')"
  shows "handles_ok p'"
proof (cases c)
  case False
  then show ?thesis using assms by (auto simp: CreateNamedObjectHandle_def lock_simps elim!: handles_ok_cong)
next
  case True
  obtain res v where a: "allocHandleSlot resize (Handle_named no) (Handles p) = Some (res, v)"
    using assms(3) True by (auto simp: CreateNamedObjectHandle_def lock_simps split: bind_splits)
  have "0 \<notin> files p \<union> threads p" using assms(1) by (auto simp: handles_ok_def)
  from handles_ok_alloc [OF assms(1,2) a _ _ order_refl order_refl this]
  show ?thesis using assms(3) True a
    by (auto simp: CreateNamedObjectHandle_def lock_simps Handle_named_def Let_def intro: handles_ok_cong [OF assms(1)] split: if_splits)
qed

lemma Process_NewThread_ok:
  assumes "handles_ok p" "\<forall>n. resize n" "Process_NewThread resize c t i p = Some (r, p')" "t \<notin> threads p" "t \<noteq> 0"
  shows "handles_ok p'"
proof (cases c)
  case False
  then show ?thesis using assms by (auto simp: Process_NewThread_def lock_simps elim!: handles_ok_cong)
next
  case True
  obtain res v where a: "allocHandleSlot resize (Handle_thread t) (Handles p) = Some (res, v)"
    using assms(3) True by (auto simp: Process_NewThread_def lock_simps Let_def split: bind_splits)
  have "0 \<notin> files p \<union> insert t (threads p)" using assms(1,5) by (auto simp: handles_ok_def)
  with handles_ok_alloc [OF assms(1,2) a, of "files p" "insert t (threads p)"] assms(4)
  have "res < 0 \<and> v = Handles p \<or>
      0 \<le> res \<and> (\<forall>p'. Handles p' = v \<longrightarrow> files p' = files p \<longrightarrow> threads p' = insert t (threads p) \<longrightarrow> handles_ok p')"
    by (auto simp: Handle_thread_def)
  then show ?thesis using assms(3,4) True a
    by (auto simp: Process_NewThread_def lock_simps Let_def intro: handles_ok_cong [OF assms(1)] split: if_splits)
qed

lemma Process_Close_ok:
  assumes "handles_ok p" "Process_Close Finished put c i p = Some (r, p')" "- (2 ^ 31) \<le> i" "i < 2 ^ 31"
  shows "handles_ok p'"
proof (cases c)
  case False
  then show ?thesis using assms by (auto simp: Process_Close_def lock_simps elim!: handles_ok_cong)
next
  case True
  let ?p = "p\<lparr>lockDepth := lockDepth p + 1\<rparr>"
  obtain h v where g: "Vector_Get Handle_free (nat (i mod 2 ^ 32)) (Handles p) = Some h" "freeHandleSlot i (Handles p) = Some v"
    using assms(2) True by (auto simp: Process_Close_def lock_simps split: bind_splits)
  have nz: "Ptr h \<noteq> 0" if "Type h = HT_File \<or> Type h = HT_Thread"
  proof -
    have vok: "vec_ok (Handles p)" using assms(1) by (simp add: handles_ok_def table_ok_def)
    have "h = Handle_free \<or> h \<in> set (vlist (Handles p))" using g(1) Get_list [OF vok] by (auto split: if_splits)
    then have "Ptr h \<in> files p \<union> threads p" using assms(1) that by (auto simp: handles_ok_def Handle_free_def)
    then show ?thesis using assms(1) by (cases "Ptr h = 0") (auto simp: handles_ok_def)
  qed
  have "Handles p' = v \<and> files p' = (if Type h = HT_File then files p - {Ptr h} else files p) \<and>
      (threads p' = (if Type h = HT_Thread then threads p - {Ptr h} else threads p) \<or> threads p' = threads p)"
    using assms(2) True g nz
    by (cases "Type h") (auto simp: Process_Close_def lock_simps Let_def split: bind_splits if_splits)
  then show ?thesis using handles_ok_free [OF assms(1) g(2,1) assms(3,4) refl, of "threads p'" p'] by simp
qed

lemma GetHandleData_ok:
  assumes "handles_ok p" "GetHandleData c i ty p = Some (x, p')"
  shows "handles_ok p'" and "sys p' = sys p"
  using assms by (auto simp: GetHandleData_def lock_simps elim!: handles_ok_cong split: bind_splits if_splits)

lemma GetHandleData_pointer:
  assumes "handles_ok p" "GetHandleData c i ty p = Some (x, p')" "x \<noteq> 0" "ty \<noteq> HT_Free"
  shows "\<exists>h \<in> set (vlist (Handles p)). Type h = ty \<and> Ptr h = x"
proof -
  have vok: "vec_ok (Handles p)" using assms(1) by (simp add: handles_ok_def table_ok_def)
  show ?thesis using assms(2,3,4) Get_list [OF vok]
    by (auto simp: GetHandleData_def lock_simps Handle_free_def split: bind_splits if_splits intro: nth_mem)
qed

text \<open>
  The calls on files, objects and threads that make, use and end handles, in any order: opening, named objects, new
  threads, closing, and resuming, suspending, putting to sleep, waiting for and aborting a thread. The addresses of new
  files and threads are new. The heap grants every growth of the table: a refused one leaves the table without its
  data (\<open>failed_growth_loses_data\<close> of \<open>Vec\<close>), and the next look-up faults. Handles of processes are not made here.
\<close>

inductive handle_step :: "(nat \<Rightarrow> nat option) \<Rightarrow> proc \<Rightarrow> proc \<Rightarrow> bool" for Finished where
  h_open: "Process_Open (\<lambda>_. True) c nm opened p = Some (r, p') \<Longrightarrow> (\<And>f. opened = Inr f \<Longrightarrow> f \<notin> files p \<and> f \<noteq> 0) \<Longrightarrow>
    handle_step Finished p p'"
| h_object: "Process_OpenObject (\<lambda>_. True) c nm obj p = Some (r, p') \<Longrightarrow> handle_step Finished p p'"
| h_named: "CreateNamedObjectHandle (\<lambda>_. True) c no p = Some (r, p') \<Longrightarrow> handle_step Finished p p'"
| h_thread: "Process_NewThread (\<lambda>_. True) c t n p = Some (r, p') \<Longrightarrow> t \<notin> threads p \<Longrightarrow> t \<noteq> 0 \<Longrightarrow> handle_step Finished p p'"
| h_close: "Process_Close Finished put c i p = Some (r, p') \<Longrightarrow> - (2 ^ 31) \<le> i \<Longrightarrow> i < 2 ^ 31 \<Longrightarrow> handle_step Finished p p'"
| h_resume: "ResumeThread c i p = Some (r, p') \<Longrightarrow> handle_step Finished p p'"
| h_suspend: "SuspendThread c i p = Some (r, p') \<Longrightarrow> handle_step Finished p p'"
| h_sleep: "SleepThread f c i ms p = Some (o', p') \<Longrightarrow> handle_step Finished p p'"
| h_wait: "WaitThread f F c i ms p = Some (o'', p') \<Longrightarrow> handle_step Finished p p'"
| h_abort: "AbortThread Finished c i p = Some (r, p') \<Longrightarrow> handle_step Finished p p'"

lemma thread_call_ok:
  assumes "handles_ok p" "GetThread c i p = Some (t, p1)" "Handles p' = Handles p1" "files p' = files p1" "threads p' = threads p1"
  shows "handles_ok p'"
  using assms GetHandleData_ok(1) [of p c i HT_Thread t p1] by (auto simp: GetThread_def elim: handles_ok_cong)

lemma handle_step_ok: "handle_step Finished p p' \<Longrightarrow> handles_ok p \<Longrightarrow> handles_ok p'"
proof (induction rule: handle_step.induct)
  case (h_resume c i p r p')
  then show ?case by (auto simp: ResumeThread_def split: bind_splits if_splits prod.splits elim!: thread_call_ok)
next
  case (h_suspend c i p r p')
  then show ?case by (auto simp: SuspendThread_def split: bind_splits if_splits prod.splits elim!: thread_call_ok)
next
  case (h_sleep f c i ms p r p')
  then show ?case by (auto simp: SleepThread_def split: bind_splits if_splits prod.splits elim!: thread_call_ok)
next
  case (h_wait f F c i ms p r p')
  then show ?case
    by (auto simp: WaitThread_def split: bind_splits if_splits prod.splits outcome.splits elim!: thread_call_ok)
next
  case (h_abort c i p r p')
  then show ?case by (auto simp: AbortThread_def split: bind_splits if_splits prod.splits elim!: thread_call_ok)
next
  case (h_open c nm opened p r p')
  then show ?case using Process_Open_ok [of p "\<lambda>_. True" c nm opened r p'] by simp
next
  case (h_object c nm obj p r p')
  then show ?case using Process_OpenObject_ok [of p "\<lambda>_. True" c nm obj r p'] by simp
next
  case (h_named c no p r p')
  then show ?case using CreateNamedObjectHandle_ok [of p "\<lambda>_. True" c no r p'] by simp
next
  case (h_thread c t n p r p')
  then show ?case using Process_NewThread_ok [of p "\<lambda>_. True" c t n r p'] by simp
next
  case (h_close put c i p r p')
  then show ?case using Process_Close_ok [of p Finished put c i r p'] by simp
qed

lemma handle_steps_ok: "(handle_step Finished)\<^sup>*\<^sup>* p p' \<Longrightarrow> handles_ok p \<Longrightarrow> handles_ok p'"
  by (induction rule: rtranclp_induct) (auto dest: handle_step_ok)

lemma Process_new_ok: "\<exists>p. Process_new (\<lambda>_. True) k = Some p \<and> handles_ok p \<and> vlist (Handles p) = [Handle_null, Handle_null, Handle_null] \<and> lockDepth p = 0"
proof -
  let ?r = "\<lambda>_::nat. True"
  have grow: "\<exists>v'. Vector_Append ?r Handle_free Handle_null v = Some (True, v') \<and> table_ok v' \<and> vlist v' = vlist v @ [Handle_null]"
    if "table_ok v" "length (vlist v) < 1024" for v
  proof -
    have "vec_ok v" "can_grow ?r v" using that length_vlist [of v] by (auto simp: table_ok_def can_grow_def vec_ok_def)
    from Append_grow [OF this, of Handle_free Handle_null] that show ?thesis by (auto simp: table_ok_def)
  qed
  let ?v0 = "Vector_new ?r Handle_free 8 8 1024"
  have t0: "table_ok ?v0" using vec_ok_new [of 8 1024 ?r Handle_free 8] by (simp add: table_ok_def Vector_new_def Let_def)
  obtain v1 where v1: "Vector_Append ?r Handle_free Handle_null ?v0 = Some (True, v1)" "table_ok v1" "vlist v1 = [Handle_null]"
    using grow [OF t0] by auto
  obtain v2 where v2: "Vector_Append ?r Handle_free Handle_null v1 = Some (True, v2)" "table_ok v2" "vlist v2 = [Handle_null, Handle_null]"
    using grow [OF v1(2)] v1(3) by auto
  obtain v3 where v3: "Vector_Append ?r Handle_free Handle_null v2 = Some (True, v3)" "table_ok v3"
      "vlist v3 = [Handle_null, Handle_null, Handle_null]"
    using grow [OF v2(2)] v2(3) by auto
  show ?thesis using v1(1) v2(1) v3
    by (auto simp: Process_new_def handles_ok_def unshared_def Handle_null_def nth_Cons split: nat.splits)
qed

lemma GetHandleData_returns:
  assumes "handles_ok p" shows "\<exists>x q. GetHandleData c i ty p = Some (x, q)"
  using Get_list [of "Handles p"] assms by (auto simp: GetHandleData_def lock_simps handles_ok_def table_ok_def)

section \<open>Properties\<close>

text \<open>C11.
  Handles are type safe, as long as the heap grants every growth of the handle table: after any sequence of calls of a
  new process that open files and objects, create threads and named object handles, resume, suspend, put to sleep,
  wait for and abort threads by handle, and close handles, a handle that is looked up as a thread or as a file gives
  an object of that kind that still exists, or null; no look-up faults, whatever number the user program passes.
  (When the heap refuses a growth, the table loses its data and the next look-up faults: \<open>failed_growth_loses_data\<close>
  of \<open>Vec\<close>. Calls that make handles of processes are not among the steps.)\<close>

theorem handles_never_dangle:
  assumes "Process_new (\<lambda>_. True) k = Some p" "(handle_step Finished)\<^sup>*\<^sup>* p p'"
  shows "\<exists>t q f q'. GetThread c i p' = Some (t, q) \<and> (t = 0 \<or> t \<in> threads p') \<and>
    GetHandleData c i HT_File p' = Some (f, q') \<and> (f = 0 \<or> f \<in> files p')"
proof -
  have ok: "handles_ok p'" using handle_steps_ok [OF assms(2)] Process_new_ok [of k] assms(1) by auto
  obtain t q where t: "GetHandleData c i HT_Thread p' = Some (t, q)" using GetHandleData_returns [OF ok] by blast
  obtain f q' where f: "GetHandleData c i HT_File p' = Some (f, q')" using GetHandleData_returns [OF ok] by blast
  have "t = 0 \<or> t \<in> threads p'" using GetHandleData_pointer [OF ok t] ok by (auto simp: handles_ok_def)
  moreover have "f = 0 \<or> f \<in> files p'" using GetHandleData_pointer [OF ok f] ok by (auto simp: handles_ok_def)
  ultimately show ?thesis using t f by (auto simp: GetThread_def)
qed

theorem handles_never_dangle_witness:
  "\<exists>p p1 t q. Process_new (\<lambda>_. True) k_two = Some p \<and> Process_NewThread (\<lambda>_. True) True 5 9 p = Some (3, p1) \<and>
     GetThread True 3 p1 = Some (t, q) \<and> (t = 0 \<or> t \<in> threads p1)"
proof -
  obtain p where p: "Process_new (\<lambda>_. True) k_two = Some p" "handles_ok p"
      "vlist (Handles p) = [Handle_null, Handle_null, Handle_null]" "lockDepth p = 0" using Process_new_ok by blast
  have t: "table_ok (Handles p)" using p(2) by (simp add: handles_ok_def)
  have free: "Type (vlist (Handles p) ! i) = HT_Unknown" if "i < 3" for i
    using nth_mem [of i "vlist (Handles p)"] that p(3) by (auto simp: Handle_null_def)
  obtain r v where r: "allocHandleSlot (\<lambda>_. True) (Handle_thread 5) (Handles p) = Some (r, v)"
      "0 \<le> r \<and> nat r < 3 \<and> Type (vlist (Handles p) ! nat r) = HT_Free \<or> 0 \<le> r \<and> nat r = 3"
    using allocHandleSlot_spec [OF t, of "\<lambda>_. True" "Handle_thread 5"] p(3) by auto
  have "\<not> (nat r < 3 \<and> Type (vlist (Handles p) ! nat r) = HT_Free)" using free [of "nat r"] by auto
  then have a: "allocHandleSlot (\<lambda>_. True) (Handle_thread 5) (Handles p) = Some (r, v)" "r = 3" using r by auto
  obtain p1 where p1: "Process_NewThread (\<lambda>_. True) True 5 9 p = Some (3, p1)"
    using a by (simp add: Process_NewThread_def lock_simps Let_def)
  have "threads p = {}" using p(1) by (auto simp: Process_new_def split: bind_splits)
  then have "handle_step (\<lambda>_. None) p p1" using h_thread [OF p1] by simp
  then have s: "(handle_step (\<lambda>_. None))\<^sup>*\<^sup>* p p1" by (rule r_into_rtranclp)
  show ?thesis using handles_never_dangle [OF p(1) s, of True 3] p(1) p1 by blast
qed

text \<open>What opening a handle does to the lock, on every path.\<close>

definition table_full :: "proc \<Rightarrow> bool" where
  "table_full p \<longleftrightarrow> length (vlist (Handles p)) = 1024 \<and> (\<forall>x \<in> set (vlist (Handles p)). Type x \<noteq> HT_Free)"

lemma alloc_result:
  assumes "handles_ok p"
  shows "\<exists>r v. allocHandleSlot (\<lambda>_. True) h (Handles p) = Some (r, v) \<and> (if table_full p then r = - ENOMEM else 0 \<le> r)"
proof -
  have t: "table_ok (Handles p)" and vok: "vec_ok (Handles p)" using assms by (auto simp: handles_ok_def table_ok_def)
  have "length (vlist (Handles p)) \<le> 1024" using vok t length_vlist [OF vok] by (simp add: vec_ok_def table_ok_def)
  from allocHandleSlot_spec [OF t, of "\<lambda>_. True" h]
  obtain r v where a: "allocHandleSlot (\<lambda>_. True) h (Handles p) = Some (r, v)"
    and c: "r = - ENOMEM \<and> table_full p \<or> 0 \<le> r \<and> nat r < length (vlist (Handles p)) \<and> Type (vlist (Handles p) ! nat r) = HT_Free \<or>
      0 \<le> r \<and> table_ok v \<and> vlist v = vlist (Handles p) @ [h]"
    by (auto simp: table_full_def)
  have "length (vlist v) \<le> 1024" if "table_ok v"
    using that length_vlist [of v] by (auto simp: vec_ok_def table_ok_def)
  then have "\<not> table_full p" if "table_ok v" "vlist v = vlist (Handles p) @ [h]" using that by (auto simp: table_full_def)
  then have "if table_full p then r = - ENOMEM else 0 \<le> r" using c nth_mem by (auto simp: table_full_def)
  with a show ?thesis by blast
qed



end
