(* ===== verification/NodeList.thy ===== *)
theory NodeList
  imports Prelude
begin

text \<open>
  \<open>kernel/include/list.hpp\<close>: the singly linked list the kernel keeps its objects in. A node is reached only
  from the list that owns it, so a list is the sequence of its values and a loop over the nodes is a recursion
  on the rest of the sequence. The \<open>==\<close> of the values is the argument \<open>eq\<close> of the default comparer. A read through a node that was deleted is \<open>None\<close>. \<open>T()\<close>, the value of the
  searches that find nothing, is the argument \<open>d\<close>.
\<close>

(* src/kernel/include/list.hpp:20-23 defaultComparer *)
definition defaultComparer :: "('a \<Rightarrow> 'a \<Rightarrow> bool) \<Rightarrow> 'a \<Rightarrow> 'a \<Rightarrow> bool" where
  "defaultComparer eq a b = eq a b"

(* src/kernel/include/list.hpp:46-55 Clear *)
fun List_Clear :: "'a list \<Rightarrow> 'a list" where
  "List_Clear [] = []"
| "List_Clear (n # next) = List_Clear next"

(* src/kernel/include/list.hpp:57-60 Prepend *)
definition List_Prepend :: "'a \<Rightarrow> 'a list \<Rightarrow> 'a list" where
  "List_Prepend value xs = value # xs"

(* src/kernel/include/list.hpp:62-72 Append *)
fun List_Append :: "'a \<Rightarrow> 'a list \<Rightarrow> 'a list" where
  "List_Append value [] = [value]"
| "List_Append value (n # next) = (if next = [] then [n, value] else n # List_Append value next)"

(* src/kernel/include/list.hpp:74-86 InsertBefore, of a value *)
fun List_InsertBefore_value :: "('a \<Rightarrow> 'a \<Rightarrow> bool) \<Rightarrow> 'a \<Rightarrow> 'a \<Rightarrow> 'a list \<Rightarrow> 'a list" where
  "List_InsertBefore_value eq newValue value [] = [newValue]"
| "List_InsertBefore_value eq newValue value (node # next) =
     (if defaultComparer eq node value then newValue # node # next
      else node # List_InsertBefore_value eq newValue value next)"

(* src/kernel/include/list.hpp:88-101 InsertBefore, of a comparer *)
fun List_InsertBefore :: "('a \<Rightarrow> 'a \<Rightarrow> bool) \<Rightarrow> 'a \<Rightarrow> 'a list \<Rightarrow> 'a list" where
  "List_InsertBefore comparer newValue [] = [newValue]"
| "List_InsertBefore comparer newValue (node # next) =
     (if comparer node newValue then newValue # node # next
      else node # List_InsertBefore comparer newValue next)"

text \<open>After the first match \<open>Remove\<close> with \<open>all\<close> goes on from the node it has just deleted.\<close>

(* src/kernel/include/list.hpp:103-119 Remove *)
fun List_Remove :: "('a \<Rightarrow> 'a \<Rightarrow> bool) \<Rightarrow> bool \<Rightarrow> 'a \<Rightarrow> 'a list \<Rightarrow> (nat \<times> 'a list) option" where
  "List_Remove comparer all value [] = Some (0, [])"
| "List_Remove comparer all value (node # next) =
     (if comparer node value then if all then None else Some (1, next)
      else map_option (\<lambda>(n, ys). (n, node # ys)) (List_Remove comparer all value next))"

(* src/kernel/include/list.hpp:121-130 Contains *)
fun List_Contains :: "('a \<Rightarrow> 'a \<Rightarrow> bool) \<Rightarrow> 'a \<Rightarrow> 'a list \<Rightarrow> bool" where
  "List_Contains comparer value [] = False"
| "List_Contains comparer value (node # next) = (if comparer node value then True else List_Contains comparer value next)"

(* src/kernel/include/list.hpp:132-138 Count *)
definition List_Count :: "'a list \<Rightarrow> nat" where
  "List_Count xs = fold (\<lambda>_ count. u32 (count + 1)) xs 0"

(* src/kernel/include/list.hpp:140-150 Count, of a value *)
definition List_Count_value :: "('a \<Rightarrow> 'a \<Rightarrow> bool) \<Rightarrow> 'a \<Rightarrow> 'a list \<Rightarrow> nat" where
  "List_Count_value comparer value xs = fold (\<lambda>node count. if comparer node value then u32 (count + 1) else count) xs 0"

(* src/kernel/include/list.hpp:154-159 Get, loop *)
fun List_Get_loop :: "'a \<Rightarrow> nat \<Rightarrow> nat \<Rightarrow> 'a list \<Rightarrow> 'a" where
  "List_Get_loop d idx i [] = d"
| "List_Get_loop d idx i (node # next) = (if idx = i then node else List_Get_loop d idx (u32 (i + 1)) next)"

(* src/kernel/include/list.hpp:152-161 Get *)
definition List_Get :: "'a \<Rightarrow> nat \<Rightarrow> 'a list \<Rightarrow> 'a" where
  "List_Get d idx xs = List_Get_loop d idx 0 xs"

(* src/kernel/include/list.hpp:168-177 Find *)
fun List_Find :: "'a \<Rightarrow> ('a \<Rightarrow> 'a \<Rightarrow> bool) \<Rightarrow> 'a \<Rightarrow> 'a list \<Rightarrow> 'a" where
  "List_Find d comparer value [] = d"
| "List_Find d comparer value (node # next) = (if comparer node value then node else List_Find d comparer value next)"

(* src/kernel/include/list.hpp:185-192 Swap, search for a node *)
fun List_node_of :: "('a \<Rightarrow> 'a \<Rightarrow> bool) \<Rightarrow> 'a \<Rightarrow> 'a list \<Rightarrow> nat option" where
  "List_node_of comparer a [] = None"
| "List_node_of comparer a (node # next) = (if comparer node a then Some 0 else map_option Suc (List_node_of comparer a next))"

(* src/kernel/include/list.hpp:179-205 Swap *)
definition List_Swap :: "('a \<Rightarrow> 'a \<Rightarrow> bool) \<Rightarrow> 'a \<Rightarrow> 'a \<Rightarrow> 'a list \<Rightarrow> bool \<times> 'a list" where
  "List_Swap comparer a b xs =
     (case List_node_of comparer a xs of None \<Rightarrow> (False, xs)
      | Some n1 \<Rightarrow>
          case List_node_of comparer b xs of None \<Rightarrow> (False, xs)
          | Some n2 \<Rightarrow> (True, let t = xs ! n1; xs = xs[n1 := xs ! n2] in xs[n2 := t]))"

section \<open>The operations as list functions\<close>

lemma List_Clear_eq [simp]: "List_Clear xs = []"
  by (induction xs) auto

lemma List_Append_eq [simp]: "List_Append v xs = xs @ [v]"
  by (induction xs) auto

lemma List_InsertBefore_value_eq:
  "List_InsertBefore_value eq n v xs = takeWhile (\<lambda>x. \<not> eq x v) xs @ n # dropWhile (\<lambda>x. \<not> eq x v) xs"
  by (induction xs) (auto simp: defaultComparer_def)

lemma List_InsertBefore_eq:
  "List_InsertBefore c n xs = takeWhile (\<lambda>x. \<not> c x n) xs @ n # dropWhile (\<lambda>x. \<not> c x n) xs"
  by (induction xs) auto

lemma set_List_InsertBefore [simp]: "set (List_InsertBefore c n xs) = insert n (set xs)"
  by (induction xs) auto

lemma sorted_List_InsertBefore:
  assumes "\<And>x. x \<in> set xs \<Longrightarrow> c x n \<longleftrightarrow> f n < (f x :: 'b :: linorder)" "sorted (map f xs)"
  shows "sorted (map f (List_InsertBefore c n xs))"
  using assms by (induction xs) (auto simp: not_less order_less_imp_le dest: order_trans [OF order_less_imp_le])

lemma List_Remove_one: "List_Remove (defaultComparer (=)) False v xs = Some (of_bool (v \<in> set xs), remove1 v xs)"
  by (induction xs) (auto simp: defaultComparer_def)

lemma List_Remove_one_cmp:
  "List_Remove c False v xs =
     Some (of_bool (\<exists>x \<in> set xs. c x v), takeWhile (\<lambda>x. \<not> c x v) xs @ drop 1 (dropWhile (\<lambda>x. \<not> c x v) xs))"
  by (induction xs) auto

text \<open>Removing all matches reads a deleted node as soon as there is one.\<close>

lemma List_Remove_all: "List_Remove c True v xs = (if \<exists>x \<in> set xs. c x v then None else Some (0, xs))"
  by (induction xs) auto

lemma List_Contains_iff [simp]: "List_Contains c v xs \<longleftrightarrow> (\<exists>x \<in> set xs. c x v)"
  by (induction xs) auto

lemma List_Count_eq: "length xs < 2 ^ 32 \<Longrightarrow> List_Count xs = length xs"
proof -
  have "fold (\<lambda>_ count. u32 (count + 1)) xs n = n + length xs" if "n + length xs < 2 ^ 32" for n
    using that by (induction xs arbitrary: n) (auto simp: u32_small)
  from this [of 0] show "length xs < 2 ^ 32 \<Longrightarrow> ?thesis" by (simp add: List_Count_def)
qed

lemma List_Get_eq: "length xs < 2 ^ 32 \<Longrightarrow> List_Get d i xs = (if i < length xs then xs ! i else d)"
proof -
  have "List_Get_loop d i n xs = (if n \<le> i \<and> i < n + length xs then xs ! (i - n) else d)" if "n + length xs < 2 ^ 32" for n
    using that
  proof (induction xs arbitrary: n)
    case (Cons x xs)
    then have "u32 (n + 1) = n + 1" "Suc n + length xs < 2 ^ 32" by (auto simp: u32_small)
    then show ?case using Cons.IH [of "Suc n"] by (auto simp: nth_Cons')
  qed auto
  from this [of 0] show "length xs < 2 ^ 32 \<Longrightarrow> ?thesis" by (simp add: List_Get_def)
qed

lemma List_Find_eq: "List_Find d c v xs = (case List.find (\<lambda>x. c x v) xs of None \<Rightarrow> d | Some x \<Rightarrow> x)"
  by (induction xs) auto

end
