(* ===== verification/Paging.thy ===== *)
theory Paging
  imports Bitmap NodeList "HOL-Library.Monad_Syntax"
begin

text \<open>
  \<open>kernel/paging.cpp\<close>: page frames and two-level page tables. Physical memory is a function from the base
  address of a frame and the index of a double word in it. The kernel reaches a table only through a window
  of its 4k range: \<open>alloc4k\<close> enters the frame in a free slot of \<open>kernel4kPT\<close> and returns the address of the
  window, and an access through that address goes to the frame the slot holds. \<open>alloc4k\<close> halts the machine
  when no slot is free; this is \<open>None\<close>. The translation buffer of the processor is not modelled (each
  change of an entry is followed by an invalidation of its page), and interrupts are off in every operation.
\<close>

section \<open>Constants and state\<close>

(* src/common/include/sysdefs.h:8-8 KERNEL_BASE *)
abbreviation (input) KERNEL_BASE :: dword where
  "KERNEL_BASE \<equiv> 0xC0000000"

(* src/common/include/sysdefs.h:12-12 PAGE_SIZE *)
abbreviation (input) PAGE_SIZE :: dword where
  "PAGE_SIZE \<equiv> 0x1000"

(* src/common/include/sysdefs.h:14-14 PAGE_MASK *)
abbreviation (input) PAGE_MASK :: dword where
  "PAGE_MASK \<equiv> 0xFFFFF000"

(* src/common/include/sysdefs.h:15-15 LARGE_PAGE_SIZE *)
abbreviation (input) LARGE_PAGE_SIZE :: dword where
  "LARGE_PAGE_SIZE \<equiv> 0x400000"

(* src/common/include/sysdefs.h:24-24 DMA_HEAP_START *)
abbreviation (input) DMA_HEAP_START :: dword where
  "DMA_HEAP_START \<equiv> 0xCE000000"

(* src/kernel/paging.cpp:20-20 Paging::kernel4kVA *)
abbreviation (input) kernel4kVA :: dword where
  "kernel4kVA \<equiv> 0xCFC00000"

(* src/kernel/include/paging.hpp:17-23 Paging::DMAPointerHead *)
record DMAPointerHead =
  Address :: dword
  DSize :: dword

(* src/kernel/include/paging.hpp:22-22 Paging::DMAPointerHead::operator== *)
definition DMA_eq :: "DMAPointerHead \<Rightarrow> DMAPointerHead \<Rightarrow> bool" where
  "DMA_eq a ph \<longleftrightarrow> Address a = Address ph"

text \<open>
  \<open>kernel4kPT\<close> is the table of the windows through which single frames are reached. In the machine it is also a frame
  of memory, entered in the kernel page directory (\<open>paging.cpp:118-122\<close>): mapping an address of the windows themselves,
  0xCFC00000 to 0xCFFFFFFF, would rewrite it. Here it is a field of its own, and such mappings are not covered.
\<close>

(* src/kernel/include/paging.hpp:25-31 Paging, the static members *)
record pstate =
  ram :: "dword \<Rightarrow> nat \<Rightarrow> dword"
  kernel4kPT :: "dword list"
  pageFrameBitmap :: Bitmap
  kernelAddressSpace :: dword
  CR3 :: dword
  memoryTop :: dword
  dmaPtrList :: "DMAPointerHead list"

text \<open>\<open>x & ~(PAGE_SIZE - 1)\<close>, and the frame a window address stands for.\<close>

definition page_base :: "dword \<Rightarrow> dword" where
  "page_base x = x AND NOT (PAGE_SIZE - 1)"

definition window :: "dword \<Rightarrow> pstate \<Rightarrow> dword" where
  "window p s = page_base (kernel4kPT s ! unat ((p - kernel4kVA) div PAGE_SIZE))"

definition rd :: "dword \<Rightarrow> nat \<Rightarrow> pstate \<Rightarrow> dword" where
  "rd p i s = ram s (window p s) i"

definition wr :: "dword \<Rightarrow> nat \<Rightarrow> dword \<Rightarrow> pstate \<Rightarrow> pstate" where
  "wr p i v s = s\<lparr>ram := (ram s)(window p s := (ram s (window p s))(i := v))\<rparr>"

definition zero_page :: "dword \<Rightarrow> pstate \<Rightarrow> pstate" where
  "zero_page p s = s\<lparr>ram := (ram s)(window p s := (\<lambda>i. 0))\<rparr>"

(* src/kernel/paging.cpp:29-34 Paging::moveMemTop *)
definition moveMemTop :: "dword \<Rightarrow> pstate \<Rightarrow> dword \<times> pstate" where
  "moveMemTop incr s = (memoryTop s, s\<lparr>memoryTop := memoryTop s + incr\<rparr>)"

text \<open>A region of the memory map of the boot loader: address, length (both 64 bits) and type.\<close>

(* src/kernel/paging.cpp:36-50 Paging::getRAMSize *)
definition getRAMSize :: "(nat \<times> nat \<times> nat) list \<Rightarrow> nat" where
  "getRAMSize mmap =
     fold (\<lambda>(addr, len, ty) ramSize.
             let blockEnd = u32 (addr + len) in
             if addr \<ge> 2 ^ 20 \<and> ty = 1 \<and> blockEnd > ramSize then (ramSize + blockEnd) mod 2 ^ 64 else ramSize)
       mmap 0"

section \<open>The 4k windows\<close>

(* src/kernel/paging.cpp:52-58 Paging::map4k *)
definition map4k :: "nat \<Rightarrow> dword \<Rightarrow> pstate \<Rightarrow> dword \<times> pstate" where
  "map4k slot pa s = (kernel4kVA + of_nat slot * PAGE_SIZE, s\<lparr>kernel4kPT := (kernel4kPT s)[slot := pa OR 3]\<rparr>)"

(* src/kernel/paging.cpp:60-69 Paging::alloc4k *)
definition alloc4k :: "dword \<Rightarrow> pstate \<Rightarrow> (dword \<times> pstate) option" where
  "alloc4k pa s =
     (case List.find (\<lambda>slot. kernel4kPT s ! slot AND 1 = 0) [0..<1024] of
        None \<Rightarrow> None
      | Some slot \<Rightarrow> Some (map4k slot pa s))"

(* src/kernel/paging.cpp:71-79 Paging::free4k *)
definition free4k :: "dword \<Rightarrow> pstate \<Rightarrow> pstate" where
  "free4k ptr s =
     (let p = page_base ptr in
      if p < kernel4kVA \<or> p \<ge> kernel4kVA + 0x200000 then s
      else s\<lparr>kernel4kPT := (kernel4kPT s)[unat ((p - kernel4kVA) div PAGE_SIZE) := 0]\<rparr>)"

section \<open>Page frames\<close>

(* src/kernel/paging.cpp:505-518 Paging::AllocFrame *)
definition AllocFrame :: "pstate \<Rightarrow> dword \<times> pstate" where
  "AllocFrame s =
     (let b = FindFirst (pageFrameBitmap s) False in
      if b = InvalidOffset then (- 1, s)
      else (of_nat b * PAGE_SIZE, s\<lparr>pageFrameBitmap := SetBit (pageFrameBitmap s) b True\<rparr>))"

text \<open>The search with an alignment, in steps of \<open>alignment / PAGE_SIZE\<close> frames.\<close>

(* src/kernel/paging.cpp:530-530 Paging::AllocFrame, of an alignment, loop *)
function aligned_frame :: "Bitmap \<Rightarrow> nat \<Rightarrow> nat \<Rightarrow> nat" where
  "aligned_frame b step pos = (if 0 < step \<and> pos < GetBitCount b \<and> GetBit b pos then aligned_frame b step (pos + step) else pos)"
  by pat_completeness auto
termination by (relation "measure (\<lambda>(b, step, pos). bitCount b - pos)") (auto simp: GetBitCount_def)

(* src/kernel/paging.cpp:520-540 Paging::AllocFrame, of an alignment *)
definition AllocFrame_aligned :: "nat \<Rightarrow> pstate \<Rightarrow> dword \<times> pstate" where
  "AllocFrame_aligned alignment s =
     (if alignment mod 4096 \<noteq> 0 then (- 1, s)
      else
        let alignment = (if alignment = 0 then 4096 else alignment);
            pos = aligned_frame (pageFrameBitmap s) (alignment div 4096) 0
        in if pos \<ge> GetBitCount (pageFrameBitmap s) then (- 1, s)
           else (of_nat pos * PAGE_SIZE, s\<lparr>pageFrameBitmap := SetBit (pageFrameBitmap s) pos True\<rparr>))"

(* src/kernel/paging.cpp:551-552 Paging::AllocFrames, loop *)
definition mark_frames :: "nat \<Rightarrow> nat \<Rightarrow> Bitmap \<Rightarrow> Bitmap" where
  "mark_frames n pos b = fold (\<lambda>i b. SetBit b (pos + i) True) [0..<n] b"

(* src/kernel/paging.cpp:542-556 Paging::AllocFrames *)
definition AllocFrames :: "nat \<Rightarrow> pstate \<Rightarrow> dword \<times> pstate" where
  "AllocFrames n s =
     (let b = FindFirst_run (pageFrameBitmap s) False n in
      if b = InvalidOffset then (- 1, s)
      else (of_nat b * PAGE_SIZE, s\<lparr>pageFrameBitmap := mark_frames n b (pageFrameBitmap s)\<rparr>))"

text \<open>The inner loop of the aligned search counts the free frames from \<open>pos\<close> on, at most \<open>n\<close>.\<close>

(* src/kernel/paging.cpp:572-572 Paging::AllocFrames, of an alignment, inner loop *)
function count_free :: "Bitmap \<Rightarrow> nat \<Rightarrow> nat \<Rightarrow> nat \<Rightarrow> nat \<times> nat" where
  "count_free b n pos okbits =
     (if pos < GetBitCount b \<and> \<not> GetBit b pos \<and> okbits < n then count_free b n (pos + 1) (okbits + 1) else (pos, okbits))"
  by pat_completeness auto
termination by (relation "measure (\<lambda>(b, n, pos, okbits). n - okbits)") auto

lemma count_free_ge: "pos \<le> fst (count_free b n pos ok)"
  by (induction b n pos ok rule: count_free.induct) (subst count_free.simps, auto simp del: count_free.simps)

(* src/kernel/paging.cpp:568-578 Paging::AllocFrames, of an alignment, loop *)
function aligned_frames :: "Bitmap \<Rightarrow> nat \<Rightarrow> nat \<Rightarrow> nat \<Rightarrow> nat" where
  "aligned_frames b n step pos =
     (if 0 < step \<and> pos < GetBitCount b then
        case count_free b n pos 0 of (pos', okbits) \<Rightarrow>
          if okbits \<ge> n then pos else aligned_frames b n step (pos' + step)
      else pos)"
  by pat_completeness auto
termination
proof (relation "measure (\<lambda>(b, n, step, pos). bitCount b - pos)", goal_cases)
  case (2 b n step pos pos' okbits)
  then have "pos \<le> pos'" using count_free_ge [of pos b n 0] by (metis fst_conv)
  with 2 show ?case by (auto simp: GetBitCount_def simp del: count_free.simps)
qed simp

declare aligned_frame.simps [simp del] count_free.simps [simp del] aligned_frames.simps [simp del]

(* src/kernel/paging.cpp:558-589 Paging::AllocFrames, of an alignment *)
definition AllocFrames_aligned :: "nat \<Rightarrow> nat \<Rightarrow> pstate \<Rightarrow> dword \<times> pstate" where
  "AllocFrames_aligned n alignment s =
     (if alignment mod 4096 \<noteq> 0 then (- 1, s)
      else
        let alignment = (if alignment = 0 then 4096 else alignment);
            pos = aligned_frames (pageFrameBitmap s) n (alignment div 4096) 0
        in if pos \<ge> GetBitCount (pageFrameBitmap s) then (- 1, s)
           else (of_nat pos * PAGE_SIZE, s\<lparr>pageFrameBitmap := mark_frames n pos (pageFrameBitmap s)\<rparr>))"

(* src/kernel/paging.cpp:591-604 Paging::FreeFrame *)
definition FreeFrame :: "dword \<Rightarrow> pstate \<Rightarrow> bool \<times> pstate" where
  "FreeFrame pa s =
     (let b = unat (pa div PAGE_SIZE) in
      if \<not> GetBit (pageFrameBitmap s) b then (False, s)
      else (True, s\<lparr>pageFrameBitmap := SetBit (pageFrameBitmap s) b False\<rparr>))"

(* src/kernel/paging.cpp:606-615 Paging::FreeFrames *)
fun FreeFrames :: "dword \<Rightarrow> nat \<Rightarrow> pstate \<Rightarrow> bool \<times> pstate" where
  "FreeFrames pa 0 s = (True, s)"
| "FreeFrames pa (Suc n) s =
     (case FreeFrame pa s of (False, s) \<Rightarrow> (False, s) | (True, s) \<Rightarrow> FreeFrames (pa + PAGE_SIZE) n s)"

section \<open>Address spaces\<close>

text \<open>An operation on the address space \<open>~0\<close> is one on the current address space.\<close>

(* src/kernel/paging.cpp:171-174 Paging::GetAddressSpace *)
definition GetAddressSpace :: "pstate \<Rightarrow> dword" where
  "GetAddressSpace s = CR3 s"

definition space_of :: "dword \<Rightarrow> pstate \<Rightarrow> dword" where
  "space_of pd s = (if pd = - 1 then GetAddressSpace s else pd)"

definition pdidx :: "dword \<Rightarrow> nat" where
  "pdidx va = unat (drop_bit 22 va)"

definition ptidx :: "dword \<Rightarrow> nat" where
  "ptidx va = unat (drop_bit 12 va AND 1023)"

definition present :: "dword \<Rightarrow> bool" where
  "present e \<longleftrightarrow> e AND 1 \<noteq> 0"

(* src/kernel/paging.cpp:158-169 Paging::BuildAddressSpace *)
definition BuildAddressSpace :: "dword \<Rightarrow> pstate \<Rightarrow> pstate option" where
  "BuildAddressSpace as s =
     do { (pdir, s) \<leftarrow> alloc4k as s;
          let s = zero_page pdir s;
          let s = fold (\<lambda>i s. wr pdir (768 + i) (ram s (kernelAddressSpace s) (768 + i)) s) [0..<256] s;
          Some (free4k pdir s) }"

text \<open>The part of \<open>MapPage\<close> that finds the page table of the address or makes a new one.\<close>

(* src/kernel/paging.cpp:204-220 Paging::MapPage, the page table *)
definition map_table :: "dword \<Rightarrow> dword \<Rightarrow> pstate \<Rightarrow> (dword \<times> dword \<times> pstate) option" where
  "map_table pdir va s =
     (let pde = rd pdir (pdidx va) s; ptpa = page_base pde in
      if ptpa = 0 \<and> (pde AND 0x3F) AND 1 = 0 then
        case AllocFrame s of
          (ptpa, s) \<Rightarrow>
            if ptpa = - 1 then Some (- 1, 0, s)
            else do { (pt, s) \<leftarrow> alloc4k ptpa s;
                      let s = zero_page pt s;
                      Some (ptpa, pt, wr pdir (pdidx va) (ptpa OR 7) s) }
      else Some (ptpa, 0, s))"

text \<open>A page table entry: present, and the flags for write and user access.\<close>

definition page_entry :: "dword \<Rightarrow> bool \<Rightarrow> bool \<Rightarrow> dword" where
  "page_entry pa user write = pa OR 1 OR (if write then 2 else 0) OR (if user then 4 else 0)"

(* src/kernel/paging.cpp:186-231 Paging::MapPage *)
definition MapPage :: "dword \<Rightarrow> dword \<Rightarrow> dword \<Rightarrow> bool \<Rightarrow> bool \<Rightarrow> pstate \<Rightarrow> (bool \<times> pstate) option" where
  "MapPage pd va pa user write s =
     (let pd = space_of pd s; va = page_base va; pa = page_base pa in
      do { (pdir, s) \<leftarrow> alloc4k pd s;
           (ptpa, pt, s) \<leftarrow> map_table pdir va s;
           let s = free4k pdir s;
           if ptpa = - 1 then Some (False, s)
           else
             do { (pt, s) \<leftarrow> (if pt \<noteq> 0 then Some (pt, s) else alloc4k ptpa s);
                  Some (True, free4k pt (wr pt (ptidx va) (page_entry pa user write) s)) } })"

text \<open>The loop that looks for an entry left in a page table.\<close>

(* src/kernel/paging.cpp:274-282 Paging::UnMapPage, freept *)
definition no_entries :: "(nat \<Rightarrow> dword) \<Rightarrow> bool" where
  "no_entries pt \<longleftrightarrow> (\<forall>i < 1024. \<not> present (pt i))"

(* src/kernel/paging.cpp:233-296 Paging::UnMapPage *)
definition UnMapPage :: "dword \<Rightarrow> dword \<Rightarrow> pstate \<Rightarrow> (bool \<times> pstate) option" where
  "UnMapPage pd va s =
     (let pd = space_of pd s; va = page_base va in
      do { (pdir, s) \<leftarrow> alloc4k pd s;
           if \<not> present (rd pdir (pdidx va) s) then Some (False, free4k pdir s)
           else
             do { let ptpa = page_base (rd pdir (pdidx va) s);
                  (pt, s) \<leftarrow> alloc4k ptpa s;
                  if \<not> present (rd pt (ptidx va) s AND 0x3F) then Some (False, free4k pdir (free4k pt s))
                  else
                    let s = wr pt (ptidx va) 0 s;
                        freept = no_entries (\<lambda>i. rd pt i s);
                        s = free4k pt s;
                        s = (if freept \<and> va < KERNEL_BASE then wr pdir (pdidx va) 0 (snd (FreeFrame ptpa s)) else s)
                    in Some (True, free4k pdir s) } })"

(* src/kernel/paging.cpp:298-311 Paging::MapPages *)
fun MapPages :: "dword \<Rightarrow> dword \<Rightarrow> dword \<Rightarrow> bool \<Rightarrow> bool \<Rightarrow> nat \<Rightarrow> pstate \<Rightarrow> (bool \<times> pstate) option" where
  "MapPages pd va pa user write 0 s = Some (True, s)"
| "MapPages pd va pa user write (Suc n) s =
     do { (r, s) \<leftarrow> MapPage (space_of pd s) va pa user write s;
          if \<not> r then Some (False, s)
          else MapPages (space_of pd s) (va + PAGE_SIZE) (pa + PAGE_SIZE) user write n s }"

(* src/kernel/paging.cpp:313-324 Paging::UnMapPages *)
fun UnMapPages :: "dword \<Rightarrow> dword \<Rightarrow> nat \<Rightarrow> pstate \<Rightarrow> (bool \<times> pstate) option" where
  "UnMapPages pd va 0 s = Some (True, s)"
| "UnMapPages pd va (Suc n) s =
     do { (r, s) \<leftarrow> UnMapPage (space_of pd s) va s;
          if \<not> r then Some (False, s)
          else UnMapPages (space_of pd s) (va + PAGE_SIZE) n s }"

(* src/kernel/paging.cpp:458-498 Paging::GetPhysicalAddress *)
definition GetPhysicalAddress :: "dword \<Rightarrow> dword \<Rightarrow> pstate \<Rightarrow> (dword \<times> pstate) option" where
  "GetPhysicalAddress pd va s =
     (let pd = space_of pd s in
      do { (pdir, s) \<leftarrow> alloc4k pd s;
           let pde = rd pdir (pdidx va) s;
           let s = free4k pdir s;
           if \<not> present (pde AND 0x3F) then Some (- 1, s)
           else
             do { (pt, s) \<leftarrow> alloc4k (page_base pde) s;
                  let pte = rd pt (ptidx va) s;
                  let s = free4k pt s;
                  Some (if \<not> present pte then - 1 else page_base pte + (va AND (PAGE_SIZE - 1)), s) } })"

section \<open>Ranges\<close>

text \<open>A loop whose body may leave it early: \<open>False\<close> stops the iteration.\<close>

fun for_while :: "('i \<Rightarrow> 's \<Rightarrow> (bool \<times> 's) option) \<Rightarrow> 'i list \<Rightarrow> 's \<Rightarrow> (bool \<times> 's) option" where
  "for_while f [] s = Some (True, s)"
| "for_while f (i # is) s = do { (go, s) \<leftarrow> f i s; if go then for_while f is s else Some (False, s) }"

definition va_of :: "nat \<Rightarrow> nat \<Rightarrow> dword" where
  "va_of di ti = push_bit 22 (of_nat di) OR push_bit 12 (of_nat ti)"

(* src/kernel/paging.cpp:345-380 Paging::UnmapRange, one page *)
definition unmap_one :: "dword \<Rightarrow> dword \<Rightarrow> dword \<Rightarrow> nat \<Rightarrow> nat \<Rightarrow> pstate \<Rightarrow> (bool \<times> pstate) option" where
  "unmap_one PD startVA rangeSize di ti s =
     (let va = va_of di ti in
      if va < startVA \<or> va \<ge> startVA + rangeSize then Some (True, s)
      else
        do { let ptpa = rd PD di s AND PAGE_MASK;
             (PT, s) \<leftarrow> alloc4k ptpa s;
             let s = snd (FreeFrame (rd PT ti s AND PAGE_MASK) s);
             let s = wr PT ti 0 s;
             let freept = no_entries (\<lambda>i. rd PT i s);
             let s = free4k PT s;
             Some (True, if freept \<and> va < KERNEL_BASE then wr PD di 0 (snd (FreeFrame ptpa s)) else s) })"

(* src/kernel/paging.cpp:326-385 Paging::UnmapRange *)
definition UnmapRange :: "dword \<Rightarrow> dword \<Rightarrow> dword \<Rightarrow> pstate \<Rightarrow> pstate option" where
  "UnmapRange pd startVA rangeSize s =
     (let pd = space_of pd s; startPD = pdidx startVA; endPD = pdidx (startVA + rangeSize + LARGE_PAGE_SIZE - 1) in
      do { (PD, s) \<leftarrow> alloc4k pd s;
           (_, s) \<leftarrow> for_while (\<lambda>di s.
                if \<not> present (rd PD di s) then Some (True, s)
                else for_while (unmap_one PD startVA rangeSize di) [0..<1024] s) [startPD..<endPD] s;
           Some (free4k PD s) })"

(* src/kernel/paging.cpp:404-451 Paging::CloneRange, one page *)
definition clone_one :: "dword \<Rightarrow> dword \<Rightarrow> dword \<Rightarrow> dword \<Rightarrow> nat \<Rightarrow> nat \<Rightarrow> pstate \<Rightarrow> (bool \<times> pstate) option" where
  "clone_one dstPd PD startVA rangeSize di ti s =
     (let va = va_of di ti in
      if va < startVA \<or> va \<ge> startVA + rangeSize then Some (True, s)
      else if \<not> present (rd PD di s) then Some (True, s)
      else
        do { let ptpa = page_base (rd PD di s);
             (PT, s) \<leftarrow> alloc4k ptpa s;
             let pte = rd PT ti s;
             let ptflags = pte AND 0x3F;
             let pa = page_base pte;
             case AllocFrame s of
               (dpa, s) \<Rightarrow>
                 if dpa = - 1 then Some (False, free4k PD (free4k PT s))
                 else
                   do { let s = free4k PT s;
                        (src, s) \<leftarrow> alloc4k pa s;
                        (dst, s) \<leftarrow> alloc4k dpa s;
                        let s = s\<lparr>ram := (ram s)(window dst s := ram s (window src s))\<rparr>;
                        let s = free4k src (free4k dst s);
                        (_, s) \<leftarrow> MapPage dstPd va dpa (ptflags AND 4 \<noteq> 0) (ptflags AND 2 \<noteq> 0) s;
                        Some (True, s) } })"

text \<open>The source directory is the current one whatever \<open>srcPd\<close> is, as in the code.\<close>

(* src/kernel/paging.cpp:387-456 Paging::CloneRange *)
definition CloneRange :: "dword \<Rightarrow> dword \<Rightarrow> dword \<Rightarrow> dword \<Rightarrow> pstate \<Rightarrow> pstate option" where
  "CloneRange dstPd srcPd startVA rangeSize s =
     (let dstPd = space_of dstPd s; srcPd = space_of srcPd s;
          startPD = pdidx startVA; endPD = pdidx (startVA + rangeSize + LARGE_PAGE_SIZE - 1) in
      do { (PD, s) \<leftarrow> alloc4k (CR3 s) s;
           (go, s) \<leftarrow> for_while (\<lambda>di s. for_while (clone_one dstPd PD startVA rangeSize di) [0..<1024] s) [startPD..<endPD] s;
           Some (if go then free4k PD s else s) })"

section \<open>DMA memory\<close>

text \<open>The list is searched for the first gap after one of its blocks.\<close>

(* src/kernel/paging.cpp:631-663 Paging::AllocDMA, the address *)
fun dma_place :: "dword \<Rightarrow> DMAPointerHead list \<Rightarrow> DMAPointerHead list \<Rightarrow> dword \<times> DMAPointerHead list" where
  "dma_place n xs [] = (0, xs)"
| "dma_place n xs (ph # rest) =
     (let blockEnd = Address ph + DSize ph in
      case rest of
        [] \<Rightarrow> (blockEnd, List_Append \<lparr>Address = blockEnd, DSize = n\<rparr> xs)
      | nextPh # _ \<Rightarrow>
          if Address nextPh \<ge> blockEnd + n
          then (blockEnd, List_InsertBefore_value DMA_eq \<lparr>Address = blockEnd, DSize = n\<rparr> nextPh xs)
          else dma_place n xs rest)"

text \<open>Zeroing the new pages; \<open>None\<close> is a page fault.\<close>

fun zero_mapped :: "dword \<Rightarrow> nat \<Rightarrow> pstate \<Rightarrow> pstate option" where
  "zero_mapped va 0 s = Some s"
| "zero_mapped va (Suc n) s =
     do { (pa, s) \<leftarrow> GetPhysicalAddress (- 1) va s;
          if pa = - 1 then None
          else zero_mapped (va + PAGE_SIZE) n (s\<lparr>ram := (ram s)(page_base pa := \<lambda>i. 0)\<rparr>) }"

(* src/kernel/paging.cpp:622-670 Paging::AllocDMA, of an alignment *)
definition AllocDMA_aligned :: "dword \<Rightarrow> nat \<Rightarrow> pstate \<Rightarrow> (dword \<times> pstate) option" where
  "AllocDMA_aligned n alignment s =
     (if n = 0 then Some (0, s)
      else
        let n = PAGE_SIZE * ((n + PAGE_SIZE - 1) div PAGE_SIZE); nPages = unat (n div PAGE_SIZE) in
        case AllocFrames_aligned nPages alignment s of
          (pa, s) \<Rightarrow>
            if pa = - 1 then Some (0, s)
            else
              do { let (va, xs) = (if List_Count (dmaPtrList s) = 0
                                   then (DMA_HEAP_START, List_Append \<lparr>Address = DMA_HEAP_START, DSize = n\<rparr> (dmaPtrList s))
                                   else dma_place n (dmaPtrList s) (dmaPtrList s));
                   (_, s) \<leftarrow> MapPages (GetAddressSpace s) va pa False True nPages (s\<lparr>dmaPtrList := xs\<rparr>);
                   s \<leftarrow> zero_mapped va nPages s;
                   Some (va, s) })"

(* src/kernel/paging.cpp:617-620 Paging::AllocDMA, with the page size *)
definition AllocDMA :: "dword \<Rightarrow> pstate \<Rightarrow> (dword \<times> pstate) option" where
  "AllocDMA n s = AllocDMA_aligned n 4096 s"

(* src/kernel/paging.cpp:672-675 Paging::GetDMAPhysicalAddress *)
definition GetDMAPhysicalAddress :: "dword \<Rightarrow> pstate \<Rightarrow> (dword \<times> pstate) option" where
  "GetDMAPhysicalAddress ptr s = GetPhysicalAddress (GetAddressSpace s) ptr s"

(* src/kernel/paging.cpp:677-702 Paging::FreeDMA *)
definition FreeDMA :: "dword \<Rightarrow> pstate \<Rightarrow> pstate option" where
  "FreeDMA ptr s =
     (let ph = List_Find \<lparr>Address = 0, DSize = 0\<rparr> (defaultComparer DMA_eq) \<lparr>Address = ptr, DSize = 0\<rparr> (dmaPtrList s) in
      if Address ph = 0 \<or> DSize ph = 0 then Some s
      else
        do { (_, xs) \<leftarrow> List_Remove (defaultComparer DMA_eq) False ph (dmaPtrList s);
             let nPages = unat (DSize ph div PAGE_SIZE);
             (pa, s) \<leftarrow> GetPhysicalAddress (GetAddressSpace s) ptr (s\<lparr>dmaPtrList := xs\<rparr>);
             if pa = - 1 then Some s
             else
               do { (_, s) \<leftarrow> UnMapPages (GetAddressSpace s) ptr nPages s;
                    Some (snd (FreeFrames pa nPages s)) } })"

section \<open>Accounting\<close>

(* src/kernel/paging.cpp:704-707 Paging::GetTotalFrames *)
definition GetTotalFrames :: "pstate \<Rightarrow> nat" where
  "GetTotalFrames s = GetBitCount (pageFrameBitmap s)"

(* src/kernel/paging.cpp:709-715 Paging::GetFreeFrames *)
definition GetFreeFrames :: "pstate \<Rightarrow> nat" where
  "GetFreeFrames s = GetCountOf (pageFrameBitmap s) False"

(* src/kernel/paging.cpp:717-723 Paging::GetUsedFrames *)
definition GetUsedFrames :: "pstate \<Rightarrow> nat" where
  "GetUsedFrames s = GetCountOf (pageFrameBitmap s) True"

(* src/kernel/paging.cpp:725-728 Paging::GetTotalBytes *)
definition GetTotalBytes :: "pstate \<Rightarrow> nat" where
  "GetTotalBytes s = u32 (4096 * GetTotalFrames s)"

(* src/kernel/paging.cpp:730-733 Paging::GetFreeBytes *)
definition GetFreeBytes :: "pstate \<Rightarrow> nat" where
  "GetFreeBytes s = u32 (4096 * GetFreeFrames s)"

(* src/kernel/paging.cpp:735-738 Paging::GetUsedBytes *)
definition GetUsedBytes :: "pstate \<Rightarrow> nat" where
  "GetUsedBytes s = u32 (4096 * GetUsedFrames s)"

section \<open>Start\<close>

(* src/kernel/paging.cpp:500-503 Paging::GetFirstUsableAddress *)
definition GetFirstUsableAddress :: "pstate \<Rightarrow> dword" where
  "GetFirstUsableAddress s = memoryTop s"

(* src/kernel/paging.cpp:81-88 Paging::mapUser *)
definition mapUser :: "dword \<Rightarrow> dword \<Rightarrow> dword \<Rightarrow> bool \<Rightarrow> pstate \<Rightarrow> pstate option" where
  "mapUser as ustart uend write s =
     (let upages = unat ((uend - ustart) div PAGE_SIZE) in
      map_option snd (MapPages as ustart (ustart - KERNEL_BASE) True write upages s))"

text \<open>The frames up to the first usable address are taken and mapped at \<open>KERNEL_BASE\<close>.\<close>

(* src/kernel/paging.cpp:124-134 Paging::Initialize, kernel space *)
definition map_kernel :: "pstate \<Rightarrow> pstate option" where
  "map_kernel s =
     (let heapStart = PAGE_SIZE * ((memoryTop s + PAGE_SIZE - 1) div PAGE_SIZE); n = unat ((heapStart - KERNEL_BASE) div PAGE_SIZE) in
      do { let s = s\<lparr>pageFrameBitmap := mark_frames n 0 (pageFrameBitmap s)\<rparr>;
           (_, s) \<leftarrow> for_while (\<lambda>i s.
                do { let pa = of_nat i * PAGE_SIZE;
                     let s = s\<lparr>pageFrameBitmap := SetBit (pageFrameBitmap s) (unat (pa div PAGE_SIZE)) True\<rparr>;
                     (_, s) \<leftarrow> MapPage (kernelAddressSpace s) (KERNEL_BASE + pa) pa False True s;
                     Some (True, s) }) [0..<n] s;
           Some s })"

(* src/kernel/paging.cpp:136-147 Paging::Initialize, remaining page tables *)
definition kernel_tables :: "pstate \<Rightarrow> pstate option" where
  "kernel_tables s =
     do { (_, s) \<leftarrow> for_while (\<lambda>pdOffs s.
            if present (ram s (kernelAddressSpace s) pdOffs) then Some (True, s)
            else case AllocFrame s of
              (pa, s) \<Rightarrow>
                do { (pt, s) \<leftarrow> alloc4k pa s;
                     let s = free4k pt (zero_page pt s);
                     Some (True, s\<lparr>ram := (ram s)(kernelAddressSpace s := (ram s (kernelAddressSpace s))(pdOffs := pa OR 3))\<rparr>) }) [768..<1024] s;
          Some s }"

text \<open>
  The arguments are the memory map, the contents of the memory that becomes the bitmap, and the bounds of the
  user code of the kernel image. The size of a \<open>Bitmap\<close> is below a page.
\<close>

(* src/kernel/paging.cpp:90-156 Paging::Initialize *)
definition Paging_Initialize :: "(nat \<times> nat \<times> nat) list \<Rightarrow> dword list \<Rightarrow> dword \<Rightarrow> dword \<Rightarrow> pstate \<Rightarrow> pstate option" where
  "Paging_Initialize mmap buffer utext_start utext_end s =
     (let currentPageDir = CR3 s;
          (kernelPageDir, s) = moveMemTop PAGE_SIZE s;
          kpd = kernelPageDir - KERNEL_BASE;
          s = s\<lparr>ram := (ram s)(kpd := \<lambda>i. 0)\<rparr>;
          ramSize = min (3 * 2 ^ 30) (getRAMSize mmap);
          frames = ramSize div 4096;
          byteCount = frames div 8;
          (_, s) = moveMemTop (of_nat (align byteCount 4096)) s;
          (_, s) = moveMemTop PAGE_SIZE s;
          s = s\<lparr>pageFrameBitmap := Bitmap_new_buffer frames buffer False\<rparr>;
          (k4kPT, s) = moveMemTop PAGE_SIZE s;
          pa4k = k4kPT - KERNEL_BASE;
          s = s\<lparr>kernel4kPT := replicate 1024 0, ram := (ram s)(pa4k := \<lambda>i. 0), kernelAddressSpace := kpd\<rparr>;
          s = s\<lparr>ram := (ram s)(currentPageDir := (ram s currentPageDir)(pdidx kernel4kVA := pa4k OR 3))\<rparr>;
          s = s\<lparr>pageFrameBitmap := SetBit (pageFrameBitmap s) (unat (pa4k div PAGE_SIZE)) True,
                ram := (ram s)(kpd := (ram s kpd)(pdidx kernel4kVA := pa4k OR 3))\<rparr>
      in do { s \<leftarrow> map_kernel s;
              s \<leftarrow> kernel_tables s;
              (_, s) \<leftarrow> MapPage kpd 0xFFFFF000 0 False True s;
              (_, s) \<leftarrow> UnMapPage kpd 0xFFFFF000 s;
              s \<leftarrow> mapUser kpd utext_start utext_end False s;
              Some (s\<lparr>CR3 := kpd\<rparr>) })"

section \<open>Entries and indices\<close>

lemma page_base_mask: "page_base x = x AND NOT (mask 12)"
  by (simp add: page_base_def mask_eq_exp_minus_1)

lemma bit_page_base [simp]: "bit (page_base x) n \<longleftrightarrow> 12 \<le> n \<and> bit x n"
  by (cases "n < 32") (auto simp: page_base_mask bit_simps not_less dest: bit_imp_le_length)

lemma page_base_or: "page_base (x OR y) = page_base x OR page_base y"
  by (auto simp: bit_eq_iff bit_or_iff)

lemma page_base_small:
  "page_base 0 = 0" "page_base 1 = 0" "page_base 2 = 0" "page_base 3 = 0" "page_base 4 = 0" "page_base 7 = 0"
  by (simp_all add: page_base_def)

lemma page_base_idem [simp]: "page_base (page_base x) = page_base x"
  by (auto simp: bit_eq_iff)

lemma present_iff: "present e \<longleftrightarrow> bit e 0"
  by (simp add: present_def and_one_eq bit_0 odd_iff_mod_2_eq_one)

lemma present_simps [simp]: "present (x OR y) \<longleftrightarrow> present x \<or> present y" "\<not> present 0" "present 1" "present 3" "present 7"
  "present (x AND 0x3F) \<longleftrightarrow> present x" "\<not> present (page_base x)"
proof -
  have "bit (0x3F :: dword) 0" "bit (1 :: dword) 0" "bit (3 :: dword) 0" "bit (7 :: dword) 0" by (simp_all add: bit_0)
  then show "present (x OR y) \<longleftrightarrow> present x \<or> present y" "\<not> present 0" "present 1" "present 3" "present 7"
    "present (x AND 0x3F) \<longleftrightarrow> present x" "\<not> present (page_base x)"
    by (simp_all only: present_iff bit_or_iff bit_and_iff bit_page_base) simp_all
qed

lemma page_aligned_mult: "page_base (of_nat b * PAGE_SIZE) = of_nat b * PAGE_SIZE"
proof -
  have "of_nat b * PAGE_SIZE = push_bit 12 (of_nat b :: dword)" by (simp add: push_bit_eq_mult)
  then show ?thesis by (auto simp: bit_eq_iff bit_push_bit_iff)
qed

lemma idx_page_base [simp]: "pdidx (page_base va) = pdidx va" "ptidx (page_base va) = ptidx va"
proof -
  have "drop_bit 22 (page_base va) = drop_bit 22 va" "drop_bit 12 (page_base va) = drop_bit 12 va"
    by (auto simp: bit_eq_iff bit_drop_bit_eq)
  then show "pdidx (page_base va) = pdidx va" "ptidx (page_base va) = ptidx va" by (simp_all add: pdidx_def ptidx_def)
qed

lemma ptidx_bit: "drop_bit 12 (va :: dword) AND 1023 = drop_bit 12 (take_bit 22 va)"
proof -
  have "(1023 :: dword) = mask 10" by (simp add: mask_eq_exp_minus_1)
  then show ?thesis by (auto simp: bit_eq_iff bit_simps)
qed

lemma page_eq_iff: "page_base va = page_base va' \<longleftrightarrow> pdidx va = pdidx va' \<and> ptidx va = ptidx va'"
proof
  assume "pdidx va = pdidx va' \<and> ptidx va = ptidx va'"
  then have e: "drop_bit 22 va = drop_bit 22 va'" "drop_bit 12 (take_bit 22 va) = drop_bit 12 (take_bit 22 va')"
    by (auto simp: pdidx_def ptidx_def ptidx_bit intro: unsigned_word_eqI)
  show "page_base va = page_base va'"
  proof (rule bit_eqI, simp)
    fix n
    show "12 \<le> n \<and> bit va n \<longleftrightarrow> 12 \<le> n \<and> bit va' n"
    proof (cases "n < 22")
      case True
      with arg_cong [OF e(2), of "\<lambda>w. bit w (n - 12)"] show ?thesis by (auto simp: bit_simps)
    next
      case False
      with arg_cong [OF e(1), of "\<lambda>w. bit w (n - 22)"] show ?thesis by (auto simp: bit_simps)
    qed
  qed
qed (metis idx_page_base)

lemma unat_dword: "unat (va :: dword) < 2 ^ 32"
  using unsigned_less [of va] by simp

lemma idx_nat: "pdidx va = unat va div 2 ^ 22" "ptidx va = unat va mod 2 ^ 22 div 2 ^ 12"
proof -
  have t: "take_bit 32 (unat va) = unat va" using unat_dword [of va] by (simp add: take_bit_eq_mod)
  have "unat (drop_bit 22 va) = drop_bit 22 (take_bit 32 (unat va))"
    "unat (drop_bit 12 (take_bit 22 va)) = drop_bit 12 (take_bit 22 (take_bit 32 (unat va)))"
    unfolding unsigned_drop_bit_eq unsigned_take_bit_eq by (simp_all add: t)
  then show "pdidx va = unat va div 2 ^ 22" "ptidx va = unat va mod 2 ^ 22 div 2 ^ 12"
    unfolding t pdidx_def ptidx_def ptidx_bit by (simp_all only: drop_bit_eq_div take_bit_eq_mod)
qed

lemma pdidx_less [simp]: "pdidx va < 1024"
  using unat_dword [of va] by (simp add: idx_nat less_mult_imp_div_less)

lemma ptidx_less [simp]: "ptidx va < 1024"
  by (simp add: idx_nat less_mult_imp_div_less)

lemma pdidx_kernel: "pdidx va < 768 \<longleftrightarrow> va < KERNEL_BASE"
  by (simp add: idx_nat word_less_nat_alt div_less_iff_less_mult)

section \<open>Windows\<close>

definition nowin :: "dword list" where
  "nowin = replicate 1024 0"

lemma nowin_simps [simp]: "length nowin = 1024" "i < 1024 \<Longrightarrow> nowin ! i = 0" "nowin[i := 0] = nowin"
  by (auto simp: nowin_def) (metis list_update_id list_update_beyond length_replicate nth_replicate not_less)

lemma nowin_update [simp]: "nowin[i := a, j := 0] = (if i = j then nowin else nowin[i := a])"
  by (simp add: list_update_swap [of i j])

lemma nowin_update2 [simp]: "i \<noteq> j \<Longrightarrow> nowin[i := a, j := b, i := 0] = nowin[j := b]"
  by (simp add: list_update_swap [of i j] del: nowin_update) simp

lemma find_slot:
  assumes "k < 1024" "\<forall>i < k. present (xs ! i)" "\<not> present (xs ! k)"
  shows "List.find (\<lambda>slot. xs ! slot AND 1 = 0) [0..<1024] = Some k"
  using assms by (auto simp: find_Some_iff present_def intro!: exI [of _ k])

lemma alloc4k_first:
  "kernel4kPT s = nowin \<Longrightarrow> alloc4k pa s = Some (kernel4kVA, s\<lparr>kernel4kPT := nowin[0 := pa OR 3]\<rparr>)"
  using find_slot [of 0 nowin] by (simp add: alloc4k_def map4k_def)

lemma alloc4k_second:
  "kernel4kPT s = nowin[0 := pb OR 3] \<Longrightarrow>
   alloc4k pa s = Some (kernel4kVA + PAGE_SIZE, s\<lparr>kernel4kPT := nowin[0 := pb OR 3, 1 := pa OR 3]\<rparr>)"
  using find_slot [of 1 "nowin[0 := pb OR 3]"] by (simp add: alloc4k_def map4k_def)

lemma window_simps:
  "kernel4kPT s = xs \<Longrightarrow> window 0xCFC00000 s = page_base (xs ! 0)"
  "kernel4kPT s = xs \<Longrightarrow> window 0xCFC01000 s = page_base (xs ! 1)"
  by (simp_all add: window_def)

lemma free4k_simps:
  "free4k 0xCFC00000 s = s\<lparr>kernel4kPT := (kernel4kPT s)[0 := 0]\<rparr>"
  "free4k 0xCFC01000 s = s\<lparr>kernel4kPT := (kernel4kPT s)[1 := 0]\<rparr>"
  by (simp_all add: free4k_def page_base_def)

section \<open>Frames\<close>

abbreviation aligned :: "dword \<Rightarrow> bool" where
  "aligned f \<equiv> page_base f = f"

definition frame_no :: "dword \<Rightarrow> nat" where
  "frame_no f = unat (f div PAGE_SIZE)"

definition used :: "pstate \<Rightarrow> dword \<Rightarrow> bool" where
  "used s f \<longleftrightarrow> frame_no f \<in> bm_set (pageFrameBitmap s)"

definition frames_ok :: "pstate \<Rightarrow> bool" where
  "frames_ok s \<longleftrightarrow> bitmap_ok (pageFrameBitmap s) \<and> bitCount (pageFrameBitmap s) \<le> 2 ^ 20 \<and> kernel4kPT s = nowin"

lemma page_base_not_m1 [simp]: "page_base x \<noteq> - 1"
proof
  assume "page_base x = - 1"
  then have "bit (page_base x) 0" by simp
  then show False by simp
qed

lemma aligned_not_m1: "aligned f \<Longrightarrow> f \<noteq> - 1"
  using page_base_not_m1 by metis

lemma frame_no_mult: "b < 2 ^ 20 \<Longrightarrow> frame_no (of_nat b * PAGE_SIZE) = b"
  by (simp add: frame_no_def unat_div unat_word_ariths unat_of_nat)

lemma frame_no_inj: "aligned f \<Longrightarrow> aligned g \<Longrightarrow> frame_no f = frame_no g \<longleftrightarrow> f = g"
proof
  have e: "f = push_bit 12 (drop_bit 12 f)" if "aligned f" for f :: dword
    using that by (auto simp: bit_eq_iff bit_push_bit_iff bit_drop_bit_eq)
  assume a: "aligned f" "aligned g" "frame_no f = frame_no g"
  then have "f div PAGE_SIZE = g div PAGE_SIZE" by (auto simp: frame_no_def intro: unsigned_word_eqI)
  then have "drop_bit 12 f = drop_bit 12 g" by (simp add: drop_bit_eq_div)
  then show "f = g" using e [OF a(1)] e [OF a(2)] by simp
qed simp

lemma AllocFrame_cases:
  assumes "frames_ok s"
  obtains "AllocFrame s = (- 1, s)" "bm_set (pageFrameBitmap s) = {..<bitCount (pageFrameBitmap s)}"
  | f b where "AllocFrame s = (f, s\<lparr>pageFrameBitmap := b\<rparr>)" "aligned f" "\<not> used s f" "f \<noteq> - 1"
      "b = SetBit (pageFrameBitmap s) (frame_no f) True" "frame_no f < bitCount (pageFrameBitmap s)"
proof (cases "FindFirst (pageFrameBitmap s) False = InvalidOffset")
  case True
  have ok: "bitmap_ok (pageFrameBitmap s)" using assms by (simp add: frames_ok_def)
  then show ?thesis using True frames.none_iff_full that(1) by (simp add: AllocFrame_def)
next
  case False
  let ?b = "pageFrameBitmap s"
  have ok: "bitmap_ok ?b" "bitCount ?b \<le> 2 ^ 20" using assms by (simp_all add: frames_ok_def)
  note t = frames.take_cell [OF ok(1) False]
  have n: "frame_no (of_nat (FindFirst ?b False) * PAGE_SIZE) = FindFirst ?b False" using t(2) ok(2) by (intro frame_no_mult) simp
  show ?thesis
    by (rule that(2) [of "of_nat (FindFirst ?b False) * PAGE_SIZE"])
      (use False t n page_aligned_mult aligned_not_m1 in \<open>auto simp: AllocFrame_def Let_def used_def\<close>)
qed

lemma used_mark:
  assumes "frames_ok s" "frame_no f < bitCount (pageFrameBitmap s)" "aligned f" "aligned g"
  shows "used (s\<lparr>pageFrameBitmap := SetBit (pageFrameBitmap s) (frame_no f) v\<rparr>) g \<longleftrightarrow> (if f = g then v else used s g)"
  using assms frame_no_inj [of f g] frames.used_mark [of "pageFrameBitmap s" "frame_no f" v] by (auto simp: used_def frames_ok_def)

lemma FreeFrame_eq:
  "FreeFrame f s = (if used s f then (True, s\<lparr>pageFrameBitmap := SetBit (pageFrameBitmap s) (frame_no f) False\<rparr>) else (False, s))"
  by (simp add: FreeFrame_def used_def frame_no_def GetBit_iff Let_def)

lemma used_bound: "frames_ok s \<Longrightarrow> used s f \<Longrightarrow> frame_no f < bitCount (pageFrameBitmap s)"
  by (simp add: used_def bm_set_less)

section \<open>The operations on memory\<close>

text \<open>With all windows free, each operation in terms of the frames it reads and writes.\<close>

definition put :: "dword \<Rightarrow> nat \<Rightarrow> dword \<Rightarrow> (dword \<Rightarrow> nat \<Rightarrow> dword) \<Rightarrow> dword \<Rightarrow> nat \<Rightarrow> dword" where
  "put f i v m = m(f := (m f)(i := v))"

lemmas win = alloc4k_first alloc4k_second window_simps free4k_simps rd_def wr_def zero_page_def page_base_or page_base_small put_def

lemma GetPhysicalAddress_eq:
  assumes "kernel4kPT s = nowin" "aligned pd"
  shows "GetPhysicalAddress pd va s =
    Some (if present (ram s pd (pdidx va)) \<and> present (ram s (page_base (ram s pd (pdidx va))) (ptidx va))
          then page_base (ram s (page_base (ram s pd (pdidx va))) (ptidx va)) + (va AND 0xFFF) else - 1, s)"
  using assms aligned_not_m1 [OF assms(2)] by (simp add: GetPhysicalAddress_def space_of_def Let_def win)

lemma AllocFrame_windows:
  assumes "AllocFrame s = (f, s1)"
  shows "AllocFrame (s\<lparr>kernel4kPT := xs\<rparr>) = (f, s1\<lparr>kernel4kPT := xs\<rparr>)" "ram s1 = ram s" "kernel4kPT s1 = kernel4kPT s"
  using assms by (auto simp: AllocFrame_def Let_def split: if_splits)

lemma no_table_iff: "(e AND 0x3F) AND 1 = 0 \<longleftrightarrow> \<not> present e"
  using present_simps(6) [of e] unfolding present_def by simp

lemma MapPage_old_table:
  assumes "kernel4kPT s = nowin" "aligned pd" "page_base (ram s pd (pdidx va)) \<noteq> 0 \<or> present (ram s pd (pdidx va))"
  shows "MapPage pd va pa user write s =
    Some (True, s\<lparr>ram := put (page_base (ram s pd (pdidx va))) (ptidx va) (page_entry (page_base pa) user write) (ram s)\<rparr>)"
proof -
  let ?s = "s\<lparr>kernel4kPT := nowin[0 := pd OR 3]\<rparr>"
  have "map_table kernel4kVA (page_base va) ?s = Some (page_base (ram s pd (pdidx va)), 0, ?s)"
    using assms(2,3) unfolding map_table_def Let_def no_table_iff by (auto simp: win)
  then show ?thesis using assms(1,2) aligned_not_m1 [OF assms(2)]
    by (simp add: MapPage_def space_of_def Let_def win)
qed

lemma MapPage_new_table:
  assumes "kernel4kPT s = nowin" "aligned pd" "page_base (ram s pd (pdidx va)) = 0" "\<not> present (ram s pd (pdidx va))"
    "AllocFrame s = (f, s1)"
  shows "MapPage pd va pa user write s =
    (if f = - 1 then Some (False, s1)
     else Some (True, s1\<lparr>ram := put (page_base f) (ptidx va) (page_entry (page_base pa) user write)
       (put pd (pdidx va) (f OR 7) ((ram s)(page_base f := \<lambda>i. 0)))\<rparr>))"
proof -
  let ?s = "s\<lparr>kernel4kPT := nowin[0 := pd OR 3]\<rparr>"
  note w = AllocFrame_windows [OF assms(5)]
  have r: "s1\<lparr>kernel4kPT := nowin\<rparr> = s1" using w(3) assms(1) by simp
  have "map_table kernel4kVA (page_base va) ?s =
    (if f = - 1 then Some (- 1, 0, s1\<lparr>kernel4kPT := nowin[0 := pd OR 3]\<rparr>)
     else Some (f, kernel4kVA + PAGE_SIZE, s1\<lparr>kernel4kPT := nowin[0 := pd OR 3, 1 := f OR 3],
       ram := put pd (pdidx va) (f OR 7) ((ram s)(page_base f := \<lambda>i. 0))\<rparr>))"
    using assms(2-4) w unfolding map_table_def Let_def no_table_iff by (simp add: win)
  then show ?thesis using assms(1,2) aligned_not_m1 [OF assms(2)] r w
    by (simp add: MapPage_def space_of_def Let_def win list_update_swap)
qed

lemma page_base_less: "page_base va < KERNEL_BASE \<longleftrightarrow> va < KERNEL_BASE"
  by (simp add: pdidx_kernel [symmetric])

lemma FreeFrame_windows: "snd (FreeFrame f (s\<lparr>kernel4kPT := xs, ram := m\<rparr>)) = snd (FreeFrame f s)\<lparr>kernel4kPT := xs, ram := m\<rparr>"
  by (simp add: FreeFrame_def Let_def)

lemma FreeFrame_fields [simp]:
  "ram (snd (FreeFrame f s)) = ram s" "kernel4kPT (snd (FreeFrame f s)) = kernel4kPT s" "CR3 (snd (FreeFrame f s)) = CR3 s"
  "kernelAddressSpace (snd (FreeFrame f s)) = kernelAddressSpace s"
  by (simp_all add: FreeFrame_def Let_def)

lemma UnMapPage_absent:
  assumes "kernel4kPT s = nowin" "aligned pd"
    "\<not> present (ram s pd (pdidx va)) \<or> \<not> present (ram s (page_base (ram s pd (pdidx va))) (ptidx va))"
  shows "UnMapPage pd va s = Some (False, s)"
  using assms aligned_not_m1 [OF assms(2)] by (auto simp: UnMapPage_def space_of_def Let_def win)

lemma UnMapPage_present:
  assumes "kernel4kPT s = nowin" "aligned pd" "present (ram s pd (pdidx va))" "pt = page_base (ram s pd (pdidx va))"
    "present (ram s pt (ptidx va))" "m = put pt (ptidx va) 0 (ram s)"
  shows "UnMapPage pd va s =
    Some (True, if no_entries (m pt) \<and> va < KERNEL_BASE
                then snd (FreeFrame pt s)\<lparr>ram := put pd (pdidx va) 0 m\<rparr> else s\<lparr>ram := m\<rparr>)"
proof -
  have r: "s\<lparr>ram := m, kernel4kPT := nowin\<rparr> = s\<lparr>ram := m\<rparr>"
    "s\<lparr>pageFrameBitmap := b, ram := m, kernel4kPT := nowin\<rparr> = s\<lparr>pageFrameBitmap := b, ram := m\<rparr>" for m b
    using assms(1) by simp_all
  note put_def [simp del]
  show ?thesis using assms(1-3,5) aligned_not_m1 [OF assms(2)] unfolding assms(4,6)
    by (simp add: UnMapPage_def space_of_def Let_def win page_base_less FreeFrame_def r)
qed

section \<open>Address spaces as maps\<close>

text \<open>What a space maps: the frame of a page, if its directory and its table have the entry.\<close>

definition lookup :: "pstate \<Rightarrow> dword \<Rightarrow> dword \<Rightarrow> dword option" where
  "lookup s pd va =
     (let pde = ram s pd (pdidx va); pte = ram s (page_base pde) (ptidx va) in
      if present pde \<and> present pte then Some (page_base pte) else None)"

text \<open>
  The slots that own a page table: the user part of each directory, and the kernel part of the kernel's own
  directory, which the others share.
\<close>

definition slots :: "pstate \<Rightarrow> dword set \<Rightarrow> (dword \<times> nat) set" where
  "slots s S = {(p, i). p \<in> S \<and> i < 768 \<or> p = kernelAddressSpace s \<and> 768 \<le> i \<and> i < 1024}"

definition entry :: "pstate \<Rightarrow> dword \<times> nat \<Rightarrow> dword" where
  "entry s x = ram s (fst x) (snd x)"

definition live :: "pstate \<Rightarrow> dword set \<Rightarrow> (dword \<times> nat) set" where
  "live s S = {x \<in> slots s S. present (entry s x)}"

definition table :: "pstate \<Rightarrow> dword \<times> nat \<Rightarrow> dword" where
  "table s x = page_base (entry s x)"

definition spaces_ok :: "pstate \<Rightarrow> dword set \<Rightarrow> bool" where
  "spaces_ok s S \<longleftrightarrow> frames_ok s \<and> kernelAddressSpace s \<in> S \<and> (\<forall>p \<in> S. aligned p \<and> used s p) \<and>
     inj_on (table s) (live s S) \<and> (\<forall>x \<in> live s S. used s (table s x) \<and> table s x \<notin> S) \<and>
     (\<forall>x \<in> slots s S. \<not> present (entry s x) \<longrightarrow> entry s x = 0) \<and>
     (\<forall>i. 768 \<le> i \<and> i < 1024 \<longrightarrow> present (ram s (kernelAddressSpace s) i) \<and>
        (\<forall>p \<in> S. ram s p i = ram s (kernelAddressSpace s) i))"

text \<open>The slot that owns the table an address of a space goes through.\<close>

definition slot_of :: "pstate \<Rightarrow> dword \<Rightarrow> dword \<Rightarrow> dword \<times> nat" where
  "slot_of s p va = (if va < KERNEL_BASE then p else kernelAddressSpace s, pdidx va)"

lemma spaces_okD:
  assumes "spaces_ok s S"
  shows "frames_ok s" "kernelAddressSpace s \<in> S" "\<And>p. p \<in> S \<Longrightarrow> aligned p" "\<And>p. p \<in> S \<Longrightarrow> used s p"
    "inj_on (table s) (live s S)" "\<And>x. x \<in> live s S \<Longrightarrow> used s (table s x)" "\<And>x. x \<in> live s S \<Longrightarrow> table s x \<notin> S"
    "\<And>x. x \<in> slots s S \<Longrightarrow> \<not> present (entry s x) \<Longrightarrow> entry s x = 0"
    "\<And>i. 768 \<le> i \<Longrightarrow> i < 1024 \<Longrightarrow> present (ram s (kernelAddressSpace s) i)"
    "\<And>i p. 768 \<le> i \<Longrightarrow> i < 1024 \<Longrightarrow> p \<in> S \<Longrightarrow> ram s p i = ram s (kernelAddressSpace s) i"
  using assms unfolding spaces_ok_def by blast+

lemma spaces_okI:
  assumes "frames_ok s" "kernelAddressSpace s \<in> S" "\<And>p. p \<in> S \<Longrightarrow> aligned p" "\<And>p. p \<in> S \<Longrightarrow> used s p"
    "inj_on (table s) (live s S)" "\<And>x. x \<in> live s S \<Longrightarrow> used s (table s x)" "\<And>x. x \<in> live s S \<Longrightarrow> table s x \<notin> S"
    "\<And>x. x \<in> slots s S \<Longrightarrow> \<not> present (entry s x) \<Longrightarrow> entry s x = 0"
    "\<And>i. 768 \<le> i \<Longrightarrow> i < 1024 \<Longrightarrow> present (ram s (kernelAddressSpace s) i)"
    "\<And>i p. 768 \<le> i \<Longrightarrow> i < 1024 \<Longrightarrow> p \<in> S \<Longrightarrow> ram s p i = ram s (kernelAddressSpace s) i"
  shows "spaces_ok s S"
  using assms unfolding spaces_ok_def by blast

lemma slot_of_slots: "p \<in> S \<Longrightarrow> slot_of s p va \<in> slots s S"
  using pdidx_less [of va] by (auto simp: slot_of_def slots_def pdidx_kernel [symmetric])

lemma entry_slot_of: "spaces_ok s S \<Longrightarrow> p \<in> S \<Longrightarrow> ram s p (pdidx va) = entry s (slot_of s p va)"
  using spaces_okD(10) [of s S "pdidx va" p] by (auto simp: entry_def slot_of_def pdidx_kernel [symmetric] not_less)

lemma lookup_slot_of:
  assumes "spaces_ok s S" "p \<in> S"
  shows "lookup s p va =
    (if slot_of s p va \<in> live s S \<and> present (ram s (table s (slot_of s p va)) (ptidx va))
     then Some (page_base (ram s (table s (slot_of s p va)) (ptidx va))) else None)"
  using entry_slot_of [OF assms] slot_of_slots [OF assms(2)] by (simp add: lookup_def Let_def live_def table_def)

lemma slot_of_eq_iff:
  assumes "p \<in> S" "q \<in> S"
  shows "slot_of s q va' = slot_of s p va \<longleftrightarrow> pdidx va' = pdidx va \<and> (va < KERNEL_BASE \<longrightarrow> q = p)"
  by (auto simp: slot_of_def pdidx_kernel [symmetric])

lemma slots_dir: "(p, i) \<in> slots s S \<Longrightarrow> kernelAddressSpace s \<in> S \<Longrightarrow> p \<in> S"
  by (auto simp: slots_def)

text \<open>Writing an entry of a live page table changes the one page of the spaces that go through it.\<close>

lemma put_entry:
  assumes ok: "spaces_ok s S" and x: "x \<in> live s S" and s': "s' = s\<lparr>ram := put (table s x) j e (ram s)\<rparr>"
  shows "spaces_ok s' S" "live s' S = live s S" "table s' y = (if fst y \<in> S then table s y else table s' y)"
    and "q \<in> S \<Longrightarrow> lookup s' q va = (if slot_of s q va = x \<and> ptidx va = j
      then if present e then Some (page_base e) else None else lookup s q va)"
proof -
  have t: "table s x \<notin> S" "kernelAddressSpace s \<in> S" using ok x by (auto simp: spaces_ok_def)
  then have r: "p \<in> S \<Longrightarrow> ram s' p = ram s p" for p by (auto simp: s' put_def)
  have sl: "slots s' S = slots s S" by (simp add: s' slots_def)
  have e: "y \<in> slots s S \<Longrightarrow> entry s' y = entry s y" for y using r slots_dir t(2) by (cases y) (auto simp: entry_def)
  then have tb: "y \<in> slots s S \<Longrightarrow> table s' y = table s y" for y by (simp add: table_def)
  show l: "live s' S = live s S" using e by (auto simp: live_def sl)
  show "table s' y = (if fst y \<in> S then table s y else table s' y)" using r by (simp add: table_def entry_def)
  have u: "used s' f = used s f" "frames_ok s' = frames_ok s" "kernelAddressSpace s' = kernelAddressSpace s" for f
    by (simp_all add: s' used_def frames_ok_def)
  have li: "y \<in> live s S \<Longrightarrow> y \<in> slots s S" for y by (simp add: live_def)
  have "inj_on (table s') (live s S) = inj_on (table s) (live s S)" by (rule inj_on_cong) (use tb li in auto)
  then have inj': "inj_on (table s') (live s S)" using spaces_okD(5) [OF ok] by simp
  note D = spaces_okD [OF ok]
  show ok': "spaces_ok s' S"
  proof (rule spaces_okI, unfold u l sl)
    show "x \<in> slots s S \<Longrightarrow> \<not> present (entry s' x) \<Longrightarrow> entry s' x = 0" for x using e D(8) by simp
    show "768 \<le> i \<Longrightarrow> i < 1024 \<Longrightarrow> present (ram s' (kernelAddressSpace s) i)" for i using D(9) r [OF D(2)] by simp
    show "768 \<le> i \<Longrightarrow> i < 1024 \<Longrightarrow> p \<in> S \<Longrightarrow> ram s' p i = ram s' (kernelAddressSpace s) i" for i p
      using D(10) r [OF D(2)] r by simp
    show "x \<in> live s S \<Longrightarrow> used s (table s' x)" "x \<in> live s S \<Longrightarrow> table s' x \<notin> S" for x
      using tb [OF li, of x] D(6,7) [of x] by simp_all
  qed (fact D(1-4) inj')+
  assume q: "q \<in> S"
  let ?y = "slot_of s q va"
  have so: "slot_of s' q va = ?y" by (simp add: slot_of_def u)
  have inj: "?y \<in> live s S \<Longrightarrow> table s ?y = table s x \<longleftrightarrow> ?y = x" using ok x by (auto simp: spaces_ok_def dest: inj_onD)
  show "lookup s' q va = (if ?y = x \<and> ptidx va = j then if present e then Some (page_base e) else None else lookup s q va)"
    unfolding lookup_slot_of [OF ok' q] lookup_slot_of [OF ok q] so l tb [OF slot_of_slots [OF q]]
    using x inj by (auto simp: s' put_def)
qed

text \<open>A new page table with no entries changes no page.\<close>

lemma new_table:
  assumes ok: "spaces_ok s S" and x: "x \<in> slots s S" "x \<notin> live s S" and f: "aligned f" "\<not> used s f" "frame_no f < bitCount (pageFrameBitmap s)"
    and s': "s' = s\<lparr>pageFrameBitmap := SetBit (pageFrameBitmap s) (frame_no f) True,
      ram := put (fst x) (snd x) (f OR 7) ((ram s)(f := \<lambda>i. 0))\<rparr>"
  shows "spaces_ok s' S" "x \<in> live s' S" "table s' x = f" "q \<in> S \<Longrightarrow> lookup s' q va = lookup s q va"
proof -
  have al: "p \<in> S \<Longrightarrow> aligned p" "y \<in> live s S \<Longrightarrow> aligned (table s y)" for p y using ok by (auto simp: spaces_ok_def table_def)
  have fok: "frames_ok s" "kernelAddressSpace s \<in> S" using ok by (auto simp: spaces_ok_def)
  have nf: "p \<in> S \<Longrightarrow> p \<noteq> f" "y \<in> live s S \<Longrightarrow> table s y \<noteq> f" for p y using ok f(2) by (auto simp: spaces_ok_def)
  have "\<not> present (entry s x)" using x by (simp add: live_def)
  then have xs: "fst x \<in> S" "snd x < 768"
    using x(1) fok(2) spaces_okD(9) [OF ok] by (cases x; auto simp: slots_def entry_def)+
  have sl: "slots s' S = slots s S" by (simp add: s' slots_def)
  have e: "y \<in> slots s S \<Longrightarrow> entry s' y = (if y = x then f OR 7 else entry s y)" for y
    using slots_dir fok(2) nf(1) xs(1) by (cases y; cases x) (auto simp: entry_def s' put_def)
  have tb: "y \<in> slots s S \<Longrightarrow> table s' y = (if y = x then f else table s y)" for y
    using e f(1) by (simp add: table_def page_base_or page_base_small)
  have l: "live s' S = insert x (live s S)" using x e by (auto simp: live_def sl)
  show "x \<in> live s' S" "table s' x = f" using l tb x by auto
  have u: "aligned g \<Longrightarrow> used s' g = (g = f \<or> used s g)" for g using used_mark [OF fok(1) f(3,1), of g True] by (auto simp: used_def s')
  have fr: "frames_ok s'" using fok(1) by (simp add: frames_ok_def s')
  have li: "y \<in> live s S \<Longrightarrow> y \<in> slots s S" for y by (simp add: live_def)
  have k: "p \<in> S \<Longrightarrow> 768 \<le> i \<Longrightarrow> ram s' p i = ram s p i" for p i using nf(1) xs by (auto simp: s' put_def)
  have ks: "kernelAddressSpace s' = kernelAddressSpace s" by (simp add: s')
  have inj: "inj_on (table s') (live s' S)"
  proof -
    have "inj_on (table s') (live s S) = inj_on (table s) (live s S)" by (rule inj_on_cong) (use tb li x in auto)
    then show ?thesis using ok nf(2) tb li x unfolding l by (auto simp: spaces_ok_def)
  qed
  note D = spaces_okD [OF ok]
  show ok': "spaces_ok s' S"
  proof (rule spaces_okI, unfold sl ks)
    show "y \<in> slots s S \<Longrightarrow> \<not> present (entry s' y) \<Longrightarrow> entry s' y = 0" for y using e [of y] D(8) [of y] by (auto split: if_splits)
    show "768 \<le> i \<Longrightarrow> i < 1024 \<Longrightarrow> present (ram s' (kernelAddressSpace s) i)" for i using D(9) k [OF D(2)] by simp
    show "768 \<le> i \<Longrightarrow> i < 1024 \<Longrightarrow> p \<in> S \<Longrightarrow> ram s' p i = ram s' (kernelAddressSpace s) i" for i p
      using D(10) k [OF D(2)] k by simp
    show "p \<in> S \<Longrightarrow> used s' p" for p using D(3,4) u by simp
    show "y \<in> live s' S \<Longrightarrow> used s' (table s' y)" "y \<in> live s' S \<Longrightarrow> table s' y \<notin> S" for y
      using tb [OF li, of y] tb [OF x(1)] D(6,7) [of y] al(2) [of y] u [of f] u [of "table s y"] f(1) nf(1) x(2) unfolding l by (auto split: if_splits)
  qed (fact fr D(2,3) inj)+
  assume q: "q \<in> S"
  let ?y = "slot_of s q va"
  have so: "slot_of s' q va = ?y" by (simp add: slot_of_def ks)
  have tr: "y \<in> live s S \<Longrightarrow> ram s' (table s y) = ram s (table s y)" for y
    using ok nf(2) xs by (auto simp: s' put_def spaces_ok_def)
  have f0: "ram s' f = (\<lambda>i. 0)" using nf(1) xs by (auto simp: s' put_def)
  show "lookup s' q va = lookup s q va"
    unfolding lookup_slot_of [OF ok' q] lookup_slot_of [OF ok q] so l tb [OF slot_of_slots [OF q]]
    using x tr [of ?y] f0 by auto
qed

text \<open>So does giving up a user page table without entries.\<close>

lemma drop_table:
  assumes ok: "spaces_ok s S" and x: "x \<in> live s S" "snd x < 768" and empty: "no_entries (ram s (table s x))"
    and s': "s' = snd (FreeFrame (table s x) s)\<lparr>ram := put (fst x) (snd x) 0 (ram s)\<rparr>"
  shows "spaces_ok s' S" "q \<in> S \<Longrightarrow> lookup s' q va = lookup s q va"
proof -
  note D = spaces_okD [OF ok]
  let ?f = "table s x"
  have f: "aligned ?f" "used s ?f" "?f \<notin> S" using D(6,7) [OF x(1)] by (simp_all add: table_def)
  have x': "x \<in> slots s S" "fst x \<in> S" using x(1) slots_dir [of "fst x" "snd x"] D(2) by (auto simp: live_def)
  have sl: "slots s' S = slots s S" by (simp add: s' slots_def)
  have e: "y \<in> slots s S \<Longrightarrow> entry s' y = (if y = x then 0 else entry s y)" for y
    by (cases y; cases x) (auto simp: entry_def s' put_def)
  have tb: "y \<in> slots s S \<Longrightarrow> y \<noteq> x \<Longrightarrow> table s' y = table s y" for y using e by (simp add: table_def)
  have l: "live s' S = live s S - {x}" using e by (auto simp: live_def sl split: if_splits)
  have li: "y \<in> live s S \<Longrightarrow> y \<in> slots s S" for y by (simp add: live_def)
  have u: "aligned g \<Longrightarrow> used s' g = (g \<noteq> ?f \<and> used s g)" for g
    using used_mark [OF D(1) used_bound [OF D(1) f(2)] f(1), of g False] f(2) by (auto simp: used_def s' FreeFrame_eq)
  have ks: "kernelAddressSpace s' = kernelAddressSpace s" by (simp add: s')
  have k: "768 \<le> i \<Longrightarrow> ram s' p i = ram s p i" for p i using x(2) by (auto simp: s' put_def)
  have "inj_on (table s') (live s S - {x}) = inj_on (table s) (live s S - {x})" by (rule inj_on_cong) (use tb li in auto)
  then have inj: "inj_on (table s') (live s' S)" using D(5) l by (auto intro: inj_on_subset)
  have ne: "y \<in> live s' S \<Longrightarrow> y \<in> live s S \<and> table s' y = table s y \<and> table s y \<noteq> ?f \<and> aligned (table s y)" for y
    using tb [OF li, of y] inj_onD [OF D(5), of y x] x(1) unfolding l by (auto simp: table_def)
  show ok': "spaces_ok s' S"
  proof (rule spaces_okI, unfold sl ks)
    show "frames_ok s'" using D(1) by (auto simp: frames_ok_def s' FreeFrame_eq)
    show "y \<in> slots s S \<Longrightarrow> \<not> present (entry s' y) \<Longrightarrow> entry s' y = 0" for y using e [of y] D(8) [of y] by (auto split: if_splits)
    show "768 \<le> i \<Longrightarrow> i < 1024 \<Longrightarrow> present (ram s' (kernelAddressSpace s) i)" for i using D(9) k by simp
    show "768 \<le> i \<Longrightarrow> i < 1024 \<Longrightarrow> p \<in> S \<Longrightarrow> ram s' p i = ram s' (kernelAddressSpace s) i" for i p using D(10) k by simp
    show "p \<in> S \<Longrightarrow> used s' p" for p using D(3,4) u f(3) by auto
    show "y \<in> live s' S \<Longrightarrow> used s' (table s' y)" "y \<in> live s' S \<Longrightarrow> table s' y \<notin> S" for y
      using ne [of y] D(6,7) u by auto
  qed (fact D(2,3) inj)+
  assume q: "q \<in> S"
  let ?y = "slot_of s q va"
  have so: "slot_of s' q va = ?y" by (simp add: slot_of_def ks)
  have tr: "y \<in> live s S \<Longrightarrow> ram s' (table s y) = ram s (table s y)" for y using D(7) [of y] x'(2) by (auto simp: s' put_def)
  have em: "\<not> present (ram s ?f (ptidx va))" using empty by (simp add: no_entries_def)
  show "lookup s' q va = lookup s q va"
    unfolding lookup_slot_of [OF ok' q] lookup_slot_of [OF ok q] so l
    using em tr [of ?y] tb [OF slot_of_slots [OF q], of va] by (cases "?y = x") auto
qed

section \<open>Mapping and unmapping\<close>

text \<open>
  The specification: the mappings of all spaces are one map from spaces and pages to frames, and a change of a
  kernel page shows in every space.
\<close>

definition page_set :: "dword \<Rightarrow> dword \<Rightarrow> dword option \<Rightarrow> (dword \<Rightarrow> dword \<Rightarrow> dword option) \<Rightarrow> dword \<Rightarrow> dword \<Rightarrow> dword option" where
  "page_set p va v A q va' =
     (if page_base va' = page_base va \<and> (q = p \<or> KERNEL_BASE \<le> va) then v else A q va')"

lemma page_entry_simps [simp]: "present (page_entry pa u w)" "aligned pa \<Longrightarrow> page_base (page_entry pa u w) = pa"
  by (simp_all add: page_entry_def page_base_or page_base_small)

lemma MapPage_spec:
  assumes ok: "spaces_ok s S" and p: "p \<in> S"
  shows "\<exists>r s'. MapPage p va pa user write s = Some (r, s') \<and> spaces_ok s' S \<and>
    (\<not> r \<longrightarrow> s' = s \<and> bm_set (pageFrameBitmap s) = {..<bitCount (pageFrameBitmap s)}) \<and>
    (r \<longrightarrow> (\<forall>q \<in> S. \<forall>va'. lookup s' q va' = page_set p va (Some (page_base pa)) (lookup s) q va'))"
proof -
  note D = spaces_okD [OF ok]
  let ?x = "slot_of s p va" and ?e = "page_entry (page_base pa) user write"
  have dp: "aligned p" using D(3) p by blast
  have w: "kernel4kPT s = nowin" using D(1) by (simp add: frames_ok_def)
  have x: "?x \<in> slots s S" "ram s p (pdidx va) = entry s ?x" using slot_of_slots [OF p] entry_slot_of [OF ok p] by simp_all
  have page: "slot_of s q va' = ?x \<and> ptidx va' = ptidx va \<longleftrightarrow> page_base va' = page_base va \<and> (q = p \<or> KERNEL_BASE \<le> va)"
    if "q \<in> S" for q va' using slot_of_eq_iff [OF p that] page_eq_iff [of va' va] by (auto simp: not_less)
  show ?thesis
  proof (cases "?x \<in> live s S")
    case True
    note P = put_entry [OF ok True, of _ "ptidx va" ?e]
    have m: "MapPage p va pa user write s = Some (True, s\<lparr>ram := put (table s ?x) (ptidx va) ?e (ram s)\<rparr>)"
      using MapPage_old_table [OF w dp, of va pa user "write"] True x by (simp add: live_def table_def)
    show ?thesis unfolding m using P(1,4) [OF refl] page by (auto simp: page_set_def)
  next
    case False
    then have z: "entry s ?x = 0" using D(8) x(1) by (auto simp: live_def)
    have xp: "?x = (p, pdidx va)"
    proof -
      have "va < KERNEL_BASE"
      proof (rule ccontr)
        assume "\<not> va < KERNEL_BASE"
        then have "768 \<le> pdidx va" "?x = (kernelAddressSpace s, pdidx va)" by (auto simp: slot_of_def pdidx_kernel [symmetric])
        then show False using D(9) [of "pdidx va"] z by (simp add: entry_def)
      qed
      then show ?thesis by (simp add: slot_of_def)
    qed
    from D(1) show ?thesis
    proof (cases rule: AllocFrame_cases)
      case 1
      then show ?thesis using MapPage_new_table [OF w dp _ _ 1(1), of va pa user "write"] x z ok by (auto simp: page_base_small)
    next
      case (2 f b)
      let ?t = "s\<lparr>pageFrameBitmap := b, ram := put p (pdidx va) (f OR 7) ((ram s)(f := \<lambda>i. 0))\<rparr>"
      have "?t = s\<lparr>pageFrameBitmap := SetBit (pageFrameBitmap s) (frame_no f) True,
        ram := put (fst ?x) (snd ?x) (f OR 7) ((ram s)(f := \<lambda>i. 0))\<rparr>" by (simp add: 2(5) xp)
      note N = new_table [OF ok x(1) False 2(2,3,6) this]
      note P = put_entry [OF N(1,2), of _ "ptidx va" ?e, unfolded N(3)]
      have m: "MapPage p va pa user write s = Some (True, ?t\<lparr>ram := put f (ptidx va) ?e (ram ?t)\<rparr>)"
        using MapPage_new_table [OF w dp _ _ 2(1), of va pa user "write"] x z 2 by (simp add: page_base_small)
      have so: "slot_of ?t q va' = slot_of s q va'" for q va' by (simp add: slot_of_def)
      show ?thesis unfolding m using P(1,4) [OF refl] N(4) page by (auto simp: page_set_def so)
    qed
  qed
qed

lemma UnMapPage_spec:
  assumes ok: "spaces_ok s S" and p: "p \<in> S"
  shows "\<exists>s'. UnMapPage p va s = Some (lookup s p va \<noteq> None, s') \<and> spaces_ok s' S \<and> (lookup s p va = None \<longrightarrow> s' = s) \<and>
    (\<forall>q \<in> S. \<forall>va'. lookup s' q va' = page_set p va None (lookup s) q va')"
proof -
  note D = spaces_okD [OF ok]
  let ?x = "slot_of s p va"
  have dp: "aligned p" using D(3) p by blast
  have w: "kernel4kPT s = nowin" using D(1) by (simp add: frames_ok_def)
  have x: "?x \<in> slots s S" "ram s p (pdidx va) = entry s ?x" using slot_of_slots [OF p] entry_slot_of [OF ok p] by simp_all
  have page: "slot_of s q va' = ?x \<and> ptidx va' = ptidx va \<longleftrightarrow> page_base va' = page_base va \<and> (q = p \<or> KERNEL_BASE \<le> va)"
    if "q \<in> S" for q va' using slot_of_eq_iff [OF p that] page_eq_iff [of va' va] by (auto simp: not_less)
  show ?thesis
  proof (cases "lookup s p va")
    case None
    then have "\<not> present (ram s p (pdidx va)) \<or> \<not> present (ram s (page_base (ram s p (pdidx va))) (ptidx va))"
      by (auto simp: lookup_def Let_def split: if_splits)
    then have m: "UnMapPage p va s = Some (False, s)" by (rule UnMapPage_absent [OF w dp])
    have same: "page_set p va None (lookup s) q va' = lookup s q va'" if q: "q \<in> S" for q va'
    proof -
      have "slot_of s q va' = ?x \<Longrightarrow> ptidx va' = ptidx va \<Longrightarrow> lookup s q va' = lookup s p va"
        using lookup_slot_of [OF ok p, of va] lookup_slot_of [OF ok q, of va'] by simp
      then show ?thesis using page [OF q, of va'] None by (auto simp: page_set_def)
    qed
    show ?thesis unfolding m using None ok same by simp
  next
    case (Some f)
    then have l: "?x \<in> live s S" "present (ram s (table s ?x) (ptidx va))"
      using lookup_slot_of [OF ok p, of va] by (auto split: if_splits)
    let ?t = "s\<lparr>ram := put (table s ?x) (ptidx va) 0 (ram s)\<rparr>"
    note P = put_entry [OF ok l(1), of _ "ptidx va" 0, OF refl]
    have e: "\<forall>q \<in> S. \<forall>va'. lookup ?t q va' = page_set p va None (lookup s) q va'" using P(4) page by (auto simp: page_set_def)
    have pe: "present (ram s p (pdidx va))" "table s ?x = page_base (ram s p (pdidx va))" using l x by (auto simp: live_def table_def)
    note U = UnMapPage_present [OF w dp pe l(2) refl]
    show ?thesis
    proof (cases "no_entries (ram ?t (table s ?x)) \<and> va < KERNEL_BASE")
      case True
      have xp: "?x = (p, pdidx va)" "snd ?x < 768" using True by (auto simp: slot_of_def pdidx_kernel)
      have l': "?x \<in> live ?t S" "table ?t ?x = table s ?x" using P(2,3) l(1) p xp by auto
      let ?u = "snd (FreeFrame (table ?t ?x) ?t)\<lparr>ram := put (fst ?x) (snd ?x) 0 (ram ?t)\<rparr>"
      note R = drop_table [OF P(1) l'(1) xp(2) _ refl]
      have "?u = snd (FreeFrame (table s ?x) s)\<lparr>ram := put p (pdidx va) 0 (put (table s ?x) (ptidx va) 0 (ram s))\<rparr>"
        using l'(2) xp(1) by (simp add: FreeFrame_def Let_def)
      then have m: "UnMapPage p va s = Some (True, ?u)" using U True by simp
      show ?thesis unfolding m using R True l'(2) e Some by simp
    next
      case False
      then have m: "UnMapPage p va s = Some (True, ?t)" using U by (auto split: if_splits)
      show ?thesis unfolding m using P(1) e Some by simp
    qed
  qed
qed

lemma GetPhysicalAddress_spec:
  assumes "spaces_ok s S" "p \<in> S"
  shows "GetPhysicalAddress p va s = Some (case lookup s p va of None \<Rightarrow> - 1 | Some f \<Rightarrow> f + (va AND 0xFFF), s)"
  using GetPhysicalAddress_eq [of s p va] spaces_okD(1,3) [OF assms(1)] assms(2) by (simp add: frames_ok_def lookup_def Let_def)

text \<open>A new directory has the kernel's entries and nothing else.\<close>

lemma copy_entries:
  assumes "kernel4kPT s = nowin[0 := as OR 3]" "aligned as" "kernelAddressSpace s \<noteq> as" "k \<le> 256"
  shows "fold (\<lambda>i s. wr kernel4kVA (768 + i) (ram s (kernelAddressSpace s) (768 + i)) s) [0..<k] s =
    s\<lparr>ram := (ram s)(as := override_on (ram s as) (ram s (kernelAddressSpace s)) {768..<768 + k})\<rparr>"
  using assms(4)
proof (induction k)
  case (Suc k)
  let ?g = "\<lambda>i s. wr kernel4kVA (768 + i) (ram s (kernelAddressSpace s) (768 + i)) s"
  let ?o = "\<lambda>k. override_on (ram s as) (ram s (kernelAddressSpace s)) {768..<768 + k}"
  have o: "(?o k)(768 + k := ram s (kernelAddressSpace s) (768 + k)) = ?o (Suc k)" by (auto simp: override_on_def fun_eq_iff)
  have g: "?g k (s\<lparr>ram := (ram s)(as := f)\<rparr>) = s\<lparr>ram := (ram s)(as := f (768 + k := ram s (kernelAddressSpace s) (768 + k)))\<rparr>" for f
    using assms(1-3) by (simp add: win)
  have "fold ?g [0..<Suc k] s = ?g k (fold ?g [0..<k] s)" by simp
  also have "\<dots> = ?g k (s\<lparr>ram := (ram s)(as := ?o k)\<rparr>)" using Suc.IH Suc.prems by (simp only: Suc_leD)
  also have "\<dots> = s\<lparr>ram := (ram s)(as := ?o (Suc k))\<rparr>" by (simp only: g o)
  finally show ?case .
qed simp

lemma BuildAddressSpace_spec:
  assumes ok: "spaces_ok s S" and as: "aligned as" "used s as" "as \<notin> S" "as \<notin> table s ` live s S"
  shows "\<exists>s'. BuildAddressSpace as s = Some s' \<and> spaces_ok s' (insert as S) \<and>
    (\<forall>q \<in> S. \<forall>va. lookup s' q va = lookup s q va) \<and>
    (\<forall>va. lookup s' as va = (if va < KERNEL_BASE then None else lookup s (kernelAddressSpace s) va))"
proof -
  note D = spaces_okD [OF ok]
  let ?K = "kernelAddressSpace s"
  let ?d = "override_on (\<lambda>i. 0) (ram s ?K) {768..<1024}"
  let ?t = "s\<lparr>ram := (ram s)(as := ?d)\<rparr>"
  have w: "kernel4kPT s = nowin" "?K \<noteq> as" using D(1,2) as(3) by (auto simp: frames_ok_def)
  have b: "BuildAddressSpace as s = Some ?t"
  proof -
    let ?z = "s\<lparr>kernel4kPT := nowin[0 := as OR 3], ram := (ram s)(as := \<lambda>i. 0)\<rparr>"
    have "zero_page kernel4kVA (s\<lparr>kernel4kPT := nowin[0 := as OR 3]\<rparr>) = ?z" using as(1) by (simp add: win)
    then show ?thesis using copy_entries [of ?z as 256] as(1) w
      by (simp add: BuildAddressSpace_def alloc4k_first free4k_simps)
  qed
  have sl: "slots ?t (insert as S) = slots s S \<union> {as} \<times> {..<768}" by (auto simp: slots_def)
  have r: "p \<in> S \<Longrightarrow> ram ?t p = ram s p" for p using as(3) by auto
  have e: "y \<in> slots s S \<Longrightarrow> entry ?t y = entry s y" for y using slots_dir [of "fst y" "snd y" s S] D(2) r by (simp add: entry_def)
  have new: "y \<in> {as} \<times> {..<768} \<Longrightarrow> entry ?t y = 0" for y by (auto simp: entry_def override_on_def)
  have l: "live ?t (insert as S) = live s S" using e new by (auto simp: live_def sl)
  have li: "y \<in> live s S \<Longrightarrow> y \<in> slots s S" for y by (simp add: live_def)
  have tb: "y \<in> live s S \<Longrightarrow> table ?t y = table s y" for y using e [OF li] by (simp add: table_def)
  have ok': "spaces_ok ?t (insert as S)"
  proof (rule spaces_okI, unfold l sl)
    show "frames_ok ?t" using D(1) by (simp add: frames_ok_def)
    show "inj_on (table ?t) (live s S)" using D(5) tb by (auto simp: inj_on_def)
    show "y \<in> live s S \<Longrightarrow> used ?t (table ?t y)" "y \<in> live s S \<Longrightarrow> table ?t y \<notin> insert as S" for y
      using tb [of y] D(6,7) [of y] as(4) by (auto simp: used_def)
    show "y \<in> slots s S \<union> {as} \<times> {..<768} \<Longrightarrow> \<not> present (entry ?t y) \<Longrightarrow> entry ?t y = 0" for y
      using e [of y] new [of y] D(8) [of y] by auto
    show "768 \<le> i \<Longrightarrow> i < 1024 \<Longrightarrow> present (ram ?t (kernelAddressSpace ?t) i)" for i using D(9) w by simp
    show "768 \<le> i \<Longrightarrow> i < 1024 \<Longrightarrow> p \<in> insert as S \<Longrightarrow> ram ?t p i = ram ?t (kernelAddressSpace ?t) i" for i p
      using D(10) [of i p] w r by (cases "p = as") (auto simp: override_on_def)
    show "p \<in> insert as S \<Longrightarrow> aligned p" "p \<in> insert as S \<Longrightarrow> used ?t p" for p using D(3,4) as by (auto simp: used_def)
  qed (use D(2) in simp)
  have tr: "y \<in> live s S \<Longrightarrow> ram ?t (table s y) = ram s (table s y)" for y using as(4) by auto
  have so: "slot_of ?t q va = slot_of s q va" for q va by (simp add: slot_of_def)
  have "lookup ?t q va = lookup s q va" if "q \<in> S" for q va
    unfolding lookup_slot_of [OF ok' insertI2 [OF that]] lookup_slot_of [OF ok that] so l
    by (cases "slot_of s q va \<in> live s S") (simp_all only: tb tr simp_thms if_False)
  moreover have "lookup ?t as va = (if va < KERNEL_BASE then None else lookup s ?K va)" for va
  proof (cases "va < KERNEL_BASE")
    case True
    then have "\<not> 768 \<le> pdidx va" by (simp add: pdidx_kernel [symmetric])
    then show ?thesis using True by (simp add: lookup_def Let_def override_on_def)
  next
    case False
    then have "slot_of s as va = slot_of s ?K va" by (simp add: slot_of_def)
    then show ?thesis unfolding lookup_slot_of [OF ok' insertI1] lookup_slot_of [OF ok D(2)] so l if_not_P [OF False]
      by (cases "slot_of s ?K va \<in> live s S") (simp_all only: tb tr simp_thms if_False)
  qed
  ultimately show ?thesis using b ok' by blast
qed

section \<open>Sequences of operations\<close>

text \<open>
  What the rest of the kernel does with address spaces, apart from changes of the user pages of the space \<open>q\<close>:
  it maps and unmaps pages of other spaces and of the kernel, makes new spaces, and takes and gives back frames
  that hold no table.
\<close>

inductive space_step :: "dword \<Rightarrow> pstate \<times> dword set \<Rightarrow> pstate \<times> dword set \<Rightarrow> bool" for q where
  sp_map: "p \<in> S \<Longrightarrow> p \<noteq> q \<or> KERNEL_BASE \<le> va \<Longrightarrow> MapPage p va pa user write s = Some (r, s') \<Longrightarrow>
    space_step q (s, S) (s', S)"
| sp_unmap: "p \<in> S \<Longrightarrow> p \<noteq> q \<or> KERNEL_BASE \<le> va \<Longrightarrow> UnMapPage p va s = Some (r, s') \<Longrightarrow>
    space_step q (s, S) (s', S)"
| sp_build: "AllocFrame s = (as, s1) \<Longrightarrow> as \<noteq> - 1 \<Longrightarrow> BuildAddressSpace as s1 = Some s' \<Longrightarrow>
    space_step q (s, S) (s', insert as S)"
| sp_alloc: "AllocFrame s = (f, s') \<Longrightarrow> space_step q (s, S) (s', S)"
| sp_free: "aligned f \<Longrightarrow> f \<notin> S \<Longrightarrow> f \<notin> table s ` live s S \<Longrightarrow> FreeFrame f s = (r, s') \<Longrightarrow>
    space_step q (s, S) (s', S)"

text \<open>The bitmap alone, as long as the frames of the tables stay marked.\<close>

lemma spaces_ok_bitmap:
  assumes ok: "spaces_ok s S" and b: "s' = s\<lparr>pageFrameBitmap := b\<rparr>" "frames_ok s'"
    and keep: "\<And>f. f \<in> S \<or> f \<in> table s ` live s S \<Longrightarrow> used s' f"
  shows "spaces_ok s' S" "lookup s' p va = lookup s p va" "live s' S = live s S" "table s' = table s"
proof -
  note D = spaces_okD [OF ok]
  have e: "slots s' S = slots s S" "entry s' = entry s" "table s' = table s" "kernelAddressSpace s' = kernelAddressSpace s" "ram s' = ram s"
    by (auto simp: b(1) slots_def entry_def table_def fun_eq_iff)
  then have l: "live s' S = live s S" by (simp add: live_def)
  show "live s' S = live s S" "table s' = table s" "lookup s' p va = lookup s p va" using l e by (simp_all add: lookup_def)
  show "spaces_ok s' S"
    by (rule spaces_okI; (unfold e l)?) (fact b(2) D(2,3,5,7,8,9,10) | use keep in blast)+
qed

lemma AllocFrame_keeps:
  assumes ok: "spaces_ok s S" and a: "AllocFrame s = (f, s')"
  shows "spaces_ok s' S" "lookup s' p va = lookup s p va"
    "f \<noteq> - 1 \<Longrightarrow> aligned f \<and> used s' f \<and> f \<notin> S \<and> f \<notin> table s' ` live s' S"
proof -
  note D = spaces_okD [OF ok]
  have *: "spaces_ok s' S \<and> lookup s' p va = lookup s p va \<and> (f \<noteq> - 1 \<longrightarrow> aligned f \<and> used s' f \<and> f \<notin> S \<and> f \<notin> table s' ` live s' S)"
    using D(1)
  proof (cases rule: AllocFrame_cases)
    case 1
    then show ?thesis using a ok by simp
  next
    case (2 g b)
    have s': "f = g" "s' = s\<lparr>pageFrameBitmap := SetBit (pageFrameBitmap s) (frame_no f) True\<rparr>" using a 2 by auto
    have u: "aligned h \<Longrightarrow> used s' h = (h = f \<or> used s h)" for h using used_mark [OF D(1) 2(6,2), of h True] s' by auto
    have fr: "frames_ok s'" using D(1) by (simp add: frames_ok_def s'(2))
    have al: "h \<in> S \<or> h \<in> table s ` live s S \<Longrightarrow> aligned h \<and> used s h" for h using D(3,4,6) by (auto simp: table_def)
    then have "h \<in> S \<or> h \<in> table s ` live s S \<Longrightarrow> used s' h" for h using u by blast
    note B = spaces_ok_bitmap [OF ok s'(2) fr this]
    show ?thesis using B al u [of f] 2(2,3) s'(1) by auto
  qed
  then show "spaces_ok s' S" "lookup s' p va = lookup s p va"
    "f \<noteq> - 1 \<Longrightarrow> aligned f \<and> used s' f \<and> f \<notin> S \<and> f \<notin> table s' ` live s' S" by auto
qed

lemma FreeFrame_keeps:
  assumes ok: "spaces_ok s S" and a: "FreeFrame f s = (r, s')" and f: "aligned f" "f \<notin> S" "f \<notin> table s ` live s S"
  shows "spaces_ok s' S \<and> lookup s' p va = lookup s p va"
proof (cases "used s f")
  case True
  note D = spaces_okD [OF ok]
  have s': "s' = s\<lparr>pageFrameBitmap := SetBit (pageFrameBitmap s) (frame_no f) False\<rparr>" using a True by (simp add: FreeFrame_eq)
  have u: "aligned h \<Longrightarrow> used s' h = (h \<noteq> f \<and> used s h)" for h
    using used_mark [OF D(1) used_bound [OF D(1) True] f(1), of h False] s' by auto
  have al: "h \<in> S \<or> h \<in> table s ` live s S \<Longrightarrow> aligned h \<and> used s h \<and> h \<noteq> f" for h using D(3,4,6) f by (auto simp: table_def)
  then have k: "h \<in> S \<or> h \<in> table s ` live s S \<Longrightarrow> used s' h" for h using u by blast
  have "frames_ok s'" using D(1) by (simp add: frames_ok_def s')
  then show ?thesis using spaces_ok_bitmap [OF ok s' _ k] by simp
next
  case False
  then show ?thesis using a ok by (simp add: FreeFrame_eq)
qed

lemma space_step_keeps:
  assumes "space_step q st st'" "spaces_ok (fst st) (snd st)" "q \<in> snd st"
  shows "spaces_ok (fst st') (snd st') \<and> snd st \<subseteq> snd st' \<and>
    (\<forall>va. va < KERNEL_BASE \<longrightarrow> lookup (fst st') q va = lookup (fst st) q va)"
  using assms
proof (induction rule: space_step.induct)
  case (sp_map p S va pa user "write" s r s')
  then obtain P: "spaces_ok s' S" "\<not> r \<Longrightarrow> s' = s"
    "r \<Longrightarrow> \<forall>q \<in> S. \<forall>va'. lookup s' q va' = page_set p va (Some (page_base pa)) (lookup s) q va'"
    using MapPage_spec [of s S p va pa user "write"] by auto
  have "lookup s' q va' = lookup s q va'" if "va' < KERNEL_BASE" for va'
    using P sp_map that page_base_less [of va] page_base_less [of va'] by (cases r) (auto simp: page_set_def not_less [symmetric])
  then show ?case using P(1) by simp
next
  case (sp_unmap p S va s r s')
  then obtain P: "spaces_ok s' S" "\<forall>q \<in> S. \<forall>va'. lookup s' q va' = page_set p va None (lookup s) q va'"
    using UnMapPage_spec [of s S p va] by auto
  have "lookup s' q va' = lookup s q va'" if "va' < KERNEL_BASE" for va'
    using P sp_unmap that page_base_less [of va] page_base_less [of va'] by (auto simp: page_set_def not_less [symmetric])
  then show ?case using P(1) by simp
next
  case (sp_build s as s1 s' S)
  then have ok: "spaces_ok s S" "q \<in> S" by simp_all
  note A = AllocFrame_keeps [OF ok(1) sp_build(1)]
  show ?case using BuildAddressSpace_spec [OF A(1), of as] A(2,3) sp_build ok(2) by auto
next
  case (sp_alloc s f s' S)
  then show ?case using AllocFrame_keeps [of s S f s'] by simp
next
  case (sp_free f S s r s')
  then show ?case using FreeFrame_keeps [of s S f r s'] by simp
qed

lemma space_steps_keep:
  assumes "(space_step q)\<^sup>*\<^sup>* st st'" "spaces_ok (fst st) (snd st)" "q \<in> snd st"
  shows "spaces_ok (fst st') (snd st') \<and> q \<in> snd st' \<and>
    (\<forall>va. va < KERNEL_BASE \<longrightarrow> lookup (fst st') q va = lookup (fst st) q va)"
  using assms
proof (induction rule: rtranclp_induct)
  case (step st1 st2)
  then have i: "spaces_ok (fst st1) (snd st1)" "q \<in> snd st1"
    "\<forall>va. va < KERNEL_BASE \<longrightarrow> lookup (fst st1) q va = lookup (fst st) q va" by simp_all
  from space_step_keeps [OF step(2) i(1,2)] i(2,3) show ?case by auto
qed simp

section \<open>Runs of frames\<close>

lemma mark_frames_spec:
  assumes "bitmap_ok b" "pos + n \<le> bitCount b"
  shows "bitmap_ok (mark_frames n pos b)" "bm_set (mark_frames n pos b) = bm_set b \<union> {pos..<pos + n}"
    "bitCount (mark_frames n pos b) = bitCount b"
proof -
  have "bitmap_ok (mark_frames n pos b) \<and> bm_set (mark_frames n pos b) = bm_set b \<union> {pos..<pos + n} \<and> bitCount (mark_frames n pos b) = bitCount b"
    using assms(2)
  proof (induction n)
    case (Suc n)
    let ?c = "mark_frames n pos b"
    have c: "bitmap_ok ?c" "bm_set ?c = bm_set b \<union> {pos..<pos + n}" "bitCount ?c = bitCount b" using Suc by simp_all
    have e: "mark_frames (Suc n) pos b = SetBit ?c (pos + n) True" by (simp add: mark_frames_def)
    have "{pos..<pos + Suc n} = insert (pos + n) {pos..<pos + n}" by auto
    then show ?case unfolding e bm_set_SetBit [OF c(1)] using c Suc.prems by simp
  qed (simp add: mark_frames_def assms(1))
  then show "bitmap_ok (mark_frames n pos b)" "bm_set (mark_frames n pos b) = bm_set b \<union> {pos..<pos + n}"
    "bitCount (mark_frames n pos b) = bitCount b" by auto
qed

lemma AllocFrames_spec:
  assumes "frames_ok s" "0 < n" "AllocFrames n s = (f, s')"
  shows "if \<exists>b. run_at (pageFrameBitmap s) False n b
    then aligned f \<and> run_at (pageFrameBitmap s) False n (frame_no f) \<and> frames_ok s' \<and>
      bm_set (pageFrameBitmap s') = bm_set (pageFrameBitmap s) \<union> {frame_no f..<frame_no f + n}
    else f = - 1 \<and> s' = s"
proof -
  let ?b = "pageFrameBitmap s" and ?r = "FindFirst_run (pageFrameBitmap s) False n"
  have b: "bitmap_ok ?b" "bitCount ?b \<le> 2 ^ 20" using assms(1) by (simp_all add: frames_ok_def)
  note R = FindFirst_run_spec [OF b(1) assms(2), of False]
  show ?thesis
  proof (cases "\<exists>p. run_at ?b False n p")
    case True
    then have r: "run_at ?b False n ?r" using R by (simp add: first_run_def)
    then have bd: "?r + n \<le> bitCount ?b" by (simp add: run_at_def)
    then have "?r < 2 ^ 20" "?r \<noteq> InvalidOffset" using b(2) assms(2) by (auto simp: InvalidOffset_def)
    then have e: "f = of_nat ?r * PAGE_SIZE" "s' = s\<lparr>pageFrameBitmap := mark_frames n ?r ?b\<rparr>" "frame_no f = ?r"
      using assms(3) frame_no_mult [of ?r] by (auto simp: AllocFrames_def Let_def)
    show ?thesis using True r mark_frames_spec [OF b(1) bd] assms(1) e page_aligned_mult [of ?r] by (auto simp: frames_ok_def)
  next
    case False
    then show ?thesis using R assms(3) by (auto simp: first_run_def AllocFrames_def)
  qed
qed

text \<open>
  The search with an alignment: after a run that was too short the position has moved by the length of that run,
  so the frames it returns need not be aligned. Two frames at a multiple of two frames, with frame 1 in use:
\<close>

lemma aligned_frames_unaligned:
  assumes "\<not> GetBit b 0" "GetBit b 1" "\<not> GetBit b 3" "\<not> GetBit b 4" "5 \<le> bitCount b"
  shows "aligned_frames b 2 2 0 = 3"
proof -
  have "count_free b 2 0 0 = (1, 1)" "count_free b 2 3 0 = (5, 2)"
    using assms by (simp_all add: count_free.simps [of b 2 0 0] count_free.simps [of b 2 "Suc 0" "Suc 0"] count_free.simps [of b 2 3 0]
      count_free.simps [of b 2 4 "Suc 0"] count_free.simps [of b 2 5 "Suc (Suc 0)"] GetBitCount_def)
  then show ?thesis using assms by (simp add: aligned_frames.simps [of b 2 2 0] aligned_frames.simps [of b 2 2 "Suc (Suc (Suc 0))"] GetBitCount_def numeral_3_eq_3)
qed

text \<open>Two usable regions of memory are counted with the sum of their ends.\<close>

lemma getRAMSize_adds:
  "getRAMSize [(0x100000, 0xF00000, 1), (0x1000000, 0x1000000, 1)] = 0x1000000 + 0x2000000"
  by (simp add: getRAMSize_def u32_def)

section \<open>Unmapping a range\<close>

lemma va_of_nat: "di < 1024 \<Longrightarrow> ti < 1024 \<Longrightarrow> unat (va_of di ti) = di * 2 ^ 22 + ti * 2 ^ 12"
proof -
  assume b: "di < 1024" "ti < 1024"
  have "(push_bit 22 (of_nat di) :: dword) AND push_bit 12 (of_nat ti) = 0"
  proof (rule bit_eqI)
    fix n
    have "\<not> bit ti (n - 12)" if "22 \<le> n"
    proof -
      have "(2 :: nat) ^ 10 \<le> 2 ^ (n - 12)" using that by (intro power_increasing) auto
      then have "ti < 2 ^ (n - 12)" using b by simp
      then show ?thesis by (simp add: bit_iff_odd)
    qed
    then show "bit ((push_bit 22 (of_nat di) :: dword) AND push_bit 12 (of_nat ti)) n = bit (0 :: dword) n"
      by (auto simp: bit_and_iff bit_push_bit_iff bit_of_nat_iff)
  qed
  then have "va_of di ti = push_bit 22 (of_nat di) + push_bit 12 (of_nat ti)" by (simp add: va_of_def disjunctive_add_eq_or)
  then have "va_of di ti = of_nat (di * 2 ^ 22 + ti * 2 ^ 12)" by (simp add: push_bit_eq_mult)
  then show ?thesis using b by (simp only: unat_of_nat) simp
qed

lemma va_of_idx: "di < 1024 \<Longrightarrow> ti < 1024 \<Longrightarrow> pdidx (va_of di ti) = di \<and> ptidx (va_of di ti) = ti"
  by (simp add: idx_nat va_of_nat)

lemma for_while_append:
  "for_while f (xs @ ys) s = do { (go, s) \<leftarrow> for_while f xs s; if go then for_while f ys s else Some (False, s) }"
proof (induction xs arbitrary: s)
  case (Cons x xs)
  then show ?case by (cases "f x s") auto
qed simp

lemma for_while_skip: "\<forall>x \<in> set xs. f x s = Some (True, s) \<Longrightarrow> for_while f xs s = Some (True, s)"
  by (induction xs) auto

text \<open>The two pages of the range, with the directory in the first window and the second window free.\<close>

lemma page_mask: "x AND PAGE_MASK = page_base x"
proof -
  have "PAGE_MASK + 4096 = 0" by simp
  then have "PAGE_MASK = - 4096" by (simp only: eq_neg_iff_add_eq_0)
  then show ?thesis by (simp only: page_base_def) simp
qed

lemma FreeFrame_ram:
  "snd (FreeFrame f (s\<lparr>ram := m\<rparr>)) = snd (FreeFrame f s)\<lparr>ram := m\<rparr>"
  "snd (FreeFrame f (s\<lparr>kernel4kPT := xs\<rparr>)) = snd (FreeFrame f s)\<lparr>kernel4kPT := xs\<rparr>"
  by (simp_all add: FreeFrame_def Let_def)

lemma unmap_one_in_range:
  assumes "kernel4kPT s = nowin[0 := p OR 3]" "aligned p" "\<not> va_of di ti < startVA" "va_of di ti < startVA + rangeSize"
  shows "unmap_one kernel4kVA startVA rangeSize di ti s =
    (let t = page_base (ram s p di); m = put t ti 0 (ram s); s1 = snd (FreeFrame (page_base (ram s t ti)) s)\<lparr>ram := m\<rparr> in
     Some (True, if no_entries (m t) \<and> va_of di ti < KERNEL_BASE then snd (FreeFrame t s1)\<lparr>ram := put p di 0 m\<rparr> else s1))"
proof -
  let ?w = "nowin[0 := p OR 3]"
  have r1: "t\<lparr>kernel4kPT := ?w\<rparr> = t" "t\<lparr>ram := m, kernel4kPT := ?w\<rparr> = t\<lparr>ram := m\<rparr>"
    if "kernel4kPT t = ?w" for t :: pstate and m using that by simp_all
  have "\<not> (va_of di ti < startVA \<or> va_of di ti \<ge> startVA + rangeSize)" using assms(3,4) by auto
  note n = if_not_P [OF this]
  show ?thesis unfolding unmap_one_def page_mask Let_def n
    using assms(1,2) by (simp add: alloc4k_second rd_def wr_def window_simps free4k_simps page_base_or page_base_small FreeFrame_ram r1 flip: put_def)
qed

lemma no_entries_cleared:
  "\<forall>i < 1024. i \<noteq> ti \<longrightarrow> \<not> present (t i) \<Longrightarrow> no_entries (t(ti := 0))"
  by (simp add: no_entries_def)

lemma unmap_range_bounds:
  assumes "di < 768" "ti < 1023" "i < 1024"
  shows "pdidx (va_of di ti) = di" "pdidx (va_of di ti + 0x2000 + LARGE_PAGE_SIZE - 1) = di + 1"
    "va_of di i < va_of di ti \<longleftrightarrow> i < ti" "va_of di i < va_of di ti + 0x2000 \<longleftrightarrow> i < ti + 2" "va_of di i < KERNEL_BASE"
proof -
  have n: "unat (va_of di j) = di * 4194304 + j * 4096" if "j < 1024" for j using va_of_nat [of di j] that assms by simp
  have e: "unat (va_of di ti + 0x2000) = di * 4194304 + ti * 4096 + 8192"
    using n [of ti] assms by (subst unat_word_ariths) simp
  have e2: "unat (va_of di ti + 0x2000 + LARGE_PAGE_SIZE - 1) = di * 4194304 + ti * 4096 + 8192 + 4194303"
  proof -
    have "va_of di ti + 0x2000 + LARGE_PAGE_SIZE - 1 = va_of di ti + 0x2000 + 4194303" by simp
    then show ?thesis using e assms by (simp only: unat_word_ariths) simp
  qed
  show "pdidx (va_of di ti) = di" using va_of_idx [of di ti] assms by simp
  show "pdidx (va_of di ti + 0x2000 + LARGE_PAGE_SIZE - 1) = di + 1" unfolding idx_nat e2 using assms(2) by simp
  show "va_of di i < va_of di ti \<longleftrightarrow> i < ti" "va_of di i < va_of di ti + 0x2000 \<longleftrightarrow> i < ti + 2" "va_of di i < KERNEL_BASE"
    unfolding word_less_nat_alt e using n [OF assms(3)] n [of ti] assms by auto
qed

lemma UnmapRange_two_pages:
  assumes ok: "spaces_ok s S" "p \<in> S" "0 \<notin> S" and idx: "di < 768" "ti < 1023"
    and tbl: "present (ram s p di)" "t = page_base (ram s p di)" "t \<noteq> 0"
    and one: "present (ram s t ti)" "\<forall>i < 1024. i \<noteq> ti \<longrightarrow> \<not> present (ram s t i)"
  shows "\<exists>s'. UnmapRange p (va_of di ti) 0x2000 s = Some s' \<and> ram s' 0 = (ram s 0)(ti + 1 := 0)"
proof -
  note D = spaces_okD [OF ok(1)]
  let ?v = "va_of di ti"
  let ?w = "nowin[0 := p OR 3]"
  let ?s = "s\<lparr>kernel4kPT := ?w\<rparr>"
  let ?f = "unmap_one kernel4kVA ?v 0x2000 di"
  have w: "kernel4kPT s = nowin" and al: "aligned p" "p \<noteq> - 1" "p \<noteq> 0"
    using D(1,3) ok(2,3) aligned_not_m1 [of p] by (auto simp: frames_ok_def)
  have tp: "t \<noteq> p" using D(7) [of "(p, di)"] ok(2) idx(1) tbl by (auto simp: live_def slots_def entry_def table_def)
  note B = unmap_range_bounds [OF idx]
  have skip: "?f i u = Some (True, u)" if "i < 1024" "i < ti \<or> ti + 2 \<le> i" for i u
    using that B(3,4) [of i] by (auto simp: unmap_one_def Let_def not_le [symmetric])
  define s1 where "s1 = snd (FreeFrame t (snd (FreeFrame (page_base (ram s t ti)) ?s)))\<lparr>ram := put p di 0 (put t ti 0 (ram s))\<rparr>"
  have f1: "?f ti ?s = Some (True, s1)"
  proof -
    have "no_entries (put t ti 0 (ram s) t)" using one(2) no_entries_cleared by (simp add: put_def)
    then show ?thesis using unmap_one_in_range [of ?s p di ti ?v "0x2000"] al B(3,4,5) [of ti] idx tbl(2)
      by (simp add: s1_def Let_def FreeFrame_ram)
  qed
  have k1: "kernel4kPT s1 = ?w" "ram s1 p di = 0" "ram s1 0 = ram s 0" using tp al tbl(3) by (simp_all add: s1_def put_def)
  obtain s2 where f2: "?f (ti + 1) s1 = Some (True, s2)" "ram s2 0 = (ram s 0)(ti + 1 := 0)" "kernel4kPT s2 = ?w"
  proof -
    note U = unmap_one_in_range [OF k1(1) al(1), of di "ti + 1" ?v "0x2000"]
    have "\<not> va_of di (ti + 1) < ?v" "va_of di (ti + 1) < ?v + 0x2000" using B(3,4) [of "ti + 1"] idx by auto
    from U [OF this] k1 al(3) show ?thesis by (auto simp: Let_def page_base_small put_def intro!: that split: if_splits)
  qed
  have "[0..<1024] = [0..<ti] @ ti # (ti + 1) # [ti + 2..<1024]"
    using upt_add_eq_append [of 0 ti "1024 - ti"] upt_conv_Cons [of ti 1024] upt_conv_Cons [of "ti + 1" 1024] idx by simp
  then have "for_while ?f [0..<1024] ?s = Some (True, s2)"
    using for_while_skip [of "[0..<ti]" ?f ?s] for_while_skip [of "[ti + 2..<1024]" ?f s2] skip f1 f2(1) idx by (simp add: for_while_append)
  then have "UnmapRange p ?v 0x2000 s = Some (free4k kernel4kVA s2)"
    unfolding UnmapRange_def Let_def using B(1,2) [of 0] w al tbl(1) idx by (simp add: space_of_def alloc4k_first rd_def window_simps page_base_or page_base_small)
  then show ?thesis using f2(2) by (simp add: free4k_simps)
qed

section \<open>Properties\<close>

text \<open>The kernel's directory in frame 1, its 256 page tables in frames 16 to 271, and 300 of 1024 frames in use.\<close>

definition boot_space :: pstate where
  "boot_space = \<lparr>ram = \<lambda>f i. if f = 0x1000 \<and> 768 \<le> i \<and> i < 1024 then of_nat (i - 752) * PAGE_SIZE OR 3 else 0,
     kernel4kPT = nowin, pageFrameBitmap = mark_frames 300 0 (Bitmap_new 1024 False), kernelAddressSpace = 0x1000,
     CR3 = 0x1000, memoryTop = 0, dmaPtrList = []\<rparr>"

lemma boot_bitmap:
  "bitmap_ok (pageFrameBitmap boot_space)" "bm_set (pageFrameBitmap boot_space) = {..<300}" "bitCount (pageFrameBitmap boot_space) = 1024"
proof -
  have bm: "bitmap_ok (Bitmap_new 1024 False)" by (rule bitmap_ok_new) simp
  show "bitmap_ok (pageFrameBitmap boot_space)" "bm_set (pageFrameBitmap boot_space) = {..<300}" "bitCount (pageFrameBitmap boot_space) = 1024"
    using mark_frames_spec [OF bm, of 0 300] bm_set_new(1) [of 1024 False] by (auto simp: boot_space_def atLeast0LessThan)
qed

lemma boot_space_ok: "spaces_ok boot_space {0x1000}"
proof -
  note b = boot_bitmap
  have r: "ram boot_space 0x1000 i = (if 768 \<le> i \<and> i < 1024 then of_nat (i - 752) * PAGE_SIZE OR 3 else 0)" for i
    by (simp add: boot_space_def)
  have k: "kernelAddressSpace boot_space = 0x1000" by (simp add: boot_space_def)
  have al: "aligned 0x1000" by (simp add: page_base_def)
  have lv: "live boot_space {0x1000} = {0x1000} \<times> {768..<1024}" by (auto simp: live_def slots_def entry_def r k split: if_splits)
  have tb: "table boot_space (0x1000, i) = of_nat (i - 752) * PAGE_SIZE" if "768 \<le> i" "i < 1024" for i
    using that by (simp add: table_def entry_def r page_base_or page_base_small page_aligned_mult del: of_nat_diff)
  have fn: "frame_no (of_nat (i - 752) * PAGE_SIZE) = i - 752" if "i < 1024" for i using that by (intro frame_no_mult) simp
  have ft: "frame_no (table boot_space x) = snd x - 752" if "x \<in> {0x1000} \<times> {768..<1024}" for x
    using that tb [of "snd x"] fn [of "snd x"] by (cases x) (simp del: of_nat_diff)
  have f1: "frame_no 0x1000 = 1" by (simp add: frame_no_def)
  show ?thesis
  proof (rule spaces_okI, unfold k lv)
    show "frames_ok boot_space" using b by (simp add: frames_ok_def boot_space_def)
    show "inj_on (table boot_space) ({0x1000} \<times> {768..<1024})"
    proof (rule inj_onI)
      fix x y assume x: "x \<in> {0x1000} \<times> {768..<1024}" "y \<in> {0x1000} \<times> {768..<1024}" "table boot_space x = table boot_space y"
      have "snd x - 752 = snd y - 752" using ft [OF x(1)] ft [OF x(2)] x(3) by simp
      moreover have "752 \<le> snd x" "752 \<le> snd y" "fst x = 0x1000" "fst y = 0x1000" using x(1,2) by auto
      ultimately show "x = y" by (intro prod_eqI) auto
    qed
    show "x \<in> {0x1000} \<times> {768..<1024} \<Longrightarrow> used boot_space (table boot_space x)" for x using ft [of x] b(2) by (cases x) (simp add: used_def, linarith)
    show "x \<in> {0x1000} \<times> {768..<1024} \<Longrightarrow> table boot_space x \<notin> {0x1000}" for x
    proof
      assume x: "x \<in> {0x1000} \<times> {768..<1024}" "table boot_space x \<in> {0x1000}"
      then show False using ft [of x] f1 by auto
    qed
    show "x \<in> slots boot_space {0x1000} \<Longrightarrow> \<not> present (entry boot_space x) \<Longrightarrow> entry boot_space x = 0" for x
      by (auto simp: slots_def entry_def r k)
    show "p \<in> {0x1000} \<Longrightarrow> used boot_space p" for p using f1 b by (simp add: used_def)
  qed (use al r in auto)
qed

text \<open>C3.
  Page tables implement a map: on well-formed address spaces \<open>MapPage\<close> either changes nothing, and then every frame
  of the machine is in use, or makes the page of the address map to the given frame and changes no other page;
  \<open>UnMapPage\<close> succeeds exactly on a mapped page and removes that page only, also when it gives back the page table;
  a change of a kernel page shows in every space, one of a user page in its own space only; and
  \<open>GetPhysicalAddress\<close> reads the map. No window of the 4k range stays taken. The table of these windows is modelled
  apart from the frame that holds it, so addresses of the windows themselves (0xCFC00000 to 0xCFFFFFFF), which the
  code would map by rewriting that table, are outside the claim.\<close>

theorem page_tables_refine_map:
  assumes "spaces_ok s S" "p \<in> S"
  shows "(\<exists>r s'. MapPage p va pa user write s = Some (r, s') \<and> spaces_ok s' S \<and>
      (\<not> r \<longrightarrow> s' = s \<and> GetCountOf (pageFrameBitmap s) False = 0) \<and>
      (r \<longrightarrow> (\<forall>q \<in> S. \<forall>va'. lookup s' q va' = page_set p va (Some (page_base pa)) (lookup s) q va'))) \<and>
    (\<exists>s'. UnMapPage p va s = Some (lookup s p va \<noteq> None, s') \<and> spaces_ok s' S \<and>
      (\<forall>q \<in> S. \<forall>va'. lookup s' q va' = page_set p va None (lookup s) q va')) \<and>
    GetPhysicalAddress p va s = Some (case lookup s p va of None \<Rightarrow> - 1 | Some f \<Rightarrow> f + (va AND 0xFFF), s)"
proof (intro conjI)
  have b: "bitmap_ok (pageFrameBitmap s)" using spaces_okD(1) [OF assms(1)] by (simp add: frames_ok_def)
  have "GetCountOf (pageFrameBitmap s) False = 0" if "bm_set (pageFrameBitmap s) = {..<bitCount (pageFrameBitmap s)}"
    using that b by (simp add: GetCountOf_def bitmap_ok_def sub32_small)
  then show "\<exists>r s'. MapPage p va pa user write s = Some (r, s') \<and> spaces_ok s' S \<and>
      (\<not> r \<longrightarrow> s' = s \<and> GetCountOf (pageFrameBitmap s) False = 0) \<and>
      (r \<longrightarrow> (\<forall>q \<in> S. \<forall>va'. lookup s' q va' = page_set p va (Some (page_base pa)) (lookup s) q va'))"
    using MapPage_spec [OF assms, of va pa user "write"] by metis
  show "\<exists>s'. UnMapPage p va s = Some (lookup s p va \<noteq> None, s') \<and> spaces_ok s' S \<and>
      (\<forall>q \<in> S. \<forall>va'. lookup s' q va' = page_set p va None (lookup s) q va')"
    using UnMapPage_spec [OF assms, of va] by metis
qed (rule GetPhysicalAddress_spec [OF assms])

theorem page_tables_refine_map_witness:
  "\<exists>s'. MapPage 0x1000 0xC0001000 0x5000 False True boot_space = Some (True, s') \<and> GetPhysicalAddress 0x1000 0xC0001234 s' = Some (0x5234, s')"
proof -
  obtain r s' where s': "MapPage 0x1000 0xC0001000 0x5000 False True boot_space = Some (r, s')" "spaces_ok s' {0x1000}"
    "\<not> r \<longrightarrow> GetCountOf (pageFrameBitmap boot_space) False = 0"
    "r \<longrightarrow> (\<forall>va'. lookup s' 0x1000 va' = page_set 0x1000 0xC0001000 (Some (page_base 0x5000)) (lookup boot_space) 0x1000 va')"
    using page_tables_refine_map [OF boot_space_ok, of "0x1000" "0xC0001000" "0x5000" False True] by auto
  have r: r using s'(3) boot_bitmap by (simp add: GetCountOf_def bitmap_ok_def sub32_small)
  then have "lookup s' 0x1000 0xC0001234 = Some 0x5000" using s'(4) by (simp add: page_set_def page_base_def)
  then show ?thesis using page_tables_refine_map [OF s'(2), of "0x1000" "0xC0001234"] s'(1) r by auto
qed

text \<open>C5.
  Processes are isolated: whatever the kernel does with other address spaces and with its own pages (mapping and
  unmapping, making new spaces, taking and giving back frames that hold no table), in any order, every user
  address of a space translates as before, and the page tables stay well-formed.\<close>

theorem address_spaces_isolated:
  assumes "spaces_ok s S" "q \<in> S" "(space_step q)\<^sup>*\<^sup>* (s, S) (s', S')" "va < KERNEL_BASE"
  shows "spaces_ok s' S' \<and> q \<in> S' \<and>
    (\<exists>a. GetPhysicalAddress q va s = Some (a, s) \<and> GetPhysicalAddress q va s' = Some (a, s'))"
  using space_steps_keep [OF assms(3)] assms(1,2,4) GetPhysicalAddress_spec [of s S q va] GetPhysicalAddress_spec [of s' S' q va]
  by auto

theorem address_spaces_isolated_witness:
  "\<exists>as s1 s2 a. AllocFrame boot_space = (as, s1) \<and> BuildAddressSpace as s1 = Some s2 \<and> spaces_ok s2 {0x1000, as} \<and>
     GetPhysicalAddress 0x1000 0x400000 s2 = Some (a, s2)"
proof -
  have fr: "frames_ok boot_space" "bm_set (pageFrameBitmap boot_space) \<noteq> {..<bitCount (pageFrameBitmap boot_space)}"
    using spaces_okD(1) [OF boot_space_ok] by (simp_all add: boot_bitmap lessThan_eq_iff)
  obtain as s1 where a: "AllocFrame boot_space = (as, s1)" "as \<noteq> - 1" using AllocFrame_cases [OF fr(1)] fr(2) by metis
  note A = AllocFrame_keeps [OF boot_space_ok a(1)]
  obtain s2 where b: "BuildAddressSpace as s1 = Some s2" using BuildAddressSpace_spec [OF A(1), of as] A(3) a(2) by auto
  have "(space_step 0x1000)\<^sup>*\<^sup>* (boot_space, {0x1000}) (s2, insert as {0x1000})"
    using sp_build [OF a b, of "0x1000" "{0x1000}"] by (rule r_into_rtranclp)
  from address_spaces_isolated [OF boot_space_ok _ this, of "0x400000"]
  have "spaces_ok s2 {0x1000, as}" "\<exists>a. GetPhysicalAddress 0x1000 0x400000 s2 = Some (a, s2)" by (auto simp: insert_commute)
  then show ?thesis using a(1) b by blast
qed


text \<open>A page table in frame 400 with one page, the first of the second 4 MB.\<close>

definition one_page :: pstate where
  "one_page = boot_space\<lparr>pageFrameBitmap := SetBit (pageFrameBitmap boot_space) 400 True,
     ram := put 0x190000 0 0x5007 (put 0x1000 1 0x190007 (ram boot_space))\<rparr>"

lemma one_page_ok: "spaces_ok one_page {0x1000}"
proof -
  let ?f = "0x190000 :: dword"
  have f: "aligned ?f" "frame_no ?f = 400" by (simp_all add: page_base_def frame_no_def)
  let ?t = "boot_space\<lparr>pageFrameBitmap := SetBit (pageFrameBitmap boot_space) (frame_no ?f) True,
    ram := put (fst (0x1000, 1)) (snd (0x1000, 1 :: nat)) (?f OR 7) ((ram boot_space)(?f := \<lambda>i. 0))\<rparr>"
  have k: "kernelAddressSpace boot_space = 0x1000" "ram boot_space ?f = (\<lambda>i. 0)" by (auto simp: boot_space_def)
  have x: "(0x1000, 1) \<in> slots boot_space {0x1000}" "(0x1000, 1) \<notin> live boot_space {0x1000}"
    by (auto simp: slots_def live_def entry_def boot_space_def)
  have u: "\<not> used boot_space ?f" "frame_no ?f < bitCount (pageFrameBitmap boot_space)" by (simp_all add: used_def f boot_bitmap)
  note N = new_table [OF boot_space_ok x f(1) u refl]
  note P = put_entry(1) [OF N(1,2) refl, of 0 "0x5007", unfolded N(3)]
  have z: "(ram boot_space)(?f := \<lambda>i. 0) = ram boot_space" using k(2) by (metis fun_upd_triv)
  show ?thesis using P unfolding one_page_def f(2) z by simp
qed


end
