(* ===== verification/Heap.thy ===== *)
theory Heap
  imports Paging
begin

text \<open>
  \<open>kernel/memory.cpp\<close> and \<open>kernel/heap.cpp\<close>: copying and the kernel heap. The heap is a doubly linked list of
  blocks in the order of their addresses, each a header of 16 bytes followed by its data; free space is what
  lies between two blocks. The headers are a map from addresses, the data bytes another: the invariant keeps
  the two apart. \<open>free\<close> gives the pages it empties back to the frame allocator, on the page tables of the
  current address space. \<open>None\<close> is an access that faults.
\<close>

section \<open>Memory\<close>

(* src/kernel/memory.cpp:15-19 Memory::Set *)
fun Memory_Set :: "(nat \<Rightarrow> byte) \<Rightarrow> nat \<Rightarrow> byte \<Rightarrow> nat \<Rightarrow> (nat \<Rightarrow> byte)" where
  "Memory_Set m buf val 0 = m"
| "Memory_Set m buf val (Suc n) = Memory_Set (m(buf := val)) (buf + 1) val n"

(* src/kernel/memory.cpp:10-13 Memory::Zero *)
definition Memory_Zero :: "(nat \<Rightarrow> byte) \<Rightarrow> nat \<Rightarrow> nat \<Rightarrow> (nat \<Rightarrow> byte)" where
  "Memory_Zero m dst n = Memory_Set m dst 0 n"

(* src/kernel/memory.cpp:45-49 Memory::Move, forward *)
fun move_up :: "(nat \<Rightarrow> byte) \<Rightarrow> nat \<Rightarrow> nat \<Rightarrow> nat \<Rightarrow> (nat \<Rightarrow> byte)" where
  "move_up m d s 0 = m"
| "move_up m d s (Suc n) = move_up (m(d := m s)) (d + 1) (s + 1) n"

text \<open>The backward loop starts behind the last byte.\<close>

(* src/kernel/memory.cpp:50-53 Memory::Move, backward *)
fun move_down :: "(nat \<Rightarrow> byte) \<Rightarrow> nat \<Rightarrow> nat \<Rightarrow> nat \<Rightarrow> (nat \<Rightarrow> byte)" where
  "move_down m d s 0 = m"
| "move_down m d s (Suc n) = move_down (m(d - 1 := m (s - 1))) (d - 1) (s - 1) n"

(* src/kernel/memory.cpp:39-54 Memory::Move *)
definition Memory_Move :: "(nat \<Rightarrow> byte) \<Rightarrow> nat \<Rightarrow> nat \<Rightarrow> nat \<Rightarrow> (nat \<Rightarrow> byte)" where
  "Memory_Move m dst src n =
     (if n = 0 \<or> dst = src then m
      else if src > dst then move_up m dst src n
      else move_down m (dst + n) (src + n) n)"

(* src/kernel/memory.cpp:62-70 Memory::Move2D, forward *)
fun move2d_up :: "(nat \<Rightarrow> byte) \<Rightarrow> nat \<Rightarrow> nat \<Rightarrow> nat \<Rightarrow> nat \<Rightarrow> nat \<Rightarrow> nat \<Rightarrow> (nat \<Rightarrow> byte)" where
  "move2d_up m d s bpl dstride sstride 0 = m"
| "move2d_up m d s bpl dstride sstride (Suc lines) =
     move2d_up (Memory_Move m d s bpl) (d + dstride) (s + sstride) bpl dstride sstride lines"

(* src/kernel/memory.cpp:71-81 Memory::Move2D, backward *)
fun move2d_down :: "(nat \<Rightarrow> byte) \<Rightarrow> nat \<Rightarrow> nat \<Rightarrow> nat \<Rightarrow> nat \<Rightarrow> nat \<Rightarrow> nat \<Rightarrow> (nat \<Rightarrow> byte)" where
  "move2d_down m d s bpl dstride sstride 0 = m"
| "move2d_down m d s bpl dstride sstride (Suc lines) =
     move2d_down (Memory_Move m (d - dstride) (s - sstride) bpl) (d - dstride) (s - sstride) bpl dstride sstride lines"

(* src/kernel/memory.cpp:56-82 Memory::Move2D *)
definition Memory_Move2D :: "(nat \<Rightarrow> byte) \<Rightarrow> nat \<Rightarrow> nat \<Rightarrow> nat \<Rightarrow> nat \<Rightarrow> nat \<Rightarrow> nat \<Rightarrow> (nat \<Rightarrow> byte)" where
  "Memory_Move2D m d s bpl dstride sstride lines =
     (if d < s then move2d_up m d s bpl dstride sstride lines
      else move2d_down m (d + dstride * lines) (s + sstride * lines) bpl dstride sstride lines)"

(* src/kernel/memory.cpp:84-94 Memory::Compare *)
fun Memory_Compare :: "(nat \<Rightarrow> byte) \<Rightarrow> nat \<Rightarrow> nat \<Rightarrow> nat \<Rightarrow> int" where
  "Memory_Compare m p1 p2 0 = 0"
| "Memory_Compare m p1 p2 (Suc n) =
     (let dif = m p1 - m p2 in if dif \<noteq> 0 then uint dif else Memory_Compare m (p1 + 1) (p2 + 1) n)"

lemma Memory_Set_eq: "Memory_Set m p v n a = (if p \<le> a \<and> a < p + n then v else m a)"
proof (induction n arbitrary: m p)
  case (Suc n)
  show ?case unfolding Memory_Set.simps Suc.IH by auto
qed auto

lemma move_up_eq: "s > d \<Longrightarrow> move_up m d s n a = (if d \<le> a \<and> a < d + n then m (s + (a - d)) else m a)"
proof (induction n arbitrary: m d s)
  case (Suc n)
  then have "d + 1 < s + 1" by simp
  have e: "s + 1 + (a - (d + 1)) = s + (a - d)" if "d < a" using that by simp
  show ?case unfolding move_up.simps Suc.IH [OF \<open>d + 1 < s + 1\<close>] using Suc.prems e by (cases "a = d") auto
qed auto

lemma move_down_eq: "s \<le> d \<Longrightarrow> move_down m (d + n) (s + n) n a = (if d \<le> a \<and> a < d + n then m (s + (a - d)) else m a)"
proof (induction n arbitrary: m)
  case (Suc n)
  have "move_down m (d + Suc n) (s + Suc n) (Suc n) a = move_down (m(d + n := m (s + n))) (d + n) (s + n) n a" by simp
  also have "\<dots> = (if d \<le> a \<and> a < d + n then (m(d + n := m (s + n))) (s + (a - d)) else (m(d + n := m (s + n))) a)"
    using Suc by blast
  also have "\<dots> = (if d \<le> a \<and> a < d + Suc n then m (s + (a - d)) else m a)" using Suc.prems by auto
  finally show ?case .
qed auto

text \<open>\<open>Move\<close> copies the old bytes of the source also when the regions overlap.\<close>

lemma Memory_Move_eq: "Memory_Move m d s n a = (if d \<le> a \<and> a < d + n then m (s + (a - d)) else m a)"
  using move_up_eq [of d s m n a] move_down_eq [of s d m n a] by (auto simp: Memory_Move_def)

lemma Memory_Compare_zero: "Memory_Compare m p q n = 0 \<longleftrightarrow> (\<forall>i < n. m (p + i) = m (q + i))"
proof (induction n arbitrary: p q)
  case (Suc n)
  have "(\<forall>i < Suc n. m (p + i) = m (q + i)) \<longleftrightarrow> m p = m q \<and> (\<forall>i < n. m (p + 1 + i) = m (q + 1 + i))"
    by (auto simp: less_Suc_eq_0_disj)
  moreover have "uint (m p - m q) = 0 \<longleftrightarrow> m p = m q" by (simp add: uint_0_iff)
  ultimately show ?case using Suc.IH [of "p + 1" "q + 1"] by (auto simp: Let_def)
qed simp

section \<open>Blocks\<close>

(* src/kernel/include/heap.hpp:11-18 Heap::HeapBlock *)
record HeapBlock =
  Next :: nat
  Previous :: nat
  Size :: nat
  DebugName :: nat

(* src/kernel/include/heap.hpp:20-27 Heap, the static members *)
record heap =
  hblocks :: "nat \<Rightarrow> HeapBlock"
  hbytes :: "nat \<Rightarrow> byte"
  heapStart :: nat
  heapEnd :: nat
  heapSize :: nat
  defaultAlignment :: nat
  firstBlock :: nat
  lastBlock :: nat
  pages :: pstate

definition blk_update :: "nat \<Rightarrow> (HeapBlock \<Rightarrow> HeapBlock) \<Rightarrow> heap \<Rightarrow> heap" where
  "blk_update b f h = h\<lparr>hblocks := (hblocks h)(b := f (hblocks h b))\<rparr>"

text \<open>\<open>sizeof(HeapBlock)\<close> is 16. The literals that name the end blocks are addresses.\<close>

(* src/kernel/heap.cpp:162-185 Heap::Initialize *)
definition Heap_Initialize :: "nat \<Rightarrow> nat \<Rightarrow> nat \<Rightarrow> nat \<Rightarrow> nat \<Rightarrow> heap \<Rightarrow> heap" where
  "Heap_Initialize name_start name_end start endp alignment h =
     (let h = h\<lparr>heapStart := start, heapEnd := endp, heapSize := sub32 endp start, defaultAlignment := alignment,
                firstBlock := start, lastBlock := sub32 endp 16\<rparr>;
          h = blk_update (firstBlock h) (\<lambda>b. b\<lparr>Next := lastBlock h, Previous := firstBlock h, Size := 0, DebugName := name_start\<rparr>) h;
          h = blk_update (lastBlock h) (\<lambda>b. b\<lparr>Previous := firstBlock h, Next := lastBlock h, Size := 0\<rparr>) h
      in blk_update (firstBlock h) (\<lambda>b. b\<lparr>DebugName := name_end\<rparr>) h)"

(* src/kernel/heap.cpp:25-42 Heap::pageFault *)
definition Heap_pageFault :: "nat \<Rightarrow> heap \<Rightarrow> (bool \<times> heap) option" where
  "Heap_pageFault addr h =
     (if addr < heapStart h \<or> addr \<ge> heapEnd h then Some (False, h)
      else case AllocFrame (pages h) of
        (phAddr, s) \<Rightarrow>
          if phAddr = - 1 then Some (False, h\<lparr>pages := s\<rparr>)
          else do { (r, s) \<leftarrow> MapPage (CR3 s) (of_nat addr AND PAGE_MASK) phAddr False True s;
                    if \<not> r then Some (False, h\<lparr>pages := snd (FreeFrame phAddr s)\<rparr>) else Some (True, h\<lparr>pages := s\<rparr>) })"

(* src/kernel/heap.cpp:54-60 Heap::getMaxSize *)
definition Heap_getMaxSize :: "nat \<Rightarrow> heap \<Rightarrow> nat" where
  "Heap_getMaxSize ptr h = sub32 (Next (hblocks h (sub32 ptr 16))) ptr"

text \<open>The search follows the list from the first block; it gives the block before the gap and the new data address.\<close>

(* src/kernel/heap.cpp:66-75 Heap::allocate, search *)
partial_function (option) alloc_search :: "nat \<Rightarrow> nat \<Rightarrow> nat \<Rightarrow> heap \<Rightarrow> (nat \<times> nat) option option" where
  "alloc_search n alignment curBlk h =
     (if curBlk = lastBlock h then Some None
      else
        let blkDataEnd = u32 (curBlk + 16 + Size (hblocks h curBlk));
            nextBlkStart = Next (hblocks h curBlk);
            candidate = align (u32 (blkDataEnd + 16)) alignment;
            candidateEnd = u32 (candidate + n)
        in if candidate \<le> nextBlkStart \<and> candidateEnd \<le> nextBlkStart then Some (Some (curBlk, candidate))
           else alloc_search n alignment nextBlkStart h)"

(* src/kernel/heap.cpp:77-82 Heap::allocate, link *)
definition alloc_link :: "nat \<Rightarrow> nat \<Rightarrow> nat \<Rightarrow> heap \<Rightarrow> heap" where
  "alloc_link n curBlk newBlk h =
     (let h = blk_update newBlk (\<lambda>b. b\<lparr>Next := Next (hblocks h curBlk)\<rparr>) h;
          h = blk_update curBlk (\<lambda>b. b\<lparr>Next := newBlk\<rparr>) h;
          h = blk_update newBlk (\<lambda>b. b\<lparr>Previous := curBlk\<rparr>) h;
          h = blk_update (Next (hblocks h newBlk)) (\<lambda>b. b\<lparr>Previous := newBlk\<rparr>) h
      in blk_update newBlk (\<lambda>b. b\<lparr>Size := n\<rparr>) h)"

(* src/kernel/heap.cpp:62-89 Heap::allocate *)
definition Heap_allocate :: "nat \<Rightarrow> nat \<Rightarrow> bool \<Rightarrow> heap \<Rightarrow> (nat \<times> heap) option" where
  "Heap_allocate n alignment zero h =
     (let alignment = (if alignment < defaultAlignment h then defaultAlignment h else alignment) in
      if n = 0 then Some (0, h)
      else do { found \<leftarrow> alloc_search n alignment (firstBlock h) h;
                Some (case found of
                        None \<Rightarrow> (0, h)
                      | Some (curBlk, candidate) \<Rightarrow>
                          let h = alloc_link n curBlk (sub32 candidate 16) h
                          in (candidate, if zero then h\<lparr>hbytes := Memory_Zero (hbytes h) candidate n\<rparr> else h)) })"

text \<open>The loop that gives back pages, \<open>n\<close> of them from \<open>pagePtr\<close> on.\<close>

(* src/kernel/heap.cpp:130-135 Heap::free, loop *)
fun free_pages :: "dword \<Rightarrow> nat \<Rightarrow> pstate \<Rightarrow> pstate option" where
  "free_pages pagePtr 0 s = Some s"
| "free_pages pagePtr (Suc n) s =
     do { (phAddr, s) \<leftarrow> GetPhysicalAddress (- 1) pagePtr s;
          let s = (if phAddr \<noteq> - 1 then snd (FreeFrames phAddr 1 s) else s);
          (_, s) \<leftarrow> UnMapPage (- 1) pagePtr s;
          free_pages (pagePtr + PAGE_SIZE) n s }"

(* src/kernel/heap.cpp:115-136 Heap::free *)
definition Heap_free :: "nat \<Rightarrow> heap \<Rightarrow> heap option" where
  "Heap_free ptr h =
     (let blk = sub32 ptr 16; prev = Previous (hblocks h blk);
          prevEnd = u32 (prev + 16 + Size (hblocks h prev));
          thisEnd = u32 (blk + 16 + Size (hblocks h blk));
          h = blk_update prev (\<lambda>b. b\<lparr>Next := Next (hblocks h blk)\<rparr>) h;
          h = blk_update (Next (hblocks h blk)) (\<lambda>b. b\<lparr>Previous := Previous (hblocks h blk)\<rparr>) h;
          prevEndPagePtr = align prevEnd 4096;
          thisEndPagePtr = 4096 * (thisEnd div 4096)
      in do { s \<leftarrow> free_pages (of_nat prevEndPagePtr) ((thisEndPagePtr - prevEndPagePtr) div 4096) (pages h);
              Some (h\<lparr>pages := s\<rparr>) })"

text \<open>A block that cannot be moved: \<open>Move\<close> writes through the null pointer that \<open>allocate\<close> returned.\<close>

(* src/kernel/heap.cpp:91-113 Heap::resize *)
definition Heap_resize :: "nat \<Rightarrow> nat \<Rightarrow> nat \<Rightarrow> bool \<Rightarrow> heap \<Rightarrow> (nat \<times> heap) option" where
  "Heap_resize ptr n alignment zero h =
     (let alignment = (if alignment < defaultAlignment h then defaultAlignment h else alignment) in
      if ptr = 0 then Heap_allocate n alignment zero h
      else if n = 0 then map_option (\<lambda>h. (0, h)) (Heap_free ptr h)
      else
        let blk = sub32 ptr 16; old = Size (hblocks h blk) in
        if n > old \<and> (ptr mod alignment \<noteq> 0 \<or> n > Heap_getMaxSize ptr h) then
          do { (newPtr, h) \<leftarrow> Heap_allocate n alignment zero h;
               if newPtr = 0 then None
               else do { let h = h\<lparr>hbytes := Memory_Move (hbytes h) newPtr ptr (Size (hblocks h blk))\<rparr>;
                         h \<leftarrow> Heap_free ptr h;
                         Some (newPtr, h) } }
        else
          let h = (if zero \<and> n > old then h\<lparr>hbytes := Memory_Zero (hbytes h) (ptr + old) (n - old)\<rparr> else h)
          in Some (ptr, blk_update blk (\<lambda>b. b\<lparr>Size := n\<rparr>) h))"

(* src/kernel/heap.cpp:138-142 Heap::getSize *)
definition Heap_getSize :: "nat \<Rightarrow> heap \<Rightarrow> nat" where
  "Heap_getSize ptr h = Size (hblocks h (sub32 ptr 16))"

(* src/kernel/heap.cpp:144-148 Heap::setDebugName *)
definition Heap_setDebugName :: "nat \<Rightarrow> nat \<Rightarrow> heap \<Rightarrow> heap" where
  "Heap_setDebugName ptr name h = blk_update (sub32 ptr 16) (\<lambda>b. b\<lparr>DebugName := name\<rparr>) h"

(* src/kernel/heap.cpp:150-154 Heap::getDebugName *)
definition Heap_getDebugName :: "nat \<Rightarrow> heap \<Rightarrow> nat" where
  "Heap_getDebugName ptr h = DebugName (hblocks h (sub32 ptr 16))"

(* src/kernel/heap.cpp:156-160 Heap::isOnHeap *)
definition Heap_isOnHeap :: "nat \<Rightarrow> heap \<Rightarrow> bool" where
  "Heap_isOnHeap p h \<longleftrightarrow> p \<ge> u32 (heapStart h + 32) \<and> p < heapEnd h"

section \<open>The locked interface\<close>

text \<open>The result of \<open>lock\<close> is the argument \<open>c\<close>.\<close>

(* src/kernel/heap.cpp:187-193 Heap::Allocate *)
definition Heap_Allocate :: "bool \<Rightarrow> nat \<Rightarrow> bool \<Rightarrow> heap \<Rightarrow> (nat \<times> heap) option" where
  "Heap_Allocate c n zero h = (if \<not> c then Some (0, h) else Heap_allocate n (defaultAlignment h) zero h)"

(* src/kernel/heap.cpp:195-201 Heap::Allocate, with an alignment *)
definition Heap_Allocate_aligned :: "bool \<Rightarrow> nat \<Rightarrow> nat \<Rightarrow> bool \<Rightarrow> heap \<Rightarrow> (nat \<times> heap) option" where
  "Heap_Allocate_aligned c n alignment zero h = (if \<not> c then Some (0, h) else Heap_allocate n alignment zero h)"

(* src/kernel/heap.cpp:203-209 Heap::Resize *)
definition Heap_Resize :: "bool \<Rightarrow> nat \<Rightarrow> nat \<Rightarrow> nat \<Rightarrow> bool \<Rightarrow> heap \<Rightarrow> (nat \<times> heap) option" where
  "Heap_Resize c ptr n alignment zero h = (if \<not> c then Some (0, h) else Heap_resize ptr n alignment zero h)"

(* src/kernel/heap.cpp:211-216 Heap::Free *)
definition Heap_Free :: "bool \<Rightarrow> nat \<Rightarrow> heap \<Rightarrow> heap option" where
  "Heap_Free c ptr h = (if \<not> c then Some h else Heap_free ptr h)"

(* src/kernel/heap.cpp:218-224 Heap::GetSize *)
definition Heap_GetSize :: "bool \<Rightarrow> nat \<Rightarrow> heap \<Rightarrow> nat" where
  "Heap_GetSize c ptr h = (if \<not> c then 0 else Heap_getSize ptr h)"

(* src/kernel/heap.cpp:226-231 Heap::SetDebugName *)
definition Heap_SetDebugName :: "bool \<Rightarrow> nat \<Rightarrow> nat \<Rightarrow> heap \<Rightarrow> heap" where
  "Heap_SetDebugName c ptr name h = (if \<not> c then h else Heap_setDebugName ptr name h)"

text \<open>\<open>GetDebugName\<close> calls itself with the lock held; the list has the results of its attempts to lock.\<close>

(* src/kernel/heap.cpp:233-239 Heap::GetDebugName *)
fun Heap_GetDebugName :: "bool list \<Rightarrow> nat \<Rightarrow> heap \<Rightarrow> nat" where
  "Heap_GetDebugName [] ptr h = 0"
| "Heap_GetDebugName (c # cs) ptr h = (if \<not> c then 0 else Heap_GetDebugName cs ptr h)"

(* src/kernel/heap.cpp:241-247 Heap::IsOnHeap *)
definition Heap_IsOnHeap :: "bool \<Rightarrow> nat \<Rightarrow> heap \<Rightarrow> bool" where
  "Heap_IsOnHeap c ptr h \<longleftrightarrow> c \<and> Heap_isOnHeap ptr h"

(* src/kernel/heap.cpp:249-252 Heap::GetHeapStart *)
definition Heap_GetHeapStart :: "heap \<Rightarrow> nat" where
  "Heap_GetHeapStart h = heapStart h"

section \<open>The list of blocks\<close>

definition link :: "heap \<Rightarrow> nat \<Rightarrow> nat \<Rightarrow> bool" where
  "link h a b \<longleftrightarrow> Next (hblocks h a) = b \<and> Previous (hblocks h b) = a \<and> a + 16 + Size (hblocks h a) \<le> b"

definition heap_ok :: "heap \<Rightarrow> nat list \<Rightarrow> bool" where
  "heap_ok h bs \<longleftrightarrow> successively (link h) bs \<and> 2 \<le> length bs \<and> hd bs = firstBlock h \<and> last bs = lastBlock h \<and>
     firstBlock h = heapStart h \<and> lastBlock h + 16 = heapEnd h \<and> heapEnd h < 2 ^ 32 \<and> 0 < defaultAlignment h"

definition before :: "heap \<Rightarrow> nat \<Rightarrow> nat \<Rightarrow> bool" where
  "before h a b \<longleftrightarrow> a + 16 + Size (hblocks h a) \<le> b"

lemma before_trans: "before h a b \<Longrightarrow> before h b c \<Longrightarrow> before h a c"
  by (simp add: before_def)

lemma blocks_sorted: "successively (link h) bs \<Longrightarrow> sorted_wrt (before h) bs"
proof -
  assume "successively (link h) bs"
  then have "successively (before h) bs" by (rule successively_mono) (auto simp: link_def before_def)
  moreover have "transp (before h)" by (auto simp: transp_def intro: before_trans)
  ultimately show ?thesis by (simp add: successively_conv_sorted_wrt)
qed

lemma before_less: "before h a b \<Longrightarrow> a < b"
  by (simp add: before_def)

lemma blocks_distinct: "successively (link h) bs \<Longrightarrow> distinct bs"
proof -
  have "sorted_wrt (before h) bs \<Longrightarrow> distinct bs" by (induction bs) (auto dest: before_less)
  then show "successively (link h) bs \<Longrightarrow> distinct bs" using blocks_sorted by blast
qed

text \<open>Any two blocks are apart, headers included.\<close>

definition extent :: "heap \<Rightarrow> nat \<Rightarrow> nat set" where
  "extent h b = {b..<b + 16 + Size (hblocks h b)}"

lemma blocks_disjoint:
  assumes "successively (link h) bs" "a \<in> set bs" "b \<in> set bs" "a \<noteq> b"
  shows "extent h a \<inter> extent h b = {}"
proof -
  have "before h a b \<or> before h b a"
    using blocks_sorted [OF assms(1)] assms(2-4) by (auto simp: in_set_conv_nth sorted_wrt_iff_nth_less) (metis nat_neq_iff)
  then show ?thesis by (auto simp: extent_def before_def)
qed

lemma heap_okD:
  assumes "heap_ok h bs"
  shows "successively (link h) bs" "sorted_wrt (before h) bs" "distinct bs" "bs \<noteq> []"
    "b \<in> set bs \<Longrightarrow> b \<le> lastBlock h" "b \<in> set bs \<Longrightarrow> b \<noteq> lastBlock h \<Longrightarrow> before h b (lastBlock h)"
    "b \<in> set bs \<Longrightarrow> b \<noteq> heapStart h \<Longrightarrow> before h (heapStart h) b"
proof -
  show s: "successively (link h) bs" "sorted_wrt (before h) bs" "distinct bs" and ne: "bs \<noteq> []"
    using assms blocks_sorted blocks_distinct by (auto simp: heap_ok_def)
  have "last bs = lastBlock h" using assms by (simp add: heap_ok_def)
  then obtain xs where x: "bs = xs @ [lastBlock h]" using ne append_butlast_last_id [of bs] by metis
  show l: "b \<in> set bs \<Longrightarrow> b \<noteq> lastBlock h \<Longrightarrow> before h b (lastBlock h)" using s(2) by (auto simp: x sorted_wrt_append)
  then show "b \<in> set bs \<Longrightarrow> b \<le> lastBlock h" using before_less by (cases "b = lastBlock h") (auto intro: less_imp_le)
  obtain ys where y: "bs = heapStart h # ys" using ne assms by (cases bs) (auto simp: heap_ok_def)
  show "b \<in> set bs \<Longrightarrow> b \<noteq> heapStart h \<Longrightarrow> before h (heapStart h) b" using s(2) by (auto simp: y)
qed

section \<open>Finding a gap\<close>

definition fits :: "heap \<Rightarrow> nat \<Rightarrow> nat \<Rightarrow> nat \<Rightarrow> nat \<Rightarrow> bool" where
  "fits h n alignment a b \<longleftrightarrow> align (a + 32 + Size (hblocks h a)) alignment + n \<le> b"

lemma alloc_search_spec:
  assumes "successively (link h) (cur # ys)" "last (cur # ys) = lastBlock h" "lastBlock h + n + alignment + 48 < 2 ^ 32" "0 < alignment"
  shows "alloc_search n alignment cur h = Some None \<and> successively (\<lambda>a b. \<not> fits h n alignment a b) (cur # ys) \<or>
    (\<exists>us a b vs. cur # ys = us @ a # b # vs \<and> fits h n alignment a b \<and>
       alloc_search n alignment cur h = Some (Some (a, align (a + 32 + Size (hblocks h a)) alignment)))"
  using assms(1,2)
proof (induction ys arbitrary: cur)
  case Nil
  then show ?case by (simp add: alloc_search.simps)
next
  case (Cons b ys)
  have lk: "link h cur b" and rest: "successively (link h) (b # ys)" "last (b # ys) = lastBlock h" using Cons.prems by auto
  have bl: "b \<le> lastBlock h"
  proof (cases "ys = []")
    case False
    then have "before h b (last ys)" using blocks_sorted [OF rest(1)] by simp
    then show ?thesis using rest(2) False before_less by (auto intro: less_imp_le)
  qed (use rest in simp)
  have ne: "cur \<noteq> lastBlock h" "Next (hblocks h cur) = b" using lk bl by (auto simp: link_def)
  let ?e = "cur + 32 + Size (hblocks h cur)"
  have sm: "?e + alignment + n < 2 ^ 32" using lk bl assms(3) by (simp add: link_def)
  then have u: "u32 (cur + 16 + Size (hblocks h cur)) = cur + 16 + Size (hblocks h cur)" "u32 (u32 (cur + 16 + Size (hblocks h cur)) + 16) = ?e"
    by (simp_all add: u32_small)
  have al: "align ?e alignment < ?e + alignment" using align_ge(3) [of alignment ?e] assms(4) sm by simp
  then have ce: "u32 (align ?e alignment + n) = align ?e alignment + n" using sm by (intro u32_small) simp
  have st: "alloc_search n alignment cur h =
      (if fits h n alignment cur b then Some (Some (cur, align ?e alignment)) else alloc_search n alignment b h)"
    using ne u ce by (subst alloc_search.simps) (auto simp: Let_def fits_def)
  show ?case
  proof (cases "fits h n alignment cur b")
    case True
    then show ?thesis using st by (intro disjI2 exI [of _ "[]"] exI [of _ cur] exI [of _ b] exI [of _ ys]) simp
  next
    case False
    from Cons.IH [OF rest] show ?thesis
    proof (elim disjE exE conjE)
      fix us a b' vs assume "b # ys = us @ a # b' # vs" "fits h n alignment a b'"
        "alloc_search n alignment b h = Some (Some (a, align (a + 32 + Size (hblocks h a)) alignment))"
      then show ?thesis using st False by (intro disjI2 exI [of _ "cur # us"] exI [of _ a] exI [of _ b'] exI [of _ vs]) simp
    qed (use st False in auto)
  qed
qed

section \<open>Linking and unlinking\<close>

lemma link_frame:
  assumes "successively (link h) xs"
    and "\<And>x. x \<in> set (butlast xs) \<Longrightarrow> Next (hblocks h' x) = Next (hblocks h x) \<and> Size (hblocks h' x) = Size (hblocks h x)"
    and "\<And>x. x \<in> set (tl xs) \<Longrightarrow> Previous (hblocks h' x) = Previous (hblocks h x)"
  shows "successively (link h') xs"
  using assms
proof (induction xs rule: induct_list012)
  case (3 x y zs)
  have "successively (link h') (y # zs)" by (rule "3.IH"(2)) (use "3.prems" in auto)
  then show ?case using "3.prems"(1) "3.prems"(2) [of x] "3.prems"(3) [of y] by (simp add: link_def)
qed simp_all

lemma hblocks_alloc_link:
  assumes "Next (hblocks h a) = b" "a \<noteq> b" "nb \<noteq> a" "nb \<noteq> b"
  shows "hblocks (alloc_link n a nb h) x =
    (if x = nb then (hblocks h nb)\<lparr>Next := b, Previous := a, Size := n\<rparr>
     else if x = a then (hblocks h a)\<lparr>Next := nb\<rparr>
     else if x = b then (hblocks h b)\<lparr>Previous := nb\<rparr> else hblocks h x)"
  using assms by (simp add: alloc_link_def blk_update_def Let_def)

lemma alloc_link_fields [simp]:
  "hbytes (alloc_link n a nb h) = hbytes h" "heapStart (alloc_link n a nb h) = heapStart h" "heapEnd (alloc_link n a nb h) = heapEnd h"
  "firstBlock (alloc_link n a nb h) = firstBlock h" "lastBlock (alloc_link n a nb h) = lastBlock h"
  "defaultAlignment (alloc_link n a nb h) = defaultAlignment h" "pages (alloc_link n a nb h) = pages h"
  by (simp_all add: alloc_link_def blk_update_def Let_def)

lemma alloc_link_spec:
  assumes ok: "heap_ok h (us @ a # b # vs)" and nb: "a + 16 + Size (hblocks h a) \<le> nb" "nb + 16 + n \<le> b"
    and h': "h' = alloc_link n a nb h"
  shows "heap_ok h' (us @ a # nb # b # vs)" "nb \<notin> set (us @ a # b # vs)" "Size (hblocks h' nb) = n"
    "x \<noteq> nb \<Longrightarrow> Size (hblocks h' x) = Size (hblocks h x)"
proof -
  note D = heap_okD [OF ok]
  have so: "\<forall>x \<in> set us. before h x a" "\<forall>y \<in> set vs. before h b y" "link h a b"
    using D(1,2) by (auto simp: sorted_wrt_append successively_append_iff)
  have ls: "x \<in> set us \<Longrightarrow> x < a" "y \<in> set vs \<Longrightarrow> b < y" "a < nb" "nb < b" for x y
    using so nb before_less by auto
  have lnb: "x \<in> set us \<Longrightarrow> x < nb" "y \<in> set vs \<Longrightarrow> nb < y" for x y using ls by (auto intro: less_trans)
  have far: "x \<in> set us \<Longrightarrow> x \<noteq> b" "y \<in> set vs \<Longrightarrow> y \<noteq> a" for x y using ls(3,4) lnb by fastforce+
  show out: "nb \<notin> set (us @ a # b # vs)" using ls lnb by auto
  have nx: "Next (hblocks h a) = b" using so(3) by (simp add: link_def)
  note B = hblocks_alloc_link [OF nx, of nb n, folded h']
  have "a \<noteq> b" "nb \<noteq> a" "nb \<noteq> b" using ls by auto
  note B = B [OF this]
  show "Size (hblocks h' nb) = n" "x \<noteq> nb \<Longrightarrow> Size (hblocks h' x) = Size (hblocks h x)" by (auto simp: B)
  have us: "successively (link h') (us @ [a])"
  proof (rule link_frame [of h])
    show "successively (link h) (us @ [a])" using D(1) by (auto simp: successively_append_iff)
    fix x assume "x \<in> set (tl (us @ [a]))"
    then have "x \<in> set us \<or> x = a" by (cases us) auto
    then have "x \<noteq> nb \<and> x \<noteq> b" using lnb(1) [of x] far(1) [of x] ls(3,4) by auto
    then show "Previous (hblocks h' x) = Previous (hblocks h x)" by (simp add: B)
  qed (use ls lnb far in \<open>auto simp: B butlast_append\<close>)
  have vs: "successively (link h') (b # vs)"
  proof (rule link_frame [of h])
    show "successively (link h) (b # vs)" using D(1) by (auto simp: successively_append_iff)
    fix x assume "x \<in> set (butlast (b # vs))"
    then have "x \<in> set (b # vs)" by (rule in_set_butlastD)
    then have "x \<noteq> nb \<and> x \<noteq> a" using lnb(2) [of x] far(2) [of x] ls(3,4) by auto
    then show "Next (hblocks h' x) = Next (hblocks h x) \<and> Size (hblocks h' x) = Size (hblocks h x)" by (simp add: B)
  next
    fix x assume "x \<in> set (tl (b # vs))"
    then have "x \<noteq> nb \<and> x \<noteq> a \<and> x \<noteq> b" using lnb(2) [of x] far(2) [of x] ls(2) [of x] by auto
    then show "Previous (hblocks h' x) = Previous (hblocks h x)" by (simp add: B)
  qed
  have "link h' a nb" "link h' nb b" using nb ls by (auto simp: link_def B)
  then have "successively (link h') (us @ a # nb # b # vs)"
    using us vs by (auto simp: successively_append_iff)
  then show "heap_ok h' (us @ a # nb # b # vs)" using ok by (cases us) (auto simp: heap_ok_def h')
qed

lemma alloc_bounds:
  assumes "fits h n alignment a b" "link h a b" "b \<le> lastBlock h" "lastBlock h + n + alignment + 48 < 2 ^ 32" "0 < alignment"
    "p = align (a + 32 + Size (hblocks h a)) alignment"
  shows "sub32 p 16 = p - 16" "16 \<le> p" "a + 16 + Size (hblocks h a) \<le> p - 16" "p - 16 + 16 + n \<le> b" "alignment dvd p"
proof -
  have "a + 16 + Size (hblocks h a) \<le> b" using assms(2) by (simp add: link_def)
  then have sm: "a + 32 + Size (hblocks h a) + (alignment - 1) < 2 ^ 32" using assms(3,4) by linarith
  note A = align_ge [OF assms(5) sm, folded assms(6)]
  show "16 \<le> p" "a + 16 + Size (hblocks h a) \<le> p - 16" "alignment dvd p" using A by auto
  show "p - 16 + 16 + n \<le> b" using A assms(1,6) by (simp add: fits_def)
  have "p < 2 ^ 32" using assms(1,3,4,6) by (simp add: fits_def)
  then show "sub32 p 16 = p - 16" using A(1) by (intro sub32_small) auto
qed

lemma heap_ok_bytes [simp]: "heap_ok (h\<lparr>hbytes := m\<rparr>) bs = heap_ok h bs" "heap_ok (h\<lparr>pages := s\<rparr>) bs = heap_ok h bs"
  by (auto simp: heap_ok_def link_def [abs_def])

text \<open>What a block holds.\<close>

definition same_block :: "heap \<Rightarrow> heap \<Rightarrow> nat \<Rightarrow> bool" where
  "same_block h h' b \<longleftrightarrow> Size (hblocks h' b) = Size (hblocks h b) \<and>
     (\<forall>a. b + 16 \<le> a \<and> a < b + 16 + Size (hblocks h b) \<longrightarrow> hbytes h' a = hbytes h a)"

lemma Heap_allocate_spec:
  assumes ok: "heap_ok h bs" and n: "0 < n" and al: "al = max alignment (defaultAlignment h)" and bd: "heapEnd h + n + al + 32 < 2 ^ 32"
  shows "Heap_allocate n alignment zero h = Some (0, h) \<and> successively (\<lambda>a b. \<not> fits h n al a b) bs \<or>
    (\<exists>p h' us a b vs. Heap_allocate n alignment zero h = Some (p, h') \<and> 16 \<le> p \<and> al dvd p \<and> bs = us @ a # b # vs \<and>
       heap_ok h' (us @ a # (p - 16) # b # vs) \<and> p - 16 \<notin> set bs \<and> Size (hblocks h' (p - 16)) = n \<and>
       (\<forall>x \<in> set bs. same_block h h' x) \<and> (zero \<longrightarrow> (\<forall>i < n. hbytes h' (p + i) = 0)) \<and> pages h' = pages h)"
proof -
  note D = heap_okD [OF ok]
  have l: "lastBlock h + 16 = heapEnd h" "0 < defaultAlignment h" "hd bs = firstBlock h" "last bs = lastBlock h"
    using ok by (auto simp: heap_ok_def)
  have a0: "(if alignment < defaultAlignment h then defaultAlignment h else alignment) = al" "0 < al" using al l(2) by auto
  obtain ys where ys: "bs = firstBlock h # ys" using D(4) l(3) by (cases bs) auto
  have b1: "lastBlock h + n + al + 48 < 2 ^ 32" using bd l(1) by simp
  have s1: "successively (link h) (firstBlock h # ys)" "last (firstBlock h # ys) = lastBlock h" using D(1) l(4) ys by simp_all
  from alloc_search_spec [OF s1 b1 a0(2)] show ?thesis
  proof (elim disjE exE conjE)
    assume "alloc_search n al (firstBlock h) h = Some None" "successively (\<lambda>a b. \<not> fits h n al a b) (firstBlock h # ys)"
    then show ?thesis using n a0 ys by (simp add: Heap_allocate_def Let_def)
  next
    fix us a b vs
    let ?p = "align (a + 32 + Size (hblocks h a)) al"
    assume f: "firstBlock h # ys = us @ a # b # vs" "fits h n al a b"
      "alloc_search n al (firstBlock h) h = Some (Some (a, ?p))"
    have bs: "bs = us @ a # b # vs" using f(1) ys by simp
    have lk: "link h a b" "b \<le> lastBlock h" using D(1,5) by (auto simp: bs successively_append_iff)
    note B = alloc_bounds [OF f(2) lk b1 a0(2) refl]
    let ?l = "alloc_link n a (?p - 16) h"
    let ?h = "if zero then ?l\<lparr>hbytes := Memory_Zero (hbytes ?l) ?p n\<rparr> else ?l"
    have e: "Heap_allocate n alignment zero h = Some (?p, ?h)"
      using n a0 f(3) B(1) by (simp add: Heap_allocate_def Let_def)
    note L = alloc_link_spec [OF ok [unfolded bs] B(3,4) refl]
    have hok: "heap_ok ?h (us @ a # (?p - 16) # b # vs)" using L(1) by simp
    have sz: "Size (hblocks ?h (?p - 16)) = n" "x \<in> set bs \<Longrightarrow> Size (hblocks ?h x) = Size (hblocks h x)" for x
      using L(2,3) L(4) [of x] bs by auto
    have same: "same_block h ?h x" if x: "x \<in> set bs" for x
    proof -
      have "x \<noteq> ?p - 16" using x L(2) bs by metis
      moreover have "x \<in> set (us @ a # (?p - 16) # b # vs)" using x bs by auto
      ultimately have "extent ?h x \<inter> extent ?h (?p - 16) = {}"
        by (intro blocks_disjoint [OF heap_okD(1) [OF hok]]) simp_all
      moreover have "extent ?h (?p - 16) = {?p - 16..<?p + n}" using sz(1) B(2) by (auto simp: extent_def)
      ultimately have "a' \<notin> {?p..<?p + n}" if "x + 16 \<le> a'" "a' < x + 16 + Size (hblocks h x)" for a'
        using that sz(2) [OF x] B(2) by (auto simp: extent_def)
      then show ?thesis using sz(2) [OF x] by (auto simp: same_block_def Memory_Zero_def Memory_Set_eq)
    qed
    have z: "zero \<longrightarrow> (\<forall>i < n. hbytes ?h (?p + i) = 0)" by (simp add: Memory_Zero_def Memory_Set_eq)
    have pg: "pages ?h = pages h" by simp
    show ?thesis
      by (intro disjI2 exI [of _ ?p] exI [of _ ?h] exI [of _ us] exI [of _ a] exI [of _ b] exI [of _ vs] conjI ballI)
        (fact e B(2,5) bs hok L(2) [folded bs] sz(1) same z pg)+
  qed
qed

lemma Heap_free_eq:
  assumes ok: "heap_ok h (us @ a # b # c # vs)"
  shows "Heap_free (b + 16) h =
    map_option (\<lambda>s. h\<lparr>pages := s, hblocks := (hblocks h)(a := (hblocks h a)\<lparr>Next := c\<rparr>, c := (hblocks h c)\<lparr>Previous := a\<rparr>)\<rparr>)
      (free_pages (of_nat (align (a + 16 + Size (hblocks h a)) 4096))
        ((4096 * ((b + 16 + Size (hblocks h b)) div 4096) - align (a + 16 + Size (hblocks h a)) 4096) div 4096) (pages h))"
proof -
  note D = heap_okD [OF ok]
  have lk: "link h a b" "link h b c" and cl: "c \<le> lastBlock h" using D(1,5) by (auto simp: successively_append_iff)
  have e: "heapEnd h < 2 ^ 32" "lastBlock h + 16 = heapEnd h" using ok by (auto simp: heap_ok_def)
  have bd: "a + 16 + Size (hblocks h a) \<le> b" "b + 16 + Size (hblocks h b) \<le> c" "a < b" "b < c" using lk by (auto simp: link_def)
  have u: "sub32 (b + 16) 16 = b" "u32 (a + 16 + Size (hblocks h a)) = a + 16 + Size (hblocks h a)"
    "u32 (b + 16 + Size (hblocks h b)) = b + 16 + Size (hblocks h b)"
    using bd cl e by (simp_all add: sub32_small u32_small)
  have ne: "a \<noteq> b" "b \<noteq> c" "a \<noteq> c" "Previous (hblocks h b) = a" "Next (hblocks h b) = c" using bd lk by (auto simp: link_def)
  then show ?thesis by (cases "free_pages (of_nat (align (a + 16 + Size (hblocks h a)) 4096))
      ((4096 * ((b + 16 + Size (hblocks h b)) div 4096) - align (a + 16 + Size (hblocks h a)) 4096) div 4096) (pages h)")
    (simp_all add: Heap_free_def Let_def u blk_update_def)
qed

lemma Heap_free_blocks:
  assumes ok: "heap_ok h (us @ a # b # c # vs)" and fr: "Heap_free (b + 16) h = Some h'"
  shows "heap_ok h' (us @ a # c # vs)" "same_block h h' x"
proof -
  note D = heap_okD [OF ok]
  have lk: "link h a b" "link h b c" using D(1) by (auto simp: successively_append_iff)
  obtain s where h': "h' = h\<lparr>pages := s, hblocks := (hblocks h)(a := (hblocks h a)\<lparr>Next := c\<rparr>, c := (hblocks h c)\<lparr>Previous := a\<rparr>)\<rparr>"
    using fr unfolding Heap_free_eq [OF ok] by auto
  have ac: "a < c" using lk by (auto simp: link_def)
  have B: "hblocks h' x = (if x = a then (hblocks h a)\<lparr>Next := c\<rparr> else if x = c then (hblocks h c)\<lparr>Previous := a\<rparr> else hblocks h x)" for x
    using ac by (auto simp: h')
  show "same_block h h' x" by (auto simp: same_block_def B) (simp_all add: h')
  have us: "successively (link h') (us @ [a])"
  proof (rule link_frame [of h])
    show "successively (link h) (us @ [a])" using D(1) by (auto simp: successively_append_iff)
    show "x \<in> set (butlast (us @ [a])) \<Longrightarrow> Next (hblocks h' x) = Next (hblocks h x) \<and> Size (hblocks h' x) = Size (hblocks h x)" for x
      using D(3) by (auto simp: B)
    fix x assume "x \<in> set (tl (us @ [a]))"
    then have "x \<in> set us \<or> x = a" by (cases us) auto
    then have "x \<noteq> c" using D(3) by auto
    then show "Previous (hblocks h' x) = Previous (hblocks h x)" by (simp add: B)
  qed
  have vs: "successively (link h') (c # vs)"
  proof (rule link_frame [of h])
    show "successively (link h) (c # vs)" using D(1) by (auto simp: successively_append_iff)
    fix x assume "x \<in> set (butlast (c # vs))"
    then have "x \<noteq> a" using in_set_butlastD [of x "c # vs"] D(3) by auto
    then show "Next (hblocks h' x) = Next (hblocks h x) \<and> Size (hblocks h' x) = Size (hblocks h x)" by (simp add: B)
  next
    fix x assume "x \<in> set (tl (c # vs))"
    then have "x \<noteq> a \<and> x \<noteq> c" using D(3) by auto
    then show "Previous (hblocks h' x) = Previous (hblocks h x)" by (simp add: B)
  qed
  have "link h' a c" using lk ac by (auto simp: link_def B)
  then have "successively (link h') (us @ a # c # vs)" using us vs by (auto simp: successively_append_iff)
  then show "heap_ok h' (us @ a # c # vs)" using ok by (cases us) (auto simp: heap_ok_def h')
qed

lemma inner_block:
  assumes "heap_ok h bs" "b \<in> set bs" "b \<noteq> firstBlock h" "b \<noteq> lastBlock h"
  obtains us a c vs where "bs = us @ a # b # c # vs"
proof -
  obtain xs ys where x: "bs = xs @ b # ys" using assms(2) by (auto simp: in_set_conv_decomp)
  have "xs \<noteq> []" "ys \<noteq> []" using assms x by (auto simp: heap_ok_def)
  then obtain us a c vs where "xs = us @ [a]" "ys = c # vs" by (metis rev_exhaust list.exhaust)
  then show ?thesis using that x by simp
qed

section \<open>Giving back pages\<close>

lemma current_space:
  assumes "spaces_ok s S" "CR3 s \<in> S"
  shows "GetPhysicalAddress (- 1) va s = GetPhysicalAddress (CR3 s) va s" "UnMapPage (- 1) va s = UnMapPage (CR3 s) va s"
proof -
  have "CR3 s \<noteq> - 1" using spaces_okD(3) [OF assms] aligned_not_m1 by blast
  then show "GetPhysicalAddress (- 1) va s = GetPhysicalAddress (CR3 s) va s" "UnMapPage (- 1) va s = UnMapPage (CR3 s) va s"
    by (simp_all add: GetPhysicalAddress_def UnMapPage_def space_of_def GetAddressSpace_def)
qed

text \<open>Unmapping a kernel page leaves all page tables in place.\<close>

lemma UnMapPage_kernel:
  assumes ok: "spaces_ok s S" and p: "p \<in> S" and va: "KERNEL_BASE \<le> va"
  shows "\<exists>r s'. UnMapPage p va s = Some (r, s') \<and> spaces_ok s' S \<and> CR3 s' = CR3 s \<and> live s' S = live s S \<and>
    (\<forall>x \<in> live s S. table s' x = table s x) \<and>
    (\<forall>q \<in> S. \<forall>va'. page_base va' \<noteq> page_base va \<longrightarrow> lookup s' q va' = lookup s q va')"
proof -
  note D = spaces_okD [OF ok]
  let ?x = "slot_of s p va"
  have dp: "aligned p" and w: "kernel4kPT s = nowin" using D(1,3) p by (auto simp: frames_ok_def)
  have x: "ram s p (pdidx va) = entry s ?x" using entry_slot_of [OF ok p] by simp
  have nk: "\<not> va < KERNEL_BASE" using va by simp
  show ?thesis
  proof (cases "lookup s p va = None")
    case True
    then have "\<not> present (ram s p (pdidx va)) \<or> \<not> present (ram s (page_base (ram s p (pdidx va))) (ptidx va))"
      by (auto simp: lookup_def Let_def split: if_splits)
    then show ?thesis using UnMapPage_absent [OF w dp] ok by auto
  next
    case False
    then have l: "?x \<in> live s S" "present (ram s (table s ?x) (ptidx va))"
      using lookup_slot_of [OF ok p, of va] by (auto split: if_splits)
    have pe: "present (ram s p (pdidx va))" "table s ?x = page_base (ram s p (pdidx va))" using l x by (auto simp: live_def table_def)
    let ?t = "s\<lparr>ram := put (table s ?x) (ptidx va) 0 (ram s)\<rparr>"
    have m: "UnMapPage p va s = Some (True, ?t)" using UnMapPage_present [OF w dp pe l(2) refl] nk by simp
    note P = put_entry [OF ok l(1), of _ "ptidx va" 0, OF refl]
    have tb: "table ?t y = table s y" if "y \<in> live s S" for y
      using P(3) [of y] slots_dir [of "fst y" "snd y" s S] that D(2) by (auto simp: live_def)
    have "lookup ?t q va' = lookup s q va'" if "q \<in> S" "page_base va' \<noteq> page_base va" for q va'
      using P(4) [OF that(1), of va'] slot_of_eq_iff [OF p that(1), of s va' va] that(2) page_eq_iff [of va' va] by auto
    then show ?thesis unfolding m using P(1,2) tb by auto
  qed
qed

lemma unat_page_base: "unat (page_base x) = 4096 * (unat x div 4096)"
proof -
  have "page_base x = push_bit 12 (drop_bit 12 x)" by (auto simp: bit_eq_iff bit_push_bit_iff bit_drop_bit_eq)
  then have e: "page_base x = (x div 4096) * 4096" by (simp add: drop_bit_eq_div push_bit_eq_mult)
  have "unat (x div 4096) = unat x div 4096" by (simp add: unat_div)
  moreover have "unat x div 4096 * 4096 \<le> unat x" "unat x < 2 ^ 32" using unat_dword by (simp_all add: div_times_less_eq_dividend)
  ultimately show ?thesis unfolding e by (simp add: unat_word_ariths)
qed

lemma page_eq_nat: "page_base x = page_base y \<longleftrightarrow> unat x div 4096 = unat y div 4096"
  using unat_page_base [of x] unat_page_base [of y] by (metis mult_left_cancel unsigned_word_eqI zero_neq_numeral)

lemma aligned_nat: "aligned pg \<Longrightarrow> 4096 * (unat pg div 4096) = unat pg"
  using unat_page_base [of pg] by simp

lemma aligned_low: "aligned pg \<Longrightarrow> pg AND 0xFFF = 0"
proof -
  assume "aligned pg"
  then have "bit pg i \<Longrightarrow> 12 \<le> i" for i using bit_page_base [of pg i] by simp
  then have "take_bit 12 pg = 0" by (auto simp: bit_eq_iff bit_take_bit_iff not_less [symmetric])
  then show ?thesis by (simp add: take_bit_eq_mask mask_eq_exp_minus_1)
qed

text \<open>A frame that holds a directory or a page table.\<close>

definition table_frame :: "pstate \<Rightarrow> dword set \<Rightarrow> dword \<Rightarrow> bool" where
  "table_frame s S f \<longleftrightarrow> f \<in> S \<or> f \<in> table s ` live s S"

lemma free_pages_spec:
  assumes "spaces_ok s S" "CR3 s \<in> S" "aligned pg" "KERNEL_BASE \<le> pg" "unat pg + n * 4096 \<le> 2 ^ 32"
    and "\<And>va f. unat pg \<le> unat va \<Longrightarrow> unat va < unat pg + n * 4096 \<Longrightarrow> lookup s (CR3 s) va = Some f \<Longrightarrow> \<not> table_frame s S f"
  shows "\<exists>s'. free_pages pg n s = Some s' \<and> spaces_ok s' S \<and> CR3 s' = CR3 s \<and>
    (\<forall>q \<in> S. \<forall>va. \<not> (unat pg \<le> unat va \<and> unat va < unat pg + n * 4096) \<longrightarrow> lookup s' q va = lookup s q va)"
  using assms
proof (induction n arbitrary: pg s)
  case (Suc n)
  note C = current_space [OF Suc.prems(1,2)]
  have z: "pg AND 0xFFF = 0" using Suc.prems(3) by (rule aligned_low)
  define s1 where "s1 = (case lookup s (CR3 s) pg of None \<Rightarrow> s | Some f \<Rightarrow> snd (FreeFrame f s))"
  have fr: "f \<noteq> - 1 \<and> aligned f" if "lookup s (CR3 s) pg = Some f" for f
    using that aligned_not_m1 by (auto simp: lookup_def Let_def split: if_splits)
  have g: "GetPhysicalAddress (- 1) pg s = Some (case lookup s (CR3 s) pg of None \<Rightarrow> - 1 | Some f \<Rightarrow> f, s)"
    unfolding C(1) using GetPhysicalAddress_spec [OF Suc.prems(1,2), of pg] z by (simp split: option.splits)
  have k1: "spaces_ok s1 S" "\<And>q va. lookup s1 q va = lookup s q va" "CR3 s1 = CR3 s" "ram s1 = ram s" "kernelAddressSpace s1 = kernelAddressSpace s"
  proof -
    have "spaces_ok s1 S \<and> lookup s1 q va = lookup s q va" for q va
    proof (cases "lookup s (CR3 s) pg")
      case (Some f)
      have "\<not> table_frame s S f" using Suc.prems(6) [of pg f] Some by simp
      then show ?thesis using FreeFrame_keeps [OF Suc.prems(1), of f "fst (FreeFrame f s)" s1 q va] fr [OF Some] Some
        by (simp add: s1_def table_frame_def)
    qed (use Suc.prems(1) in \<open>simp add: s1_def\<close>)
    then show "spaces_ok s1 S" "\<And>q va. lookup s1 q va = lookup s q va" by auto
    show "CR3 s1 = CR3 s" "ram s1 = ram s" "kernelAddressSpace s1 = kernelAddressSpace s" by (simp_all add: s1_def split: option.splits)
  qed
  have tf1: "table_frame s1 S f = table_frame s S f" for f
    using k1(4,5) by (simp add: table_frame_def live_def slots_def entry_def table_def [abs_def])
  have cr: "CR3 s1 \<in> S" using k1(3) Suc.prems(2) by simp
  obtain r s2 where u: "UnMapPage (CR3 s1) pg s1 = Some (r, s2)" and k2: "spaces_ok s2 S" "CR3 s2 = CR3 s1" "live s2 S = live s1 S"
      "\<forall>x \<in> live s1 S. table s2 x = table s1 x"
      "\<forall>q \<in> S. \<forall>va'. page_base va' \<noteq> page_base pg \<longrightarrow> lookup s2 q va' = lookup s1 q va'"
    using UnMapPage_kernel [OF k1(1) cr Suc.prems(4)] by blast
  have tf2: "table_frame s2 S f = table_frame s S f" for f
    unfolding tf1 [symmetric] using k2(3,4) by (auto simp: table_frame_def)
  have e: "free_pages pg (Suc n) s = free_pages (pg + PAGE_SIZE) n s2"
  proof (cases "lookup s (CR3 s) pg")
    case None
    then have "s1 = s" by (simp add: s1_def)
    then show ?thesis using u g None C(2) by simp
  next
    case (Some f)
    then have s1: "s1 = snd (FreeFrame f s)" by (simp add: s1_def)
    have "snd (FreeFrames f 1 s) = s1" unfolding s1 by (auto simp: One_nat_def split: prod.splits bool.splits)
    then show ?thesis using u g Some fr [OF Some] current_space(2) [OF k1(1) cr] by simp
  qed
  have page: "unat pg \<le> unat va \<and> unat va < unat pg + 4096" if "page_base va = page_base pg" for va
    using that aligned_nat [OF Suc.prems(3)] unfolding page_eq_nat by (metis dividend_less_div_times mult.commute times_div_less_eq_dividend zero_less_numeral add.commute)
  show ?case
  proof (cases n)
    case 0
    have "lookup s2 q va = lookup s q va" if "q \<in> S" "\<not> (unat pg \<le> unat va \<and> unat va < unat pg + 4096)" for q va
    proof -
      have "page_base va \<noteq> page_base pg" using page that(2) by blast
      then show ?thesis using k2(5) k1(2) that(1) by simp
    qed
    then show ?thesis unfolding e using k2(1,2) k1(3) by (auto simp: 0)
  next
    case (Suc m)
    have np: "unat (pg + PAGE_SIZE) = unat pg + 4096" using Suc.prems(5) Suc by (subst unat_word_ariths) simp
    have al: "aligned (pg + PAGE_SIZE)"
    proof (rule unsigned_word_eqI)
      have "(unat pg + 4096) div 4096 = unat pg div 4096 + 1" by simp
      then show "unat (page_base (pg + PAGE_SIZE)) = unat (pg + PAGE_SIZE)"
        unfolding unat_page_base np using aligned_nat [OF Suc.prems(3)] by linarith
    qed
    have kb: "KERNEL_BASE \<le> pg + PAGE_SIZE" using Suc.prems(4) np by (simp add: word_le_nat_alt)
    have "\<exists>s'. free_pages (pg + PAGE_SIZE) n s2 = Some s' \<and> spaces_ok s' S \<and> CR3 s' = CR3 s2 \<and>
      (\<forall>q \<in> S. \<forall>va. \<not> (unat (pg + PAGE_SIZE) \<le> unat va \<and> unat va < unat (pg + PAGE_SIZE) + n * 4096) \<longrightarrow> lookup s' q va = lookup s2 q va)"
    proof (rule Suc.IH [OF k2(1) _ al kb])
      show "CR3 s2 \<in> S" using k2(2) cr by simp
      show "unat (pg + PAGE_SIZE) + n * 4096 \<le> 2 ^ 32" using np Suc.prems(5) by simp
      fix va f assume v: "unat (pg + PAGE_SIZE) \<le> unat va" "unat va < unat (pg + PAGE_SIZE) + n * 4096" "lookup s2 (CR3 s2) va = Some f"
      then have "page_base va \<noteq> page_base pg" using page np by fastforce
      then have "lookup s (CR3 s) va = Some f" using v(3) k2(2,5) k1(2,3) cr by simp
      then show "\<not> table_frame s2 S f" using Suc.prems(6) [of va f] v(1,2) np tf2 by simp
    qed
    then obtain s' where s': "free_pages (pg + PAGE_SIZE) n s2 = Some s'" "spaces_ok s' S" "CR3 s' = CR3 s2"
      "\<forall>q \<in> S. \<forall>va. \<not> (unat (pg + PAGE_SIZE) \<le> unat va \<and> unat va < unat (pg + PAGE_SIZE) + n * 4096) \<longrightarrow> lookup s' q va = lookup s2 q va"
      by blast
    have "lookup s' q va = lookup s q va" if "q \<in> S" "\<not> (unat pg \<le> unat va \<and> unat va < unat pg + Suc n * 4096)" for q va
    proof -
      have "page_base va \<noteq> page_base pg" using page that(2) by fastforce
      then show ?thesis using s'(4) k2(5) k1(2) that np by auto
    qed
    then show ?thesis unfolding e using s' k2(2) k1(3) by auto
  qed
qed simp

section \<open>Freeing\<close>

text \<open>The pages that \<open>free\<close> gives back lie between the block before and the end of the freed block.\<close>

lemma Heap_free_spec:
  assumes ok: "heap_ok h bs" "b \<in> set bs" "b \<noteq> firstBlock h" "b \<noteq> lastBlock h"
    and sp: "spaces_ok (pages h) S" "CR3 (pages h) \<in> S" and kb: "unat KERNEL_BASE \<le> heapStart h" "heapEnd h + 4096 \<le> 2 ^ 32"
    and fr: "\<And>va f. heapStart h \<le> unat va \<Longrightarrow> unat va < heapEnd h \<Longrightarrow> lookup (pages h) (CR3 (pages h)) va = Some f \<Longrightarrow>
      \<not> table_frame (pages h) S f"
  shows "\<exists>h'. Heap_free (b + 16) h = Some h' \<and> heap_ok h' (remove1 b bs) \<and> (\<forall>x. same_block h h' x) \<and>
    spaces_ok (pages h') S \<and>
    (\<forall>x \<in> set (remove1 b bs). \<forall>q \<in> S. \<forall>va. unat va \<in> extent h x \<longrightarrow> lookup (pages h') q va = lookup (pages h) q va)"
proof -
  obtain us a c vs where bs: "bs = us @ a # b # c # vs" using inner_block [OF ok] by blast
  note hok = ok(1) [unfolded bs]
  note D = heap_okD [OF hok]
  have rm: "remove1 b bs = us @ a # c # vs" using D(3) unfolding bs by (simp add: remove1_append)
  have lk: "link h a b" "link h b c" and cl: "c \<le> lastBlock h" using D(1,5) by (auto simp: successively_append_iff)
  have e: "heapEnd h < 2 ^ 32" "lastBlock h + 16 = heapEnd h" "firstBlock h = heapStart h" using ok(1) by (auto simp: heap_ok_def)
  let ?pe = "a + 16 + Size (hblocks h a)" and ?te = "b + 16 + Size (hblocks h b)"
  have bd: "?pe \<le> b" "?te \<le> c" using lk by (auto simp: link_def)
  have ha: "heapStart h \<le> a" using D(7) [of a] before_less [of h "heapStart h" a] by (cases "a = heapStart h") auto
  let ?pg = "align ?pe 4096" and ?tp = "4096 * (?te div 4096)"
  let ?n = "(?tp - ?pg) div 4096" and ?w = "of_nat (align ?pe 4096) :: dword"
  have pl: "?pe + (4096 - 1) < 2 ^ 32" using bd cl e kb(2) by linarith
  note A = align_ge [OF zero_less_numeral pl]
  have w: "unat ?w = ?pg" using A(3) bd cl e kb(2) by (simp add: unat_of_nat)
  have al: "aligned ?w"
  proof -
    obtain k where "?pg = 4096 * k" using A(2) by blast
    then have "?w = of_nat k * PAGE_SIZE" by simp
    then show ?thesis by (simp only: page_aligned_mult)
  qed
  have n: "?n * 4096 \<le> ?tp - ?pg" "?tp \<le> ?te" by simp_all
  have rng: "?pe \<le> v \<and> v < ?te" if "unat ?w \<le> v" "v < unat ?w + ?n * 4096" for v
    using that n A(1) unfolding w by linarith
  have "\<exists>s'. free_pages ?w ?n (pages h) = Some s' \<and> spaces_ok s' S \<and> CR3 s' = CR3 (pages h) \<and>
    (\<forall>q \<in> S. \<forall>va. \<not> (unat ?w \<le> unat va \<and> unat va < unat ?w + ?n * 4096) \<longrightarrow> lookup s' q va = lookup (pages h) q va)"
  proof (rule free_pages_spec [OF sp al])
    show "KERNEL_BASE \<le> ?w" unfolding word_le_nat_alt w using kb(1) ha A(1) by linarith
    show "unat ?w + ?n * 4096 \<le> 2 ^ 32" unfolding w using n A(1) A(3) bd cl e kb(2) by linarith
    fix va f assume v: "unat ?w \<le> unat va" "unat va < unat ?w + ?n * 4096" "lookup (pages h) (CR3 (pages h)) va = Some f"
    have "heapStart h \<le> unat va" "unat va < heapEnd h" using rng [OF v(1,2)] ha bd cl e by linarith+
    then show "\<not> table_frame (pages h) S f" using fr v(3) by blast
  qed
  then obtain s' where s': "free_pages ?w ?n (pages h) = Some s'" "spaces_ok s' S"
    "\<And>q va. q \<in> S \<Longrightarrow> \<not> (?pe \<le> unat va \<and> unat va < ?te) \<Longrightarrow> lookup s' q va = lookup (pages h) q va"
    using rng by blast
  obtain h' where h': "Heap_free (b + 16) h = Some h'" "pages h' = s'" using Heap_free_eq [OF hok] s'(1) by auto
  note F = Heap_free_blocks [OF hok h'(1)]
  have ext: "\<not> (?pe \<le> v \<and> v < ?te)" if x: "x \<in> set (us @ a # c # vs)" "v \<in> extent h x" for x v
  proof -
    have "x \<in> set us \<Longrightarrow> before h x a" "x \<in> set vs \<Longrightarrow> before h c x" using D(2) by (auto simp: sorted_wrt_append)
    then have "x + 16 + Size (hblocks h x) \<le> ?pe \<or> c \<le> x" using x(1) by (auto simp: before_def)
    then show ?thesis using x(2) bd by (auto simp: extent_def)
  qed
  show ?thesis using h' F s'(2,3) ext unfolding rm by blast
qed

section \<open>Resizing\<close>

lemma same_block_trans: "same_block h h1 x \<Longrightarrow> same_block h1 h2 x \<Longrightarrow> same_block h h2 x"
  by (simp add: same_block_def)

text \<open>Writing the data of one block leaves the others alone.\<close>

lemma same_block_write:
  assumes "heap_ok h bs" "b \<in> set bs" "x \<in> set bs" "x \<noteq> b"
    and "\<And>a. \<not> (b + 16 \<le> a \<and> a < b + 16 + Size (hblocks h b)) \<Longrightarrow> m a = hbytes h a"
  shows "same_block h (h\<lparr>hbytes := m\<rparr>) x"
proof -
  have "extent h x \<inter> extent h b = {}" using blocks_disjoint [OF heap_okD(1) [OF assms(1)] assms(3,2,4)] .
  then have "\<not> (b + 16 \<le> a \<and> a < b + 16 + Size (hblocks h b))" if "x + 16 \<le> a" "a < x + 16 + Size (hblocks h x)" for a
    using that by (auto simp: extent_def)
  then show ?thesis using assms(5) by (auto simp: same_block_def)
qed

text \<open>A block that stays where it is.\<close>

lemma resize_in_place:
  assumes ok: "heap_ok h (us @ a # b # c # vs)" and n: "b + 16 + n \<le> c"
    and h': "h' = blk_update b (\<lambda>x. x\<lparr>Size := n\<rparr>) (h\<lparr>hbytes := m\<rparr>)"
    and m: "\<And>x. \<not> (b + 16 \<le> x \<and> x < c) \<Longrightarrow> m x = hbytes h x"
  shows "heap_ok h' (us @ a # b # c # vs)" "x \<in> set (us @ a # c # vs) \<Longrightarrow> same_block h h' x"
proof -
  note D = heap_okD [OF ok]
  have B: "hblocks h' x = (if x = b then (hblocks h b)\<lparr>Size := n\<rparr> else hblocks h x)" for x by (simp add: h' blk_update_def)
  have us: "successively (link h') (us @ [a, b])"
    by (rule link_frame [of h]) (use D(1,3) in \<open>auto simp: B successively_append_iff butlast_append\<close>)
  have vs: "successively (link h') (c # vs)"
    by (rule link_frame [of h]) (use D(1,3) in \<open>auto simp: B successively_append_iff dest!: in_set_butlastD split: if_splits\<close>)
  have "link h b c" using D(1) by (auto simp: successively_append_iff)
  then have "link h' b c" using n D(3) by (auto simp: link_def B)
  then have "successively (link h') (us @ a # b # c # vs)" using us vs by (auto simp: successively_append_iff)
  then show "heap_ok h' (us @ a # b # c # vs)" using ok by (cases us) (auto simp: heap_ok_def h' blk_update_def)
  assume x: "x \<in> set (us @ a # c # vs)"
  have "x \<noteq> b" using x D(3) by auto
  have "x \<in> set us \<Longrightarrow> before h x b" "x \<in> set vs \<Longrightarrow> before h c x" "before h a b" using D(2) by (auto simp: sorted_wrt_append)
  then have "x + 16 + Size (hblocks h x) \<le> b \<or> c \<le> x" using x by (auto simp: before_def)
  then show "same_block h h' x" using m \<open>x \<noteq> b\<close> by (auto simp: same_block_def B) (auto simp: h' blk_update_def)
qed

lemma Heap_resize_spec:
  assumes ok: "heap_ok h bs" "b \<in> set bs" "b \<noteq> firstBlock h" "b \<noteq> lastBlock h"
    and n: "0 < n" and al: "al = max alignment (defaultAlignment h)" and bd: "heapEnd h + n + al + 32 < 2 ^ 32"
    and r: "Heap_resize (b + 16) n alignment zero h = Some (p, h')"
  shows "\<exists>bs'. heap_ok h' bs' \<and> 16 \<le> p \<and> set bs' = insert (p - 16) (set bs - {b}) \<and> p - 16 \<notin> set bs - {b} \<and>
    Size (hblocks h' (p - 16)) = n \<and> (\<forall>i < min n (Size (hblocks h b)). hbytes h' (p + i) = hbytes h (b + 16 + i)) \<and>
    (\<forall>x \<in> set bs - {b}. same_block h h' x) \<and> firstBlock h' = firstBlock h \<and> lastBlock h' = lastBlock h"
proof -
  obtain us a c vs where bs: "bs = us @ a # b # c # vs" using inner_block [OF ok] by blast
  note hok = ok(1) [unfolded bs]
  note D = heap_okD [OF hok]
  have lk: "link h b c" and cl: "c \<le> lastBlock h" using D(1,5) by (auto simp: successively_append_iff)
  have e: "heapEnd h < 2 ^ 32" "lastBlock h + 16 = heapEnd h" using ok(1) by (auto simp: heap_ok_def)
  have nx: "Next (hblocks h b) = c" "b + 16 + Size (hblocks h b) \<le> c" using lk by (auto simp: link_def)
  have sb: "sub32 (b + 16) 16 = b" using nx cl e by (simp add: sub32_small)
  have mx: "Heap_getMaxSize (b + 16) h = c - (b + 16)" unfolding Heap_getMaxSize_def sb nx(1) using nx(2) cl e by (intro sub32_small) auto
  let ?al = "if alignment < defaultAlignment h then defaultAlignment h else alignment"
  let ?old = "Size (hblocks h b)"
  have ae: "?al = al" using al by auto
  show ?thesis
  proof (cases "n > ?old \<and> ((b + 16) mod al \<noteq> 0 \<or> n > c - (b + 16))")
    case False
    let ?m = "if zero \<and> n > ?old then Memory_Zero (hbytes h) (b + 16 + ?old) (n - ?old) else hbytes h"
    have rr: "p = b + 16" "h' = blk_update b (\<lambda>x. x\<lparr>Size := n\<rparr>) (h\<lparr>hbytes := ?m\<rparr>)"
      using r False n unfolding Heap_resize_def ae sb mx Let_def by (auto split: if_splits)
    have nc: "b + 16 + n \<le> c" using False nx(2) by auto
    have mb: "\<And>x. \<not> (b + 16 \<le> x \<and> x < c) \<Longrightarrow> ?m x = hbytes h x" using nc by (auto simp: Memory_Zero_def Memory_Set_eq)
    note R = resize_in_place [OF hok nc rr(2) mb]
    have "\<forall>i < min n ?old. ?m (b + 16 + i) = hbytes h (b + 16 + i)" by (auto simp: Memory_Zero_def Memory_Set_eq)
    moreover have "set bs - {b} = set (us @ a # c # vs)" "b \<in> set bs" using D(3) bs by auto
    ultimately show ?thesis using R rr bs
      by (intro exI [of _ bs]) (auto simp: blk_update_def)
  next
    case True
    then obtain h1 where h1: "Heap_allocate n al zero h = Some (p, h1)" "p \<noteq> 0"
        "Heap_free (b + 16) (h1\<lparr>hbytes := Memory_Move (hbytes h1) p (b + 16) (Size (hblocks h1 b))\<rparr>) = Some h'"
      using r n unfolding Heap_resize_def ae sb mx Let_def by (auto split: if_splits bind_splits)
    have am: "al = max al (defaultAlignment h)" using al by simp
    from Heap_allocate_spec [OF ok(1) n am bd, of zero] h1(1,2)
    obtain us' a' b' vs' where A: "16 \<le> p" "bs = us' @ a' # b' # vs'" "heap_ok h1 (us' @ a' # (p - 16) # b' # vs')" "p - 16 \<notin> set bs"
      "Size (hblocks h1 (p - 16)) = n" "\<forall>x \<in> set bs. same_block h h1 x" by auto
    let ?bs1 = "us' @ a' # (p - 16) # b' # vs'"
    let ?m = "Memory_Move (hbytes h1) p (b + 16) (Size (hblocks h1 b))"
    let ?h2 = "h1\<lparr>hbytes := ?m\<rparr>"
    have old: "Size (hblocks h1 b) = ?old" using A(6) ok(2) by (simp add: same_block_def)
    have set1: "set ?bs1 = insert (p - 16) (set bs)" using A(2) by auto
    have in1: "b \<in> set ?bs1" "p - 16 \<in> set ?bs1" "p - 16 \<noteq> b" using set1 ok(2) A(4) by auto
    have fl: "firstBlock h1 = firstBlock h" "lastBlock h1 = lastBlock h"
      using ok(1) A(2,3) by (cases us'; auto simp: heap_ok_def)+
    have w: "same_block h1 ?h2 x" if "x \<in> set ?bs1" "x \<noteq> p - 16" for x
      by (rule same_block_write [OF A(3) in1(2) that]) (use A(1,5) True old in \<open>auto simp: Memory_Move_eq\<close>)
    have ok2: "heap_ok ?h2 ?bs1" using A(3) by simp
    have "b \<noteq> firstBlock ?h2" "b \<noteq> lastBlock ?h2" using ok(3,4) fl by simp_all
    then obtain us2 a2 c2 vs2 where bs2: "?bs1 = us2 @ a2 # b # c2 # vs2" using inner_block [OF ok2 in1(1)] by blast
    note F = Heap_free_blocks [OF ok2 [unfolded bs2] h1(3)]
    have set2: "set (us2 @ a2 # c2 # vs2) = insert (p - 16) (set bs - {b})"
    proof -
      have "distinct (us2 @ a2 # b # c2 # vs2)" using heap_okD(3) [OF ok2] bs2 by simp
      then have "set (us2 @ a2 # c2 # vs2) = set ?bs1 - {b}" unfolding bs2 by auto
      then show ?thesis using set1 in1(3) by auto
    qed
    have sm: "same_block h h' x" if x: "x \<in> set bs - {b}" for x
    proof -
      have "x \<in> set ?bs1" using x unfolding set1 by blast
      moreover have "x \<noteq> p - 16" using x A(4) by blast
      ultimately have "same_block h1 ?h2 x" by (rule w)
      moreover have "same_block h h1 x" using A(6) x by blast
      ultimately show ?thesis using F(2) [of x] same_block_trans by blast
    qed
    have bt: "hbytes h' (p + i) = hbytes h (b + 16 + i)" if "i < ?old" for i
    proof -
      have "hbytes h' (p + i) = ?m (p + i)" using F(2) [of "p - 16"] A(1,5) that True by (auto simp: same_block_def)
      then show ?thesis using that old A(6) ok(2) by (auto simp: Memory_Move_eq same_block_def)
    qed
    have sz: "Size (hblocks h' (p - 16)) = n" using F(2) [of "p - 16"] A(5) by (simp add: same_block_def)
    have fl2: "firstBlock h' = firstBlock h" "lastBlock h' = lastBlock h"
      using F(1) ok2 fl unfolding bs2 by (cases us2; auto simp: heap_ok_def)+
    show ?thesis using F(1) A(1,4) set2 sz bt sm fl2 by (intro exI [of _ "us2 @ a2 # c2 # vs2"]) auto
  qed
qed

text \<open>
  A block has to move when it grows and is not aligned as asked or does not fit before the next block. Only then is
  memory allocated, and only when that fails does \<open>resize\<close> fault: it copies to the null pointer it was given.
\<close>

definition resize_moves :: "nat \<Rightarrow> nat \<Rightarrow> nat \<Rightarrow> heap \<Rightarrow> bool" where
  "resize_moves p n alignment h \<longleftrightarrow>
     n > Heap_getSize p h \<and> (p mod max alignment (defaultAlignment h) \<noteq> 0 \<or> n > Heap_getMaxSize p h)"

lemma Heap_resize_eq:
  assumes "p \<noteq> 0" "0 < n"
  shows "Heap_resize p n alignment zero h =
    (if resize_moves p n alignment h then
       do { (newPtr, h) \<leftarrow> Heap_allocate n alignment zero h;
            if newPtr = 0 then None
            else do { h \<leftarrow> Heap_free p (h\<lparr>hbytes := Memory_Move (hbytes h) newPtr p (Heap_getSize p h)\<rparr>);
                      Some (newPtr, h) } }
     else Some (p, blk_update (sub32 p 16) (\<lambda>b. b\<lparr>Size := n\<rparr>)
       (if zero \<and> n > Heap_getSize p h then h\<lparr>hbytes := Memory_Zero (hbytes h) (p + Heap_getSize p h) (n - Heap_getSize p h)\<rparr> else h)))"
proof -
  have al: "(if alignment < defaultAlignment h then defaultAlignment h else alignment) = max alignment (defaultAlignment h)" by auto
  have "Heap_allocate n (max alignment (defaultAlignment h)) zero h = Heap_allocate n alignment zero h"
    by (simp add: Heap_allocate_def max_def)
  then show ?thesis using assms unfolding Heap_resize_def al resize_moves_def Heap_getSize_def Let_def by auto
qed

lemma Heap_resize_total:
  assumes ok: "heap_ok h bs" "b \<in> set bs" "b \<noteq> firstBlock h" "b \<noteq> lastBlock h"
    and n: "0 < n" and bd: "heapEnd h + n + max alignment (defaultAlignment h) + 32 < 2 ^ 32"
    and sp: "spaces_ok (pages h) S" "CR3 (pages h) \<in> S" and kb: "unat KERNEL_BASE \<le> heapStart h" "heapEnd h + 4096 \<le> 2 ^ 32"
    and fr: "\<And>va f. heapStart h \<le> unat va \<Longrightarrow> unat va < heapEnd h \<Longrightarrow> lookup (pages h) (CR3 (pages h)) va = Some f \<Longrightarrow>
      \<not> table_frame (pages h) S f"
  shows "case Heap_resize (b + 16) n alignment zero h of
      None \<Rightarrow> resize_moves (b + 16) n alignment h \<and> Heap_allocate n alignment zero h = Some (0, h)
    | Some (p', h') \<Rightarrow> (if resize_moves (b + 16) n alignment h
        then p' \<noteq> 0 \<and> map_option fst (Heap_allocate n alignment zero h) = Some p' else p' = b + 16)"
proof (cases "resize_moves (b + 16) n alignment h")
  case True
  from Heap_allocate_spec [OF ok(1) n refl bd, of zero] show ?thesis
  proof (elim disjE exE conjE)
    assume "Heap_allocate n alignment zero h = Some (0, h)"
    then show ?thesis using True n by (simp add: Heap_resize_eq)
  next
    fix q h1 us a c vs
    assume A: "Heap_allocate n alignment zero h = Some (q, h1)" "16 \<le> q" "bs = us @ a # c # vs"
      "heap_ok h1 (us @ a # (q - 16) # c # vs)" "q - 16 \<notin> set bs" "pages h1 = pages h"
    let ?bs = "us @ a # (q - 16) # c # vs" and ?h = "h1\<lparr>hbytes := Memory_Move (hbytes h1) q (b + 16) (Heap_getSize (b + 16) h1)\<rparr>"
    have ends: "firstBlock h1 = firstBlock h" "lastBlock h1 = lastBlock h" "heapStart h1 = heapStart h" "heapEnd h1 = heapEnd h"
      using ok(1) A(3,4) by (cases us; auto simp: heap_ok_def)+
    have ok1: "heap_ok ?h ?bs" and in1: "b \<in> set ?bs" using A(3,4) ok(2) by auto
    obtain h' where "Heap_free (b + 16) ?h = Some h'"
      using Heap_free_spec [OF ok1 in1, of S] ok(3,4) sp kb fr ends A(6) by auto
    then show ?thesis using True n A(1,2) by (simp add: Heap_resize_eq)
  qed
qed (use n in \<open>simp add: Heap_resize_eq\<close>)

section \<open>Use of the heap\<close>

text \<open>
  A run of the heap: the pointers that were returned and not yet freed are kept in a set. The steps are the calls that
  return, with the requests bounded: size and alignment together stay below \<open>lim\<close>, the space between the end of the
  heap and the top of the address space. The code has no such bound; it computes the end of a block modulo \<open>2\<^sup>3\<^sup>2\<close> and
  grants a request that wraps around, which then overlaps the rest of the heap (\<open>wrapping_request_granted\<close>).
\<close>

inductive heap_step :: "nat \<Rightarrow> heap \<times> nat set \<Rightarrow> heap \<times> nat set \<Rightarrow> bool" for lim where
  hs_allocate: "0 < n \<Longrightarrow> n + max alignment (defaultAlignment h) < lim \<Longrightarrow> Heap_allocate n alignment zero h = Some (p, h') \<Longrightarrow>
    heap_step lim (h, L) (h', if p = 0 then L else insert p L)"
| hs_free: "p \<in> L \<Longrightarrow> Heap_free p h = Some h' \<Longrightarrow> heap_step lim (h, L) (h', L - {p})"
| hs_resize: "p \<in> L \<Longrightarrow> 0 < n \<Longrightarrow> n + max alignment (defaultAlignment h) < lim \<Longrightarrow>
    Heap_resize p n alignment zero h = Some (p', h') \<Longrightarrow> heap_step lim (h, L) (h', insert p' (L - {p}))"

definition heap_inv :: "nat \<Rightarrow> heap \<times> nat set \<Rightarrow> bool" where
  "heap_inv lim st \<longleftrightarrow> (case st of (h, L) \<Rightarrow> heapEnd h + lim + 32 \<le> 2 ^ 32 \<and>
     (\<exists>bs. heap_ok h bs \<and> set bs = {firstBlock h, lastBlock h} \<union> (\<lambda>p. p - 16) ` L \<and>
       (\<forall>p \<in> L. 16 \<le> p \<and> p - 16 \<noteq> firstBlock h \<and> p - 16 \<noteq> lastBlock h)))"

lemma heap_ok_ends: "heap_ok h bs \<Longrightarrow> heap_ok h' bs' \<Longrightarrow> hd bs' = hd bs \<Longrightarrow> last bs' = last bs \<Longrightarrow>
    firstBlock h' = firstBlock h \<and> lastBlock h' = lastBlock h \<and> heapEnd h' = heapEnd h"
  by (auto simp: heap_ok_def)

lemma pointer_block: "16 \<le> p \<Longrightarrow> p - 16 + 16 = (p :: nat)"
  by simp

lemma heap_inv_step: "heap_step lim st st' \<Longrightarrow> heap_inv lim st \<Longrightarrow> heap_inv lim st'"
proof (induction rule: heap_step.induct)
  case (hs_allocate n alignment h zero p h' L)
  then obtain bs where ok: "heap_ok h bs" and st: "set bs = {firstBlock h, lastBlock h} \<union> (\<lambda>p. p - 16) ` L"
      "\<forall>p \<in> L. 16 \<le> p \<and> p - 16 \<noteq> firstBlock h \<and> p - 16 \<noteq> lastBlock h" and lim: "heapEnd h + lim + 32 \<le> 2 ^ 32"
    by (auto simp: heap_inv_def)
  have bd: "heapEnd h + n + max alignment (defaultAlignment h) + 32 < 2 ^ 32" using lim hs_allocate(2) by linarith
  from Heap_allocate_spec [OF ok hs_allocate(1) refl bd, of zero] show ?case
  proof (elim disjE exE conjE)
    assume "Heap_allocate n alignment zero h = Some (0, h)"
    then show ?thesis using hs_allocate(3,4) by simp
  next
    fix q h'' us a b vs
    assume A: "Heap_allocate n alignment zero h = Some (q, h'')" "16 \<le> q" "bs = us @ a # b # vs"
      "heap_ok h'' (us @ a # (q - 16) # b # vs)" "q - 16 \<notin> set bs"
    have e: "q = p" "h'' = h'" "p \<noteq> 0" using A(1,2) hs_allocate(3) by auto
    have ends: "firstBlock h' = firstBlock h \<and> lastBlock h' = lastBlock h \<and> heapEnd h' = heapEnd h"
      using heap_ok_ends [OF ok A(4)] A(3) e by (cases us) auto
    have "set (us @ a # (p - 16) # b # vs) = {firstBlock h', lastBlock h'} \<union> (\<lambda>p. p - 16) ` (insert p L)"
      using st(1) A(3) ends by auto
    moreover have "p - 16 \<noteq> firstBlock h'" "p - 16 \<noteq> lastBlock h'" using A(5) st(1) e ends by auto
    ultimately show ?thesis using A(2,4) e ends lim st(2) unfolding heap_inv_def prod.case
      by (intro conjI exI [of _ "us @ a # (p - 16) # b # vs"]) auto
  qed
next
  case (hs_free p L h h')
  then obtain bs where ok: "heap_ok h bs" and st: "set bs = {firstBlock h, lastBlock h} \<union> (\<lambda>p. p - 16) ` L"
      "\<forall>p \<in> L. 16 \<le> p \<and> p - 16 \<noteq> firstBlock h \<and> p - 16 \<noteq> lastBlock h" and lim: "heapEnd h + lim + 32 \<le> 2 ^ 32"
    by (auto simp: heap_inv_def)
  have p: "p - 16 \<in> set bs" "p - 16 \<noteq> firstBlock h" "p - 16 \<noteq> lastBlock h" "16 \<le> p" using st hs_free(1) by auto
  obtain us a c vs where bs: "bs = us @ a # (p - 16) # c # vs" using inner_block [OF ok p(1-3)] by blast
  have fr: "Heap_free (p - 16 + 16) h = Some h'" using hs_free(2) p(4) by simp
  note F = Heap_free_blocks(1) [OF ok [unfolded bs] fr]
  have ends: "firstBlock h' = firstBlock h \<and> lastBlock h' = lastBlock h \<and> heapEnd h' = heapEnd h"
    using heap_ok_ends [OF ok F] bs by (cases us) auto
  have inj: "x \<in> L \<Longrightarrow> x - 16 = p - 16 \<Longrightarrow> x = p" for x using st(2) p(4) by (metis pointer_block)
  have "set (us @ a # c # vs) = set bs - {p - 16}" using heap_okD(3) [OF ok] unfolding bs by auto
  also have "\<dots> = {firstBlock h', lastBlock h'} \<union> (\<lambda>p. p - 16) ` (L - {p})" using st p inj ends by auto
  finally show ?case using F ends lim st(2) unfolding heap_inv_def prod.case by (intro conjI exI [of _ "us @ a # c # vs"]) auto
next
  case (hs_resize p L n alignment h zero p' h')
  then obtain bs where ok: "heap_ok h bs" and st: "set bs = {firstBlock h, lastBlock h} \<union> (\<lambda>p. p - 16) ` L"
      "\<forall>p \<in> L. 16 \<le> p \<and> p - 16 \<noteq> firstBlock h \<and> p - 16 \<noteq> lastBlock h" and lim: "heapEnd h + lim + 32 \<le> 2 ^ 32"
    by (auto simp: heap_inv_def)
  have p: "p - 16 \<in> set bs" "p - 16 \<noteq> firstBlock h" "p - 16 \<noteq> lastBlock h" "16 \<le> p" using st hs_resize(1) by auto
  have bd: "heapEnd h + n + max alignment (defaultAlignment h) + 32 < 2 ^ 32" using lim hs_resize(3) by linarith
  have r: "Heap_resize (p - 16 + 16) n alignment zero h = Some (p', h')" using hs_resize(4) p(4) by simp
  obtain bs' where R: "heap_ok h' bs'" "16 \<le> p'" "set bs' = insert (p' - 16) (set bs - {p - 16})" "p' - 16 \<notin> set bs - {p - 16}"
      "firstBlock h' = firstBlock h" "lastBlock h' = lastBlock h"
    using Heap_resize_spec [OF ok p(1-3) hs_resize(2) refl bd r] by auto
  have inj: "x \<in> L \<Longrightarrow> x - 16 = p - 16 \<Longrightarrow> x = p" for x using st(2) p(4) by (metis pointer_block)
  have "heapEnd h' = heapEnd h" using R(1,6) ok by (auto simp: heap_ok_def)
  moreover have "set bs' = {firstBlock h', lastBlock h'} \<union> (\<lambda>p. p - 16) ` insert p' (L - {p})"
    unfolding R(3,5,6) using st p inj by auto
  moreover have "p' - 16 \<noteq> firstBlock h'" "p' - 16 \<noteq> lastBlock h'" using R(4-6) p(2,3) st(1) by auto
  ultimately show ?case using R lim st(2) unfolding heap_inv_def prod.case by (intro conjI exI [of _ bs']) auto
qed

lemma heap_inv_steps: "(heap_step lim)\<^sup>*\<^sup>* st st' \<Longrightarrow> heap_inv lim st \<Longrightarrow> heap_inv lim st'"
  by (induction rule: rtranclp_induct) (auto dest: heap_inv_step)

lemma heap_inv_new:
  assumes "start + 32 \<le> endp" "endp + lim + 32 \<le> 2 ^ 32" "0 < k"
  shows "heap_inv lim (Heap_Initialize s1 s2 start endp k h, {})"
proof -
  have e: "sub32 endp 16 = endp - 16" using assms by (intro sub32_small) auto
  let ?h = "Heap_Initialize s1 s2 start endp k h"
  have "heap_ok ?h [start, endp - 16]"
    using assms by (auto simp: heap_ok_def link_def Heap_Initialize_def blk_update_def Let_def e)
  then show ?thesis using assms unfolding heap_inv_def prod.case
    by (intro conjI exI [of _ "[start, endp - 16]"]) (auto simp: Heap_Initialize_def blk_update_def Let_def e)
qed

text \<open>
  The end of a request is computed with wrap-around and only compared with the start of the next block: a size
  that reaches past the top of the address space is granted.
\<close>

lemma wrapping_request_granted:
  assumes "start + 32 + k \<le> endp - 16" "endp < 2 ^ 32" "0 < k" "p = align (start + 32) k"
  shows "\<exists>h'. Heap_allocate (2 ^ 32 - p) k False (Heap_Initialize s1 s2 start endp k h) = Some (p, h')"
proof -
  let ?h = "Heap_Initialize s1 s2 start endp k h"
  have e: "sub32 endp 16 = endp - 16" using assms by (intro sub32_small) auto
  have H: "firstBlock ?h = start" "lastBlock ?h = endp - 16" "defaultAlignment ?h = k" "Size (hblocks ?h start) = 0" "Next (hblocks ?h start) = endp - 16"
    using assms by (auto simp: Heap_Initialize_def blk_update_def Let_def e)
  have u: "u32 (start + 16) = start + 16" "u32 (32 + start) = start + 32" using assms by (auto simp: u32_small)
  have sm: "start + 32 + (k - 1) < 2 ^ 32" using assms by linarith
  have p: "p < start + 32 + k" "0 < p" using align_ge [OF assms(3) sm] assms(4) by auto
  then have b: "p \<le> endp - 16" "p < 2 ^ 32" using assms by auto
  have "u32 (p + (2 ^ 32 - p)) = 0" using b(2) by (simp add: u32_def)
  then have "alloc_search (2 ^ 32 - p) k start ?h = Some (Some (start, p))"
    using H assms b by (subst alloc_search.simps) (simp add: Let_def u)
  then show ?thesis using H b(2) by (simp add: Heap_allocate_def Let_def)
qed

lemma GetDebugName_null: "Heap_GetDebugName cs ptr h = 0"
  by (induction cs) auto

section \<open>Properties\<close>

text \<open>C4.
  The heap hands out separate memory: after any sequence of allocations, frees of pointers in use and resizes of
  pointers in use that return, on a new heap, the blocks of the pointers in use, headers included, are pairwise
  disjoint, lie between the two end blocks of the heap and start at the address that was returned. Every request is for
  at least one byte, and its size and alignment together are less than \<open>lim\<close>, where \<open>lim + 32\<close> bytes lie between the
  end of the heap and the top of the 32-bit address space; a larger request can wrap around and is then granted over
  everything else (\<open>wrapping_request_granted\<close>).\<close>

theorem heap_blocks_disjoint:
  assumes "start + 32 \<le> endp" "endp + lim + 32 \<le> 2 ^ 32" "0 < k"
    "(heap_step lim)\<^sup>*\<^sup>* (Heap_Initialize s1 s2 start endp k h0, {}) (h, L)" "p \<in> L" "q \<in> L" "p \<noteq> q"
  shows "extent h (p - 16) \<inter> extent h (q - 16) = {} \<and> heapStart h + 16 \<le> p - 16 \<and> p + Heap_getSize p h \<le> heapEnd h - 16"
proof -
  have "heap_inv lim (h, L)" using heap_inv_steps [OF assms(4)] heap_inv_new [OF assms(1-3)] by blast
  then obtain bs where ok: "heap_ok h bs" and st: "set bs = {firstBlock h, lastBlock h} \<union> (\<lambda>p. p - 16) ` L"
      "\<forall>p \<in> L. 16 \<le> p \<and> p - 16 \<noteq> firstBlock h \<and> p - 16 \<noteq> lastBlock h" by (auto simp: heap_inv_def)
  note D = heap_okD [OF ok]
  have in_bs: "p - 16 \<in> set bs" "q - 16 \<in> set bs" using st assms(5,6) by auto
  have ge: "16 \<le> p" "16 \<le> q" using st(2) assms(5,6) by auto
  then have ne: "p - 16 \<noteq> q - 16" using assms(7) by linarith
  have e: "lastBlock h + 16 = heapEnd h" "heapEnd h < 2 ^ 32" "firstBlock h = heapStart h" using ok by (auto simp: heap_ok_def)
  have b: "before h (heapStart h) (p - 16)" "before h (p - 16) (lastBlock h)" using D(6,7) in_bs(1) st(2) assms(5) e by auto
  have sz: "Heap_getSize p h = Size (hblocks h (p - 16))" using ge(1) b e by (simp add: Heap_getSize_def sub32_small before_def)
  show ?thesis using blocks_disjoint [OF D(1) in_bs ne] b e ge(1) unfolding sz by (auto simp: before_def)
qed

text \<open>Two blocks in a heap of one page.\<close>

definition small_heap :: heap where
  "small_heap = Heap_Initialize 0 0 0xC0400000 0xC0401000 4
     \<lparr>hblocks = \<lambda>_. \<lparr>Next = 0, Previous = 0, Size = 0, DebugName = 0\<rparr>, hbytes = \<lambda>_. 0, heapStart = 0, heapEnd = 0, heapSize = 0,
      defaultAlignment = 0, firstBlock = 0, lastBlock = 0, pages = boot_space\<rparr>"

definition heap_1 :: heap where
  "heap_1 = alloc_link 8 0xC0400000 0xC0400010 small_heap"

definition heap_2 :: heap where
  "heap_2 = alloc_link 8 0xC0400010 0xC0400028 heap_1"

lemma small_heap_fields:
  "firstBlock small_heap = 0xC0400000" "lastBlock small_heap = 0xC0400FF0" "heapEnd small_heap = 0xC0401000" "defaultAlignment small_heap = 4"
  "Size (hblocks small_heap 0xC0400000) = 0" "Next (hblocks small_heap 0xC0400000) = 0xC0400FF0" "heapStart small_heap = 0xC0400000"
  "pages small_heap = boot_space"
  by (simp_all add: small_heap_def Heap_Initialize_def blk_update_def Let_def sub32_def)

lemma heap_1_blocks:
  "Size (hblocks heap_1 0xC0400000) = 0" "Next (hblocks heap_1 0xC0400000) = 0xC0400010"
  "Size (hblocks heap_1 0xC0400010) = 8" "Next (hblocks heap_1 0xC0400010) = 0xC0400FF0"
  unfolding heap_1_def by (subst hblocks_alloc_link [OF small_heap_fields(6)]; simp add: small_heap_fields)+

lemma boot_space_empty: "lookup boot_space 0x1000 va = None"
proof -
  have "ram boot_space (page_base (ram boot_space 0x1000 (pdidx va))) (ptidx va) = 0 \<or> \<not> present (ram boot_space 0x1000 (pdidx va))"
  proof (cases "present (ram boot_space 0x1000 (pdidx va))")
    case True
    have "(0x1000, pdidx va) \<in> live boot_space {0x1000}"
      using True pdidx_less [of va] by (auto simp: live_def slots_def entry_def boot_space_def split: if_splits)
    then have "page_base (ram boot_space 0x1000 (pdidx va)) \<noteq> 0x1000" using spaces_okD(7) [OF boot_space_ok] by (force simp: table_def entry_def)
    then show ?thesis by (simp add: boot_space_def)
  qed simp
  then show ?thesis by (auto simp: lookup_def Let_def)
qed

lemma small_allocations:
  "Heap_allocate 8 4 False small_heap = Some (0xC0400020, heap_1)" "Heap_allocate 8 4 False heap_1 = Some (0xC0400038, heap_2)"
proof -
  have "alloc_search 8 4 0xC0400000 small_heap = Some (Some (0xC0400000, 0xC0400020))"
    using small_heap_fields by (subst alloc_search.simps) (simp add: Let_def u32_def align_def sub32_def)
  then show "Heap_allocate 8 4 False small_heap = Some (0xC0400020, heap_1)"
    using small_heap_fields by (simp add: Heap_allocate_def Let_def sub32_def heap_1_def)
  have l: "lastBlock heap_1 = 0xC0400FF0" "firstBlock heap_1 = 0xC0400000" "defaultAlignment heap_1 = 4"
    by (simp_all add: heap_1_def small_heap_fields)
  have "alloc_search 8 4 0xC0400010 heap_1 = Some (Some (0xC0400010, 0xC0400038))"
    using heap_1_blocks l by (subst alloc_search.simps) (simp add: Let_def u32_def align_def sub32_def)
  then have "alloc_search 8 4 0xC0400000 heap_1 = Some (Some (0xC0400010, 0xC0400038))"
    using heap_1_blocks l by (subst alloc_search.simps) (simp add: Let_def u32_def align_def sub32_def)
  then show "Heap_allocate 8 4 False heap_1 = Some (0xC0400038, heap_2)"
    using l by (simp add: Heap_allocate_def Let_def sub32_def heap_2_def)
qed

lemma small_run: "(heap_step 64)\<^sup>*\<^sup>* (small_heap, {}) (heap_2, {0xC0400020, 0xC0400038})"
proof -
  have d: "defaultAlignment small_heap = 4" "defaultAlignment heap_1 = 4" by (simp_all add: heap_1_def small_heap_fields)
  have "heap_step 64 (small_heap, {}) (heap_1, {0xC0400020})" using hs_allocate [OF _ _ small_allocations(1), of 64 "{}"] d by simp
  moreover have "heap_step 64 (heap_1, {0xC0400020}) (heap_2, {0xC0400020, 0xC0400038})"
    using hs_allocate [OF _ _ small_allocations(2), of 64 "{0xC0400020}"] d by (simp add: insert_commute)
  ultimately show ?thesis by (meson converse_rtranclp_into_rtranclp r_into_rtranclp)
qed

theorem heap_blocks_disjoint_witness:
  "Heap_allocate 8 4 False small_heap = Some (0xC0400020, heap_1) \<and> Heap_allocate 8 4 False heap_1 = Some (0xC0400038, heap_2) \<and>
   extent heap_2 (0xC0400020 - 16) \<inter> extent heap_2 (0xC0400038 - 16) = {}"
  using heap_blocks_disjoint [OF _ _ _ small_run [unfolded small_heap_def], of "0xC0400020" "0xC0400038"] small_allocations by simp

lemma resize_contents:
  assumes "heap_inv lim (h, L)" "p \<in> L" "0 < n" "n + max alignment (defaultAlignment h) < lim"
    "Heap_resize p n alignment zero h = Some (p', h')"
  shows "heap_inv lim (h', insert p' (L - {p})) \<and> Heap_getSize p' h' = n \<and>
    (\<forall>i < min n (Heap_getSize p h). hbytes h' (p' + i) = hbytes h (p + i)) \<and> (\<forall>q \<in> L - {p}. same_block h h' (q - 16))"
proof -
  obtain bs where ok: "heap_ok h bs" and st: "set bs = {firstBlock h, lastBlock h} \<union> (\<lambda>p. p - 16) ` L"
      "\<forall>p \<in> L. 16 \<le> p \<and> p - 16 \<noteq> firstBlock h \<and> p - 16 \<noteq> lastBlock h" and lim: "heapEnd h + lim + 32 \<le> 2 ^ 32"
    using assms(1) by (auto simp: heap_inv_def)
  have p: "p - 16 \<in> set bs" "p - 16 \<noteq> firstBlock h" "p - 16 \<noteq> lastBlock h" "16 \<le> p" using st assms(2) by auto
  have bd: "heapEnd h + n + max alignment (defaultAlignment h) + 32 < 2 ^ 32" using lim assms(4) by linarith
  have r: "Heap_resize (p - 16 + 16) n alignment zero h = Some (p', h')" using assms(5) p(4) by simp
  note inv = heap_inv_step [OF hs_resize [OF assms(2-5)] assms(1)]
  obtain bs' where R: "heap_ok h' bs'" "16 \<le> p'" "p' - 16 \<in> set bs'" "Size (hblocks h' (p' - 16)) = n"
      "\<forall>i < min n (Size (hblocks h (p - 16))). hbytes h' (p' + i) = hbytes h (p - 16 + 16 + i)" "\<forall>x \<in> set bs - {p - 16}. same_block h h' x"
    using Heap_resize_spec [OF ok p(1-3) assms(3) refl bd r] by auto
  have lt: "q < 2 ^ 32" if "heap_ok g cs" "q - 16 \<in> set cs" for g cs q
    using heap_okD(5) [OF that] that(1) by (auto simp: heap_ok_def)
  have sz: "Heap_getSize p' h' = n" "Heap_getSize p h = Size (hblocks h (p - 16))"
    using R(2,4) p(4) lt [OF R(1,3)] lt [OF ok p(1)] by (simp_all add: Heap_getSize_def sub32_small)
  have "same_block h h' (q - 16)" if "q \<in> L - {p}" for q
  proof -
    have "q - 16 \<noteq> p - 16" using that st(2) p(4) by (metis DiffE insertI1 pointer_block)
    then show ?thesis using R(6) that st(1) by auto
  qed
  then show ?thesis using inv sz R(5) p(4) by auto
qed


text \<open>A block of 8 bytes, with another one after it, is moved to grow to 16 bytes.\<close>

definition heap_3 :: heap where
  "heap_3 = heap_2\<lparr>hbytes := \<lambda>a. of_nat a\<rparr>"

lemma heap_3_fields:
  "firstBlock heap_3 = 0xC0400000" "lastBlock heap_3 = 0xC0400FF0" "defaultAlignment heap_3 = 4" "heapStart heap_3 = 0xC0400000"
  "heapEnd heap_3 = 0xC0401000" "pages heap_3 = boot_space" "hbytes heap_3 = of_nat"
  by (simp_all add: heap_3_def heap_2_def heap_1_def small_heap_fields)

lemma heap_3_blocks:
  "Size (hblocks heap_3 0xC0400000) = 0" "Next (hblocks heap_3 0xC0400000) = 0xC0400010"
  "Size (hblocks heap_3 0xC0400010) = 8" "Next (hblocks heap_3 0xC0400010) = 0xC0400028"
  "Size (hblocks heap_3 0xC0400028) = 8" "Next (hblocks heap_3 0xC0400028) = 0xC0400FF0"
  unfolding heap_3_def heap_2_def
  by (simp add: heap_1_blocks, subst hblocks_alloc_link [OF heap_1_blocks(4)]; simp add: heap_1_blocks)+

lemma heap_3_search: "alloc_search 16 4 0xC0400000 heap_3 = Some (Some (0xC0400028, 0xC0400050))"
proof -
  note f = heap_3_blocks heap_3_fields Let_def u32_def align_def sub32_def
  have "alloc_search 16 4 0xC0400028 heap_3 = Some (Some (0xC0400028, 0xC0400050))"
    by (subst alloc_search.simps) (simp add: f)
  then have "alloc_search 16 4 0xC0400010 heap_3 = Some (Some (0xC0400028, 0xC0400050))"
    by (subst alloc_search.simps) (simp add: f)
  then show ?thesis by (subst alloc_search.simps) (simp add: f)
qed


text \<open>C12.
  Freeing gives back no page in use: when the page tables are well-formed, the heap lies in the kernel half and
  its pages map no frame that holds a page table, \<open>free\<close> of a block returns, removes exactly that block from the
  list, and every byte of every other block, headers included, translates as before in every address space.\<close>

theorem free_keeps_live_pages:
  assumes "heap_ok h bs" "b \<in> set bs" "b \<noteq> firstBlock h" "b \<noteq> lastBlock h" "spaces_ok (pages h) S" "CR3 (pages h) \<in> S"
    "unat KERNEL_BASE \<le> heapStart h" "heapEnd h + 4096 \<le> 2 ^ 32"
    "\<forall>va f. heapStart h \<le> unat va \<and> unat va < heapEnd h \<and> lookup (pages h) (CR3 (pages h)) va = Some f \<longrightarrow> \<not> table_frame (pages h) S f"
  shows "\<exists>h'. Heap_free (b + 16) h = Some h' \<and> heap_ok h' (remove1 b bs) \<and> (\<forall>x. same_block h h' x) \<and> spaces_ok (pages h') S \<and>
    (\<forall>x \<in> set (remove1 b bs). \<forall>q \<in> S. \<forall>va. unat va \<in> extent h x \<longrightarrow> lookup (pages h') q va = lookup (pages h) q va)"
  by (rule Heap_free_spec [OF assms(1-8)]) (use assms(9) in blast)

theorem free_keeps_live_pages_witness:
  "\<exists>h'. Heap_free 0xC0400020 heap_1 = Some h' \<and> heap_ok h' [0xC0400000, 0xC0400FF0]"
proof -
  have "heap_ok small_heap ([] @ 0xC0400000 # 0xC0400FF0 # [])"
    by (simp add: small_heap_def heap_ok_def link_def Heap_Initialize_def blk_update_def Let_def sub32_def)
  then have ok: "heap_ok heap_1 [0xC0400000, 0xC0400010, 0xC0400FF0]"
    using alloc_link_spec(1) [of small_heap "[]" "0xC0400000" "0xC0400FF0" "[]" "0xC0400010" 8 heap_1] small_heap_fields
    by (simp add: heap_1_def)
  have f: "firstBlock heap_1 = 0xC0400000" "lastBlock heap_1 = 0xC0400FF0" "heapStart heap_1 = 0xC0400000" "heapEnd heap_1 = 0xC0401000"
    "pages heap_1 = boot_space" "CR3 boot_space = 0x1000" by (simp_all add: heap_1_def small_heap_fields) (simp add: boot_space_def)
  show ?thesis using boot_space_empty free_keeps_live_pages [OF ok, of "0xC0400010" "{0x1000}"] boot_space_ok f by auto
qed

end
