(* ===== verification/Volume.thy ===== *)
theory Volume
  imports Prelude "HOL-Library.Monad_Syntax"
begin

text \<open>
  \<open>kernel/bufferedvolume.cpp\<close> and \<open>kernel/partvolume.cpp\<close>: a write-back cache of blocks of a drive, and the
  partitions on top of it. The drive is the bytes it holds; whether a transfer that starts at a sector succeeds
  is given by the predicates \<open>rdok\<close> and \<open>wrok\<close>, and a transfer that succeeds moves all its sectors. \<open>dma\<close> says
  whether memory for a block can be had. A drive that reads or writes fewer sectors than asked for without reporting an
  error is not modelled (the code looks at the sign of the result only). Positions are natural numbers: \<open>access\<close> takes
  an \<open>int64_t\<close>, and the model is that of positions and lengths whose sum is below \<open>2\<^sup>6\<^sup>3\<close>; lengths are below \<open>2\<^sup>3\<^sup>1\<close>, so
  that the \<open>ssize_t\<close> result is exact.
  \<open>None\<close> is an access through a null buffer. The use counter, which the volumes of all drives share, is a field.
  The buffer given to \<open>Read\<close> or \<open>Write\<close> is not null.
\<close>

unbundle bit_operations_syntax

section \<open>The cache\<close>

(* src/kernel/include/drive.hpp:15-20 Drive, fields *)
record drive =
  SectorSize :: nat
  SectorCount :: nat
  disk :: "nat \<Rightarrow> byte"

(* src/kernel/include/bufferedvolume.hpp:9-16 BlockBuffer, struct *)
record BlockBuffer =
  Buffer :: "(nat \<Rightarrow> byte) option"
  FirstSector :: nat
  Used :: bool
  Dirty :: bool
  Time :: nat

(* src/kernel/include/bufferedvolume.hpp:18-22 BufferedVolume, fields *)
record volume =
  vdrive :: drive
  sectorsPerBuffer :: nat
  buffers :: "BlockBuffer list"
  lru :: nat

(* src/kernel/bufferedvolume.cpp:157-163 BufferedVolume::BufferedVolume *)
definition BufferedVolume_new :: "drive \<Rightarrow> nat \<Rightarrow> nat \<Rightarrow> volume" where
  "BufferedVolume_new d spb n =
     \<lparr>vdrive = d, sectorsPerBuffer = spb,
      buffers = replicate n \<lparr>Buffer = None, FirstSector = 0, Used = False, Dirty = False, Time = 0\<rparr>, lru = 0\<rparr>"

definition set_buf :: "nat \<Rightarrow> (BlockBuffer \<Rightarrow> BlockBuffer) \<Rightarrow> volume \<Rightarrow> volume" where
  "set_buf i f v = v\<lparr>buffers := (buffers v)[i := f (buffers v ! i)]\<rparr>"

(* src/kernel/bufferedvolume.cpp:10-21 BufferedVolume::getContainingBuffer *)
definition getContainingBuffer :: "nat \<Rightarrow> volume \<Rightarrow> nat option" where
  "getContainingBuffer sector v =
     List.find (\<lambda>i. let b = buffers v ! i in
                  Used b \<and> sector \<ge> FirstSector b \<and> sector < FirstSector b + sectorsPerBuffer v)
       [0..<length (buffers v)]"

text \<open>A transfer of \<open>n\<close> bytes between a block and the drive.\<close>

definition to_disk :: "nat \<Rightarrow> nat \<Rightarrow> (nat \<Rightarrow> byte) \<Rightarrow> (nat \<Rightarrow> byte) \<Rightarrow> (nat \<Rightarrow> byte)" where
  "to_disk pos n data d = (\<lambda>a. if pos \<le> a \<and> a < pos + n then data (a - pos) else d a)"

(* src/kernel/bufferedvolume.cpp:23-36 BufferedVolume::flushBuffer *)
definition flushBuffer :: "(nat \<Rightarrow> bool) \<Rightarrow> nat \<Rightarrow> volume \<Rightarrow> bool \<times> volume" where
  "flushBuffer wrok bufIdx v =
     (if bufIdx \<ge> length (buffers v) then (False, v)
      else
        let b = buffers v ! bufIdx; d = vdrive v in
        if \<not> Used b \<or> \<not> Dirty b then (True, v)
        else case Buffer b of
               None \<Rightarrow> (False, v)
             | Some data \<Rightarrow>
                 if \<not> wrok (FirstSector b) then (False, v)
                 else (True, set_buf bufIdx (\<lambda>b. b\<lparr>Dirty := False\<rparr>)
                         (v\<lparr>vdrive := d\<lparr>disk := to_disk (FirstSector b * SectorSize d) (sectorsPerBuffer v * SectorSize d) data (disk d)\<rparr>\<rparr>)))"

text \<open>The buffer used longest ago.\<close>

(* src/kernel/bufferedvolume.cpp:55-65 BufferedVolume::allocateBuffer, least recently used *)
definition lru_buffer :: "volume \<Rightarrow> nat" where
  "lru_buffer v = fst (fold (\<lambda>i (minIdx, minTime). if Time (buffers v ! i) < minTime then (i, Time (buffers v ! i)) else (minIdx, minTime))
     [0..<length (buffers v)] (0, 2 ^ 64 - 1))"

(* src/kernel/bufferedvolume.cpp:38-73 BufferedVolume::allocateBuffer *)
definition allocateBuffer :: "(nat \<Rightarrow> bool) \<Rightarrow> volume \<Rightarrow> nat option \<times> volume" where
  "allocateBuffer wrok v =
     (case List.find (\<lambda>i. \<not> Used (buffers v ! i)) [0..<length (buffers v)] of
        Some i \<Rightarrow> (Some i, set_buf i (\<lambda>b. b\<lparr>Used := True\<rparr>) v)
      | None \<Rightarrow>
          let minIdx = lru_buffer v in
          if Dirty (buffers v ! minIdx) then
            case flushBuffer wrok minIdx v of (flushed, v) \<Rightarrow> if \<not> flushed then (None, v) else (Some minIdx, v)
          else (Some minIdx, v))"

(* src/kernel/bufferedvolume.cpp:75-93 BufferedVolume::loadBuffer *)
definition loadBuffer :: "(nat \<Rightarrow> bool) \<Rightarrow> (nat \<Rightarrow> bool) \<Rightarrow> bool \<Rightarrow> nat \<Rightarrow> nat \<Rightarrow> volume \<Rightarrow> (bool \<times> volume) option" where
  "loadBuffer rdok wrok dma buffer sector v =
     (if SectorSize (vdrive v) = 0 then Some (False, v)
      else
        let sector = sectorsPerBuffer v * (sector div sectorsPerBuffer v);
            v = (if Buffer (buffers v ! buffer) = None \<and> dma then set_buf buffer (\<lambda>b. b\<lparr>Buffer := Some (\<lambda>_. 0)\<rparr>) v else v);
            v = set_buf buffer (\<lambda>b. b\<lparr>Used := True\<rparr>) v;
            (flushed, v) = (if Dirty (buffers v ! buffer) then flushBuffer wrok buffer v else (True, v))
        in if \<not> flushed then Some (False, v)
           else if Buffer (buffers v ! buffer) = None then None
           else if \<not> rdok sector then Some (False, v)
           else
             let pos = sector * SectorSize (vdrive v) in
             Some (True, set_buf buffer (\<lambda>b. b\<lparr>Buffer := Some (\<lambda>i. disk (vdrive v) (pos + i)), FirstSector := sector\<rparr>) v))"

text \<open>The buffer of a sector, loaded if it is not there; the first component is the error.\<close>

(* src/kernel/bufferedvolume.cpp:113-129 BufferedVolume::access, buffer of a sector *)
definition buffer_of :: "(nat \<Rightarrow> bool) \<Rightarrow> (nat \<Rightarrow> bool) \<Rightarrow> bool \<Rightarrow> nat \<Rightarrow> volume \<Rightarrow> ((int + nat) \<times> volume) option" where
  "buffer_of rdok wrok dma sector v =
     (case getContainingBuffer sector v of
        Some i \<Rightarrow> Some (Inr i, v)
      | None \<Rightarrow>
          case allocateBuffer wrok v of
            (None, v) \<Rightarrow> Some (Inl (- ENOMEM), v)
          | (Some i, v) \<Rightarrow>
              do { (r, v) \<leftarrow> loadBuffer rdok wrok dma i sector v;
                   Some (if r then Inr i else Inl (- EIO), v) })"

text \<open>
  One turn of the loop: \<open>Inl\<close> the bytes to write, \<open>Inr ()\<close> a read; the bytes read are returned. \<open>k\<close> bytes are
  transferred at \<open>offs\<close> in the buffer.
\<close>

(* src/kernel/bufferedvolume.cpp:130-141 BufferedVolume::access, transfer *)
definition xfer :: "byte list option \<Rightarrow> nat \<Rightarrow> nat \<Rightarrow> nat \<Rightarrow> volume \<Rightarrow> (byte list \<times> volume) option" where
  "xfer wdata i offs k v =
     (let v = (set_buf i (\<lambda>b. b\<lparr>Time := lru v\<rparr>) v)\<lparr>lru := (lru v + 1) mod 2 ^ 64\<rparr> in
      do { data \<leftarrow> Buffer (buffers v ! i);
           Some (case wdata of
                   Some w \<Rightarrow> ([], set_buf i (\<lambda>b. b\<lparr>Buffer := Some (\<lambda>a. if offs \<le> a \<and> a < offs + k then w ! (a - offs) else data a), Dirty := True\<rparr>) v)
                 | None \<Rightarrow> (map (\<lambda>j. data (offs + j)) [0..<k], v)) })"

(* src/kernel/bufferedvolume.cpp:107-144 BufferedVolume::access, loop *)
function access_loop :: "(nat \<Rightarrow> bool) \<Rightarrow> (nat \<Rightarrow> bool) \<Rightarrow> bool \<Rightarrow> byte list option \<Rightarrow> nat \<Rightarrow> nat \<Rightarrow> volume \<Rightarrow> (int \<times> byte list \<times> volume) option" where
  "access_loop rdok wrok dma wdata bytesLeft position v =
     (let ss = SectorSize (vdrive v); blockSize = sectorsPerBuffer v * ss;
          inBlockOffset = position mod blockSize; k = min bytesLeft (blockSize - inBlockOffset) in
      if bytesLeft = 0 then Some (0, [], v)
      else if k = 0 then None
      else
        do { (r, v) \<leftarrow> buffer_of rdok wrok dma (position div ss) v;
             case r of
               Inl err \<Rightarrow> Some (err, [], v)
             | Inr i \<Rightarrow>
                 do { (out, v) \<leftarrow> xfer (map_option (take k) wdata) i inBlockOffset k v;
                      (res, rest, v) \<leftarrow> access_loop rdok wrok dma (map_option (drop k) wdata) (bytesLeft - k) (position + k) v;
                      Some (res, out @ rest, v) } })"
  by pat_completeness auto
termination by (relation "measure (\<lambda>(_, _, _, _, n, _, _). n)") auto

declare access_loop.simps [simp del]

text \<open>The result is the number of bytes, or an error; for a read also the bytes.\<close>

(* src/kernel/bufferedvolume.cpp:95-147 BufferedVolume::access *)
definition access :: "(nat \<Rightarrow> bool) \<Rightarrow> (nat \<Rightarrow> bool) \<Rightarrow> bool \<Rightarrow> byte list option \<Rightarrow> nat \<Rightarrow> nat \<Rightarrow> volume \<Rightarrow> (int \<times> byte list \<times> volume) option" where
  "access rdok wrok dma wdata n position v =
     (let ss = SectorSize (vdrive v); volSize = SectorCount (vdrive v) * ss in
      if ss = 0 then Some (- EINVAL, [], v)
      else
        let n = (if position + n > volSize then volSize - position else n) in
        if n = 0 then Some (0, [], v)
        else do { (res, out, v) \<leftarrow> access_loop rdok wrok dma wdata n position v;
                  Some (if res < 0 then res else int n, out, v) })"

(* src/kernel/bufferedvolume.cpp:149-155 BufferedVolume::flushBuffers *)
definition flushBuffers :: "(nat \<Rightarrow> bool) \<Rightarrow> volume \<Rightarrow> bool \<times> volume" where
  "flushBuffers wrok v =
     fold (\<lambda>i (res, v). case flushBuffer wrok i v of (r, v) \<Rightarrow> (res \<and> r, v)) [0..<length (buffers v)] (True, v)"

(* src/kernel/bufferedvolume.cpp:176-179 BufferedVolume::Read *)
definition BufferedVolume_Read :: "(nat \<Rightarrow> bool) \<Rightarrow> (nat \<Rightarrow> bool) \<Rightarrow> bool \<Rightarrow> nat \<Rightarrow> nat \<Rightarrow> volume \<Rightarrow> (int \<times> byte list \<times> volume) option" where
  "BufferedVolume_Read rdok wrok dma position n v = access rdok wrok dma None n position v"

(* src/kernel/bufferedvolume.cpp:181-184 BufferedVolume::Write *)
definition BufferedVolume_Write :: "(nat \<Rightarrow> bool) \<Rightarrow> (nat \<Rightarrow> bool) \<Rightarrow> bool \<Rightarrow> byte list \<Rightarrow> nat \<Rightarrow> nat \<Rightarrow> volume \<Rightarrow> (int \<times> byte list \<times> volume) option" where
  "BufferedVolume_Write rdok wrok dma buffer position n v = access rdok wrok dma (Some buffer) n position v"

(* src/kernel/bufferedvolume.cpp:186-189 BufferedVolume::Synchronize *)
definition BufferedVolume_Synchronize :: "(nat \<Rightarrow> bool) \<Rightarrow> volume \<Rightarrow> int \<times> volume" where
  "BufferedVolume_Synchronize wrok v = (case flushBuffers wrok v of (r, v) \<Rightarrow> (of_bool r, v))"

text \<open>The destructor: the drive it leaves and the number of buffers whose memory is given back.\<close>

(* src/kernel/bufferedvolume.cpp:165-174 BufferedVolume::~BufferedVolume *)
definition BufferedVolume_delete :: "(nat \<Rightarrow> bool) \<Rightarrow> volume \<Rightarrow> drive \<times> nat" where
  "BufferedVolume_delete wrok v =
     (case flushBuffers wrok v of (_, v) \<Rightarrow> (vdrive v, length (filter (\<lambda>b. Buffer b \<noteq> None) (buffers v))))"

section \<open>Partitions\<close>

text \<open>
  A partition reads and writes its own buffered volume, shifted by the partition's first sector. \<open>ReadSectors\<close> and
  \<open>WriteSectors\<close> call the virtual \<open>Read\<close> and \<open>Write\<close>, which are those of the partition.
\<close>

(* src/kernel/include/partvolume.hpp:17-18 PartVolume, fields *)
record PartVolume =
  base :: volume
  firstSector :: nat
  sectorCount :: nat

(* src/kernel/partvolume.cpp:99-106 PartVolume::PartVolume *)
definition PartVolume_new :: "drive \<Rightarrow> nat \<Rightarrow> nat \<Rightarrow> PartVolume" where
  "PartVolume_new d first cnt = \<lparr>base = BufferedVolume_new d 16 16, firstSector = first, sectorCount = cnt\<rparr>"

(* src/kernel/partvolume.cpp:125-129 PartVolume::Read *)
definition PartVolume_Read :: "(nat \<Rightarrow> bool) \<Rightarrow> (nat \<Rightarrow> bool) \<Rightarrow> bool \<Rightarrow> nat \<Rightarrow> nat \<Rightarrow> PartVolume \<Rightarrow> (int \<times> byte list \<times> PartVolume) option" where
  "PartVolume_Read rdok wrok dma position n p =
     map_option (\<lambda>(r, out, v). (r, out, p\<lparr>base := v\<rparr>))
       (BufferedVolume_Read rdok wrok dma (position + firstSector p * SectorSize (vdrive (base p))) n (base p))"

(* src/kernel/partvolume.cpp:131-135 PartVolume::Write *)
definition PartVolume_Write :: "(nat \<Rightarrow> bool) \<Rightarrow> (nat \<Rightarrow> bool) \<Rightarrow> bool \<Rightarrow> byte list \<Rightarrow> nat \<Rightarrow> nat \<Rightarrow> PartVolume \<Rightarrow> (int \<times> byte list \<times> PartVolume) option" where
  "PartVolume_Write rdok wrok dma buffer position n p =
     map_option (\<lambda>(r, out, v). (r, out, p\<lparr>base := v\<rparr>))
       (BufferedVolume_Write rdok wrok dma buffer (position + firstSector p * SectorSize (vdrive (base p))) n (base p))"

(* src/kernel/partvolume.cpp:113-117 PartVolume::ReadSectors *)
definition PartVolume_ReadSectors :: "(nat \<Rightarrow> bool) \<Rightarrow> (nat \<Rightarrow> bool) \<Rightarrow> bool \<Rightarrow> nat \<Rightarrow> nat \<Rightarrow> PartVolume \<Rightarrow> (int \<times> byte list \<times> PartVolume) option" where
  "PartVolume_ReadSectors rdok wrok dma first n p =
     (let ss = SectorSize (vdrive (base p)) in PartVolume_Read rdok wrok dma ((firstSector p + first) * ss) (n * ss) p)"

(* src/kernel/partvolume.cpp:119-123 PartVolume::WriteSectors *)
definition PartVolume_WriteSectors :: "(nat \<Rightarrow> bool) \<Rightarrow> (nat \<Rightarrow> bool) \<Rightarrow> bool \<Rightarrow> byte list \<Rightarrow> nat \<Rightarrow> nat \<Rightarrow> PartVolume \<Rightarrow> (int \<times> byte list \<times> PartVolume) option" where
  "PartVolume_WriteSectors rdok wrok dma buffer first n p =
     (let ss = SectorSize (vdrive (base p)) in PartVolume_Write rdok wrok dma buffer ((firstSector p + first) * ss) (n * ss) p)"

(* src/kernel/partvolume.cpp:108-111 PartVolume::GetSectorCount *)
definition PartVolume_GetSectorCount :: "PartVolume \<Rightarrow> nat" where
  "PartVolume_GetSectorCount p = sectorCount p"

text \<open>The partition table, in the first sector of a drive.\<close>

(* src/kernel/partvolume.cpp:8-16 MBRTableEntry, struct *)
record MBRTableEntry =
  mbr_Flags :: byte
  mbr_ID :: byte
  StartLBA :: "32 word"
  LBACount :: "32 word"

definition le32_at :: "byte list \<Rightarrow> nat \<Rightarrow> 32 word" where
  "le32_at s i = ucast (s ! i) + 2 ^ 8 * ucast (s ! (i + 1)) + 2 ^ 16 * ucast (s ! (i + 2)) + 2 ^ 24 * ucast (s ! (i + 3))"

definition mbrt :: "byte list \<Rightarrow> nat \<Rightarrow> MBRTableEntry" where
  "mbrt s i = (let p = 446 + 16 * i in \<lparr>mbr_Flags = s ! p, mbr_ID = s ! (p + 4), StartLBA = le32_at s (p + 8), LBACount = le32_at s (p + 12)\<rparr>)"

text \<open>The scan of the four entries: whether they are well-formed, the active ones and the used ones.\<close>

(* src/kernel/partvolume.cpp:47-63 PartVolumeType::Detect, scan *)
fun mbr_scan :: "nat \<Rightarrow> MBRTableEntry list \<Rightarrow> nat \<Rightarrow> nat \<Rightarrow> bool \<times> nat \<times> nat" where
  "mbr_scan cnt [] activeCount entryCount = (True, activeCount, entryCount)"
| "mbr_scan cnt (e # es) activeCount entryCount =
     (if StartLBA e = 0 then mbr_scan cnt es activeCount entryCount
      else
        let activeCount = (if mbr_Flags e AND 0x80 \<noteq> 0 then activeCount + 1 else activeCount) in
        if unat (StartLBA e + LBACount e) > cnt then (False, activeCount, entryCount)
        else mbr_scan cnt es activeCount (entryCount + 1))"

text \<open>The partitions found, as pairs of the first sector and the number of sectors; \<open>firstSector\<close> is what is read, if it is.\<close>

(* src/kernel/partvolume.cpp:24-97 PartVolumeType::Detect *)
definition PartVolumeType_Detect :: "byte list option \<Rightarrow> drive \<Rightarrow> int \<times> PartVolume list" where
  "PartVolumeType_Detect sector d =
     (if SectorSize d < 512 then (0, [])
      else case sector of
             None \<Rightarrow> (- EIO, [])
           | Some s \<Rightarrow>
               if s ! 510 \<noteq> 0x55 \<or> s ! 511 \<noteq> 0xAA then (0, [])
               else
                 let es = map (mbrt s) [0..<4];
                     (mbrOk, activeCount, entryCount) = mbr_scan (SectorCount d) es 0 0;
                     mbrOk = (if SectorSize d \<noteq> 512 \<and> mbr_ID (es ! 0) = 0xCD then False else mbrOk);
                     mbrOk = (if mbr_ID (es ! 0) = 0xEE then False else mbrOk);
                     mbrOk = (if entryCount = 0 \<or> activeCount > 1 then False else mbrOk)
                 in if \<not> mbrOk then (1, [PartVolume_new d 0 (SectorCount d)])
                    else let used = filter (\<lambda>e. StartLBA e \<noteq> 0) es in
                         (int (length used), map (\<lambda>e. PartVolume_new d (unat (StartLBA e)) (unat (LBACount e))) used))"

section \<open>What a volume holds\<close>

definition blockSize :: "volume \<Rightarrow> nat" where
  "blockSize v = sectorsPerBuffer v * SectorSize (vdrive v)"

definition caches :: "volume \<Rightarrow> nat \<Rightarrow> nat \<Rightarrow> bool" where
  "caches v i k \<longleftrightarrow> i < length (buffers v) \<and> Used (buffers v ! i) \<and> FirstSector (buffers v ! i) = sectorsPerBuffer v * k"

definition vol_ok :: "volume \<Rightarrow> bool" where
  "vol_ok v \<longleftrightarrow> 0 < blockSize v \<and> buffers v \<noteq> [] \<and>
     (\<forall>b \<in> set (buffers v). Used b \<longrightarrow> Buffer b \<noteq> None \<and> sectorsPerBuffer v dvd FirstSector b) \<and>
     (\<forall>b \<in> set (buffers v). Dirty b \<longrightarrow> Used b) \<and>
     (\<forall>i j k. caches v i k \<and> caches v j k \<longrightarrow> i = j) \<and>
     (\<forall>i k. caches v i k \<and> \<not> Dirty (buffers v ! i) \<longrightarrow>
        (\<forall>a < blockSize v. the (Buffer (buffers v ! i)) a = disk (vdrive v) (k * blockSize v + a)))"

text \<open>A byte of the volume: from the buffer that caches its block, or from the drive.\<close>

definition content :: "volume \<Rightarrow> nat \<Rightarrow> byte" where
  "content v a =
     (case getContainingBuffer (a div SectorSize (vdrive v)) v of
        None \<Rightarrow> disk (vdrive v) a
      | Some i \<Rightarrow> the (Buffer (buffers v ! i)) (a mod blockSize v))"

lemma vol_okI:
  assumes "0 < blockSize v" "buffers v \<noteq> []"
    and "\<And>i. i < length (buffers v) \<Longrightarrow> Used (buffers v ! i) \<Longrightarrow> Buffer (buffers v ! i) \<noteq> None \<and> (\<exists>k. caches v i k)"
    and "\<And>i. i < length (buffers v) \<Longrightarrow> Dirty (buffers v ! i) \<Longrightarrow> Used (buffers v ! i)"
    and "\<And>i j k. caches v i k \<Longrightarrow> caches v j k \<Longrightarrow> i = j"
    and "\<And>i k a. caches v i k \<Longrightarrow> \<not> Dirty (buffers v ! i) \<Longrightarrow> a < blockSize v \<Longrightarrow>
       the (Buffer (buffers v ! i)) a = disk (vdrive v) (k * blockSize v + a)"
  shows "vol_ok v"
  unfolding vol_ok_def
proof (intro conjI ballI impI allI)
  show "0 < blockSize v" "buffers v \<noteq> []" by fact+
next
  fix b assume "b \<in> set (buffers v)" "Used b"
  then obtain i where "i < length (buffers v)" "b = buffers v ! i" "Used (buffers v ! i)" by (auto simp: in_set_conv_nth)
  then show "Buffer b \<noteq> None" "sectorsPerBuffer v dvd FirstSector b" using assms(3) [of i] by (auto simp: caches_def)
next
  fix b assume "b \<in> set (buffers v)" "Dirty b"
  then show "Used b" using assms(4) by (auto simp: in_set_conv_nth)
next
  fix i j k assume "caches v i k \<and> caches v j k"
  then show "i = j" using assms(5) by blast
next
  fix i k a assume "caches v i k \<and> \<not> Dirty (buffers v ! i)" "a < blockSize v"
  then show "the (Buffer (buffers v ! i)) a = disk (vdrive v) (k * blockSize v + a)" using assms(6) by blast
qed

lemma vol_okD:
  assumes "vol_ok v"
  shows "0 < blockSize v" "0 < sectorsPerBuffer v" "0 < SectorSize (vdrive v)" "buffers v \<noteq> []"
    and "i < length (buffers v) \<Longrightarrow> Used (buffers v ! i) \<Longrightarrow> Buffer (buffers v ! i) \<noteq> None \<and> (\<exists>k. caches v i k)"
    and "i < length (buffers v) \<Longrightarrow> Dirty (buffers v ! i) \<Longrightarrow> Used (buffers v ! i)"
    and "caches v i k \<Longrightarrow> caches v j k \<Longrightarrow> i = j"
    and "caches v i k \<Longrightarrow> \<not> Dirty (buffers v ! i) \<Longrightarrow> a < blockSize v \<Longrightarrow>
       the (Buffer (buffers v ! i)) a = disk (vdrive v) (k * blockSize v + a)"
proof -
  show "0 < blockSize v" "buffers v \<noteq> []" using assms unfolding vol_ok_def by blast+
  then show "0 < sectorsPerBuffer v" "0 < SectorSize (vdrive v)" by (simp_all add: blockSize_def)
next
  assume i: "i < length (buffers v)" and u: "Used (buffers v ! i)"
  from i have m: "buffers v ! i \<in> set (buffers v)" by simp
  with u assms have "Buffer (buffers v ! i) \<noteq> None" "sectorsPerBuffer v dvd FirstSector (buffers v ! i)"
    unfolding vol_ok_def by blast+
  with i u show "Buffer (buffers v ! i) \<noteq> None \<and> (\<exists>k. caches v i k)" by (auto simp: caches_def elim: dvdE)
next
  assume "i < length (buffers v)" "Dirty (buffers v ! i)"
  then show "Used (buffers v ! i)" using assms unfolding vol_ok_def by (meson nth_mem)
next
  assume "caches v i k" "caches v j k"
  then show "i = j" using assms unfolding vol_ok_def by blast
next
  assume "caches v i k" "\<not> Dirty (buffers v ! i)" "a < blockSize v"
  then show "the (Buffer (buffers v ! i)) a = disk (vdrive v) (k * blockSize v + a)" using assms unfolding vol_ok_def by blast
qed

lemma block_of: "a div SectorSize (vdrive v) div sectorsPerBuffer v = a div blockSize v"
  unfolding blockSize_def by (subst mult.commute) (rule div_mult2_eq [symmetric])

lemma in_block: "0 < (n::nat) \<Longrightarrow> (n * k \<le> s \<and> s < n * k + n) \<longleftrightarrow> s div n = k"
  by (metis add.commute div_nat_eqI mult.commute mult_Suc_right dividend_less_times_div times_div_less_eq_dividend)

lemma block_disjoint:
  assumes "a < (n::nat)" "k \<noteq> k'"
  shows "\<not> (k * n \<le> k' * n + a \<and> k' * n + a < k * n + n)"
  using in_block [of n k "k' * n + a"] assms by (auto simp: mult.commute)

lemma getContainingBuffer_iff:
  assumes "vol_ok v"
  shows "getContainingBuffer sector v = Some i \<longleftrightarrow> caches v i (sector div sectorsPerBuffer v)"
    and "getContainingBuffer sector v = None \<longleftrightarrow> \<not> (\<exists>i. caches v i (sector div sectorsPerBuffer v))"
proof -
  note D = vol_okD [OF assms]
  let ?P = "\<lambda>i. let b = buffers v ! i in Used b \<and> sector \<ge> FirstSector b \<and> sector < FirstSector b + sectorsPerBuffer v"
  have P: "?P i \<longleftrightarrow> caches v i (sector div sectorsPerBuffer v)" if i: "i < length (buffers v)" for i
  proof (cases "Used (buffers v ! i)")
    case True
    then obtain k where k: "caches v i k" using D(5) i by blast
    then show ?thesis using in_block [OF D(2), of k sector] True D(2) i by (auto simp: caches_def Let_def)
  qed (simp add: caches_def Let_def)
  show n: "getContainingBuffer sector v = None \<longleftrightarrow> \<not> (\<exists>i. caches v i (sector div sectorsPerBuffer v))"
    using P by (auto simp: getContainingBuffer_def find_None_iff caches_def)
  show "getContainingBuffer sector v = Some i \<longleftrightarrow> caches v i (sector div sectorsPerBuffer v)"
  proof
    assume "getContainingBuffer sector v = Some i"
    then show "caches v i (sector div sectorsPerBuffer v)" using P by (auto simp: getContainingBuffer_def find_Some_iff)
  next
    assume c: "caches v i (sector div sectorsPerBuffer v)"
    then obtain j where j: "getContainingBuffer sector v = Some j" using n by (cases "getContainingBuffer sector v") auto
    then have "caches v j (sector div sectorsPerBuffer v)" using P by (auto simp: getContainingBuffer_def find_Some_iff)
    then show "getContainingBuffer sector v = Some i" using j D(7) c by blast
  qed
qed

lemma content_cached: "vol_ok v \<Longrightarrow> caches v i (a div blockSize v) \<Longrightarrow> content v a = the (Buffer (buffers v ! i)) (a mod blockSize v)"
  using getContainingBuffer_iff(1) [of v "a div SectorSize (vdrive v)" i] by (simp add: content_def block_of)

lemma content_uncached: "vol_ok v \<Longrightarrow> \<not> (\<exists>i. caches v i (a div blockSize v)) \<Longrightarrow> content v a = disk (vdrive v) a"
  using getContainingBuffer_iff(2) [of v "a div SectorSize (vdrive v)"] by (simp add: content_def block_of)

lemma content_clean:
  assumes "vol_ok v" "caches v i (a div blockSize v)" "\<not> Dirty (buffers v ! i)"
  shows "content v a = disk (vdrive v) a"
  using vol_okD(8) [OF assms, of "a mod blockSize v"] content_cached [OF assms(1,2)] vol_okD(1) [OF assms(1)] by simp

text \<open>Two volumes with the same caching and the same bytes in every block hold the same.\<close>

lemma content_eqI:
  assumes "vol_ok v" "vol_ok v'" "blockSize v' = blockSize v"
    and "\<And>i k. caches v' i k = caches v i k"
    and "\<And>i k a. caches v i k \<Longrightarrow> a < blockSize v \<Longrightarrow> the (Buffer (buffers v' ! i)) a = the (Buffer (buffers v ! i)) a"
    and "\<And>a. \<not> (\<exists>i. caches v i (a div blockSize v)) \<Longrightarrow> disk (vdrive v') a = disk (vdrive v) a"
  shows "content v' = content v"
proof
  fix a
  have lt: "a mod blockSize v < blockSize v" using vol_okD(1) [OF assms(1)] by simp
  show "content v' a = content v a"
  proof (cases "\<exists>i. caches v i (a div blockSize v)")
    case True
    then obtain i where i: "caches v i (a div blockSize v)" ..
    then have "caches v' i (a div blockSize v')" using assms(3,4) by simp
    then show ?thesis using content_cached [OF assms(1) i] content_cached [OF assms(2)] assms(3) assms(5) [OF i lt] by simp
  next
    case False
    then have "\<not> (\<exists>i. caches v' i (a div blockSize v'))" using assms(3,4) by simp
    then show ?thesis using content_uncached [OF assms(1) False] content_uncached [OF assms(2)] assms(6) [OF False] by simp
  qed
qed

section \<open>The operations on the cache\<close>

lemma set_buf_fields [simp]:
  "vdrive (set_buf i f v) = vdrive v" "sectorsPerBuffer (set_buf i f v) = sectorsPerBuffer v" "lru (set_buf i f v) = lru v"
  "length (buffers (set_buf i f v)) = length (buffers v)" "blockSize (set_buf i f v) = blockSize v"
  "buffers (set_buf i f v) = [] \<longleftrightarrow> buffers v = []"
  by (simp_all add: set_buf_def blockSize_def)

lemma set_buf_nth:
  "j < length (buffers v) \<Longrightarrow> buffers (set_buf i f v) ! j = (if i = j then f (buffers v ! i) else buffers v ! j)"
  by (simp add: set_buf_def nth_list_update)

text \<open>What no operation changes: the geometry of the drive and the size of the cache.\<close>

definition same_shape :: "volume \<Rightarrow> volume \<Rightarrow> bool" where
  "same_shape v v' \<longleftrightarrow> SectorSize (vdrive v') = SectorSize (vdrive v) \<and> SectorCount (vdrive v') = SectorCount (vdrive v) \<and>
     sectorsPerBuffer v' = sectorsPerBuffer v \<and> length (buffers v') = length (buffers v)"

lemma same_shape_trans: "same_shape v v' \<Longrightarrow> same_shape v' v'' \<Longrightarrow> same_shape v v''"
  by (simp add: same_shape_def)

lemma same_shape_blockSize: "same_shape v v' \<Longrightarrow> blockSize v' = blockSize v"
  by (simp add: same_shape_def blockSize_def)

text \<open>Writing a block back leaves what the volume holds; the block is then as on the drive.\<close>

lemma written_back:
  assumes ok: "vol_ok v" and c0: "caches v i k0" and data: "Buffer (buffers v ! i) = Some data"
    and v': "v' = set_buf i (\<lambda>b. b\<lparr>Dirty := False\<rparr>)
                (v\<lparr>vdrive := (vdrive v)\<lparr>disk := to_disk (k0 * blockSize v) (blockSize v) data (disk (vdrive v))\<rparr>\<rparr>)"
  shows "vol_ok v'" "content v' = content v" "caches v' j k = caches v j k"
proof -
  note D = vol_okD [OF ok]
  have sh: "blockSize v' = blockSize v" "sectorsPerBuffer v' = sectorsPerBuffer v" "length (buffers v') = length (buffers v)"
    by (simp_all add: v' blockSize_def)
  have nth: "buffers v' ! j = (if i = j then (buffers v ! i)\<lparr>Dirty := False\<rparr> else buffers v ! j)" if "j < length (buffers v)" for j
    using that by (simp add: v' set_buf_nth)
  have c: "caches v' j k = caches v j k" for j k using nth [of j] by (auto simp: caches_def sh split: if_splits)
  then show "caches v' j k = caches v j k" .
  have dk: "disk (vdrive v') (k * blockSize v + a) = (if k = k0 then data a else disk (vdrive v) (k * blockSize v + a))"
    if "a < blockSize v" for k a
    using that block_disjoint [OF that, of k0 k] by (auto simp: v' to_disk_def)
  show ok': "vol_ok v'"
  proof (rule vol_okI)
    show "0 < blockSize v'" "buffers v' \<noteq> []" using D(1,4) sh by auto
    show "Buffer (buffers v' ! j) \<noteq> None \<and> (\<exists>k. caches v' j k)" if "j < length (buffers v')" "Used (buffers v' ! j)" for j
      using that D(5) [of j] nth [of j] c by (auto simp: sh data split: if_splits)
    show "Used (buffers v' ! j)" if "j < length (buffers v')" "Dirty (buffers v' ! j)" for j
      using that D(6) [of j] nth [of j] by (auto simp: sh split: if_splits)
    show "j = j'" if "caches v' j k" "caches v' j' k" for j j' k using that c D(7) by blast
    fix j k a assume j: "caches v' j k" "\<not> Dirty (buffers v' ! j)" "a < blockSize v'"
    have jl: "j < length (buffers v)" using j c by (simp add: caches_def)
    have "j = i \<longleftrightarrow> k = k0" using j c0 c D(2,7) by (auto simp: caches_def)
    then show "the (Buffer (buffers v' ! j)) a = disk (vdrive v') (k * blockSize v' + a)"
      using nth [OF jl] data dk j c D(8) sh by (auto split: if_splits)
  qed
  show "content v' = content v"
  proof (rule content_eqI [OF ok ok' sh(1) c])
    fix j k a assume "caches v j k"
    then show "the (Buffer (buffers v' ! j)) a = the (Buffer (buffers v ! j)) a" using nth [of j] by (auto simp: caches_def)
  next
    fix a assume "\<not> (\<exists>j. caches v j (a div blockSize v))"
    then have "a div blockSize v \<noteq> k0" using c0 by blast
    then show "disk (vdrive v') a = disk (vdrive v) a" using dk [of "a mod blockSize v" "a div blockSize v"] D(1) by simp
  qed
qed

lemma flush_cases:
  assumes "vol_ok v" "i < length (buffers v)" "flushBuffer wrok i v = (r, v')"
  obtains (kept) "v' = v" "r \<longleftrightarrow> \<not> Dirty (buffers v ! i)" "Dirty (buffers v ! i) \<longrightarrow> \<not> wrok (FirstSector (buffers v ! i))"
  | (written) k data where "r" "caches v i k" "Buffer (buffers v ! i) = Some data"
      "v' = set_buf i (\<lambda>b. b\<lparr>Dirty := False\<rparr>)
         (v\<lparr>vdrive := (vdrive v)\<lparr>disk := to_disk (k * blockSize v) (blockSize v) data (disk (vdrive v))\<rparr>\<rparr>)"
proof (cases "Dirty (buffers v ! i) \<and> wrok (FirstSector (buffers v ! i))")
  case False
  then show ?thesis using kept assms vol_okD(5,6) [OF assms(1,2)]
    by (auto simp: flushBuffer_def Let_def split: if_splits option.splits)
next
  case True
  then have u: "Used (buffers v ! i)" using vol_okD(6) assms by blast
  then obtain data k where d: "Buffer (buffers v ! i) = Some data" "caches v i k" using vol_okD(5) assms by blast
  moreover have "FirstSector (buffers v ! i) * SectorSize (vdrive v) = k * blockSize v"
    using d by (simp add: caches_def blockSize_def)
  ultimately show ?thesis using written True u assms(2,3) by (simp add: flushBuffer_def Let_def) (simp add: blockSize_def)
qed

lemma flush_ok:
  assumes ok: "vol_ok v" and i: "i < length (buffers v)" and f: "flushBuffer wrok i v = (r, v')"
  shows "vol_ok v' \<and> content v' = content v \<and> same_shape v v' \<and> (\<forall>j k. caches v' j k = caches v j k) \<and>
    (r \<longrightarrow> \<not> Dirty (buffers v' ! i)) \<and> (wrok (FirstSector (buffers v ! i)) \<longrightarrow> r) \<and>
    (\<forall>j < length (buffers v). \<not> Dirty (buffers v ! j) \<longrightarrow> \<not> Dirty (buffers v' ! j))"
proof (cases rule: flush_cases [OF ok i f])
  case 1
  then show ?thesis using ok by (auto simp: same_shape_def)
next
  case (2 k data)
  note W = written_back [OF ok 2(2,3,4)]
  have "same_shape v v'" unfolding 2(4) by (simp add: same_shape_def)
  moreover have "\<not> Dirty (buffers v' ! j)" if "j < length (buffers v)" "j = i \<or> \<not> Dirty (buffers v ! j)" for j
    using that unfolding 2(4) by (auto simp: set_buf_nth)
  ultimately show ?thesis using W 2(1) i by blast
qed

text \<open>A clean buffer may take any block that is not cached.\<close>

lemma installed:
  assumes ok: "vol_ok v" and i: "i < length (buffers v)" and clean: "\<not> Dirty (buffers v ! i)"
    and new: "\<not> (\<exists>j. caches v j k0)"
    and v': "v' = set_buf i (\<lambda>b. b\<lparr>Used := True, Buffer := Some (\<lambda>a. disk (vdrive v) (k0 * blockSize v + a)), FirstSector := sectorsPerBuffer v * k0\<rparr>) v"
  shows "vol_ok v'" "content v' = content v" "caches v' i k0"
proof -
  note D = vol_okD [OF ok]
  have sh: "blockSize v' = blockSize v" "sectorsPerBuffer v' = sectorsPerBuffer v" "length (buffers v') = length (buffers v)" "vdrive v' = vdrive v"
    by (simp_all add: v' blockSize_def)
  have nth: "buffers v' ! j = (if i = j then (buffers v ! i)\<lparr>Buffer := Some (\<lambda>a. disk (vdrive v) (k0 * blockSize v + a)),
      FirstSector := sectorsPerBuffer v * k0, Used := True\<rparr> else buffers v ! j)" if "j < length (buffers v)" for j
    using that by (simp add: v' set_buf_nth)
  have c: "caches v' j k \<longleftrightarrow> (if j = i then k = k0 else caches v j k)" for j k
    using nth [of j] i D(2) by (auto simp: caches_def sh)
  then show "caches v' i k0" by simp
  show ok': "vol_ok v'"
  proof (rule vol_okI)
    show "0 < blockSize v'" "buffers v' \<noteq> []" using D(1,4) sh by auto
    show "Buffer (buffers v' ! j) \<noteq> None \<and> (\<exists>k. caches v' j k)" if "j < length (buffers v')" "Used (buffers v' ! j)" for j
      using that D(5) [of j] nth [of j] c by (auto simp: sh split: if_splits)
    show "Used (buffers v' ! j)" if "j < length (buffers v')" "Dirty (buffers v' ! j)" for j
      using that D(6) [of j] nth [of j] by (auto simp: sh split: if_splits)
    show "j = j'" if "caches v' j k" "caches v' j' k" for j j' k using that c D(7) new by (metis (full_types))
    fix j k a assume j: "caches v' j k" "\<not> Dirty (buffers v' ! j)" "a < blockSize v'"
    have jl: "j < length (buffers v)" using j(1) sh(3) by (simp add: caches_def)
    then show "the (Buffer (buffers v' ! j)) a = disk (vdrive v') (k * blockSize v' + a)"
      using nth [OF jl] j c D(8) sh by (auto split: if_splits)
  qed
  show "content v' = content v"
  proof
    fix a
    have lt: "a mod blockSize v < blockSize v" using D(1) by simp
    consider "a div blockSize v = k0" | j where "j \<noteq> i" "caches v j (a div blockSize v)"
      | "a div blockSize v \<noteq> k0" "\<not> (\<exists>j. j \<noteq> i \<and> caches v j (a div blockSize v))" by blast
    then show "content v' a = content v a"
    proof cases
      case 1
      then have "content v' a = disk (vdrive v) a"
        using content_cached [OF ok', of i a] c sh nth [OF i] D(1) by (simp flip: 1)
      then show ?thesis using content_uncached [OF ok, of a] new 1 by simp
    next
      case 2
      then show ?thesis using content_cached [OF ok', of j a] content_cached [OF ok 2(2)] c sh nth [of j] by (auto simp: caches_def)
    next
      case 3
      then have "content v' a = disk (vdrive v) a" using content_uncached [OF ok', of a] c sh by (metis (full_types))
      moreover have "content v a = disk (vdrive v) a"
        using content_uncached [OF ok, of a] content_clean [OF ok _ clean, of a] 3(2) by metis
      ultimately show ?thesis by simp
    qed
  qed
qed

lemma set_buf_twice: "set_buf i f (set_buf i g v) = set_buf i (f \<circ> g) v"
  by (cases "i < length (buffers v)") (simp_all add: set_buf_def list_update_beyond)

lemma lru_buffer_less: "buffers v \<noteq> [] \<Longrightarrow> lru_buffer v < length (buffers v)"
proof -
  assume ne: "buffers v \<noteq> []"
  have "fst (fold (\<lambda>i (m, t). if Time (buffers v ! i) < t then (i, Time (buffers v ! i)) else (m, t)) is (m, t)) < n"
    if "\<forall>i \<in> set is. i < n" "m < n" for "is" m t n
    using that by (induction "is" arbitrary: m t) auto
  then show "lru_buffer v < length (buffers v)" using ne by (simp add: lru_buffer_def)
qed

text \<open>The buffer that is handed out is clean: it was unused, or it is the least recently used one, written back.\<close>

lemma allocate_ok:
  assumes ok: "vol_ok v" and a: "allocateBuffer wrok v = (r, v1)"
  shows "case r of
           None \<Rightarrow> vol_ok v1 \<and> content v1 = content v \<and> same_shape v v1 \<and> \<not> (\<forall>s. wrok s)
         | Some i \<Rightarrow> (\<exists>v0. vol_ok v0 \<and> content v0 = content v \<and> same_shape v v0 \<and> (\<forall>j k. caches v0 j k = caches v j k) \<and>
             i < length (buffers v0) \<and> \<not> Dirty (buffers v0 ! i) \<and> (v1 = v0 \<or> v1 = set_buf i (\<lambda>b. b\<lparr>Used := True\<rparr>) v0))"
proof (cases "List.find (\<lambda>i. \<not> Used (buffers v ! i)) [0..<length (buffers v)]")
  case (Some i)
  then have i: "i < length (buffers v)" "\<not> Used (buffers v ! i)" by (auto simp: find_Some_iff)
  then have "\<not> Dirty (buffers v ! i)" using vol_okD(6) [OF ok] by blast
  moreover have "r = Some i" "v1 = set_buf i (\<lambda>b. b\<lparr>Used := True\<rparr>) v" using a Some by (auto simp: allocateBuffer_def)
  ultimately show ?thesis using i ok by (auto simp: same_shape_def)
next
  case None
  let ?i = "lru_buffer v"
  have i: "?i < length (buffers v)" using lru_buffer_less vol_okD(4) [OF ok] by blast
  obtain fr v' where f: "flushBuffer wrok ?i v = (fr, v')" by fastforce
  note F = flush_ok [OF ok i f]
  show ?thesis
  proof (cases "Dirty (buffers v ! ?i)")
    case True
    then have "r = (if fr then Some ?i else None)" "v1 = v'" using a None f by (auto simp: allocateBuffer_def Let_def split: if_splits)
    then show ?thesis using F i by (auto simp: same_shape_def)
  next
    case False
    then have "r = Some ?i" "v1 = v" using a None by (auto simp: allocateBuffer_def Let_def)
    then show ?thesis using ok i False by (auto simp: same_shape_def)
  qed
qed

lemma load_clean:
  assumes "i < length (buffers v)" "\<not> Dirty (buffers v ! i)" "0 < SectorSize (vdrive v)" "\<And>s. rdok s"
  shows "loadBuffer rdok wrok True i sector v =
    Some (True, set_buf i (\<lambda>b. b\<lparr>Used := True, Buffer := Some (\<lambda>a. disk (vdrive v) (sector div sectorsPerBuffer v * blockSize v + a)),
                               FirstSector := sectorsPerBuffer v * (sector div sectorsPerBuffer v)\<rparr>) v)"
proof -
  have e: "sectorsPerBuffer v * (sector div sectorsPerBuffer v) * SectorSize (vdrive v) = sector div sectorsPerBuffer v * blockSize v"
    by (simp add: blockSize_def)
  show ?thesis
    using assms by (auto simp: loadBuffer_def Let_def set_buf_nth set_buf_twice o_def e)
qed

lemma buffer_of_ok:
  assumes ok: "vol_ok v" and rd: "\<And>s. rdok s" and b: "buffer_of rdok wrok True sector v = res"
  obtains r v' where "res = Some (r, v')" "vol_ok v'" "content v' = content v" "same_shape v v'"
    "case r of Inr i \<Rightarrow> caches v' i (sector div sectorsPerBuffer v) | Inl e \<Rightarrow> e = - ENOMEM \<and> \<not> (\<forall>s. wrok s)"
proof (cases "getContainingBuffer sector v")
  case (Some i)
  then have "caches v i (sector div sectorsPerBuffer v)" using getContainingBuffer_iff(1) [OF ok] by blast
  then show ?thesis using that [of "Inr i" v] Some ok b by (auto simp: buffer_of_def same_shape_def)
next
  case None
  then have new: "\<not> (\<exists>j. caches v j (sector div sectorsPerBuffer v))" using getContainingBuffer_iff(2) [OF ok] by blast
  obtain r v1 where a: "allocateBuffer wrok v = (r, v1)" by fastforce
  note A = allocate_ok [OF ok a]
  show ?thesis
  proof (cases r)
    case None
    then show ?thesis using that [of "Inl (- ENOMEM)" v1] A a b \<open>getContainingBuffer sector v = None\<close> by (auto simp: buffer_of_def)
  next
    case (Some i)
    let ?k = "sector div sectorsPerBuffer v"
    from A Some obtain v0 where v0: "vol_ok v0" "content v0 = content v" "same_shape v v0" "\<And>j k. caches v0 j k = caches v j k"
      "i < length (buffers v0)" "\<not> Dirty (buffers v0 ! i)" "v1 = v0 \<or> v1 = set_buf i (\<lambda>b. b\<lparr>Used := True\<rparr>) v0" by auto
    let ?v' = "set_buf i (\<lambda>b. b\<lparr>Used := True, Buffer := Some (\<lambda>a. disk (vdrive v0) (?k * blockSize v0 + a)), FirstSector := sectorsPerBuffer v0 * ?k\<rparr>) v0"
    have sp: "sectorsPerBuffer v0 = sectorsPerBuffer v" using v0(3) by (simp add: same_shape_def)
    have "loadBuffer rdok wrok True i sector v1 = Some (True, ?v')"
      using v0(7) load_clean [of i v1 rdok wrok sector] v0(5,6) vol_okD(3) [OF v0(1)] rd
      by (auto simp: sp set_buf_nth set_buf_twice o_def)
    moreover have "vol_ok ?v'" "content ?v' = content v0" "caches ?v' i ?k"
      using installed [OF v0(1,5,6) _ refl, of ?k] new v0(4) by simp_all
    moreover have "same_shape v ?v'" using v0(3) by (simp add: same_shape_def)
    ultimately show ?thesis using that [of "Inr i" ?v'] a b Some v0(2) \<open>getContainingBuffer sector v = None\<close> by (auto simp: buffer_of_def)
  qed
qed

section \<open>Transfers\<close>

lemma to_disk_append:
  assumes "k \<le> length w"
  shows "to_disk (p + k) m (nth (drop k w)) (to_disk p k (nth (take k w)) c) = to_disk p (k + m) (nth w) c"
proof
  fix a
  show "to_disk (p + k) m (nth (drop k w)) (to_disk p k (nth (take k w)) c) a = to_disk p (k + m) (nth w) c a"
    using assms by (auto simp: to_disk_def nth_drop nth_take)
qed

lemma to_disk_nothing [simp]: "to_disk p 0 w c = c"
  by (rule ext) (auto simp: to_disk_def)

text \<open>A buffer replaced by one for the same block: what it holds differs only in that block.\<close>

lemma rewritten:
  assumes ok: "vol_ok v" and c0: "caches v i k0" and new: "Buffer b' = Some data" "FirstSector b' = FirstSector (buffers v ! i)" "Used b'"
    and d: "Dirty b' \<or> (b' = (buffers v ! i)\<lparr>Time := t\<rparr>)"
    and v': "v' = (set_buf i (\<lambda>_. b') v)\<lparr>lru := l\<rparr>"
  shows "vol_ok v'" "same_shape v v'"
    "content v' = to_disk (k0 * blockSize v) (blockSize v) data (content v)"
proof -
  note D = vol_okD [OF ok]
  have i: "i < length (buffers v)" using c0 by (simp add: caches_def)
  have sh: "blockSize v' = blockSize v" "sectorsPerBuffer v' = sectorsPerBuffer v" "length (buffers v') = length (buffers v)" "vdrive v' = vdrive v"
    by (simp_all add: v' blockSize_def)
  have nth: "buffers v' ! j = (if i = j then b' else buffers v ! j)" if "j < length (buffers v)" for j
    using that by (simp add: v' set_buf_nth)
  have c: "caches v' j k = caches v j k" for j k using nth [of j] c0 new by (auto simp: caches_def sh split: if_splits)
  show "same_shape v v'" by (simp add: v' same_shape_def)
  show ok': "vol_ok v'"
  proof (rule vol_okI)
    show "0 < blockSize v'" "buffers v' \<noteq> []" using D(1,4) sh by auto
    show "Buffer (buffers v' ! j) \<noteq> None \<and> (\<exists>k. caches v' j k)" if "j < length (buffers v')" "Used (buffers v' ! j)" for j
      using that D(5) [of j] nth [of j] c c0 new by (auto simp: sh split: if_splits)
    show "Used (buffers v' ! j)" if "j < length (buffers v')" "Dirty (buffers v' ! j)" for j
      using that D(6) [of j] nth [of j] new by (auto simp: sh split: if_splits)
    show "j = j'" if "caches v' j k" "caches v' j' k" for j j' k using that c D(7) by blast
    fix j k a assume j: "caches v' j k" "\<not> Dirty (buffers v' ! j)" "a < blockSize v'"
    have jl: "j < length (buffers v)" using j(1) sh(3) by (simp add: caches_def)
    show "the (Buffer (buffers v' ! j)) a = disk (vdrive v') (k * blockSize v' + a)"
      using nth [OF jl] j c D(8) [of j k a] d sh by (auto split: if_splits)
  qed
  show "content v' = to_disk (k0 * blockSize v) (blockSize v) data (content v)"
  proof
    fix a
    have blk: "(k0 * blockSize v \<le> a \<and> a < k0 * blockSize v + blockSize v) \<longleftrightarrow> a div blockSize v = k0"
      using in_block [OF D(1), of k0 a] by (simp add: mult.commute)
    consider "a div blockSize v = k0" | j where "a div blockSize v \<noteq> k0" "caches v j (a div blockSize v)"
      | "a div blockSize v \<noteq> k0" "\<not> (\<exists>j. caches v j (a div blockSize v))" by blast
    then show "content v' a = to_disk (k0 * blockSize v) (blockSize v) data (content v) a"
    proof cases
      case 1
      then show ?thesis using content_cached [OF ok', of i a] c c0 sh nth [OF i] new blk
        by (simp add: to_disk_def flip: 1) (simp add: minus_div_mult_eq_mod)
    next
      case 2
      then have "j \<noteq> i" "j < length (buffers v)" using c0 D(2) by (auto simp: caches_def)
      then show ?thesis using content_cached [OF ok', of j a] content_cached [OF ok 2(2)] c 2 sh nth blk by (auto simp: to_disk_def)
    next
      case 3
      then show ?thesis using content_uncached [OF ok', of a] content_uncached [OF ok 3(2)] c sh blk by (auto simp: to_disk_def)
    qed
  qed
qed

lemma block_bytes:
  assumes "vol_ok v" "caches v i k" "Buffer (buffers v ! i) = Some data" "a < blockSize v"
  shows "content v (k * blockSize v + a) = data a"
  using content_cached [OF assms(1), of i "k * blockSize v + a"] assms vol_okD(1) [OF assms(1)] by simp

lemma to_disk_in_block:
  assumes "\<And>a. a < n \<Longrightarrow> c (q + a) = data a" "k \<le> n - p" "p < n"
  shows "to_disk q n (\<lambda>a. if p \<le> a \<and> a < p + k then w ! (a - p) else data a) c = to_disk (q + p) k (nth w) c"
proof
  fix a
  show "to_disk q n (\<lambda>a. if p \<le> a \<and> a < p + k then w ! (a - p) else data a) c a = to_disk (q + p) k (nth w) c a"
    using assms(1) [of "a - q"] assms(2,3) by (auto simp: to_disk_def)
qed

text \<open>What a transfer leaves behind: the bytes read or the bytes written, and nothing else.\<close>

definition transferred :: "byte list option \<Rightarrow> nat \<Rightarrow> nat \<Rightarrow> volume \<Rightarrow> byte list \<Rightarrow> volume \<Rightarrow> bool" where
  "transferred wdata position n v out v' \<longleftrightarrow> vol_ok v' \<and> same_shape v v' \<and>
     (case wdata of
        None \<Rightarrow> out = map (content v) [position..<position + n] \<and> content v' = content v
      | Some w \<Rightarrow> out = [] \<and> content v' = to_disk position n (nth w) (content v))"

lemma xfer_ok:
  assumes ok: "vol_ok v" and c: "caches v i (position div blockSize v)" and k: "k \<le> blockSize v - position mod blockSize v"
  shows "\<exists>out v'. xfer wdata i (position mod blockSize v) k v = Some (out, v') \<and> transferred wdata position k v out v'"
proof -
  let ?o = "position mod blockSize v" and ?k0 = "position div blockSize v"
  have pos: "position = ?k0 * blockSize v + ?o" by simp
  have i: "i < length (buffers v)" "Used (buffers v ! i)" using c by (simp_all add: caches_def)
  obtain data where data: "Buffer (buffers v ! i) = Some data" using vol_okD(5) [OF ok i] by blast
  note B = block_bytes [OF ok c data]
  have o: "?o < blockSize v" using vol_okD(1) [OF ok] by simp
  have id: "to_disk (?k0 * blockSize v) (blockSize v) data (content v) = content v"
    using B by (fastforce simp: to_disk_def fun_eq_iff dest: le_Suc_ex)
  show ?thesis
  proof (cases wdata)
    case None
    let ?b = "(buffers v ! i)\<lparr>Time := lru v\<rparr>" let ?v = "(set_buf i (\<lambda>_. ?b) v)\<lparr>lru := (lru v + 1) mod 2 ^ 64\<rparr>"
    note R = rewritten [OF ok c, of ?b data "lru v" ?v "(lru v + 1) mod 2 ^ 64"]
    have "xfer None i ?o k v = Some (map (\<lambda>j. data (?o + j)) [0..<k], ?v)"
      using i data by (simp add: xfer_def Let_def set_buf_nth set_buf_def)
    moreover have "data (?o + j) = content v (position + j)" if "j < k" for j
      using B [of "?o + j"] that k by (simp add: add.assoc [symmetric])
    then have "map (\<lambda>j. data (?o + j)) [0..<k] = map (content v) [position..<position + k]"
      by (intro nth_equalityI) auto
    ultimately show ?thesis using R data i id None by (auto simp: transferred_def)
  next
    case (Some w)
    let ?data = "\<lambda>a. if ?o \<le> a \<and> a < ?o + k then w ! (a - ?o) else data a"
    let ?b = "(buffers v ! i)\<lparr>Time := lru v, Buffer := Some ?data, Dirty := True\<rparr>"
    let ?v = "(set_buf i (\<lambda>_. ?b) v)\<lparr>lru := (lru v + 1) mod 2 ^ 64\<rparr>"
    note R = rewritten [OF ok c, of ?b ?data "lru v" ?v "(lru v + 1) mod 2 ^ 64"]
    have "xfer (Some w) i ?o k v = Some ([], ?v)"
      using i data by (simp add: xfer_def Let_def set_buf_nth set_buf_def)
    moreover have "to_disk (?k0 * blockSize v) (blockSize v) ?data (content v) = to_disk position k (nth w) (content v)"
      using to_disk_in_block [of "blockSize v" "content v" "?k0 * blockSize v" data k ?o w] B k o by simp
    ultimately show ?thesis using R i Some by (auto simp: transferred_def)
  qed
qed

lemma transferred_trans:
  assumes "transferred (map_option (take k) wdata) position k v out v'"
    and "transferred (map_option (drop k) wdata) (position + k) m v' rest v''" and "\<And>w. wdata = Some w \<Longrightarrow> k \<le> length w"
  shows "transferred wdata position (k + m) v (out @ rest) v''"
proof (cases wdata)
  case None
  have "[position..<position + (k + m)] = [position..<position + k] @ [position + k..<position + k + m]"
    using upt_add_eq_append [of position "position + k" m] by (simp add: add.assoc)
  then show ?thesis using assms None same_shape_trans by (auto simp: transferred_def)
next
  case (Some w)
  then show ?thesis using assms same_shape_trans to_disk_append [of k w position m "content v"] by (auto simp: transferred_def)
qed

lemma access_loop_0: "access_loop rdok wrok dma wdata 0 position v = Some (0, [], v)"
  by (simp add: access_loop.simps [of rdok wrok dma wdata 0] Let_def)

text \<open>A transfer stops early only when a block could not be written back.\<close>

lemma access_loop_ok:
  assumes "vol_ok v" "\<And>s. rdok s" "\<And>w. wdata = Some w \<Longrightarrow> n \<le> length w"
  shows "\<exists>res out v' m. access_loop rdok wrok True wdata n position v = Some (res, out, v') \<and> transferred wdata position m v out v' \<and>
     (res = 0 \<and> m = n \<or> res = - ENOMEM \<and> m < n \<and> \<not> (\<forall>s. wrok s))"
  using assms(1,3)
proof (induction n arbitrary: wdata position v rule: less_induct)
  case (less n)
  note D = vol_okD [OF less.prems(1)]
  let ?bs = "blockSize v"
  let ?k = "min n (?bs - position mod ?bs)"
  note unf = access_loop.simps [of rdok wrok True wdata n position v] 
  show ?case
  proof (cases "n = 0")
    case True
    have "transferred wdata position 0 v [] v"
      using less.prems(1) by (simp add: transferred_def same_shape_def split: option.splits)
    then show ?thesis using True by (auto simp: access_loop_0)
  next
    case False
    have k: "0 < ?k" using False D(1) by simp
    obtain r v1 where b: "buffer_of rdok wrok True (position div SectorSize (vdrive v)) v = Some (r, v1)" "vol_ok v1" "content v1 = content v" "same_shape v v1"
      "case r of Inr i \<Rightarrow> caches v1 i (position div SectorSize (vdrive v) div sectorsPerBuffer v) | Inl e \<Rightarrow> e = - ENOMEM \<and> \<not> (\<forall>s. wrok s)"
      by (rule buffer_of_ok [OF less.prems(1) assms(2) refl])
    have bs: "blockSize v1 = ?bs" by (rule same_shape_blockSize [OF b(4)])
    show ?thesis
    proof (cases r)
      case (Inl e)
      then have "access_loop rdok wrok True wdata n position v = Some (- ENOMEM, [], v1)"
        using b False k by (subst unf) (simp add: Let_def blockSize_def)
      moreover have "transferred wdata position 0 v [] v1" using b by (simp add: transferred_def split: option.splits)
      ultimately show ?thesis using b(5) Inl False by auto
    next
      case (Inr i)
      then have "caches v1 i (position div blockSize v1)" using b(5) by (simp add: block_of bs)
      from xfer_ok [OF b(2) this, of ?k "map_option (take ?k) wdata"] obtain out v2
        where x: "xfer (map_option (take ?k) wdata) i (position mod ?bs) ?k v1 = Some (out, v2)"
          "transferred (map_option (take ?k) wdata) position ?k v1 out v2" by (auto simp: bs)
      have t1: "transferred (map_option (take ?k) wdata) position ?k v out v2"
        using x(2) b(3) same_shape_trans [OF b(4)] unfolding transferred_def b(3) by blast
      have "vol_ok v2" using x(2) by (simp add: transferred_def)
      moreover have "n - ?k < n" using k False by linarith
      moreover have "n - ?k \<le> length w" if "map_option (drop ?k) wdata = Some w" for w
        using that less.prems(2) by (auto simp: diff_le_mono)
      ultimately obtain res rest v3 m where l: "access_loop rdok wrok True (map_option (drop ?k) wdata) (n - ?k) (position + ?k) v2 = Some (res, rest, v3)"
        "transferred (map_option (drop ?k) wdata) (position + ?k) m v2 rest v3" "res = 0 \<and> m = n - ?k \<or> res = - ENOMEM \<and> m < n - ?k \<and> \<not> (\<forall>s. wrok s)"
        using less.IH [of "n - ?k" v2 "map_option (drop ?k) wdata" "position + ?k"] by blast
      have "access_loop rdok wrok True wdata n position v = Some (res, out @ rest, v3)"
        using b(1) Inr False k x(1) l(1) by (subst unf) (simp add: Let_def blockSize_def)
      moreover have "transferred wdata position (?k + m) v (out @ rest) v3"
        by (rule transferred_trans [OF t1 l(2)]) (use less.prems(2) in force)
      moreover have "res = 0 \<and> ?k + m = n \<or> res = - ENOMEM \<and> ?k + m < n \<and> \<not> (\<forall>s. wrok s)"
        using l(3) by auto
      ultimately show ?thesis by blast
    qed
  qed
qed

section \<open>The volume as an array of bytes\<close>

definition volSize :: "volume \<Rightarrow> nat" where
  "volSize v = SectorCount (vdrive v) * SectorSize (vdrive v)"

lemma access_ok:
  assumes ok: "vol_ok v" and rd: "\<And>s. rdok s" and w: "\<And>w. wdata = Some w \<Longrightarrow> n \<le> length w"
  shows "\<exists>res out v' m. access rdok wrok True wdata n position v = Some (res, out, v') \<and> transferred wdata position m v out v' \<and>
     (res = int m \<and> m = min n (volSize v - position) \<or> res = - ENOMEM \<and> m < min n (volSize v - position) \<and> \<not> (\<forall>s. wrok s))"
proof -
  let ?n = "min n (volSize v - position)"
  have ss: "0 < SectorSize (vdrive v)" using vol_okD(3) [OF ok] .
  have n: "(if position + n > volSize v then volSize v - position else n) = ?n" by auto
  have w': "\<And>w. wdata = Some w \<Longrightarrow> ?n \<le> length w" using w min.coboundedI1 by blast
  obtain res out v' m where l: "access_loop rdok wrok True wdata ?n position v = Some (res, out, v')" "transferred wdata position m v out v'"
     "res = 0 \<and> m = ?n \<or> res = - ENOMEM \<and> m < ?n \<and> \<not> (\<forall>s. wrok s)"
    using access_loop_ok [of v rdok wdata ?n wrok position, OF ok rd w'] by blast
  have a: "access rdok wrok True wdata n position v =
      (if ?n = 0 then Some (0, [], v) else Some (if res < 0 then res else int ?n, out, v'))"
    using l(1) ss by (simp only: access_def Let_def n flip: volSize_def) (auto simp: min_def split: if_splits)
  have "v' = v \<and> out = [] \<and> res = 0" if "?n = 0" using that l(1) by (simp only: that access_loop_0) simp
  then show ?thesis using a l(2,3) by (cases "?n = 0") auto
qed

lemma flushBuffers_upto:
  assumes ok: "vol_ok v" and m: "m \<le> length (buffers v)"
    and f: "fold (\<lambda>i (res, v). case flushBuffer wrok i v of (r, v) \<Rightarrow> (res \<and> r, v)) [0..<m] (True, v) = (r, v')"
  shows "vol_ok v' \<and> content v' = content v \<and> same_shape v v' \<and> (r \<longrightarrow> (\<forall>j < m. \<not> Dirty (buffers v' ! j))) \<and> ((\<forall>s. wrok s) \<longrightarrow> r)"
  using m f
proof (induction m arbitrary: r v')
  case 0
  then show ?case using ok by (auto simp: same_shape_def)
next
  case (Suc m)
  obtain r1 v1 where 1: "fold (\<lambda>i (res, v). case flushBuffer wrok i v of (r, v) \<Rightarrow> (res \<and> r, v)) [0..<m] (True, v) = (r1, v1)" by fastforce
  obtain r2 v2 where 2: "flushBuffer wrok m v1 = (r2, v2)" by fastforce
  have IH: "vol_ok v1" "content v1 = content v" "same_shape v v1" "r1 \<Longrightarrow> \<forall>j < m. \<not> Dirty (buffers v1 ! j)" "(\<forall>s. wrok s) \<longrightarrow> r1"
    using Suc.IH [OF _ 1] Suc.prems(1) by auto
  have len: "length (buffers v1) = length (buffers v)" using IH(3) by (simp add: same_shape_def)
  have F: "vol_ok v2" "content v2 = content v1" "same_shape v1 v2" "r2 \<Longrightarrow> \<not> Dirty (buffers v2 ! m)" "(\<forall>s. wrok s) \<longrightarrow> r2"
    "\<And>j. j < length (buffers v1) \<Longrightarrow> \<not> Dirty (buffers v1 ! j) \<Longrightarrow> \<not> Dirty (buffers v2 ! j)"
    using flush_ok [OF IH(1) _ 2] Suc.prems(1) len by auto
  have e: "r = (r1 \<and> r2)" "v' = v2" using Suc.prems(2) 1 2 by auto
  have "\<not> Dirty (buffers v2 ! j)" if "r1 \<and> r2" "j < Suc m" for j
    using that IH(4) F(4,6) Suc.prems(1) len by (cases "j = m") auto
  then show ?case using e F(1,2) IH(2) same_shape_trans [OF IH(3) F(3)] IH(5) F(5) by auto
qed

lemma clean_content:
  assumes "vol_ok v" "\<And>j. j < length (buffers v) \<Longrightarrow> \<not> Dirty (buffers v ! j)"
  shows "content v = disk (vdrive v)"
proof
  fix a
  show "content v a = disk (vdrive v) a"
  proof (cases "\<exists>i. caches v i (a div blockSize v)")
    case True
    then obtain i where i: "caches v i (a div blockSize v)" ..
    then show ?thesis using content_clean [OF assms(1) i] assms(2) by (auto simp: caches_def)
  qed (use content_uncached [OF assms(1)] in blast)
qed

lemma vol_ok_new:
  assumes "0 < SectorSize d" "0 < spb" "0 < n"
  shows "vol_ok (BufferedVolume_new d spb n)" "content (BufferedVolume_new d spb n) = disk d" "volSize (BufferedVolume_new d spb n) = SectorCount d * SectorSize d"
proof -
  show ok: "vol_ok (BufferedVolume_new d spb n)"
    by (rule vol_okI) (use assms in \<open>auto simp: BufferedVolume_new_def blockSize_def caches_def\<close>)
  have "content (BufferedVolume_new d spb n) = disk (vdrive (BufferedVolume_new d spb n))"
    by (rule clean_content [OF ok]) (simp add: BufferedVolume_new_def)
  then show "content (BufferedVolume_new d spb n) = disk d" by (simp add: BufferedVolume_new_def)
  show "volSize (BufferedVolume_new d spb n) = SectorCount d * SectorSize d" by (simp add: BufferedVolume_new_def volSize_def)
qed

text \<open>
  What a file system expects of a volume: an array of bytes that is read and written at any position inside it.
\<close>

locale byte_store =
  fixes inv :: "'s \<Rightarrow> bool" and bytes :: "'s \<Rightarrow> nat \<Rightarrow> byte" and limit :: "'s \<Rightarrow> nat"
    and rd :: "nat \<Rightarrow> nat \<Rightarrow> 's \<Rightarrow> (int \<times> byte list \<times> 's) option"
    and wr :: "byte list \<Rightarrow> nat \<Rightarrow> nat \<Rightarrow> 's \<Rightarrow> (int \<times> byte list \<times> 's) option"
  assumes rd_spec: "inv s \<Longrightarrow> pos + n \<le> limit s \<Longrightarrow>
      \<exists>s'. rd pos n s = Some (int n, map (bytes s) [pos..<pos + n], s') \<and> inv s' \<and> bytes s' = bytes s \<and> limit s' = limit s"
    and wr_spec: "inv s \<Longrightarrow> pos + n \<le> limit s \<Longrightarrow> n \<le> length w \<Longrightarrow>
      \<exists>s'. wr w pos n s = Some (int n, [], s') \<and> inv s' \<and> bytes s' = to_disk pos n (nth w) (bytes s) \<and> limit s' = limit s"
begin

lemma read_back:
  assumes "inv s" "pos + length w \<le> limit s"
  shows "\<exists>s' s''. wr w pos (length w) s = Some (int (length w), [], s') \<and> rd pos (length w) s' = Some (int (length w), w, s'') \<and> inv s''"
proof -
  obtain s' where s': "wr w pos (length w) s = Some (int (length w), [], s')" "inv s'" "bytes s' = to_disk pos (length w) (nth w) (bytes s)" "limit s' = limit s"
    using wr_spec [OF assms order_refl] by blast
  have "map (bytes s') [pos..<pos + length w] = w" by (intro nth_equalityI) (simp_all add: s' to_disk_def)
  then show ?thesis using s' rd_spec [of s' pos "length w"] assms(2) by auto
qed

lemma read_elsewhere:
  assumes "inv s" "pos + length w \<le> limit s" "q + n \<le> limit s" "q + n \<le> pos \<or> pos + length w \<le> q"
  shows "\<exists>s' s''. wr w pos (length w) s = Some (int (length w), [], s') \<and> rd q n s' = Some (int n, map (bytes s) [q..<q + n], s'') \<and> inv s''"
proof -
  obtain s' where s': "wr w pos (length w) s = Some (int (length w), [], s')" "inv s'" "bytes s' = to_disk pos (length w) (nth w) (bytes s)" "limit s' = limit s"
    using wr_spec [OF assms(1,2) order_refl] by blast
  have "map (bytes s') [q..<q + n] = map (bytes s) [q..<q + n]" using assms(4) by (auto simp: s' to_disk_def)
  then show ?thesis using s' rd_spec [of s' q n] assms(3) by auto
qed

end

lemma access_all:
  assumes "vol_ok v" "position + n \<le> volSize v" "\<And>w. wdata = Some w \<Longrightarrow> n \<le> length w"
  shows "\<exists>out v'. access (\<lambda>_. True) (\<lambda>_. True) True wdata n position v = Some (int n, out, v') \<and> transferred wdata position n v out v'"
  using access_ok [of v "\<lambda>_. True" wdata n "\<lambda>_. True" position, OF assms(1) TrueI assms(3)] assms(2) by (auto simp: min_def)

lemma volSize_shape: "same_shape v v' \<Longrightarrow> volSize v' = volSize v"
  by (simp add: volSize_def same_shape_def)

interpretation bvol: byte_store vol_ok content volSize "BufferedVolume_Read (\<lambda>_. True) (\<lambda>_. True) True" "BufferedVolume_Write (\<lambda>_. True) (\<lambda>_. True) True"
proof
  fix pos n and s :: volume
  assume "vol_ok s" "pos + n \<le> volSize s"
  then show "\<exists>s'. BufferedVolume_Read (\<lambda>_. True) (\<lambda>_. True) True pos n s = Some (int n, map (content s) [pos..<pos + n], s') \<and>
      vol_ok s' \<and> content s' = content s \<and> volSize s' = volSize s"
    using access_all [of s pos n None] volSize_shape by (fastforce simp: BufferedVolume_Read_def transferred_def)
next
  fix pos n and s :: volume and w :: "byte list"
  assume "vol_ok s" "pos + n \<le> volSize s" "n \<le> length w"
  then show "\<exists>s'. BufferedVolume_Write (\<lambda>_. True) (\<lambda>_. True) True w pos n s = Some (int n, [], s') \<and>
      vol_ok s' \<and> content s' = to_disk pos n (nth w) (content s) \<and> volSize s' = volSize s"
    using access_all [of s pos n "Some w"] volSize_shape by (fastforce simp: BufferedVolume_Write_def transferred_def)
qed

section \<open>Partitions as arrays of bytes\<close>

definition part_ok :: "PartVolume \<Rightarrow> bool" where
  "part_ok p \<longleftrightarrow> vol_ok (base p)"

definition part_start :: "PartVolume \<Rightarrow> nat" where
  "part_start p = firstSector p * SectorSize (vdrive (base p))"

definition part_bytes :: "PartVolume \<Rightarrow> nat \<Rightarrow> byte" where
  "part_bytes p a = content (base p) (a + part_start p)"

text \<open>The limit is that of the drive: the number of sectors of the partition is not looked at.\<close>

definition part_limit :: "PartVolume \<Rightarrow> nat" where
  "part_limit p = volSize (base p) - part_start p"

lemma part_shape:
  "same_shape (base p) v \<Longrightarrow> part_start (p\<lparr>base := v\<rparr>) = part_start p"
  "same_shape (base p) v \<Longrightarrow> part_limit (p\<lparr>base := v\<rparr>) = part_limit p"
  by (simp_all add: part_start_def part_limit_def same_shape_def volSize_def)

interpretation pvol: byte_store part_ok part_bytes part_limit "PartVolume_Read (\<lambda>_. True) (\<lambda>_. True) True" "PartVolume_Write (\<lambda>_. True) (\<lambda>_. True) True"
proof
  fix pos n and s :: PartVolume
  assume a: "part_ok s" "pos + n \<le> part_limit s"
  show "\<exists>s'. PartVolume_Read (\<lambda>_. True) (\<lambda>_. True) True pos n s = Some (int n, map (part_bytes s) [pos..<pos + n], s') \<and>
      part_ok s' \<and> part_bytes s' = part_bytes s \<and> part_limit s' = part_limit s"
  proof (cases "n = 0")
    case True
    then show ?thesis using a vol_okD(3) [of "base s"]
      by (auto simp: PartVolume_Read_def BufferedVolume_Read_def access_def part_ok_def Let_def)
  next
    case False
    then have "pos + part_start s + n \<le> volSize (base s)" using a(2) by (simp add: part_limit_def)
    then obtain out v' where v': "access (\<lambda>_. True) (\<lambda>_. True) True None n (pos + part_start s) (base s) = Some (int n, out, v')"
      "transferred None (pos + part_start s) n (base s) out v'"
      using access_all [of "base s" "pos + part_start s" n None] a(1) by (auto simp: part_ok_def)
    have "map (content (base s)) [pos + part_start s..<pos + part_start s + n] = map (part_bytes s) [pos..<pos + n]"
      by (intro nth_equalityI) (auto simp: part_bytes_def ac_simps)
    then show ?thesis using v' part_shape [of s v']
      by (auto simp: PartVolume_Read_def BufferedVolume_Read_def part_ok_def part_bytes_def transferred_def fun_eq_iff simp flip: part_start_def)
  qed
next
  fix pos n and s :: PartVolume and w :: "byte list"
  assume a: "part_ok s" "pos + n \<le> part_limit s" "n \<le> length w"
  show "\<exists>s'. PartVolume_Write (\<lambda>_. True) (\<lambda>_. True) True w pos n s = Some (int n, [], s') \<and>
      part_ok s' \<and> part_bytes s' = to_disk pos n (nth w) (part_bytes s) \<and> part_limit s' = part_limit s"
  proof (cases "n = 0")
    case True
    then show ?thesis using a vol_okD(3) [of "base s"]
      by (auto simp: PartVolume_Write_def BufferedVolume_Write_def access_def part_ok_def Let_def)
  next
    case False
    then have "pos + part_start s + n \<le> volSize (base s)" using a(2) by (simp add: part_limit_def)
    then obtain out v' where v': "access (\<lambda>_. True) (\<lambda>_. True) True (Some w) n (pos + part_start s) (base s) = Some (int n, out, v')"
      "transferred (Some w) (pos + part_start s) n (base s) out v'"
      using access_all [of "base s" "pos + part_start s" n "Some w"] a(1,3) by (auto simp: part_ok_def)
    then show ?thesis using part_shape [of s v']
      by (auto simp: PartVolume_Write_def BufferedVolume_Write_def part_ok_def part_bytes_def transferred_def to_disk_def fun_eq_iff simp flip: part_start_def)
  qed
qed

section \<open>Properties\<close>

text \<open>C6.
  The write-back cache of a volume is invisible: whatever is cached and whichever write-backs fail, as long as
  the drive can be read, \<open>Read\<close> and \<open>Write\<close> return, transfer the part of the request that lies inside the volume
  and nothing else, and report its length; they fail with \<open>-ENOMEM\<close> after a shorter part only if a block could not
  be written back. A reported part is exactly what the volume holds, a written part is what it holds afterwards.
  Memory for a block can always be had, a transfer of the drive moves all its sectors or fails, and positions are
  natural numbers (those of the code below \<open>2\<^sup>6\<^sup>3\<close>; lengths below \<open>2\<^sup>3\<^sup>1\<close>).
  \<open>Synchronize\<close> changes nothing of it and, when it reports success, the drive itself holds it all.\<close>

theorem buffered_volume_refines_bytes:
  assumes "vol_ok v" "\<forall>s. rdok s" "n \<le> length w"
  shows "(\<exists>res v' m. BufferedVolume_Read rdok wrok True position n v = Some (res, map (content v) [position..<position + m], v') \<and>
           vol_ok v' \<and> content v' = content v \<and>
           (res = int m \<and> m = min n (volSize v - position) \<or> res = - ENOMEM \<and> m < min n (volSize v - position) \<and> (\<exists>s. \<not> wrok s))) \<and>
         (\<exists>res v' m. BufferedVolume_Write rdok wrok True w position n v = Some (res, [], v') \<and>
           vol_ok v' \<and> content v' = to_disk position m (nth w) (content v) \<and>
           (res = int m \<and> m = min n (volSize v - position) \<or> res = - ENOMEM \<and> m < min n (volSize v - position) \<and> (\<exists>s. \<not> wrok s))) \<and>
         (\<exists>r v'. BufferedVolume_Synchronize wrok v = (of_bool r, v') \<and> vol_ok v' \<and> content v' = content v \<and>
           (r \<longrightarrow> disk (vdrive v') = content v) \<and> (r \<or> (\<exists>s. \<not> wrok s)))"
    (is "?R \<and> ?W \<and> ?S")
proof (intro conjI)
  show ?R using access_ok [of v rdok None n wrok position] assms unfolding BufferedVolume_Read_def transferred_def by fastforce
  show ?W using access_ok [of v rdok "Some w" n wrok position] assms unfolding BufferedVolume_Write_def transferred_def by fastforce
  obtain r v' where f: "flushBuffers wrok v = (r, v')" by fastforce
  have F: "vol_ok v'" "content v' = content v" "same_shape v v'" "r \<longrightarrow> (\<forall>j < length (buffers v). \<not> Dirty (buffers v' ! j))" "(\<forall>s. wrok s) \<longrightarrow> r"
    using flushBuffers_upto [OF assms(1) order_refl, of wrok r v'] f unfolding flushBuffers_def by auto
  then have "r \<longrightarrow> content v' = disk (vdrive v')" using clean_content [of v'] by (simp add: same_shape_def)
  then show ?S using F f by (auto simp: BufferedVolume_Synchronize_def)
qed

definition demo_drive :: drive where
  "demo_drive = \<lparr>SectorSize = 512, SectorCount = 100, disk = (\<lambda>a. of_nat a)\<rparr>"

theorem buffered_volume_refines_bytes_witness:
  "vol_ok (BufferedVolume_new demo_drive 16 16) \<and>
   (\<exists>v'. BufferedVolume_Write (\<lambda>_. True) (\<lambda>_. True) True [1, 2] 511 2 (BufferedVolume_new demo_drive 16 16) = Some (2, [], v') \<and>
      vol_ok v' \<and> content v' = to_disk 511 2 (nth [1, 2]) (disk demo_drive))"
  using buffered_volume_refines_bytes [of "BufferedVolume_new demo_drive 16 16" "\<lambda>_. True" 2 "[1, 2]" "\<lambda>_. True" 511]
    vol_ok_new [of demo_drive 16 16] by (auto simp: demo_drive_def)

text \<open>
  A partition is an array of bytes on the cached volume: what is written at a position of it is read back there,
  and a read of a range apart from the written one gives what the partition held before, also where blocks are
  evicted and loaded in between.\<close>

lemma partition_reads_back:
  assumes "part_ok p" "pos + length w \<le> part_limit p" "q + n \<le> part_limit p" "q + n \<le> pos \<or> pos + length w \<le> q"
  shows "\<exists>p1 p2 p3. PartVolume_Write (\<lambda>_. True) (\<lambda>_. True) True w pos (length w) p = Some (int (length w), [], p1) \<and>
     PartVolume_Read (\<lambda>_. True) (\<lambda>_. True) True pos (length w) p1 = Some (int (length w), w, p2) \<and>
     PartVolume_Read (\<lambda>_. True) (\<lambda>_. True) True q n p1 = Some (int n, map (part_bytes p) [q..<q + n], p3) \<and> part_ok p1 \<and> part_ok p2 \<and> part_ok p3"
proof -
  obtain p1 p2 where 1: "PartVolume_Write (\<lambda>_. True) (\<lambda>_. True) True w pos (length w) p = Some (int (length w), [], p1)"
    "PartVolume_Read (\<lambda>_. True) (\<lambda>_. True) True pos (length w) p1 = Some (int (length w), w, p2)" "part_ok p2"
    using pvol.read_back [OF assms(1,2)] by blast
  obtain p3 where "PartVolume_Read (\<lambda>_. True) (\<lambda>_. True) True q n p1 = Some (int n, map (part_bytes p) [q..<q + n], p3)" "part_ok p3"
    using pvol.read_elsewhere [OF assms] 1(1) by auto
  moreover have "part_ok p1" using pvol.wr_spec [OF assms(1,2) order_refl] 1(1) by auto
  ultimately show ?thesis using 1 by blast
qed

text \<open>A volume that is deleted leaves all its contents on the drive, if the drive takes them.\<close>

lemma deleted_volume_written_back:
  assumes "vol_ok v" "\<forall>s. wrok s"
  shows "disk (fst (BufferedVolume_delete wrok v)) = content v"
proof -
  obtain r v' where f: "flushBuffers wrok v = (r, v')" by fastforce
  then have "vol_ok v'" "content v' = content v" "same_shape v v'" "\<forall>j < length (buffers v). \<not> Dirty (buffers v' ! j)"
    using flushBuffers_upto [OF assms(1) order_refl, of wrok r v'] assms(2) unfolding flushBuffers_def by auto
  then show ?thesis using clean_content [of v'] f by (simp add: BufferedVolume_delete_def same_shape_def)
qed

section \<open>Where the code falls short\<close>

text \<open>\<open>ReadSectors\<close> adds the first sector of the partition twice, once itself and once in \<open>Read\<close>.\<close>

lemma ReadSectors_wrong_place:
  "PartVolume_ReadSectors rdok wrok dma k n p =
     PartVolume_Read rdok wrok dma (part_start p + k * SectorSize (vdrive (base p))) (n * SectorSize (vdrive (base p))) p"
  by (simp add: PartVolume_ReadSectors_def part_start_def Let_def algebra_simps)

text \<open>
  A read that fails leaves its buffer marked as used for sector 0: the next read of sector 0 succeeds and gives
  what the buffer's memory held.
\<close>

lemma failed_read_poisons_sector_0:
  "\<exists>v. BufferedVolume_Read (\<lambda>s. s = 0) (\<lambda>_. True) True 1 1 (BufferedVolume_new \<lparr>SectorSize = 1, SectorCount = 4, disk = \<lambda>_. 7\<rparr> 1 1) = Some (- EIO, [], v) \<and>
     (\<exists>v'. BufferedVolume_Read (\<lambda>s. s = 0) (\<lambda>_. True) True 0 1 v = Some (1, [0], v'))"
  by (simp add: BufferedVolume_Read_def BufferedVolume_new_def access_def access_loop.simps Let_def buffer_of_def getContainingBuffer_def
      allocateBuffer_def loadBuffer_def set_buf_def xfer_def)

text \<open>
  Blocks are counted from the start of the drive. Where a partition does not start at a multiple of the block,
  its first block is also the last one of the partition before it; each has its own copy, and the copy written
  back last undoes the other's writes. Here both write one byte of block 0 and are synchronised in turn.
\<close>

lemma neighbours_undo_writes:
  defines "d \<equiv> \<lparr>SectorSize = 1, SectorCount = 4, disk = \<lambda>_. 7\<rparr>"
  shows "\<exists>v1 v2 v1' v2'. BufferedVolume_Write (\<lambda>_. True) (\<lambda>_. True) True [1] 0 1 (BufferedVolume_new d 2 1) = Some (1, [], v1) \<and>
     BufferedVolume_Write (\<lambda>_. True) (\<lambda>_. True) True [2] 1 1 (BufferedVolume_new d 2 1) = Some (1, [], v2) \<and>
     BufferedVolume_Synchronize (\<lambda>_. True) v1 = (1, v1') \<and> disk (vdrive v1') 0 = 1 \<and>
     BufferedVolume_Synchronize (\<lambda>_. True) (v2\<lparr>vdrive := vdrive v1'\<rparr>) = (1, v2') \<and> disk (vdrive v2') 0 = 7 \<and> disk (vdrive v2') 1 = 2"
  by (simp add: d_def BufferedVolume_Write_def BufferedVolume_new_def access_def access_loop.simps Let_def buffer_of_def getContainingBuffer_def
      allocateBuffer_def loadBuffer_def set_buf_def xfer_def BufferedVolume_Synchronize_def flushBuffers_def flushBuffer_def to_disk_def)

text \<open>Every entry of a table that is accepted ends inside the drive, unless its end wraps.\<close>

lemma mbr_scan_inside:
  "mbr_scan cnt es a n = (True, a', n') \<Longrightarrow> e \<in> set es \<Longrightarrow> StartLBA e \<noteq> 0 \<Longrightarrow>
     unat (StartLBA e) + unat (LBACount e) < 2 ^ 32 \<Longrightarrow> unat (StartLBA e) + unat (LBACount e) \<le> cnt"
  by (induction es arbitrary: a n) (auto simp: Let_def unat_word_ariths split: if_splits)

lemma mbr_scan_wraps:
  "mbr_scan 100 [\<lparr>mbr_Flags = 0, mbr_ID = 1, StartLBA = 0xFFFFFFF0, LBACount = 0x10\<rparr>] 0 0 = (True, 0, 1)"
  by simp

end
