(* ===== verification/Ext2.thy ===== *)
theory Ext2
  imports Volume
begin

text \<open>
  \<open>kernel/ext2/ext2.cpp\<close>: the layout of an ext2 volume and the allocation of its blocks and i-nodes. The structures of
  the volume are records whose fields are natural numbers of the width of the field, with their little-endian bytes.
  The file system works on the partition of \<^verbatim>\<open>Volume\<close>, the one class of volumes the kernel has; \<open>io\<close> says which transfers of
  the drive succeed and what the clock shows. \<open>None\<close> is an access outside the table of group descriptors, or a fault
  of the volume. \<open>u32\<close> stands where the code multiplies in 32 bits; group numbers stay far below the range of \<open>int\<close>,
  in which \<open>test_root\<close> multiplies. Messages are left out.
\<close>

unbundle bit_operations_syntax

section \<open>Little-endian numbers\<close>

primrec le_enc :: "nat \<Rightarrow> nat \<Rightarrow> byte list" where
  "le_enc 0 v = []"
| "le_enc (Suc k) v = of_nat v # le_enc k (v div 256)"

primrec le_dec :: "byte list \<Rightarrow> nat" where
  "le_dec [] = 0"
| "le_dec (b # bs) = unat b + 256 * le_dec bs"

definition fld :: "byte list \<Rightarrow> nat \<Rightarrow> nat \<Rightarrow> nat" where
  "fld bs offs k = le_dec (take k (drop offs bs))"

lemma length_le_enc [simp]: "length (le_enc k v) = k"
  by (induction k arbitrary: v) auto

lemma le_dec_enc: "le_dec (le_enc k v) = v mod 256 ^ k"
proof (induction k arbitrary: v)
  case (Suc k)
  have "unat (of_nat v :: byte) = v mod 256" by (simp add: unat_of_nat)
  then show ?case using Suc mod_mult2_eq [of v 256 "256 ^ k"] by simp
qed simp

lemma le_enc_dec: "le_enc (length bs) (le_dec bs) = bs"
proof (induction bs)
  case (Cons b bs)
  have "unat b < 256" using unsigned_less [of b] by simp
  then have "(unat b + 256 * le_dec bs) div 256 = le_dec bs" by simp
  moreover have "unat (of_nat (unat b + 256 * le_dec bs) :: byte) = unat b"
    unfolding unat_of_nat using \<open>unat b < 256\<close> by (simp add: take_bit_eq_mod)
  then have "(of_nat (unat b + 256 * le_dec bs) :: byte) = b" by (rule unsigned_word_eqI)
  ultimately show ?case using Cons by (simp del: of_nat_add)
qed simp

lemma le_dec_less: "le_dec bs < 256 ^ length bs"
proof (induction bs)
  case (Cons b bs)
  have "unat b < 256" using unsigned_less [of b] by simp
  moreover have "le_dec bs + 1 \<le> 256 ^ length bs" using Cons by simp
  then have "256 * (le_dec bs + 1) \<le> 256 ^ length (b # bs)" by simp
  ultimately show ?case by simp
qed simp

lemma le_dec_zero: "le_dec bs = 0 \<longleftrightarrow> (\<forall>b \<in> set bs. b = 0)"
  by (induction bs) (auto simp: unat_eq_0)

section \<open>The structures on the volume\<close>

(* src/kernel/ext2/ext2.hpp:96-152 SuperBlock, struct *)
record SuperBlock =
  s_inodes_count :: nat
  s_blocks_count :: nat
  s_r_blocks_count :: nat
  s_free_blocks_count :: nat
  s_free_inodes_count :: nat
  s_first_data_block :: nat
  s_log_block_size :: nat
  s_log_frag_size :: int
  s_blocks_per_group :: nat
  s_frags_per_group :: nat
  s_inodes_per_group :: nat
  s_mtime :: nat
  s_wtime :: nat
  s_mnt_count :: nat
  s_max_mnt_count :: nat
  s_magic :: nat
  s_state :: nat
  s_errors :: nat
  s_minor_rev_level :: nat
  s_last_check :: nat
  s_check_interval :: nat
  s_creator_os :: nat
  s_rev_level :: nat
  s_def_resuid :: nat
  s_def_resgid :: nat
  s_first_ino :: nat
  s_inode_size :: nat
  s_block_group_number :: nat
  s_feature_compat :: nat
  s_feature_incompat :: nat
  s_feature_ro_compat :: nat
  s_uuid :: "byte list"
  s_volume_name :: "byte list"
  s_last_mounted :: "byte list"
  s_algo_bitmap :: nat
  s_prealloc_blocks :: nat
  s_prealloc_dir_blocks :: nat
  s_padding1 :: nat
  s_journal_uuid :: "byte list"
  s_journal_inum :: nat
  s_journal_dev :: nat
  s_last_orphan :: nat
  s_hash_seed :: "byte list"
  s_def_hash_version :: nat
  s_padding2 :: "byte list"
  s_default_mount_options :: nat
  s_first_meta_bg :: nat
  s_unused :: "byte list"

(* src/kernel/ext2/ext2.hpp:154-164 BlockGroupDescriptor, struct *)
record BlockGroupDescriptor =
  bg_block_bitmap :: nat
  bg_inode_bitmap :: nat
  bg_inode_table :: nat
  bg_free_blocks_count :: nat
  bg_free_inodes_count :: nat
  bg_used_dirs_count :: nat
  bg_pad :: nat
  bg_reserved :: "byte list"

text \<open>The offsets of the packed structure give the bytes of a super block, and back.\<close>

definition sb_bytes :: "SuperBlock \<Rightarrow> byte list" where
  "sb_bytes s =
     le_enc 4 (s_inodes_count s) @ le_enc 4 (s_blocks_count s) @ le_enc 4 (s_r_blocks_count s) @ le_enc 4 (s_free_blocks_count s) @
     le_enc 4 (s_free_inodes_count s) @ le_enc 4 (s_first_data_block s) @ le_enc 4 (s_log_block_size s) @
     le_enc 4 (nat (s_log_frag_size s mod 2 ^ 32)) @ le_enc 4 (s_blocks_per_group s) @ le_enc 4 (s_frags_per_group s) @
     le_enc 4 (s_inodes_per_group s) @ le_enc 4 (s_mtime s) @ le_enc 4 (s_wtime s) @ le_enc 2 (s_mnt_count s) @
     le_enc 2 (s_max_mnt_count s) @ le_enc 2 (s_magic s) @ le_enc 2 (s_state s) @ le_enc 2 (s_errors s) @
     le_enc 2 (s_minor_rev_level s) @ le_enc 4 (s_last_check s) @ le_enc 4 (s_check_interval s) @ le_enc 4 (s_creator_os s) @
     le_enc 4 (s_rev_level s) @ le_enc 2 (s_def_resuid s) @ le_enc 2 (s_def_resgid s) @ le_enc 4 (s_first_ino s) @
     le_enc 2 (s_inode_size s) @ le_enc 2 (s_block_group_number s) @ le_enc 4 (s_feature_compat s) @
     le_enc 4 (s_feature_incompat s) @ le_enc 4 (s_feature_ro_compat s) @ s_uuid s @ s_volume_name s @ s_last_mounted s @
     le_enc 4 (s_algo_bitmap s) @ le_enc 1 (s_prealloc_blocks s) @ le_enc 1 (s_prealloc_dir_blocks s) @ le_enc 2 (s_padding1 s) @
     s_journal_uuid s @ le_enc 4 (s_journal_inum s) @ le_enc 4 (s_journal_dev s) @ le_enc 4 (s_last_orphan s) @
     s_hash_seed s @ le_enc 1 (s_def_hash_version s) @ s_padding2 s @ le_enc 4 (s_default_mount_options s) @
     le_enc 4 (s_first_meta_bg s) @ s_unused s"

definition sb_of :: "byte list \<Rightarrow> SuperBlock" where
  "sb_of b = \<lparr>
     s_inodes_count = fld b 0 4, s_blocks_count = fld b 4 4, s_r_blocks_count = fld b 8 4, s_free_blocks_count = fld b 12 4,
     s_free_inodes_count = fld b 16 4, s_first_data_block = fld b 20 4, s_log_block_size = fld b 24 4,
     s_log_frag_size = i32 (int (fld b 28 4)), s_blocks_per_group = fld b 32 4, s_frags_per_group = fld b 36 4,
     s_inodes_per_group = fld b 40 4, s_mtime = fld b 44 4, s_wtime = fld b 48 4, s_mnt_count = fld b 52 2,
     s_max_mnt_count = fld b 54 2, s_magic = fld b 56 2, s_state = fld b 58 2, s_errors = fld b 60 2,
     s_minor_rev_level = fld b 62 2, s_last_check = fld b 64 4, s_check_interval = fld b 68 4, s_creator_os = fld b 72 4,
     s_rev_level = fld b 76 4, s_def_resuid = fld b 80 2, s_def_resgid = fld b 82 2, s_first_ino = fld b 84 4,
     s_inode_size = fld b 88 2, s_block_group_number = fld b 90 2, s_feature_compat = fld b 92 4,
     s_feature_incompat = fld b 96 4, s_feature_ro_compat = fld b 100 4, s_uuid = take 16 (drop 104 b),
     s_volume_name = take 16 (drop 120 b), s_last_mounted = take 64 (drop 136 b), s_algo_bitmap = fld b 200 4,
     s_prealloc_blocks = fld b 204 1, s_prealloc_dir_blocks = fld b 205 1, s_padding1 = fld b 206 2,
     s_journal_uuid = take 16 (drop 208 b), s_journal_inum = fld b 224 4, s_journal_dev = fld b 228 4, s_last_orphan = fld b 232 4,
     s_hash_seed = take 16 (drop 236 b), s_def_hash_version = fld b 252 1, s_padding2 = take 3 (drop 253 b),
     s_default_mount_options = fld b 256 4, s_first_meta_bg = fld b 260 4, s_unused = take 760 (drop 264 b)\<rparr>"

definition bgd_bytes :: "BlockGroupDescriptor \<Rightarrow> byte list" where
  "bgd_bytes d =
     le_enc 4 (bg_block_bitmap d) @ le_enc 4 (bg_inode_bitmap d) @ le_enc 4 (bg_inode_table d) @ le_enc 2 (bg_free_blocks_count d) @
     le_enc 2 (bg_free_inodes_count d) @ le_enc 2 (bg_used_dirs_count d) @ le_enc 2 (bg_pad d) @ bg_reserved d"

definition bgd_of :: "byte list \<Rightarrow> BlockGroupDescriptor" where
  "bgd_of b = \<lparr>bg_block_bitmap = fld b 0 4, bg_inode_bitmap = fld b 4 4, bg_inode_table = fld b 8 4,
     bg_free_blocks_count = fld b 12 2, bg_free_inodes_count = fld b 14 2, bg_used_dirs_count = fld b 16 2, bg_pad = fld b 18 2,
     bg_reserved = take 12 (drop 20 b)\<rparr>"

section \<open>The file system\<close>

record io_env =
  rdok :: "nat \<Rightarrow> bool"
  wrok :: "nat \<Rightarrow> bool"
  dma :: bool
  now :: nat

(* src/kernel/ext2/ext2.hpp:263-274 EXT2, fields *)
record ext2 =
  fvol :: PartVolume
  superBlock :: SuperBlock
  readOnly :: bool
  bsize :: nat
  fragSize :: nat
  totalSize :: nat
  blockGroupCount :: nat
  BGDT :: "BlockGroupDescriptor list"
  initialized :: bool
  superDirty :: bool
  blockOfZeros :: "byte list"

text \<open>The volume's \<open>Read\<close> and \<open>Write\<close>: the result, the bytes read and the file system with the volume changed.\<close>

definition vread :: "io_env \<Rightarrow> nat \<Rightarrow> nat \<Rightarrow> ext2 \<Rightarrow> (int \<times> byte list \<times> ext2) option" where
  "vread io pos n fs =
     map_option (\<lambda>(r, out, v). (r, out, fs\<lparr>fvol := v\<rparr>)) (PartVolume_Read (rdok io) (wrok io) (dma io) pos n (fvol fs))"

definition vwrite :: "io_env \<Rightarrow> byte list \<Rightarrow> nat \<Rightarrow> nat \<Rightarrow> ext2 \<Rightarrow> (int \<times> ext2) option" where
  "vwrite io w pos n fs =
     map_option (\<lambda>(r, _, v). (r, fs\<lparr>fvol := v\<rparr>)) (PartVolume_Write (rdok io) (wrok io) (dma io) w pos n (fvol fs))"

text \<open>The powers of \<open>b\<close>, from the linux driver.\<close>

(* src/kernel/ext2/ext2.cpp:16-19 test_root, loop *)
function test_root_loop :: "nat \<Rightarrow> nat \<Rightarrow> nat \<Rightarrow> nat" where
  "test_root_loop a b num = (if a > num \<and> 1 < b \<and> 0 < num then test_root_loop a b (num * b) else num)"
  by pat_completeness auto
termination by (relation "measure (\<lambda>(a, b, num). a - num)") (auto intro!: diff_less_mono2)

declare test_root_loop.simps [simp del]

(* src/kernel/ext2/ext2.cpp:14-21 test_root *)
definition test_root :: "nat \<Rightarrow> nat \<Rightarrow> bool" where
  "test_root a b \<longleftrightarrow> test_root_loop a b b = a"

(* src/kernel/ext2/ext2.cpp:23-29 ext2_group_sparse *)
definition ext2_group_sparse :: "nat \<Rightarrow> bool" where
  "ext2_group_sparse g \<longleftrightarrow> g \<le> 1 \<or> test_root g 3 \<or> test_root g 5 \<or> test_root g 7"

(* src/kernel/ext2/ext2.cpp:165-170 EXT2::getINodeOffset *)
definition getINodeOffset :: "nat \<Rightarrow> ext2 \<Rightarrow> nat option" where
  "getINodeOffset n fs =
     (let ipg = s_inodes_per_group (superBlock fs); bg = (n - 1) div ipg; idx = (n - 1) mod ipg in
      if bg \<ge> length (BGDT fs) then None
      else Some (bg_inode_table (BGDT fs ! bg) * bsize fs + s_inode_size (superBlock fs) * idx))"

(* src/kernel/ext2/ext2.cpp:172-175 EXT2::blockGroupOffset *)
definition blockGroupOffset :: "nat \<Rightarrow> ext2 \<Rightarrow> nat" where
  "blockGroupOffset bg fs = u32 ((s_first_data_block (superBlock fs) + s_blocks_per_group (superBlock fs) * bg) * bsize fs)"

(* src/kernel/ext2/ext2.cpp:177-182 EXT2::hasSuperBlock *)
definition hasSuperBlock :: "nat \<Rightarrow> ext2 \<Rightarrow> bool" where
  "hasSuperBlock bg fs \<longleftrightarrow> \<not> (s_feature_ro_compat (superBlock fs) AND 1 \<noteq> 0 \<and> \<not> ext2_group_sparse bg)"

(* src/kernel/ext2/ext2.cpp:184-187 EXT2::bgdtOffset *)
definition bgdtOffset :: "nat \<Rightarrow> ext2 \<Rightarrow> nat" where
  "bgdtOffset bg fs = blockGroupOffset bg fs + bsize fs"

(* src/kernel/ext2/ext2.cpp:192-205 EXT2::updateBGDT, loop *)
fun updateBGDT_loop :: "io_env \<Rightarrow> byte list \<Rightarrow> nat \<Rightarrow> nat list \<Rightarrow> ext2 \<Rightarrow> (bool \<times> ext2) option" where
  "updateBGDT_loop io w atb [] fs = Some (True, fs)"
| "updateBGDT_loop io w atb (i # is) fs =
     (if \<not> hasSuperBlock i fs then updateBGDT_loop io w atb is fs
      else do { (r, fs) \<leftarrow> vwrite io w (bgdtOffset i fs + atb) (length w) fs;
                if r \<noteq> int (length w) then Some (False, fs) else updateBGDT_loop io w atb is fs })"

(* src/kernel/ext2/ext2.cpp:189-206 EXT2::updateBGDT *)
definition updateBGDT :: "io_env \<Rightarrow> nat \<Rightarrow> nat \<Rightarrow> nat \<Rightarrow> ext2 \<Rightarrow> (bool \<times> ext2) option" where
  "updateBGDT io bg startOffs n fs =
     (if bg \<ge> length (BGDT fs) then None
      else updateBGDT_loop io (take n (drop startOffs (bgd_bytes (BGDT fs ! bg)))) (32 * bg + startOffs) [0..<blockGroupCount fs] fs)"

(* src/kernel/ext2/ext2.cpp:208-211 EXT2::getINodeBlockGroup *)
definition getINodeBlockGroup :: "nat \<Rightarrow> ext2 \<Rightarrow> nat" where
  "getINodeBlockGroup ino fs = ino div s_inodes_per_group (superBlock fs)"

section \<open>Allocation\<close>

text \<open>
  The scan of a bitmap that the allocation of blocks and of i-nodes share: the first byte with a clear bit gets its
  lowest one set. \<open>Taken i\<close> is the number of the bit, \<open>Full\<close> that there is none, \<open>Failed\<close> that a transfer did not move its byte.
\<close>

datatype scan = Taken nat | Full | Failed

definition low_clear :: "byte \<Rightarrow> nat" where
  "low_clear b = (case List.find (\<lambda>i. \<not> bit b i) [0..<8] of Some i \<Rightarrow> i | None \<Rightarrow> 8)"

(* src/kernel/ext2/ext2.cpp:289-307 EXT2::allocBlockInGroup, scan of the bitmap *)
fun bitmap_take :: "io_env \<Rightarrow> nat \<Rightarrow> nat list \<Rightarrow> ext2 \<Rightarrow> (scan \<times> ext2) option" where
  "bitmap_take io bm [] fs = Some (Full, fs)"
| "bitmap_take io bm (j # js) fs =
     (let byteOffs = u32 (bsize fs * bm + j) in
      do { (r, out, fs) \<leftarrow> vread io byteOffs 1 fs;
           if r \<noteq> 1 then Some (Failed, fs)
           else
             let b = out ! 0 in
             if b = 0xFF then bitmap_take io bm js fs
             else do { (r, fs) \<leftarrow> vwrite io [b OR push_bit (low_clear b) 1] byteOffs 1 fs;
                       Some (if r \<noteq> 1 then Failed else Taken (j * 8 + low_clear b), fs) } })"

text \<open>The fields of a descriptor and of the super block that count free blocks and i-nodes.\<close>

definition upd_bgd :: "nat \<Rightarrow> (BlockGroupDescriptor \<Rightarrow> BlockGroupDescriptor) \<Rightarrow> ext2 \<Rightarrow> ext2" where
  "upd_bgd g f fs = fs\<lparr>BGDT := (BGDT fs)[g := f (BGDT fs ! g)]\<rparr>"

definition upd_sb :: "(SuperBlock \<Rightarrow> SuperBlock) \<Rightarrow> ext2 \<Rightarrow> ext2" where
  "upd_sb f fs = fs\<lparr>superBlock := f (superBlock fs), superDirty := True\<rparr>"

text \<open>The number of the i-node, 0 for none, and its group.\<close>

(* src/kernel/ext2/ext2.cpp:215-250 EXT2::allocINode, loop over the groups *)
fun allocINode_loop :: "io_env \<Rightarrow> nat list \<Rightarrow> ext2 \<Rightarrow> (nat \<times> nat \<times> ext2) option" where
  "allocINode_loop io [] fs = Some (0, 0, fs)"
| "allocINode_loop io (i # is) fs =
     (if i \<ge> length (BGDT fs) then None
      else if bg_free_inodes_count (BGDT fs ! i) = 0 then allocINode_loop io is fs
      else do { (r, fs) \<leftarrow> bitmap_take io (bg_inode_bitmap (BGDT fs ! i)) [0..<s_inodes_per_group (superBlock fs) div 8] fs;
                case r of
                  Failed \<Rightarrow> Some (0, 0, fs)
                | Full \<Rightarrow> allocINode_loop io is fs
                | Taken k \<Rightarrow>
                    let fs = upd_bgd i (\<lambda>d. d\<lparr>bg_free_inodes_count := bg_free_inodes_count d - 1\<rparr>) fs in
                    do { (ok, fs) \<leftarrow> updateBGDT io i 14 2 fs;
                         if \<not> ok then Some (0, 0, fs)
                         else let fs = upd_sb (\<lambda>s. s\<lparr>s_free_inodes_count := sub32 (s_free_inodes_count s) 1\<rparr>) fs in
                              Some (u32 (1 + i * s_inodes_per_group (superBlock fs) + k), i, fs) } })"

(* src/kernel/ext2/ext2.cpp:213-251 EXT2::allocINode *)
definition allocINode :: "io_env \<Rightarrow> ext2 \<Rightarrow> (nat \<times> nat \<times> ext2) option" where
  "allocINode io fs = allocINode_loop io [0..<blockGroupCount fs] fs"

text \<open>Clearing a bit: \<open>None\<close> in the result is that it was clear or a transfer failed.\<close>

(* src/kernel/ext2/ext2.cpp:350-359 EXT2::freeBlock, bitmap *)
definition bitmap_clear :: "io_env \<Rightarrow> nat \<Rightarrow> nat \<Rightarrow> ext2 \<Rightarrow> (bool \<times> ext2) option" where
  "bitmap_clear io bm k fs =
     (let byteOffs = u32 (bsize fs * bm + k div 8) in
      do { (r, out, fs) \<leftarrow> vread io byteOffs 1 fs;
           if r \<noteq> 1 then Some (False, fs)
           else let b = out ! 0 in
                if \<not> bit b (k mod 8) then Some (False, fs)
                else do { (r, fs) \<leftarrow> vwrite io [b AND NOT (push_bit (k mod 8) 1)] byteOffs 1 fs; Some (r = 1, fs) } })"

(* src/kernel/ext2/ext2.cpp:253-282 EXT2::freeINode *)
definition freeINode :: "io_env \<Rightarrow> nat \<Rightarrow> ext2 \<Rightarrow> (bool \<times> ext2) option" where
  "freeINode io inode fs =
     (if inode = 0 then Some (False, fs)
      else
        let inode = inode - 1; bpg = s_blocks_per_group (superBlock fs); iGroup = inode div bpg in
        if iGroup \<ge> length (BGDT fs) then None
        else
          do { (r, fs) \<leftarrow> bitmap_clear io (bg_inode_bitmap (BGDT fs ! iGroup)) (inode mod bpg) fs;
               if \<not> r then Some (False, fs)
               else
                 let fs = upd_bgd iGroup (\<lambda>d. d\<lparr>bg_free_inodes_count := (bg_free_inodes_count d + 1) mod 2 ^ 16\<rparr>) fs in
                 do { (ok, fs) \<leftarrow> updateBGDT io iGroup 14 2 fs;
                      Some (if \<not> ok then (False, fs)
                            else (True, upd_sb (\<lambda>s. s\<lparr>s_free_inodes_count := u32 (s_free_inodes_count s + 1)\<rparr>) fs)) } })"

(* src/kernel/ext2/ext2.cpp:284-318 EXT2::allocBlockInGroup *)
definition allocBlockInGroup :: "io_env \<Rightarrow> nat \<Rightarrow> ext2 \<Rightarrow> (nat \<times> ext2) option" where
  "allocBlockInGroup io g fs =
     (if g \<ge> length (BGDT fs) then None
      else if bg_free_blocks_count (BGDT fs ! g) = 0 then Some (0, fs)
      else
        do { (r, fs) \<leftarrow> bitmap_take io (bg_block_bitmap (BGDT fs ! g)) [0..<s_blocks_per_group (superBlock fs) div 8] fs;
             case r of
               Failed \<Rightarrow> Some (0, fs)
             | Full \<Rightarrow> Some (0, fs)
             | Taken k \<Rightarrow>
                 let fs = upd_bgd g (\<lambda>d. d\<lparr>bg_free_blocks_count := bg_free_blocks_count d - 1\<rparr>) fs in
                 do { (ok, fs) \<leftarrow> updateBGDT io g 12 2 fs;
                      if \<not> ok then Some (0, fs)
                      else let fs = upd_sb (\<lambda>s. s\<lparr>s_free_blocks_count := sub32 (s_free_blocks_count s) 1\<rparr>) fs in
                           Some (u32 (1 + g * s_blocks_per_group (superBlock fs) + k), fs) } })"

(* src/kernel/ext2/ext2.cpp:328-336 EXT2::allocBlock, loop *)
fun allocBlock_loop :: "io_env \<Rightarrow> nat \<Rightarrow> nat list \<Rightarrow> ext2 \<Rightarrow> (nat \<times> ext2) option" where
  "allocBlock_loop io preferredGroup [] fs = Some (0, fs)"
| "allocBlock_loop io preferredGroup (i # is) fs =
     (if i = preferredGroup then allocBlock_loop io preferredGroup is fs
      else do { (blk, fs) \<leftarrow> allocBlockInGroup io i fs;
                if blk \<noteq> 0 then Some (blk, fs) else allocBlock_loop io preferredGroup is fs })"

text \<open>The group is not returned: no caller asks for it.\<close>

(* src/kernel/ext2/ext2.cpp:320-337 EXT2::allocBlock *)
definition allocBlock :: "io_env \<Rightarrow> nat \<Rightarrow> ext2 \<Rightarrow> (nat \<times> ext2) option" where
  "allocBlock io preferredGroup fs =
     do { (blk, fs) \<leftarrow> (if preferredGroup \<noteq> U32_MAX then allocBlockInGroup io preferredGroup fs else Some (0, fs));
          if blk \<noteq> 0 then Some (blk, fs) else allocBlock_loop io preferredGroup [0..<blockGroupCount fs] fs }"

text \<open>The result is \<open>False\<close> after a successful update of the descriptors, as the code has it.\<close>

(* src/kernel/ext2/ext2.cpp:339-368 EXT2::freeBlock *)
definition freeBlock :: "io_env \<Rightarrow> nat \<Rightarrow> ext2 \<Rightarrow> (bool \<times> ext2) option" where
  "freeBlock io block fs =
     (if block = 0 then Some (False, fs)
      else
        let block = block - 1; bpg = s_blocks_per_group (superBlock fs); bGroup = block div bpg in
        if bGroup \<ge> length (BGDT fs) then None
        else
          do { (r, fs) \<leftarrow> bitmap_clear io (bg_block_bitmap (BGDT fs ! bGroup)) (block mod bpg) fs;
               if \<not> r then Some (False, fs)
               else
                 let fs = upd_bgd bGroup (\<lambda>d. d\<lparr>bg_free_blocks_count := (bg_free_blocks_count d + 1) mod 2 ^ 16\<rparr>) fs in
                 do { (ok, fs) \<leftarrow> updateBGDT io bGroup 12 2 fs;
                      Some (if ok then (False, fs)
                            else (True, upd_sb (\<lambda>s. s\<lparr>s_free_blocks_count := u32 (s_free_blocks_count s + 1)\<rparr>) fs)) } })"

section \<open>The layout of a volume\<close>

text \<open>All transfers succeed.\<close>

definition io_good :: "io_env \<Rightarrow> bool" where
  "io_good io \<longleftrightarrow> rdok io = (\<lambda>_. True) \<and> wrok io = (\<lambda>_. True) \<and> dma io"

definition vol_is :: "PartVolume \<Rightarrow> (nat \<Rightarrow> byte) \<Rightarrow> nat \<Rightarrow> bool" where
  "vol_is v B L \<longleftrightarrow> part_ok v \<and> part_bytes v = B \<and> part_limit v = L"

lemma vread_ok:
  assumes "io_good io" "vol_is (fvol fs) B L" "pos + n \<le> L"
  shows "\<exists>v. vread io pos n fs = Some (int n, map B [pos..<pos + n], fs\<lparr>fvol := v\<rparr>) \<and> vol_is v B L"
  using pvol.rd_spec [of "fvol fs" pos n] assms by (auto simp: vread_def io_good_def vol_is_def)

lemma vwrite_ok:
  assumes "io_good io" "vol_is (fvol fs) B L" "pos + n \<le> L" "n \<le> length w"
  shows "\<exists>v. vwrite io w pos n fs = Some (int n, fs\<lparr>fvol := v\<rparr>) \<and> vol_is v (to_disk pos n (nth w) B) L"
  using pvol.wr_spec [of "fvol fs" pos n w] assms by (auto simp: vwrite_def io_good_def vol_is_def)

abbreviation bpg :: "ext2 \<Rightarrow> nat" where
  "bpg fs \<equiv> s_blocks_per_group (superBlock fs)"

abbreviation fbytes :: "ext2 \<Rightarrow> nat \<Rightarrow> byte" where
  "fbytes fs \<equiv> part_bytes (fvol fs)"

abbreviation flimit :: "ext2 \<Rightarrow> nat" where
  "flimit fs \<equiv> part_limit (fvol fs)"

definition bitmap_at :: "ext2 \<Rightarrow> nat \<Rightarrow> nat" where
  "bitmap_at fs g = bsize fs * bg_block_bitmap (BGDT fs ! g)"

text \<open>Block \<open>blk\<close> is bit \<open>(blk - 1) mod bpg\<close> of group \<open>(blk - 1) div bpg\<close>: this is how the code numbers them.\<close>

definition group_bit :: "ext2 \<Rightarrow> nat \<Rightarrow> nat \<Rightarrow> bool" where
  "group_bit fs g i = bit (fbytes fs (bitmap_at fs g + i div 8)) (i mod 8)"

definition group_free :: "ext2 \<Rightarrow> nat \<Rightarrow> nat set" where
  "group_free fs g = {i. i < bpg fs \<and> \<not> group_bit fs g i}"

definition free_blocks :: "ext2 \<Rightarrow> nat set" where
  "free_blocks fs = {blk. 1 \<le> blk \<and> blk \<le> blockGroupCount fs * bpg fs \<and> \<not> group_bit fs ((blk - 1) div bpg fs) ((blk - 1) mod bpg fs)}"

definition in_bitmap :: "ext2 \<Rightarrow> nat \<Rightarrow> bool" where
  "in_bitmap fs a \<longleftrightarrow> (\<exists>g < blockGroupCount fs. bitmap_at fs g \<le> a \<and> a < bitmap_at fs g + bpg fs div 8)"

definition in_bgdt :: "ext2 \<Rightarrow> nat \<Rightarrow> bool" where
  "in_bgdt fs a \<longleftrightarrow> (\<exists>i < blockGroupCount fs. hasSuperBlock i fs \<and> bgdtOffset i fs \<le> a \<and> a < bgdtOffset i fs + 32 * blockGroupCount fs)"

definition meta :: "ext2 \<Rightarrow> nat \<Rightarrow> bool" where
  "meta fs a \<longleftrightarrow> in_bitmap fs a \<or> in_bgdt fs a"

text \<open>A block that may hold data: inside the volume and no metadata.\<close>

definition data_block :: "ext2 \<Rightarrow> nat \<Rightarrow> bool" where
  "data_block fs blk \<longleftrightarrow> 1 \<le> blk \<and> blk \<le> blockGroupCount fs * bpg fs \<and> (blk + 1) * bsize fs \<le> flimit fs \<and>
     (\<forall>a < bsize fs. \<not> meta fs (blk * bsize fs + a))"

text \<open>What no operation on files changes: sizes and places.\<close>

definition geo :: "ext2 \<Rightarrow> nat \<times> nat \<times> nat list \<times> nat \<times> nat \<times> nat \<times> nat \<times> byte list \<times> nat" where
  "geo fs = (bsize fs, blockGroupCount fs, map bg_block_bitmap (BGDT fs), bpg fs, s_first_data_block (superBlock fs),
     s_feature_ro_compat (superBlock fs), s_rev_level (superBlock fs), blockOfZeros fs, flimit fs)"

definition geo_ok :: "ext2 \<Rightarrow> bool" where
  "geo_ok fs \<longleftrightarrow> flimit fs \<le> 2 ^ 32 \<and> 16 \<le> bsize fs \<and> 16 dvd bsize fs \<and> bsize fs \<le> 65536 \<and> blockOfZeros fs = replicate (bsize fs) 0 \<and>
     0 < bpg fs \<and> 8 dvd bpg fs \<and> bpg fs < 2 ^ 16 \<and> length (BGDT fs) = blockGroupCount fs \<and> blockGroupCount fs * bpg fs + 1 < 2 ^ 32 \<and>
     (\<forall>g < blockGroupCount fs. bitmap_at fs g + bpg fs div 8 \<le> flimit fs) \<and>
     (\<forall>g < blockGroupCount fs. \<forall>h < blockGroupCount fs. g \<noteq> h \<longrightarrow>
        bitmap_at fs g + bpg fs div 8 \<le> bitmap_at fs h \<or> bitmap_at fs h + bpg fs div 8 \<le> bitmap_at fs g) \<and>
     (\<forall>i < blockGroupCount fs. hasSuperBlock i fs \<longrightarrow> bgdtOffset i fs + 32 * blockGroupCount fs \<le> flimit fs) \<and>
     (\<forall>a. \<not> (in_bitmap fs a \<and> in_bgdt fs a))"

text \<open>The counters of the groups agree with the bitmaps, and free blocks may hold data.\<close>

definition fs_ok :: "ext2 \<Rightarrow> bool" where
  "fs_ok fs \<longleftrightarrow> part_ok (fvol fs) \<and> geo_ok fs \<and>
     (\<forall>g < blockGroupCount fs. bg_free_blocks_count (BGDT fs ! g) = card (group_free fs g)) \<and>
     (\<forall>blk \<in> free_blocks fs. data_block fs blk)"

lemma geo_simps:
  assumes "geo fs' = geo fs"
  shows "bsize fs' = bsize fs" "blockGroupCount fs' = blockGroupCount fs" "bpg fs' = bpg fs" "length (BGDT fs') = length (BGDT fs)"
    "s_rev_level (superBlock fs') = s_rev_level (superBlock fs)" "blockOfZeros fs' = blockOfZeros fs" "flimit fs' = flimit fs"
    "hasSuperBlock i fs' = hasSuperBlock i fs" "bgdtOffset i fs' = bgdtOffset i fs" "in_bgdt fs' = in_bgdt fs"
proof -
  show "bsize fs' = bsize fs" "blockGroupCount fs' = blockGroupCount fs" "bpg fs' = bpg fs" "length (BGDT fs') = length (BGDT fs)"
    "s_rev_level (superBlock fs') = s_rev_level (superBlock fs)" "blockOfZeros fs' = blockOfZeros fs" "flimit fs' = flimit fs"
    "hasSuperBlock i fs' = hasSuperBlock i fs" "bgdtOffset i fs' = bgdtOffset i fs"
    using assms by (auto simp: geo_def hasSuperBlock_def bgdtOffset_def blockGroupOffset_def dest: map_eq_imp_length_eq)
  show "in_bgdt fs' = in_bgdt fs"
    using assms by (auto simp: geo_def in_bgdt_def hasSuperBlock_def bgdtOffset_def blockGroupOffset_def fun_eq_iff)
qed

lemma bitmap_at_geo:
  assumes "geo fs' = geo fs" "g < length (BGDT fs)"
  shows "bitmap_at fs' g = bitmap_at fs g"
proof -
  have "map bg_block_bitmap (BGDT fs') ! g = map bg_block_bitmap (BGDT fs) ! g" using assms(1) by (simp add: geo_def)
  then show ?thesis using geo_simps(1,4) [OF assms(1)] assms(2) by (simp add: bitmap_at_def)
qed

lemma geo_regions:
  assumes "geo fs' = geo fs" "length (BGDT fs) = blockGroupCount fs"
  shows "meta fs' = meta fs" "data_block fs' = data_block fs" "geo_ok fs' = geo_ok fs"
proof -
  note G = geo_simps [OF assms(1)] bitmap_at_geo [OF assms(1)]
  have b: "in_bitmap fs' = in_bitmap fs" using G assms(2) by (auto simp: in_bitmap_def fun_eq_iff)
  then show m: "meta fs' = meta fs" by (simp add: meta_def G fun_eq_iff)
  show "data_block fs' = data_block fs" by (simp add: data_block_def G m fun_eq_iff)
  show "geo_ok fs' = geo_ok fs" using G assms(2) b by (simp add: geo_ok_def cong: conj_cong)
qed

lemma geo_okD:
  assumes "geo_ok fs"
  shows "flimit fs \<le> 2 ^ 32" "16 \<le> bsize fs" "16 dvd bsize fs" "bsize fs \<le> 65536" "blockOfZeros fs = replicate (bsize fs) 0"
    "0 < bpg fs" "8 dvd bpg fs" "bpg fs < 2 ^ 16" "length (BGDT fs) = blockGroupCount fs" "blockGroupCount fs * bpg fs + 1 < 2 ^ 32"
    "g < blockGroupCount fs \<Longrightarrow> bitmap_at fs g + bpg fs div 8 \<le> flimit fs"
    "g < blockGroupCount fs \<Longrightarrow> h < blockGroupCount fs \<Longrightarrow> g \<noteq> h \<Longrightarrow>
       bitmap_at fs g + bpg fs div 8 \<le> bitmap_at fs h \<or> bitmap_at fs h + bpg fs div 8 \<le> bitmap_at fs g"
    "i < blockGroupCount fs \<Longrightarrow> hasSuperBlock i fs \<Longrightarrow> bgdtOffset i fs + 32 * blockGroupCount fs \<le> flimit fs"
    "in_bitmap fs a \<Longrightarrow> \<not> in_bgdt fs a"
  using assms unfolding geo_ok_def by blast+

lemma fs_okD:
  assumes "fs_ok fs"
  shows "part_ok (fvol fs)" "geo_ok fs" "g < blockGroupCount fs \<Longrightarrow> bg_free_blocks_count (BGDT fs ! g) = card (group_free fs g)"
    "blk \<in> free_blocks fs \<Longrightarrow> data_block fs blk" "vol_is (fvol fs) (fbytes fs) (flimit fs)"
  using assms unfolding fs_ok_def vol_is_def by blast+

lemma free_blocks_iff:
  "blk \<in> free_blocks fs \<longleftrightarrow> (\<exists>g i. g < blockGroupCount fs \<and> i \<in> group_free fs g \<and> blk = 1 + g * bpg fs + i)" (is "?L \<longleftrightarrow> ?R")
proof
  assume l: ?L
  let ?k = "blk - 1"
  have p: "0 < bpg fs" using l by (cases "bpg fs = 0") (auto simp: free_blocks_def)
  have "?k < blockGroupCount fs * bpg fs" using l by (auto simp: free_blocks_def)
  then have "?k div bpg fs < blockGroupCount fs" by (simp add: less_mult_imp_div_less)
  moreover have "blk = 1 + ?k div bpg fs * bpg fs + ?k mod bpg fs" using l by (simp add: free_blocks_def)
  moreover have "?k mod bpg fs \<in> group_free fs (?k div bpg fs)" using l p by (simp add: free_blocks_def group_free_def)
  ultimately show ?R by blast
next
  assume ?R
  then obtain g i where g: "g < blockGroupCount fs" "i \<in> group_free fs g" "blk = 1 + g * bpg fs + i" by blast
  have "(g + 1) * bpg fs \<le> blockGroupCount fs * bpg fs" using g(1) by (intro mult_right_mono) auto
  then show ?L using g by (auto simp: free_blocks_def group_free_def)
qed

section \<open>Allocation keeps the layout\<close>

lemma low_clear:
  assumes "b \<noteq> (0xFF :: byte)"
  shows "low_clear b < 8" "\<not> bit b (low_clear b)"
proof -
  have "\<exists>i < 8. \<not> bit b i"
  proof (rule ccontr)
    assume "\<not> (\<exists>i < 8. \<not> bit b i)"
    then have "b = mask 8" by (auto intro!: bit_word_eqI simp: bit_mask_iff)
    then show False using assms by (simp add: mask_eq_exp_minus_1)
  qed
  then obtain i where i: "List.find (\<lambda>i. \<not> bit b i) [0..<8] = Some i"
    by (cases "List.find (\<lambda>i. \<not> bit b i) [0..<8]") (auto simp: find_None_iff)
  then have "i < 8" "\<not> bit b i" by (auto simp: find_Some_iff)
  moreover have "low_clear b = i" using i by (simp add: low_clear_def)
  ultimately show "low_clear b < 8" "\<not> bit b (low_clear b)" by auto
qed

lemma bit_FF: "i < 8 \<Longrightarrow> bit (0xFF :: byte) i"
proof -
  have "(0xFF :: byte) = mask 8" by (simp add: mask_eq_exp_minus_1)
  then show "i < 8 \<Longrightarrow> bit (0xFF :: byte) i" by (simp only: bit_mask_iff) simp
qed

lemma upd_bit:
  assumes "i < 8" "j < 8"
  shows "bit (b OR push_bit i 1 :: byte) j \<longleftrightarrow> j = i \<or> bit b j"
    and "bit (b AND NOT (push_bit i 1) :: byte) j \<longleftrightarrow> j \<noteq> i \<and> bit b j"
  using assms by (auto simp: bit_or_iff bit_and_iff bit_not_iff bit_push_bit_iff bit_1_iff simp del: push_bit_of_1)

lemma bitmap_take_spec:
  assumes "io_good io" "vol_is (fvol fs) B L" "bsize fs * bm + m \<le> L" "L \<le> 2 ^ 32" "j0 \<le> m"
  shows "\<exists>r v B'. bitmap_take io bm [j0..<m] fs = Some (r, fs\<lparr>fvol := v\<rparr>) \<and> vol_is v B' L \<and>
    (r = Full \<and> B' = B \<and> (\<forall>i. 8 * j0 \<le> i \<and> i < 8 * m \<longrightarrow> bit (B (bsize fs * bm + i div 8)) (i mod 8)) \<or>
     (\<exists>k. r = Taken k \<and> k < 8 * m \<and> \<not> bit (B (bsize fs * bm + k div 8)) (k mod 8) \<and>
        B' = B(bsize fs * bm + k div 8 := B (bsize fs * bm + k div 8) OR push_bit (k mod 8) 1)))"
  using assms(2,5,3)
proof (induction "m - j0" arbitrary: j0 fs)
  case 0
  then show ?case by (intro exI [of _ Full] exI [of _ "fvol fs"] exI [of _ B]) auto
next
  case (Suc d)
  then have j: "j0 < m" by simp
  let ?o = "bsize fs * bm + j0"
  have o: "u32 ?o = ?o" "?o + 1 \<le> L" using j Suc.prems(3) assms(4) by (auto simp: u32_small)
  obtain v where v: "vread io ?o 1 fs = Some (1, [B ?o], fs\<lparr>fvol := v\<rparr>)" "vol_is v B L"
    using vread_ok [OF assms(1) Suc.prems(1) o(2)] by auto
  show ?case
  proof (cases "B ?o = 0xFF")
    case True
    have b: "bit (B (bsize fs * bm + i div 8)) (i mod 8)" if "8 * j0 \<le> i" "i < 8 * Suc j0" for i
    proof -
      have "i div 8 = j0" using that by auto
      then show ?thesis using True bit_FF [of "i mod 8"] by simp
    qed
    have "\<exists>r v' B'. bitmap_take io bm [Suc j0..<m] (fs\<lparr>fvol := v\<rparr>) = Some (r, fs\<lparr>fvol := v\<rparr>\<lparr>fvol := v'\<rparr>) \<and> vol_is v' B' L \<and>
      (r = Full \<and> B' = B \<and> (\<forall>i. 8 * Suc j0 \<le> i \<and> i < 8 * m \<longrightarrow> bit (B (bsize (fs\<lparr>fvol := v\<rparr>) * bm + i div 8)) (i mod 8)) \<or>
       (\<exists>k. r = Taken k \<and> k < 8 * m \<and> \<not> bit (B (bsize (fs\<lparr>fvol := v\<rparr>) * bm + k div 8)) (k mod 8) \<and>
          B' = B(bsize (fs\<lparr>fvol := v\<rparr>) * bm + k div 8 := B (bsize (fs\<lparr>fvol := v\<rparr>) * bm + k div 8) OR push_bit (k mod 8) 1)))"
      by (rule Suc.hyps(1)) (use Suc.hyps(2) Suc.prems(3) j v in auto)
    then obtain r v' B' where t: "bitmap_take io bm [Suc j0..<m] (fs\<lparr>fvol := v\<rparr>) = Some (r, fs\<lparr>fvol := v'\<rparr>)" "vol_is v' B' L"
      and d: "r = Full \<and> B' = B \<and> (\<forall>i. 8 * Suc j0 \<le> i \<and> i < 8 * m \<longrightarrow> bit (B (bsize fs * bm + i div 8)) (i mod 8)) \<or>
       (\<exists>k. r = Taken k \<and> k < 8 * m \<and> \<not> bit (B (bsize fs * bm + k div 8)) (k mod 8) \<and>
          B' = B(bsize fs * bm + k div 8 := B (bsize fs * bm + k div 8) OR push_bit (k mod 8) 1))" by auto
    have "bitmap_take io bm [j0..<m] fs = Some (r, fs\<lparr>fvol := v'\<rparr>)" using v(1) t(1) True o(1) j by (simp add: upt_conv_Cons)
    moreover have "bit (B (bsize fs * bm + i div 8)) (i mod 8)"
      if "\<forall>i. 8 * Suc j0 \<le> i \<and> i < 8 * m \<longrightarrow> bit (B (bsize fs * bm + i div 8)) (i mod 8)" "8 * j0 \<le> i" "i < 8 * m" for i
      using that b [of i] by (cases "i < 8 * Suc j0") auto
    ultimately show ?thesis using t(2) d by blast
  next
    case False
    note c = low_clear [OF False]
    let ?k = "j0 * 8 + low_clear (B ?o)"
    have k: "?k div 8 = j0" "?k mod 8 = low_clear (B ?o)" using c by auto
    obtain v' where v': "vwrite io [B ?o OR push_bit (low_clear (B ?o)) 1] ?o 1 (fs\<lparr>fvol := v\<rparr>) = Some (1, fs\<lparr>fvol := v\<rparr>\<lparr>fvol := v'\<rparr>)"
      "vol_is v' (to_disk ?o 1 (nth [B ?o OR push_bit (low_clear (B ?o)) 1]) B) L"
      using vwrite_ok [of io "fs\<lparr>fvol := v\<rparr>" B L ?o 1 "[B ?o OR push_bit (low_clear (B ?o)) 1]"] assms(1) v(2) o(2) by auto
    have "to_disk ?o 1 (nth [B ?o OR push_bit (low_clear (B ?o)) 1]) B = B(?o := B ?o OR push_bit (low_clear (B ?o)) 1)"
      by (auto simp: to_disk_def fun_eq_iff)
    then show ?thesis using v v' False o c k j
      by (intro exI [of _ "Taken ?k"] exI [of _ v'] exI [of _ "B(?o := B ?o OR push_bit (low_clear (B ?o)) 1)"])
        (auto simp: upt_conv_Cons Let_def)
  qed
qed

lemma bitmap_clear_spec:
  assumes "io_good io" "vol_is (fvol fs) B L" "bsize fs * bm + k div 8 < L" "L \<le> 2 ^ 32" "bit (B (bsize fs * bm + k div 8)) (k mod 8)"
  shows "\<exists>v. bitmap_clear io bm k fs = Some (True, fs\<lparr>fvol := v\<rparr>) \<and>
    vol_is v (B(bsize fs * bm + k div 8 := B (bsize fs * bm + k div 8) AND NOT (push_bit (k mod 8) 1))) L"
proof -
  let ?o = "bsize fs * bm + k div 8" and ?b = "B (bsize fs * bm + k div 8) AND NOT (push_bit (k mod 8) 1)"
  have o: "u32 ?o = ?o" "?o + 1 \<le> L" using assms(3,4) by (auto simp: u32_small)
  obtain v where v: "vread io ?o 1 fs = Some (1, [B ?o], fs\<lparr>fvol := v\<rparr>)" "vol_is v B L"
    using vread_ok [OF assms(1,2) o(2)] by auto
  obtain v' where v': "vwrite io [?b] ?o 1 (fs\<lparr>fvol := v\<rparr>) = Some (1, fs\<lparr>fvol := v\<rparr>\<lparr>fvol := v'\<rparr>)" "vol_is v' (to_disk ?o 1 (nth [?b]) B) L"
    using vwrite_ok [of io "fs\<lparr>fvol := v\<rparr>" B L ?o 1 "[?b]"] assms(1) v(2) o(2) by auto
  have "to_disk ?o 1 (nth [?b]) B = B(?o := ?b)" by (auto simp: to_disk_def fun_eq_iff)
  then show ?thesis using v v' o assms(5) by (auto simp: bitmap_clear_def Let_def)
qed

text \<open>The copies of the group descriptors are all that an update touches.\<close>

lemma updateBGDT_loop_spec:
  assumes "io_good io" "vol_is (fvol fs) B L" "\<And>i. i \<in> set is \<Longrightarrow> hasSuperBlock i fs \<Longrightarrow> bgdtOffset i fs + atb + length w \<le> L"
  shows "\<exists>v B'. updateBGDT_loop io w atb is fs = Some (True, fs\<lparr>fvol := v\<rparr>) \<and> vol_is v B' L \<and>
    (\<forall>a. (\<forall>i \<in> set is. hasSuperBlock i fs \<longrightarrow> \<not> (bgdtOffset i fs + atb \<le> a \<and> a < bgdtOffset i fs + atb + length w)) \<longrightarrow> B' a = B a)"
  using assms(2,3)
proof (induction "is" arbitrary: fs B)
  case Nil
  then show ?case by (intro exI [of _ "fvol fs"] exI [of _ B]) auto
next
  case (Cons i "is")
  show ?case
  proof (cases "hasSuperBlock i fs")
    case False
    then show ?thesis using Cons.IH [OF Cons.prems(1)] Cons.prems(2) by simp
  next
    case True
    obtain v where v: "vwrite io w (bgdtOffset i fs + atb) (length w) fs = Some (int (length w), fs\<lparr>fvol := v\<rparr>)"
      "vol_is v (to_disk (bgdtOffset i fs + atb) (length w) (nth w) B) L"
      using vwrite_ok [OF assms(1) Cons.prems(1), of "bgdtOffset i fs + atb" "length w" w] Cons.prems(2) [of i] True by auto
    have s: "hasSuperBlock j (fs\<lparr>fvol := v\<rparr>) = hasSuperBlock j fs" "bgdtOffset j (fs\<lparr>fvol := v\<rparr>) = bgdtOffset j fs" for j
      by (simp_all add: hasSuperBlock_def bgdtOffset_def blockGroupOffset_def)
    have "\<exists>v' B'. updateBGDT_loop io w atb is (fs\<lparr>fvol := v\<rparr>) = Some (True, fs\<lparr>fvol := v\<rparr>\<lparr>fvol := v'\<rparr>) \<and> vol_is v' B' L \<and>
      (\<forall>a. (\<forall>j \<in> set is. hasSuperBlock j (fs\<lparr>fvol := v\<rparr>) \<longrightarrow>
         \<not> (bgdtOffset j (fs\<lparr>fvol := v\<rparr>) + atb \<le> a \<and> a < bgdtOffset j (fs\<lparr>fvol := v\<rparr>) + atb + length w)) \<longrightarrow>
         B' a = to_disk (bgdtOffset i fs + atb) (length w) (nth w) B a)"
      by (rule Cons.IH) (use v Cons.prems(2) s in auto)
    then obtain v' B' where l: "updateBGDT_loop io w atb is (fs\<lparr>fvol := v\<rparr>) = Some (True, fs\<lparr>fvol := v'\<rparr>)" "vol_is v' B' L"
      and e: "\<And>a. (\<forall>j \<in> set is. hasSuperBlock j fs \<longrightarrow> \<not> (bgdtOffset j fs + atb \<le> a \<and> a < bgdtOffset j fs + atb + length w)) \<Longrightarrow>
        B' a = to_disk (bgdtOffset i fs + atb) (length w) (nth w) B a" by (auto simp: s)
    then show ?thesis using v(1) True by (intro exI [of _ v'] exI [of _ B']) (auto simp: to_disk_def)
  qed
qed

lemma updateBGDT_spec:
  assumes "io_good io" "vol_is (fvol fs) B (flimit fs)" "geo_ok fs" "bg < blockGroupCount fs" "s + n \<le> 32"
  shows "\<exists>v B'. updateBGDT io bg s n fs = Some (True, fs\<lparr>fvol := v\<rparr>) \<and> vol_is v B' (flimit fs) \<and> (\<forall>a. \<not> in_bgdt fs a \<longrightarrow> B' a = B a)"
proof -
  note G = geo_okD [OF assms(3)]
  let ?w = "take n (drop s (bgd_bytes (BGDT fs ! bg)))"
  have w: "32 * bg + s + length ?w \<le> 32 * blockGroupCount fs" using assms(4,5) by auto
  have "\<exists>v B'. updateBGDT_loop io ?w (32 * bg + s) [0..<blockGroupCount fs] fs = Some (True, fs\<lparr>fvol := v\<rparr>) \<and> vol_is v B' (flimit fs) \<and>
    (\<forall>a. (\<forall>i \<in> set [0..<blockGroupCount fs]. hasSuperBlock i fs \<longrightarrow>
      \<not> (bgdtOffset i fs + (32 * bg + s) \<le> a \<and> a < bgdtOffset i fs + (32 * bg + s) + length ?w)) \<longrightarrow> B' a = B a)"
  proof (rule updateBGDT_loop_spec [OF assms(1,2)])
    fix i assume "i \<in> set [0..<blockGroupCount fs]" "hasSuperBlock i fs"
    then show "bgdtOffset i fs + (32 * bg + s) + length ?w \<le> flimit fs" using G(13) [of i] w by simp
  qed
  then obtain v B' where v: "updateBGDT_loop io ?w (32 * bg + s) [0..<blockGroupCount fs] fs = Some (True, fs\<lparr>fvol := v\<rparr>)" "vol_is v B' (flimit fs)"
    and e: "\<And>a. (\<forall>i \<in> set [0..<blockGroupCount fs]. hasSuperBlock i fs \<longrightarrow>
      \<not> (bgdtOffset i fs + (32 * bg + s) \<le> a \<and> a < bgdtOffset i fs + (32 * bg + s) + length ?w)) \<Longrightarrow> B' a = B a" by blast
  have "B' a = B a" if "\<not> in_bgdt fs a" for a
  proof (rule e, intro ballI impI)
    fix i assume "i \<in> set [0..<blockGroupCount fs]" "hasSuperBlock i fs"
    then have "\<not> (bgdtOffset i fs \<le> a \<and> a < bgdtOffset i fs + 32 * blockGroupCount fs)" using that by (auto simp: in_bgdt_def)
    then show "\<not> (bgdtOffset i fs + (32 * bg + s) \<le> a \<and> a < bgdtOffset i fs + (32 * bg + s) + length ?w)" using w by linarith
  qed
  then show ?thesis using v G(9) assms(4) by (auto simp: updateBGDT_def)
qed

lemma bitmap_byte:
  assumes "geo_ok fs" "g < blockGroupCount fs" "i < bpg fs"
  shows "bitmap_at fs g + i div 8 < bitmap_at fs g + bpg fs div 8" "in_bitmap fs (bitmap_at fs g + i div 8)" "\<not> in_bgdt fs (bitmap_at fs g + i div 8)"
proof -
  obtain m where "bpg fs = 8 * m" using geo_okD(7) [OF assms(1)] by (auto elim: dvdE)
  then show 1: "bitmap_at fs g + i div 8 < bitmap_at fs g + bpg fs div 8" using assms(3) by auto
  with assms(2) show "in_bitmap fs (bitmap_at fs g + i div 8)" by (auto simp: in_bitmap_def)
  then show "\<not> in_bgdt fs (bitmap_at fs g + i div 8)" by (rule geo_okD(14) [OF assms(1)])
qed

text \<open>One bit of a bitmap changes and no other.\<close>

lemma bitmap_change:
  assumes ok: "geo_ok fs" and geo: "geo fs' = geo fs" and g: "g < blockGroupCount fs" "k < bpg fs" and h: "h < blockGroupCount fs" "i < bpg fs"
    and B: "\<And>a. \<not> in_bgdt fs a \<Longrightarrow> fbytes fs' a = ((fbytes fs)(bitmap_at fs g + k div 8 := b)) a"
    and b: "\<And>j. j < 8 \<Longrightarrow> bit b j = (if j = k mod 8 then v else bit (fbytes fs (bitmap_at fs g + k div 8)) j)"
  shows "group_bit fs' h i = (if h = g \<and> i = k then v else group_bit fs h i)"
proof -
  note G = geo_okD [OF ok]
  let ?a = "bitmap_at fs h + i div 8" and ?t = "bitmap_at fs g + k div 8"
  have at: "bitmap_at fs' h = bitmap_at fs h" using bitmap_at_geo [OF geo] G(9) h(1) by simp
  have e: "fbytes fs' ?a = ((fbytes fs)(?t := b)) ?a" by (rule B [OF bitmap_byte(3) [OF ok h]])
  have t: "?a = ?t \<longleftrightarrow> h = g \<and> i div 8 = k div 8"
    using bitmap_byte(1) [OF ok h] bitmap_byte(1) [OF ok g] G(12) [OF h(1) g(1)] by (cases "h = g") auto
  have "i = k \<longleftrightarrow> i div 8 = k div 8 \<and> i mod 8 = k mod 8" by (metis div_mult_mod_eq)
  then show ?thesis using e t b [of "i mod 8"] by (auto simp: group_bit_def at)
qed

lemma counts_change:
  assumes ok: "fs_ok fs" and pv: "part_ok (fvol fs')" and geo: "geo fs' = geo fs" and g: "g < blockGroupCount fs" "k < bpg fs" "group_bit fs g k = (\<not> v)"
    and bits: "\<And>h i. h < blockGroupCount fs \<Longrightarrow> i < bpg fs \<Longrightarrow> group_bit fs' h i = (if h = g \<and> i = k then v else group_bit fs h i)"
    and cnt: "\<And>h. h < blockGroupCount fs \<Longrightarrow> bg_free_blocks_count (BGDT fs' ! h) =
       (if h \<noteq> g then bg_free_blocks_count (BGDT fs ! h) else if v then bg_free_blocks_count (BGDT fs ! g) - 1 else bg_free_blocks_count (BGDT fs ! g) + 1)"
    and dat: "\<not> v \<Longrightarrow> data_block fs (1 + g * bpg fs + k)"
  shows "fs_ok fs'" "free_blocks fs' = (if v then free_blocks fs - {1 + g * bpg fs + k} else insert (1 + g * bpg fs + k) (free_blocks fs))"
proof -
  note D = fs_okD [OF ok] and S = geo_simps [OF geo]
  note G = geo_okD [OF D(2)]
  have gf: "group_free fs' h = (if h \<noteq> g then group_free fs h else if v then group_free fs g - {k} else insert k (group_free fs g))"
    if "h < blockGroupCount fs" for h
    using bits [OF that] g(2) unfolding group_free_def S(3) by (cases "h = g") (auto split: if_splits)
  have fin: "finite (group_free fs g)" by (auto simp: group_free_def)
  have k: "k \<in> group_free fs g \<longleftrightarrow> v" using g by (auto simp: group_free_def)
  have card: "bg_free_blocks_count (BGDT fs' ! h) = card (group_free fs' h)" if "h < blockGroupCount fs" for h
    using that cnt [OF that] gf [OF that] D(3) [OF that] fin k by auto
  show free: "free_blocks fs' = (if v then free_blocks fs - {1 + g * bpg fs + k} else insert (1 + g * bpg fs + k) (free_blocks fs))"
  proof (rule set_eqI)
    fix blk
    have inj: "1 + h * bpg fs + i = 1 + g * bpg fs + k \<longleftrightarrow> h = g \<and> i = k" if "i < bpg fs" for h i
    proof
      assume "1 + h * bpg fs + i = 1 + g * bpg fs + k"
      then have e: "i + h * bpg fs = k + g * bpg fs" by simp
      then have "(i + h * bpg fs) div bpg fs = (k + g * bpg fs) div bpg fs" "(i + h * bpg fs) mod bpg fs = (k + g * bpg fs) mod bpg fs"
        by (simp_all only: e)
      then show "h = g \<and> i = k" using that g(2) by simp
    qed auto
    have mem: "i \<in> group_free fs' h \<longleftrightarrow> (i \<in> group_free fs h \<or> \<not> v \<and> h = g \<and> i = k) \<and> (v \<longrightarrow> \<not> (h = g \<and> i = k))"
      if "h < blockGroupCount fs" for h i using gf [OF that] k by auto
    have "blk \<in> free_blocks fs' \<longleftrightarrow> (\<exists>h i. h < blockGroupCount fs \<and> i \<in> group_free fs' h \<and> blk = 1 + h * bpg fs + i)"
      by (simp add: free_blocks_iff S)
    also have "\<dots> \<longleftrightarrow> (\<exists>h i. h < blockGroupCount fs \<and> (i \<in> group_free fs h \<or> \<not> v \<and> h = g \<and> i = k) \<and> (v \<longrightarrow> \<not> (h = g \<and> i = k)) \<and> blk = 1 + h * bpg fs + i)"
      by (simp add: mem cong: conj_cong)
    also have "\<dots> \<longleftrightarrow> blk \<in> (if v then free_blocks fs - {1 + g * bpg fs + k} else insert (1 + g * bpg fs + k) (free_blocks fs))"
    proof (cases v)
      case True
      have "(i \<in> group_free fs h \<and> \<not> (h = g \<and> i = k) \<and> blk = 1 + h * bpg fs + i) \<longleftrightarrow>
          (i \<in> group_free fs h \<and> blk = 1 + h * bpg fs + i) \<and> blk \<noteq> 1 + g * bpg fs + k" for h i
        using inj [of i h] by (auto simp: group_free_def)
      then show ?thesis using True by (simp only: free_blocks_iff Diff_iff singleton_iff if_True simp_thms) blast
    next
      case False
      then show ?thesis using g by (auto simp: free_blocks_iff)
    qed
    finally show "blk \<in> free_blocks fs' \<longleftrightarrow> blk \<in> (if v then free_blocks fs - {1 + g * bpg fs + k} else insert (1 + g * bpg fs + k) (free_blocks fs))" .
  qed
  have "data_block fs blk" if "blk \<in> free_blocks fs'" for blk
    using that D(4) dat unfolding free by (auto split: if_splits)
  then show "fs_ok fs'" using pv card D(2) by (simp add: fs_ok_def geo_regions [OF geo G(9)] S)
qed

text \<open>What an operation on files keeps of the rest: the layout and every byte outside the metadata.\<close>

definition fs_step :: "ext2 \<Rightarrow> ext2 \<Rightarrow> bool" where
  "fs_step fs fs' \<longleftrightarrow> fs_ok fs' \<and> geo fs' = geo fs \<and> (\<forall>a. \<not> meta fs a \<longrightarrow> fbytes fs' a = fbytes fs a)"

lemma fs_step_refl: "fs_ok fs \<Longrightarrow> fs_step fs fs"
  by (simp add: fs_step_def)

lemma fs_step_trans:
  assumes "fs_step fs fs'" "fs_step fs' fs''" "fs_ok fs"
  shows "fs_step fs fs''"
  using assms geo_regions(1) [of fs' fs] geo_okD(9) [OF fs_okD(2) [OF assms(3)]] by (simp add: fs_step_def)

lemma fs_stepI:
  assumes "fs_ok fs'" "geo fs' = geo fs" "geo_ok fs" "g < blockGroupCount fs" "k < bpg fs"
    and "\<And>a. \<not> in_bgdt fs a \<Longrightarrow> fbytes fs' a = ((fbytes fs)(bitmap_at fs g + k div 8 := b)) a"
  shows "fs_step fs fs'"
  using assms bitmap_byte(2) [OF assms(3-5)] by (auto simp: fs_step_def meta_def)

lemma upd_bgd_fields [simp]:
  "fvol (upd_bgd g f fs) = fvol fs" "superBlock (upd_bgd g f fs) = superBlock fs" "bsize (upd_bgd g f fs) = bsize fs"
  "blockGroupCount (upd_bgd g f fs) = blockGroupCount fs" "(upd_bgd g f (fs\<lparr>fvol := u\<rparr>))\<lparr>fvol := w\<rparr> = upd_bgd g f (fs\<lparr>fvol := w\<rparr>)"
  by (simp_all add: upd_bgd_def)

text \<open>A change of one bit of a bitmap, of a counter and of the super block, with the descriptors written.\<close>

lemma descriptor_written:
  assumes io: "io_good io" and ok: "fs_ok fs" and g: "g < blockGroupCount fs" "k < bpg fs" "group_bit fs g k = (\<not> v)"
    and vol: "vol_is u ((fbytes fs)(bitmap_at fs g + k div 8 := b)) (flimit fs)"
    and b: "\<And>j. j < 8 \<Longrightarrow> bit b j = (if j = k mod 8 then v else bit (fbytes fs (bitmap_at fs g + k div 8)) j)"
    and c: "c = (if v then bg_free_blocks_count (BGDT fs ! g) - 1 else bg_free_blocks_count (BGDT fs ! g) + 1)"
    and dat: "\<not> v \<Longrightarrow> data_block fs (1 + g * bpg fs + k)"
  obtains w where "updateBGDT io g 12 2 (upd_bgd g (\<lambda>d. d\<lparr>bg_free_blocks_count := c\<rparr>) (fs\<lparr>fvol := u\<rparr>)) =
      Some (True, upd_bgd g (\<lambda>d. d\<lparr>bg_free_blocks_count := c\<rparr>) (fs\<lparr>fvol := w\<rparr>))"
    and "\<And>sb sd. s_blocks_per_group sb = bpg fs \<Longrightarrow> s_first_data_block sb = s_first_data_block (superBlock fs) \<Longrightarrow>
      s_feature_ro_compat sb = s_feature_ro_compat (superBlock fs) \<Longrightarrow> s_rev_level sb = s_rev_level (superBlock fs) \<Longrightarrow>
      let fs' = (upd_bgd g (\<lambda>d. d\<lparr>bg_free_blocks_count := c\<rparr>) (fs\<lparr>fvol := w\<rparr>))\<lparr>superBlock := sb, superDirty := sd\<rparr> in
      fs_step fs fs' \<and> free_blocks fs' = (if v then free_blocks fs - {1 + g * bpg fs + k} else insert (1 + g * bpg fs + k) (free_blocks fs))"
proof -
  note D = fs_okD [OF ok]
  note G = geo_okD [OF D(2)]
  let ?f = "upd_bgd g (\<lambda>d. d\<lparr>bg_free_blocks_count := c\<rparr>)"
  let ?B = "(fbytes fs)(bitmap_at fs g + k div 8 := b)"
  have geo1: "geo ((?f (fs\<lparr>fvol := w\<rparr>))\<lparr>superBlock := sb, superDirty := sd\<rparr>) = geo fs"
    if "part_limit w = flimit fs" "s_blocks_per_group sb = bpg fs" "s_first_data_block sb = s_first_data_block (superBlock fs)"
      "s_feature_ro_compat sb = s_feature_ro_compat (superBlock fs)" "s_rev_level sb = s_rev_level (superBlock fs)" for w sb sd
  proof -
    have "map bg_block_bitmap ((BGDT fs)[g := (BGDT fs ! g)\<lparr>bg_free_blocks_count := c\<rparr>]) = map bg_block_bitmap (BGDT fs)"
      by (metis (no_types, lifting) BlockGroupDescriptor.select_convs(1) BlockGroupDescriptor.update_convs(4) BlockGroupDescriptor.surjective
        list_update_id map_update)
    then show ?thesis using that by (simp add: geo_def upd_bgd_def)
  qed
  have geo_u: "geo (?f (fs\<lparr>fvol := u\<rparr>)) = geo fs" using geo1 [of u "superBlock fs" "superDirty fs"] vol by (simp add: vol_is_def upd_bgd_def)
  have "\<exists>w B'. updateBGDT io g 12 2 (?f (fs\<lparr>fvol := u\<rparr>)) = Some (True, (?f (fs\<lparr>fvol := u\<rparr>))\<lparr>fvol := w\<rparr>) \<and>
    vol_is w B' (flimit (?f (fs\<lparr>fvol := u\<rparr>))) \<and> (\<forall>a. \<not> in_bgdt (?f (fs\<lparr>fvol := u\<rparr>)) a \<longrightarrow> B' a = ?B a)"
  proof (rule updateBGDT_spec [OF io])
    show "vol_is (fvol (?f (fs\<lparr>fvol := u\<rparr>))) ?B (flimit (?f (fs\<lparr>fvol := u\<rparr>)))" using vol by (simp add: upd_bgd_def vol_is_def)
    show "geo_ok (?f (fs\<lparr>fvol := u\<rparr>))" using geo_regions(3) [OF geo_u G(9)] D(2) by simp
    show "g < blockGroupCount (?f (fs\<lparr>fvol := u\<rparr>))" using g(1) by (simp add: upd_bgd_def)
  qed simp
  then obtain w B' where w: "updateBGDT io g 12 2 (?f (fs\<lparr>fvol := u\<rparr>)) = Some (True, ?f (fs\<lparr>fvol := w\<rparr>))"
    "vol_is w B' (flimit fs)" "\<And>a. \<not> in_bgdt fs a \<Longrightarrow> B' a = ?B a"
    using vol geo_simps(10) [OF geo_u] by (auto simp: vol_is_def)
  show thesis
  proof (rule that [OF w(1)])
    fix sb :: SuperBlock and sd
    assume sb: "s_blocks_per_group sb = bpg fs" "s_first_data_block sb = s_first_data_block (superBlock fs)"
      "s_feature_ro_compat sb = s_feature_ro_compat (superBlock fs)" "s_rev_level sb = s_rev_level (superBlock fs)"
    define fs' where "fs' = (?f (fs\<lparr>fvol := w\<rparr>))\<lparr>superBlock := sb, superDirty := sd\<rparr>"
    have geo: "geo fs' = geo fs" using geo1 [OF _ sb] w(2) by (simp add: fs'_def vol_is_def)
    have B': "fbytes fs' = B'" "part_ok (fvol fs')" using w(2) by (simp_all add: fs'_def upd_bgd_def vol_is_def)
    have bits: "group_bit fs' h i = (if h = g \<and> i = k then v else group_bit fs h i)" if "h < blockGroupCount fs" "i < bpg fs" for h i
      by (rule bitmap_change [OF D(2) geo g(1,2) that]) (use w(3) B' b in auto)
    have cnt: "bg_free_blocks_count (BGDT fs' ! h) =
       (if h \<noteq> g then bg_free_blocks_count (BGDT fs ! h) else if v then bg_free_blocks_count (BGDT fs ! g) - 1 else bg_free_blocks_count (BGDT fs ! g) + 1)"
      if "h < blockGroupCount fs" for h
      using that G(9) c by (simp add: fs'_def upd_bgd_def nth_list_update)
    note C = counts_change [OF ok B'(2) geo g bits cnt dat]
    have "fs_step fs fs'" by (rule fs_stepI [OF C(1) geo D(2) g(1,2), where b = b]) (use w(3) B' in auto)
    then show "let fs' = (?f (fs\<lparr>fvol := w\<rparr>))\<lparr>superBlock := sb, superDirty := sd\<rparr> in
      fs_step fs fs' \<and> free_blocks fs' = (if v then free_blocks fs - {1 + g * bpg fs + k} else insert (1 + g * bpg fs + k) (free_blocks fs))"
      using C(2) by (simp add: fs'_def Let_def)
  qed
qed

lemma block_number_less:
  assumes "geo_ok fs" "g < blockGroupCount fs" "k < bpg fs"
  shows "1 + g * bpg fs + k \<le> blockGroupCount fs * bpg fs" "u32 (1 + g * bpg fs + k) = 1 + g * bpg fs + k"
proof -
  have "(g + 1) * bpg fs \<le> blockGroupCount fs * bpg fs" using assms(2) by (intro mult_right_mono) auto
  then show 1: "1 + g * bpg fs + k \<le> blockGroupCount fs * bpg fs" using assms(3) by simp
  show "u32 (1 + g * bpg fs + k) = 1 + g * bpg fs + k" using 1 geo_okD(10) [OF assms(1)] by (intro u32_small) simp
qed

lemma allocBlockInGroup_spec:
  assumes io: "io_good io" and ok: "fs_ok fs" and g: "g < blockGroupCount fs"
  shows "group_free fs g = {} \<Longrightarrow> allocBlockInGroup io g fs = Some (0, fs)"
    and "group_free fs g \<noteq> {} \<Longrightarrow> \<exists>k fs'. k \<in> group_free fs g \<and> allocBlockInGroup io g fs = Some (1 + g * bpg fs + k, fs') \<and>
      fs_step fs fs' \<and> free_blocks fs' = free_blocks fs - {1 + g * bpg fs + k}"
proof -
  note D = fs_okD [OF ok]
  note G = geo_okD [OF D(2)]
  have len: "g < length (BGDT fs)" using G(9) g by simp
  have fin: "finite (group_free fs g)" by (auto simp: group_free_def)
  then have cnt: "bg_free_blocks_count (BGDT fs ! g) = 0 \<longleftrightarrow> group_free fs g = {}" using D(3) [OF g] by simp
  then show "group_free fs g = {} \<Longrightarrow> allocBlockInGroup io g fs = Some (0, fs)" using len by (simp add: allocBlockInGroup_def)
  assume ne: "group_free fs g \<noteq> {}"
  obtain m where m: "bpg fs = 8 * m" using G(7) by (auto elim: dvdE)
  let ?bm = "bg_block_bitmap (BGDT fs ! g)"
  have "bsize fs * ?bm + m \<le> flimit fs" using G(11) [OF g] m by (simp add: bitmap_at_def)
  then obtain r v B' where t: "bitmap_take io ?bm [0..<m] fs = Some (r, fs\<lparr>fvol := v\<rparr>)" "vol_is v B' (flimit fs)"
    and r: "r = Full \<and> B' = fbytes fs \<and> (\<forall>i. 8 * 0 \<le> i \<and> i < 8 * m \<longrightarrow> bit (fbytes fs (bsize fs * ?bm + i div 8)) (i mod 8)) \<or>
     (\<exists>k. r = Taken k \<and> k < 8 * m \<and> \<not> bit (fbytes fs (bsize fs * ?bm + k div 8)) (k mod 8) \<and>
        B' = (fbytes fs)(bsize fs * ?bm + k div 8 := fbytes fs (bsize fs * ?bm + k div 8) OR push_bit (k mod 8) 1))"
    using bitmap_take_spec [OF io D(5), of ?bm m 0] G(1) by blast
  have "\<not> (r = Full \<and> (\<forall>i. 8 * 0 \<le> i \<and> i < 8 * m \<longrightarrow> bit (fbytes fs (bsize fs * ?bm + i div 8)) (i mod 8)))"
    using ne by (auto simp: group_free_def group_bit_def bitmap_at_def m)
  with r obtain k where k: "r = Taken k" "k < bpg fs" "\<not> group_bit fs g k"
    "B' = (fbytes fs)(bitmap_at fs g + k div 8 := fbytes fs (bitmap_at fs g + k div 8) OR push_bit (k mod 8) 1)"
    by (auto simp: group_bit_def bitmap_at_def m)
  let ?c = "bg_free_blocks_count (BGDT fs ! g) - 1"
  obtain w where w: "updateBGDT io g 12 2 (upd_bgd g (\<lambda>d. d\<lparr>bg_free_blocks_count := ?c\<rparr>) (fs\<lparr>fvol := v\<rparr>)) =
      Some (True, upd_bgd g (\<lambda>d. d\<lparr>bg_free_blocks_count := ?c\<rparr>) (fs\<lparr>fvol := w\<rparr>))"
    and st: "\<And>sb sd. s_blocks_per_group sb = bpg fs \<Longrightarrow> s_first_data_block sb = s_first_data_block (superBlock fs) \<Longrightarrow>
      s_feature_ro_compat sb = s_feature_ro_compat (superBlock fs) \<Longrightarrow> s_rev_level sb = s_rev_level (superBlock fs) \<Longrightarrow>
      let fs' = (upd_bgd g (\<lambda>d. d\<lparr>bg_free_blocks_count := ?c\<rparr>) (fs\<lparr>fvol := w\<rparr>))\<lparr>superBlock := sb, superDirty := sd\<rparr> in
      fs_step fs fs' \<and> free_blocks fs' = (if True then free_blocks fs - {1 + g * bpg fs + k} else insert (1 + g * bpg fs + k) (free_blocks fs))"
    by (rule descriptor_written [OF io ok g k(2), of True v _ ?c]) (use k t(2) upd_bit(1) [of "k mod 8"] in auto)
  let ?fs' = "upd_sb (\<lambda>s. s\<lparr>s_free_blocks_count := sub32 (s_free_blocks_count s) 1\<rparr>) (upd_bgd g (\<lambda>d. d\<lparr>bg_free_blocks_count := ?c\<rparr>) (fs\<lparr>fvol := w\<rparr>))"
  have f: "fs_step fs ?fs' \<and> free_blocks ?fs' = free_blocks fs - {1 + g * bpg fs + k}"
    using st [of "(superBlock fs)\<lparr>s_free_blocks_count := sub32 (s_free_blocks_count (superBlock fs)) 1\<rparr>" True] by (simp add: upd_sb_def Let_def)
  have u: "upd_bgd g (\<lambda>d. d\<lparr>bg_free_blocks_count := bg_free_blocks_count d - 1\<rparr>) (fs\<lparr>fvol := v\<rparr>) = upd_bgd g (\<lambda>d. d\<lparr>bg_free_blocks_count := ?c\<rparr>) (fs\<lparr>fvol := v\<rparr>)"
    by (simp add: upd_bgd_def)
  have "allocBlockInGroup io g fs = Some (1 + g * bpg fs + k, ?fs')"
    using len ne cnt t(1) k(1) w u block_number_less(2) [OF D(2) g k(2)] by (simp add: allocBlockInGroup_def m Let_def upd_sb_def)
  then show "\<exists>k fs'. k \<in> group_free fs g \<and> allocBlockInGroup io g fs = Some (1 + g * bpg fs + k, fs') \<and>
      fs_step fs fs' \<and> free_blocks fs' = free_blocks fs - {1 + g * bpg fs + k}"
    using f k(2,3) by (intro exI [of _ k] exI [of _ ?fs']) (simp add: group_free_def)
qed

lemma allocBlock_loop_spec:
  assumes io: "io_good io" and ok: "fs_ok fs" and gs: "\<And>g. g \<in> set gs \<Longrightarrow> g < blockGroupCount fs \<and> g \<noteq> p"
  shows "(\<forall>g \<in> set gs. group_free fs g = {}) \<and> allocBlock_loop io p gs fs = Some (0, fs) \<or>
    (\<exists>blk fs'. blk \<in> free_blocks fs \<and> allocBlock_loop io p gs fs = Some (blk, fs') \<and> fs_step fs fs' \<and> free_blocks fs' = free_blocks fs - {blk})"
  using gs
proof (induction gs)
  case (Cons g gs)
  have g: "g < blockGroupCount fs" "g \<noteq> p" using Cons.prems by auto
  show ?case
  proof (cases "group_free fs g = {}")
    case True
    then show ?thesis using Cons.IH Cons.prems allocBlockInGroup_spec(1) [OF io ok g(1) True] g(2) by simp
  next
    case False
    then obtain k fs' where "k \<in> group_free fs g" "allocBlockInGroup io g fs = Some (1 + g * bpg fs + k, fs')" "fs_step fs fs'"
      "free_blocks fs' = free_blocks fs - {1 + g * bpg fs + k}"
      using allocBlockInGroup_spec(2) [OF io ok g(1)] by blast
    then show ?thesis using g by (intro disjI2 exI [of _ "1 + g * bpg fs + k"] exI [of _ fs']) (auto simp: free_blocks_iff)
  qed
qed simp

lemma allocBlock_spec:
  assumes io: "io_good io" and ok: "fs_ok fs"
  shows "free_blocks fs = {} \<and> allocBlock io U32_MAX fs = Some (0, fs) \<or>
    (\<exists>blk fs'. blk \<in> free_blocks fs \<and> allocBlock io U32_MAX fs = Some (blk, fs') \<and> fs_step fs fs' \<and> free_blocks fs' = free_blocks fs - {blk})"
proof -
  note G = geo_okD [OF fs_okD(2) [OF ok]]
  have "blockGroupCount fs \<le> blockGroupCount fs * bpg fs" using G(6) by simp
  also have "\<dots> < U32_MAX" using G(10) by simp
  finally have c: "blockGroupCount fs < U32_MAX" .
  have "free_blocks fs = {}" if "\<forall>g \<in> set [0..<blockGroupCount fs]. group_free fs g = {}"
    using that by (auto simp: free_blocks_iff)
  then show ?thesis using allocBlock_loop_spec [OF io ok, of "[0..<blockGroupCount fs]" U32_MAX] c by (auto simp: allocBlock_def)
qed

lemma freeBlock_spec:
  assumes io: "io_good io" and ok: "fs_ok fs" and blk: "data_block fs blk" "blk \<notin> free_blocks fs"
  shows "\<exists>fs'. freeBlock io blk fs = Some (False, fs') \<and> fs_step fs fs' \<and> free_blocks fs' = insert blk (free_blocks fs)"
proof -
  note D = fs_okD [OF ok]
  note G = geo_okD [OF D(2)]
  define g k where "g = (blk - 1) div bpg fs" and "k = (blk - 1) mod bpg fs"
  have b: "blk \<noteq> 0" "blk - 1 < blockGroupCount fs * bpg fs" using blk(1) by (auto simp: data_block_def)
  then have gk: "g < blockGroupCount fs" "k < bpg fs" "1 + g * bpg fs + k = blk"
    using G(6) by (auto simp: g_def k_def less_mult_imp_div_less)
  have gk0: "(blk - Suc 0) div bpg fs = g" "(blk - Suc 0) mod bpg fs = k" by (simp_all add: g_def k_def)
  have set: "group_bit fs g k" using blk b by (auto simp: free_blocks_def g_def k_def)
  let ?bm = "bg_block_bitmap (BGDT fs ! g)" and ?c = "bg_free_blocks_count (BGDT fs ! g) + 1"
  have lt: "bsize fs * ?bm + k div 8 < flimit fs" using bitmap_byte(1) [OF D(2) gk(1,2)] G(11) [OF gk(1)] by (simp add: bitmap_at_def)
  obtain v where t: "bitmap_clear io ?bm k fs = Some (True, fs\<lparr>fvol := v\<rparr>)"
    "vol_is v ((fbytes fs)(bitmap_at fs g + k div 8 := fbytes fs (bitmap_at fs g + k div 8) AND NOT (push_bit (k mod 8) 1))) (flimit fs)"
    using bitmap_clear_spec [OF io D(5) lt G(1)] set by (auto simp: group_bit_def bitmap_at_def)
  obtain w where w: "updateBGDT io g 12 2 (upd_bgd g (\<lambda>d. d\<lparr>bg_free_blocks_count := ?c\<rparr>) (fs\<lparr>fvol := v\<rparr>)) =
      Some (True, upd_bgd g (\<lambda>d. d\<lparr>bg_free_blocks_count := ?c\<rparr>) (fs\<lparr>fvol := w\<rparr>))"
    and st: "\<And>sb sd. s_blocks_per_group sb = bpg fs \<Longrightarrow> s_first_data_block sb = s_first_data_block (superBlock fs) \<Longrightarrow>
      s_feature_ro_compat sb = s_feature_ro_compat (superBlock fs) \<Longrightarrow> s_rev_level sb = s_rev_level (superBlock fs) \<Longrightarrow>
      let fs' = (upd_bgd g (\<lambda>d. d\<lparr>bg_free_blocks_count := ?c\<rparr>) (fs\<lparr>fvol := w\<rparr>))\<lparr>superBlock := sb, superDirty := sd\<rparr> in
      fs_step fs fs' \<and> free_blocks fs' = (if False then free_blocks fs - {1 + g * bpg fs + k} else insert (1 + g * bpg fs + k) (free_blocks fs))"
    by (rule descriptor_written [OF io ok gk(1,2), of False v _ ?c]) (use set t(2) upd_bit(2) [of "k mod 8"] blk(1) gk(3) in auto)
  let ?fs' = "upd_bgd g (\<lambda>d. d\<lparr>bg_free_blocks_count := ?c\<rparr>) (fs\<lparr>fvol := w\<rparr>)"
  have f: "fs_step fs ?fs' \<and> free_blocks ?fs' = insert blk (free_blocks fs)"
    using st [of "superBlock fs" "superDirty fs"] gk(3) by (simp add: upd_bgd_def Let_def)
  have "group_free fs g \<subseteq> {..<bpg fs} - {k}" using set by (auto simp: group_free_def)
  then have "card (group_free fs g) \<le> card ({..<bpg fs} - {k})" by (intro card_mono) auto
  then have "?c < 2 ^ 16" using G(8) gk(2) D(3) [OF gk(1)] by simp
  then have u: "upd_bgd g (\<lambda>d. d\<lparr>bg_free_blocks_count := (bg_free_blocks_count d + 1) mod 2 ^ 16\<rparr>) (fs\<lparr>fvol := v\<rparr>) =
      upd_bgd g (\<lambda>d. d\<lparr>bg_free_blocks_count := ?c\<rparr>) (fs\<lparr>fvol := v\<rparr>)"
    by (simp add: upd_bgd_def)
  have "freeBlock io blk fs = Some (False, ?fs')"
    using b(1) gk(1) G(9) t(1) w u gk0 by (simp add: freeBlock_def Let_def)
  then show ?thesis using f by blast
qed

section \<open>A small volume\<close>

text \<open>
  40 blocks of 1024 bytes in one group of 32: the super block in 1, the descriptors in 2, the bitmap in 3, a file of 17 blocks
  in 4 to 20 with the pointers to the last five of them in block 21. Blocks 22 to 32 are free.
\<close>

definition demo_disk :: "nat \<Rightarrow> byte" where
  "demo_disk a = (if a = 3072 \<or> a = 3073 then 0xFF else if a = 3074 then 0x1F
     else if 21504 \<le> a \<and> a < 21524 \<and> a mod 4 = 0 then of_nat (16 + (a - 21504) div 4) else 0)"

definition demo_bgd :: BlockGroupDescriptor where
  "demo_bgd = \<lparr>bg_block_bitmap = 3, bg_inode_bitmap = 33, bg_inode_table = 34, bg_free_blocks_count = 11, bg_free_inodes_count = 0,
     bg_used_dirs_count = 0, bg_pad = 0, bg_reserved = replicate 12 0\<rparr>"

definition demo_fs :: ext2 where
  "demo_fs = \<lparr>fvol = PartVolume_new \<lparr>SectorSize = 512, SectorCount = 80, disk = demo_disk\<rparr> 0 80,
     superBlock = (sb_of [])\<lparr>s_first_data_block := 1, s_blocks_per_group := 32, s_feature_ro_compat := 0, s_rev_level := 1\<rparr>, readOnly = False, bsize = 1024, fragSize = 1024,
     totalSize = 32768, blockGroupCount = 1, BGDT = [demo_bgd], initialized = True, superDirty = False, blockOfZeros = replicate 1024 0\<rparr>"

definition demo_io :: io_env where
  "demo_io = \<lparr>rdok = (\<lambda>_. True), wrok = (\<lambda>_. True), dma = True, now = 0\<rparr>"

lemma demo_io_good: "io_good demo_io"
  by (simp add: io_good_def demo_io_def)

lemma demo_volume: "part_ok (fvol demo_fs)" "fbytes demo_fs = demo_disk" "flimit demo_fs = 40960"
proof -
  let ?d = "\<lparr>SectorSize = 512, SectorCount = 80, disk = demo_disk\<rparr>"
  note V = vol_ok_new [of ?d 16 16]
  show "part_ok (fvol demo_fs)" using V by (simp add: demo_fs_def part_ok_def PartVolume_new_def)
  show "fbytes demo_fs = demo_disk" using V by (auto simp: demo_fs_def part_bytes_def part_start_def PartVolume_new_def fun_eq_iff)
  show "flimit demo_fs = 40960" using V by (simp add: demo_fs_def part_limit_def part_start_def PartVolume_new_def)
qed

lemma demo_fields: "bsize demo_fs = 1024" "bpg demo_fs = 32" "blockGroupCount demo_fs = 1" "BGDT demo_fs = [demo_bgd]" "blockOfZeros demo_fs = replicate 1024 0"
  "s_rev_level (superBlock demo_fs) = 1" "bitmap_at demo_fs 0 = 3072" "bgdtOffset 0 demo_fs = 2048" "hasSuperBlock 0 demo_fs"
  by (simp_all add: demo_fs_def bitmap_at_def demo_bgd_def bgdtOffset_def blockGroupOffset_def u32_def hasSuperBlock_def)

lemma demo_bit:
  assumes "i < 32"
  shows "group_bit demo_fs 0 i \<longleftrightarrow> i < 21"
proof -
  have "i \<in> {..<32}" using assms by simp
  moreover have "\<forall>i \<in> {..<32}. bit (demo_disk (3072 + i div 8)) (i mod 8) \<longleftrightarrow> i < 21"
    by (simp add: lessThan_nat_numeral lessThan_Suc demo_disk_def bit_numeral_word_iff)
  ultimately show ?thesis by (simp add: group_bit_def demo_volume demo_fields)
qed

lemma demo_meta: "meta demo_fs a \<longleftrightarrow> 3072 \<le> a \<and> a < 3076 \<or> 2048 \<le> a \<and> a < 2080"
  by (auto simp: meta_def in_bitmap_def in_bgdt_def demo_fields)

lemma demo_free: "free_blocks demo_fs = {22..32}"
proof -
  have "blk \<in> free_blocks demo_fs \<longleftrightarrow> blk \<in> {22..32}" for blk
    using demo_bit [of "blk - 1"] by (auto simp: free_blocks_def demo_fields)
  then show ?thesis by blast
qed

lemma demo_fs_ok: "fs_ok demo_fs"
  unfolding fs_ok_def
proof (intro conjI ballI allI impI)
  show "part_ok (fvol demo_fs)" by (rule demo_volume)
  show "geo_ok demo_fs" by (auto simp: geo_ok_def demo_fields demo_volume in_bitmap_def in_bgdt_def)
next
  fix g assume "g < blockGroupCount demo_fs"
  then have g: "g = 0" by (simp add: demo_fields)
  have "group_free demo_fs 0 = {21..<32}" using demo_bit by (auto simp: group_free_def demo_fields)
  then show "bg_free_blocks_count (BGDT demo_fs ! g) = card (group_free demo_fs g)" by (simp add: g demo_fields demo_bgd_def)
next
  fix blk assume "blk \<in> free_blocks demo_fs"
  then show "data_block demo_fs blk" by (auto simp: demo_free data_block_def demo_fields demo_volume demo_meta)
qed

section \<open>Properties\<close>

text \<open>C8.
  Allocation of blocks, on a well-formed volume (\<open>fs_ok\<close>): at most 4 GiB, blocks of 16 to 65536 bytes,
  groups of a multiple of 8 and less than 65536 blocks, the bitmaps
  and descriptor copies inside the volume and apart, the free count in each group descriptor equal to the clear bits of
  the group's bitmap, every free block inside the volume and outside bitmaps and descriptors; all transfers succeed.
  Then \<open>allocBlock\<close> (without a preferred group) fails only when no block is free. Otherwise it
  returns one of the free blocks; it is no longer free afterwards and every other block is as it was, the volume stays
  well-formed (the counters of the groups still agree with the bitmaps), and no byte changes outside the bitmaps and
  the copies of the descriptors. \<open>freeBlock\<close> undoes it, although it reports a failure.\<close>

theorem block_allocation_exact:
  assumes "io_good io" "fs_ok fs"
  shows "(free_blocks fs = {} \<and> allocBlock io U32_MAX fs = Some (0, fs)) \<or>
    (\<exists>blk fs' fs''. blk \<in> free_blocks fs \<and> data_block fs blk \<and> allocBlock io U32_MAX fs = Some (blk, fs') \<and>
       fs_ok fs' \<and> free_blocks fs' = free_blocks fs - {blk} \<and> {a. fbytes fs' a \<noteq> fbytes fs a} \<subseteq> {a. meta fs a} \<and>
       freeBlock io blk fs' = Some (False, fs'') \<and> fs_ok fs'' \<and> free_blocks fs'' = free_blocks fs \<and> {a. fbytes fs'' a \<noteq> fbytes fs a} \<subseteq> {a. meta fs a})"
  using allocBlock_spec [OF assms]
proof (elim disjE exE conjE)
  fix blk fs' assume a: "blk \<in> free_blocks fs" "allocBlock io U32_MAX fs = Some (blk, fs')" "fs_step fs fs'" "free_blocks fs' = free_blocks fs - {blk}"
  have ok': "fs_ok fs'" and geo: "geo fs' = geo fs" using a(3) by (auto simp: fs_step_def)
  have d: "data_block fs blk" by (rule fs_okD(4) [OF assms(2) a(1)])
  then have d': "data_block fs' blk" using geo_regions(2) [OF geo geo_okD(9) [OF fs_okD(2) [OF assms(2)]]] by simp
  have "blk \<notin> free_blocks fs'" using a(4) by simp
  then obtain fs'' where f: "freeBlock io blk fs' = Some (False, fs'')" "fs_step fs' fs''" "free_blocks fs'' = insert blk (free_blocks fs')"
    using freeBlock_spec [OF assms(1) ok' d'] by blast
  have "fs_step fs fs''" by (rule fs_step_trans [OF a(3) f(2) assms(2)])
  then show ?thesis using a d f ok' by (intro disjI2 exI [of _ blk] exI [of _ fs'] exI [of _ fs'']) (auto simp: fs_step_def)
qed auto

theorem block_allocation_exact_witness:
  "\<exists>blk fs' fs''. blk \<in> {22..32} \<and> allocBlock demo_io U32_MAX demo_fs = Some (blk, fs') \<and> free_blocks fs' = {22..32} - {blk} \<and>
     freeBlock demo_io blk fs' = Some (False, fs'') \<and> free_blocks fs'' = {22..32}"
  using block_allocation_exact [OF demo_io_good demo_fs_ok] unfolding demo_free by auto

end
