(* ===== verification/Ext2File.thy ===== *)
theory Ext2File
  imports Ext2
begin

text \<open>
  \<open>kernel/ext2/ext2.cpp\<close>: i-nodes, the map from the blocks of a file to blocks of the volume, and reading, writing and
  resizing of files. An operation on an i-node takes the object and returns it changed, with the file system. Positions
  and lengths are not negative; numbers of blocks of a file are below 2^32. Where the code returns a count or a negative
  error the model has \<open>int\<close>; \<open>None\<close> is a fault, as in \<^verbatim>\<open>Ext2\<close>.
\<close>

section \<open>I-nodes\<close>

(* src/kernel/ext2/ext2.hpp:193-219 INode, struct *)
record INodeData =
  i_mode :: nat
  i_uid :: nat
  i_size :: nat
  i_atime :: nat
  i_ctime :: nat
  i_mtime :: nat
  i_dtime :: nat
  i_gid :: nat
  i_links_count :: nat
  i_blocks :: nat
  i_flags :: nat
  i_osd1 :: nat
  i_block :: "nat list"
  i_generation :: nat
  i_file_acl :: nat
  i_dir_acl :: nat
  i_faddr :: nat
  i_osd2 :: "byte list"

definition inode_bytes :: "INodeData \<Rightarrow> byte list" where
  "inode_bytes d =
     le_enc 2 (i_mode d) @ le_enc 2 (i_uid d) @ le_enc 4 (i_size d) @ le_enc 4 (i_atime d) @ le_enc 4 (i_ctime d) @ le_enc 4 (i_mtime d) @
     le_enc 4 (i_dtime d) @ le_enc 2 (i_gid d) @ le_enc 2 (i_links_count d) @ le_enc 4 (i_blocks d) @ le_enc 4 (i_flags d) @
     le_enc 4 (i_osd1 d) @ concat (map (le_enc 4) (i_block d)) @ le_enc 4 (i_generation d) @ le_enc 4 (i_file_acl d) @
     le_enc 4 (i_dir_acl d) @ le_enc 4 (i_faddr d) @ i_osd2 d"

definition inode_of :: "byte list \<Rightarrow> INodeData" where
  "inode_of b = \<lparr>i_mode = fld b 0 2, i_uid = fld b 2 2, i_size = fld b 4 4, i_atime = fld b 8 4, i_ctime = fld b 12 4, i_mtime = fld b 16 4,
     i_dtime = fld b 20 4, i_gid = fld b 24 2, i_links_count = fld b 26 2, i_blocks = fld b 28 4, i_flags = fld b 32 4, i_osd1 = fld b 36 4,
     i_block = map (\<lambda>k. fld b (40 + 4 * k) 4) [0..<15], i_generation = fld b 100 4, i_file_acl = fld b 104 4, i_dir_acl = fld b 108 4,
     i_faddr = fld b 112 4, i_osd2 = take 12 (drop 116 b)\<rparr>"

(* src/kernel/include/inode.hpp:14-17 INode, fields *)
record FSINode =
  Number :: nat
  ReferenceCount :: int
  ino_Dirty :: bool
  Data :: INodeData

(* src/kernel/inode.cpp:6-11 INode::INode *)
definition FSINode_new :: "nat \<Rightarrow> FSINode" where
  "FSINode_new number = \<lparr>Number = number, ReferenceCount = 0, ino_Dirty = False, Data = inode_of (replicate 128 0)\<rparr>"

definition upd_data :: "(INodeData \<Rightarrow> INodeData) \<Rightarrow> FSINode \<Rightarrow> FSINode" where
  "upd_data f ino = ino\<lparr>Data := f (Data ino), ino_Dirty := True\<rparr>"

definition S_IFTYPE :: nat where "S_IFTYPE = 0xF000"
definition S_IFREG :: nat where "S_IFREG = 0x8000"
definition S_IFDIR :: nat where "S_IFDIR = 0x4000"

(* src/kernel/ext2/ext2.hpp:71-71 EXT2_S_ISREG *)
definition S_ISREG :: "nat \<Rightarrow> bool" where
  "S_ISREG mode \<longleftrightarrow> mode AND S_IFTYPE = S_IFREG"

(* src/kernel/ext2/ext2.hpp:67-67 EXT2_S_ISDIR *)
definition S_ISDIR :: "nat \<Rightarrow> bool" where
  "S_ISDIR mode \<longleftrightarrow> mode AND S_IFTYPE = S_IFDIR"

(* src/kernel/ext2/ext2.cpp:93-114 EXT2::modeToFileType *)
definition modeToFileType :: "nat \<Rightarrow> nat" where
  "modeToFileType mode =
     (let t = mode AND S_IFTYPE in
      if t = 0x1000 then 5 else if t = 0x2000 then 3 else if t = 0x4000 then 2 else if t = 0x6000 then 4
      else if t = 0x8000 then 1 else if t = 0xA000 then 7 else if t = 0xC000 then 6 else 0)"

(* src/kernel/ext2/ext2.cpp:789-800 EXT2::FSINode::setSize *)
definition setSize :: "nat \<Rightarrow> ext2 \<Rightarrow> FSINode \<Rightarrow> FSINode" where
  "setSize sz fs = upd_data (\<lambda>d.
     if s_rev_level (superBlock fs) < 1 then d\<lparr>i_size := u32 sz\<rparr>
     else (if S_ISREG (i_mode d) then d\<lparr>i_dir_acl := u32 (sz div 2 ^ 32)\<rparr> else d)\<lparr>i_size := u32 sz\<rparr>)"

(* src/kernel/ext2/ext2.cpp:831-836 EXT2::FSINode::GetSize *)
definition GetSize :: "ext2 \<Rightarrow> FSINode \<Rightarrow> nat" where
  "GetSize fs ino =
     (let d = Data ino in
      if s_rev_level (superBlock fs) < 1 then i_size d
      else i_size d + (if S_ISREG (i_mode d) then i_dir_acl d * 2 ^ 32 else 0))"

(* src/kernel/ext2/ext2.cpp:887-892 EXT2::FSINode::SetModifyTime *)
definition SetModifyTime :: "nat \<Rightarrow> FSINode \<Rightarrow> FSINode" where
  "SetModifyTime t = upd_data (\<lambda>d. d\<lparr>i_mtime := t\<rparr>)"

(* src/kernel/ext2/ext2.cpp:894-899 EXT2::FSINode::SetAccessTime *)
definition SetAccessTime :: "nat \<Rightarrow> FSINode \<Rightarrow> FSINode" where
  "SetAccessTime t = upd_data (\<lambda>d. d\<lparr>i_atime := t\<rparr>)"

(* src/kernel/ext2/ext2.cpp:880-885 EXT2::FSINode::SetCreateTime *)
definition SetCreateTime :: "nat \<Rightarrow> FSINode \<Rightarrow> FSINode" where
  "SetCreateTime t = upd_data (\<lambda>d. d\<lparr>i_ctime := t\<rparr>)"

text \<open>I-nodes on the volume. A new object is zeroed, so a short i-node leaves the rest 0.\<close>

(* src/kernel/ext2/ext2.cpp:726-739 EXT2::ReadINode *)
definition ReadINode :: "io_env \<Rightarrow> nat \<Rightarrow> ext2 \<Rightarrow> (FSINode option \<times> ext2) option" where
  "ReadINode io number fs =
     (if \<not> initialized fs then Some (None, fs)
      else
        let btr = min 128 (s_inode_size (superBlock fs)) in
        do { offs \<leftarrow> getINodeOffset number fs;
             (br, out, fs) \<leftarrow> vread io offs btr fs;
             Some (if br \<noteq> int btr then None
                   else Some ((FSINode_new number)\<lparr>Data := inode_of (out @ replicate (128 - length out) 0)\<rparr>), fs) })"

(* src/kernel/ext2/ext2.cpp:741-749 EXT2::WriteINode *)
definition WriteINode :: "io_env \<Rightarrow> FSINode \<Rightarrow> ext2 \<Rightarrow> (bool \<times> ext2) option" where
  "WriteINode io ino fs =
     (if \<not> initialized fs then Some (False, fs)
      else
        let btw = min 128 (s_inode_size (superBlock fs)) in
        do { offs \<leftarrow> getINodeOffset (Number ino) fs;
             (bw, fs) \<leftarrow> vwrite io (inode_bytes (Data ino)) offs btw fs;
             Some (bw = int btw, fs) })"

section \<open>The blocks of a file\<close>

text \<open>\<open>rd32\<close> reads a number into \<open>r\<close>: bytes that are not transferred keep what \<open>r\<close> held. \<open>None\<close> inside is an error.\<close>

definition rd32 :: "io_env \<Rightarrow> nat \<Rightarrow> nat \<Rightarrow> ext2 \<Rightarrow> (nat option \<times> ext2) option" where
  "rd32 io r pos fs =
     do { (res, out, fs) \<leftarrow> vread io pos 4 fs;
          Some (if res < 0 then None else Some (le_dec (out @ drop (length out) (le_enc 4 r))), fs) }"

definition bpb :: "ext2 \<Rightarrow> nat" where
  "bpb fs = bsize fs div 4"

definition square :: "ext2 \<Rightarrow> nat" where
  "square fs = u32 (bpb fs * bpb fs)"

definition cube :: "ext2 \<Rightarrow> nat" where
  "cube fs = u32 (square fs * bpb fs)"

(* src/kernel/ext2/ext2.cpp:457-500 EXT2::getINodeBlock *)
definition getINodeBlock :: "io_env \<Rightarrow> FSINode \<Rightarrow> nat \<Rightarrow> ext2 \<Rightarrow> (nat \<times> ext2) option" where
  "getINodeBlock io ino n fs =
     (let ib = i_block (Data ino); bs = bsize fs in
      if n < 12 then Some (ib ! n, fs)
      else if n < u32 (12 + bpb fs) then
        do { (r, fs) \<leftarrow> rd32 io 0 (4 * (n - 12) + bs * ib ! 12) fs;
             Some (case r of None \<Rightarrow> 0 | Some r \<Rightarrow> r, fs) }
      else if n < u32 (12 + square fs) then
        let diff = n - (12 + bpb fs) in
        do { (r, fs) \<leftarrow> rd32 io 0 (4 * (diff div bpb fs) + bs * ib ! 13) fs;
             case r of None \<Rightarrow> Some (0, fs)
             | Some r \<Rightarrow>
                 do { (r, fs) \<leftarrow> rd32 io r (4 * (diff mod bpb fs) + bs * r) fs;
                      Some (case r of None \<Rightarrow> 0 | Some r \<Rightarrow> r, fs) } }
      else if n < u32 (12 + cube fs) then
        let diff = n - (12 + square fs) in
        do { (r, fs) \<leftarrow> rd32 io 0 (4 * (diff div square fs) + bs * ib ! 14) fs;
             case r of None \<Rightarrow> Some (0, fs)
             | Some r \<Rightarrow>
                 do { (r, fs) \<leftarrow> rd32 io r (4 * ((diff mod square fs) div bpb fs) + bs * r) fs;
                      case r of None \<Rightarrow> Some (0, fs)
                      | Some r \<Rightarrow>
                          do { (r, fs) \<leftarrow> rd32 io r (4 * (diff div bpb fs) + bs * r) fs;
                               Some (case r of None \<Rightarrow> 0 | Some r \<Rightarrow> r, fs) } } }
      else Some (0, fs))"

text \<open>Every turn of the loop reads the first 16 bytes of the block.\<close>

(* src/kernel/ext2/ext2.cpp:505-511 EXT2::isBlockZeroed, loop *)
fun isBlockZeroed_loop :: "io_env \<Rightarrow> nat \<Rightarrow> nat \<Rightarrow> ext2 \<Rightarrow> (bool \<times> ext2) option" where
  "isBlockZeroed_loop io block 0 fs = Some (True, fs)"
| "isBlockZeroed_loop io block (Suc k) fs =
     do { (r, out, fs) \<leftarrow> vread io (u32 (bsize fs * block)) 16 fs;
          if r \<noteq> 16 then Some (False, fs)
          else if out \<noteq> take 16 (blockOfZeros fs) then Some (False, fs)
          else isBlockZeroed_loop io block k fs }"

(* src/kernel/ext2/ext2.cpp:502-513 EXT2::isBlockZeroed *)
definition isBlockZeroed :: "io_env \<Rightarrow> nat \<Rightarrow> ext2 \<Rightarrow> (bool \<times> ext2) option" where
  "isBlockZeroed io block fs = isBlockZeroed_loop io block ((bsize fs + 15) div 16) fs"

(* src/kernel/ext2/ext2.cpp:696-701 EXT2::zeroBlock *)
definition zeroBlock :: "io_env \<Rightarrow> nat \<Rightarrow> ext2 \<Rightarrow> (bool \<times> ext2) option" where
  "zeroBlock io block fs =
     do { (r, fs) \<leftarrow> vwrite io (blockOfZeros fs) (bsize fs * block) (bsize fs) fs; Some (r = int (bsize fs), fs) }"

text \<open>A new zeroed block for pointers, 0 for none.\<close>

(* src/kernel/ext2/ext2.cpp:530-536 EXT2::setINodeBlock, new indirect block *)
definition fresh_block :: "io_env \<Rightarrow> ext2 \<Rightarrow> (nat \<times> ext2) option" where
  "fresh_block io fs =
     do { (l, fs) \<leftarrow> allocBlock io U32_MAX fs;
          if l = 0 then Some (0, fs)
          else do { (z, fs) \<leftarrow> zeroBlock io l fs;
                    if \<not> z then do { (_, fs) \<leftarrow> freeBlock io l fs; Some (0, fs) } else Some (l, fs) } }"

text \<open>The first indirect block of level \<open>k\<close> (12, 13 or 14), allocated if there is none; \<open>False\<close> if that fails.\<close>

(* src/kernel/ext2/ext2.cpp:528-539 EXT2::setINodeBlock, first level *)
definition first_level :: "io_env \<Rightarrow> nat \<Rightarrow> FSINode \<Rightarrow> ext2 \<Rightarrow> (bool \<times> FSINode \<times> ext2) option" where
  "first_level io k ino fs =
     (if i_block (Data ino) ! k \<noteq> 0 then Some (True, ino, fs)
      else do { (l, fs) \<leftarrow> fresh_block io fs;
                Some (if l = 0 then (False, ino, fs) else (True, upd_data (\<lambda>d. d\<lparr>i_block := (i_block d)[k := l]\<rparr>) ino, fs)) })"

text \<open>The block of pointers at \<open>pos\<close>, allocated if there is none: the number, 0 for a failure, and whether it is new.\<close>

(* src/kernel/ext2/ext2.cpp:570-588 EXT2::setINodeBlock, next level *)
definition next_level :: "io_env \<Rightarrow> nat \<Rightarrow> nat \<Rightarrow> ext2 \<Rightarrow> (nat \<times> bool \<times> ext2) option" where
  "next_level io r0 pos fs =
     do { (r, fs) \<leftarrow> rd32 io r0 pos fs;
          case r of
            None \<Rightarrow> Some (0, False, fs)
          | Some r \<Rightarrow>
              if r \<noteq> 0 then Some (r, False, fs)
              else do { (l, fs) \<leftarrow> fresh_block io fs;
                        if l = 0 then Some (0, False, fs)
                        else do { (res, fs) \<leftarrow> vwrite io (le_enc 4 l) pos 4 fs;
                                  if res < 0 then do { (_, fs) \<leftarrow> freeBlock io l fs; Some (0, False, fs) }
                                  else Some (l, True, fs) } } }"

text \<open>A block that looks zeroed is freed and its pointer at \<open>pos\<close> cleared; \<open>False\<close> if that fails.\<close>

(* src/kernel/ext2/ext2.cpp:593-598 EXT2::setINodeBlock, unused indirect block *)
definition drop_level :: "io_env \<Rightarrow> nat \<Rightarrow> nat \<Rightarrow> ext2 \<Rightarrow> (bool \<times> ext2) option" where
  "drop_level io r pos fs =
     do { (z, fs) \<leftarrow> isBlockZeroed io r fs;
          if \<not> z then Some (True, fs)
          else do { (_, fs) \<leftarrow> freeBlock io r fs;
                    (res, fs) \<leftarrow> vwrite io (blockOfZeros fs) pos 4 fs;
                    Some (\<not> res < 0, fs) } }"

(* src/kernel/ext2/ext2.cpp:599-604 EXT2::setINodeBlock, unused first level *)
definition drop_first :: "io_env \<Rightarrow> nat \<Rightarrow> FSINode \<Rightarrow> ext2 \<Rightarrow> (bool \<times> FSINode \<times> ext2) option" where
  "drop_first io k ino fs =
     do { (z, fs) \<leftarrow> isBlockZeroed io (i_block (Data ino) ! k) fs;
          if \<not> z then Some (True, ino, fs)
          else do { (_, fs) \<leftarrow> freeBlock io (i_block (Data ino) ! k) fs;
                    Some (True, ino\<lparr>Data := (Data ino)\<lparr>i_block := (i_block (Data ino))[k := 0]\<rparr>\<rparr>, fs) } }"

(* src/kernel/ext2/ext2.cpp:527-550 EXT2::setINodeBlock, singly indirect *)
definition set_single :: "io_env \<Rightarrow> FSINode \<Rightarrow> nat \<Rightarrow> nat \<Rightarrow> ext2 \<Rightarrow> (bool \<times> FSINode \<times> ext2) option" where
  "set_single io ino n block fs =
     do { (ok, ino, fs) \<leftarrow> first_level io 12 ino fs;
          if \<not> ok then Some (False, ino, fs)
          else do { (res, fs) \<leftarrow> vwrite io (le_enc 4 block) (4 * (n - 12) + bsize fs * i_block (Data ino) ! 12) 4 fs;
                    if res < 0 then Some (False, ino, fs) else drop_first io 12 ino fs } }"

(* src/kernel/ext2/ext2.cpp:552-605 EXT2::setINodeBlock, doubly indirect *)
definition set_double :: "io_env \<Rightarrow> FSINode \<Rightarrow> nat \<Rightarrow> nat \<Rightarrow> ext2 \<Rightarrow> (bool \<times> FSINode \<times> ext2) option" where
  "set_double io ino n block fs =
     do { (ok, ino, fs) \<leftarrow> first_level io 13 ino fs;
          if \<not> ok then Some (False, ino, fs)
          else
            let diff = n - (12 + bpb fs); l1 = 4 * (diff div bpb fs) + bsize fs * i_block (Data ino) ! 13 in
            do { (r, _, fs) \<leftarrow> next_level io 0 l1 fs;
                 if r = 0 then Some (False, ino, fs)
                 else do { (res, fs) \<leftarrow> vwrite io (le_enc 4 block) (4 * (diff mod bpb fs) + bsize fs * r) 4 fs;
                           if res < 0 then Some (False, ino, fs)
                           else do { (ok, fs) \<leftarrow> drop_level io r l1 fs;
                                     if \<not> ok then Some (False, ino, fs) else drop_first io 13 ino fs } } } }"

text \<open>The third level looks at the blocks that were newly allocated, block 0 where none was.\<close>

(* src/kernel/ext2/ext2.cpp:607-692 EXT2::setINodeBlock, triply indirect *)
definition set_triple :: "io_env \<Rightarrow> FSINode \<Rightarrow> nat \<Rightarrow> nat \<Rightarrow> ext2 \<Rightarrow> (bool \<times> FSINode \<times> ext2) option" where
  "set_triple io ino n block fs =
     do { (ok, ino, fs) \<leftarrow> first_level io 14 ino fs;
          if \<not> ok then Some (False, ino, fs)
          else
            let diff = n - (12 + square fs); l1offs = 4 * (diff div square fs); l1 = l1offs + bsize fs * i_block (Data ino) ! 14;
                l2offs = 4 * ((diff mod square fs) div bpb fs) in
            do { (r2, new2, fs) \<leftarrow> next_level io 0 l1 fs;
                 if r2 = 0 then Some (False, ino, fs)
                 else do { (r, new3, fs) \<leftarrow> next_level io r2 (l2offs + bsize fs * r2) fs;
                           if r = 0 then Some (False, ino, fs)
                           else
                             let l2Blk = (if new2 then r2 else 0); l3Blk = (if new3 then r else 0) in
                             do { (res, fs) \<leftarrow> vwrite io (le_enc 4 block) (4 * (diff div bpb fs) + bsize fs * r) 4 fs;
                                  if res < 0 then Some (False, ino, fs)
                                  else do { (ok, fs) \<leftarrow> drop_level io l3Blk (l2offs + bsize fs * l2Blk) fs;
                                            if \<not> ok then Some (False, ino, fs)
                                            else do { (ok, fs) \<leftarrow> drop_level io l2Blk l1 fs;
                                                      if \<not> ok then Some (False, ino, fs) else drop_first io 14 ino fs } } } } } }"

(* src/kernel/ext2/ext2.cpp:515-694 EXT2::setINodeBlock *)
definition setINodeBlock :: "io_env \<Rightarrow> FSINode \<Rightarrow> nat \<Rightarrow> nat \<Rightarrow> ext2 \<Rightarrow> (bool \<times> FSINode \<times> ext2) option" where
  "setINodeBlock io ino n block fs =
     (if n < 12 then Some (True, upd_data (\<lambda>d. d\<lparr>i_block := (i_block d)[n := block]\<rparr>) ino, fs)
      else if n < u32 (12 + bpb fs) then set_single io ino n block fs
      else if n < u32 (12 + square fs) then set_double io ino n block fs
      else if n < u32 (12 + cube fs) then set_triple io ino n block fs
      else Some (False, ino, fs))"

section \<open>Reading, resizing and writing\<close>

text \<open>The loop returns the error or the bytes left, and the bytes read.\<close>

(* src/kernel/ext2/ext2.cpp:379-400 EXT2::read, loop *)
function read_loop :: "io_env \<Rightarrow> nat \<Rightarrow> nat \<Rightarrow> FSINode \<Rightarrow> ext2 \<Rightarrow> ((int + nat) \<times> byte list \<times> FSINode \<times> ext2) option" where
  "read_loop io bytesLeft position ino fs =
     (let bs = bsize fs; inBlockOffset = position mod bs; k = min bytesLeft (bs - inBlockOffset) in
      if bytesLeft = 0 then Some (Inr 0, [], ino, fs)
      else if k = 0 then None
      else
        do { (blockIdx, fs) \<leftarrow> getINodeBlock io ino (u32 (position div bs)) fs;
             if blockIdx = 0 then Some (Inr bytesLeft, [], ino, fs)
             else
               do { (bytesRead, out, fs) \<leftarrow> vread io (blockIdx * bs + inBlockOffset) k fs;
                    if bytesRead < 0 then Some (Inl bytesRead, out, ino, fs)
                    else
                      let ino = SetAccessTime (now io) ino in
                      if bytesRead \<noteq> int k then Some (Inr (bytesLeft - nat bytesRead), out, ino, fs)
                      else do { (r, rest, ino, fs) \<leftarrow> read_loop io (bytesLeft - k) (position + k) ino fs;
                                Some (r, out @ rest, ino, fs) } } })"
  by pat_completeness auto
termination by (relation "measure (\<lambda>(_, n, _). n)") auto

declare read_loop.simps [simp del]

(* src/kernel/ext2/ext2.cpp:370-401 EXT2::read *)
definition ext2_read :: "io_env \<Rightarrow> nat \<Rightarrow> nat \<Rightarrow> FSINode \<Rightarrow> ext2 \<Rightarrow> (int \<times> byte list \<times> FSINode \<times> ext2) option" where
  "ext2_read io position n ino fs =
     (let sz = GetSize fs ino; n = (if position + n > sz then sz - position else n) in
      if n = 0 then Some (0, [], ino, fs)
      else do { (r, out, ino, fs) \<leftarrow> read_loop io n position ino fs;
                Some (case r of Inl err \<Rightarrow> err | Inr left \<Rightarrow> int n - int left, out, ino, fs) })"

text \<open>
  Writing and growing share this: the block of the file that is written, allocated if there is none (0 when that
  fails), and the account after a transfer.
\<close>

(* src/kernel/ext2/ext2.cpp:420-435 EXT2::write, block *)
definition block_for :: "io_env \<Rightarrow> nat \<Rightarrow> nat \<Rightarrow> FSINode \<Rightarrow> ext2 \<Rightarrow> (nat \<times> FSINode \<times> ext2) option" where
  "block_for io blockNum bytesLeft ino fs =
     do { (blockIdx, fs) \<leftarrow> getINodeBlock io ino (u32 blockNum) fs;
          if blockIdx \<noteq> 0 then Some (blockIdx, ino, fs)
          else
            do { (blockIdx, fs) \<leftarrow> allocBlock io U32_MAX fs;
                 if blockIdx = 0 then Some (0, ino, fs)
                 else
                   do { (ok, ino, fs) \<leftarrow> setINodeBlock io ino (u32 blockNum) blockIdx fs;
                        if \<not> ok then do { (_, fs) \<leftarrow> freeBlock io blockIdx fs; Some (0, ino, fs) }
                        else
                          let ino = setSize (min ((blockNum + 1) * bsize fs) (i_size (Data ino) + bytesLeft)) fs ino in
                          Some (blockIdx, upd_data (\<lambda>d. d\<lparr>i_blocks := u32 (i_blocks d + align (bsize fs) 512 div 512)\<rparr>) ino, fs) } } }"

(* src/kernel/ext2/ext2.cpp:443-448 EXT2::write, account *)
definition after_write :: "io_env \<Rightarrow> nat \<Rightarrow> FSINode \<Rightarrow> ext2 \<Rightarrow> FSINode \<times> ext2" where
  "after_write io position ino fs =
     (let ino = SetModifyTime (now io) ino; fs = upd_sb (\<lambda>s. s\<lparr>s_wtime := now io\<rparr>) fs in
      (setSize (max position (GetSize fs ino)) fs ino, fs))"

(* src/kernel/ext2/ext2.cpp:416-454 EXT2::write, loop *)
function write_loop :: "io_env \<Rightarrow> byte list \<Rightarrow> nat \<Rightarrow> nat \<Rightarrow> FSINode \<Rightarrow> ext2 \<Rightarrow> ((int + nat) \<times> FSINode \<times> ext2) option" where
  "write_loop io buf bytesLeft position ino fs =
     (let bs = bsize fs; inBlockOffset = position mod bs; k = min bytesLeft (bs - inBlockOffset) in
      if bytesLeft = 0 then Some (Inr 0, ino, fs)
      else if k = 0 then None
      else
        do { (blockIdx, ino, fs) \<leftarrow> block_for io (position div bs) bytesLeft ino fs;
             if blockIdx = 0 then Some (Inr bytesLeft, ino, fs)
             else
               do { (bytesWritten, fs) \<leftarrow> vwrite io buf (blockIdx * bs + inBlockOffset) k fs;
                    if bytesWritten < 0 then Some (Inl bytesWritten, ino, fs)
                    else
                      case after_write io (position + nat bytesWritten) ino fs of (ino, fs) \<Rightarrow>
                      if bytesWritten \<noteq> int k then Some (Inr (bytesLeft - nat bytesWritten), ino, fs)
                      else write_loop io (drop k buf) (bytesLeft - k) (position + k) ino fs } })"
  by pat_completeness auto
termination by (relation "measure (\<lambda>(_, _, n, _). n)") auto

declare write_loop.simps [simp del]

(* src/kernel/ext2/ext2.cpp:1141-1176 EXT2::FSINode::Resize, grow *)
function grow_loop :: "io_env \<Rightarrow> nat \<Rightarrow> nat \<Rightarrow> FSINode \<Rightarrow> ext2 \<Rightarrow> ((int + unit) \<times> FSINode \<times> ext2) option" where
  "grow_loop io bytesLeft curPos ino fs =
     (let bs = bsize fs; inBlockOffset = curPos mod bs; k = min bytesLeft (bs - inBlockOffset) in
      if bytesLeft = 0 then Some (Inr (), ino, fs)
      else if k = 0 then None
      else
        do { (blockIdx, ino, fs) \<leftarrow> block_for io (curPos div bs) bytesLeft ino fs;
             if blockIdx = 0 then Some (Inr (), ino, fs)
             else
               do { (bytesWritten, fs) \<leftarrow> vwrite io (blockOfZeros fs) (blockIdx * bs + inBlockOffset) k fs;
                    if bytesWritten < 0 then Some (Inl bytesWritten, ino, fs)
                    else
                      case after_write io (curPos + nat bytesWritten) ino fs of (ino, fs) \<Rightarrow>
                      if bytesWritten \<noteq> int k then Some (Inl (- EIO), ino, fs)
                      else grow_loop io (bytesLeft - k) (curPos + k) ino fs } })"
  by pat_completeness auto
termination by (relation "measure (\<lambda>(_, n, _). n)") auto

declare grow_loop.simps [simp del]

(* src/kernel/ext2/ext2.cpp:1123-1135 EXT2::FSINode::Resize, shrink *)
fun shrink_loop :: "io_env \<Rightarrow> nat list \<Rightarrow> FSINode \<Rightarrow> ext2 \<Rightarrow> (bool \<times> FSINode \<times> ext2) option" where
  "shrink_loop io [] ino fs = Some (True, ino, fs)"
| "shrink_loop io (blk # blks) ino fs =
     do { (blkIdx, fs) \<leftarrow> getINodeBlock io ino blk fs;
          if blkIdx = 0 then Some (False, ino, fs)
          else do { (_, fs) \<leftarrow> freeBlock io blkIdx fs;
                    (_, ino, fs) \<leftarrow> setINodeBlock io ino blk 0 fs;
                    shrink_loop io blks ino fs } }"

(* src/kernel/ext2/ext2.cpp:1113-1180 EXT2::FSINode::Resize *)
definition Resize :: "io_env \<Rightarrow> nat \<Rightarrow> FSINode \<Rightarrow> ext2 \<Rightarrow> (int \<times> FSINode \<times> ext2) option" where
  "Resize io sz ino fs =
     (let currentSize = u32 (GetSize fs ino); bs = bsize fs in
      if sz < currentSize then
        do { (ok, ino, fs) \<leftarrow> shrink_loop io [u32 ((sz + bs - 1) div bs)..<align currentSize bs div bs] ino fs;
             if \<not> ok then Some (- EIO, ino, fs)
             else
               let ino = setSize sz fs (ino\<lparr>Data := (Data ino)\<lparr>i_blocks := u32 ((sz + 511) div 512)\<rparr>\<rparr>) in
               Some (int (u32 (GetSize fs ino)), ino, fs) }
      else
        do { (r, ino, fs) \<leftarrow> grow_loop io (sz - currentSize) currentSize ino fs;
             Some (case r of Inl err \<Rightarrow> err | Inr _ \<Rightarrow> int (u32 (GetSize fs ino)), ino, fs) })"

(* src/kernel/ext2/ext2.cpp:403-455 EXT2::write *)
definition ext2_write :: "io_env \<Rightarrow> byte list \<Rightarrow> nat \<Rightarrow> nat \<Rightarrow> FSINode \<Rightarrow> ext2 \<Rightarrow> (int \<times> FSINode \<times> ext2) option" where
  "ext2_write io buf position n ino fs =
     do { (newSize, ino, fs) \<leftarrow> (if position > GetSize fs ino then Resize io position ino fs else Some (0, ino, fs));
          if newSize < 0 then Some (newSize, ino, fs)
          else do { (r, ino, fs) \<leftarrow> write_loop io buf n position ino fs;
                    Some (case r of Inl err \<Rightarrow> err | Inr left \<Rightarrow> int n - int left, ino, fs) } }"

section \<open>Blocks and their bytes\<close>

definition plain :: "ext2 \<Rightarrow> nat \<Rightarrow> bool" where
  "plain fs blk \<longleftrightarrow> (blk + 1) * bsize fs \<le> flimit fs \<and> (\<forall>a < bsize fs. \<not> meta fs (blk * bsize fs + a))"

lemma data_block_plain: "data_block fs blk \<longleftrightarrow> 1 \<le> blk \<and> blk \<le> blockGroupCount fs * bpg fs \<and> plain fs blk"
  by (simp add: data_block_def plain_def)

text \<open>The file system stays well-formed and no byte changes but those of metadata and of the blocks \<open>X\<close>.\<close>

definition keeps :: "nat set \<Rightarrow> ext2 \<Rightarrow> ext2 \<Rightarrow> bool" where
  "keeps X fs fs' \<longleftrightarrow> fs_ok fs' \<and> geo fs' = geo fs \<and>
     (\<forall>blk a. plain fs blk \<longrightarrow> blk \<notin> X \<longrightarrow> a < bsize fs \<longrightarrow> fbytes fs' (blk * bsize fs + a) = fbytes fs (blk * bsize fs + a))"

lemma keepsD:
  assumes "keeps X fs fs'"
  shows "fs_ok fs'" "geo fs' = geo fs" "plain fs blk \<Longrightarrow> blk \<notin> X \<Longrightarrow> a < bsize fs \<Longrightarrow> fbytes fs' (blk * bsize fs + a) = fbytes fs (blk * bsize fs + a)"
  using assms unfolding keeps_def by blast+

lemma keeps_refl: "fs_ok fs \<Longrightarrow> keeps X fs fs"
  by (simp add: keeps_def)

lemma fs_step_keeps: "fs_step fs fs' \<Longrightarrow> keeps {} fs fs'"
  unfolding keeps_def fs_step_def plain_def by blast

lemma keeps_geo:
  assumes "fs_ok fs" "geo fs' = geo fs"
  shows "plain fs' = plain fs" "data_block fs' = data_block fs" "bpb fs' = bpb fs"
proof -
  note L = geo_okD(9) [OF fs_okD(2) [OF assms(1)]] and S = geo_simps [OF assms(2)]
  show "plain fs' = plain fs" using geo_regions(1) [OF assms(2) L] by (simp add: plain_def S fun_eq_iff)
  show "data_block fs' = data_block fs" by (rule geo_regions(2) [OF assms(2) L])
  show "bpb fs' = bpb fs" by (simp add: bpb_def S)
qed

lemma keeps_trans:
  assumes ok: "fs_ok fs" and k: "keeps X fs fs'" "keeps Y fs' fs''"
  shows "keeps (X \<union> Y) fs fs''"
proof -
  note K = keepsD [OF k(1)] keepsD [OF k(2)]
  note P = keeps_geo(1) [OF ok K(2)] and S = geo_simps(1) [OF K(2)]
  show ?thesis unfolding keeps_def
  proof (intro conjI allI impI)
    fix blk a assume a: "plain fs blk" "blk \<notin> X \<union> Y" "a < bsize fs"
    then show "fbytes fs'' (blk * bsize fs + a) = fbytes fs (blk * bsize fs + a)" using K(3) [of blk a] K(6) [of blk a] P S by simp
  qed (use K in auto)
qed

lemma keeps_mono: "keeps X fs fs' \<Longrightarrow> X \<subseteq> Y \<Longrightarrow> keeps Y fs fs'"
  unfolding keeps_def by blast

text \<open>Changes outside the metadata keep the layout.\<close>

lemma meta_kept:
  assumes ok: "fs_ok fs" and pv: "part_ok (fvol fs')" and geo: "geo fs' = geo fs"
    and cnt: "map bg_free_blocks_count (BGDT fs') = map bg_free_blocks_count (BGDT fs)"
    and B: "\<And>a. meta fs a \<Longrightarrow> fbytes fs' a = fbytes fs a"
  shows "fs_ok fs'" "free_blocks fs' = free_blocks fs"
proof -
  note D = fs_okD [OF ok] and S = geo_simps [OF geo]
  note G = geo_okD [OF D(2)]
  have bit: "group_bit fs' g i = group_bit fs g i" if "g < blockGroupCount fs" "i < bpg fs" for g i
    using bitmap_at_geo [OF geo] G(9) that(1) B [of "bitmap_at fs g + i div 8"] bitmap_byte(2) [OF D(2) that]
    by (simp add: group_bit_def meta_def)
  have gf: "group_free fs' g = group_free fs g" if "g < blockGroupCount fs" for g
    using bit [OF that] by (auto simp: group_free_def S)
  show fr: "free_blocks fs' = free_blocks fs" using gf by (auto simp: free_blocks_iff S set_eq_iff)
  have "bg_free_blocks_count (BGDT fs' ! g) = bg_free_blocks_count (BGDT fs ! g)" if "g < blockGroupCount fs" for g
    using arg_cong [OF cnt, of "\<lambda>l. l ! g"] that G(9) S(4) by simp
  then show "fs_ok fs'" using pv D gf fr S by (simp add: fs_ok_def geo_regions [OF geo G(9)])
qed

lemma volume_changed:
  assumes "vol_is v B (flimit fs)"
  shows "geo (fs\<lparr>fvol := v\<rparr>) = geo fs" "fbytes (fs\<lparr>fvol := v\<rparr>) = B" "part_ok v"
  using assms by (simp_all add: geo_def vol_is_def)

lemma same_volume:
  assumes "fs_ok fs" "vol_is v (fbytes fs) (flimit fs)"
  shows "fs_ok (fs\<lparr>fvol := v\<rparr>)" "free_blocks (fs\<lparr>fvol := v\<rparr>) = free_blocks fs" "keeps {} fs (fs\<lparr>fvol := v\<rparr>)"
proof -
  note V = volume_changed [OF assms(2)]
  show "fs_ok (fs\<lparr>fvol := v\<rparr>)" "free_blocks (fs\<lparr>fvol := v\<rparr>) = free_blocks fs"
    by (rule meta_kept [OF assms(1) _ V(1)]; use V(2,3) in simp)+
  then show "keeps {} fs (fs\<lparr>fvol := v\<rparr>)" using V(1,2) by (simp add: keeps_def)
qed

text \<open>A byte of a block determines the block.\<close>

lemma block_addr: "(a::nat) < n \<Longrightarrow> blk * n \<le> blk' * n + a \<and> blk' * n + a < blk * n + n \<Longrightarrow> blk = blk'"
  using block_disjoint [of a n blk blk'] by blast

lemma write_block:
  assumes io: "io_good io" and ok: "fs_ok fs" and p: "plain fs blk" and o: "o' + n \<le> bsize fs" "n \<le> length w"
  obtains v where "vwrite io w (blk * bsize fs + o') n fs = Some (int n, fs\<lparr>fvol := v\<rparr>)"
    "keeps {blk} fs (fs\<lparr>fvol := v\<rparr>)" "free_blocks (fs\<lparr>fvol := v\<rparr>) = free_blocks fs"
    "\<And>a. a < bsize fs \<Longrightarrow> fbytes (fs\<lparr>fvol := v\<rparr>) (blk * bsize fs + a) = (if o' \<le> a \<and> a < o' + n then w ! (a - o') else fbytes fs (blk * bsize fs + a))"
proof -
  note D = fs_okD [OF ok]
  let ?p = "blk * bsize fs + o'"
  have "?p + n \<le> flimit fs" using p o(1) by (simp add: plain_def)
  then obtain v where v: "vwrite io w ?p n fs = Some (int n, fs\<lparr>fvol := v\<rparr>)" "vol_is v (to_disk ?p n (nth w) (fbytes fs)) (flimit fs)"
    using vwrite_ok [OF io D(5) _ o(2)] by blast
  note V = volume_changed [OF v(2)]
  have out: "fbytes (fs\<lparr>fvol := v\<rparr>) a = fbytes fs a" if "\<not> (blk * bsize fs \<le> a \<and> a < blk * bsize fs + bsize fs)" for a
    using that o(1) unfolding V(2) by (auto simp: to_disk_def)
  have m: "fbytes (fs\<lparr>fvol := v\<rparr>) a = fbytes fs a" if "meta fs a" for a
  proof (rule out)
    show "\<not> (blk * bsize fs \<le> a \<and> a < blk * bsize fs + bsize fs)"
    proof
      assume a: "blk * bsize fs \<le> a \<and> a < blk * bsize fs + bsize fs"
      then have "\<not> meta fs (blk * bsize fs + (a - blk * bsize fs))" using p unfolding plain_def by (metis add_diff_inverse_nat not_less nat_add_left_cancel_less)
      then show False using a that by simp
    qed
  qed
  have ok': "fs_ok (fs\<lparr>fvol := v\<rparr>)" and fr: "free_blocks (fs\<lparr>fvol := v\<rparr>) = free_blocks fs"
    by (rule meta_kept [OF ok _ V(1)]; use V(3) m in simp)+
  have "keeps {blk} fs (fs\<lparr>fvol := v\<rparr>)" unfolding keeps_def
  proof (intro conjI allI impI)
    fix b a assume a: "plain fs b" "b \<notin> {blk}" "a < bsize fs"
    then have "\<not> (blk * bsize fs \<le> b * bsize fs + a \<and> b * bsize fs + a < blk * bsize fs + bsize fs)" using block_disjoint [of a "bsize fs" blk b] by auto
    then show "fbytes (fs\<lparr>fvol := v\<rparr>) (b * bsize fs + a) = fbytes fs (b * bsize fs + a)" by (rule out)
  qed (use ok' V(1) in auto)
  moreover have "fbytes (fs\<lparr>fvol := v\<rparr>) (blk * bsize fs + a) = (if o' \<le> a \<and> a < o' + n then w ! (a - o') else fbytes fs (blk * bsize fs + a))"
    if "a < bsize fs" for a unfolding V(2) by (auto simp: to_disk_def)
  ultimately show thesis by (rule that [OF v(1) _ fr])
qed

lemma read_block:
  assumes io: "io_good io" and ok: "fs_ok fs" and p: "(blk + 1) * bsize fs \<le> flimit fs" and o: "o' + n \<le> bsize fs"
  obtains v where "vread io (blk * bsize fs + o') n fs = Some (int n, map (\<lambda>a. fbytes fs (blk * bsize fs + a)) [o'..<o' + n], fs\<lparr>fvol := v\<rparr>)"
    "vol_is v (fbytes fs) (flimit fs)"
proof -
  let ?p = "blk * bsize fs + o'"
  have "?p + n \<le> flimit fs" using p o(1) by simp
  then obtain v where v: "vread io ?p n fs = Some (int n, map (fbytes fs) [?p..<?p + n], fs\<lparr>fvol := v\<rparr>)" "vol_is v (fbytes fs) (flimit fs)"
    using vread_ok [OF io fs_okD(5) [OF ok]] by blast
  moreover have "map (fbytes fs) [?p..<?p + n] = map (\<lambda>a. fbytes fs (blk * bsize fs + a)) [o'..<o' + n]"
    by (intro nth_equalityI) (auto simp: ac_simps)
  ultimately show thesis using that by simp
qed

section \<open>Files\<close>

text \<open>
  The block of the volume that holds block \<open>n\<close> of a file, for files of direct and singly indirect blocks. Where there
  is no indirect block the code takes the pointers from block 0.
\<close>

definition ptr :: "ext2 \<Rightarrow> nat \<Rightarrow> nat \<Rightarrow> nat" where
  "ptr fs blk e = le_dec (map (\<lambda>a. fbytes fs (blk * bsize fs + a)) [4 * e..<4 * e + 4])"

definition bmap :: "ext2 \<Rightarrow> FSINode \<Rightarrow> nat \<Rightarrow> nat" where
  "bmap fs ino n = (if n < 12 then i_block (Data ino) ! n else ptr fs (i_block (Data ino) ! 12) (n - 12))"

definition fblocks :: "ext2 \<Rightarrow> FSINode \<Rightarrow> nat" where
  "fblocks fs ino = (GetSize fs ino + bsize fs - 1) div bsize fs"

definition file_blocks :: "ext2 \<Rightarrow> FSINode \<Rightarrow> nat set" where
  "file_blocks fs ino = bmap fs ino ` {..<fblocks fs ino} \<union> ({i_block (Data ino) ! 12} - {0})"

text \<open>
  A file without holes: its blocks are allocated blocks for data, all different, and there is no pointer behind its
  end. The size is one that the direct and the singly indirect blocks can hold. Without an indirect block \<open>getINodeBlock\<close>
  reads the pointers from block 0 of the volume (\<open>ext2.cpp:465-470\<close>), so these have to be 0 as well.
\<close>

definition file_ok :: "ext2 \<Rightarrow> FSINode \<Rightarrow> bool" where
  "file_ok fs ino \<longleftrightarrow> length (i_block (Data ino)) = 15 \<and> GetSize fs ino = i_size (Data ino) \<and> GetSize fs ino \<le> (12 + bpb fs) * bsize fs \<and> plain fs 0 \<and>
     (\<forall>blk \<in> file_blocks fs ino. data_block fs blk \<and> blk \<notin> free_blocks fs) \<and>
     (\<forall>n. fblocks fs ino \<le> n \<and> n < 12 + bpb fs \<longrightarrow> bmap fs ino n = 0) \<and>
     inj_on (bmap fs ino) {..<fblocks fs ino} \<and>
     (\<forall>n < fblocks fs ino. bmap fs ino n \<noteq> i_block (Data ino) ! 12) \<and>
     (12 < fblocks fs ino \<longrightarrow> i_block (Data ino) ! 12 \<noteq> 0)"

lemma file_okD:
  assumes "file_ok fs ino"
  shows "length (i_block (Data ino)) = 15" "GetSize fs ino = i_size (Data ino)" "GetSize fs ino \<le> (12 + bpb fs) * bsize fs" "plain fs 0"
    "n < fblocks fs ino \<Longrightarrow> data_block fs (bmap fs ino n) \<and> bmap fs ino n \<notin> free_blocks fs \<and> bmap fs ino n \<noteq> i_block (Data ino) ! 12"
    "i_block (Data ino) ! 12 \<noteq> 0 \<Longrightarrow> data_block fs (i_block (Data ino) ! 12) \<and> i_block (Data ino) ! 12 \<notin> free_blocks fs"
    "fblocks fs ino \<le> n \<Longrightarrow> n < 12 + bpb fs \<Longrightarrow> bmap fs ino n = 0"
    "m < fblocks fs ino \<Longrightarrow> n < fblocks fs ino \<Longrightarrow> bmap fs ino m = bmap fs ino n \<Longrightarrow> m = n"
    "12 < fblocks fs ino \<Longrightarrow> i_block (Data ino) ! 12 \<noteq> 0"
  using assms unfolding file_ok_def file_blocks_def by (auto dest: inj_onD)

lemma file_okI:
  assumes "length (i_block (Data ino)) = 15" "GetSize fs ino = i_size (Data ino)" "GetSize fs ino \<le> (12 + bpb fs) * bsize fs" "plain fs 0"
    "\<And>n. n < fblocks fs ino \<Longrightarrow> data_block fs (bmap fs ino n) \<and> bmap fs ino n \<notin> free_blocks fs \<and> bmap fs ino n \<noteq> i_block (Data ino) ! 12"
    "i_block (Data ino) ! 12 \<noteq> 0 \<Longrightarrow> data_block fs (i_block (Data ino) ! 12) \<and> i_block (Data ino) ! 12 \<notin> free_blocks fs"
    "\<And>n. fblocks fs ino \<le> n \<Longrightarrow> n < 12 + bpb fs \<Longrightarrow> bmap fs ino n = 0"
    "\<And>m n. m < fblocks fs ino \<Longrightarrow> n < fblocks fs ino \<Longrightarrow> bmap fs ino m = bmap fs ino n \<Longrightarrow> m = n"
    "12 < fblocks fs ino \<Longrightarrow> i_block (Data ino) ! 12 \<noteq> 0"
  shows "file_ok fs ino"
  using assms unfolding file_ok_def file_blocks_def by (auto intro!: inj_onI)

text \<open>How many blocks a size takes.\<close>

lemma ceil_less: "0 < bs \<Longrightarrow> n < (sz + bs - 1) div bs \<longleftrightarrow> n * bs < (sz :: nat)"
  using less_eq_div_iff_mult_less_eq [of bs "Suc n" "sz + bs - 1"] by (auto simp: Suc_le_eq)

lemma bs_pos: "fs_ok fs \<Longrightarrow> 0 < bsize fs" "fs_ok fs \<Longrightarrow> 4 * bpb fs = bsize fs" "fs_ok fs \<Longrightarrow> 0 < bpb fs"
proof -
  assume "fs_ok fs"
  note G = geo_okD [OF fs_okD(2) [OF this]]
  show "0 < bsize fs" using G(2) by simp
  have "4 dvd bsize fs" using G(3) by (rule dvd_trans [rotated]) simp
  then show "4 * bpb fs = bsize fs" by (simp add: bpb_def)
  then show "0 < bpb fs" using G(2) by auto
qed

lemma max_size:
  assumes "fs_ok fs"
  shows "(12 + bpb fs) * bsize fs < 2 ^ 32" "u32 (12 + bpb fs) = 12 + bpb fs"
proof -
  have b: "bsize fs \<le> 65536" "bpb fs \<le> 16384" using geo_okD(4) [OF fs_okD(2) [OF assms]] by (auto simp: bpb_def)
  then have "(12 + bpb fs) * bsize fs \<le> 16396 * 65536" by (intro mult_mono) auto
  then show "(12 + bpb fs) * bsize fs < 2 ^ 32" by simp
  show "u32 (12 + bpb fs) = 12 + bpb fs" using b by (intro u32_small) simp
qed

lemma setSize_simps:
  assumes "sz < 2 ^ 32" "s_rev_level (superBlock fs') = s_rev_level (superBlock fs)"
  shows "GetSize fs' (setSize sz fs ino) = sz" "i_size (Data (setSize sz fs ino)) = sz"
  using assms by (auto simp: GetSize_def setSize_def upd_data_def u32_small Let_def)

lemma setSize_fields [simp]: "i_block (Data (setSize sz fs ino)) = i_block (Data ino)" "Number (setSize sz fs ino) = Number ino"
  by (auto simp: setSize_def upd_data_def)

lemma GetSize_geo: "geo fs' = geo fs \<Longrightarrow> GetSize fs' ino = GetSize fs ino"
  using geo_simps(5) [of fs' fs] by (simp add: GetSize_def)

text \<open>Pointers.\<close>

lemma rd32_ptr:
  assumes io: "io_good io" and ok: "fs_ok fs" and p: "(blk + 1) * bsize fs \<le> flimit fs" and e: "e < bpb fs"
  shows "\<exists>v. rd32 io r (4 * e + bsize fs * blk) fs = Some (Some (ptr fs blk e), fs\<lparr>fvol := v\<rparr>) \<and> vol_is v (fbytes fs) (flimit fs)"
proof -
  have "4 * e + 4 \<le> bsize fs" using e bs_pos(2) [OF ok] by linarith
  then obtain v where "vread io (blk * bsize fs + 4 * e) 4 fs = Some (4, map (\<lambda>a. fbytes fs (blk * bsize fs + a)) [4 * e..<4 * e + 4], fs\<lparr>fvol := v\<rparr>)"
    "vol_is v (fbytes fs) (flimit fs)"
    using read_block [OF io ok p] by (metis of_nat_numeral)
  moreover have e: "4 * e + bsize fs * blk = blk * bsize fs + 4 * e" by simp
  ultimately show ?thesis unfolding rd32_def e by (auto simp: ptr_def simp del: upt_Suc)
qed

lemma ptr_cong: "(\<And>a. 4 * e \<le> a \<Longrightarrow> a < 4 * e + 4 \<Longrightarrow> fbytes fs' (blk * bsize fs + a) = fbytes fs (blk * bsize fs + a)) \<Longrightarrow> bsize fs' = bsize fs \<Longrightarrow> ptr fs' blk e = ptr fs blk e"
  unfolding ptr_def by (intro arg_cong [of _ _ le_dec] map_cong) auto

lemma ptr_kept:
  assumes "fs_ok fs" "keeps X fs fs'" "plain fs blk" "blk \<notin> X" "e < bpb fs"
  shows "ptr fs' blk e = ptr fs blk e"
  using keepsD(3) [OF assms(2-4)] geo_simps(1) [OF keepsD(2) [OF assms(2)]] bs_pos(2) [OF assms(1)] assms(5) by (intro ptr_cong) auto

lemma wr32_ptr:
  assumes io: "io_good io" and ok: "fs_ok fs" and p: "plain fs blk" and e: "e < bpb fs" and x: "x < 2 ^ 32"
  obtains v where "vwrite io (le_enc 4 x) (4 * e + bsize fs * blk) 4 fs = Some (4, fs\<lparr>fvol := v\<rparr>)"
    "keeps {blk} fs (fs\<lparr>fvol := v\<rparr>)" "free_blocks (fs\<lparr>fvol := v\<rparr>) = free_blocks fs"
    "\<And>e'. e' < bpb fs \<Longrightarrow> ptr (fs\<lparr>fvol := v\<rparr>) blk e' = (if e' = e then x else ptr fs blk e')"
proof -
  have b: "4 * e + 4 \<le> bsize fs" using e bs_pos(2) [OF ok] by linarith
  obtain v where v: "vwrite io (le_enc 4 x) (blk * bsize fs + 4 * e) 4 fs = Some (int 4, fs\<lparr>fvol := v\<rparr>)"
    "keeps {blk} fs (fs\<lparr>fvol := v\<rparr>)" "free_blocks (fs\<lparr>fvol := v\<rparr>) = free_blocks fs"
    "\<And>a. a < bsize fs \<Longrightarrow> fbytes (fs\<lparr>fvol := v\<rparr>) (blk * bsize fs + a) =
      (if 4 * e \<le> a \<and> a < 4 * e + 4 then le_enc 4 x ! (a - 4 * e) else fbytes fs (blk * bsize fs + a))"
    by (rule write_block [OF io ok p b, of "le_enc 4 x"]) auto
  have w: "vwrite io (le_enc 4 x) (4 * e + bsize fs * blk) 4 fs = Some (4, fs\<lparr>fvol := v\<rparr>)" using v(1) by (simp add: ac_simps)
  have same: "ptr (fs\<lparr>fvol := v\<rparr>) blk e = x"
  proof -
    have "map (\<lambda>a. fbytes (fs\<lparr>fvol := v\<rparr>) (blk * bsize fs + a)) [4 * e..<4 * e + 4] = le_enc 4 x"
      using v(4) b by (intro nth_equalityI) (auto simp del: upt_Suc ext2.select_convs ext2.simps)
    then have "ptr (fs\<lparr>fvol := v\<rparr>) blk e = x mod 256 ^ 4" by (simp add: ptr_def le_dec_enc del: upt_Suc)
    then show ?thesis using x by simp
  qed
  have other: "ptr (fs\<lparr>fvol := v\<rparr>) blk e' = ptr fs blk e'" if "e' < bpb fs" "e' \<noteq> e" for e'
  proof (rule ptr_cong)
    fix a assume a: "4 * e' \<le> a" "a < 4 * e' + 4"
    have "e' < e \<or> e < e'" using that(2) by auto
    then have "\<not> (4 * e \<le> a \<and> a < 4 * e + 4)" using a by auto
    moreover have "a < bsize fs" using a that(1) bs_pos(2) [OF ok] by linarith
    ultimately show "fbytes (fs\<lparr>fvol := v\<rparr>) (blk * bsize fs + a) = fbytes fs (blk * bsize fs + a)" using v(4) [of a] by auto
  qed simp
  show thesis by (rule that [OF w v(2,3)]) (use same other in auto)
qed

lemma zeroed_ptrs: "(\<forall>e < k. ptr fs blk e = 0) \<longleftrightarrow> (\<forall>a < 4 * k. fbytes fs (blk * bsize fs + a) = 0)"
proof -
  have "ptr fs blk e = 0 \<longleftrightarrow> (\<forall>a. 4 * e \<le> a \<and> a < 4 * e + 4 \<longrightarrow> fbytes fs (blk * bsize fs + a) = 0)" for e
    by (auto simp: ptr_def le_dec_zero)
  then have *: "(\<forall>e < k. ptr fs blk e = 0) \<longleftrightarrow> (\<forall>e < k. \<forall>a. 4 * e \<le> a \<and> a < 4 * e + 4 \<longrightarrow> fbytes fs (blk * bsize fs + a) = 0)" by simp
  show ?thesis unfolding *
  proof (intro iffI allI impI)
    fix a assume A: "\<forall>e < k. \<forall>a. 4 * e \<le> a \<and> a < 4 * e + 4 \<longrightarrow> fbytes fs (blk * bsize fs + a) = 0" and a: "a < 4 * k"
    have "a div 4 < k" "4 * (a div 4) \<le> a \<and> a < 4 * (a div 4) + 4" using a by auto
    then show "fbytes fs (blk * bsize fs + a) = 0" using A by blast
  next
    fix e a assume "\<forall>a < 4 * k. fbytes fs (blk * bsize fs + a) = 0" "e < k" "4 * e \<le> a \<and> a < 4 * e + 4"
    moreover from this have "a < 4 * k" by linarith
    ultimately show "fbytes fs (blk * bsize fs + a) = 0" by blast
  qed
qed

text \<open>Only the first four pointers of a block are looked at.\<close>

lemma isBlockZeroed_spec:
  assumes io: "io_good io" and ok: "fs_ok fs" and p: "(blk + 1) * bsize fs \<le> flimit fs"
  shows "\<exists>v. isBlockZeroed io blk fs = Some (\<forall>e < 4. ptr fs blk e = 0, fs\<lparr>fvol := v\<rparr>) \<and> vol_is v (fbytes fs) (flimit fs)"
proof -
  note G = geo_okD [OF fs_okD(2) [OF ok]]
  have o: "u32 (bsize fs * blk) = blk * bsize fs" using p G(1,2) by (subst u32_small) (auto simp: algebra_simps)
  have z: "map (\<lambda>a. fbytes fs (blk * bsize fs + a)) [0..<16] = take 16 (blockOfZeros fs) \<longleftrightarrow> (\<forall>e < 4. ptr fs blk e = 0)"
    using G(2,5) zeroed_ptrs [of 4 fs blk] by (auto simp: list_eq_iff_nth_eq simp del: upt_Suc)
  have turn: "\<exists>v. vol_is v (fbytes fs) (flimit fs) \<and> isBlockZeroed_loop io blk (Suc k) (fs\<lparr>fvol := u\<rparr>) =
      (if \<forall>e < 4. ptr fs blk e = 0 then isBlockZeroed_loop io blk k (fs\<lparr>fvol := v\<rparr>) else Some (False, fs\<lparr>fvol := v\<rparr>))"
    if u: "vol_is u (fbytes fs) (flimit fs)" for k u
  proof -
    let ?f = "fs\<lparr>fvol := u\<rparr>"
    have f: "fs_ok ?f" "fbytes ?f = fbytes fs" "flimit ?f = flimit fs" "bsize ?f = bsize fs" using same_volume(1) [OF ok u] u by (auto simp: vol_is_def)
    obtain v where v: "vread io (blk * bsize ?f + 0) 16 ?f = Some (int 16, map (\<lambda>a. fbytes ?f (blk * bsize ?f + a)) [0..<0 + 16], ?f\<lparr>fvol := v\<rparr>)"
      "vol_is v (fbytes ?f) (flimit ?f)"
      by (rule read_block [OF io f(1), of blk 0 16]) (use p G(2) f in simp_all)
    then have r: "vread io (u32 (bsize fs * blk)) 16 ?f = Some (16, map (\<lambda>a. fbytes fs (blk * bsize fs + a)) [0..<16], fs\<lparr>fvol := v\<rparr>)"
      unfolding o f by (simp del: upt_Suc)
    show ?thesis using v(2) unfolding f
      by (intro exI [of _ v] conjI) (auto simp: r z simp del: upt_Suc)
  qed
  have loop: "\<exists>v. isBlockZeroed_loop io blk (Suc k) (fs\<lparr>fvol := u\<rparr>) = Some (\<forall>e < 4. ptr fs blk e = 0, fs\<lparr>fvol := v\<rparr>) \<and> vol_is v (fbytes fs) (flimit fs)"
    if "vol_is u (fbytes fs) (flimit fs)" for k u
    using that
  proof (induction k arbitrary: u)
    case (0 u)
    then show ?case using turn [of u 0] by (auto split: if_splits)
  next
    case (Suc k u)
    obtain v where v: "vol_is v (fbytes fs) (flimit fs)" "isBlockZeroed_loop io blk (Suc (Suc k)) (fs\<lparr>fvol := u\<rparr>) =
      (if \<forall>e < 4. ptr fs blk e = 0 then isBlockZeroed_loop io blk (Suc k) (fs\<lparr>fvol := v\<rparr>) else Some (False, fs\<lparr>fvol := v\<rparr>))"
      using turn [OF Suc.prems, of "Suc k"] by blast
    then show ?case using Suc.IH [OF v(1)] by (auto simp del: isBlockZeroed_loop.simps)
  qed
  have "(bsize fs + 15) div 16 = Suc ((bsize fs - 1) div 16)" using G(2) by (cases "bsize fs") auto
  then show ?thesis using loop [OF fs_okD(5) [OF ok]] by (simp add: isBlockZeroed_def del: isBlockZeroed_loop.simps)
qed

lemma zeroBlock_spec:
  assumes io: "io_good io" and ok: "fs_ok fs" and p: "plain fs blk"
  obtains v where "zeroBlock io blk fs = Some (True, fs\<lparr>fvol := v\<rparr>)" "keeps {blk} fs (fs\<lparr>fvol := v\<rparr>)"
    "free_blocks (fs\<lparr>fvol := v\<rparr>) = free_blocks fs" "\<And>e. e < bpb fs \<Longrightarrow> ptr (fs\<lparr>fvol := v\<rparr>) blk e = 0"
proof -
  note G = geo_okD [OF fs_okD(2) [OF ok]]
  obtain v where v: "vwrite io (blockOfZeros fs) (blk * bsize fs + 0) (bsize fs) fs = Some (int (bsize fs), fs\<lparr>fvol := v\<rparr>)"
    "keeps {blk} fs (fs\<lparr>fvol := v\<rparr>)" "free_blocks (fs\<lparr>fvol := v\<rparr>) = free_blocks fs"
    "\<And>a. a < bsize fs \<Longrightarrow> fbytes (fs\<lparr>fvol := v\<rparr>) (blk * bsize fs + a) =
      (if 0 \<le> a \<and> a < 0 + bsize fs then blockOfZeros fs ! (a - 0) else fbytes fs (blk * bsize fs + a))"
    by (rule write_block [OF io ok p, of 0 "bsize fs" "blockOfZeros fs"]) (use G(5) in auto)
  have "\<forall>e < bpb fs. ptr (fs\<lparr>fvol := v\<rparr>) blk e = 0"
    unfolding zeroed_ptrs using v(4) G(5) bs_pos(2) [OF ok] by auto
  moreover have "zeroBlock io blk fs = Some (True, fs\<lparr>fvol := v\<rparr>)" using v(1) by (simp add: zeroBlock_def mult.commute)
  ultimately show thesis using that v(2,3) by blast
qed

lemma fresh_block_spec:
  assumes io: "io_good io" and ok: "fs_ok fs"
  shows "free_blocks fs = {} \<and> fresh_block io fs = Some (0, fs) \<or>
    (\<exists>l fs'. l \<in> free_blocks fs \<and> fresh_block io fs = Some (l, fs') \<and> keeps {l} fs fs' \<and> free_blocks fs' = free_blocks fs - {l} \<and>
       (\<forall>e < bpb fs. ptr fs' l e = 0))"
  using allocBlock_spec [OF io ok]
proof (elim disjE exE conjE)
  assume "free_blocks fs = {}" "allocBlock io U32_MAX fs = Some (0, fs)"
  then show ?thesis by (simp add: fresh_block_def)
next
  fix l fs1 assume a: "l \<in> free_blocks fs" "allocBlock io U32_MAX fs = Some (l, fs1)" "fs_step fs fs1" "free_blocks fs1 = free_blocks fs - {l}"
  have ok1: "fs_ok fs1" and geo: "geo fs1 = geo fs" using a(3) by (auto simp: fs_step_def)
  have d: "data_block fs l" by (rule fs_okD(4) [OF ok a(1)])
  then have "plain fs1 l" "l \<noteq> 0" using keeps_geo(1) [OF ok geo] by (auto simp: data_block_plain)
  obtain v where v: "zeroBlock io l fs1 = Some (True, fs1\<lparr>fvol := v\<rparr>)" "keeps {l} fs1 (fs1\<lparr>fvol := v\<rparr>)"
    "free_blocks (fs1\<lparr>fvol := v\<rparr>) = free_blocks fs1" "\<And>e. e < bpb fs1 \<Longrightarrow> ptr (fs1\<lparr>fvol := v\<rparr>) l e = 0"
    by (rule zeroBlock_spec [OF io ok1 \<open>plain fs1 l\<close>]) blast
  have "keeps ({} \<union> {l}) fs (fs1\<lparr>fvol := v\<rparr>)" by (rule keeps_trans [OF ok fs_step_keeps [OF a(3)] v(2)])
  moreover have "fresh_block io fs = Some (l, fs1\<lparr>fvol := v\<rparr>)" using a(2) v(1) \<open>l \<noteq> 0\<close> by (simp add: fresh_block_def)
  ultimately show ?thesis using a(1,4) v(3,4) keeps_geo(3) [OF ok geo]
    by (intro disjI2 exI [of _ l] exI [of _ "fs1\<lparr>fvol := v\<rparr>"]) auto
qed

text \<open>The map of a file is what \<open>getINodeBlock\<close> computes.\<close>

lemma indirect_plain: "file_ok fs ino \<Longrightarrow> plain fs (i_block (Data ino) ! 12)"
  using file_okD(4,6) [of fs ino] by (cases "i_block (Data ino) ! 12 = 0") (auto simp: data_block_plain)

lemma getINodeBlock_spec:
  assumes io: "io_good io" and ok: "fs_ok fs" and f: "plain fs (i_block (Data ino) ! 12)" and n: "n < 12 + bpb fs"
  shows "\<exists>v. getINodeBlock io ino n fs = Some (bmap fs ino n, fs\<lparr>fvol := v\<rparr>) \<and> vol_is v (fbytes fs) (flimit fs)"
proof (cases "n < 12")
  case True
  then show ?thesis using fs_okD(5) [OF ok] by (intro exI [of _ "fvol fs"]) (simp add: getINodeBlock_def bmap_def Let_def)
next
  case False
  have "(i_block (Data ino) ! 12 + 1) * bsize fs \<le> flimit fs" using f by (simp add: plain_def)
  moreover have "n - 12 < bpb fs" using False n by linarith
  ultimately obtain v where "rd32 io 0 (4 * (n - 12) + bsize fs * i_block (Data ino) ! 12) fs = Some (Some (ptr fs (i_block (Data ino) ! 12) (n - 12)), fs\<lparr>fvol := v\<rparr>)"
    "vol_is v (fbytes fs) (flimit fs)"
    using rd32_ptr [OF io ok, of "i_block (Data ino) ! 12" "n - 12" 0] by blast
  then show ?thesis using False n max_size(2) [OF ok] by (intro exI [of _ v]) (simp add: getINodeBlock_def bmap_def Let_def)
qed

lemma bmap_kept:
  assumes "fs_ok fs" "keeps X fs fs'" "plain fs (i_block (Data ino) ! 12)" "i_block (Data ino) ! 12 \<notin> X" "n < 12 + bpb fs"
  shows "bmap fs' ino n = bmap fs ino n"
  using ptr_kept [OF assms(1-4), of "n - 12"] assms(5) by (auto simp: bmap_def)

lemma fblocks_geo: "geo fs' = geo fs \<Longrightarrow> fblocks fs' ino = fblocks fs ino"
  using GetSize_geo [of fs' fs ino] geo_simps(1) [of fs' fs] by (simp add: fblocks_def)

lemma fblocks_less: "fs_ok fs \<Longrightarrow> n < fblocks fs ino \<longleftrightarrow> n * bsize fs < GetSize fs ino"
  unfolding fblocks_def by (rule ceil_less [OF bs_pos(1)])

lemma fblocks_le:
  assumes "fs_ok fs" "file_ok fs ino"
  shows "fblocks fs ino \<le> 12 + bpb fs"
proof (rule ccontr)
  assume "\<not> ?thesis"
  then show False using fblocks_less [OF assms(1), of "12 + bpb fs" ino] file_okD(3) [OF assms(2)] by simp
qed

text \<open>A file is not touched by changes to other blocks.\<close>

definition fbyte :: "ext2 \<Rightarrow> FSINode \<Rightarrow> nat \<Rightarrow> byte" where
  "fbyte fs ino a = fbytes fs (bmap fs ino (a div bsize fs) * bsize fs + a mod bsize fs)"

lemma file_kept:
  assumes ok: "fs_ok fs" and f: "file_ok fs ino" and k: "keeps X fs fs'" and X: "X \<inter> file_blocks fs ino = {}" "0 \<notin> X"
    and fr: "free_blocks fs' \<inter> file_blocks fs ino = {}"
  shows "file_ok fs' ino" "file_blocks fs' ino = file_blocks fs ino" "n < 12 + bpb fs \<Longrightarrow> bmap fs' ino n = bmap fs ino n"
    "a < GetSize fs ino \<Longrightarrow> fbyte fs' ino a = fbyte fs ino a"
proof -
  note F = file_okD [OF f] and K = keepsD [OF k]
  note S = geo_simps [OF K(2)] and P = keeps_geo [OF ok K(2)] and Z = GetSize_geo [OF K(2)] fblocks_geo [OF K(2)]
  let ?i = "i_block (Data ino) ! 12"
  have i: "?i \<notin> X" using X by (cases "?i = 0") (auto simp: file_blocks_def)
  have m: "bmap fs' ino n = bmap fs ino n" if "n < 12 + bpb fs" for n
    by (rule bmap_kept [OF ok k indirect_plain [OF f] i that])
  then show "n < 12 + bpb fs \<Longrightarrow> bmap fs' ino n = bmap fs ino n" .
  have m': "bmap fs' ino n = bmap fs ino n" if "n < fblocks fs ino" for n using m that fblocks_le [OF ok f] by simp
  have im: "bmap fs' ino ` {..<fblocks fs ino} = bmap fs ino ` {..<fblocks fs ino}" using m' by auto
  show fb: "file_blocks fs' ino = file_blocks fs ino" by (simp add: file_blocks_def Z im)
  show "file_ok fs' ino"
  proof (rule file_okI)
    fix n assume n: "n < fblocks fs' ino"
    then have "bmap fs ino n \<in> file_blocks fs ino" by (auto simp: file_blocks_def Z)
    then show "data_block fs' (bmap fs' ino n) \<and> bmap fs' ino n \<notin> free_blocks fs' \<and> bmap fs' ino n \<noteq> ?i"
      using F(5) [of n] fr n m' by (auto simp: Z P)
  next
    assume "?i \<noteq> 0"
    moreover from this have "?i \<in> file_blocks fs ino" by (simp add: file_blocks_def)
    ultimately show "data_block fs' ?i \<and> ?i \<notin> free_blocks fs'" using F(6) fr by (auto simp: P)
  qed (use F m m' in \<open>auto simp: Z P S\<close>)
  assume a: "a < GetSize fs ino"
  then have n: "a div bsize fs < fblocks fs ino"
    using fblocks_less [OF ok] by (metis div_mult_mod_eq le_add1 le_less_trans)
  then have "bmap fs ino (a div bsize fs) \<notin> X" "plain fs (bmap fs ino (a div bsize fs))"
    using X F(5) [OF n] by (auto simp: file_blocks_def data_block_plain)
  then show "fbyte fs' ino a = fbyte fs ino a" using K(3) [of _ "a mod bsize fs"] bs_pos(1) [OF ok] m' [OF n] by (simp add: fbyte_def S)
qed

section \<open>Growing the map of a file\<close>

text \<open>A pointer is stored in the indirect block; the block stays when its first pointer is not 0.\<close>

lemma set_pointer:
  assumes io: "io_good io" and ok: "fs_ok fs" and i: "plain fs (i_block (Data ino) ! 12)" and e: "e < bpb fs" and x: "x < 2 ^ 32"
    and nz: "if e = 0 then x \<noteq> 0 else ptr fs (i_block (Data ino) ! 12) 0 \<noteq> 0"
  shows "\<exists>fs'. (do { (res, fs) \<leftarrow> vwrite io (le_enc 4 x) (4 * e + bsize fs * i_block (Data ino) ! 12) 4 fs;
                  if res < 0 then Some (False, ino, fs) else drop_first io 12 ino fs }) = Some (True, ino, fs') \<and>
    keeps {i_block (Data ino) ! 12} fs fs' \<and> free_blocks fs' = free_blocks fs \<and>
    (\<forall>e' < bpb fs. ptr fs' (i_block (Data ino) ! 12) e' = (if e' = e then x else ptr fs (i_block (Data ino) ! 12) e'))"
proof -
  let ?i = "i_block (Data ino) ! 12"
  obtain v where v: "vwrite io (le_enc 4 x) (4 * e + bsize fs * ?i) 4 fs = Some (4, fs\<lparr>fvol := v\<rparr>)"
    "keeps {?i} fs (fs\<lparr>fvol := v\<rparr>)" "free_blocks (fs\<lparr>fvol := v\<rparr>) = free_blocks fs"
    "\<And>e'. e' < bpb fs \<Longrightarrow> ptr (fs\<lparr>fvol := v\<rparr>) ?i e' = (if e' = e then x else ptr fs ?i e')"
    by (rule wr32_ptr [OF io ok i e x]) blast
  let ?f = "fs\<lparr>fvol := v\<rparr>"
  note K = keepsD [OF v(2)]
  have p: "(?i + 1) * bsize ?f \<le> flimit ?f" using i geo_simps(7) [OF K(2)] by (simp add: plain_def)
  obtain u where u: "isBlockZeroed io ?i ?f = Some (\<forall>e < 4. ptr ?f ?i e = 0, ?f\<lparr>fvol := u\<rparr>)" "vol_is u (fbytes ?f) (flimit ?f)"
    using isBlockZeroed_spec [OF io K(1) p] by blast
  have "ptr ?f ?i 0 \<noteq> 0" using v(4) [OF bs_pos(3) [OF ok]] nz by (auto split: if_splits)
  then have "\<not> (\<forall>e < 4. ptr ?f ?i e = 0)" by (metis zero_less_numeral)
  then have z: "isBlockZeroed io ?i ?f = Some (False, ?f\<lparr>fvol := u\<rparr>)" using u(1) by (simp only:)
  note U = same_volume [OF K(1) u(2)]
  have "keeps ({?i} \<union> {}) fs (?f\<lparr>fvol := u\<rparr>)" by (rule keeps_trans [OF ok v(2) U(3)])
  moreover have "ptr (?f\<lparr>fvol := u\<rparr>) ?i e' = ptr ?f ?i e'" for e' using u(2) by (intro ptr_cong) (auto simp: vol_is_def)
  ultimately show ?thesis using v z U(2) by (intro exI [of _ "?f\<lparr>fvol := u\<rparr>"]) (simp add: drop_first_def)
qed

text \<open>The next block of a file, when \<open>blk\<close> has been taken for it.\<close>

lemma set_append:
  assumes io: "io_good io" and ok: "fs_ok fs" and f: "file_ok fs ino" and b: "b = fblocks fs ino" "b < 12 + bpb fs" and blk: "data_block fs blk"
  shows "setINodeBlock io ino b blk fs = Some (False, ino, fs) \<and> free_blocks fs = {} \<or>
    (\<exists>ino' fs' ib. setINodeBlock io ino b blk fs = Some (True, ino', fs') \<and> keeps (free_blocks fs \<union> ({i_block (Data ino) ! 12} - {0})) fs fs' \<and>
       free_blocks fs' \<subseteq> free_blocks fs \<and> Data ino' = (Data ino)\<lparr>i_block := ib\<rparr> \<and> length ib = 15 \<and>
       (ib ! 12 \<noteq> i_block (Data ino) ! 12 \<longrightarrow> i_block (Data ino) ! 12 = 0 \<and> ib ! 12 \<in> free_blocks fs - free_blocks fs') \<and> (12 \<le> b \<longrightarrow> ib ! 12 \<noteq> 0) \<and>
       (\<forall>n < 12 + bpb fs. bmap fs' ino' n = (if n = b then blk else bmap fs ino n)))"
proof (cases "b < 12")
  case True
  let ?ib = "(i_block (Data ino))[b := blk]"
  have "setINodeBlock io ino b blk fs = Some (True, upd_data (\<lambda>d. d\<lparr>i_block := (i_block d)[b := blk]\<rparr>) ino, fs)" using True by (simp add: setINodeBlock_def)
  moreover have "bmap fs (upd_data (\<lambda>d. d\<lparr>i_block := (i_block d)[b := blk]\<rparr>) ino) n = (if n = b then blk else bmap fs ino n)" for n
    using True file_okD(1) [OF f] by (auto simp: bmap_def upd_data_def)
  ultimately show ?thesis using True keeps_refl [OF ok] file_okD(1) [OF f]
    by (intro disjI2 exI [of _ "upd_data (\<lambda>d. d\<lparr>i_block := (i_block d)[b := blk]\<rparr>) ino"] exI [of _ fs] exI [of _ ?ib]) (auto simp: upd_data_def)
next
  case False
  note F = file_okD [OF f]
  let ?i = "i_block (Data ino) ! 12"
  have x: "blk < 2 ^ 32" "blk \<noteq> 0" using blk geo_okD(10) [OF fs_okD(2) [OF ok]] by (auto simp: data_block_def)
  have e: "b - 12 < bpb fs" using False b(2) by linarith
  have s: "setINodeBlock io ino b blk fs = set_single io ino b blk fs"
    using False b(2) max_size(2) [OF ok] by (simp add: setINodeBlock_def)
  show ?thesis
  proof (cases "?i = 0")
    case nz: False
    have "ptr fs ?i 0 \<noteq> 0" if "b - 12 \<noteq> 0"
    proof -
      have "12 < fblocks fs ino" using that b(1) by simp
      then show ?thesis using F(5) [of 12] by (auto simp: bmap_def data_block_def)
    qed
    then have nx: "if b - 12 = 0 then blk \<noteq> 0 else ptr fs ?i 0 \<noteq> 0" using x(2) by simp
    obtain fs' where fs': "(do { (res, fs) \<leftarrow> vwrite io (le_enc 4 blk) (4 * (b - 12) + bsize fs * ?i) 4 fs;
                  if res < 0 then Some (False, ino, fs) else drop_first io 12 ino fs }) = Some (True, ino, fs')"
      "keeps {?i} fs fs'" "free_blocks fs' = free_blocks fs"
      "\<forall>e' < bpb fs. ptr fs' ?i e' = (if e' = b - 12 then blk else ptr fs ?i e')"
      using set_pointer [OF io ok indirect_plain [OF f] e x(1) nx] by blast
    have "setINodeBlock io ino b blk fs = Some (True, ino, fs')" using s fs'(1) nz by (simp add: set_single_def first_level_def)
    moreover have "bmap fs' ino n = (if n = b then blk else bmap fs ino n)" if "n < 12 + bpb fs" for n
      using that fs'(4) False by (auto simp: bmap_def)
    moreover have "keeps (free_blocks fs \<union> ({?i} - {0})) fs fs'" by (rule keeps_mono [OF fs'(2)]) (use nz in auto)
    ultimately show ?thesis using nz fs'(3) F(1) by (intro disjI2 exI [of _ ino] exI [of _ fs'] exI [of _ "i_block (Data ino)"]) auto
  next
    case z: True
    have b12: "b = 12" using F(9) z b(1) False by (metis nat_neq_iff)
    show ?thesis using fresh_block_spec [OF io ok]
    proof (elim disjE exE conjE)
      assume "free_blocks fs = {}" "fresh_block io fs = Some (0, fs)"
      then show ?thesis using s z by (simp add: set_single_def first_level_def)
    next
      fix l fs1 assume l: "l \<in> free_blocks fs" "fresh_block io fs = Some (l, fs1)" "keeps {l} fs fs1" "free_blocks fs1 = free_blocks fs - {l}"
        "\<forall>e < bpb fs. ptr fs1 l e = 0"
      note K = keepsD [OF l(3)]
      note P = keeps_geo [OF ok K(2)]
      define ino1 where "ino1 = upd_data (\<lambda>d. d\<lparr>i_block := (i_block d)[12 := l]\<rparr>) ino"
      have i1: "i_block (Data ino1) = (i_block (Data ino))[12 := l]" "i_block (Data ino1) ! 12 = l" using F(1) by (simp_all add: ino1_def upd_data_def)
      have pl: "plain fs1 l" "l \<noteq> 0" using fs_okD(4) [OF ok l(1)] by (auto simp: data_block_plain P)
      obtain fs' where fs': "(do { (res, fs) \<leftarrow> vwrite io (le_enc 4 blk) (4 * 0 + bsize fs1 * l) 4 fs1;
                  if res < 0 then Some (False, ino1, fs) else drop_first io 12 ino1 fs }) = Some (True, ino1, fs')"
        "keeps {l} fs1 fs'" "free_blocks fs' = free_blocks fs1"
        "\<forall>e' < bpb fs1. ptr fs' l e' = (if e' = 0 then blk else ptr fs1 l e')"
        using set_pointer [OF io K(1), of ino1 0 blk] pl x bs_pos(3) [OF K(1)] unfolding i1(2) by auto
      have "setINodeBlock io ino b blk fs = Some (True, ino1, fs')"
        using s z fs'(1) l(2) pl(2) b12 i1(2) by (simp add: set_single_def first_level_def flip: ino1_def)
      moreover have "bmap fs' ino1 n = (if n = b then blk else bmap fs ino n)" if "n < 12 + bpb fs" for n
        using that fs'(4) l(5) F(7) [of n] b12 b(1) i1 P(3) by (auto simp: bmap_def)
      moreover have "keeps (free_blocks fs \<union> ({?i} - {0})) fs fs'" by (rule keeps_mono [OF keeps_trans [OF ok l(3) fs'(2)]]) (use l(1) in auto)
      ultimately show ?thesis using z fs'(3) l(1,4) F(1) pl(2) i1
        by (intro disjI2 exI [of _ ino1] exI [of _ fs'] exI [of _ "i_block (Data ino1)"]) (auto simp: ino1_def upd_data_def)
    qed
  qed
qed

lemma ceil_eq:
  fixes b bs sz :: nat
  assumes "0 < bs" "b * bs < sz" "sz \<le> (b + 1) * bs"
  shows "(sz + bs - 1) div bs = b + 1"
proof (rule antisym)
  show "(sz + bs - 1) div bs \<le> b + 1" using ceil_less [OF assms(1), of "b + 1" sz] assms(3) by linarith
  show "b + 1 \<le> (sz + bs - 1) div bs" using ceil_less [OF assms(1), of b sz] assms(2) by simp
qed

lemma file_grown:
  assumes ok: "fs_ok fs" and f: "file_ok fs ino" and k: "keeps X fs fs'" and fr: "free_blocks fs' \<subseteq> free_blocks fs"
    and blk: "data_block fs blk" "blk \<notin> free_blocks fs" "blk \<notin> file_blocks fs ino" and b: "b = fblocks fs ino" "b < 12 + bpb fs"
    and ib: "length (i_block (Data ino')) = 15" "12 \<le> b \<longrightarrow> i_block (Data ino') ! 12 \<noteq> 0"
      "i_block (Data ino') ! 12 = i_block (Data ino) ! 12 \<or> i_block (Data ino') ! 12 \<in> free_blocks fs - free_blocks fs'"
    and m: "\<And>n. n < 12 + bpb fs \<Longrightarrow> bmap fs' ino' n = (if n = b then blk else bmap fs ino n)"
    and sz: "GetSize fs' ino' = sz" "i_size (Data ino') = sz" "b * bsize fs < sz" "sz \<le> (b + 1) * bsize fs"
  shows "file_ok fs' ino'" "fblocks fs' ino' = b + 1" "file_blocks fs' ino' \<subseteq> file_blocks fs ino \<union> {blk} \<union> free_blocks fs"
proof -
  note F = file_okD [OF f] and K = keepsD [OF k]
  note S = geo_simps [OF K(2)] and P = keeps_geo [OF ok K(2)]
  let ?i = "i_block (Data ino') ! 12" and ?old = "i_block (Data ino) ! 12"
  show fb: "fblocks fs' ino' = b + 1" unfolding fblocks_def S sz(1) by (rule ceil_eq [OF bs_pos(1) [OF ok] sz(3,4)])
  have old: "bmap fs ino n \<in> file_blocks fs ino" if "n < b" for n using that b(1) by (auto simp: file_blocks_def)
  have new: "blk \<noteq> ?old" using blk(1,3) by (cases "?old = 0") (auto simp: file_blocks_def data_block_def)
  show "file_ok fs' ino'"
  proof (rule file_okI)
    show "GetSize fs' ino' \<le> (12 + bpb fs') * bsize fs'"
      using sz(1,4) mult_right_mono [of "b + 1" "12 + bpb fs" "bsize fs"] b(2) by (simp add: P S)
  next
    fix n assume n: "n < fblocks fs' ino'"
    show "data_block fs' (bmap fs' ino' n) \<and> bmap fs' ino' n \<notin> free_blocks fs' \<and> bmap fs' ino' n \<noteq> ?i"
    proof (cases "n = b")
      case True
      then show ?thesis using m [of n] b(2) blk fr new ib(3) by (auto simp: P)
    next
      case False
      then have "n < fblocks fs ino" using n fb b(1) by simp
      then show ?thesis using F(5) [of n] m [of n] False b fr ib(3) by (auto simp: P)
    qed
  next
    assume "?i \<noteq> 0"
    then show "data_block fs' ?i \<and> ?i \<notin> free_blocks fs'" using ib(3) F(6) fs_okD(4) [OF ok, of ?i] fr by (auto simp: P)
  next
    fix n assume "fblocks fs' ino' \<le> n" "n < 12 + bpb fs'"
    then show "bmap fs' ino' n = 0" using m [of n] F(7) [of n] fb b(1) by (simp add: P)
  next
    fix n1 n2 assume n: "n1 < fblocks fs' ino'" "n2 < fblocks fs' ino'" "bmap fs' ino' n1 = bmap fs' ino' n2"
    have m1: "bmap fs' ino' n = (if n = b then blk else bmap fs ino n)" if "n < b + 1" for n using m [of n] that b(2) by simp
    show "n1 = n2"
    proof (cases "n1 = b \<or> n2 = b")
      case True
      then show ?thesis using n(3) m1 [of n1] m1 [of n2] n(1,2) fb blk(3) old [of n1] old [of n2] by (auto split: if_splits)
    next
      case False
      then show ?thesis using n m1 fb F(8) [of n1 n2] b(1) by (auto simp: less_Suc_eq)
    qed
  qed (use F ib sz fb in \<open>auto simp: P S\<close>)
  show "file_blocks fs' ino' \<subseteq> file_blocks fs ino \<union> {blk} \<union> free_blocks fs"
  proof
    fix x assume "x \<in> file_blocks fs' ino'"
    then consider n where "n < b + 1" "x = bmap fs' ino' n" | "x = ?i" "?i \<noteq> 0" by (auto simp: file_blocks_def fb)
    then show "x \<in> file_blocks fs ino \<union> {blk} \<union> free_blocks fs"
    proof cases
      case 1
      then show ?thesis using m [of n] old [of n] b(2) by (auto split: if_splits)
    next
      case 2
      then show ?thesis using ib(3) by (auto simp: file_blocks_def)
    qed
  qed
qed

text \<open>
  The blocks an operation on a file may change: free ones and the indirect block of the file. \<open>grows\<close> is what such an
  operation keeps: the blocks of the file stay, new ones were free.
\<close>

definition may_change :: "ext2 \<Rightarrow> FSINode \<Rightarrow> nat set" where
  "may_change fs ino = free_blocks fs \<union> ({i_block (Data ino) ! 12} - {0})"

definition grows :: "ext2 \<Rightarrow> FSINode \<Rightarrow> ext2 \<Rightarrow> FSINode \<Rightarrow> bool" where
  "grows fs ino fs' ino' \<longleftrightarrow> file_ok fs' ino' \<and> free_blocks fs' \<subseteq> free_blocks fs \<and> file_blocks fs' ino' \<subseteq> file_blocks fs ino \<union> free_blocks fs \<and>
     (\<forall>n < fblocks fs ino. bmap fs' ino' n = bmap fs ino n)"

lemma file_same:
  assumes "fs_ok fs" "file_ok fs ino" "keeps {} fs fs'" "free_blocks fs' \<subseteq> free_blocks fs"
  shows "grows fs ino fs' ino"
proof -
  have d: "free_blocks fs' \<inter> file_blocks fs ino = {}" using assms(2,4) by (auto simp: file_ok_def)
  note K = file_kept [OF assms(1-3) _ _ d]
  show ?thesis using K(1-3) assms(4) fblocks_le [OF assms(1,2)] by (auto simp: grows_def)
qed

lemma block_for_spec:
  assumes io: "io_good io" and ok: "fs_ok fs" and f: "file_ok fs ino" and b: "b \<le> fblocks fs ino" "b < 12 + bpb fs" "b = fblocks fs ino \<Longrightarrow> GetSize fs ino = b * bsize fs"
    and left: "0 < left"
  shows "\<exists>blk ino' fs'. block_for io b left ino fs = Some (blk, ino', fs') \<and> keeps (may_change fs ino) fs fs' \<and> grows fs ino fs' ino' \<and>
    (blk = 0 \<and> card (free_blocks fs') \<le> 1 \<and> GetSize fs' ino' = GetSize fs ino \<or>
     blk \<noteq> 0 \<and> b < fblocks fs' ino' \<and> bmap fs' ino' b = blk \<and>
       GetSize fs' ino' = (if b < fblocks fs ino then GetSize fs ino else min ((b + 1) * bsize fs) (GetSize fs ino + left)))"
proof -
  note F = file_okD [OF f]
  obtain v where v: "getINodeBlock io ino b fs = Some (bmap fs ino b, fs\<lparr>fvol := v\<rparr>)" "vol_is v (fbytes fs) (flimit fs)"
    using getINodeBlock_spec [OF io ok indirect_plain [OF f] b(2)] by blast
  define f0 where "f0 = fs\<lparr>fvol := v\<rparr>"
  note V = same_volume [OF ok v(2), folded f0_def]
  have g0: "geo f0 = geo fs" by (rule keepsD(2) [OF V(3)])
  have gr0: "grows fs ino f0 ino" by (rule file_same [OF ok f V(3)]) (simp add: V(2))
  have "b < 2 ^ 32" using b(2) max_size [OF ok] bs_pos(1) [OF ok] by (metis less_trans u32_less)
  then have ub: "u32 b = b" by (rule u32_small)
  show ?thesis
  proof (cases "b < fblocks fs ino")
    case True
    have nz: "bmap fs ino b \<noteq> 0" using F(5) [OF True] by (auto simp: data_block_def)
    have m0: "bmap f0 ino b = bmap fs ino b" using gr0 True by (simp add: grows_def)
    have "block_for io b left ino fs = Some (bmap fs ino b, ino, f0)" using v(1) nz ub by (simp add: block_for_def f0_def)
    then show ?thesis using True nz m0 gr0 keeps_mono [OF V(3)] GetSize_geo [OF g0] fblocks_geo [OF g0]
      by (intro exI [of _ "bmap fs ino b"] exI [of _ ino] exI [of _ f0]) simp
  next
    case False
    then have bb: "b = fblocks fs ino" using b(1) by simp
    have z: "bmap fs ino b = 0" by (rule F(7)) (use bb b(2) in auto)
    have f0f: "file_ok f0 ino" "file_blocks f0 ino \<subseteq> file_blocks fs ino \<union> free_blocks fs" using gr0 by (auto simp: grows_def)
    show ?thesis using allocBlock_spec [OF io V(1)]
    proof (elim disjE exE conjE)
      assume "free_blocks f0 = {}" "allocBlock io U32_MAX f0 = Some (0, f0)"
      moreover from this have "block_for io b left ino fs = Some (0, ino, f0)" using v(1) z ub by (simp add: block_for_def f0_def)
      ultimately show ?thesis using gr0 keeps_mono [OF V(3)] GetSize_geo [OF g0]
        by (intro exI [of _ 0] exI [of _ ino] exI [of _ f0]) simp
    next
      fix blk f1 assume a: "blk \<in> free_blocks f0" "allocBlock io U32_MAX f0 = Some (blk, f1)" "fs_step f0 f1" "free_blocks f1 = free_blocks f0 - {blk}"
      have ok1: "fs_ok f1" and "geo f1 = geo f0" using a(3) by (auto simp: fs_step_def)
      then have g1: "geo f1 = geo fs" using g0 by simp
      note P1 = keeps_geo [OF ok g1] and S1 = geo_simps [OF g1]
      have k1: "keeps {} fs f1" using keeps_trans [OF ok V(3) fs_step_keeps [OF a(3)]] by simp
      have fr1: "free_blocks f1 = free_blocks fs - {blk}" "blk \<in> free_blocks fs" using a(1,4) V(2) by auto
      have gr1: "grows fs ino f1 ino" by (rule file_same [OF ok f k1]) (simp add: fr1)
      then have f1f: "file_ok f1 ino" by (simp add: grows_def)
      have fb1: "file_blocks f1 ino = file_blocks fs ino" by (rule file_kept(2) [OF ok f k1]) (use f fr1 in \<open>auto simp: file_ok_def\<close>)
      have d: "data_block f1 blk" "blk \<noteq> 0" using fs_okD(4) [OF ok fr1(2)] by (auto simp: P1 data_block_def)
      have nf: "blk \<notin> file_blocks f1 ino" using f fr1(2) by (auto simp: fb1 file_ok_def)
      have b1: "b = fblocks f1 ino" "b < 12 + bpb f1" using bb b(2) fblocks_geo [OF g1] P1 by auto
      have bf: "block_for io b left ino fs =
          do { (ok, ino, fs) \<leftarrow> setINodeBlock io ino b blk f1;
               if \<not> ok then do { (_, fs) \<leftarrow> freeBlock io blk fs; Some (0, ino, fs) }
               else
                 let ino = setSize (min ((b + 1) * bsize fs) (i_size (Data ino) + left)) fs ino in
                 Some (blk, upd_data (\<lambda>d. d\<lparr>i_blocks := u32 (i_blocks d + align (bsize fs) 512 div 512)\<rparr>) ino, fs) }"
        using v(1) z ub a(2) d(2) by (simp add: block_for_def f0_def)
      show ?thesis using set_append [OF io ok1 f1f b1 d(1)]
      proof (elim disjE exE conjE)
        assume s: "setINodeBlock io ino b blk f1 = Some (False, ino, f1)" "free_blocks f1 = {}"
        obtain f2 where f2: "freeBlock io blk f1 = Some (False, f2)" "fs_step f1 f2" "free_blocks f2 = {blk}"
          using freeBlock_spec [OF io ok1 d(1)] s(2) by auto
        have k2: "keeps {} fs f2" using keeps_trans [OF ok k1 fs_step_keeps [OF f2(2)]] by simp
        have "grows fs ino f2 ino" by (rule file_same [OF ok f k2]) (use f2(3) fr1(2) in auto)
        moreover have "block_for io b left ino fs = Some (0, ino, f2)" using bf s(1) f2(1) by simp
        ultimately show ?thesis using keeps_mono [OF k2] f2(3) GetSize_geo [OF keepsD(2) [OF k2]]
          by (intro exI [of _ 0] exI [of _ ino] exI [of _ f2]) simp
      next
        fix ino1 f2 ib assume s: "setINodeBlock io ino b blk f1 = Some (True, ino1, f2)" "keeps (free_blocks f1 \<union> ({i_block (Data ino) ! 12} - {0})) f1 f2"
          "free_blocks f2 \<subseteq> free_blocks f1" "Data ino1 = (Data ino)\<lparr>i_block := ib\<rparr>" "length ib = 15"
          "ib ! 12 \<noteq> i_block (Data ino) ! 12 \<longrightarrow> i_block (Data ino) ! 12 = 0 \<and> ib ! 12 \<in> free_blocks f1 - free_blocks f2"
          "12 \<le> b \<longrightarrow> ib ! 12 \<noteq> 0" "\<forall>n < 12 + bpb f1. bmap f2 ino1 n = (if n = b then blk else bmap f1 ino n)"
        have g2: "geo f2 = geo fs" using keepsD(2) [OF s(2)] g1 by simp
        note S2 = geo_simps [OF g2]
        let ?sz = "min ((b + 1) * bsize fs) (GetSize fs ino + left)"
        let ?ino = "upd_data (\<lambda>d. d\<lparr>i_blocks := u32 (i_blocks d + align (bsize fs) 512 div 512)\<rparr>) (setSize ?sz f2 ino1)"
        have bl: "block_for io b left ino fs = Some (blk, ?ino, f2)" using bf s(1,4) F(2) by (simp add: S2 Let_def)
        have "(b + 1) * bsize fs \<le> (12 + bpb fs) * bsize fs" using b(2) by (intro mult_right_mono) auto
        then have sz32: "?sz < 2 ^ 32" using max_size(1) [OF ok] by linarith
        have sz: "GetSize f2 ?ino = ?sz" "i_size (Data ?ino) = ?sz" "i_block (Data ?ino) = ib"
          using setSize_simps [where fs = f2 and fs' = f2 and ino = ino1, OF sz32 refl] s(4) by (simp_all add: upd_data_def GetSize_def Let_def split: if_splits)
        have bm: "bmap f2 ?ino = bmap f2 ino1" using sz(3) s(4) by (simp add: bmap_def fun_eq_iff)
        have szb: "b * bsize f1 < ?sz" "?sz \<le> (b + 1) * bsize f1" using b(3) [OF bb] left bs_pos(1) [OF ok] by (auto simp: S1)
        have gw: "file_ok f2 ?ino" "fblocks f2 ?ino = b + 1" "file_blocks f2 ?ino \<subseteq> file_blocks f1 ino \<union> {blk} \<union> free_blocks f1"
          by (rule file_grown [OF ok1 f1f s(2,3) d(1) _ nf b1 _ _ _ _ sz(1,2) szb]; use sz(3) s(5-8) bm fr1 in auto)+
        have "bmap f2 ?ino n = bmap fs ino n" if "n < fblocks fs ino" for n
          using s(8) that bb bm gr1 b1(2) by (auto simp: grows_def)
        then have gr: "grows fs ino f2 ?ino" using gw s(3) fr1 fb1 by (auto simp: grows_def)
        have "bmap f2 ?ino b = blk" using s(8) bm b1(2) by simp
        moreover have "keeps (may_change fs ino) fs f2"
          by (rule keeps_mono [OF keeps_trans [OF ok k1 s(2)]]) (use fr1 in \<open>auto simp: may_change_def\<close>)
        ultimately show ?thesis using bl gr gw(2) d(2) sz(1) bb by (intro exI [of _ blk] exI [of _ ?ino] exI [of _ f2]) simp
      qed
    qed
  qed
qed

section \<open>Transfers into a file\<close>

lemma upd_wtime:
  assumes "fs_ok fs"
  shows "fs_ok (upd_sb (\<lambda>s. s\<lparr>s_wtime := t\<rparr>) fs)" "geo (upd_sb (\<lambda>s. s\<lparr>s_wtime := t\<rparr>) fs) = geo fs"
    "free_blocks (upd_sb (\<lambda>s. s\<lparr>s_wtime := t\<rparr>) fs) = free_blocks fs" "fbytes (upd_sb (\<lambda>s. s\<lparr>s_wtime := t\<rparr>) fs) = fbytes fs"
proof -
  show g: "geo (upd_sb (\<lambda>s. s\<lparr>s_wtime := t\<rparr>) fs) = geo fs" by (simp add: geo_def upd_sb_def)
  show "fs_ok (upd_sb (\<lambda>s. s\<lparr>s_wtime := t\<rparr>) fs)" "free_blocks (upd_sb (\<lambda>s. s\<lparr>s_wtime := t\<rparr>) fs) = free_blocks fs"
    by (rule meta_kept [OF assms _ g]; use fs_okD(1) [OF assms] in \<open>simp add: upd_sb_def\<close>)+
  show "fbytes (upd_sb (\<lambda>s. s\<lparr>s_wtime := t\<rparr>) fs) = fbytes fs" by (simp add: upd_sb_def)
qed

lemma byte_block:
  assumes "fs_ok fs" "a < GetSize fs ino"
  shows "a div bsize fs < fblocks fs ino"
  unfolding fblocks_less [OF assms(1)] using assms(2) by (metis div_mult_mod_eq le_add1 le_less_trans)

text \<open>A block of a file is overwritten from \<open>o'\<close> on, and the size may grow up to the end of what is written.\<close>

lemma put_bytes:
  assumes io: "io_good io" and ok: "fs_ok fs" and f: "file_ok fs ino" and b: "b < fblocks fs ino" and o: "o' + k \<le> bsize fs" "k \<le> length w"
  shows "\<exists>fs1 ino' fs'. vwrite io w (bmap fs ino b * bsize fs + o') k fs = Some (int k, fs1) \<and> after_write io (b * bsize fs + o' + k) ino fs1 = (ino', fs') \<and>
    keeps {bmap fs ino b} fs fs' \<and> free_blocks fs' = free_blocks fs \<and> file_ok fs' ino' \<and> file_blocks fs' ino' = file_blocks fs ino \<and>
    fblocks fs' ino' = fblocks fs ino \<and> (\<forall>n < 12 + bpb fs. bmap fs' ino' n = bmap fs ino n) \<and>
    GetSize fs' ino' = max (b * bsize fs + o' + k) (GetSize fs ino) \<and>
    (\<forall>n < fblocks fs ino. \<forall>i < bsize fs. fbytes fs' (bmap fs ino n * bsize fs + i) =
       (if n = b \<and> o' \<le> i \<and> i < o' + k then w ! (i - o') else fbytes fs (bmap fs ino n * bsize fs + i)))"
proof -
  note F = file_okD [OF f] and bs = bs_pos(1) [OF ok]
  let ?blk = "bmap fs ino b" and ?p = "b * bsize fs + o' + k" and ?bs = "bsize fs"
  have pl: "plain fs ?blk" using F(5) [OF b] by (simp add: data_block_plain)
  obtain v where v: "vwrite io w (?blk * ?bs + o') k fs = Some (int k, fs\<lparr>fvol := v\<rparr>)" "keeps {?blk} fs (fs\<lparr>fvol := v\<rparr>)"
    "free_blocks (fs\<lparr>fvol := v\<rparr>) = free_blocks fs"
    "\<And>a. a < ?bs \<Longrightarrow> fbytes (fs\<lparr>fvol := v\<rparr>) (?blk * ?bs + a) = (if o' \<le> a \<and> a < o' + k then w ! (a - o') else fbytes fs (?blk * ?bs + a))"
    by (rule write_block [OF io ok pl o]) blast
  define fs1 where "fs1 = fs\<lparr>fvol := v\<rparr>"
  define fs' where "fs' = upd_sb (\<lambda>s. s\<lparr>s_wtime := now io\<rparr>) fs1"
  note K1 = keepsD [OF v(2), folded fs1_def]
  note U = upd_wtime [OF K1(1), of "now io", folded fs'_def]
  have geo: "geo fs' = geo fs" using U(2) K1(2) by simp
  note S = geo_simps [OF geo] and P = keeps_geo [OF ok geo]
  have k: "keeps {?blk} fs fs'" using v(2) U geo by (simp add: keeps_def fs1_def)
  have fr: "free_blocks fs' = free_blocks fs" using U(3) v(3) by (simp add: fs1_def)
  define ino1 where "ino1 = SetModifyTime (now io) ino"
  have d1: "i_block (Data ino1) = i_block (Data ino)" "GetSize fs' ino1 = GetSize fs ino"
    using S(5) by (simp_all add: ino1_def SetModifyTime_def upd_data_def GetSize_def Let_def)
  let ?sz = "max ?p (GetSize fs ino)" and ?ino = "setSize (max ?p (GetSize fs ino)) fs' ino1"
  have aw: "after_write io ?p ino fs1 = (?ino, fs')" using d1(2) by (simp add: after_write_def Let_def fs'_def ino1_def)
  have pb: "?p \<le> (b + 1) * ?bs" using o(1) by simp
  have "b < 12 + bpb fs" using b fblocks_le [OF ok f] by simp
  then have "(b + 1) * ?bs \<le> (12 + bpb fs) * ?bs" by (intro mult_right_mono) auto
  then have szm: "?sz \<le> (12 + bpb fs) * ?bs" using pb F(3) by simp
  then have "?sz < 2 ^ 32" using max_size(1) [OF ok] by linarith
  note Z = setSize_simps [where fs = fs' and fs' = fs' and ino = ino1, OF this refl]
  have fb: "fblocks fs' ?ino = fblocks fs ino"
  proof (cases "?p \<le> GetSize fs ino")
    case True
    then show ?thesis unfolding fblocks_def Z(1) S by simp
  next
    case False
    have bz: "b * ?bs < GetSize fs ino" using b fblocks_less [OF ok] by simp
    have "(?p + ?bs - 1) div ?bs = b + 1" by (rule ceil_eq [OF bs]) (use False bz pb in auto)
    moreover have "(GetSize fs ino + ?bs - 1) div ?bs = b + 1" by (rule ceil_eq [OF bs bz]) (use False pb in auto)
    ultimately show ?thesis using False unfolding fblocks_def Z(1) S by (simp add: max_def)
  qed
  have ib: "i_block (Data ?ino) = i_block (Data ino)" using d1(1) by simp
  have m: "bmap fs' ?ino n = bmap fs ino n" if "n < 12 + bpb fs" for n
  proof -
    have "bmap fs' ?ino n = bmap fs' ino n" by (simp add: bmap_def d1(1))
    also have "\<dots> = bmap fs ino n" by (rule bmap_kept [OF ok k indirect_plain [OF f] _ that]) (use F(5) [OF b] in auto)
    finally show ?thesis .
  qed
  have m': "bmap fs' ?ino n = bmap fs ino n" if "n < fblocks fs ino" for n using m that fblocks_le [OF ok f] by simp
  have "file_ok fs' ?ino"
  proof (rule file_okI)
    fix n assume "n < fblocks fs' ?ino"
    then show "data_block fs' (bmap fs' ?ino n) \<and> bmap fs' ?ino n \<notin> free_blocks fs' \<and> bmap fs' ?ino n \<noteq> i_block (Data ?ino) ! 12"
      using F(5) [of n] m' [of n] by (simp add: fb P fr d1(1))
  next
    fix n1 n2 assume "n1 < fblocks fs' ?ino" "n2 < fblocks fs' ?ino" "bmap fs' ?ino n1 = bmap fs' ?ino n2"
    then show "n1 = n2" using F(8) [of n1 n2] m' by (simp add: fb)
  next
    show "GetSize fs' ?ino \<le> (12 + bpb fs') * bsize fs'" using szm by (simp add: Z S P del: max.bounded_iff)
  qed (use F(1,4,6,7,9) m in \<open>simp_all add: Z S P d1(1) fb fr del: max.bounded_iff\<close>)
  moreover have "bmap fs' ?ino ` {..<fblocks fs ino} = bmap fs ino ` {..<fblocks fs ino}" using m' by auto
  then have "file_blocks fs' ?ino = file_blocks fs ino" by (simp add: file_blocks_def fb d1(1))
  moreover have "fbytes fs' (bmap fs ino n * ?bs + i) = (if n = b \<and> o' \<le> i \<and> i < o' + k then w ! (i - o') else fbytes fs (bmap fs ino n * ?bs + i))"
    if n: "n < fblocks fs ino" and i: "i < ?bs" for n i
  proof (cases "n = b")
    case True
    then show ?thesis using v(4) [OF i] U(4) by (simp add: fs1_def)
  next
    case False
    then have "bmap fs ino n \<notin> {?blk}" using F(8) [OF n b] by auto
    moreover have "plain fs (bmap fs ino n)" using F(5) [OF n] by (simp add: data_block_plain)
    ultimately show ?thesis using keepsD(3) [OF k _ _ i] False by simp
  qed
  ultimately show ?thesis using v(1) aw k fr fb m Z(1)
    by (intro exI [of _ fs1] exI [of _ ?ino] exI [of _ fs']) (simp add: fs1_def)
qed

text \<open>What a transfer of \<open>k\<close> bytes at \<open>position\<close> leaves of a file: these bytes, and all others as they were.\<close>

definition transferred_to :: "ext2 \<Rightarrow> FSINode \<Rightarrow> (nat \<Rightarrow> byte) \<Rightarrow> nat \<Rightarrow> nat \<Rightarrow> ext2 \<Rightarrow> FSINode \<Rightarrow> bool" where
  "transferred_to fs ino w position k fs' ino' \<longleftrightarrow> keeps (free_blocks fs \<union> file_blocks fs ino) fs fs' \<and> grows fs ino fs' ino' \<and>
     GetSize fs' ino' = max (GetSize fs ino) (position + k) \<and>
     (\<forall>a < GetSize fs' ino'. fbyte fs' ino' a = (if position \<le> a \<and> a < position + k then w (a - position) else fbyte fs ino a))"

lemma grown_bytes:
  assumes ok: "fs_ok fs" and f: "file_ok fs ino" and k: "keeps (may_change fs ino) fs fs'" and g: "grows fs ino fs' ino'" and a: "a < GetSize fs ino"
  shows "fbyte fs' ino' a = fbyte fs ino a"
proof -
  note n = byte_block [OF ok a]
  have F: "plain fs (bmap fs ino (a div bsize fs))" "bmap fs ino (a div bsize fs) \<notin> may_change fs ino"
    using file_okD(5) [OF f n] by (auto simp: data_block_plain may_change_def)
  have "bmap fs' ino' (a div bsize fs) = bmap fs ino (a div bsize fs)" using g n by (simp add: grows_def)
  then show ?thesis using keepsD(3) [OF k F, of "a mod bsize fs"] bs_pos(1) [OF ok] geo_simps(1) [OF keepsD(2) [OF k]] by (simp add: fbyte_def)
qed

lemma put_step:
  assumes io: "io_good io" and ok: "fs_ok fs" and f: "file_ok fs ino" and pos: "position \<le> GetSize fs ino" and left: "0 < left" "position + left \<le> (12 + bpb fs) * bsize fs"
    and w: "k = min left (bsize fs - position mod bsize fs)" "k \<le> length w"
  shows "\<exists>blk ino1 fs1. block_for io (position div bsize fs) left ino fs = Some (blk, ino1, fs1) \<and> geo fs1 = geo fs \<and>
    (blk = 0 \<and> card (free_blocks fs1) \<le> 1 \<and> transferred_to fs ino ((!) w) position 0 fs1 ino1 \<or>
     blk \<noteq> 0 \<and> (\<exists>fs2 ino' fs'. vwrite io w (blk * bsize fs + position mod bsize fs) k fs1 = Some (int k, fs2) \<and>
       after_write io (position + k) ino1 fs2 = (ino', fs') \<and> transferred_to fs ino ((!) w) position k fs' ino'))"
proof -
  let ?bs = "bsize fs" and ?b = "position div bsize fs" and ?o = "position mod bsize fs"
  note bs = bs_pos(1) [OF ok]
  have pos_eq: "position = ?b * ?bs + ?o" by simp
  have b: "?b \<le> fblocks fs ino" "?b < 12 + bpb fs" "?b = fblocks fs ino \<Longrightarrow> GetSize fs ino = ?b * ?bs"
  proof -
    show "?b < 12 + bpb fs" using left by (simp add: less_mult_imp_div_less)
    have ge: "position = ?b * ?bs" "GetSize fs ino = ?b * ?bs" if "\<not> ?b < fblocks fs ino"
      using that pos pos_eq fblocks_less [OF ok, of ?b ino] by linarith+
    then show "?b = fblocks fs ino \<Longrightarrow> GetSize fs ino = ?b * ?bs" by simp
    show "?b \<le> fblocks fs ino"
    proof (cases "?b < fblocks fs ino")
      case False
      show ?thesis
      proof (cases ?b)
        case (Suc c)
        then have "c < fblocks fs ino" unfolding fblocks_less [OF ok] using ge(2) [OF False] bs by simp
        then show ?thesis using Suc by simp
      qed simp
    qed simp
  qed
  obtain blk ino1 fs1 where bf: "block_for io ?b left ino fs = Some (blk, ino1, fs1)" and k1: "keeps (may_change fs ino) fs fs1" and g1: "grows fs ino fs1 ino1"
    and c: "blk = 0 \<and> card (free_blocks fs1) \<le> 1 \<and> GetSize fs1 ino1 = GetSize fs ino \<or>
     blk \<noteq> 0 \<and> ?b < fblocks fs1 ino1 \<and> bmap fs1 ino1 ?b = blk \<and>
       GetSize fs1 ino1 = (if ?b < fblocks fs ino then GetSize fs ino else min ((?b + 1) * ?bs) (GetSize fs ino + left))"
    using block_for_spec [OF io ok f b left(1)] by blast
  note K = keepsD [OF k1] and G1 = grown_bytes [OF ok f k1 g1]
  note S = geo_simps [OF K(2)] and P = keeps_geo [OF ok K(2)]
  have mc: "may_change fs ino \<subseteq> free_blocks fs \<union> file_blocks fs ino" by (auto simp: may_change_def file_blocks_def)
  have f1: "file_ok fs1 ino1" using g1 by (simp add: grows_def)
  show ?thesis using c
  proof (elim disjE conjE)
    assume "blk = 0" "card (free_blocks fs1) \<le> 1" "GetSize fs1 ino1 = GetSize fs ino"
    moreover from this have "transferred_to fs ino ((!) w) position 0 fs1 ino1"
      using keeps_mono [OF k1 mc] g1 G1 pos by (auto simp: transferred_to_def)
    ultimately show ?thesis using bf K(2) by blast
  next
    assume blk: "blk \<noteq> 0" "?b < fblocks fs1 ino1" "bmap fs1 ino1 ?b = blk"
      and sz1: "GetSize fs1 ino1 = (if ?b < fblocks fs ino then GetSize fs ino else min ((?b + 1) * ?bs) (GetSize fs ino + left))"
    have ok1: "?o + k \<le> bsize fs1" using w(1) mod_less_divisor [OF bs, of position] by (simp add: S)
    obtain fs2 ino' fs' where wr: "vwrite io w (blk * ?bs + ?o) k fs1 = Some (int k, fs2)" "after_write io (position + k) ino1 fs2 = (ino', fs')"
      and p: "keeps {blk} fs1 fs'" "free_blocks fs' = free_blocks fs1" "file_ok fs' ino'" "file_blocks fs' ino' = file_blocks fs1 ino1"
        "fblocks fs' ino' = fblocks fs1 ino1" "\<forall>n < 12 + bpb fs1. bmap fs' ino' n = bmap fs1 ino1 n"
        "GetSize fs' ino' = max (position + k) (GetSize fs1 ino1)"
        "\<forall>n < fblocks fs1 ino1. \<forall>i < ?bs. fbytes fs' (bmap fs1 ino1 n * ?bs + i) =
           (if n = ?b \<and> ?o \<le> i \<and> i < ?o + k then w ! (i - ?o) else fbytes fs1 (bmap fs1 ino1 n * ?bs + i))"
      using put_bytes [OF io K(1) f1 blk(2) ok1 w(2)] unfolding blk(3) S pos_eq [symmetric] by blast
    have "blk \<in> file_blocks fs1 ino1" using blk(2,3) by (auto simp: file_blocks_def)
    then have kp: "keeps (free_blocks fs \<union> file_blocks fs ino) fs fs'"
      using g1 mc by (intro keeps_mono [OF keeps_trans [OF ok k1 p(1)]]) (auto simp: grows_def)
    have gr: "grows fs ino fs' ino'"
      using g1 p fblocks_le [OF ok f] by (auto simp: grows_def P)
    have sz: "GetSize fs' ino' = max (GetSize fs ino) (position + k)"
    proof (cases "?b < fblocks fs ino")
      case False
      then have "?b = fblocks fs ino" using b(1) by simp
      then have e: "GetSize fs ino = ?b * ?bs" by (rule b(3))
      then have "?o = 0" using pos pos_eq by linarith
      then show ?thesis using sz1 p(7) False e w(1) pos_eq by simp
    qed (use sz1 p(7) in simp)
    have byt: "fbyte fs' ino' a = (if position \<le> a \<and> a < position + k then w ! (a - position) else fbyte fs ino a)" if a: "a < GetSize fs' ino'" for a
    proof -
      let ?n = "a div ?bs" and ?i = "a mod ?bs"
      have n: "?n < fblocks fs1 ino1" using byte_block [OF keepsD(1) [OF p(1)] a] p(5) geo_simps(1) [OF keepsD(2) [OF kp]] by simp
      have i: "?i < ?bs" using bs by simp
      have range: "position \<le> a \<and> a < position + k \<longleftrightarrow> ?n = ?b \<and> ?o \<le> ?i \<and> ?i < ?o + k"
      proof (cases "?n = ?b")
        case True
        then have "a = ?b * ?bs + ?i" by (metis div_mult_mod_eq)
        then show ?thesis using pos_eq True by linarith
      next
        case False
        have "?o + k \<le> ?bs" using ok1 by (simp add: S)
        then have "?b * ?bs \<le> position" "position + k \<le> ?b * ?bs + ?bs" using pos_eq by linarith+
        moreover have "\<not> (?b * ?bs \<le> a \<and> a < ?b * ?bs + ?bs)" using False in_block [OF bs, of ?b a] by (simp add: mult.commute)
        ultimately have "\<not> (position \<le> a \<and> a < position + k)" by linarith
        then show ?thesis using False by simp
      qed
      have "fbyte fs' ino' a = fbytes fs' (bmap fs1 ino1 ?n * ?bs + ?i)"
        using p(6) n fblocks_le [OF K(1) f1] geo_simps(1) [OF keepsD(2) [OF kp]] by (simp add: fbyte_def)
      also have "\<dots> = (if position \<le> a \<and> a < position + k then w ! (?i - ?o) else fbytes fs1 (bmap fs1 ino1 ?n * ?bs + ?i))"
        using p(8) n i range by simp
      also have "\<dots> = (if position \<le> a \<and> a < position + k then w ! (a - position) else fbyte fs ino a)"
      proof (cases "position \<le> a \<and> a < position + k")
        case True
        then have "a - position = ?i - ?o" using range pos_eq by (metis add_diff_cancel_left div_mult_mod_eq)
        then show ?thesis using True by simp
      next
        case False
        then have "a < GetSize fs ino" using a sz pos by auto
        then show ?thesis using G1 [of a] False by (auto simp: fbyte_def S)
      qed
      finally show ?thesis .
    qed
    have "transferred_to fs ino ((!) w) position k fs' ino'" using kp gr sz byt by (simp add: transferred_to_def)
    then show ?thesis using bf K(2) blk(1) wr by blast
  qed
qed

lemma put_refl: "fs_ok fs \<Longrightarrow> file_ok fs ino \<Longrightarrow> position \<le> GetSize fs ino \<Longrightarrow> transferred_to fs ino w position 0 fs ino"
  by (auto simp: transferred_to_def grows_def keeps_refl)

lemma put_cong:
  assumes "transferred_to fs ino w position k fs' ino'" "\<And>i. i < k \<Longrightarrow> w i = w' i"
  shows "transferred_to fs ino w' position k fs' ino'"
proof -
  have "w (a - position) = w' (a - position)" if "position \<le> a" "a < position + k" for a using assms(2) [of "a - position"] that by simp
  then show ?thesis using assms(1) by (auto simp: transferred_to_def)
qed

lemma put_trans:
  assumes ok: "fs_ok fs" and t: "transferred_to fs ino w position k fs1 ino1" "transferred_to fs1 ino1 w' (position + k) m fs' ino'"
    and w: "\<And>i. i < m \<Longrightarrow> w' i = w (k + i)"
  shows "transferred_to fs ino w position (k + m) fs' ino'"
proof -
  note A = t(1) [unfolded transferred_to_def] and B = t(2) [unfolded transferred_to_def]
  have sz: "GetSize fs1 ino1 = max (GetSize fs ino) (position + k)" "GetSize fs' ino' = max (GetSize fs1 ino1) (position + k + m)"
    using A B by auto
  have geo: "geo fs1 = geo fs" using A keepsD(2) by blast
  have "GetSize fs ino + bsize fs - 1 \<le> GetSize fs1 ino1 + bsize fs - 1" using sz(1) by simp
  then have fb: "fblocks fs ino \<le> fblocks fs1 ino1" unfolding fblocks_def geo_simps(1) [OF geo] by (rule div_le_mono)
  have "keeps ((free_blocks fs \<union> file_blocks fs ino) \<union> (free_blocks fs1 \<union> file_blocks fs1 ino1)) fs fs'"
    by (rule keeps_trans [OF ok]) (use A B in auto)
  then have "keeps (free_blocks fs \<union> file_blocks fs ino) fs fs'" by (rule keeps_mono) (use A in \<open>auto simp: grows_def\<close>)
  moreover have "grows fs ino fs' ino'" using A B fb by (auto simp: grows_def)
  moreover have "fbyte fs' ino' a = (if position \<le> a \<and> a < position + (k + m) then w (a - position) else fbyte fs ino a)" if a: "a < GetSize fs' ino'" for a
  proof (cases "position + k \<le> a \<and> a < position + k + m")
    case True
    then have "a - (position + k) < m" "k + (a - (position + k)) = a - position" by auto
    then have "w' (a - (position + k)) = w (a - position)" using w [of "a - (position + k)"] by simp
    then show ?thesis using B True a by auto
  next
    case False
    then have a1: "a < GetSize fs1 ino1" using a sz(2) sz(1) by auto
    have "fbyte fs' ino' a = fbyte fs1 ino1 a" using B False a by auto
    also have "\<dots> = (if position \<le> a \<and> a < position + k then w (a - position) else fbyte fs ino a)" using A a1 by blast
    finally show ?thesis using False by auto
  qed
  ultimately show ?thesis using sz unfolding transferred_to_def by (simp add: max.assoc)
qed

lemma write_loop_spec:
  assumes "io_good io" "fs_ok fs" "file_ok fs ino" "position \<le> GetSize fs ino" "position + left \<le> (12 + bpb fs) * bsize fs" "left \<le> length w"
  shows "\<exists>m ino' fs'. write_loop io w left position ino fs = Some (Inr (left - m), ino', fs') \<and> m \<le> left \<and> (m < left \<longrightarrow> card (free_blocks fs') \<le> 1) \<and>
    transferred_to fs ino ((!) w) position m fs' ino'"
  using assms(2-6)
proof (induction left arbitrary: w position ino fs rule: less_induct)
  case (less left)
  note ok = less.prems(1) and f = less.prems(2)
  show ?case
  proof (cases "left = 0")
    case True
    then show ?thesis using put_refl [OF ok f less.prems(3)] by (subst write_loop.simps) auto
  next
    case False
    let ?bs = "bsize fs" and ?o = "position mod bsize fs"
    define k where "k = min left (?bs - ?o)"
    have k: "0 < k" "k \<le> left" "k \<le> length w" using False bs_pos(1) [OF ok] less.prems(5) by (auto simp: k_def)
    obtain blk ino1 fs1 where bf: "block_for io (position div ?bs) left ino fs = Some (blk, ino1, fs1)" "geo fs1 = geo fs"
      and c: "blk = 0 \<and> card (free_blocks fs1) \<le> 1 \<and> transferred_to fs ino ((!) w) position 0 fs1 ino1 \<or>
        blk \<noteq> 0 \<and> (\<exists>fs2 ino' fs'. vwrite io w (blk * ?bs + ?o) k fs1 = Some (int k, fs2) \<and>
          after_write io (position + k) ino1 fs2 = (ino', fs') \<and> transferred_to fs ino ((!) w) position k fs' ino')"
      using put_step [OF assms(1) ok f less.prems(3) _ less.prems(4) k_def k(3)] False by auto
    show ?thesis using c
    proof (elim disjE exE conjE)
      assume "blk = 0" "card (free_blocks fs1) \<le> 1" "transferred_to fs ino ((!) w) position 0 fs1 ino1"
      then show ?thesis using bf False k(1)
        by (subst write_loop.simps) (auto simp: Let_def k_def intro!: exI [of _ 0])
    next
      fix fs2 ino2 fs3 assume blk: "blk \<noteq> 0" and w2: "vwrite io w (blk * ?bs + ?o) k fs1 = Some (int k, fs2)"
        "after_write io (position + k) ino1 fs2 = (ino2, fs3)" and t: "transferred_to fs ino ((!) w) position k fs3 ino2"
      have T: "fs_ok fs3" "file_ok fs3 ino2" "geo fs3 = geo fs" "position + k \<le> GetSize fs3 ino2"
        using t keepsD(1,2) by (auto simp: transferred_to_def grows_def)
      have step: "write_loop io w left position ino fs = write_loop io (drop k w) (left - k) (position + k) ino2 fs3"
        using bf(1) blk w2 False k(1) by (subst write_loop.simps) (simp add: Let_def flip: k_def)
      have "\<exists>m ino' fs'. write_loop io (drop k w) (left - k) (position + k) ino2 fs3 = Some (Inr (left - k - m), ino', fs') \<and> m \<le> left - k \<and>
          (m < left - k \<longrightarrow> card (free_blocks fs') \<le> 1) \<and> transferred_to fs3 ino2 ((!) (drop k w)) (position + k) m fs' ino'"
        by (rule less.IH) (use T k less.prems keeps_geo(3) [OF ok T(3)] geo_simps(1) [OF T(3)] in auto)
      then obtain m ino' fs' where m: "write_loop io (drop k w) (left - k) (position + k) ino2 fs3 = Some (Inr (left - k - m), ino', fs')" "m \<le> left - k"
        "m < left - k \<longrightarrow> card (free_blocks fs') \<le> 1" "transferred_to fs3 ino2 ((!) (drop k w)) (position + k) m fs' ino'" by blast
      have "transferred_to fs ino ((!) w) position (k + m) fs' ino'" by (rule put_trans [OF ok t m(4)]) (use k(3) in simp)
      then show ?thesis using step m k by (intro exI [of _ "k + m"] exI [of _ ino'] exI [of _ fs']) auto
    qed
  qed
qed

lemma grow_loop_spec:
  assumes "io_good io" "fs_ok fs" "file_ok fs ino" "position = GetSize fs ino" "position + left \<le> (12 + bpb fs) * bsize fs"
  shows "\<exists>m ino' fs'. grow_loop io left position ino fs = Some (Inr (), ino', fs') \<and> m \<le> left \<and> (m < left \<longrightarrow> card (free_blocks fs') \<le> 1) \<and>
    transferred_to fs ino (\<lambda>_. 0) position m fs' ino'"
  using assms(2-5)
proof (induction left arbitrary: position ino fs rule: less_induct)
  case (less left)
  note ok = less.prems(1) and f = less.prems(2)
  have p: "position \<le> GetSize fs ino" using less.prems(3) by simp
  show ?case
  proof (cases "left = 0")
    case True
    then show ?thesis using put_refl [OF ok f p] by (subst grow_loop.simps) auto
  next
    case False
    let ?bs = "bsize fs" and ?o = "position mod bsize fs"
    define k where "k = min left (?bs - ?o)"
    have z: "blockOfZeros fs = replicate ?bs 0" by (rule geo_okD(5) [OF fs_okD(2) [OF ok]])
    have k: "0 < k" "k \<le> left" "k \<le> length (blockOfZeros fs)" "k \<le> ?bs" using False bs_pos(1) [OF ok] z by (auto simp: k_def)
    obtain blk ino1 fs1 where bf: "block_for io (position div ?bs) left ino fs = Some (blk, ino1, fs1)" "geo fs1 = geo fs"
      and c: "blk = 0 \<and> card (free_blocks fs1) \<le> 1 \<and> transferred_to fs ino ((!) (blockOfZeros fs)) position 0 fs1 ino1 \<or>
        blk \<noteq> 0 \<and> (\<exists>fs2 ino' fs'. vwrite io (blockOfZeros fs) (blk * ?bs + ?o) k fs1 = Some (int k, fs2) \<and>
          after_write io (position + k) ino1 fs2 = (ino', fs') \<and> transferred_to fs ino ((!) (blockOfZeros fs)) position k fs' ino')"
      using put_step [OF assms(1) ok f p _ less.prems(4) k_def k(3)] False by auto
    show ?thesis using c
    proof (elim disjE exE conjE)
      assume a: "blk = 0" "card (free_blocks fs1) \<le> 1" "transferred_to fs ino ((!) (blockOfZeros fs)) position 0 fs1 ino1"
      have "transferred_to fs ino (\<lambda>_. 0) position 0 fs1 ino1" by (rule put_cong [OF a(3)]) simp
      then show ?thesis using bf False k(1) a(1,2)
        by (subst grow_loop.simps) (auto simp: Let_def k_def intro!: exI [of _ 0])
    next
      fix fs2 ino2 fs3 assume blk: "blk \<noteq> 0" and w2: "vwrite io (blockOfZeros fs) (blk * ?bs + ?o) k fs1 = Some (int k, fs2)"
        "after_write io (position + k) ino1 fs2 = (ino2, fs3)" and t0: "transferred_to fs ino ((!) (blockOfZeros fs)) position k fs3 ino2"
      have t: "transferred_to fs ino (\<lambda>_. 0) position k fs3 ino2" by (rule put_cong [OF t0]) (use k(4) z in simp)
      have T: "fs_ok fs3" "file_ok fs3 ino2" "geo fs3 = geo fs" "position + k = GetSize fs3 ino2"
        using t keepsD(1,2) less.prems(3) by (auto simp: transferred_to_def grows_def)
      have step: "grow_loop io left position ino fs = grow_loop io (left - k) (position + k) ino2 fs3"
        using bf blk w2 False k(1) geo_simps(6) [OF bf(2)] by (subst grow_loop.simps) (simp add: Let_def flip: k_def)
      have "\<exists>m ino' fs'. grow_loop io (left - k) (position + k) ino2 fs3 = Some (Inr (), ino', fs') \<and> m \<le> left - k \<and>
          (m < left - k \<longrightarrow> card (free_blocks fs') \<le> 1) \<and> transferred_to fs3 ino2 (\<lambda>_. 0) (position + k) m fs' ino'"
        by (rule less.IH) (use T k less.prems keeps_geo(3) [OF ok T(3)] geo_simps(1) [OF T(3)] in auto)
      then obtain m ino' fs' where m: "grow_loop io (left - k) (position + k) ino2 fs3 = Some (Inr (), ino', fs')" "m \<le> left - k"
        "m < left - k \<longrightarrow> card (free_blocks fs') \<le> 1" "transferred_to fs3 ino2 (\<lambda>_. 0) (position + k) m fs' ino'" by blast
      have "transferred_to fs ino (\<lambda>_. 0) position (k + m) fs' ino'" by (rule put_trans [OF ok t m(4)]) simp
      then show ?thesis using step m k by (intro exI [of _ "k + m"] exI [of _ ino'] exI [of _ fs']) auto
    qed
  qed
qed

section \<open>Reading\<close>

lemma access_time:
  shows "i_block (Data (SetAccessTime t ino)) = i_block (Data ino)" "i_size (Data (SetAccessTime t ino)) = i_size (Data ino)"
    "GetSize fs (SetAccessTime t ino) = GetSize fs ino" "bmap fs (SetAccessTime t ino) = bmap fs ino"
    "fblocks fs (SetAccessTime t ino) = fblocks fs ino" "fbyte fs (SetAccessTime t ino) = fbyte fs ino"
    "file_blocks fs (SetAccessTime t ino) = file_blocks fs ino" "file_ok fs (SetAccessTime t ino) = file_ok fs ino"
proof -
  show 1: "i_block (Data (SetAccessTime t ino)) = i_block (Data ino)" "i_size (Data (SetAccessTime t ino)) = i_size (Data ino)"
    "GetSize fs (SetAccessTime t ino) = GetSize fs ino"
    by (simp_all add: SetAccessTime_def upd_data_def GetSize_def Let_def)
  show 2: "bmap fs (SetAccessTime t ino) = bmap fs ino" "fblocks fs (SetAccessTime t ino) = fblocks fs ino"
    by (simp_all add: bmap_def fblocks_def 1 fun_eq_iff)
  show 3: "fbyte fs (SetAccessTime t ino) = fbyte fs ino" "file_blocks fs (SetAccessTime t ino) = file_blocks fs ino"
    by (simp_all add: fbyte_def file_blocks_def 1 2 fun_eq_iff)
  show "file_ok fs (SetAccessTime t ino) = file_ok fs ino" by (simp add: file_ok_def 1 2 3)
qed

lemma read_loop_spec:
  assumes "io_good io" "fs_ok fs" "file_ok fs ino" "position + left \<le> GetSize fs ino"
  shows "\<exists>ino' v. read_loop io left position ino fs = Some (Inr 0, map (fbyte fs ino) [position..<position + left], ino', fs\<lparr>fvol := v\<rparr>) \<and>
    vol_is v (fbytes fs) (flimit fs) \<and> (ino' = ino \<or> ino' = SetAccessTime (now io) ino)"
  using assms(2-4)
proof (induction left arbitrary: position ino fs rule: less_induct)
  case (less left)
  note ok = less.prems(1) and f = less.prems(2)
  show ?case
  proof (cases "left = 0")
    case True
    then show ?thesis using fs_okD(5) [OF ok] by (subst read_loop.simps) (auto intro!: exI [of _ "fvol fs"])
  next
    case False
    let ?bs = "bsize fs" and ?o = "position mod bsize fs" and ?b = "position div bsize fs"
    define k where "k = min left (?bs - ?o)"
    have k: "0 < k" "k \<le> left" "?o + k \<le> ?bs" using False bs_pos(1) [OF ok] mod_less_divisor [OF bs_pos(1) [OF ok], of position] by (auto simp: k_def)
    have b: "?b < fblocks fs ino" by (rule byte_block [OF ok]) (use less.prems(3) False in simp)
    then have bm: "?b < 12 + bpb fs" using fblocks_le [OF ok f] by simp
    note F = file_okD(5) [OF f b]
    have "?b < 2 ^ 32" using bm max_size [OF ok] bs_pos(1) [OF ok] by (metis less_trans u32_less)
    then have ub: "u32 ?b = ?b" by (rule u32_small)
    obtain v where v: "getINodeBlock io ino ?b fs = Some (bmap fs ino ?b, fs\<lparr>fvol := v\<rparr>)" "vol_is v (fbytes fs) (flimit fs)"
      using getINodeBlock_spec [OF assms(1) ok indirect_plain [OF f] bm] by blast
    let ?f = "fs\<lparr>fvol := v\<rparr>"
    note V = same_volume [OF ok v(2)]
    have lim: "(bmap fs ino ?b + 1) * bsize ?f \<le> flimit ?f" using F v(2) by (simp add: data_block_def vol_is_def)
    obtain u where u: "vread io (bmap fs ino ?b * bsize ?f + ?o) k ?f = Some (int k, map (\<lambda>a. fbytes ?f (bmap fs ino ?b * bsize ?f + a)) [?o..<?o + k], ?f\<lparr>fvol := u\<rparr>)"
      "vol_is u (fbytes ?f) (flimit ?f)" by (rule read_block [OF assms(1) V(1) lim, of ?o k]) (use k(3) in simp_all)
    let ?g = "fs\<lparr>fvol := u\<rparr>" and ?ino = "SetAccessTime (now io) ino"
    have u': "vol_is u (fbytes fs) (flimit fs)" using u(2) v(2) by (simp add: vol_is_def)
    note U = same_volume [OF ok u']
    have gr: "grows fs ino ?g ino" by (rule file_same [OF ok f U(3)]) (simp add: U(2))
    have fo: "file_ok ?g ?ino" "GetSize ?g ?ino = GetSize fs ino" using gr GetSize_geo [OF keepsD(2) [OF U(3)]] by (simp_all add: grows_def access_time)
    have fby: "fbyte ?g ?ino a = fbyte fs ino a" if "a < GetSize fs ino" for a
      using grown_bytes [OF ok f keeps_mono [OF U(3)] gr that] by (simp add: access_time)
    have out: "map (\<lambda>a. fbytes ?f (bmap fs ino ?b * bsize ?f + a)) [?o..<?o + k] = map (fbyte fs ino) [position..<position + k]"
    proof (rule nth_equalityI)
      fix i assume "i < length (map (\<lambda>a. fbytes ?f (bmap fs ino ?b * bsize ?f + a)) [?o..<?o + k])"
      then have i: "i < k" by simp
      have "position + i = ?b * ?bs + (?o + i)" by simp
      moreover have "?o + i < ?bs" using i k(3) by simp
      ultimately have "(position + i) div ?bs = ?b" "(position + i) mod ?bs = ?o + i" by (metis div_mult_self3 bs_pos(1) [OF ok] add.right_neutral div_less less_nat_zero_code, metis mod_mult_self3 mod_less)
      then show "map (\<lambda>a. fbytes ?f (bmap fs ino ?b * bsize ?f + a)) [?o..<?o + k] ! i = map (fbyte fs ino) [position..<position + k] ! i"
        using i v(2) by (simp add: fbyte_def vol_is_def)
    qed simp
    have "\<exists>ino' v. read_loop io (left - k) (position + k) ?ino ?g = Some (Inr 0, map (fbyte ?g ?ino) [position + k..<position + k + (left - k)], ino', ?g\<lparr>fvol := v\<rparr>) \<and>
      vol_is v (fbytes ?g) (flimit ?g) \<and> (ino' = ?ino \<or> ino' = SetAccessTime (now io) ?ino)"
      by (rule less.IH [OF _ U(1) fo(1)]) (use k less.prems(3) fo(2) in auto)
    then obtain ino' z where z: "read_loop io (left - k) (position + k) ?ino ?g = Some (Inr 0, map (fbyte ?g ?ino) [position + k..<position + left], ino', fs\<lparr>fvol := z\<rparr>)"
      "vol_is z (fbytes fs) (flimit fs)" "ino' = ?ino \<or> ino' = SetAccessTime (now io) ?ino" using k(2) u' by (auto simp: vol_is_def)
    have tail: "map (fbyte ?g ?ino) [position + k..<position + left] = map (fbyte fs ino) [position + k..<position + left]"
      using fby less.prems(3) by auto
    have all: "[position..<position + left] = [position..<position + k] @ [position + k..<position + left]" using k(2) by (metis le_add_diff_inverse upt_add_eq_append le_add1 add.assoc)
    have nz: "bmap fs ino ?b \<noteq> 0" using F by (auto simp: data_block_def)
    have "read_loop io left position ino fs = Some (Inr 0, map (fbyte fs ino) [position..<position + left], ino', fs\<lparr>fvol := z\<rparr>)"
      unfolding all using v(1) nz u(1) out z(1) tail False k(1) ub by (subst read_loop.simps) (simp add: Let_def flip: k_def)
    moreover have "ino' = ?ino" using z(3) by (auto simp: SetAccessTime_def upd_data_def)
    ultimately show ?thesis using z(2) by blast
  qed
qed

section \<open>Shrinking a file with an indirect block\<close>

text \<open>
  While a file is cut to nothing, the first \<open>j\<close> of its blocks have been freed and their pointers cleared. When the first
  four pointers of the indirect block are 0, the block is taken for unused and freed with all the others in it.
\<close>

definition cut :: "ext2 \<Rightarrow> FSINode \<Rightarrow> nat \<Rightarrow> ext2 \<Rightarrow> FSINode \<Rightarrow> bool" where
  "cut fs ino j fs' ino' \<longleftrightarrow> (let i = i_block (Data ino) ! 12 in
     keeps {i} fs fs' \<and> free_blocks fs' = free_blocks fs \<union> bmap fs ino ` {..<j} \<union> (if j = 16 then {i} else {}) \<and>
     length (i_block (Data ino')) = 15 \<and> (\<forall>n < 12. i_block (Data ino') ! n = (if n < j then 0 else i_block (Data ino) ! n)) \<and>
     i_block (Data ino') ! 12 = (if j = 16 then 0 else i) \<and> (\<forall>e < bpb fs. ptr fs' i e = (if 12 + e < j then 0 else ptr fs i e)) \<and>
     GetSize fs' ino' = GetSize fs ino)"

lemma drop_first_spec:
  assumes io: "io_good io" and ok: "fs_ok fs" and i: "i = i_block (Data ino) ! 12" "data_block fs i" "i \<notin> free_blocks fs"
  shows "\<exists>fs'. drop_first io 12 ino fs =
      Some (True, if \<forall>e < 4. ptr fs i e = 0 then ino\<lparr>Data := (Data ino)\<lparr>i_block := (i_block (Data ino))[12 := 0]\<rparr>\<rparr> else ino, fs') \<and>
    keeps {} fs fs' \<and> free_blocks fs' = (if \<forall>e < 4. ptr fs i e = 0 then insert i (free_blocks fs) else free_blocks fs)"
proof -
  have p: "(i + 1) * bsize fs \<le> flimit fs" using i(2) by (simp add: data_block_def)
  obtain u where u: "isBlockZeroed io i fs = Some (\<forall>e < 4. ptr fs i e = 0, fs\<lparr>fvol := u\<rparr>)" "vol_is u (fbytes fs) (flimit fs)"
    using isBlockZeroed_spec [OF io ok p] by blast
  note U = same_volume [OF ok u(2)]
  show ?thesis
  proof (cases "\<forall>e < 4. ptr fs i e = 0")
    case False
    then have "isBlockZeroed io i fs = Some (False, fs\<lparr>fvol := u\<rparr>)" using u(1) by (simp only:)
    then have "drop_first io 12 ino fs = Some (True, ino, fs\<lparr>fvol := u\<rparr>)" using i(1) by (simp add: drop_first_def)
    then show ?thesis using U(2,3) unfolding if_not_P [OF False] by blast
  next
    case True
    then have z: "isBlockZeroed io i fs = Some (True, fs\<lparr>fvol := u\<rparr>)" using u(1) by simp
    have "data_block (fs\<lparr>fvol := u\<rparr>) i" using i(2) keeps_geo(2) [OF ok keepsD(2) [OF U(3)]] by simp
    then obtain fs' where f: "freeBlock io i (fs\<lparr>fvol := u\<rparr>) = Some (False, fs')" "fs_step (fs\<lparr>fvol := u\<rparr>) fs'" "free_blocks fs' = insert i (free_blocks fs)"
      using freeBlock_spec [OF io U(1), of i] i(3) U(2) by auto
    have "keeps ({} \<union> {}) fs fs'" by (rule keeps_trans [OF ok U(3) fs_step_keeps [OF f(2)]])
    moreover have "drop_first io 12 ino fs = Some (True, ino\<lparr>Data := (Data ino)\<lparr>i_block := (i_block (Data ino))[12 := 0]\<rparr>\<rparr>, fs')"
      using z f(1) i(1) by (simp add: drop_first_def)
    ultimately show ?thesis using True f(3) by (intro exI [of _ fs']) simp
  qed
qed

lemma cut_step:
  assumes io: "io_good io" and ok: "fs_ok fs" and f: "file_ok fs ino" and nb: "16 < fblocks fs ino" and j: "j < 16" and c: "cut fs ino j fs1 ino1"
  shows "\<exists>fs' ino'. shrink_loop io (j # js) ino1 fs1 = shrink_loop io js ino' fs' \<and> cut fs ino (Suc j) fs' ino'"
proof -
  note F = file_okD [OF f] and ib = fblocks_le [OF ok f]
  let ?i = "i_block (Data ino) ! 12" and ?B = "bmap fs ino"
  have i: "?i \<noteq> 0" "data_block fs ?i" "?i \<notin> free_blocks fs" using F(6,9) nb by auto
  have bpb: "4 < bpb fs" using nb ib by simp
  have k1: "keeps {?i} fs fs1" and fr1: "free_blocks fs1 = free_blocks fs \<union> ?B ` {..<j}" and len1: "length (i_block (Data ino1)) = 15"
    and d1: "\<And>n. n < 12 \<Longrightarrow> i_block (Data ino1) ! n = (if n < j then 0 else i_block (Data ino) ! n)" and i1: "i_block (Data ino1) ! 12 = ?i"
    and p1: "\<And>e. e < bpb fs \<Longrightarrow> ptr fs1 ?i e = (if 12 + e < j then 0 else ptr fs ?i e)" and s1: "GetSize fs1 ino1 = GetSize fs ino"
    using c j by (auto simp: cut_def Let_def)
  note K1 = keepsD [OF k1]
  note P1 = keeps_geo [OF ok K1(2)]
  have jb: "j < fblocks fs ino" "j < 12 + bpb fs1" using j nb bpb P1 by auto
  have m: "bmap fs1 ino1 j = ?B j" using d1 [of j] i1 p1 [of "j - 12"] jb(2) P1(3) by (auto simp: bmap_def)
  obtain v where v: "getINodeBlock io ino1 j fs1 = Some (?B j, fs1\<lparr>fvol := v\<rparr>)" "vol_is v (fbytes fs1) (flimit fs1)"
    using getINodeBlock_spec [OF io K1(1) _ jb(2), of ino1] i(2) m P1 by (auto simp: i1 data_block_plain)
  let ?f = "fs1\<lparr>fvol := v\<rparr>"
  note V = same_volume [OF K1(1) v(2)]
  have bj: "data_block fs (?B j)" "?B j \<notin> free_blocks fs" "?B j \<noteq> ?i" using F(5) [OF jb(1)] by auto
  have "?B j \<notin> ?B ` {..<j}"
  proof
    assume "?B j \<in> ?B ` {..<j}"
    then obtain n where "n < j" "?B n = ?B j" by auto
    then show False using F(8) [of n j] jb(1) by simp
  qed
  then have nfr: "?B j \<notin> free_blocks ?f" using bj(2) V(2) fr1 by simp
  have db: "data_block ?f (?B j)" using bj(1) P1 keeps_geo(2) [OF K1(1) keepsD(2) [OF V(3)]] by simp
  obtain fs2 where fs2: "freeBlock io (?B j) ?f = Some (False, fs2)" "fs_step ?f fs2" "free_blocks fs2 = insert (?B j) (free_blocks fs1)"
    using freeBlock_spec [OF io V(1) db nfr] V(2) by auto
  have k12: "keeps {} fs1 fs2" using keeps_trans [OF K1(1) V(3) fs_step_keeps [OF fs2(2)]] by simp
  have k2: "keeps {?i} fs fs2" using keeps_trans [OF ok k1 k12] by simp
  note K2 = keepsD [OF k2]
  note P2 = keeps_geo [OF ok K2(2)]
  have p2: "ptr fs2 ?i e = ptr fs1 ?i e" if "e < bpb fs" for e
    by (rule ptr_kept [OF K1(1) k12]) (use that i(2) P1 in \<open>auto simp: data_block_plain\<close>)
  have fr2: "free_blocks fs2 = free_blocks fs \<union> ?B ` {..<Suc j}" using fs2(3) fr1 by (auto simp: lessThan_Suc)
  have nz: "?B j \<noteq> 0" using bj(1) by (simp add: data_block_def)
  have red: "shrink_loop io (j # js) ino1 fs1 = do { (_, ino, fs) \<leftarrow> setINodeBlock io ino1 j 0 fs2; shrink_loop io js ino fs }"
    using v(1) nz fs2(1) by simp
  show ?thesis
  proof (cases "j < 12")
    case True
    let ?ino = "upd_data (\<lambda>d. d\<lparr>i_block := (i_block d)[j := 0]\<rparr>) ino1"
    have "setINodeBlock io ino1 j 0 fs2 = Some (True, ?ino, fs2)" using True by (simp add: setINodeBlock_def)
    moreover have "cut fs ino (Suc j) fs2 ?ino"
      using k2 fr2 len1 d1 i1 p1 p2 s1 True GetSize_geo [of fs2 fs1 ino1] K1(2) K2(2)
      by (auto simp: cut_def Let_def upd_data_def nth_list_update GetSize_def split: if_splits)
    ultimately show ?thesis using red by (intro exI [of _ fs2] exI [of _ ?ino]) simp
  next
    case False
    let ?e = "j - 12"
    have e: "?e < bpb fs2" using False j bpb P2 by simp
    have pl: "plain fs2 ?i" using i(2) P2 by (simp add: data_block_plain)
    obtain w where w: "vwrite io (le_enc 4 0) (4 * ?e + bsize fs2 * ?i) 4 fs2 = Some (4, fs2\<lparr>fvol := w\<rparr>)"
      "keeps {?i} fs2 (fs2\<lparr>fvol := w\<rparr>)" "free_blocks (fs2\<lparr>fvol := w\<rparr>) = free_blocks fs2"
      "\<And>e'. e' < bpb fs2 \<Longrightarrow> ptr (fs2\<lparr>fvol := w\<rparr>) ?i e' = (if e' = ?e then 0 else ptr fs2 ?i e')"
      by (rule wr32_ptr [OF io K2(1) pl e, of 0]) auto
    let ?g = "fs2\<lparr>fvol := w\<rparr>"
    have kg: "keeps {?i} fs ?g" using keeps_trans [OF ok k2 w(2)] by simp
    have pg: "ptr ?g ?i e = (if 12 + e < Suc j then 0 else ptr fs ?i e)" if "e < bpb fs" for e
      using w(4) [of e] p2 [OF that] p1 [OF that] that P2 False by auto
    have ig: "data_block ?g ?i" "?i \<notin> free_blocks ?g"
      using i keeps_geo(2) [OF ok keepsD(2) [OF kg]] w(3) fr2 F(5) j nb by (auto simp: less_Suc_eq)
    obtain fs' where fs': "drop_first io 12 ino1 ?g =
      Some (True, if \<forall>e < 4. ptr ?g ?i e = 0 then ino1\<lparr>Data := (Data ino1)\<lparr>i_block := (i_block (Data ino1))[12 := 0]\<rparr>\<rparr> else ino1, fs')"
      "keeps {} ?g fs'" "free_blocks fs' = (if \<forall>e < 4. ptr ?g ?i e = 0 then insert ?i (free_blocks ?g) else free_blocks ?g)"
      using drop_first_spec [OF io keepsD(1) [OF kg] i1 [symmetric] ig] by blast
    have z: "(\<forall>e < 4. ptr ?g ?i e = 0) \<longleftrightarrow> j = 15"
    proof
      assume A: "\<forall>e < 4. ptr ?g ?i e = 0"
      show "j = 15"
      proof (rule ccontr)
        assume "j \<noteq> 15"
        then have "ptr ?g ?i (Suc j - 12) = ptr fs ?i (Suc j - 12)" "Suc j - 12 < 4" using pg [of "Suc j - 12"] j False bpb by auto
        moreover have "ptr fs ?i (Suc j - 12) = ?B (Suc j)" using False by (simp add: bmap_def)
        moreover have "?B (Suc j) \<noteq> 0" using F(5) [of "Suc j"] j nb by (auto simp: data_block_def)
        ultimately show False using A by metis
      qed
    qed (use pg bpb in auto)
    let ?ino = "if j = 15 then ino1\<lparr>Data := (Data ino1)\<lparr>i_block := (i_block (Data ino1))[12 := 0]\<rparr>\<rparr> else ino1"
    have js: "j < u32 (12 + bpb fs2)" unfolding max_size(2) [OF K2(1)] using e False by linarith
    have set: "setINodeBlock io ino1 j 0 fs2 = Some (True, ?ino, fs')"
      using False js w(1) fs'(1) i(1) unfolding z
      by (simp add: setINodeBlock_def set_single_def first_level_def i1)
    have kk: "keeps {?i} fs fs'" using keeps_trans [OF ok kg fs'(2)] by simp
    have pp: "ptr fs' ?i e = ptr ?g ?i e" if "e < bpb fs" for e
      by (rule ptr_kept [OF keepsD(1) [OF kg] fs'(2)]) (use that ig(1) keeps_geo(3) [OF ok keepsD(2) [OF kg]] in \<open>auto simp: data_block_plain\<close>)
    have ff: "free_blocks fs' = free_blocks fs \<union> ?B ` {..<Suc j} \<union> (if Suc j = 16 then {?i} else {})"
      using fs'(3) w(3) fr2 unfolding z by auto
    have "GetSize fs' ?ino = GetSize fs' ino1" by (simp add: GetSize_def Let_def)
    then have "GetSize fs' ?ino = GetSize fs ino" using s1 GetSize_geo [of fs' fs1 ino1] K1(2) keepsD(2) [OF kk] by simp
    then have "cut fs ino (Suc j) fs' ?ino"
      using kk ff len1 d1 i1 pp pg False j unfolding cut_def Let_def by (auto split: if_splits)
    then show ?thesis using red set by (intro exI [of _ fs'] exI [of _ ?ino]) simp
  qed
qed

lemma cut_upto:
  assumes io: "io_good io" and ok: "fs_ok fs" and f: "file_ok fs ino" and nb: "16 < fblocks fs ino" and j: "j \<le> 16"
  shows "\<exists>fs' ino'. shrink_loop io [0..<fblocks fs ino] ino fs = shrink_loop io [j..<fblocks fs ino] ino' fs' \<and> cut fs ino j fs' ino'"
  using j
proof (induction j)
  case 0
  have "cut fs ino 0 fs ino" using keeps_refl [OF ok] file_okD(1) [OF f] by (simp add: cut_def Let_def)
  then show ?case by blast
next
  case (Suc j)
  then obtain fs1 ino1 where 1: "shrink_loop io [0..<fblocks fs ino] ino fs = shrink_loop io [j..<fblocks fs ino] ino1 fs1" "cut fs ino j fs1 ino1" by auto
  have "[j..<fblocks fs ino] = j # [Suc j..<fblocks fs ino]" using Suc.prems nb by (simp add: upt_conv_Cons)
  moreover obtain fs' ino' where "shrink_loop io (j # [Suc j..<fblocks fs ino]) ino1 fs1 = shrink_loop io [Suc j..<fblocks fs ino] ino' fs'" "cut fs ino (Suc j) fs' ino'"
    using cut_step [OF io ok f nb _ 1(2)] Suc.prems by (metis Suc_le_lessD)
  ultimately show ?case using 1(1) by metis
qed

lemma truncate_large:
  assumes io: "io_good io" and ok: "fs_ok fs" and f: "file_ok fs ino" and nb: "16 < fblocks fs ino" and boot: "ptr fs 0 4 = 0"
  shows "\<exists>ino' fs'. Resize io 0 ino fs = Some (- EIO, ino', fs') \<and> GetSize fs' ino' = GetSize fs ino \<and>
    free_blocks fs' = free_blocks fs \<union> bmap fs ino ` {..<16} \<union> {i_block (Data ino) ! 12} \<and>
    length (i_block (Data ino')) = 15 \<and> (\<forall>n < 13. i_block (Data ino') ! n = 0)"
proof -
  let ?i = "i_block (Data ino) ! 12"
  note F = file_okD [OF f] and bs = bs_pos(1) [OF ok]
  obtain fs1 ino1 where s: "shrink_loop io [0..<fblocks fs ino] ino fs = shrink_loop io [16..<fblocks fs ino] ino1 fs1" and c: "cut fs ino 16 fs1 ino1"
    using cut_upto [OF io ok f nb, of 16] by auto
  have i: "?i \<noteq> 0" using F(9) nb by simp
  have C: "keeps {?i} fs fs1" "i_block (Data ino1) ! 12 = 0" "\<And>n. n < 12 \<Longrightarrow> i_block (Data ino1) ! n = 0" "GetSize fs1 ino1 = GetSize fs ino"
    "free_blocks fs1 = free_blocks fs \<union> bmap fs ino ` {..<16} \<union> {?i}" "length (i_block (Data ino1)) = 15"
    using c by (auto simp: cut_def Let_def)
  note K = keepsD [OF C(1)]
  note P = keeps_geo [OF ok K(2)]
  have b4: "4 < bpb fs" using nb fblocks_le [OF ok f] by simp
  have "ptr fs1 0 4 = ptr fs 0 4" by (rule ptr_kept [OF ok C(1) F(4) _ b4]) (use i in simp)
  then have m: "bmap fs1 ino1 16 = 0" using C(2) boot by (simp add: bmap_def)
  obtain v where v: "getINodeBlock io ino1 16 fs1 = Some (0, fs1\<lparr>fvol := v\<rparr>)" "vol_is v (fbytes fs1) (flimit fs1)"
    using getINodeBlock_spec [OF io K(1), of ino1 16] F(4) C(2) b4 m P by auto
  note V = same_volume [OF K(1) v(2)]
  have u: "[16..<fblocks fs ino] = 16 # [17..<fblocks fs ino]" using nb by (simp add: upt_conv_Cons)
  have l: "shrink_loop io [0..<fblocks fs ino] ino fs = Some (False, ino1, fs1\<lparr>fvol := v\<rparr>)" unfolding s u using v(1) by simp
  have g: "GetSize fs ino < 2 ^ 32" "GetSize fs ino + (bsize fs - 1) < 2 ^ 32" "0 < GetSize fs ino"
  proof -
    have b: "bsize fs \<le> 65536" "bpb fs \<le> 16384" using geo_okD(4) [OF fs_okD(2) [OF ok]] by (auto simp: bpb_def)
    then have "(12 + bpb fs) * bsize fs \<le> 16396 * 65536" by (intro mult_mono) auto
    then have "GetSize fs ino \<le> 16396 * 65536" using F(3) by (rule le_trans [rotated])
    then show "GetSize fs ino < 2 ^ 32" "GetSize fs ino + (bsize fs - 1) < 2 ^ 32" using b by simp_all
    have "16 * bsize fs < GetSize fs ino" using nb fblocks_less [OF ok] by simp
    then show "0 < GetSize fs ino" by simp
  qed
  have "align (GetSize fs ino) (bsize fs) div bsize fs = fblocks fs ino"
    using align_exact [OF bs g(2)] bs by (simp add: fblocks_def)
  moreover have "u32 ((0 + bsize fs - 1) div bsize fs) = 0" using bs by (simp add: u32_def)
  ultimately have "Resize io 0 ino fs = Some (- EIO, ino1, fs1\<lparr>fvol := v\<rparr>)"
    using l g by (simp add: Resize_def Let_def u32_small)
  moreover have "i_block (Data ino1) ! n = 0" if "n < 13" for n using that C(2,3) by (cases "n = 12") auto
  ultimately show ?thesis using C(4-6) V(2) GetSize_geo [OF keepsD(2) [OF V(3)]] by auto
qed

section \<open>Whole operations\<close>

lemma ext2_read_spec:
  assumes "io_good io" "fs_ok fs" "file_ok fs ino" "m = min n (GetSize fs ino - position)"
  shows "\<exists>ino' fs'. ext2_read io position n ino fs = Some (int m, map (fbyte fs ino) [position..<position + m], ino', fs') \<and>
    fs_ok fs' \<and> file_ok fs' ino' \<and> fbytes fs' = fbytes fs \<and> free_blocks fs' = free_blocks fs"
proof (cases "m = 0")
  case True
  then have "ext2_read io position n ino fs = Some (0, [], ino, fs)" using assms(4) by (auto simp: ext2_read_def Let_def min_def split: if_splits)
  then show ?thesis using True assms by auto
next
  case False
  have pm: "position + m \<le> GetSize fs ino" using assms(4) False by (auto simp: min_def split: if_splits)
  have n: "(if position + n > GetSize fs ino then GetSize fs ino - position else n) = m" using assms(4) by auto
  obtain ino' v where r: "read_loop io m position ino fs = Some (Inr 0, map (fbyte fs ino) [position..<position + m], ino', fs\<lparr>fvol := v\<rparr>)"
    "vol_is v (fbytes fs) (flimit fs)" "ino' = ino \<or> ino' = SetAccessTime (now io) ino"
    using read_loop_spec [OF assms(1-3) pm] by blast
  note V = same_volume [OF assms(2) r(2)]
  have "file_ok (fs\<lparr>fvol := v\<rparr>) ino" using file_same [OF assms(2,3) V(3)] V(2) by (simp add: grows_def)
  then have "file_ok (fs\<lparr>fvol := v\<rparr>) ino'" using r(3) by (auto simp: access_time)
  moreover have "ext2_read io position n ino fs = Some (int m, map (fbyte fs ino) [position..<position + m], ino', fs\<lparr>fvol := v\<rparr>)"
    unfolding ext2_read_def Let_def n using r(1) False by simp
  ultimately show ?thesis using V(1,2) r(2) by (intro exI [of _ ino'] exI [of _ "fs\<lparr>fvol := v\<rparr>"]) (simp add: vol_is_def)
qed

text \<open>Files with other blocks than those an operation changes are left alone.\<close>

definition apart :: "ext2 \<Rightarrow> FSINode \<Rightarrow> FSINode \<Rightarrow> bool" where
  "apart fs ino other \<longleftrightarrow> file_ok fs other \<and> file_blocks fs other \<inter> file_blocks fs ino = {}"

lemma apart_kept:
  assumes ok: "fs_ok fs" and f: "file_ok fs ino" and t: "transferred_to fs ino w position k fs' ino'" and a: "apart fs ino other"
  shows "apart fs' ino' other" "GetSize fs' other = GetSize fs other" "b < GetSize fs other \<Longrightarrow> fbyte fs' other b = fbyte fs other b"
proof -
  have k: "keeps (free_blocks fs \<union> file_blocks fs ino) fs fs'" and g: "grows fs ino fs' ino'" using t by (auto simp: transferred_to_def)
  have o: "file_ok fs other" "file_blocks fs other \<inter> file_blocks fs ino = {}" using a by (auto simp: apart_def)
  have d: "file_blocks fs other \<inter> free_blocks fs = {}" using o(1) by (auto simp: file_ok_def)
  have "0 \<notin> free_blocks fs \<union> file_blocks fs ino" using f by (auto simp: file_ok_def free_blocks_def data_block_def)
  note K = file_kept [OF ok o(1) k _ this]
  have 1: "(free_blocks fs \<union> file_blocks fs ino) \<inter> file_blocks fs other = {}" using o(2) d by auto
  have 2: "free_blocks fs' \<inter> file_blocks fs other = {}" using g d by (auto simp: grows_def)
  have "file_blocks fs' other \<inter> file_blocks fs' ino' = {}" using K(2) [OF 1 2] g o(2) d unfolding grows_def by blast
  then show "apart fs' ino' other" using K(1) [OF 1 2] by (simp add: apart_def)
  show "GetSize fs' other = GetSize fs other" by (rule GetSize_geo [OF keepsD(2) [OF k]])
  show "b < GetSize fs other \<Longrightarrow> fbyte fs' other b = fbyte fs other b" by (rule K(4) [OF 1 2])
qed

lemma ext2_write_spec:
  assumes "io_good io" "fs_ok fs" "file_ok fs ino" "position \<le> GetSize fs ino" "position + n \<le> (12 + bpb fs) * bsize fs" "n \<le> length w"
  shows "\<exists>m ino' fs'. ext2_write io w position n ino fs = Some (int m, ino', fs') \<and> m \<le> n \<and> (m = n \<or> card (free_blocks fs') \<le> 1) \<and>
    transferred_to fs ino ((!) w) position m fs' ino'"
proof -
  obtain m ino' fs' where m: "write_loop io w n position ino fs = Some (Inr (n - m), ino', fs')" "m \<le> n" "m < n \<longrightarrow> card (free_blocks fs') \<le> 1"
    "transferred_to fs ino ((!) w) position m fs' ino'" using write_loop_spec [OF assms] by blast
  have "\<not> GetSize fs ino < position" using assms(4) by simp
  then have "ext2_write io w position n ino fs = Some (int m, ino', fs')" using m(1,2) by (simp add: ext2_write_def)
  then show ?thesis using m(2-4) by (metis le_neq_implies_less)
qed

text \<open>Growing a file fills it with zeros.\<close>

lemma resize_grows:
  assumes "io_good io" "fs_ok fs" "file_ok fs ino" "GetSize fs ino \<le> sz" "sz \<le> (12 + bpb fs) * bsize fs"
  shows "\<exists>m ino' fs'. Resize io sz ino fs = Some (int (GetSize fs ino + m), ino', fs') \<and> GetSize fs ino + m \<le> sz \<and>
    (GetSize fs ino + m = sz \<or> card (free_blocks fs') \<le> 1) \<and> transferred_to fs ino (\<lambda>_. 0) (GetSize fs ino) m fs' ino'"
proof -
  have lt: "GetSize fs ino < 2 ^ 32" "sz < 2 ^ 32" using assms(4,5) max_size(1) [OF assms(2)] by linarith+
  obtain m ino' fs' where m: "grow_loop io (sz - GetSize fs ino) (GetSize fs ino) ino fs = Some (Inr (), ino', fs')" "m \<le> sz - GetSize fs ino"
    "m < sz - GetSize fs ino \<longrightarrow> card (free_blocks fs') \<le> 1" "transferred_to fs ino (\<lambda>_. 0) (GetSize fs ino) m fs' ino'"
    using grow_loop_spec [OF assms(1-3) refl, of "sz - GetSize fs ino"] assms(4,5) by auto
  have sz: "GetSize fs' ino' = GetSize fs ino + m" using m(4) by (simp add: transferred_to_def)
  then have "Resize io sz ino fs = Some (int (GetSize fs ino + m), ino', fs')"
    using m(1,2) lt assms(4) by (simp add: Resize_def Let_def u32_small)
  then show ?thesis using m(2-4) assms(4) by (intro exI [of _ m] exI [of _ ino'] exI [of _ fs']) auto
qed

text \<open>The small volume with its file of 17 blocks and an empty one.\<close>

definition demo_file :: FSINode where
  "demo_file = (FSINode_new 12)\<lparr>Data := (inode_of [])\<lparr>i_mode := 0x8000, i_size := 17408, i_dir_acl := 0, i_block := [4..<16] @ [21, 0, 0]\<rparr>\<rparr>"

definition demo_empty :: FSINode where
  "demo_empty = (FSINode_new 13)\<lparr>Data := (inode_of [])\<lparr>i_mode := 0x8000, i_size := 0, i_dir_acl := 0, i_block := replicate 15 0\<rparr>\<rparr>"

lemma demo_ptr: "e < 256 \<Longrightarrow> ptr demo_fs 21 e = (if e < 5 then 16 + e else 0)" "e < 256 \<Longrightarrow> ptr demo_fs 0 e = 0"
proof -
  have u: "[4 * e..<4 * e + 4] = [4 * e, 4 * e + 1, 4 * e + 2, 4 * e + 3]" by (simp add: upt_rec numeral_eq_Suc)
  have m: "\<not> (21504 + (4 * e + 1)) mod 4 = 0" "\<not> (21504 + (4 * e + 2)) mod 4 = 0" "\<not> (21504 + (4 * e + 3)) mod 4 = 0" "(21504 + 4 * e) mod 4 = 0" by presburger+
  have "unat (of_nat (16 + e) :: byte) = 16 + e" if "e < 5" using that by (simp only: unat_of_nat) (simp add: take_bit_eq_mod)
  then have "unat (16 + of_nat e :: byte) = 16 + e" if "e < 5" using that by simp
  then show "e < 256 \<Longrightarrow> ptr demo_fs 21 e = (if e < 5 then 16 + e else 0)"
    using m unfolding ptr_def u demo_volume demo_fields by (simp add: demo_disk_def)
  show "e < 256 \<Longrightarrow> ptr demo_fs 0 e = 0" unfolding ptr_def u demo_volume demo_fields by (simp add: demo_disk_def)
qed

lemma demo_plain: "plain demo_fs 0" "4 \<le> blk \<Longrightarrow> blk \<le> 32 \<Longrightarrow> data_block demo_fs blk"
  by (auto simp: plain_def data_block_def demo_fields demo_volume demo_meta)

lemma demo_inodes: "length (i_block (Data demo_file)) = 15" "n < 12 \<Longrightarrow> i_block (Data demo_file) ! n = 4 + n" "i_block (Data demo_file) ! 12 = 21"
  "i_size (Data demo_file) = 17408" "length (i_block (Data demo_empty)) = 15" "n < 15 \<Longrightarrow> i_block (Data demo_empty) ! n = 0" "i_size (Data demo_empty) = 0"
  by (simp_all add: demo_file_def demo_empty_def nth_append del: upt_rec_numeral)

lemma demo_size: "GetSize demo_fs demo_file = 17408" "fblocks demo_fs demo_file = 17" "GetSize demo_fs demo_empty = 0" "fblocks demo_fs demo_empty = 0" "bpb demo_fs = 256"
  by (simp_all add: GetSize_def fblocks_def demo_file_def demo_empty_def S_ISREG_def demo_fields bpb_def)

lemma demo_bmap: "n < 268 \<Longrightarrow> bmap demo_fs demo_file n = (if n < 17 then 4 + n else 0)" "n < 268 \<Longrightarrow> bmap demo_fs demo_empty n = 0"
  using demo_ptr [of "n - 12"] by (auto simp: bmap_def demo_inodes)

lemma demo_file_ok: "file_ok demo_fs demo_file" "file_ok demo_fs demo_empty"
  by (rule file_okI; use demo_plain in \<open>auto simp: demo_size demo_fields demo_free demo_inodes demo_bmap\<close>)+

text \<open>What a file holds.\<close>

definition file_bytes :: "ext2 \<Rightarrow> FSINode \<Rightarrow> byte list" where
  "file_bytes fs ino = map (fbyte fs ino) [0..<GetSize fs ino]"

lemma transferred_bytes:
  assumes "transferred_to fs ino w position k fs' ino'" "position \<le> GetSize fs ino"
  shows "file_bytes fs' ino' = take position (file_bytes fs ino) @ map w [0..<k] @ drop (position + k) (file_bytes fs ino)"
proof (rule nth_equalityI)
  have sz: "GetSize fs' ino' = max (GetSize fs ino) (position + k)" using assms(1) by (simp add: transferred_to_def)
  show "length (file_bytes fs' ino') = length (take position (file_bytes fs ino) @ map w [0..<k] @ drop (position + k) (file_bytes fs ino))"
    using sz assms(2) by (simp add: file_bytes_def)
  fix a assume "a < length (file_bytes fs' ino')"
  then have a: "a < GetSize fs' ino'" by (simp add: file_bytes_def)
  then have "fbyte fs' ino' a = (if position \<le> a \<and> a < position + k then w (a - position) else fbyte fs ino a)"
    using assms(1) by (simp add: transferred_to_def)
  then show "file_bytes fs' ino' ! a = (take position (file_bytes fs ino) @ map w [0..<k] @ drop (position + k) (file_bytes fs ino)) ! a"
    using a sz assms(2) by (auto simp: file_bytes_def nth_append)
qed

lemma read_bytes: "position + m \<le> GetSize fs ino \<Longrightarrow> map (fbyte fs ino) [position..<position + m] = take m (drop position (file_bytes fs ino))"
  by (intro nth_equalityI) (auto simp: file_bytes_def)

lemma map_nth_take: "m \<le> length w \<Longrightarrow> map ((!) w) [0..<m] = take m w"
  by (intro nth_equalityI) auto

section \<open>Properties\<close>

text \<open>C7.
  A file is a list of bytes. On a well-formed volume whose transfers succeed, and for a file that the direct and the singly
  indirect blocks can hold, \<open>read\<close> returns the bytes from its position on, as many as there are up to the number asked for;
  \<open>write\<close> at a position inside the file or at its end overwrites the bytes there and appends the rest; growing with \<open>Resize\<close>
  appends zeros. Both write less than asked for only if at most one block is left free. The volume and the file stay
  well-formed, with the block maps, bitmaps and counters the code has updated on the way, new indirect blocks included.
  Well-formed volume: as for C8. Well-formed file: no holes, all its blocks allocated data blocks and different, no
  pointers behind its end; block 0, from which the code reads pointers when there is no indirect block, holds none there.\<close>

theorem file_refines_bytes:
  assumes "io_good io" "fs_ok fs" "file_ok fs ino"
    and "position \<le> GetSize fs ino" "position + n \<le> (12 + bpb fs) * bsize fs" "n \<le> length w"
    and "GetSize fs ino \<le> sz" "sz \<le> (12 + bpb fs) * bsize fs"
  shows "(\<exists>m ino' fs'. ext2_read io position n ino fs = Some (int m, take n (drop position (file_bytes fs ino)), ino', fs') \<and>
            m = min n (GetSize fs ino - position) \<and> fs_ok fs' \<and> file_ok fs' ino' \<and> free_blocks fs' = free_blocks fs) \<and>
         (\<exists>m ino' fs'. ext2_write io w position n ino fs = Some (int m, ino', fs') \<and> fs_ok fs' \<and> file_ok fs' ino' \<and>
            m \<le> n \<and> (m = n \<or> card (free_blocks fs') \<le> 1) \<and>
            file_bytes fs' ino' = take position (file_bytes fs ino) @ take m w @ drop (position + m) (file_bytes fs ino)) \<and>
         (\<exists>m ino' fs'. Resize io sz ino fs = Some (int (GetSize fs ino + m), ino', fs') \<and> fs_ok fs' \<and> file_ok fs' ino' \<and>
            GetSize fs ino + m \<le> sz \<and> (GetSize fs ino + m = sz \<or> card (free_blocks fs') \<le> 1) \<and>
            file_bytes fs' ino' = file_bytes fs ino @ replicate m 0)"
proof (intro conjI)
  let ?m = "min n (GetSize fs ino - position)"
  have "map (fbyte fs ino) [position..<position + ?m] = take ?m (drop position (file_bytes fs ino))" by (rule read_bytes) (use assms(4) in simp)
  also have "\<dots> = take n (drop position (file_bytes fs ino))" by (simp add: file_bytes_def min_def)
  finally show "\<exists>m ino' fs'. ext2_read io position n ino fs = Some (int m, take n (drop position (file_bytes fs ino)), ino', fs') \<and>
            m = min n (GetSize fs ino - position) \<and> fs_ok fs' \<and> file_ok fs' ino' \<and> free_blocks fs' = free_blocks fs"
    using ext2_read_spec [where position = position and n = n, OF assms(1-3) refl] by auto
next
  obtain m ino' fs' where w: "ext2_write io w position n ino fs = Some (int m, ino', fs')" "m \<le> n" "m = n \<or> card (free_blocks fs') \<le> 1"
    "transferred_to fs ino ((!) w) position m fs' ino'" using ext2_write_spec [OF assms(1-6)] by blast
  have "fs_ok fs'" "file_ok fs' ino'" using w(4) keepsD(1) by (auto simp: transferred_to_def grows_def)
  then show "\<exists>m ino' fs'. ext2_write io w position n ino fs = Some (int m, ino', fs') \<and> fs_ok fs' \<and> file_ok fs' ino' \<and>
            m \<le> n \<and> (m = n \<or> card (free_blocks fs') \<le> 1) \<and>
            file_bytes fs' ino' = take position (file_bytes fs ino) @ take m w @ drop (position + m) (file_bytes fs ino)"
    using w transferred_bytes [OF w(4) assms(4)] map_nth_take [of m w] assms(6) by auto
next
  obtain m ino' fs' where r: "Resize io sz ino fs = Some (int (GetSize fs ino + m), ino', fs')" "GetSize fs ino + m \<le> sz"
    "GetSize fs ino + m = sz \<or> card (free_blocks fs') \<le> 1" "transferred_to fs ino (\<lambda>_. 0) (GetSize fs ino) m fs' ino'"
    using resize_grows [OF assms(1-3,7,8)] by blast
  have "fs_ok fs'" "file_ok fs' ino'" using r(4) keepsD(1) by (auto simp: transferred_to_def grows_def)
  moreover have "file_bytes fs' ino' = file_bytes fs ino @ replicate m 0"
    using transferred_bytes [OF r(4) order_refl] by (simp add: file_bytes_def map_replicate_const)
  ultimately show "\<exists>m ino' fs'. Resize io sz ino fs = Some (int (GetSize fs ino + m), ino', fs') \<and> fs_ok fs' \<and> file_ok fs' ino' \<and>
            GetSize fs ino + m \<le> sz \<and> (GetSize fs ino + m = sz \<or> card (free_blocks fs') \<le> 1) \<and>
            file_bytes fs' ino' = file_bytes fs ino @ replicate m 0"
    using r(1-3) by blast
qed

theorem file_refines_bytes_witness:
  "(\<exists>ino' fs'. ext2_read demo_io 17000 2000 demo_file demo_fs = Some (408, drop 17000 (file_bytes demo_fs demo_file), ino', fs')) \<and>
   (\<exists>m ino' fs'. ext2_write demo_io (replicate 2000 7) 17000 2000 demo_file demo_fs = Some (int m, ino', fs') \<and> m \<le> 2000 \<and>
      file_bytes fs' ino' = take 17000 (file_bytes demo_fs demo_file) @ replicate m 7 @ drop (17000 + m) (file_bytes demo_fs demo_file))"
proof -
  have l: "length (file_bytes demo_fs demo_file) = 17408" by (simp add: file_bytes_def demo_size)
  note R = file_refines_bytes [OF demo_io_good demo_fs_ok demo_file_ok(1), of 17000 2000 "replicate 2000 7" 17408]
  then have "\<exists>ino' fs'. ext2_read demo_io 17000 2000 demo_file demo_fs = Some (408, drop 17000 (file_bytes demo_fs demo_file), ino', fs')"
    using l by (auto simp: demo_size demo_fields)
  moreover have "\<exists>m ino' fs'. ext2_write demo_io (replicate 2000 7) 17000 2000 demo_file demo_fs = Some (int m, ino', fs') \<and> m \<le> 2000 \<and>
      file_bytes fs' ino' = take 17000 (file_bytes demo_fs demo_file) @ replicate m 7 @ drop (17000 + m) (file_bytes demo_fs demo_file)"
    using R by (fastforce simp: demo_size demo_fields min_def)
  ultimately show ?thesis by blast
qed

text \<open>C9.
  Writing to one file leaves every other one alone. On a well-formed volume whose transfers succeed and for well-formed
  files (as for C7), a write that starts inside the file or at its end, and ends within what the direct and the singly
  indirect blocks can hold, returns; and a file that shares no block with the written one, data or indirect, keeps all
  its bytes, stays well-formed and still shares no block, although the write takes free blocks for data and pointers.
  (Positions that need doubly or triply indirect blocks are outside the claim.)\<close>

theorem write_leaves_other_files:
  assumes "io_good io" "fs_ok fs" "file_ok fs ino" "apart fs ino other"
    and "position \<le> GetSize fs ino" "position + n \<le> (12 + bpb fs) * bsize fs" "n \<le> length w"
  shows "\<exists>m ino' fs'. ext2_write io w position n ino fs = Some (m, ino', fs') \<and>
    apart fs' ino' other \<and> file_bytes fs' other = file_bytes fs other"
proof -
  obtain m ino' fs' where w: "ext2_write io w position n ino fs = Some (int m, ino', fs')" "transferred_to fs ino ((!) w) position m fs' ino'"
    using ext2_write_spec [OF assms(1-3,5-7)] by blast
  note A = apart_kept [OF assms(2,3) w(2) assms(4)]
  have "file_bytes fs' other = file_bytes fs other" using A(2,3) by (simp add: file_bytes_def)
  then show ?thesis using w(1) A(1) by blast
qed

theorem write_leaves_other_files_witness:
  "\<exists>m ino' fs'. ext2_write demo_io (replicate 2000 7) 0 2000 demo_empty demo_fs = Some (m, ino', fs') \<and>
     file_bytes fs' demo_file = file_bytes demo_fs demo_file"
proof -
  have "apart demo_fs demo_empty demo_file"
    using demo_file_ok(1) by (auto simp: apart_def file_blocks_def demo_size demo_inodes)
  then show ?thesis
    using write_leaves_other_files [OF demo_io_good demo_fs_ok demo_file_ok(2), of demo_file 0 2000 "replicate 2000 7"]
    by (auto simp: demo_size demo_fields)
qed

text \<open>C35.
  On a well-formed volume whose transfers succeed, a well-formed file (as for C7: direct and singly indirect blocks only)
  of more than 16 blocks cannot be cut to nothing, which is how it is removed, provided the double word 4 of block 0 of
  the volume, which the code goes on to take for a pointer, is 0: when the first four pointers of its
  indirect block are cleared, the block is taken for unused and freed with the other pointers still in it. \<open>Resize\<close> then
  returns \<open>-EIO\<close> and leaves the size; the first 16 blocks are free, the file has no pointer to the rest, which stay allocated.\<close>

theorem truncate_large_fails:
  assumes "io_good io" "fs_ok fs" "file_ok fs ino" "16 < fblocks fs ino" "ptr fs 0 4 = 0"
  shows "\<exists>ino' fs'. Resize io 0 ino fs = Some (- EIO, ino', fs') \<and> GetSize fs' ino' = GetSize fs ino \<and>
    free_blocks fs' = free_blocks fs \<union> bmap fs ino ` {..<16} \<union> {i_block (Data ino) ! 12} \<and> take 13 (i_block (Data ino')) = replicate 13 0 \<and>
    bmap fs ino ` {16..<fblocks fs ino} \<inter> free_blocks fs' = {}"
proof -
  note F = file_okD [OF assms(3)]
  obtain ino' fs' where r: "Resize io 0 ino fs = Some (- EIO, ino', fs')" "GetSize fs' ino' = GetSize fs ino" "length (i_block (Data ino')) = 15"
    "free_blocks fs' = free_blocks fs \<union> bmap fs ino ` {..<16} \<union> {i_block (Data ino) ! 12}" "\<forall>n < 13. i_block (Data ino') ! n = 0"
    using truncate_large [OF assms] by blast
  have "bmap fs ino n \<notin> free_blocks fs'" if n: "n \<in> {16..<fblocks fs ino}" for n
  proof -
    have "bmap fs ino n \<noteq> bmap fs ino k" if "k < 16" for k using F(8) [of n k] n that by auto
    then show ?thesis using F(5) [of n] n r(4) by auto
  qed
  then have "bmap fs ino ` {16..<fblocks fs ino} \<inter> free_blocks fs' = {}" by auto
  moreover have "take 13 (i_block (Data ino')) = replicate 13 0" using r(3,5) by (intro nth_equalityI) auto
  ultimately show ?thesis using r(1,2,4) by blast
qed

theorem truncate_large_fails_witness:
  "\<exists>ino' fs'. Resize demo_io 0 demo_file demo_fs = Some (- 5, ino', fs') \<and> GetSize fs' ino' = 17408 \<and> bmap demo_fs demo_file ` {16..<17} \<inter> free_blocks fs' = {}"
  using truncate_large_fails [OF demo_io_good demo_fs_ok demo_file_ok(1)] demo_ptr(2) [of 4] by (auto simp: demo_size)

end
