(* ===== verification/SoftDiv.thy ===== *)
theory SoftDiv
  imports Prelude "HOL-Library.Signed_Division"
begin

text \<open>
  \<open>kernel/softdiv.cpp\<close>: the 64-bit division the compiler calls on a 32-bit machine. The quotient is built one
  bit at a time from the highest one. \<open>None\<close> is the division exception raised for a zero divisor; a signed
  value is the word with its bits, read by \<open>sint\<close>.
\<close>

unbundle bit_operations_syntax

section \<open>The routines\<close>

(* src/kernel/softdiv.cpp:11-19 __udivmoddi4, one turn of the loop *)
fun udivmod_step :: "64 word \<Rightarrow> 64 word \<Rightarrow> nat \<Rightarrow> 64 word \<times> 64 word \<Rightarrow> 64 word \<times> 64 word" where
  "udivmod_step n d i (q, r) =
     (let r = push_bit 1 r OR (drop_bit i n AND 1) in
      if r \<ge> d then (q OR push_bit i 1, r - d) else (q, r))"

(* src/kernel/softdiv.cpp:3-22 __udivmoddi4 *)
definition udivmoddi4 :: "64 word \<Rightarrow> 64 word \<Rightarrow> (64 word \<times> 64 word) option" where
  "udivmoddi4 n d = (if d = 0 then None else Some (fold (udivmod_step n d) (rev [0..<64]) (0, 0)))"

(* src/kernel/softdiv.cpp:24-39 __divmoddi4 *)
definition divmoddi4 :: "64 word \<Rightarrow> 64 word \<Rightarrow> (64 word \<times> 64 word) option" where
  "divmoddi4 n d =
     (let sign = 1;
          (n, sign) = (if n <s 0 then (- n, -1) else (n, sign));
          (d, sign) = (if d <s 0 then (- d, sign * -1) else (d, sign))
      in map_option (\<lambda>(q, r). (q * sign, r)) (udivmoddi4 n d))"

(* src/kernel/softdiv.cpp:41-44 __udivdi3 *)
definition udivdi3 :: "64 word \<Rightarrow> 64 word \<Rightarrow> 64 word option" where
  "udivdi3 n d = map_option fst (udivmoddi4 n d)"

(* src/kernel/softdiv.cpp:46-49 __divdi3 *)
definition divdi3 :: "64 word \<Rightarrow> 64 word \<Rightarrow> 64 word option" where
  "divdi3 n d = map_option fst (divmoddi4 n d)"

(* src/kernel/softdiv.cpp:51-56 __umoddi3 *)
definition umoddi3 :: "64 word \<Rightarrow> 64 word \<Rightarrow> 64 word option" where
  "umoddi3 n d = map_option snd (udivmoddi4 n d)"

(* src/kernel/softdiv.cpp:58-63 __moddi3 *)
definition moddi3 :: "64 word \<Rightarrow> 64 word \<Rightarrow> 64 word option" where
  "moddi3 n d = map_option snd (divmoddi4 n d)"

section \<open>One bit of the quotient\<close>

lemma unat_less_64: "unat (n :: 64 word) < 2 ^ 64"
  using unsigned_less [of n] by simp

lemma shift_in_bit:
  fixes r :: "64 word"
  assumes "unat r < 2 ^ 63"
  shows "unat (push_bit 1 r OR (drop_bit k n AND 1)) = 2 * unat r + unat n div 2 ^ k mod 2"
proof -
  have "unat (push_bit 1 r) = 2 * unat r"
    using assms by (simp only: unsigned_push_bit_eq) (simp add: take_bit_eq_mod push_bit_eq_mult)
  moreover have "unat (drop_bit k n AND 1) = unat n div 2 ^ k mod 2"
    by (simp only: unsigned_and_eq unsigned_drop_bit_eq unsigned_1) (simp add: drop_bit_eq_div and_one_eq take_bit_eq_mod unat_less_64 [simplified])
  moreover have "2 * unat r OR unat n div 2 ^ k mod 2 = 2 * unat r + unat n div 2 ^ k mod 2"
    by (rule disjunctive_add [symmetric]) (cases "even (unat n div 2 ^ k)", auto simp: bit_double_iff bit_1_iff even_iff_mod_2_eq_zero odd_iff_mod_2_eq_one bit_Suc_0_iff)
  ultimately show ?thesis by (simp only: unsigned_or_eq)
qed

lemma set_clear_bit:
  fixes q :: "64 word"
  assumes "unat q = a * 2 ^ Suc k" "k < 64"
  shows "unat (q OR push_bit k 1) = unat q + 2 ^ k"
proof -
  have "unat (push_bit k 1 :: 64 word) = 2 ^ k"
    using assms(2) by (simp only: unsigned_push_bit_eq) (simp add: take_bit_push_bit take_bit_of_1 push_bit_of_1)
  moreover have "a * 2 ^ Suc k OR 2 ^ k = a * 2 ^ Suc k + 2 ^ k"
    by (rule disjunctive_add [symmetric])
      (auto simp: bit_exp_iff bit_push_bit_iff_nat simp flip: push_bit_eq_mult simp del: power_Suc push_bit_Suc)
  ultimately show ?thesis using assms(1) by (simp only: unsigned_or_eq)
qed

section \<open>The loop\<close>

text \<open>
  After the bits from 63 down to \<open>k\<close>, the remainder and the quotient are those of the dividend shifted right by
  \<open>k\<close>. The remainder is at most the part of the dividend that was read, so its shift loses no bit.
\<close>

lemma quotient_step:
  fixes d N b :: nat
  assumes "0 < d" "b < 2"
  shows "(2 * N + b) div d = 2 * (N div d) + (if 2 * (N mod d) + b \<ge> d then 1 else 0)"
    and "(2 * N + b) mod d = (if 2 * (N mod d) + b \<ge> d then 2 * (N mod d) + b - d else 2 * (N mod d) + b)"
proof -
  let ?s = "2 * (N mod d) + b"
  have e: "2 * N + b = d * (2 * (N div d)) + ?s"
  proof -
    have "2 * (d * c + m) + b = d * (2 * c) + (2 * m + b)" for c m by (simp add: algebra_simps)
    from this [of "N div d" "N mod d"] show ?thesis by (simp only: mult_div_mod_eq)
  qed
  have s: "?s < 2 * d" using assms mod_less_divisor [OF assms(1), of N] by linarith
  have "?s div d = (if ?s \<ge> d then 1 else 0)" "?s mod d = (if ?s \<ge> d then ?s - d else ?s)"
    using s assms(1) by (auto simp: div_if [of ?s] mod_if [of ?s])
  then show "(2 * N + b) div d = 2 * (N div d) + (if ?s \<ge> d then 1 else 0)"
    and "(2 * N + b) mod d = (if ?s \<ge> d then ?s - d else ?s)"
    unfolding e using assms(1) by simp_all
qed

lemma udivmod_step_spec:
  assumes d: "0 < unat d" and k: "k < 64"
    and q: "unat q = (unat n div 2 ^ Suc k div unat d) * 2 ^ Suc k" and r: "unat r = unat n div 2 ^ Suc k mod unat d"
    and s: "udivmod_step n d k (q, r) = (q', r')"
  shows "unat q' = (unat n div 2 ^ k div unat d) * 2 ^ k" "unat r' = unat n div 2 ^ k mod unat d"
proof -
  let ?N = "unat n div 2 ^ Suc k"
  define b where "b = unat n div 2 ^ k mod 2"
  have b: "b < 2" by (simp add: b_def)
  have N: "unat n div 2 ^ k = 2 * ?N + b"
    by (simp only: b_def power_Suc2 div_mult2_eq) simp
  have "(1::nat) \<le> 2 ^ k" by simp
  then have "2 ^ 64 \<le> (2 ^ 63 :: nat) * 2 ^ Suc k" by simp
  then have "unat n < 2 ^ 63 * 2 ^ Suc k" by (rule less_le_trans [OF unat_less_64])
  then have "?N < 2 ^ 63" by (simp only: less_mult_imp_div_less)
  moreover have "unat r \<le> ?N" unfolding r by (rule mod_less_eq_dividend)
  ultimately have r2: "unat (push_bit 1 r OR (drop_bit k n AND 1)) = 2 * unat r + b"
    unfolding b_def by (intro shift_in_bit) linarith
  note Q = quotient_step [OF d b, of ?N]
  let ?r = "push_bit 1 r OR (drop_bit k n AND 1)"
  have ge: "?r \<ge> d \<longleftrightarrow> 2 * (?N mod unat d) + b \<ge> unat d"
    by (simp only: word_le_nat_alt r2 r)
  show "unat r' = unat n div 2 ^ k mod unat d"
    unfolding N using s ge Q(2) r2 r by (auto simp: Let_def unat_sub word_le_nat_alt split: if_splits)
  show "unat q' = (unat n div 2 ^ k div unat d) * 2 ^ k"
    unfolding N using s ge Q(1) set_clear_bit [OF q k] q by (auto simp: Let_def algebra_simps split: if_splits)
qed

lemma udivmod_loop:
  assumes "0 < unat d" "k \<le> 64" "fold (udivmod_step n d) (rev [k..<64]) (0, 0) = (q, r)"
  shows "unat q = (unat n div 2 ^ k div unat d) * 2 ^ k \<and> unat r = unat n div 2 ^ k mod unat d"
  using assms(2,3)
proof (induction "64 - k" arbitrary: k q r)
  case 0
  moreover have "unat n div 2 ^ 64 = 0" using unat_less_64 [of n] by simp
  ultimately show ?case by simp
next
  case (Suc m)
  obtain q' r' where l: "fold (udivmod_step n d) (rev [Suc k..<64]) (0, 0) = (q', r')" by fastforce
  have "rev [k..<64] = rev [Suc k..<64] @ [k]" using Suc.hyps(2) by (simp add: upt_conv_Cons)
  then have s: "udivmod_step n d k (q', r') = (q, r)" using Suc.prems(2) l by simp
  have "unat q' = (unat n div 2 ^ Suc k div unat d) * 2 ^ Suc k \<and> unat r' = unat n div 2 ^ Suc k mod unat d"
    using Suc.hyps l by (intro Suc.hyps(1)) auto
  then show ?case using udivmod_step_spec [OF assms(1) _ _ _ s] Suc.hyps(2) by auto
qed

lemma udivmoddi4_eq: "udivmoddi4 n d = (if d = 0 then None else Some (n div d, n mod d))"
proof -
  obtain q r where l: "fold (udivmod_step n d) (rev [0..<64]) (0, 0) = (q, r)" by fastforce
  have "unat q = unat (n div d) \<and> unat r = unat (n mod d)" if "d \<noteq> 0"
    using udivmod_loop [of d 0 n q r] l that by (simp add: unat_div unat_mod unat_gt_0)
  then show ?thesis using l by (simp add: udivmoddi4_def word_unat_eq_iff)
qed

section \<open>Signed division\<close>

text \<open>The operand without its sign; for the least value the negation wraps to itself, whose bits are the magnitude.\<close>

lemma magnitude:
  fixes n :: "64 word"
  shows "(if n <s 0 then - n else n) = of_int \<bar>sint n\<bar>"
  by (simp add: word_sless_alt)

lemma unat_of_int_small: "0 \<le> x \<Longrightarrow> x < 2 ^ 64 \<Longrightarrow> unat (of_int x :: 64 word) = nat x"
  by (simp add: unat_eq_nat_uint uint_word_of_int)

lemma abs_sint_less: "\<bar>sint (n :: 64 word)\<bar> < 2 ^ 64"
  using sint_greater_eq [of n] sint_less [of n] by simp

lemma unat_magnitude: "unat (of_int \<bar>sint n\<bar> :: 64 word) = nat \<bar>sint n\<bar>" for n :: "64 word"
  by (rule unat_of_int_small) (simp_all only: abs_ge_zero abs_sint_less)

lemma divmoddi4_eq:
  assumes "d \<noteq> 0"
  shows "divmoddi4 n d = Some (of_int (sint n sdiv sint d), of_int (\<bar>sint n\<bar> mod \<bar>sint d\<bar>))"
proof -
  let ?n = "of_int \<bar>sint n\<bar> :: 64 word" and ?d = "of_int \<bar>sint d\<bar> :: 64 word"
  let ?s = "(if n <s 0 then -1 else 1) * (if d <s 0 then -1 else 1) :: 64 word"
  have d: "?d \<noteq> 0" using unat_magnitude [of d] assms by (metis abs_eq_0 nat_0_iff abs_le_zero_iff signed_eq_0_iff unsigned_0)
  have "\<bar>sint n\<bar> div \<bar>sint d\<bar> \<le> \<bar>sint n\<bar>" "\<bar>sint n\<bar> mod \<bar>sint d\<bar> \<le> \<bar>sint n\<bar>"
    by (cases "sint n = 0"; simp add: int_div_le_self zmod_le_nonneg_dividend)+
  then have "\<bar>sint n\<bar> div \<bar>sint d\<bar> < 2 ^ 64" "\<bar>sint n\<bar> mod \<bar>sint d\<bar> < 2 ^ 64"
    using abs_sint_less [of n] by linarith+
  moreover have "0 \<le> \<bar>sint n\<bar> div \<bar>sint d\<bar>" "0 \<le> \<bar>sint n\<bar> mod \<bar>sint d\<bar>"
    using assms by (simp_all add: div_int_pos_iff mod_int_pos_iff)
  ultimately have "unat (?n div ?d) = unat (of_int (\<bar>sint n\<bar> div \<bar>sint d\<bar>) :: 64 word)"
    "unat (?n mod ?d) = unat (of_int (\<bar>sint n\<bar> mod \<bar>sint d\<bar>) :: 64 word)"
    by (simp_all only: unat_div unat_mod unat_magnitude unat_of_int_small) (simp_all add: nat_div_distrib nat_mod_distrib)
  then have "?n div ?d = of_int (\<bar>sint n\<bar> div \<bar>sint d\<bar>)" "?n mod ?d = of_int (\<bar>sint n\<bar> mod \<bar>sint d\<bar>)"
    by (simp_all only: word_unat_eq_iff)
  then have "divmoddi4 n d = Some (of_int (\<bar>sint n\<bar> div \<bar>sint d\<bar>) * ?s, of_int (\<bar>sint n\<bar> mod \<bar>sint d\<bar>))"
    using d magnitude [of n] magnitude [of d] by (simp add: divmoddi4_def udivmoddi4_eq Let_def split: if_splits)
  moreover have "of_int (sint n sdiv sint d) = of_int (\<bar>sint n\<bar> div \<bar>sint d\<bar>) * ?s"
    by (simp add: signed_divide_int_def word_sless_alt sgn_if)
  ultimately show ?thesis by simp
qed

section \<open>Properties\<close>

text \<open>C21.
  The bit-by-bit division of the kernel computes division: for every 64-bit dividend and every divisor other
  than 0, \<open>__udivmoddi4\<close>, \<open>__udivdi3\<close> and \<open>__umoddi3\<close> give the quotient and the remainder of the unsigned values,
  \<open>__divdi3\<close> gives the quotient of the signed values rounded towards 0 (wrapped where \<open>INT64_MIN / -1\<close> does not
  fit), and for a divisor 0 each of them raises the exception.\<close>

theorem software_division_exact:
  "udivmoddi4 n d = (if d = 0 then None else Some (n div d, n mod d)) \<and>
   udivdi3 n d = (if d = 0 then None else Some (n div d)) \<and>
   umoddi3 n d = (if d = 0 then None else Some (n mod d)) \<and>
   divdi3 n d = (if d = 0 then None else Some (of_int (sint n sdiv sint d)))"
proof -
  have "divmoddi4 n 0 = None" by (simp add: divmoddi4_def udivmoddi4_eq Let_def)
  then show ?thesis by (simp add: udivmoddi4_eq udivdi3_def umoddi3_def divdi3_def divmoddi4_eq)
qed

text \<open>
  The signed remainder is the remainder of the magnitudes, whatever the sign of the dividend. The language wants
  \<open>n = d * (n / d) + n % d\<close>, with a remainder of the dividend's sign.
\<close>

lemma moddi3_eq: "d \<noteq> 0 \<Longrightarrow> moddi3 n d = Some (of_int (\<bar>sint n\<bar> mod \<bar>sint d\<bar>))"
  by (simp add: moddi3_def divmoddi4_eq)

lemma moddi3_loses_sign:
  "divdi3 (-7) 2 = Some (-3)" "moddi3 (-7) 2 = Some 1" "(-7 :: 64 word) \<noteq> 2 * -3 + 1"
  by (simp_all add: divdi3_def moddi3_def divmoddi4_eq signed_divide_int_def)

end
