(* ===== verification/Spec2Isabelle.thy ===== *)
theory Spec2Isabelle
  imports Bitmap RingQueue ObjQueue PixmapLine WinServer InputHandler Ipc Clock Handles Heap Ext2File SoftDiv
begin

text \<open>
  Verification of the WOOT operating system: an i386 kernel in C++ (\<^verbatim>\<open>src/kernel\<close>), the library \<^verbatim>\<open>libwoot\<close> that
  its user programs are written against (\<^verbatim>\<open>src/user/libwoot\<close>), and the system programs \<^verbatim>\<open>init\<close>,
  \<^verbatim>\<open>inputhandler\<close> and \<^verbatim>\<open>windowmanager\<close>.

  \<^bold>\<open>The system.\<close> The kernel keeps the page frames of the machine in a bitmap, builds two-level page tables from
  them and runs its heap on the pages above its image. Threads move between a ready queue, a suspended list and
  a list of sleepers; the timer interrupt counts sleepers down and picks the next thread. Semaphores and mutexes
  suspend and resume threads; message queues are rings guarded by two semaphores and carry the messages between
  processes; a signal redirects a thread at the end of a system call. A process owns a table of handles, a
  growing array. A drive is read and written through a write-back cache of blocks, partitions are windows on it,
  and the EXT2 file system keeps files on a partition: bitmaps of free blocks, group descriptors with their copies,
  i-nodes whose block maps go through indirect blocks. On the user side a thin layer of system-call wrappers carries an RPC protocol over messages,
  on which the window-manager client rests; pixmaps, lines, blits and rectangles are the drawing library; the
  input daemon forwards device events to the process that owns the keyboard or the mouse. The window manager is an
  RPC server: it keeps the stack of windows with the mouse cursor on top, collects dirty rectangles, and paints the
  windows they meet into a back buffer and from there to the screen.

  \<^bold>\<open>Theories and sources.\<close>
  \<^item> \<^verbatim>\<open>Prelude\<close>: machine integers with their wrap-around, error numbers, alignment, lemmas on lists.
  \<^item> \<^verbatim>\<open>Bitmap\<close> (\<^verbatim>\<open>bitmap.cpp\<close>), \<^verbatim>\<open>RingQueue\<close> (\<^verbatim>\<open>queue.hpp\<close>), \<^verbatim>\<open>ObjQueue\<close> (\<^verbatim>\<open>objectqueue.cpp\<close>, on intrusive next
    pointers), \<^verbatim>\<open>Vec\<close> (\<^verbatim>\<open>vector.hpp\<close>) and \<^verbatim>\<open>NodeList\<close> (\<^verbatim>\<open>list.hpp\<close>): the containers. Each has its representation as
    the class has it, an invariant, and lemmas that every operation acts on an abstract set or list.
  \<^item> \<^verbatim>\<open>Paging\<close> (\<^verbatim>\<open>paging.cpp\<close>): physical memory as frames of double words, reached through the windows of the 4k
    range; the mappings of all address spaces are one map, which \<open>MapPage\<close> and \<open>UnMapPage\<close> update.
  \<^item> \<^verbatim>\<open>Heap\<close> (\<^verbatim>\<open>memory.cpp\<close>, \<^verbatim>\<open>heap.cpp\<close>): the list of blocks, and the pages that a free gives back to \<^verbatim>\<open>Paging\<close>.
  \<^item> \<^verbatim>\<open>Sched\<close> (\<^verbatim>\<open>thread.cpp\<close>), \<^verbatim>\<open>Sync\<close> (\<^verbatim>\<open>semaphore.cpp\<close>, \<^verbatim>\<open>mutex.cpp\<close>), \<^verbatim>\<open>Signals\<close> (\<^verbatim>\<open>signal.cpp\<close>, the entry of
    \<^verbatim>\<open>syscalls.cpp\<close>), \<^verbatim>\<open>Ipc\<close> (\<^verbatim>\<open>messagequeue.hpp\<close>, \<^verbatim>\<open>ipc.cpp\<close>): one state of queues and thread fields. An operation
    that blocks is two definitions, the part before the thread is suspended and the part after it runs again;
    sequences of such steps with timer interrupts and yields between them are inductive relations.
  \<^item> \<^verbatim>\<open>Handles\<close> (\<^verbatim>\<open>process.cpp\<close>): the handle table of a process on \<^verbatim>\<open>Vec\<close>, with the threads of \<^verbatim>\<open>Sync\<close>.
  \<^item> \<^verbatim>\<open>Volume\<close> (\<^verbatim>\<open>bufferedvolume.cpp\<close>, \<^verbatim>\<open>partvolume.cpp\<close>): the cache of a drive with its dirty blocks and their
    replacement, the partition table and the partitions; what a volume holds is one function from positions to bytes.
  \<^item> \<^verbatim>\<open>Ext2\<close> and \<^verbatim>\<open>Ext2File\<close> (\<^verbatim>\<open>ext2/ext2.cpp\<close>, \<^verbatim>\<open>inode.cpp\<close>): on a partition of \<^verbatim>\<open>Volume\<close>, first the structures of a
    volume and the allocation of blocks and i-nodes, then block maps, reading, writing and resizing of files.
  \<^item> \<^verbatim>\<open>SoftDiv\<close> (\<^verbatim>\<open>softdiv.cpp\<close>): the 64-bit division that the compiler calls on the 32-bit machine.
  \<^item> \<^verbatim>\<open>Clock\<close> (\<^verbatim>\<open>time.cpp\<close>, \<^verbatim>\<open>cmos.cpp\<close>): the calendar and the registers of the clock chip.
  \<^item> \<^verbatim>\<open>Rect\<close>, \<^verbatim>\<open>Pixmap\<close>, \<^verbatim>\<open>PixmapLine\<close>, \<^verbatim>\<open>PixmapBlit\<close>, \<^verbatim>\<open>PixmapObj\<close> (\<^verbatim>\<open>rectangle.c\<close>, \<^verbatim>\<open>pixmap.c\<close>): pixels in a byte memory
    with C's address arithmetic; colours, lines, fills, blits; creation and deletion on a heap of objects.
  \<^item> \<^verbatim>\<open>Sys\<close>, \<^verbatim>\<open>Rpc\<close>, \<^verbatim>\<open>Wm\<close>, \<^verbatim>\<open>InputHandler\<close> (\<^verbatim>\<open>input.c\<close>, \<^verbatim>\<open>thread.c\<close>, \<^verbatim>\<open>process.c\<close>, \<^verbatim>\<open>signal.c\<close>, \<^verbatim>\<open>ipc.c\<close>, \<^verbatim>\<open>rpc.c\<close>,
    \<^verbatim>\<open>video.c\<close>, \<^verbatim>\<open>wm.c\<close>, \<^verbatim>\<open>inputhandler.c\<close>, \<^verbatim>\<open>init.c\<close>): programs over a world that holds the answers of the
    kernel to come and the calls made so far.
  \<^item> \<^verbatim>\<open>WinServer\<close> (\<^verbatim>\<open>wm.cpp\<close>, \<^verbatim>\<open>window.cpp\<close>): the window manager, on that world and on the pixmap memory.

  \<^bold>\<open>What is shown.\<close> Refinement: the containers act as sets and lists, the page tables as a map, \<open>Vector\<close> as a
  list, the cached volume as the bytes it holds, a file as a list of bytes. Invariants and safety: no thread is lost from the scheduler's queues, mutual exclusion, isolation of
  address spaces, disjoint heap blocks, no live page freed, handles that never dangle, pixmaps freed once, block
  bitmaps and counters that agree, files that do not touch each other, a cursor that stays on top.
  Liveness: a ready thread runs, a sleeper wakes after its ticks, the input owner is the first to ask.
  Functional behaviour: messages and signals arrive in order, fills, lines and blits draw exactly their pixels,
  an update shows the topmost windows, a resized block keeps its bytes, software division is division, the calendar
  inverts itself. Where the code does not do what it means to, the theorem says what it does: a
  mutex acquired without ownership, a semaphore unit taken twice, a lost wake-up, an unmapped range that clears
  frame 0, a line that never ends, a lock that stays held, a large file that cannot be removed. Each statement
  names its side conditions; where the code misbehaves outside them, a lemma beside the theorem shows how.

  \<^bold>\<open>Interfaces.\<close> \<open>cell_store\<close> is what the frame allocator needs of the bitmap (interpretation \<open>frames\<close>, used in
  \<^verbatim>\<open>Paging\<close>); \<open>mailbox\<close> and its extension \<open>fifo\<close> are what waiting threads and messages need of a queue
  (interpretations \<open>ring\<close> for \<open>Queue\<close>, used in \<^verbatim>\<open>Sync\<close>, and \<open>mq\<close> for the message queue in \<^verbatim>\<open>Ipc\<close>). \<open>byte_store\<close> is
  what a file system needs of a volume whose transfers succeed: reads and writes on a function of bytes (interpretations
  \<open>bvol\<close> for the cached drive and \<open>pvol\<close> for a partition in \<^verbatim>\<open>Volume\<close>, used by \<^verbatim>\<open>Ext2\<close>); \<open>hull_region\<close> is what the
  tracking of dirty rectangles needs of \<open>rcAdd\<close> (interpretation \<open>dirty\<close> in \<^verbatim>\<open>Rect\<close>).

  \<^bold>\<open>Conventions and bounds.\<close> A fault, a halt and a use of freed memory are \<open>None\<close>; an error number is the
  negative result the code returns. Unsigned values are natural numbers with \<open>u32\<close> written where they wrap, or
  words where the code works on bits. Loops with a bound in the code are structural or have a measure; loops
  over linked data that need not end are \<open>partial_function (option)\<close> (\<open>pmLine_loop\<close>, \<open>ReplaceAll_loop\<close>,
  \<open>alloc_search\<close>), and the theorems about them show that they return under the invariant. The programs over
  kernel answers stop when the list of answers ends. Heap requests are bounded by the space above the heap,
  because the code lets larger ones wrap.

  \<^bold>\<open>Not modelled.\<close> Third-party code under \<^verbatim>\<open>src/user\<close> (musl apart from two routines, libpng, zlib), where a call into
  libpng is a parameter that may abort; the drivers (\<^verbatim>\<open>ahci\<close>, \<^verbatim>\<open>ide\<close>, \<^verbatim>\<open>ps2input\<close>, \<^verbatim>\<open>vesafb\<close>, \<^verbatim>\<open>v86\<close>), interrupt and
  descriptor tables and the assembly, which are device protocols and machine state; of EXT2 the directories, mounting and
  the writing of the super block; files, directory entries and the list of file systems and volumes above it; the ELF
  loader; the object tree, named objects and mutexes, and shared memory; strings, streams and the tokenizer; the test
  program \<^verbatim>\<open>usertest\<close>; floating-point conversions of the clock; thread stacks and the processor's translation buffer.
  Allocation failure of the window manager's own vector, drives that transfer less than they report, and the kernel's
  window page table seen as memory are left out of their models, as the theories say.
\<close>

end
